(* ===== verification/Vantyx_Prelude.thy ===== *)
theory Vantyx_Prelude
  imports Main "HOL-Library.Char_ord" "HOL-Library.List_Lexorder" "HOL-Library.AList"
    "HOL-Library.Sublist" "HOL-Library.Product_Lexorder"
begin

text \<open>
  Shared vocabulary of the development.

  Go strings and byte slices are HOL strings: lists of characters, each character one byte.
  Their order is the byte order of Go's \<open><\<close> on strings.  Instants (\<open>time.Time\<close>) are integers
  counting nanoseconds since the zero time, so that \<open>IsZero\<close> is equality with 0, and durations
  are integers in nanoseconds.  Go maps the code iterates over are association lists with
  distinct keys; error returns are the left injection of a sum.

  The theory defines the functions of the Go standard library the sources use (package
  strings, slices, time) and proves the list, map and arithmetic facts that the component
  theories share.
\<close>

named_theorems go_simps \<open>unfoldings of the Go library helpers\<close>
named_theorems inv_simps \<open>unfoldings of component invariants\<close>

type_synonym bytes = "string"
type_synonym instant = int
type_synonym duration = int
type_synonym ('k, 'v) gomap = "('k \<times> 'v) list"

subsection \<open>Machine integers\<close>

text \<open>An \<open>int\<close> and a \<open>time.Duration\<close> have 64 bits: the value an operation leaves behind.\<close>

definition wrap64 :: "int \<Rightarrow> int" where
  "wrap64 n = signed_take_bit 63 n"

lemma wrap64_id: "- (2 ^ 63) \<le> n \<Longrightarrow> n < 2 ^ 63 \<Longrightarrow> wrap64 n = n"
  unfolding wrap64_def by (rule signed_take_bit_int_eq_self) simp_all

subsection \<open>Durations and instants\<close>

abbreviation (input) nanosecond :: duration where "nanosecond \<equiv> 1"

definition second :: duration where "second = 1000000000"
definition minute :: duration where "minute = 60 * second"
definition hour :: duration where "hour = 60 * minute"

lemmas [go_simps] = second_def minute_def hour_def

text \<open>Seconds between the zero time (year 1) and the Unix epoch.\<close>

definition unix_epoch_s :: int where "unix_epoch_s = 62135596800"

definition unix :: "instant \<Rightarrow> int" where
  "unix t = t div 1000000000 - unix_epoch_s"

definition time_unix :: "int \<Rightarrow> instant" where
  "time_unix s = (s + unix_epoch_s) * 1000000000"

definition is_zero :: "instant \<Rightarrow> bool" where
  "is_zero t = (t = 0)"

text \<open>\<open>Sub\<close> saturates at the ends of the 64-bit range.\<close>

definition time_sub :: "instant \<Rightarrow> instant \<Rightarrow> duration" where
  "time_sub t u = max (- (2 ^ 63)) (min (2 ^ 63 - 1) (t - u))"

lemma unix_time_unix [simp]: "unix (time_unix s) = s"
  by (simp add: unix_def time_unix_def)

lemma time_unix_unix: "time_unix (unix t) = t - t mod 1000000000"
  unfolding unix_def time_unix_def by (simp add: minus_mod_eq_mult_div mult.commute)

lemma time_unix_mono [simp]: "time_unix s \<le> time_unix u \<longleftrightarrow> s \<le> u"
  by (simp add: time_unix_def)

lemma time_unix_less [simp]: "time_unix s < time_unix u \<longleftrightarrow> s < u"
  by (simp add: time_unix_def)

lemma unix_mono: "t \<le> u \<Longrightarrow> unix t \<le> unix u"
  by (simp add: unix_def zdiv_mono1)

lemma unix_less_imp: "unix t < unix u \<Longrightarrow> t < u"
  using unix_mono by (meson not_le)

subsection \<open>Slices\<close>

text \<open>The builtin copy: overwrite a prefix of the destination.\<close>

definition go_copy :: "'a list \<Rightarrow> 'a list \<Rightarrow> 'a list" where
  "go_copy dst s = take (length dst) s @ drop (length s) dst"

lemma length_go_copy [simp]: "length (go_copy dst s) = length dst"
  by (simp add: go_copy_def)

lemma go_copy_same: "length dst = length s \<Longrightarrow> go_copy dst s = s"
  by (simp add: go_copy_def)

lemma replicate_num: "replicate (numeral k) x = x # replicate (pred_numeral k) x"
  by (simp add: numeral_eq_Suc)

text \<open>The last \<open>n\<close> elements of a list.\<close>

definition lastn :: "nat \<Rightarrow> 'a list \<Rightarrow> 'a list" where
  "lastn n xs = drop (length xs - n) xs"

lemma length_lastn [simp]: "length (lastn n xs) = min n (length xs)"
  by (simp add: lastn_def)

lemma lastn_short: "length xs \<le> n \<Longrightarrow> lastn n xs = xs"
  by (simp add: lastn_def)

lemma lastn_Nil [simp]: "lastn n [] = []"
  by (simp add: lastn_def)

lemma lastn_append_long: "n \<le> length ys \<Longrightarrow> lastn n (xs @ ys) = lastn n ys"
  by (simp add: lastn_def)

lemma lastn_lastn_append [simp]: "lastn n (lastn n xs @ ys) = lastn n (xs @ ys)"
proof (cases "length xs \<le> n")
  case True
  then show ?thesis by (simp add: lastn_short)
next
  case False
  then show ?thesis by (simp add: lastn_def add.commute)
qed

lemma lastn_snoc: "length xs = n \<Longrightarrow> 0 < n \<Longrightarrow> lastn n (xs @ [x]) = tl xs @ [x]"
  by (cases xs) (simp_all add: lastn_def)

subsection \<open>Strings\<close>

definition has_prefix :: "string \<Rightarrow> string \<Rightarrow> bool" where
  "has_prefix s p = (take (length p) s = p)"

definition has_suffix :: "string \<Rightarrow> string \<Rightarrow> bool" where
  "has_suffix s p = has_prefix (rev s) (rev p)"

lemma has_prefix_iff: "has_prefix s p \<longleftrightarrow> prefix p s"
  unfolding has_prefix_def prefix_def by (metis append_take_drop_id append_eq_conv_conj)

lemma has_prefix_append [simp]: "has_prefix (p @ s) p"
  by (simp add: has_prefix_def)

lemma has_prefixE: "has_prefix s p \<Longrightarrow> (\<And>r. s = p @ r \<Longrightarrow> P) \<Longrightarrow> P"
  by (metis append_take_drop_id has_prefix_def)

lemma has_suffix_append [simp]: "has_suffix (s @ p) p"
  by (simp add: has_suffix_def)

lemma has_suffixE: "has_suffix s p \<Longrightarrow> (\<And>r. s = r @ p \<Longrightarrow> P) \<Longrightarrow> P"
  unfolding has_suffix_def by (metis has_prefixE rev_append rev_rev_ident)

text \<open>Position of the first occurrence of a substring.\<close>

fun index_of :: "string \<Rightarrow> string \<Rightarrow> nat option" where
  "index_of s sub = (if has_prefix s sub then Some 0
     else case s of [] \<Rightarrow> None | _ # r \<Rightarrow> map_option Suc (index_of r sub))"

declare index_of.simps [simp del]

definition contains :: "string \<Rightarrow> string \<Rightarrow> bool" where
  "contains s sub = (index_of s sub \<noteq> None)"

lemma index_of_None: "index_of s sub = None \<Longrightarrow> s \<noteq> xs @ sub @ ys"
proof (induction xs arbitrary: s)
  case Nil
  then show ?case by (auto simp: index_of.simps split: if_splits)
next
  case (Cons x xs)
  then show ?case
    by (subst (asm) (2) index_of.simps) (auto split: if_splits list.splits)
qed

lemma index_of_Some: "index_of s sub = Some i \<Longrightarrow> s = take i s @ sub @ drop (i + length sub) s"
proof (induction s arbitrary: i)
  case Nil
  then show ?case
    by (subst (asm) index_of.simps) (auto simp: has_prefix_def split: if_splits)
next
  case (Cons a s)
  show ?case
  proof (cases "has_prefix (a # s) sub")
    case True
    with Cons.prems have "i = 0" by (simp add: index_of.simps)
    with True show ?thesis by (auto elim: has_prefixE)
  next
    case False
    with Cons.prems obtain j where "index_of s sub = Some j" "i = Suc j"
      by (auto simp: index_of.simps [of "a # s"])
    with Cons.IH [of j] show ?thesis by simp
  qed
qed

lemma contains_iff: "contains s sub \<longleftrightarrow> (\<exists>xs ys. s = xs @ sub @ ys)"
  unfolding contains_def
  by (metis index_of_None index_of_Some not_None_eq)

definition lower_char :: "char \<Rightarrow> char" where
  "lower_char c = (if CHR ''A'' \<le> c \<and> c \<le> CHR ''Z'' then char_of (of_char c + 32 :: nat) else c)"

definition to_lower :: "string \<Rightarrow> string" where
  "to_lower s = map lower_char s"

text \<open>\<open>strings.EqualFold\<close>, on the ASCII letters.\<close>

definition equal_fold :: "string \<Rightarrow> string \<Rightarrow> bool" where
  "equal_fold s t = (to_lower s = to_lower t)"

text \<open>
  \<open>strings.TrimSpace\<close> cuts the UTF-8 encodings of the code points Go classifies as white space.
\<close>

definition space_runes :: "string list" where
  "space_runes = [[CHR 0x09], [CHR 0x0A], [CHR 0x0B], [CHR 0x0C], [CHR 0x0D], [CHR 0x20],
     [CHR 0xC2, CHR 0x85], [CHR 0xC2, CHR 0xA0], [CHR 0xE1, CHR 0x9A, CHR 0x80],
     [CHR 0xE2, CHR 0x80, CHR 0x80], [CHR 0xE2, CHR 0x80, CHR 0x81], [CHR 0xE2, CHR 0x80, CHR 0x82],
     [CHR 0xE2, CHR 0x80, CHR 0x83], [CHR 0xE2, CHR 0x80, CHR 0x84], [CHR 0xE2, CHR 0x80, CHR 0x85],
     [CHR 0xE2, CHR 0x80, CHR 0x86], [CHR 0xE2, CHR 0x80, CHR 0x87], [CHR 0xE2, CHR 0x80, CHR 0x88],
     [CHR 0xE2, CHR 0x80, CHR 0x89], [CHR 0xE2, CHR 0x80, CHR 0x8A], [CHR 0xE2, CHR 0x80, CHR 0xA8],
     [CHR 0xE2, CHR 0x80, CHR 0xA9], [CHR 0xE2, CHR 0x80, CHR 0xAF], [CHR 0xE2, CHR 0x81, CHR 0x9F],
     [CHR 0xE3, CHR 0x80, CHR 0x80]]"

function strip_front :: "string list \<Rightarrow> string \<Rightarrow> string" where
  "strip_front ws s = (case find (\<lambda>w. w \<noteq> [] \<and> has_prefix s w) ws of
     None \<Rightarrow> s | Some w \<Rightarrow> strip_front ws (drop (length w) s))"
  by pat_completeness auto
termination
proof (relation "measure (\<lambda>(_, s). length s)", goal_cases)
  case 1
  show ?case by simp
next
  case (2 ws s w)
  then have "w \<noteq> []" "has_prefix s w" by (auto simp: find_Some_iff)
  then show ?case by (cases s) (auto simp: has_prefix_def)
qed

declare strip_front.simps [simp del]

definition trim_left :: "string \<Rightarrow> string" where
  "trim_left s = strip_front space_runes s"

definition trim_right :: "string \<Rightarrow> string" where
  "trim_right s = rev (strip_front (map rev space_runes) (rev s))"

definition trim_space :: "string \<Rightarrow> string" where
  "trim_space s = trim_right (trim_left s)"

lemma find_in_set: "find P t = Some c \<Longrightarrow> c \<in> set t \<and> P c"
  by (induction t) (auto split: if_splits)

definition starts_in :: "string list \<Rightarrow> string \<Rightarrow> bool" where
  "starts_in ws s = (\<exists>w \<in> set ws. w \<noteq> [] \<and> has_prefix s w)"

lemma strip_front_id: "\<not> starts_in ws s \<Longrightarrow> strip_front ws s = s"
  by (subst strip_front.simps) (auto simp: starts_in_def split: option.split dest!: find_in_set)

lemma strip_front_clean: "\<not> starts_in ws (strip_front ws s)"
proof (induction ws s rule: strip_front.induct)
  case (1 ws s)
  then show ?case
    by (subst strip_front.simps) (auto simp: starts_in_def find_None_iff split: option.split)
qed

lemma strip_front_suffix: "\<exists>p. s = p @ strip_front ws s"
proof (induction ws s rule: strip_front.induct)
  case (1 ws s)
  show ?case
  proof (cases "find (\<lambda>w. w \<noteq> [] \<and> has_prefix s w) ws")
    case None
    then show ?thesis by (subst strip_front.simps) simp
  next
    case (Some w)
    then obtain p where "drop (length w) s = p @ strip_front ws (drop (length w) s)" using 1 by blast
    then have "s = (take (length w) s @ p) @ strip_front ws (drop (length w) s)"
      by (metis append.assoc append_take_drop_id)
    moreover have "strip_front ws s = strip_front ws (drop (length w) s)"
      using Some by (subst strip_front.simps) simp
    ultimately show ?thesis by metis
  qed
qed

lemma trim_right_prefix: "\<exists>q. s = trim_right s @ q"
proof -
  obtain p where "rev s = p @ strip_front (map rev space_runes) (rev s)" using strip_front_suffix by blast
  then have "s = trim_right s @ rev p" unfolding trim_right_def by (metis rev_append rev_rev_ident)
  then show ?thesis by blast
qed

lemma trim_space_idem [simp]: "trim_space (trim_space s) = trim_space s"
proof -
  let ?l = "trim_left s"
  have "\<not> starts_in space_runes ?l" by (simp add: trim_left_def strip_front_clean)
  moreover obtain q where "?l = trim_right ?l @ q" using trim_right_prefix by blast
  ultimately have "\<not> starts_in space_runes (trim_right ?l)"
    unfolding starts_in_def by (metis append.assoc has_prefixE has_prefix_append)
  then have "trim_left (trim_right ?l) = trim_right ?l" by (simp add: trim_left_def strip_front_id)
  moreover have "trim_right (trim_right ?l) = trim_right ?l"
    by (simp add: trim_right_def strip_front_id [OF strip_front_clean])
  ultimately show ?thesis by (simp add: trim_space_def)
qed

text \<open>Strings that start and end with a visible ASCII character are left alone.\<close>

definition visible :: "char \<Rightarrow> bool" where
  "visible c = (32 < (of_char c :: nat) \<and> (of_char c :: nat) < 127)"

lemma strip_front_visible: "\<forall>w \<in> set ws. w \<noteq> [] \<longrightarrow> \<not> visible (hd w) \<Longrightarrow> visible c \<Longrightarrow> strip_front ws (c # s) = c # s"
  by (rule strip_front_id) (auto simp: starts_in_def has_prefix_def neq_Nil_conv)

lemma trim_space_Nil [simp]: "trim_space [] = []"
  by (simp add: trim_space_def trim_left_def trim_right_def strip_front_id starts_in_def has_prefix_def)

lemma trim_space_visible: "visible (hd s) \<Longrightarrow> visible (last s) \<Longrightarrow> trim_space s = s"
proof (cases s)
  case (Cons c r)
  assume v: "visible (hd s)" "visible (last s)"
  have sp: "\<forall>w \<in> set space_runes. w \<noteq> [] \<longrightarrow> \<not> visible (hd w)" "\<forall>w \<in> set (map rev space_runes). w \<noteq> [] \<longrightarrow> \<not> visible (hd w)"
    by (simp_all add: space_runes_def visible_def)
  obtain d q where rq: "rev s = d # q" "d = last s" using Cons by (cases "rev s") (auto simp: last_conv_nth hd_rev [symmetric])
  have "trim_left s = s" using strip_front_visible [OF sp(1)] v Cons by (simp add: trim_left_def)
  moreover
  have "strip_front (map rev space_runes) (rev s) = rev s" unfolding rq(1)
    by (rule strip_front_visible [OF sp(2)]) (use v rq(2) in simp)
  then have "trim_right s = s" by (simp add: trim_right_def)
  ultimately show ?thesis by (simp add: trim_space_def)
qed simp

text \<open>\<open>strconv.Atoi\<close>: optional sign, decimal digits, within the 64-bit range.\<close>

definition is_digit :: "char \<Rightarrow> bool" where
  "is_digit c = (CHR ''0'' \<le> c \<and> c \<le> CHR ''9'')"

definition digit_val :: "char \<Rightarrow> int" where
  "digit_val c = int (of_char c) - 48"

definition digits_val :: "string \<Rightarrow> int" where
  "digits_val s = foldl (\<lambda>n c. n * 10 + digit_val c) 0 s"

definition atoi :: "string \<Rightarrow> int option" where
  "atoi s = (let (neg, ds) = (case s of [] \<Rightarrow> (False, [])
       | c # r \<Rightarrow> if c = CHR ''-'' then (True, r) else if c = CHR ''+'' then (False, r) else (False, s))
     in if ds = [] \<or> \<not> list_all is_digit ds then None
        else let v = (if neg then - digits_val ds else digits_val ds)
          in if - (2 ^ 63) \<le> v \<and> v < 2 ^ 63 then Some v else None)"

fun index_byte :: "string \<Rightarrow> char \<Rightarrow> nat option" where
  "index_byte [] c = None"
| "index_byte (a # s) c = (if a = c then Some 0 else map_option Suc (index_byte s c))"

definition last_index_byte :: "string \<Rightarrow> char \<Rightarrow> nat option" where
  "last_index_byte s c = map_option (\<lambda>i. length s - 1 - i) (index_byte (rev s) c)"

text \<open>\<open>net.SplitHostPort\<close>; \<open>None\<close> is an address error (both results empty).\<close>

definition SplitHostPort :: "string \<Rightarrow> (string \<times> string) option" where
  "SplitHostPort hostport = (case last_index_byte hostport (CHR '':'') of
     None \<Rightarrow> None
   | Some i \<Rightarrow>
      let fin = (\<lambda>host j k. if index_byte (drop j hostport) (CHR ''['') \<noteq> None
                  \<or> index_byte (drop k hostport) (CHR '']'') \<noteq> None then None
                else Some (host, drop (i + 1) hostport))
      in if hd hostport = CHR ''['' then
           (case index_byte hostport (CHR '']'') of None \<Rightarrow> None
            | Some e \<Rightarrow> if e + 1 = i then fin (drop 1 (take e hostport)) 1 (e + 1) else None)
         else if index_byte (take i hostport) (CHR '':'') \<noteq> None then None
         else fin (take i hostport) 0 0)"

subsection \<open>Go maps as association lists\<close>

definition keys :: "('k, 'v) gomap \<Rightarrow> 'k list" where
  "keys m = map fst m"

abbreviation lookup :: "('k, 'v) gomap \<Rightarrow> 'k \<Rightarrow> 'v option" where
  "lookup m k \<equiv> map_of m k"

abbreviation has_key :: "('k, 'v) gomap \<Rightarrow> 'k \<Rightarrow> bool" where
  "has_key m k \<equiv> map_of m k \<noteq> None"

definition wf_map :: "('k, 'v) gomap \<Rightarrow> bool" where
  "wf_map m = distinct (map fst m)"

lemma wf_map_Nil [simp]: "wf_map []"
  by (simp add: wf_map_def)

lemma wf_map_single [simp]: "wf_map [kv]"
  by (simp add: wf_map_def)

lemma wf_map_update [simp]: "wf_map m \<Longrightarrow> wf_map (AList.update k v m)"
  by (simp add: wf_map_def distinct_update)

lemma wf_map_delete [simp]: "wf_map m \<Longrightarrow> wf_map (AList.delete k m)"
  by (simp add: wf_map_def distinct_delete)

lemma wf_map_filter [simp]: "wf_map m \<Longrightarrow> wf_map (filter P m)"
  unfolding wf_map_def by (induction m) auto

lemma map_of_update [simp]: "map_of (AList.update k v m) k' = (if k' = k then Some v else map_of m k')"
  by (simp add: update_conv')

lemma map_of_alist_delete [simp]: "map_of (AList.delete k m) k' = (if k' = k then None else map_of m k')"
  by (simp add: delete_conv')

lemma set_update: "wf_map m \<Longrightarrow> set (AList.update k v m) = insert (k, v) {p \<in> set m. fst p \<noteq> k}"
  unfolding wf_map_def
proof (induction m)
  case (Cons p m)
  then show ?case by (cases p) (auto simp: image_iff)
qed simp

lemma set_delete: "set (AList.delete k m) = {p \<in> set m. fst p \<noteq> k}"
  by (auto simp: AList.delete_eq)

lemma in_set_map_of: "wf_map m \<Longrightarrow> (k, v) \<in> set m \<longleftrightarrow> map_of m k = Some v"
  by (simp add: wf_map_def)

lemma map_of_filter_fst:
  "wf_map m \<Longrightarrow> map_of (filter P m) k = (case map_of m k of None \<Rightarrow> None
     | Some v \<Rightarrow> if P (k, v) then Some v else None)"
  unfolding wf_map_def
proof (induction m)
  case (Cons p m)
  obtain a b where p: "p = (a, b)" by (cases p)
  have "map_of (filter P m) a = None" if "k = a"
    using Cons.prems p by (auto simp: map_of_eq_None_iff)
  with Cons p show ?case by (auto split: option.splits)
qed simp

subsection \<open>Tables\<close>

text \<open>
  A table is the list of its rows.  An UPDATE maps the rows its WHERE clause selects and reports
  how many there were; an upsert-free INSERT appends.
\<close>

definition sql_update :: "('r \<Rightarrow> bool) \<Rightarrow> ('r \<Rightarrow> 'r) \<Rightarrow> 'r list \<Rightarrow> nat \<times> 'r list" where
  "sql_update P f t = (length (filter P t), map (\<lambda>r. if P r then f r else r) t)"

definition sql_delete :: "('r \<Rightarrow> bool) \<Rightarrow> 'r list \<Rightarrow> nat \<times> 'r list" where
  "sql_delete P t = (length (filter P t), filter (\<lambda>r. \<not> P r) t)"

lemma sql_update_none: "fst (sql_update P f t) = 0 \<Longrightarrow> snd (sql_update P f t) = t"
  by (auto simp: sql_update_def filter_empty_conv intro: map_idI)

lemma find_update:
  "(\<And>r. Q (f r) = Q r) \<Longrightarrow>
     find Q (snd (sql_update P f t)) = map_option (\<lambda>r. if P r then f r else r) (find Q t)"
  by (induction t) (auto simp: sql_update_def)

lemma find_unique: "distinct (map k t) \<Longrightarrow> c \<in> set t \<Longrightarrow> find (\<lambda>r. k r = k c) t = Some c"
  by (induction t) (auto simp: image_iff)

lemma keys_update: "(\<And>r. k (f r) = k r) \<Longrightarrow> map k (snd (sql_update P f t)) = map k t"
  by (simp add: sql_update_def)

subsection \<open>Components as transition systems\<close>

text \<open>
  The contract shared by the stateful components: initial states satisfy the invariant and every
  operation keeps it.
\<close>

locale transition_system =
  fixes step :: "'s \<Rightarrow> 's \<Rightarrow> bool"
    and initial :: "'s \<Rightarrow> bool"
    and inv :: "'s \<Rightarrow> bool"
  assumes initial_inv: "initial s \<Longrightarrow> inv s"
    and step_inv: "step s s' \<Longrightarrow> inv s \<Longrightarrow> inv s'"
begin

lemma steps_inv: "step\<^sup>*\<^sup>* s s' \<Longrightarrow> inv s \<Longrightarrow> inv s'"
  by (induction rule: rtranclp_induct) (auto intro: step_inv)

lemma reachable_inv: "initial s \<Longrightarrow> step\<^sup>*\<^sup>* s s' \<Longrightarrow> inv s'"
  using steps_inv initial_inv by blast

end

end
