(* ===== verification/Ring_Buffer.thy ===== *)
theory Ring_Buffer
  imports Vantyx_Prelude
begin

text \<open>
  The terminal replay buffer (\<open>src/internal/session/ringbuf.go\<close>): a fixed array, a write
  position and a length.  Each operation is one atomic step because the code holds the mutex for
  its whole body.  The interface the session layer relies on is the locale \<open>replay_log\<close>; the
  ring buffer is shown to provide it.
\<close>

record RingBuffer =
  rb_buf :: bytes
  rb_cap :: nat
  rb_head :: nat
  rb_size :: nat

definition DefaultRingBufferSize :: int where
  "DefaultRingBufferSize = 256 * 1024"

definition NewRingBuffer :: "int \<Rightarrow> RingBuffer" where
  "NewRingBuffer capacity =
     (let c = nat (if capacity \<le> 0 then DefaultRingBufferSize else capacity)
      in \<lparr>rb_buf = replicate c (CHR 0x00), rb_cap = c, rb_head = 0, rb_size = 0\<rparr>)"

text \<open>One iteration of the byte loop of \<open>Write\<close>.\<close>

definition ring_put :: "char \<Rightarrow> RingBuffer \<Rightarrow> RingBuffer" where
  "ring_put b r = r\<lparr>rb_buf := (rb_buf r)[rb_head r := b],
     rb_head := (rb_head r + 1) mod rb_cap r,
     rb_size := (if rb_size r < rb_cap r then rb_size r + 1 else rb_size r)\<rparr>"

definition ring_Write :: "bytes \<Rightarrow> RingBuffer \<Rightarrow> nat \<times> RingBuffer" where
  "ring_Write p r =
     (if length p = 0 then (0, r)
      else let n = length p in
        if n \<ge> rb_cap r
        then (n, r\<lparr>rb_buf := go_copy (rb_buf r) (drop (length p - rb_cap r) p),
                   rb_head := 0, rb_size := rb_cap r\<rparr>)
        else (n, fold ring_put p r))"

definition ring_Bytes :: "RingBuffer \<Rightarrow> bytes" where
  "ring_Bytes r =
     (if rb_size r = 0 then []
      else let out = replicate (rb_size r) (CHR 0x00) in
        if rb_size r < rb_cap r then go_copy out (take (rb_size r) (rb_buf r))
        else let out = go_copy out (drop (rb_head r) (rb_buf r)) in
          take (rb_cap r - rb_head r) out
            @ go_copy (drop (rb_cap r - rb_head r) out) (take (rb_head r) (rb_buf r)))"

definition ring_Len :: "RingBuffer \<Rightarrow> nat" where
  "ring_Len r = rb_size r"

text \<open>
  \<open>teeWriter.Write\<close>: the wrapped writer is a parameter that returns how many bytes it took and an
  optional error; by the contract of \<open>io.Writer\<close> that count is between 0 and \<open>len p\<close>.
\<close>

definition tee_Write ::
  "('w \<Rightarrow> bytes \<Rightarrow> (nat \<times> 'e option) \<times> 'w) \<Rightarrow> bytes \<Rightarrow> 'w \<times> RingBuffer
     \<Rightarrow> (nat \<times> 'e option) \<times> 'w \<times> RingBuffer" where
  "tee_Write w_Write p s =
     (case s of (w, buf) \<Rightarrow> case w_Write w p of ((n, err), w') \<Rightarrow>
        ((n, err), w', if n > 0 then snd (ring_Write (take n p) buf) else buf))"

definition ring_inv :: "RingBuffer \<Rightarrow> bool" where
  "ring_inv r = (0 < rb_cap r \<and> length (rb_buf r) = rb_cap r \<and> rb_head r < rb_cap r
     \<and> rb_size r \<le> rb_cap r \<and> (rb_size r < rb_cap r \<longrightarrow> rb_head r = rb_size r))"

lemmas ring_defs = ring_put_def ring_Bytes_def ring_Len_def ring_inv_def

subsection \<open>The interface of a replay log\<close>

locale replay_log =
  fixes log_new :: "int \<Rightarrow> 'b"
    and log_write :: "bytes \<Rightarrow> 'b \<Rightarrow> nat \<times> 'b"
    and log_bytes :: "'b \<Rightarrow> bytes"
    and log_cap :: "'b \<Rightarrow> nat"
    and log_inv :: "'b \<Rightarrow> bool"
  assumes new_inv: "log_inv (log_new c)"
    and new_bytes: "log_bytes (log_new c) = []"
    and write_inv: "log_inv r \<Longrightarrow> log_inv (snd (log_write p r))"
    and write_count: "fst (log_write p r) = length p"
    and write_cap: "log_inv r \<Longrightarrow> log_cap (snd (log_write p r)) = log_cap r"
    and write_bytes: "log_inv r \<Longrightarrow>
      log_bytes (snd (log_write p r)) = lastn (log_cap r) (log_bytes r @ p)"
begin

definition writes :: "bytes list \<Rightarrow> 'b \<Rightarrow> 'b" where
  "writes ps r = fold (\<lambda>p r. snd (log_write p r)) ps r"

lemma writes_Cons: "writes (p # ps) r = writes ps (snd (log_write p r))"
  by (simp add: writes_def)

lemma writes_inv: "log_inv r \<Longrightarrow> log_inv (writes ps r) \<and> log_cap (writes ps r) = log_cap r"
  by (induction ps arbitrary: r) (auto simp: writes_def write_inv write_cap)

lemma writes_bytes:
  assumes "log_inv r" and "log_bytes r = lastn (log_cap r) h"
  shows "log_bytes (writes ps r) = lastn (log_cap r) (h @ concat ps)"
  using assms
proof (induction ps arbitrary: r h)
  case Nil
  then show ?case by (simp add: writes_def)
next
  case (Cons p ps)
  have "log_bytes (snd (log_write p r)) = lastn (log_cap r) (h @ p)"
    using Cons.prems by (simp add: write_bytes)
  with Cons.IH [of "snd (log_write p r)" "h @ p"] Cons.prems show ?case
    by (simp add: writes_Cons write_inv write_cap)
qed

lemma replay: "log_bytes (writes ps (log_new c)) = lastn (log_cap (log_new c)) (concat ps)"
  using writes_bytes [of "log_new c" "[]"] by (simp add: new_inv new_bytes)

lemma chunking_irrelevant:
  "concat ps = concat qs \<Longrightarrow> log_bytes (writes ps (log_new c)) = log_bytes (writes qs (log_new c))"
  by (simp add: replay)

end

subsection \<open>The ring buffer provides it\<close>

lemma ring_inv_new: "ring_inv (NewRingBuffer c)"
  by (simp add: ring_inv_def NewRingBuffer_def DefaultRingBufferSize_def Let_def)

lemma ring_Bytes_partial: "ring_inv r \<Longrightarrow> rb_size r < rb_cap r \<Longrightarrow> ring_Bytes r = take (rb_size r) (rb_buf r)"
  by (auto simp: ring_defs Let_def go_copy_same)

lemma ring_Bytes_full:
  "ring_inv r \<Longrightarrow> rb_size r = rb_cap r \<Longrightarrow> ring_Bytes r = drop (rb_head r) (rb_buf r) @ take (rb_head r) (rb_buf r)"
  by (auto simp: ring_defs Let_def go_copy_def)

lemma length_ring_Bytes: "ring_inv r \<Longrightarrow> length (ring_Bytes r) = rb_size r"
  by (cases "rb_size r < rb_cap r") (auto simp: ring_Bytes_partial ring_Bytes_full ring_inv_def)

lemma ring_inv_put: "ring_inv r \<Longrightarrow> ring_inv (ring_put b r) \<and> rb_cap (ring_put b r) = rb_cap r"
  by (auto simp: ring_inv_def ring_put_def)

lemma ring_Bytes_put:
  assumes "ring_inv r"
  shows "ring_Bytes (ring_put b r) = lastn (rb_cap r) (ring_Bytes r @ [b])"
proof (cases "rb_size r < rb_cap r")
  case True
  let ?h = "rb_head r" and ?buf = "rb_buf r"
  have h: "?h = rb_size r" "length ?buf = rb_cap r" "?h < length ?buf"
    using assms True by (auto simp: ring_inv_def)
  have put: "take (Suc ?h) (?buf[?h := b]) = take ?h ?buf @ [b]"
    using h by (simp add: take_Suc_conv_app_nth)
  have "ring_Bytes (ring_put b r) = take ?h ?buf @ [b]"
  proof (cases "Suc ?h < rb_cap r")
    case True
    with h assms put show ?thesis
      using ring_Bytes_partial [of "ring_put b r"] ring_inv_put [OF assms, of b] by (simp add: ring_put_def)
  next
    case False
    with h have "Suc ?h = rb_cap r" by simp
    with h put show ?thesis
      using ring_Bytes_full [of "ring_put b r"] ring_inv_put [OF assms, of b] by (simp add: ring_put_def)
  qed
  moreover have "ring_Bytes r = take ?h ?buf"
    using assms True h by (simp add: ring_Bytes_partial)
  ultimately show ?thesis using h True by (simp add: lastn_short)
next
  case False
  let ?h = "rb_head r" and ?buf = "rb_buf r"
  have h: "rb_size r = rb_cap r" "length ?buf = rb_cap r" "?h < length ?buf" "0 < rb_cap r"
    using assms False by (auto simp: ring_inv_def)
  have old: "ring_Bytes r = drop ?h ?buf @ take ?h ?buf"
    using assms h by (simp add: ring_Bytes_full)
  have tl_old: "tl (ring_Bytes r) = drop (Suc ?h) ?buf @ take ?h ?buf"
    using h old by (simp add: drop_Suc tl_drop)
  have "ring_Bytes (ring_put b r) = drop (Suc ?h) ?buf @ take ?h ?buf @ [b]"
  proof (cases "Suc ?h < rb_cap r")
    case True
    with h assms show ?thesis
      using ring_Bytes_full [of "ring_put b r"] ring_inv_put [OF assms, of b]
      by (simp add: ring_put_def take_Suc_conv_app_nth)
  next
    case False
    with h have eq: "Suc ?h = rb_cap r" by simp
    have "?buf[?h := b] = take ?h ?buf @ [b]"
      using h eq by (simp add: upd_conv_take_nth_drop)
    with h eq show ?thesis
      using ring_Bytes_full [of "ring_put b r"] ring_inv_put [OF assms, of b] by (simp add: ring_put_def)
  qed
  with h tl_old length_ring_Bytes [OF assms] show ?thesis by (simp add: lastn_snoc)
qed

lemma ring_fold_put:
  "ring_inv r \<Longrightarrow> ring_inv (fold ring_put p r) \<and> rb_cap (fold ring_put p r) = rb_cap r
     \<and> ring_Bytes (fold ring_put p r) = lastn (rb_cap r) (ring_Bytes r @ p)"
proof (induction p arbitrary: r)
  case Nil
  then show ?case by (simp add: lastn_short length_ring_Bytes ring_inv_def)
next
  case (Cons b p)
  have "lastn (rb_cap r) (lastn (rb_cap r) (ring_Bytes r @ [b]) @ p) = lastn (rb_cap r) (ring_Bytes r @ b # p)"
    by simp
  with Cons show ?case by (simp add: ring_inv_put ring_Bytes_put)
qed

lemma ring_Write_long:
  assumes "ring_inv r" "rb_cap r \<le> length p"
  shows "ring_inv (snd (ring_Write p r)) \<and> rb_cap (snd (ring_Write p r)) = rb_cap r
     \<and> ring_Bytes (snd (ring_Write p r)) = lastn (rb_cap r) p"
proof -
  let ?r = "snd (ring_Write p r)"
  have r: "?r = r\<lparr>rb_buf := lastn (rb_cap r) p, rb_head := 0, rb_size := rb_cap r\<rparr>"
    using assms by (auto simp: ring_Write_def ring_inv_def go_copy_def lastn_def Let_def)
  have inv: "ring_inv ?r" using assms r by (simp add: ring_inv_def)
  with r show ?thesis by (simp add: ring_Bytes_full)
qed

lemma ring_Write_step:
  assumes "ring_inv r"
  shows "ring_inv (snd (ring_Write p r)) \<and> rb_cap (snd (ring_Write p r)) = rb_cap r
     \<and> ring_Bytes (snd (ring_Write p r)) = lastn (rb_cap r) (ring_Bytes r @ p)"
proof (cases "rb_cap r \<le> length p")
  case True
  then show ?thesis using ring_Write_long [OF assms True] by (simp add: lastn_append_long)
next
  case False
  then show ?thesis
    using ring_fold_put [OF assms, of p] assms
    by (auto simp: ring_Write_def Let_def)
qed

interpretation ring: replay_log NewRingBuffer ring_Write ring_Bytes rb_cap ring_inv
proof (unfold_locales, goal_cases)
  case (1 c)
  show ?case by (rule ring_inv_new)
next
  case (2 c)
  show ?case by (simp add: NewRingBuffer_def ring_Bytes_def Let_def)
next
  case (4 p r)
  show ?case by (simp add: ring_Write_def Let_def)
qed (simp_all add: ring_Write_step)

definition ring_writes :: "bytes list \<Rightarrow> RingBuffer \<Rightarrow> RingBuffer" where
  "ring_writes ps r = fold (\<lambda>p r. snd (ring_Write p r)) ps r"

lemma ring_writes_eq: "ring_writes = ring.writes"
  by (simp add: fun_eq_iff ring_writes_def ring.writes_def)

text \<open>
  C40. Replay is exact: whatever the sequence of writes into a fresh ring buffer of any requested
  capacity (non-positive requests get the 256 KiB default), \<open>Bytes\<close> returns, oldest first, exactly
  the last \<open>cap\<close> bytes of everything written; how the output was cut into writes does not matter.
\<close>

theorem ring_buffer_replay:
  "ring_Bytes (ring_writes ps (NewRingBuffer capacity)) =
     lastn (nat (if capacity \<le> 0 then 262144 else capacity)) (concat ps)"
  unfolding ring_writes_eq ring.replay
  by (simp add: NewRingBuffer_def DefaultRingBufferSize_def Let_def)

fun tee_run :: "('w \<Rightarrow> bytes \<Rightarrow> (nat \<times> 'e option) \<times> 'w) \<Rightarrow> bytes list \<Rightarrow> 'w \<times> RingBuffer
     \<Rightarrow> bytes \<times> 'w \<times> RingBuffer" where
  "tee_run w_Write [] s = ([], s)"
| "tee_run w_Write (p # ps) s = (case tee_Write w_Write p s of ((n, _), s') \<Rightarrow>
     case tee_run w_Write ps s' of (d, s'') \<Rightarrow> (take n p @ d, s''))"

lemma tee_run_step: "ring_inv buf \<Longrightarrow> tee_run w_Write ps (w, buf) = (d, w', buf') \<Longrightarrow>
    ring_inv buf' \<and> rb_cap buf' = rb_cap buf \<and> ring_Bytes buf' = lastn (rb_cap buf) (ring_Bytes buf @ d)"
proof (induction ps arbitrary: w buf d)
  case Nil
  then show ?case using length_ring_Bytes [of buf] by (auto simp: lastn_short ring_inv_def)
next
  case (Cons p ps)
  obtain n err w1 where W: "w_Write w p = ((n, err), w1)" by (metis prod.collapse)
  define buf1 where "buf1 = snd (ring_Write (take n p) buf)"
  have b1: "(if n > 0 then snd (ring_Write (take n p) buf) else buf) = buf1"
    by (simp add: buf1_def ring_Write_def)
  obtain d1 where run: "tee_run w_Write ps (w1, buf1) = (d1, w', buf')" and d: "d = take n p @ d1"
    using Cons.prems W b1 by (auto simp: tee_Write_def split: prod.splits)
  have "ring_inv buf1 \<and> rb_cap buf1 = rb_cap buf
      \<and> ring_Bytes buf1 = lastn (rb_cap buf) (ring_Bytes buf @ take n p)"
    unfolding buf1_def by (rule ring_Write_step [OF Cons.prems(1)])
  with Cons.IH [OF _ run] d show ?case by simp
qed

text \<open>
  A tee keeps the replay buffer in step with the client: through any sequence of writes to any
  underlying writer that obeys the contract of \<open>io.Writer\<close>, the buffer keeps its invariant and
  holds the last \<open>cap\<close> bytes of exactly the bytes the writer reported as delivered.
\<close>

theorem tee_replay:
  "case tee_run w_Write ps (w, NewRingBuffer capacity) of (delivered, w', buf) \<Rightarrow>
     ring_inv buf \<and> ring_Bytes buf = lastn (rb_cap (NewRingBuffer capacity)) delivered"
proof (cases "tee_run w_Write ps (w, NewRingBuffer capacity)")
  case (fields d w' buf)
  with tee_run_step [OF ring_inv_new fields] show ?thesis by (simp add: ring.new_bytes)
qed

end
