(* ===== verification/Session_Manager.thy ===== *)
theory Session_Manager
  imports Ring_Buffer
begin

text \<open>
  The session manager (\<open>src/internal/session/manager.go\<close>).  Session objects live in a heap
  (a list; a pointer is an index) because the map, the session's goroutine and a waiting
  \<open>Stop\<close> hold pointers to the same object.  Each critical section of the code is one operation;
  the interleaving of the operations of several goroutines is the step relation \<open>session_step\<close>.
\<close>

record StartOptions =
  opt_UserID :: string
  opt_TargetID :: string
  opt_TargetName :: string
  opt_Name :: string
  opt_Description :: string

datatype AttachMode = AttachModeWriter | AttachModeViewer

record 'conn AttachReq =
  ar_Conn :: 'conn
  ar_UserID :: string
  ar_Username :: string
  ar_Mode :: AttachMode

datatype session_error = ErrSessionExists

text \<open>
  Where the goroutine of a session stands: inside the bridge callback, past the removal of its map
  entry, or past the deferred close of the done channel.
\<close>

datatype goroutine = InBridge | Removed | DoneClosed

record Session =
  s_id :: string
  s_createdAt :: instant
  s_lastSeen :: instant
  s_keep :: bool
  s_UserID :: string
  s_TargetID :: string
  s_TargetName :: string
  s_Name :: string
  s_Description :: string
  s_Output :: RingBuffer
  s_cancelled :: bool
  s_goroutine :: goroutine

record Manager =
  m_heap :: "Session list"
  m_sessions :: "(string, nat) gomap"
  m_idleWarnAfter :: duration
  m_stopTimeout :: duration

definition NewManager :: Manager where
  "NewManager = \<lparr>m_heap = [], m_sessions = [], m_idleWarnAfter = 0, m_stopTimeout = 8 * second\<rparr>"

text \<open>\<open>Start\<close>; the two readings of the clock are arguments.\<close>

definition mgr_Start :: "string \<Rightarrow> StartOptions \<Rightarrow> instant \<Rightarrow> instant \<Rightarrow> Manager
     \<Rightarrow> session_error + nat \<times> Manager" where
  "mgr_Start sid opts now1 now2 m =
     (if has_key (m_sessions m) sid then Inl ErrSessionExists
      else let sess = \<lparr>s_id = sid, s_createdAt = now1, s_lastSeen = now2, s_keep = False,
             s_UserID = opt_UserID opts, s_TargetID = opt_TargetID opts,
             s_TargetName = opt_TargetName opts, s_Name = opt_Name opts,
             s_Description = opt_Description opts,
             s_Output = NewRingBuffer DefaultRingBufferSize,
             s_cancelled = False, s_goroutine = InBridge\<rparr>;
             ref = length (m_heap m)
        in Inr (ref, m\<lparr>m_heap := m_heap m @ [sess],
                        m_sessions := AList.update sid ref (m_sessions m)\<rparr>))"

definition upd_session :: "nat \<Rightarrow> (Session \<Rightarrow> Session) \<Rightarrow> Manager \<Rightarrow> Manager" where
  "upd_session ref f m = m\<lparr>m_heap := (m_heap m)[ref := f (m_heap m ! ref)]\<rparr>"

text \<open>The two effects of the goroutine after the bridge returned.\<close>

definition goroutine_remove :: "nat \<Rightarrow> Manager \<Rightarrow> Manager" where
  "goroutine_remove ref m = upd_session ref (\<lambda>s. s\<lparr>s_goroutine := Removed\<rparr>)
     (m\<lparr>m_sessions := AList.delete (s_id (m_heap m ! ref)) (m_sessions m)\<rparr>)"

definition goroutine_close :: "nat \<Rightarrow> Manager \<Rightarrow> Manager" where
  "goroutine_close ref m = upd_session ref (\<lambda>s. s\<lparr>s_goroutine := DoneClosed\<rparr>) m"

definition mgr_Get :: "string \<Rightarrow> Manager \<Rightarrow> nat option" where
  "mgr_Get sid m = lookup (m_sessions m) sid"

definition sess_LastSeen :: "nat \<Rightarrow> Manager \<Rightarrow> instant" where
  "sess_LastSeen ref m = s_lastSeen (m_heap m ! ref)"

definition sess_Keep :: "nat \<Rightarrow> Manager \<Rightarrow> bool" where
  "sess_Keep ref m = s_keep (m_heap m ! ref)"

definition SetIdleWarnAfter :: "duration \<Rightarrow> Manager \<Rightarrow> Manager" where
  "SetIdleWarnAfter d m = m\<lparr>m_idleWarnAfter := d\<rparr>"

definition IdleWarnAfter :: "Manager \<Rightarrow> duration" where
  "IdleWarnAfter m = m_idleWarnAfter m"

definition IdleDuration :: "instant \<Rightarrow> nat option \<Rightarrow> Manager \<Rightarrow> duration" where
  "IdleDuration now sess m = (case sess of None \<Rightarrow> 0 | Some ref \<Rightarrow> time_sub now (sess_LastSeen ref m))"

definition SetKeep :: "string \<Rightarrow> bool \<Rightarrow> Manager \<Rightarrow> bool \<times> Manager" where
  "SetKeep sid keep m = (case lookup (m_sessions m) sid of
     None \<Rightarrow> (False, m)
   | Some ref \<Rightarrow> (True, upd_session ref (\<lambda>s. s\<lparr>s_keep := keep\<rparr>) m))"

definition IsIdle :: "instant \<Rightarrow> nat option \<Rightarrow> Manager \<Rightarrow> bool" where
  "IsIdle now sess m = (case sess of None \<Rightarrow> False
   | Some ref \<Rightarrow> if sess_Keep ref m then False
       else if m_idleWarnAfter m \<le> 0 then False
       else IdleDuration now sess m \<ge> m_idleWarnAfter m)"

definition mgr_Touch :: "string \<Rightarrow> instant \<Rightarrow> Manager \<Rightarrow> Manager" where
  "mgr_Touch sid now m = (case lookup (m_sessions m) sid of
     None \<Rightarrow> m
   | Some ref \<Rightarrow> upd_session ref (\<lambda>s. s\<lparr>s_lastSeen := now\<rparr>) m)"

text \<open>
  \<open>Stop\<close>, cut where it releases the lock: the lookup and cancel (\<open>None\<close> when there is nothing to
  stop, so that \<open>Stop\<close> returns true at once), the time it waits, and the two outcomes of the select.
\<close>

definition stop_begin :: "string \<Rightarrow> Manager \<Rightarrow> nat option \<times> Manager" where
  "stop_begin sid m = (case lookup (m_sessions m) sid of
     None \<Rightarrow> (None, m)
   | Some ref \<Rightarrow> (Some ref, upd_session ref (\<lambda>s. s\<lparr>s_cancelled := True\<rparr>) m))"

definition stop_wait :: "Manager \<Rightarrow> duration" where
  "stop_wait m = (if m_stopTimeout m \<le> 0 then 8 * second else m_stopTimeout m)"

definition stop_select :: "string \<Rightarrow> nat \<Rightarrow> bool \<Rightarrow> Manager \<Rightarrow> (bool \<times> Manager) option" where
  "stop_select sid ref timed_out m =
     (if timed_out then Some (False, m\<lparr>m_sessions := AList.delete sid (m_sessions m)\<rparr>)
      else if s_goroutine (m_heap m ! ref) = DoneClosed then Some (True, m)
      else None)"

definition ActiveIDs :: "Manager \<Rightarrow> string list" where
  "ActiveIDs m = map fst (m_sessions m)"

definition ActiveSessionsForUser :: "string \<Rightarrow> Manager \<Rightarrow> nat list" where
  "ActiveSessionsForUser userID m =
     map snd (filter (\<lambda>(_, ref). s_UserID (m_heap m ! ref) = userID) (m_sessions m))"

subsection \<open>Interleavings\<close>

text \<open>
  A world is the manager, the \<open>Stop\<close> calls that are waiting (identifier and pointer), and, as
  history, the identifiers whose \<open>Stop\<close> ran into the timeout.
\<close>

record world =
  w_mgr :: Manager
  w_stops :: "(string \<times> nat) list"
  w_forced :: "string list"

definition init_world :: world where
  "init_world = \<lparr>w_mgr = NewManager, w_stops = [], w_forced = []\<rparr>"

inductive session_step :: "world \<Rightarrow> world \<Rightarrow> bool" where
  start: "mgr_Start sid opts n1 n2 (w_mgr w) = Inr (ref, m') \<Longrightarrow> session_step w (w\<lparr>w_mgr := m'\<rparr>)"
| bridge_returns: "ref < length (m_heap (w_mgr w)) \<Longrightarrow> s_goroutine (m_heap (w_mgr w) ! ref) = InBridge \<Longrightarrow>
    session_step w (w\<lparr>w_mgr := goroutine_remove ref (w_mgr w)\<rparr>)"
| closes_done: "ref < length (m_heap (w_mgr w)) \<Longrightarrow> s_goroutine (m_heap (w_mgr w) ! ref) = Removed \<Longrightarrow>
    session_step w (w\<lparr>w_mgr := goroutine_close ref (w_mgr w)\<rparr>)"
| idle_setting: "session_step w (w\<lparr>w_mgr := SetIdleWarnAfter d (w_mgr w)\<rparr>)"
| keeps: "session_step w (w\<lparr>w_mgr := snd (SetKeep sid keep (w_mgr w))\<rparr>)"
| touches: "session_step w (w\<lparr>w_mgr := mgr_Touch sid now (w_mgr w)\<rparr>)"
| stop_begins: "stop_begin sid (w_mgr w) = (Some ref, m') \<Longrightarrow>
    session_step w (w\<lparr>w_mgr := m', w_stops := (sid, ref) # w_stops w\<rparr>)"
| stop_sees_done: "(sid, ref) \<in> set (w_stops w) \<Longrightarrow> stop_select sid ref False (w_mgr w) = Some (True, m') \<Longrightarrow>
    session_step w (w\<lparr>w_mgr := m', w_stops := remove1 (sid, ref) (w_stops w)\<rparr>)"
| stop_times_out: "(sid, ref) \<in> set (w_stops w) \<Longrightarrow> stop_select sid ref True (w_mgr w) = Some (False, m') \<Longrightarrow>
    session_step w (w\<lparr>w_mgr := m', w_stops := remove1 (sid, ref) (w_stops w),
      w_forced := sid # w_forced w\<rparr>)"

text \<open>
  The invariant: the map has distinct keys, each entry points at an object that carries that
  identifier and whose goroutine has not yet removed it, each waiting \<open>Stop\<close> holds a pointer to a
  cancelled object of its identifier, every session still in its bridge is in the map unless a
  \<open>Stop\<close> for its identifier timed out, and every buffer keeps its own invariant.
\<close>

definition entry_ok :: "Manager \<Rightarrow> string \<times> nat \<Rightarrow> bool" where
  "entry_ok m e = (case e of (sid, ref) \<Rightarrow> ref < length (m_heap m) \<and> s_id (m_heap m ! ref) = sid
     \<and> s_goroutine (m_heap m ! ref) = InBridge)"

definition stop_ok :: "Manager \<Rightarrow> string \<times> nat \<Rightarrow> bool" where
  "stop_ok m e = (case e of (sid, ref) \<Rightarrow> ref < length (m_heap m) \<and> s_id (m_heap m ! ref) = sid
     \<and> s_cancelled (m_heap m ! ref))"

definition listed :: "Manager \<Rightarrow> string list \<Rightarrow> nat \<Rightarrow> bool" where
  "listed m forced ref = (s_goroutine (m_heap m ! ref) = InBridge \<longrightarrow>
     s_id (m_heap m ! ref) \<in> set forced \<or> lookup (m_sessions m) (s_id (m_heap m ! ref)) = Some ref)"

definition session_inv :: "world \<Rightarrow> bool" where
  "session_inv w = (wf_map (m_sessions (w_mgr w))
     \<and> (\<forall>e \<in> set (m_sessions (w_mgr w)). entry_ok (w_mgr w) e)
     \<and> (\<forall>e \<in> set (w_stops w). stop_ok (w_mgr w) e)
     \<and> (\<forall>ref < length (m_heap (w_mgr w)). listed (w_mgr w) (w_forced w) ref)
     \<and> (\<forall>s \<in> set (m_heap (w_mgr w)). ring_inv (s_Output s)))"

lemmas session_preds = entry_ok_def stop_ok_def listed_def

lemma upd_session_simps [simp]:
  "m_sessions (upd_session ref f m) = m_sessions m"
  "length (m_heap (upd_session ref f m)) = length (m_heap m)"
  "i < length (m_heap m) \<Longrightarrow>
     m_heap (upd_session ref f m) ! i = (if i = ref then f (m_heap m ! i) else m_heap m ! i)"
  by (auto simp: upd_session_def nth_list_update)

text \<open>An update of one object that keeps its identifier, goroutine state, cancellation and output.\<close>

lemma session_inv_upd:
  assumes "session_inv w" "ref < length (m_heap (w_mgr w))"
    and "\<And>s. s_id (f s) = s_id s" "\<And>s. s_goroutine (f s) = s_goroutine s"
    and "\<And>s. s_cancelled s \<Longrightarrow> s_cancelled (f s)" "\<And>s. s_Output (f s) = s_Output s"
  shows "session_inv (w\<lparr>w_mgr := upd_session ref f (w_mgr w)\<rparr>)"
proof -
  have "\<forall>s \<in> set (m_heap (upd_session ref f (w_mgr w))). ring_inv (s_Output s)"
    using assms(1,2,6) by (auto simp: session_inv_def upd_session_def dest!: set_update_subset_insert [THEN subsetD])
  moreover have "entry_ok (upd_session ref f (w_mgr w)) e = entry_ok (w_mgr w) e" for e
    using assms(3,4) by (auto simp: entry_ok_def split: prod.splits if_splits)
  moreover have "stop_ok (w_mgr w) e \<Longrightarrow> stop_ok (upd_session ref f (w_mgr w)) e" for e
    using assms(3,5) by (auto simp: stop_ok_def split: prod.splits)
  moreover have "i < length (m_heap (w_mgr w)) \<Longrightarrow>
      listed (upd_session ref f (w_mgr w)) fs i = listed (w_mgr w) fs i" for i fs
    using assms(3,4) by (auto simp: listed_def)
  ultimately show ?thesis using assms(1) by (simp add: session_inv_def)
qed

lemma session_inv_lookup:
  assumes "session_inv w" "lookup (m_sessions (w_mgr w)) sid = Some ref"
  shows "ref < length (m_heap (w_mgr w)) \<and> s_id (m_heap (w_mgr w) ! ref) = sid
     \<and> s_goroutine (m_heap (w_mgr w) ! ref) = InBridge"
  using assms by (auto simp: session_inv_def entry_ok_def dest!: map_of_SomeD)

lemma session_inv_init: "session_inv init_world"
  by (simp add: session_inv_def init_world_def NewManager_def)

lemma session_inv_start:
  assumes "session_inv w" "mgr_Start sid opts n1 n2 (w_mgr w) = Inr (ref, m')"
  shows "session_inv (w\<lparr>w_mgr := m'\<rparr>)"
proof -
  have free: "lookup (m_sessions (w_mgr w)) sid = None"
    using assms(2) by (auto simp: mgr_Start_def split: if_splits)
  from assms(2) obtain sess where m': "m' = (w_mgr w)\<lparr>m_heap := m_heap (w_mgr w) @ [sess],
      m_sessions := AList.update sid (length (m_heap (w_mgr w))) (m_sessions (w_mgr w))\<rparr>"
    and sess: "s_id sess = sid" "s_goroutine sess = InBridge" "ring_inv (s_Output sess)"
    by (auto simp: mgr_Start_def Let_def ring_inv_new split: if_splits)
  show ?thesis using assms(1) sess free
    by (auto simp: session_inv_def m' session_preds set_update nth_append less_Suc_eq
        split: prod.splits)
qed

lemma session_inv_remove:
  assumes inv: "session_inv w" and ref: "ref < length (m_heap (w_mgr w))"
    and run: "s_goroutine (m_heap (w_mgr w) ! ref) = InBridge"
  shows "session_inv (w\<lparr>w_mgr := goroutine_remove ref (w_mgr w)\<rparr>)"
proof -
  let ?m = "w_mgr w" and ?m' = "goroutine_remove ref (w_mgr w)"
  let ?sid = "s_id (m_heap ?m ! ref)"
  have sess: "m_sessions ?m' = AList.delete ?sid (m_sessions ?m)"
    and len: "length (m_heap ?m') = length (m_heap ?m)"
    by (simp_all add: goroutine_remove_def)
  have heap: "m_heap ?m' ! i = (if i = ref then (m_heap ?m ! i)\<lparr>s_goroutine := Removed\<rparr> else m_heap ?m ! i)"
    if "i < length (m_heap ?m)" for i using that by (simp add: goroutine_remove_def)
  have "\<forall>s \<in> set (m_heap ?m'). ring_inv (s_Output s)"
    using inv ref by (auto simp: session_inv_def goroutine_remove_def upd_session_def
        dest!: set_update_subset_insert [THEN subsetD])
  moreover have "listed ?m' (w_forced w) i" if "i < length (m_heap ?m)" for i
  proof (cases "s_goroutine (m_heap ?m ! i) = InBridge \<and> i \<noteq> ref \<and> s_id (m_heap ?m ! i) = ?sid")
    case True
    then have "s_id (m_heap ?m ! i) \<in> set (w_forced w)"
      using inv run ref that unfolding session_inv_def listed_def by (metis option.inject)
    then show ?thesis using that heap by (simp add: listed_def)
  next
    case False
    then show ?thesis using inv that heap sess by (auto simp: session_inv_def listed_def)
  qed
  ultimately show ?thesis using inv
    by (auto simp: session_inv_def sess len heap set_delete entry_ok_def stop_ok_def split: prod.splits)
qed

lemma session_inv_close:
  assumes inv: "session_inv w" and ref: "ref < length (m_heap (w_mgr w))"
    and run: "s_goroutine (m_heap (w_mgr w) ! ref) = Removed"
  shows "session_inv (w\<lparr>w_mgr := goroutine_close ref (w_mgr w)\<rparr>)"
proof -
  have "\<forall>s \<in> set (m_heap (goroutine_close ref (w_mgr w))). ring_inv (s_Output s)"
    using inv ref by (auto simp: session_inv_def goroutine_close_def upd_session_def
        dest!: set_update_subset_insert [THEN subsetD])
  then show ?thesis using inv run
    by (auto simp: session_inv_def goroutine_close_def session_preds split: prod.splits)
qed

lemma session_inv_forced:
  "session_inv w \<Longrightarrow> session_inv (w\<lparr>w_mgr := (w_mgr w)\<lparr>m_sessions := AList.delete sid (m_sessions (w_mgr w))\<rparr>,
      w_stops := remove1 e (w_stops w), w_forced := sid # w_forced w\<rparr>)"
  by (auto simp: session_inv_def set_delete session_preds dest!: set_remove1_subset [THEN subsetD] split: prod.splits)

lemma session_inv_stop_begin:
  assumes "session_inv w" "stop_begin sid (w_mgr w) = (Some ref, m')"
  shows "session_inv (w\<lparr>w_mgr := m', w_stops := (sid, ref) # w_stops w\<rparr>)"
proof -
  have look: "lookup (m_sessions (w_mgr w)) sid = Some ref"
    and m': "m' = upd_session ref (\<lambda>s. s\<lparr>s_cancelled := True\<rparr>) (w_mgr w)"
    using assms(2) by (auto simp: stop_begin_def split: option.splits)
  from session_inv_lookup [OF assms(1) look]
  have ok: "ref < length (m_heap (w_mgr w))" "s_id (m_heap (w_mgr w) ! ref) = sid" by auto
  have "session_inv (w\<lparr>w_mgr := m'\<rparr>)"
    unfolding m' by (rule session_inv_upd [OF assms(1) ok(1)]) auto
  with ok show ?thesis by (auto simp: session_inv_def m' stop_ok_def)
qed

lemma session_inv_step: "session_step w w' \<Longrightarrow> session_inv w \<Longrightarrow> session_inv w'"
proof (induction rule: session_step.induct)
  case (keeps w sid keep)
  then show ?case
    by (auto simp: SetKeep_def split: option.splits intro!: session_inv_upd dest: session_inv_lookup)
next
  case (touches w sid now)
  then show ?case
    by (auto simp: mgr_Touch_def split: option.splits intro!: session_inv_upd dest: session_inv_lookup)
next
  case (idle_setting w d)
  then show ?case by (auto simp: SetIdleWarnAfter_def session_inv_def session_preds split: prod.splits)
next
  case (stop_sees_done sid ref w m')
  then show ?case
    by (auto simp: stop_select_def session_inv_def dest!: set_remove1_subset [THEN subsetD] split: if_splits)
next
  case (stop_times_out sid ref w m')
  then show ?case using session_inv_forced [of w sid] by (auto simp: stop_select_def)
qed (auto intro: session_inv_start session_inv_remove session_inv_close session_inv_stop_begin)

interpretation session_system: transition_system session_step "\<lambda>w. w = init_world" session_inv
  by unfold_locales (auto simp: session_inv_init intro: session_inv_step)

lemmas session_inv_reachable = session_system.reachable_inv [OF refl]

text \<open>
  A session whose goroutine outlives a timed-out \<open>Stop\<close> deletes by identifier when it ends at last:
  had the identifier been reused, it would drop the entry of its successor.  Identifiers are random,
  which is what the code relies on here.
\<close>

lemma late_goroutine_removes_by_id:
  assumes "ref < length (m_heap m)" "s_id (m_heap m ! ref) = sid"
  shows "mgr_Get sid (goroutine_remove ref m) = None"
  using assms by (simp add: mgr_Get_def goroutine_remove_def)

lemma touch_not_idle:
  "mgr_Get sid m = Some ref \<Longrightarrow> ref < length (m_heap m) \<Longrightarrow> 0 < m_idleWarnAfter m \<Longrightarrow>
     IsIdle now (Some ref) (mgr_Touch sid now m) = False"
  by (simp add: mgr_Get_def IsIdle_def mgr_Touch_def IdleDuration_def sess_LastSeen_def time_sub_def
      upd_session_def)

text \<open>
  Whatever the interleaving of starts, stops, timeouts, touches and ending bridges, the active
  identifiers are distinct, \<open>Get\<close> only returns a session of the requested identifier whose
  goroutine still runs, and every running session whose identifier was never force-removed by a
  timed-out \<open>Stop\<close> is found by \<open>Get\<close>: no session is lost or listed after its end.
\<close>

theorem active_sessions_exact:
  assumes "session_step\<^sup>*\<^sup>* init_world w"
  shows "distinct (ActiveIDs (w_mgr w))
    \<and> (\<forall>sid ref. mgr_Get sid (w_mgr w) = Some ref \<longrightarrow> ref < length (m_heap (w_mgr w))
         \<and> s_id (m_heap (w_mgr w) ! ref) = sid \<and> s_goroutine (m_heap (w_mgr w) ! ref) = InBridge)
    \<and> (\<forall>ref < length (m_heap (w_mgr w)). s_goroutine (m_heap (w_mgr w) ! ref) = InBridge \<longrightarrow>
         s_id (m_heap (w_mgr w) ! ref) \<notin> set (w_forced w) \<longrightarrow>
         mgr_Get (s_id (m_heap (w_mgr w) ! ref)) (w_mgr w) = Some ref)"
proof -
  have inv: "session_inv w" by (rule session_inv_reachable [OF assms])
  then show ?thesis
    using session_inv_lookup [OF inv]
    by (auto simp: session_inv_def ActiveIDs_def wf_map_def mgr_Get_def listed_def)
qed

definition demo_opts :: StartOptions where
  "demo_opts = \<lparr>opt_UserID = ''alice'', opt_TargetID = ''t1'', opt_TargetName = ''box'',
     opt_Name = [], opt_Description = []\<rparr>"

definition demo_world :: world where
  "demo_world = init_world\<lparr>w_mgr := snd (projr (mgr_Start ''s1'' demo_opts 5 6 NewManager))\<rparr>"

lemma demo_world_reachable: "session_step\<^sup>*\<^sup>* init_world demo_world"
proof -
  have "mgr_Start ''s1'' demo_opts 5 6 (w_mgr init_world) =
      Inr (0, snd (projr (mgr_Start ''s1'' demo_opts 5 6 NewManager)))"
    by (simp add: mgr_Start_def init_world_def NewManager_def Let_def)
  from session_step.start [OF this] show ?thesis by (simp add: demo_world_def r_into_rtranclp)
qed

theorem active_sessions_exact_witness:
  "mgr_Get ''s1'' (w_mgr demo_world) = Some 0 \<and> s_id (m_heap (w_mgr demo_world) ! 0) = ''s1''
     \<and> distinct (ActiveIDs (w_mgr demo_world))"
proof -
  have get: "mgr_Get ''s1'' (w_mgr demo_world) = Some 0"
    by (simp add: demo_world_def mgr_Get_def mgr_Start_def NewManager_def Let_def)
  from active_sessions_exact [OF demo_world_reachable] get show ?thesis by blast
qed

text \<open>
  When a \<open>Stop\<close> that found a session reports success, the session was cancelled, its goroutine
  has closed its done channel and the manager no longer returns it; when it reports a timeout, the
  identifier is gone from the map all the same.
\<close>

theorem stop_outcomes:
  assumes "session_step\<^sup>*\<^sup>* init_world w" "(sid, ref) \<in> set (w_stops w)"
    and "stop_select sid ref timed_out (w_mgr w) = Some (ok, m')"
  shows "(ok \<longrightarrow> s_cancelled (m_heap m' ! ref) \<and> s_goroutine (m_heap m' ! ref) = DoneClosed
            \<and> mgr_Get sid m' \<noteq> Some ref)
     \<and> (\<not> ok \<longrightarrow> timed_out \<and> mgr_Get sid m' = None)"
proof -
  have inv: "session_inv w" by (rule session_inv_reachable [OF assms(1)])
  then have "s_cancelled (m_heap (w_mgr w) ! ref)"
    using assms(2) by (auto simp: session_inv_def stop_ok_def)
  with session_inv_lookup [OF inv, of sid ref] assms(3) show ?thesis
    by (auto simp: stop_select_def mgr_Get_def split: if_splits)
qed

definition demo_stopping :: world where
  "demo_stopping = demo_world\<lparr>w_mgr := snd (stop_begin ''s1'' (w_mgr demo_world)), w_stops := [(''s1'', 0)]\<rparr>"

theorem stop_outcomes_witness:
  "\<exists>m'. stop_select ''s1'' 0 True (w_mgr demo_stopping) = Some (False, m') \<and> mgr_Get ''s1'' m' = None"
proof -
  have "stop_begin ''s1'' (w_mgr demo_world) = (Some 0, snd (stop_begin ''s1'' (w_mgr demo_world)))"
    by (simp add: stop_begin_def demo_world_def mgr_Start_def NewManager_def Let_def)
  from session_step.stop_begins [OF this]
  have "session_step demo_world demo_stopping"
    by (simp add: demo_stopping_def demo_world_def init_world_def)
  with demo_world_reachable have reach: "session_step\<^sup>*\<^sup>* init_world demo_stopping" by simp
  obtain m' where sel: "stop_select ''s1'' 0 True (w_mgr demo_stopping) = Some (False, m')"
    by (simp add: stop_select_def)
  with stop_outcomes [OF reach _ sel] show ?thesis by (auto simp: demo_stopping_def)
qed

end
