(* ===== verification/Sharing_Registry.thy ===== *)
theory Sharing_Registry
  imports Vantyx_Prelude
begin

text \<open>
  Shared sessions (\<open>src/internal/sharing/registry.go\<close>): a room has an owner, participants, the
  holder of the write token, requests for that token and the users the owner removed.  Every
  method holds the room's lock, so each is one step.  The locale \<open>shared_room\<close> states what the
  sharing service and the WebSocket layer rely on.
\<close>

datatype Role = RoleOwner | RoleViewer

datatype sharing_error =
    ErrRoomNotFound | ErrParticipantMissing | ErrNotOwner | ErrNotWriter | ErrAlreadyWriter
  | ErrRequestNotFound | ErrRequestNotPending | ErrCannotKickOwner | ErrCannotKickSelf
  | ErrUserKicked | ErrInviterNoTargetAccess | ErrJoinerNoTargetAccess

datatype WriteRequestStatus =
    WriteRequestPending | WriteRequestGranted | WriteRequestDenied | WriteRequestCanceled

record Participant =
  p_UserID :: string
  p_Username :: string
  p_Role :: Role
  p_JoinedAt :: instant
  p_InvitationID :: string

record WriteRequest =
  wr_ID :: string
  wr_RequesterID :: string
  wr_RequesterName :: string
  wr_Status :: WriteRequestStatus
  wr_RequestedAt :: instant
  wr_DecidedAt :: instant
  wr_DecidedBy :: string

record Room =
  r_sessionID :: string
  r_targetID :: string
  r_ownerID :: string
  r_writerID :: string
  r_createdAt :: instant
  r_memberByID :: "(string, Participant) gomap"
  r_requests :: "(string, WriteRequest) gomap"
  r_kicked :: "string list"

definition HasWriter :: "string \<Rightarrow> Room \<Rightarrow> bool" where
  "HasWriter userID r = (r_writerID r = userID)"

definition IsParticipant :: "string \<Rightarrow> Room \<Rightarrow> bool" where
  "IsParticipant userID r = has_key (r_memberByID r) userID"

text \<open>Owner first, then by time of joining.\<close>

definition Participants :: "Room \<Rightarrow> Participant list" where
  "Participants r = sort_key (\<lambda>p. (p_Role p \<noteq> RoleOwner, p_JoinedAt p)) (map snd (r_memberByID r))"

definition PendingRequests :: "Room \<Rightarrow> WriteRequest list" where
  "PendingRequests r = sort_key wr_RequestedAt
     (filter (\<lambda>q. wr_Status q = WriteRequestPending) (map snd (r_requests r)))"

definition IsKicked :: "string \<Rightarrow> Room \<Rightarrow> bool" where
  "IsKicked userID r = (userID \<in> set (r_kicked r))"

definition Unkick :: "string \<Rightarrow> Room \<Rightarrow> bool \<times> Room" where
  "Unkick userID r = (if userID \<notin> set (r_kicked r) then (False, r)
     else (True, r\<lparr>r_kicked := removeAll userID (r_kicked r)\<rparr>))"

definition KickedUserIDs :: "Room \<Rightarrow> string list" where
  "KickedUserIDs r = sort (r_kicked r)"

definition AddViewer :: "string \<Rightarrow> string \<Rightarrow> string \<Rightarrow> instant \<Rightarrow> Room \<Rightarrow> sharing_error + Room" where
  "AddViewer userID username invitationID now r =
     (if userID \<in> set (r_kicked r) then Inl ErrUserKicked
      else case lookup (r_memberByID r) userID of
        Some p \<Rightarrow>
          (let p = (if username \<noteq> [] then p\<lparr>p_Username := username\<rparr> else p);
               p = (if invitationID \<noteq> [] then p\<lparr>p_InvitationID := invitationID\<rparr> else p)
           in Inr (r\<lparr>r_memberByID := AList.update userID p (r_memberByID r)\<rparr>))
      | None \<Rightarrow> Inr (r\<lparr>r_memberByID := AList.update userID
           \<lparr>p_UserID = userID, p_Username = username, p_Role = RoleViewer, p_JoinedAt = now,
            p_InvitationID = invitationID\<rparr> (r_memberByID r)\<rparr>))"

definition ParticipantUserIDsForInvitation :: "string \<Rightarrow> Room \<Rightarrow> string list" where
  "ParticipantUserIDsForInvitation invitationID r =
     (if invitationID = [] then []
      else sort (map fst (filter (\<lambda>(_, p). p_Role p = RoleViewer \<and> p_InvitationID p = invitationID)
        (r_memberByID r))))"

definition cancel_pending :: "string \<Rightarrow> (string \<Rightarrow> instant) \<Rightarrow> (string, WriteRequest) gomap
     \<Rightarrow> (string, WriteRequest) gomap" where
  "cancel_pending userID clock reqs = map (\<lambda>(k, q).
     if wr_RequesterID q = userID \<and> wr_Status q = WriteRequestPending
     then (k, q\<lparr>wr_Status := WriteRequestCanceled, wr_DecidedAt := clock k, wr_DecidedBy := userID\<rparr>)
     else (k, q)) reqs"

text \<open>\<open>RemoveParticipant\<close> reads the clock once per cancelled request.\<close>

definition RemoveParticipant :: "string \<Rightarrow> (string \<Rightarrow> instant) \<Rightarrow> Room \<Rightarrow> sharing_error + Room" where
  "RemoveParticipant userID clock r =
     (if userID = r_ownerID r then Inl ErrCannotKickOwner
      else if \<not> has_key (r_memberByID r) userID then Inl ErrParticipantMissing
      else Inr (r\<lparr>r_memberByID := AList.delete userID (r_memberByID r),
        r_kicked := List.insert userID (r_kicked r),
        r_requests := cancel_pending userID clock (r_requests r),
        r_writerID := (if r_writerID r = userID then r_ownerID r else r_writerID r)\<rparr>))"

definition RequestWrite :: "string \<Rightarrow> string \<Rightarrow> string \<Rightarrow> instant \<Rightarrow> Room
     \<Rightarrow> sharing_error + WriteRequest \<times> Room" where
  "RequestWrite reqID userID username now r =
     (case lookup (r_memberByID r) userID of None \<Rightarrow> Inl ErrParticipantMissing
      | Some p \<Rightarrow>
        if r_writerID r = userID then Inl ErrAlreadyWriter
        else let reqs = cancel_pending userID (\<lambda>_. now) (r_requests r);
                 wr = \<lparr>wr_ID = reqID, wr_RequesterID = userID,
                       wr_RequesterName = (if p_Username p = [] then username else p_Username p),
                       wr_Status = WriteRequestPending, wr_RequestedAt = now,
                       wr_DecidedAt = 0, wr_DecidedBy = []\<rparr>
             in Inr (wr, r\<lparr>r_requests := AList.update reqID wr reqs\<rparr>))"

text \<open>
  \<open>GrantWrite\<close> returns the request and the previous writer; when the requester has left, it cancels
  the request and still reports an error, so the room comes back on both paths.
\<close>

definition GrantWrite :: "string \<Rightarrow> string \<Rightarrow> instant \<Rightarrow> Room
     \<Rightarrow> (sharing_error + WriteRequest \<times> string) \<times> Room" where
  "GrantWrite reqID decidedBy now r =
     (case lookup (r_requests r) reqID of None \<Rightarrow> (Inl ErrRequestNotFound, r)
      | Some wr \<Rightarrow>
        if wr_Status wr \<noteq> WriteRequestPending then (Inl ErrRequestNotPending, r)
        else if decidedBy \<noteq> r_writerID r then (Inl ErrNotWriter, r)
        else if \<not> has_key (r_memberByID r) (wr_RequesterID wr) then
          (let wr = wr\<lparr>wr_Status := WriteRequestCanceled, wr_DecidedAt := now, wr_DecidedBy := decidedBy\<rparr>
           in (Inl ErrParticipantMissing, r\<lparr>r_requests := AList.update reqID wr (r_requests r)\<rparr>))
        else
          (let previous = r_writerID r;
               wr' = wr\<lparr>wr_Status := WriteRequestGranted, wr_DecidedAt := now, wr_DecidedBy := decidedBy\<rparr>
           in (Inr (wr', previous), r\<lparr>r_writerID := wr_RequesterID wr,
                r_requests := AList.update reqID wr' (r_requests r)\<rparr>)))"

definition DenyWrite :: "string \<Rightarrow> string \<Rightarrow> instant \<Rightarrow> Room \<Rightarrow> sharing_error + WriteRequest \<times> Room" where
  "DenyWrite reqID decidedBy now r =
     (case lookup (r_requests r) reqID of None \<Rightarrow> Inl ErrRequestNotFound
      | Some wr \<Rightarrow>
        if wr_Status wr \<noteq> WriteRequestPending then Inl ErrRequestNotPending
        else if decidedBy \<noteq> r_writerID r then Inl ErrNotWriter
        else let wr = wr\<lparr>wr_Status := WriteRequestDenied, wr_DecidedAt := now, wr_DecidedBy := decidedBy\<rparr>
             in Inr (wr, r\<lparr>r_requests := AList.update reqID wr (r_requests r)\<rparr>))"

definition ReleaseWrite :: "string \<Rightarrow> Room \<Rightarrow> sharing_error + string \<times> Room" where
  "ReleaseWrite userID r =
     (if r_writerID r \<noteq> userID then Inl ErrNotWriter
      else if userID = r_ownerID r then Inr (r_ownerID r, r)
      else Inr (r_writerID r, r\<lparr>r_writerID := r_ownerID r\<rparr>))"

type_synonym Registry = "(string, Room) gomap"

definition NewRegistry :: Registry where
  "NewRegistry = []"

definition new_room :: "string \<Rightarrow> string \<Rightarrow> string \<Rightarrow> string \<Rightarrow> instant \<Rightarrow> Room" where
  "new_room sessionID targetID ownerID ownerName now =
     \<lparr>r_sessionID = sessionID, r_targetID = targetID, r_ownerID = ownerID, r_writerID = ownerID,
      r_createdAt = now,
      r_memberByID = AList.update ownerID \<lparr>p_UserID = ownerID, p_Username = ownerName,
        p_Role = RoleOwner, p_JoinedAt = now, p_InvitationID = []\<rparr> [],
      r_requests = [], r_kicked = []\<rparr>"

definition EnsureRoom :: "string \<Rightarrow> string \<Rightarrow> string \<Rightarrow> string \<Rightarrow> instant \<Rightarrow> Registry \<Rightarrow> Room \<times> Registry" where
  "EnsureRoom sessionID targetID ownerID ownerName now reg =
     (case lookup reg sessionID of Some room \<Rightarrow> (room, reg)
      | None \<Rightarrow> (let room = new_room sessionID targetID ownerID ownerName now
                 in (room, AList.update sessionID room reg)))"

definition reg_Len :: "Registry \<Rightarrow> nat" where
  "reg_Len reg = length reg"

definition reg_Get :: "string \<Rightarrow> Registry \<Rightarrow> Room option" where
  "reg_Get sessionID reg = lookup reg sessionID"

definition reg_Remove :: "string \<Rightarrow> Registry \<Rightarrow> Registry" where
  "reg_Remove sessionID reg = AList.delete sessionID reg"

definition RoomsForUser :: "string \<Rightarrow> Registry \<Rightarrow> string list" where
  "RoomsForUser userID reg = sort (map fst (filter (\<lambda>(_, room). IsParticipant userID room) reg))"

subsection \<open>Operations as events\<close>

datatype room_op =
    OpAddViewer string string string instant
  | OpRemove string "string \<Rightarrow> instant"
  | OpRequest string string string instant
  | OpGrant string string instant
  | OpDeny string string instant
  | OpRelease string
  | OpUnkick string

definition or_unchanged :: "Room \<Rightarrow> ('b \<Rightarrow> Room) \<Rightarrow> 'a + 'b \<Rightarrow> Room" where
  "or_unchanged r f res = (case res of Inl _ \<Rightarrow> r | Inr x \<Rightarrow> f x)"

fun room_apply :: "room_op \<Rightarrow> Room \<Rightarrow> Room" where
  "room_apply (OpAddViewer u n i now) r = or_unchanged r (\<lambda>x. x) (AddViewer u n i now r)"
| "room_apply (OpRemove u clock) r = or_unchanged r (\<lambda>x. x) (RemoveParticipant u clock r)"
| "room_apply (OpRequest q u n now) r = or_unchanged r snd (RequestWrite q u n now r)"
| "room_apply (OpGrant q d now) r = snd (GrantWrite q d now r)"
| "room_apply (OpDeny q d now) r = or_unchanged r snd (DenyWrite q d now r)"
| "room_apply (OpRelease u) r = or_unchanged r snd (ReleaseWrite u r)"
| "room_apply (OpUnkick u) r = snd (Unkick u r)"

inductive room_step :: "Room \<Rightarrow> Room \<Rightarrow> bool" where
  "room_step r (room_apply op r)"

inductive_simps room_step_iff: "room_step r r'"

definition is_new_room :: "Room \<Rightarrow> bool" where
  "is_new_room r = (\<exists>sid tid oid nm now. r = new_room sid tid oid nm now)"

subsection \<open>Invariant\<close>

definition members_ok :: "Room \<Rightarrow> bool" where
  "members_ok r = (wf_map (r_memberByID r) \<and> has_key (r_memberByID r) (r_ownerID r)
     \<and> (\<forall>u p. lookup (r_memberByID r) u = Some p \<longrightarrow> p_UserID p = u \<and> (p_Role p = RoleOwner \<longleftrightarrow> u = r_ownerID r))
     \<and> (\<forall>u \<in> set (r_kicked r). \<not> has_key (r_memberByID r) u) \<and> distinct (r_kicked r))"

definition is_pending :: "Room \<Rightarrow> string \<Rightarrow> string \<Rightarrow> bool" where
  "is_pending r k u = (case lookup (r_requests r) k of None \<Rightarrow> False
     | Some q \<Rightarrow> wr_RequesterID q = u \<and> wr_Status q = WriteRequestPending)"

definition requests_ok :: "Room \<Rightarrow> bool" where
  "requests_ok r = (wf_map (r_requests r)
     \<and> (\<forall>k q. lookup (r_requests r) k = Some q \<longrightarrow> wr_ID q = k)
     \<and> (\<forall>k u. is_pending r k u \<longrightarrow> has_key (r_memberByID r) u)
     \<and> (\<forall>k k' u. is_pending r k u \<longrightarrow> is_pending r k' u \<longrightarrow> k = k'))"

definition room_inv :: "Room \<Rightarrow> bool" where
  "room_inv r = (members_ok r \<and> requests_ok r \<and> has_key (r_memberByID r) (r_writerID r))"

lemma cancel_pending_wf [simp]: "wf_map (cancel_pending u clock reqs) = wf_map reqs"
proof -
  have "map fst (cancel_pending u clock reqs) = map fst reqs"
    by (induction reqs) (auto simp: cancel_pending_def)
  then show ?thesis by (simp add: wf_map_def)
qed

lemma lookup_cancel_pending: "lookup (cancel_pending u clock reqs) k = map_option (\<lambda>q.
     if wr_RequesterID q = u \<and> wr_Status q = WriteRequestPending
     then q\<lparr>wr_Status := WriteRequestCanceled, wr_DecidedAt := clock k, wr_DecidedBy := u\<rparr> else q) (lookup reqs k)"
proof (induction reqs)
  case (Cons kq reqs)
  then show ?case by (cases kq) (simp add: cancel_pending_def)
qed (simp add: cancel_pending_def)

lemma is_pending_cancel:
  "r_requests r' = cancel_pending u clock (r_requests r) \<Longrightarrow> is_pending r' k v \<longleftrightarrow> v \<noteq> u \<and> is_pending r k v"
  by (auto simp: is_pending_def lookup_cancel_pending split: option.splits)

lemma is_pending_update:
  "r_requests r' = AList.update k q reqs \<Longrightarrow> is_pending r' k' v \<longleftrightarrow>
     (if k' = k then wr_RequesterID q = v \<and> wr_Status q = WriteRequestPending
      else is_pending (r'\<lparr>r_requests := reqs\<rparr>) k' v)"
  by (simp add: is_pending_def)

lemma is_pending_cong: "r_requests r' = r_requests r \<Longrightarrow> is_pending r' = is_pending r"
  by (simp add: is_pending_def fun_eq_iff)

lemma requests_ok_decided:
  assumes "requests_ok r" "lookup (r_requests r) k = Some q" "wr_Status q' \<noteq> WriteRequestPending" "wr_ID q' = wr_ID q"
    and "r_requests r' = AList.update k q' (r_requests r)" "r_memberByID r' = r_memberByID r"
  shows "requests_ok r'"
proof -
  have "is_pending r' k' v \<longleftrightarrow> k' \<noteq> k \<and> is_pending r k' v" for k' v
    using assms(3,5) by (auto simp: is_pending_def)
  with assms show ?thesis by (auto simp: requests_ok_def)
qed

lemma members_ok_decided:
  "members_ok r \<Longrightarrow> r_memberByID r' = r_memberByID r \<Longrightarrow> r_ownerID r' = r_ownerID r \<Longrightarrow>
     r_kicked r' = r_kicked r \<Longrightarrow> members_ok r'"
  by (simp add: members_ok_def)

lemma member_ok: "members_ok r \<Longrightarrow> lookup (r_memberByID r) u = Some p \<Longrightarrow>
    p_UserID p = u \<and> (p_Role p = RoleOwner \<longleftrightarrow> u = r_ownerID r)"
  by (simp add: members_ok_def)

lemma room_inv_new: "room_inv (new_room sid tid oid nm now)"
  by (simp add: room_inv_def members_ok_def requests_ok_def new_room_def is_pending_def)

lemma room_inv_AddViewer:
  assumes "room_inv r" "AddViewer u n i now r = Inr r'"
  shows "room_inv r'"
proof -
  from assms(2) have nk: "u \<notin> set (r_kicked r)"
    by (simp add: AddViewer_def split: if_splits)
  with assms(2) obtain p where r': "r' = r\<lparr>r_memberByID := AList.update u p (r_memberByID r)\<rparr>"
    and p: "lookup (r_memberByID r) u = None \<and> p_UserID p = u \<and> p_Role p = RoleViewer
      \<or> (\<exists>p0. lookup (r_memberByID r) u = Some p0 \<and> p_UserID p = p_UserID p0 \<and> p_Role p = p_Role p0)"
    by (fastforce simp: AddViewer_def Let_def split: option.splits if_splits)
  have mem: "members_ok r" and req: "requests_ok r" using assms(1) by (auto simp: room_inv_def)
  have "p_UserID p = u \<and> (p_Role p = RoleOwner \<longleftrightarrow> u = r_ownerID r)"
    using p
  proof
    assume "lookup (r_memberByID r) u = None \<and> p_UserID p = u \<and> p_Role p = RoleViewer"
    then show ?thesis using mem by (auto simp: members_ok_def)
  qed (use member_ok [OF mem] in \<open>metis\<close>)
  then have "members_ok r'" using mem nk by (auto simp: members_ok_def r' set_update)
  moreover have "requests_ok r'"
    using req is_pending_cong [of r' r] by (auto simp: requests_ok_def r')
  ultimately show ?thesis using assms(1) by (auto simp: room_inv_def r')
qed

lemma room_inv_Remove:
  assumes "room_inv r" "RemoveParticipant u clock r = Inr r'"
  shows "room_inv r'"
proof -
  have mem: "members_ok r" and req: "requests_ok r" using assms(1) by (auto simp: room_inv_def)
  have u: "u \<noteq> r_ownerID r" and r': "r' = r\<lparr>r_memberByID := AList.delete u (r_memberByID r),
        r_kicked := List.insert u (r_kicked r), r_requests := cancel_pending u clock (r_requests r),
        r_writerID := (if r_writerID r = u then r_ownerID r else r_writerID r)\<rparr>"
    using assms(2) by (auto simp: RemoveParticipant_def split: if_splits)
  have "members_ok r'" using mem u by (auto simp: members_ok_def r' set_delete)
  moreover have "requests_ok r'"
    using req is_pending_cancel [of r' u clock r]
    by (auto simp: requests_ok_def r' lookup_cancel_pending split: if_splits)
  ultimately show ?thesis using assms(1) mem u by (auto simp: room_inv_def members_ok_def r')
qed

lemma room_inv_Request:
  assumes "room_inv r" "RequestWrite q u n now r = Inr (wr, r')"
  shows "room_inv r'"
proof -
  have mem: "members_ok r" and req: "requests_ok r" using assms(1) by (auto simp: room_inv_def)
  have u: "has_key (r_memberByID r) u"
    and r': "r' = r\<lparr>r_requests := AList.update q wr (cancel_pending u (\<lambda>_. now) (r_requests r))\<rparr>"
    and wr: "wr_ID wr = q" "wr_RequesterID wr = u" "wr_Status wr = WriteRequestPending"
    using assms(2) by (auto simp: RequestWrite_def Let_def split: option.splits if_splits)
  have pend: "is_pending r' k v \<longleftrightarrow> (if k = q then v = u else v \<noteq> u \<and> is_pending r k v)" for k v
    using wr by (auto simp: is_pending_def r' lookup_cancel_pending split: option.splits)
  have "requests_ok r'"
    using req u wr pend by (auto simp: requests_ok_def r' lookup_cancel_pending split: if_splits)
  moreover have "members_ok r'" using mem by (rule members_ok_decided) (simp_all add: r')
  ultimately show ?thesis using assms(1) by (simp add: room_inv_def r')
qed

lemma room_inv_decided:
  assumes "room_inv r" "lookup (r_requests r) k = Some q" "st \<noteq> WriteRequestPending" "has_key (r_memberByID r) w"
  shows "room_inv (r\<lparr>r_writerID := w, r_requests := AList.update k
    (q\<lparr>wr_Status := st, wr_DecidedAt := t, wr_DecidedBy := d\<rparr>) (r_requests r)\<rparr>)" (is "room_inv ?r")
proof -
  have "requests_ok ?r"
    by (rule requests_ok_decided [of r k q]) (use assms in \<open>simp_all add: room_inv_def\<close>)
  moreover have "members_ok ?r"
    by (rule members_ok_decided [of r]) (use assms in \<open>simp_all add: room_inv_def\<close>)
  ultimately show ?thesis using assms(4) by (simp add: room_inv_def)
qed

lemma writer_member: "room_inv r \<Longrightarrow> has_key (r_memberByID r) (r_writerID r)"
  by (simp add: room_inv_def)

lemma room_inv_Grant: assumes "room_inv r" shows "room_inv (snd (GrantWrite q d now r))"
proof (cases "lookup (r_requests r) q")
  case (Some wr)
  from room_inv_decided [OF assms Some, where st = WriteRequestGranted and w = "wr_RequesterID wr" and t = now and d = d]
    room_inv_decided [OF assms Some _ writer_member [OF assms], where st = WriteRequestCanceled and t = now and d = d] assms Some
  show ?thesis by (auto simp: GrantWrite_def Let_def)
qed (simp add: GrantWrite_def assms)

lemma room_inv_Deny: assumes "room_inv r" "DenyWrite q d now r = Inr (wr', r')" shows "room_inv r'"
proof (cases "lookup (r_requests r) q")
  case (Some wr)
  from room_inv_decided [OF assms(1) Some _ writer_member [OF assms(1)], where st = WriteRequestDenied and t = now and d = d] assms Some
  show ?thesis by (auto simp: DenyWrite_def Let_def split: if_splits)
qed (use assms in \<open>simp add: DenyWrite_def\<close>)

lemma room_inv_Release: "room_inv r \<Longrightarrow> ReleaseWrite u r = Inr (p, r') \<Longrightarrow> room_inv r'"
  by (auto simp: ReleaseWrite_def room_inv_def members_ok_def requests_ok_def is_pending_def split: if_splits)

lemma room_inv_Unkick: "room_inv r \<Longrightarrow> room_inv (snd (Unkick u r))"
  by (auto simp: Unkick_def room_inv_def members_ok_def requests_ok_def is_pending_def distinct_removeAll)

lemma room_inv_apply: "room_inv r \<Longrightarrow> room_inv (room_apply op r)"
  by (cases op) (auto simp: or_unchanged_def room_inv_Grant room_inv_Unkick split: sum.split
      intro: room_inv_AddViewer room_inv_Remove room_inv_Request room_inv_Deny room_inv_Release)

subsection \<open>The interface of a shared room\<close>

locale shared_room = transition_system step initial inv
  for step :: "'r \<Rightarrow> 'r \<Rightarrow> bool" and initial :: "'r \<Rightarrow> bool" and inv :: "'r \<Rightarrow> bool" +
  fixes owner :: "'r \<Rightarrow> string"
    and writer :: "'r \<Rightarrow> string"
    and member :: "string \<Rightarrow> 'r \<Rightarrow> bool"
    and kicked :: "string \<Rightarrow> 'r \<Rightarrow> bool"
  assumes writer_is_member: "inv r \<Longrightarrow> member (writer r) r"
    and owner_is_member: "inv r \<Longrightarrow> member (owner r) r"
    and kicked_not_member: "inv r \<Longrightarrow> kicked u r \<Longrightarrow> \<not> member u r"
    and owner_kept: "step r r' \<Longrightarrow> owner r' = owner r"
begin

lemma owner_constant: "step\<^sup>*\<^sup>* r r' \<Longrightarrow> owner r' = owner r"
  by (induction rule: rtranclp_induct) (simp_all add: owner_kept)

lemma reachable_roles:
  assumes "initial r0" "step\<^sup>*\<^sup>* r0 r"
  shows "member (writer r) r \<and> member (owner r0) r \<and> owner r = owner r0
    \<and> (\<forall>u. kicked u r \<longrightarrow> \<not> member u r \<and> u \<noteq> owner r0 \<and> u \<noteq> writer r)"
proof -
  have inv: "inv r" using reachable_inv assms by blast
  have own: "owner r = owner r0" by (rule owner_constant [OF assms(2)])
  have "member (writer r) r" "member (owner r0) r"
    using writer_is_member [OF inv] owner_is_member [OF inv] own by simp_all
  with kicked_not_member [OF inv] own show ?thesis by metis
qed

end

lemma room_apply_owner [simp]: "r_ownerID (room_apply op r) = r_ownerID r"
  by (cases op) (auto simp: or_unchanged_def AddViewer_def RemoveParticipant_def RequestWrite_def
      GrantWrite_def DenyWrite_def ReleaseWrite_def Unkick_def Let_def split: sum.splits option.splits if_splits)

interpretation room: shared_room room_step is_new_room room_inv r_ownerID r_writerID IsParticipant IsKicked
proof (unfold_locales, goal_cases)
  case (1 s)
  then show ?case by (auto simp: is_new_room_def room_inv_new)
next
  case (2 s s')
  then show ?case by (auto simp: room_step_iff room_inv_apply)
qed (auto simp: room_step_iff room_inv_def members_ok_def IsParticipant_def IsKicked_def)

lemma is_new_room_new [simp]: "is_new_room (new_room sid tid oid nm now)"
  unfolding is_new_room_def by blast

lemma reachable_new: "room_step\<^sup>*\<^sup>* (new_room sid tid oid nm now) r \<Longrightarrow> room_inv r"
  using room.reachable_inv is_new_room_new by blast

lemma set_PendingRequests: "wf_map (r_requests r) \<Longrightarrow>
    set (PendingRequests r) = {q. \<exists>k. lookup (r_requests r) k = Some q \<and> wr_Status q = WriteRequestPending}"
  by (force simp: PendingRequests_def simp flip: in_set_map_of)

lemma pending_requesters_distinct:
  assumes "room_inv r" shows "distinct (map wr_RequesterID (PendingRequests r))"
proof -
  have req: "requests_ok r" using assms by (simp add: room_inv_def)
  then have wf: "wf_map (r_requests r)" by (simp add: requests_ok_def)
  have "inj_on snd (set (r_requests r))"
  proof (rule inj_onI)
    fix x y assume xy: "x \<in> set (r_requests r)" "y \<in> set (r_requests r)" "snd x = snd y"
    have "wr_ID (snd x) = fst x" "wr_ID (snd y) = fst y"
      using xy(1,2) req wf by (auto simp: requests_ok_def in_set_map_of [OF wf, symmetric] prod_eq_iff)
    with xy(3) show "x = y" by (simp add: prod_eq_iff)
  qed
  then have "distinct (map snd (r_requests r))"
    using wf by (simp add: distinct_map wf_map_def)
  then have "distinct (PendingRequests r)" by (simp add: PendingRequests_def)
  moreover have "inj_on wr_RequesterID (set (PendingRequests r))"
  proof (rule inj_onI)
    fix q q' assume "q \<in> set (PendingRequests r)" "q' \<in> set (PendingRequests r)"
      and same: "wr_RequesterID q = wr_RequesterID q'"
    then obtain k k' where k: "lookup (r_requests r) k = Some q" "lookup (r_requests r) k' = Some q'"
      and "wr_Status q = WriteRequestPending" "wr_Status q' = WriteRequestPending"
      by (auto simp: set_PendingRequests [OF wf])
    then have "is_pending r k (wr_RequesterID q)" "is_pending r k' (wr_RequesterID q)"
      using same by (simp_all add: is_pending_def)
    then have "k = k'" using req unfolding requests_ok_def by blast
    with k show "q = q'" by simp
  qed
  ultimately show ?thesis by (simp add: distinct_map)
qed

lemma pending_requester_member:
  assumes "room_inv r" "q \<in> set (PendingRequests r)"
  shows "IsParticipant (wr_RequesterID q) r"
proof -
  have req: "requests_ok r" using assms by (simp add: room_inv_def)
  then obtain k where "lookup (r_requests r) k = Some q" "wr_Status q = WriteRequestPending"
    using assms(2) by (auto simp: set_PendingRequests requests_ok_def)
  then have "is_pending r k (wr_RequesterID q)" by (simp add: is_pending_def)
  with req show ?thesis by (auto simp: requests_ok_def IsParticipant_def)
qed

text \<open>
  C26. In every room reachable by any sequence of joins, kicks, write requests, grants, denials,
  releases and pardons, the write token is held by a current participant, the owner is a
  participant and nobody else has the owner role, removed users are not participants, and there
  is at most one pending write request per user, always from a current participant.
\<close>

theorem room_roles_consistent:
  assumes "room_step\<^sup>*\<^sup>* (new_room sid tid oid nm now) r"
  shows "IsParticipant (r_writerID r) r \<and> IsParticipant oid r
    \<and> (\<forall>u. IsKicked u r \<longrightarrow> \<not> IsParticipant u r)
    \<and> (\<forall>p \<in> set (Participants r). p_Role p = RoleOwner \<longleftrightarrow> p_UserID p = oid)
    \<and> distinct (map wr_RequesterID (PendingRequests r))
    \<and> (\<forall>q \<in> set (PendingRequests r). IsParticipant (wr_RequesterID q) r)"
proof -
  have inv: "room_inv r" by (rule reachable_new [OF assms])
  have own: "r_ownerID r = oid" using room.owner_constant [OF assms] by (simp add: new_room_def)
  have mem: "members_ok r" using inv by (simp add: room_inv_def)
  then have wf: "wf_map (r_memberByID r)" by (simp add: members_ok_def)
  have "p_Role p = RoleOwner \<longleftrightarrow> p_UserID p = oid" if "p \<in> set (Participants r)" for p
  proof -
    from that obtain u where "lookup (r_memberByID r) u = Some p"
      by (auto simp: Participants_def simp flip: in_set_map_of [OF wf])
    from member_ok [OF mem this] own show ?thesis by auto
  qed
  then show ?thesis
    using room.reachable_roles [OF is_new_room_new assms] pending_requesters_distinct [OF inv]
      pending_requester_member [OF inv] own by (simp add: new_room_def)
qed

definition demo_room :: Room where
  "demo_room = fold room_apply [OpAddViewer ''bob'' ''Bob'' ''i1'' 5, OpRequest ''q1'' ''bob'' [] 6]
     (new_room ''s1'' ''t1'' ''alice'' ''Alice'' 1)"

lemma room_steps_fold: "room_step\<^sup>*\<^sup>* r (fold room_apply ops r)"
proof (induction ops arbitrary: r)
  case (Cons op ops)
  have "room_step r (room_apply op r)" by (simp add: room_step.intros)
  with Cons show ?case by (simp add: converse_rtranclp_into_rtranclp)
qed simp

theorem room_roles_consistent_witness:
  "IsParticipant (r_writerID demo_room) demo_room \<and> map wr_ID (PendingRequests demo_room) = [''q1'']"
proof -
  have "room_step\<^sup>*\<^sup>* (new_room ''s1'' ''t1'' ''alice'' ''Alice'' 1) demo_room"
    unfolding demo_room_def by (rule room_steps_fold)
  then have "IsParticipant (r_writerID demo_room) demo_room" using room_roles_consistent by blast
  moreover have "map wr_ID (PendingRequests demo_room) = [''q1'']"
    by (simp add: demo_room_def new_room_def or_unchanged_def AddViewer_def RequestWrite_def
        PendingRequests_def cancel_pending_def Let_def)
  ultimately show ?thesis by simp
qed

text \<open>
  The write token moves only by consent: one operation changes the writer only if the current
  writer grants a pending request (the token then goes to its requester), or the writer releases
  it or is removed (the token then goes back to the owner).
\<close>

theorem write_token_moves:
  assumes "r_writerID (room_apply op r) \<noteq> r_writerID r"
  shows "(\<exists>q now wr. op = OpGrant q (r_writerID r) now \<and> lookup (r_requests r) q = Some wr
        \<and> wr_Status wr = WriteRequestPending \<and> IsParticipant (wr_RequesterID wr) r
        \<and> r_writerID (room_apply op r) = wr_RequesterID wr)
    \<or> ((op = OpRelease (r_writerID r) \<or> (\<exists>clock. op = OpRemove (r_writerID r) clock))
        \<and> r_writerID (room_apply op r) = r_ownerID r)"
  using assms
  by (cases op) (auto simp: or_unchanged_def AddViewer_def RemoveParticipant_def RequestWrite_def
      GrantWrite_def DenyWrite_def ReleaseWrite_def Unkick_def IsParticipant_def Let_def
      split: sum.splits option.splits if_splits)

theorem write_token_moves_witness:
  "r_writerID (room_apply (OpGrant ''q1'' ''alice'' 7) demo_room) = ''bob'' \<and> r_writerID demo_room = ''alice''
   \<and> (\<exists>wr. lookup (r_requests demo_room) ''q1'' = Some wr \<and> wr_RequesterID wr = ''bob'')"
proof -
  have w: "r_writerID demo_room = ''alice''" "r_writerID (room_apply (OpGrant ''q1'' ''alice'' 7) demo_room) = ''bob''"
    by (simp_all add: demo_room_def new_room_def or_unchanged_def AddViewer_def RequestWrite_def
        GrantWrite_def cancel_pending_def Let_def)
  with write_token_moves [of "OpGrant ''q1'' ''alice'' 7" demo_room] show ?thesis by auto
qed

lemma kicked_kept: "op \<noteq> OpUnkick u \<Longrightarrow> IsKicked u r \<Longrightarrow> IsKicked u (room_apply op r)"
  by (cases op) (auto simp: IsKicked_def or_unchanged_def AddViewer_def RemoveParticipant_def RequestWrite_def
      GrantWrite_def DenyWrite_def ReleaseWrite_def Unkick_def Let_def split: sum.splits option.splits if_splits)

lemma kicked_kept_fold: "OpUnkick u \<notin> set ops \<Longrightarrow> IsKicked u r \<Longrightarrow> IsKicked u (fold room_apply ops r)"
proof (induction ops arbitrary: r)
  case (Cons op ops)
  then have "op \<noteq> OpUnkick u" "OpUnkick u \<notin> set ops" by auto
  with Cons kicked_kept [of op u r] show ?case by simp
qed simp

lemma fold_apply_inv: "room_inv r \<Longrightarrow> room_inv (fold room_apply ops r)"
  by (induction ops arbitrary: r) (auto intro: room_inv_apply)

text \<open>
  A kick is final until the owner lifts it: after a successful removal, no sequence of
  operations that does not pardon the user makes them a participant again, and every attempt to
  add them is refused.
\<close>

theorem kick_is_final:
  assumes "room_step\<^sup>*\<^sup>* (new_room sid tid oid nm t0) r" "RemoveParticipant u clock r = Inr r'"
    and "OpUnkick u \<notin> set ops"
  shows "\<not> IsParticipant u (fold room_apply ops r')
    \<and> AddViewer u name inv_id now (fold room_apply ops r') = Inl ErrUserKicked"
proof -
  have "IsKicked u r'" using assms(2) by (auto simp: RemoveParticipant_def IsKicked_def split: if_splits)
  then have k: "IsKicked u (fold room_apply ops r')" by (rule kicked_kept_fold [OF assms(3)])
  have "room_inv r'" using reachable_new [OF assms(1)] assms(2) by (rule room_inv_Remove)
  from room.kicked_not_member [OF fold_apply_inv [OF this] k] k show ?thesis
    by (simp add: AddViewer_def IsKicked_def)
qed

theorem kick_is_final_witness:
  "\<exists>r'. RemoveParticipant ''bob'' (\<lambda>_. 8) demo_room = Inr r'
     \<and> AddViewer ''bob'' ''Bob'' ''i2'' 9 (fold room_apply [OpRelease ''alice''] r') = Inl ErrUserKicked"
proof -
  have reach: "room_step\<^sup>*\<^sup>* (new_room ''s1'' ''t1'' ''alice'' ''Alice'' 1) demo_room"
    unfolding demo_room_def by (rule room_steps_fold)
  obtain r' where r': "RemoveParticipant ''bob'' (\<lambda>_. 8) demo_room = Inr r'"
    by (simp add: RemoveParticipant_def demo_room_def new_room_def or_unchanged_def AddViewer_def
        RequestWrite_def Let_def)
  from kick_is_final [OF reach r', of "[OpRelease ''alice'']"] r' show ?thesis by auto
qed

end
