(* ===== verification/Sharing_Invitations.thy ===== *)
theory Sharing_Invitations
  imports Sharing_Registry
begin

text \<open>
  Invitations (\<open>src/internal/sharing/invitations.go\<close>) and their table
  (\<open>src/internal/sharing/sqlite_store.go\<close>).  A row keeps SQL NULL as \<open>None\<close>; each statement is
  one step.  The locale \<open>invitation_store\<close> is the part of the \<open>Store\<close> interface the
  sharing service relies on.
\<close>

type_synonym Mode = string
type_synonym Kind = string

definition ModeViewer :: Mode where "ModeViewer = ''viewer''"
definition ModeWriterEligible :: Mode where "ModeWriterEligible = ''writer_eligible''"
definition KindTerminal :: Kind where "KindTerminal = ''terminal''"
definition KindVNC :: Kind where "KindVNC = ''vnc''"
definition KindRDP :: Kind where "KindRDP = ''rdp''"

record Invitation =
  i_ID :: string
  i_SessionID :: string
  i_SessionKind :: Kind
  i_TargetID :: string
  i_OwnerUserID :: string
  i_InviteeUserID :: string
  i_InviteGroupID :: string
  i_InviteTag :: string
  i_Mode :: Mode
  i_MaxUses :: "int option"
  i_UseCount :: int
  i_ExpiresAt :: instant
  i_UsedAt :: instant
  i_RevokedAt :: instant
  i_CreatedAt :: instant

definition Used :: "Invitation \<Rightarrow> bool" where
  "Used i = (\<not> is_zero (i_UsedAt i))"

definition Revoked :: "Invitation \<Rightarrow> bool" where
  "Revoked i = (\<not> is_zero (i_RevokedAt i))"

definition Expired :: "instant \<Rightarrow> Invitation \<Rightarrow> bool" where
  "Expired now i = (\<not> is_zero (i_ExpiresAt i) \<and> now > i_ExpiresAt i)"

definition IsLink :: "Invitation \<Rightarrow> bool" where
  "IsLink i = (trim_space (i_InviteeUserID i) = [])"

definition LinkUnlimited :: "Invitation \<Rightarrow> bool" where
  "LinkUnlimited i = (IsLink i \<and> i_MaxUses i = None)"

definition Exhausted :: "Invitation \<Rightarrow> bool" where
  "Exhausted i =
     (if IsLink i then
        if LinkUnlimited i then False
        else case i_MaxUses i of Some n \<Rightarrow> i_UseCount i \<ge> n | None \<Rightarrow> Used i
      else Used i)"

definition Active :: "instant \<Rightarrow> Invitation \<Rightarrow> bool" where
  "Active now i = (\<not> Exhausted i \<and> \<not> Revoked i \<and> \<not> Expired now i)"

text \<open>The sentinel errors, and the errors the table itself can raise.\<close>

datatype invitation_error =
    ErrInvitationNotFound | ErrInvitationExpired | ErrInvitationConsumed | ErrInvitationRevoked
  | ErrInvitationModeInvalid | ErrInvitationKindInvalid | ErrInvitationOwnerMismatch
  | ErrInvitationTargetMismatch | ErrTokenHashRequired | ErrUniqueConstraint

definition NormaliseMode :: "string \<Rightarrow> invitation_error + Mode" where
  "NormaliseMode raw = (let m = to_lower (trim_space raw) in
     if m = [] \<or> m = ModeViewer then Inr ModeViewer
     else if m = ModeWriterEligible then Inr ModeWriterEligible
     else Inl ErrInvitationModeInvalid)"

definition NormaliseKind :: "string \<Rightarrow> invitation_error + Kind" where
  "NormaliseKind raw = (let k = to_lower (trim_space raw) in
     if k = [] \<or> k = KindTerminal then Inr KindTerminal
     else if k = KindVNC then Inr KindVNC
     else if k = KindRDP then Inr KindRDP
     else Inl ErrInvitationKindInvalid)"

text \<open>\<open>parseLinkMaxUses\<close> of the HTTP layer; \<open>None\<close> is the error.\<close>

definition parseLinkMaxUses :: "bool \<Rightarrow> int option \<Rightarrow> int option option" where
  "parseLinkMaxUses linkUnlimited maxUses =
     (if linkUnlimited then Some None
      else case maxUses of None \<Rightarrow> Some (Some 1)
        | Some n \<Rightarrow> if n < 1 then None else Some (Some n))"

subsection \<open>The table\<close>

record inv_row =
  c_id :: string
  c_token_hash :: string
  c_session_id :: string
  c_session_kind :: string
  c_target_id :: string
  c_owner_user_id :: string
  c_invitee_user_id :: "string option"
  c_invite_group_id :: "string option"
  c_invite_tag :: "string option"
  c_mode :: string
  c_max_uses :: "int option"
  c_use_count :: int
  c_expires_at :: int
  c_used_at :: "int option"
  c_revoked_at :: "int option"
  c_created_at :: int

record SQLiteStore =
  st_invitations :: "inv_row list"
  st_consumers :: "(string \<times> string \<times> int) list"

definition nullableUser :: "string \<Rightarrow> string option" where
  "nullableUser s = (let v = trim_space s in if v = [] then None else Some v)"

definition nullableMaxUses :: "int option \<Rightarrow> int option" where
  "nullableMaxUses m = (case m of None \<Rightarrow> None | Some n \<Rightarrow> Some n)"

definition inv_Create :: "Invitation \<Rightarrow> string \<Rightarrow> SQLiteStore \<Rightarrow> invitation_error + SQLiteStore" where
  "inv_Create invn tokenHash s =
     (if i_ID invn \<in> set (map c_id (st_invitations s))
         \<or> tokenHash \<in> set (map c_token_hash (st_invitations s))
      then Inl ErrUniqueConstraint
      else Inr (s\<lparr>st_invitations := st_invitations s @ [
        \<lparr>c_id = i_ID invn, c_token_hash = tokenHash, c_session_id = i_SessionID invn,
         c_session_kind = i_SessionKind invn, c_target_id = i_TargetID invn,
         c_owner_user_id = i_OwnerUserID invn,
         c_invitee_user_id = nullableUser (i_InviteeUserID invn),
         c_invite_group_id = nullableUser (i_InviteGroupID invn),
         c_invite_tag = nullableUser (i_InviteTag invn), c_mode = i_Mode invn,
         c_max_uses = nullableMaxUses (i_MaxUses invn), c_use_count = i_UseCount invn,
         c_expires_at = unix (i_ExpiresAt invn), c_used_at = None, c_revoked_at = None,
         c_created_at = unix (i_CreatedAt invn)\<rparr>]\<rparr>))"

definition null_string :: "string option \<Rightarrow> string" where
  "null_string v = (case v of None \<Rightarrow> [] | Some s \<Rightarrow> trim_space s)"

definition null_time :: "int option \<Rightarrow> instant" where
  "null_time v = (case v of None \<Rightarrow> 0 | Some n \<Rightarrow> time_unix n)"

text \<open>\<open>scanInvitation\<close> on a result row; a missing row is \<open>ErrInvitationNotFound\<close>.\<close>

definition row_invitation :: "inv_row \<Rightarrow> Invitation" where
  "row_invitation c =
     \<lparr>i_ID = c_id c, i_SessionID = c_session_id c, i_SessionKind = c_session_kind c,
      i_TargetID = c_target_id c, i_OwnerUserID = c_owner_user_id c,
      i_InviteeUserID = null_string (c_invitee_user_id c),
      i_InviteGroupID = null_string (c_invite_group_id c),
      i_InviteTag = null_string (c_invite_tag c), i_Mode = c_mode c, i_MaxUses = c_max_uses c,
      i_UseCount = c_use_count c,
      i_ExpiresAt = (if c_expires_at c > 0 then time_unix (c_expires_at c) else 0),
      i_UsedAt = null_time (c_used_at c), i_RevokedAt = null_time (c_revoked_at c),
      i_CreatedAt = (if c_created_at c > 0 then time_unix (c_created_at c) else 0)\<rparr>"

definition scanInvitation :: "inv_row option \<Rightarrow> invitation_error + Invitation \<times> string" where
  "scanInvitation row = (case row of None \<Rightarrow> Inl ErrInvitationNotFound
     | Some c \<Rightarrow> Inr (row_invitation c, c_token_hash c))"

definition inv_GetByID :: "string \<Rightarrow> SQLiteStore \<Rightarrow> invitation_error + Invitation \<times> string" where
  "inv_GetByID iid s = scanInvitation (find (\<lambda>c. c_id c = iid) (st_invitations s))"

definition inv_GetByTokenHash :: "string \<Rightarrow> SQLiteStore \<Rightarrow> invitation_error + Invitation" where
  "inv_GetByTokenHash tokenHash s =
     map_sum (\<lambda>e. e) fst (scanInvitation (find (\<lambda>c. c_token_hash c = tokenHash) (st_invitations s)))"

text \<open>\<open>ORDER BY created_at DESC\<close>; rows of one second keep their table order.\<close>

definition by_created_desc :: "inv_row list \<Rightarrow> inv_row list" where
  "by_created_desc cs = sort_key (\<lambda>c. - c_created_at c) cs"

definition ListPendingForInvitee :: "string \<Rightarrow> instant \<Rightarrow> SQLiteStore \<Rightarrow> Invitation list" where
  "ListPendingForInvitee inviteeUserID now s =
     (let inviteeUserID = trim_space inviteeUserID in
      if inviteeUserID = [] then []
      else map row_invitation (by_created_desc (filter (\<lambda>c. c_invitee_user_id c = Some inviteeUserID
        \<and> c_used_at c = None \<and> c_revoked_at c = None \<and> c_expires_at c > unix now) (st_invitations s))))"

definition ListBySession :: "string \<Rightarrow> SQLiteStore \<Rightarrow> Invitation list" where
  "ListBySession sessionID s =
     map row_invitation (by_created_desc (filter (\<lambda>c. c_session_id c = sessionID) (st_invitations s)))"

text \<open>The UPDATE of \<open>RecordUse\<close>: its WHERE clause and its SET clause (over the old row).\<close>

definition coalesce_invitee :: "inv_row \<Rightarrow> string" where
  "coalesce_invitee c = (case c_invitee_user_id c of None \<Rightarrow> [] | Some u \<Rightarrow> u)"

definition use_where :: "string \<Rightarrow> int \<Rightarrow> inv_row \<Rightarrow> bool" where
  "use_where iid whenUnix c =
     (c_id c = iid \<and> c_revoked_at c = None \<and> c_expires_at c > whenUnix
      \<and> ((coalesce_invitee c \<noteq> [] \<and> (c_used_at c = None \<or> c_used_at c = Some 0))
         \<or> (coalesce_invitee c = [] \<and> (case c_max_uses c of None \<Rightarrow> True | Some n \<Rightarrow> c_use_count c < n))))"

definition use_set :: "string option \<Rightarrow> int \<Rightarrow> inv_row \<Rightarrow> inv_row" where
  "use_set consumer whenUnix c =
     c\<lparr>c_use_count := c_use_count c + 1,
       c_invitee_user_id := (case c_invitee_user_id c of None \<Rightarrow> consumer | Some u \<Rightarrow> Some u),
       c_used_at := (if coalesce_invitee c \<noteq> [] then Some whenUnix
         else case c_max_uses c of
           Some n \<Rightarrow> if c_use_count c + 1 \<ge> n then Some whenUnix else c_used_at c
         | None \<Rightarrow> c_used_at c)\<rparr>"

definition RecordUse :: "string \<Rightarrow> string \<Rightarrow> instant \<Rightarrow> SQLiteStore \<Rightarrow> invitation_error + SQLiteStore" where
  "RecordUse iid consumerUserID wh s =
     (let whenUnix = unix wh;
          (n, rows) = sql_update (use_where iid whenUnix) (use_set (nullableUser consumerUserID) whenUnix)
            (st_invitations s)
      in if n = 0 then Inl ErrInvitationConsumed
         else let s = s\<lparr>st_invitations := rows\<rparr> in
           if trim_space consumerUserID \<noteq> []
              \<and> (iid, consumerUserID) \<notin> set (map (\<lambda>(i, u, _). (i, u)) (st_consumers s))
           then Inr (s\<lparr>st_consumers := st_consumers s @ [(iid, consumerUserID, whenUnix)]\<rparr>)
           else Inr s)"

definition MarkRevoked :: "string \<Rightarrow> instant \<Rightarrow> SQLiteStore \<Rightarrow> SQLiteStore" where
  "MarkRevoked iid wh s = s\<lparr>st_invitations :=
     snd (sql_update (\<lambda>c. c_id c = iid) (\<lambda>c. c\<lparr>c_revoked_at := Some (unix wh)\<rparr>) (st_invitations s))\<rparr>"

definition UpdateTokenHash :: "string \<Rightarrow> string \<Rightarrow> SQLiteStore \<Rightarrow> invitation_error + SQLiteStore" where
  "UpdateTokenHash iid tokenHash s =
     (let tokenHash = trim_space tokenHash in
      if tokenHash = [] then Inl ErrTokenHashRequired
      else if \<exists>c \<in> set (st_invitations s). c_token_hash c = tokenHash \<and> c_id c \<noteq> iid
           \<and> iid \<in> set (map c_id (st_invitations s)) then Inl ErrUniqueConstraint
      else let (n, rows) = sql_update (\<lambda>c. c_id c = iid) (\<lambda>c. c\<lparr>c_token_hash := tokenHash\<rparr>) (st_invitations s)
        in if n = 0 then Inl ErrInvitationNotFound else Inr (s\<lparr>st_invitations := rows\<rparr>))"

subsection \<open>The interface of a store, as the sharing service uses it\<close>

locale invitation_store =
  fixes record_use :: "string \<Rightarrow> string \<Rightarrow> instant \<Rightarrow> 'st \<Rightarrow> invitation_error + 'st"
    and load :: "string \<Rightarrow> 'st \<Rightarrow> Invitation option"
    and wf :: "'st \<Rightarrow> bool"
  assumes use_wf: "wf st \<Longrightarrow> record_use iid u t st = Inr st' \<Longrightarrow> wf st'"
    and use_active: "wf st \<Longrightarrow> record_use iid u t st = Inr st' \<Longrightarrow>
      \<exists>i. load iid st = Some i \<and> \<not> Revoked i \<and> \<not> Expired t i"
    and use_counts: "wf st \<Longrightarrow> record_use iid u t st = Inr st' \<Longrightarrow>
      map_option i_UseCount (load iid st') = map_option (\<lambda>i. i_UseCount i + 1) (load iid st)"
    and use_frame: "wf st \<Longrightarrow> record_use iid u t st = Inr st' \<Longrightarrow> jid \<noteq> iid \<Longrightarrow> load jid st' = load jid st"
begin

fun uses :: "(string \<times> string \<times> instant) list \<Rightarrow> 'st \<Rightarrow> 'st" where
  "uses [] st = st"
| "uses ((iid, u, t) # us) st = uses us (case record_use iid u t st of Inl _ \<Rightarrow> st | Inr st' \<Rightarrow> st')"

lemma uses_monotone:
  "wf st \<Longrightarrow> load iid st = Some i \<Longrightarrow>
     \<exists>i'. load iid (uses us st) = Some i' \<and> i_UseCount i \<le> i_UseCount i'
       \<and> i_UseCount i' \<le> i_UseCount i + int (length us)"
proof (induction us arbitrary: st i)
  case (Cons a us)
  obtain jid u t where a: "a = (jid, u, t)" by (cases a)
  show ?case
  proof (cases "record_use jid u t st")
    case (Inl e)
    with Cons a show ?thesis by fastforce
  next
    case (Inr st')
    obtain i1 where i1: "load iid st' = Some i1" "i_UseCount i \<le> i_UseCount i1" "i_UseCount i1 \<le> i_UseCount i + 1"
      using use_counts [OF Cons.prems(1) Inr] use_frame [OF Cons.prems(1) Inr, of iid] Cons.prems(2)
      by (cases "iid = jid") auto
    from Cons.IH [OF use_wf [OF Cons.prems(1) Inr] i1(1)] i1 Inr a show ?thesis by fastforce
  qed
qed simp

end

definition store_wf :: "SQLiteStore \<Rightarrow> bool" where
  "store_wf s = distinct (map c_id (st_invitations s))"

definition load_invitation :: "string \<Rightarrow> SQLiteStore \<Rightarrow> Invitation option" where
  "load_invitation iid s = (case inv_GetByID iid s of Inl _ \<Rightarrow> None | Inr (i, _) \<Rightarrow> Some i)"

definition the_row :: "string \<Rightarrow> SQLiteStore \<Rightarrow> inv_row option" where
  "the_row iid s = find (\<lambda>c. c_id c = iid) (st_invitations s)"

lemma load_invitation_row: "load_invitation iid s = map_option row_invitation (the_row iid s)"
  by (simp add: load_invitation_def inv_GetByID_def scanInvitation_def the_row_def split: option.split)

lemma use_set_id [simp]: "c_id (use_set u w c) = c_id c"
  by (simp add: use_set_def)

lemma RecordUse_rows:
  assumes "RecordUse iid u t s = Inr s'"
  shows "st_invitations s' = snd (sql_update (use_where iid (unix t)) (use_set (nullableUser u) (unix t)) (st_invitations s))"
    and "\<exists>c \<in> set (st_invitations s). use_where iid (unix t) c"
  using assms by (auto simp: RecordUse_def sql_update_def Let_def filter_empty_conv split: if_splits)

lemma RecordUse_row:
  assumes "store_wf s" "RecordUse iid u t s = Inr s'"
  obtains c where "the_row iid s = Some c" "use_where iid (unix t) c"
    "the_row iid s' = Some (use_set (nullableUser u) (unix t) c)"
proof -
  obtain c where c: "c \<in> set (st_invitations s)" "use_where iid (unix t) c"
    using RecordUse_rows(2) [OF assms(2)] by blast
  then have id: "c_id c = iid" by (simp add: use_where_def)
  with c assms(1) have f: "the_row iid s = Some c"
    using find_unique [of c_id "st_invitations s" c] by (simp add: the_row_def store_wf_def)
  moreover have "the_row iid s' = Some (use_set (nullableUser u) (unix t) c)"
    using f c(2) by (simp add: the_row_def RecordUse_rows(1) [OF assms(2)] find_update)
  ultimately show ?thesis using that c(2) by blast
qed

lemma RecordUse_other:
  assumes "RecordUse iid u t s = Inr s'" "jid \<noteq> iid"
  shows "the_row jid s' = the_row jid s"
proof -
  have "find (\<lambda>c. c_id c = jid) (st_invitations s') = map_option
      (\<lambda>r. if use_where iid (unix t) r then use_set (nullableUser u) (unix t) r else r)
      (find (\<lambda>c. c_id c = jid) (st_invitations s))"
    unfolding RecordUse_rows(1) [OF assms(1)] by (rule find_update) simp
  moreover have "\<not> use_where iid (unix t) r" if "find (\<lambda>c. c_id c = jid) (st_invitations s) = Some r" for r
    using that assms(2) by (auto simp: use_where_def find_Some_iff)
  ultimately show ?thesis
    by (cases "find (\<lambda>c. c_id c = jid) (st_invitations s)") (auto simp: the_row_def)
qed

lemma RecordUse_wf: "store_wf s \<Longrightarrow> RecordUse iid u t s = Inr s' \<Longrightarrow> store_wf s'"
  by (simp add: store_wf_def RecordUse_rows(1) keys_update)

lemma use_where_active: "use_where iid (unix t) c \<Longrightarrow> \<not> Revoked (row_invitation c) \<and> \<not> Expired t (row_invitation c)"
proof -
  assume w: "use_where iid (unix t) c"
  then have "unix t < unix (time_unix (c_expires_at c))" by (simp add: use_where_def)
  then have "t < time_unix (c_expires_at c)" by (rule unix_less_imp)
  with w show ?thesis
    by (auto simp: use_where_def Revoked_def Expired_def row_invitation_def null_time_def is_zero_def)
qed

interpretation sqlite: invitation_store RecordUse load_invitation store_wf
proof (unfold_locales, goal_cases)
  case (1 st iid u t st')
  then show ?case by (rule RecordUse_wf)
next
  case (2 st iid u t st')
  then show ?case
    by (elim RecordUse_row) (auto simp: load_invitation_row use_where_active)
next
  case (3 st iid u t st')
  then show ?case
    by (elim RecordUse_row) (auto simp: load_invitation_row row_invitation_def use_set_def)
next
  case (4 st iid u t st' jid)
  then show ?case by (simp add: load_invitation_row RecordUse_other)
qed

subsection \<open>Joins never exceed the cap\<close>

text \<open>
  The steps of the store in service: invitations are created unused and with a cap that is absent or
  positive (\<open>parseLinkMaxUses\<close>), and clocks read later than 1970.
\<close>

inductive store_step :: "SQLiteStore \<Rightarrow> SQLiteStore \<Rightarrow> bool" where
  create: "inv_Create i h s = Inr s' \<Longrightarrow> i_UseCount i = 0 \<Longrightarrow>
     parseLinkMaxUses unlimited mx = Some (i_MaxUses i) \<Longrightarrow> store_step s s'"
| record_use: "RecordUse iid u t s = Inr s' \<Longrightarrow> 0 < unix t \<Longrightarrow> store_step s s'"
| revoke: "store_step s (MarkRevoked iid t s)"
| rotate: "UpdateTokenHash iid h s = Inr s' \<Longrightarrow> store_step s s'"

definition row_ok :: "inv_row \<Rightarrow> bool" where
  "row_ok c = (0 \<le> c_use_count c \<and> (case c_max_uses c of None \<Rightarrow> True
     | Some n \<Rightarrow> c_use_count c \<le> n
        \<and> (coalesce_invitee c \<noteq> [] \<and> (c_used_at c = None \<or> c_used_at c = Some 0) \<longrightarrow> c_use_count c < n)))"

definition store_inv :: "SQLiteStore \<Rightarrow> bool" where
  "store_inv s = (store_wf s \<and> (\<forall>c \<in> set (st_invitations s). row_ok c))"

lemma row_ok_use: "row_ok c \<Longrightarrow> use_where iid w c \<Longrightarrow> 0 < w \<Longrightarrow> row_ok (use_set u w c)"
  by (auto simp: row_ok_def use_where_def use_set_def coalesce_invitee_def split: option.splits if_splits)

lemma store_inv_use:
  assumes "store_inv s" "RecordUse iid u t s = Inr s'" "0 < unix t"
  shows "store_inv s'"
proof -
  have "row_ok c'" if "c' \<in> set (st_invitations s')" for c'
    using that assms row_ok_use unfolding RecordUse_rows(1) [OF assms(2)]
    by (auto simp: sql_update_def store_inv_def split: if_splits)
  then show ?thesis using assms RecordUse_wf by (auto simp: store_inv_def)
qed

lemma store_inv_create:
  assumes "store_inv s" "inv_Create i h s = Inr s'" "i_UseCount i = 0" "parseLinkMaxUses unl mx = Some (i_MaxUses i)"
  shows "store_inv s'"
proof -
  obtain c where s': "st_invitations s' = st_invitations s @ [c]" and c: "c_id c = i_ID i"
    "c_use_count c = 0" "c_max_uses c = i_MaxUses i" "c_used_at c = None"
    and new: "i_ID i \<notin> c_id ` set (st_invitations s)"
    using assms(2,3) by (auto simp: inv_Create_def nullableMaxUses_def split: if_splits option.splits)
  have "case i_MaxUses i of None \<Rightarrow> True | Some n \<Rightarrow> 0 < n"
    using assms(4) by (auto simp: parseLinkMaxUses_def split: if_splits option.splits)
  then have "row_ok c" using c by (simp add: row_ok_def split: option.splits)
  with assms(1) s' c(1) new show ?thesis by (auto simp: store_inv_def store_wf_def)
qed

lemma store_inv_same_uses:
  assumes "store_inv s" "st_invitations s' = snd (sql_update P f (st_invitations s))"
    and "\<And>c. row_ok (f c) = row_ok c" "\<And>c. c_id (f c) = c_id c"
  shows "store_inv s'"
  using assms by (auto simp: store_inv_def store_wf_def keys_update) (auto simp: sql_update_def)

lemma store_inv_step: "store_step s s' \<Longrightarrow> store_inv s \<Longrightarrow> store_inv s'"
proof (induction rule: store_step.induct)
  case (revoke s iid t)
  have "st_invitations (MarkRevoked iid t s) =
      snd (sql_update (\<lambda>c. c_id c = iid) (\<lambda>c. c\<lparr>c_revoked_at := Some (unix t)\<rparr>) (st_invitations s))"
    by (simp add: MarkRevoked_def)
  with revoke show ?case
    by (rule store_inv_same_uses) (auto simp: row_ok_def coalesce_invitee_def split: option.splits)
next
  case (rotate iid h s s')
  then have "st_invitations s' = snd (sql_update (\<lambda>c. c_id c = iid) (\<lambda>c. c\<lparr>c_token_hash := trim_space h\<rparr>) (st_invitations s))"
    by (auto simp: UpdateTokenHash_def Let_def split: prod.splits if_splits)
  with rotate.prems show ?case
    by (rule store_inv_same_uses) (auto simp: row_ok_def coalesce_invitee_def split: option.splits)
qed (auto intro: store_inv_use store_inv_create)

definition empty_store :: SQLiteStore where
  "empty_store = \<lparr>st_invitations = [], st_consumers = []\<rparr>"

interpretation inv_store: transition_system store_step "\<lambda>s. s = empty_store" store_inv
proof (unfold_locales, goal_cases)
  case (1 s)
  then show ?case by (simp add: empty_store_def store_inv_def store_wf_def)
next
  case (2 s s')
  then show ?case by (rule store_inv_step)
qed

text \<open>
  The number of joins never exceeds the cap: in every store reachable from the empty table by
  creating, using, revoking and re-issuing invitations, in any order and by any users, an
  invitation with a cap of \<open>n\<close> has been used at most \<open>n\<close> times.
\<close>

theorem invitation_cap_respected:
  assumes "store_step\<^sup>*\<^sup>* empty_store s" "inv_GetByID iid s = Inr (i, h)" "i_MaxUses i = Some n"
  shows "i_UseCount i \<le> n"
proof -
  have "store_inv s" using inv_store.reachable_inv assms(1) by blast
  moreover obtain c where "c \<in> set (st_invitations s)" "i = row_invitation c"
    using assms(2) by (auto simp: inv_GetByID_def scanInvitation_def split: option.splits dest: find_in_set)
  ultimately show ?thesis using assms(3) by (auto simp: store_inv_def row_ok_def row_invitation_def)
qed

definition demo_link :: Invitation where
  "demo_link = \<lparr>i_ID = ''inv1'', i_SessionID = ''s1'', i_SessionKind = KindTerminal, i_TargetID = ''t1'',
     i_OwnerUserID = ''alice'', i_InviteeUserID = [], i_InviteGroupID = [], i_InviteTag = [],
     i_Mode = ModeViewer, i_MaxUses = Some 1, i_UseCount = 0, i_ExpiresAt = time_unix 1000,
     i_UsedAt = 0, i_RevokedAt = 0, i_CreatedAt = time_unix 10\<rparr>"

definition demo_store :: SQLiteStore where
  "demo_store = projr (RecordUse ''inv1'' ''bob'' (time_unix 20) (projr (inv_Create demo_link ''h1'' empty_store)))"

lemma trim_space_demo [simp]: "trim_space ''bob'' = ''bob''"
  by (simp add: trim_space_visible visible_def)

lemmas demo_inv_simps = demo_store_def demo_link_def inv_Create_def empty_store_def RecordUse_def
  sql_update_def use_where_def use_set_def coalesce_invitee_def nullableUser_def nullableMaxUses_def
  inv_GetByID_def scanInvitation_def row_invitation_def null_string_def null_time_def

theorem invitation_cap_respected_witness:
  "\<exists>i h. inv_GetByID ''inv1'' demo_store = Inr (i, h) \<and> i_UseCount i \<le> 1"
proof -
  let ?s1 = "projr (inv_Create demo_link ''h1'' empty_store)"
  have create: "inv_Create demo_link ''h1'' empty_store = Inr ?s1"
    by (simp add: demo_inv_simps)
  have use: "RecordUse ''inv1'' ''bob'' (time_unix 20) ?s1 = Inr demo_store"
    by (simp add: demo_inv_simps Let_def)
  have "store_step empty_store ?s1"
    by (rule store_step.create [OF create, of False None])
      (simp_all add: demo_link_def parseLinkMaxUses_def)
  moreover have "store_step ?s1 demo_store" by (rule store_step.record_use [OF use]) simp
  ultimately have reach: "store_step\<^sup>*\<^sup>* empty_store demo_store" by auto
  obtain i h where get: "inv_GetByID ''inv1'' demo_store = Inr (i, h)" "i_MaxUses i = Some 1"
    by (simp add: demo_inv_simps Let_def)
  from invitation_cap_respected [OF reach get] get show ?thesis by blast
qed

end
