(* ===== verification/Sharing_Service.thy ===== *)
theory Sharing_Service
  imports Sharing_Invitations
begin

text \<open>
  The join and kick logic shared by the HTTP API and the SSH gateway
  (\<open>src/internal/sharing/service.go\<close>).  The store, the access check and the bridges are
  interfaces of the code and stay arguments here; the store is instantiated by the SQLite model.
\<close>

datatype 'e join_error =
    JoinSharing sharing_error
  | JoinInvitation invitation_error
  | JoinAccess 'e

text \<open>
  An access check answers or fails; the optional check is absent when the service was built without
  one.  \<open>ready\<close> says that the service, its store and its registry are all present.
\<close>

type_synonym 'e access_check = "string \<Rightarrow> string \<Rightarrow> 'e + bool"

definition check_access :: "'e access_check option \<Rightarrow> string \<Rightarrow> string \<Rightarrow> string \<Rightarrow> 'e join_error option" where
  "check_access access owner user target = (case access of None \<Rightarrow> None
     | Some acc \<Rightarrow> (case acc owner target of
          Inl e \<Rightarrow> Some (JoinAccess e)
        | Inr False \<Rightarrow> Some (JoinSharing ErrInviterNoTargetAccess)
        | Inr True \<Rightarrow> (case acc user target of
             Inl e \<Rightarrow> Some (JoinAccess e)
           | Inr False \<Rightarrow> Some (JoinSharing ErrJoinerNoTargetAccess)
           | Inr True \<Rightarrow> None)))"

definition JoinRoom ::
  "bool \<Rightarrow> (string \<Rightarrow> string \<Rightarrow> instant \<Rightarrow> 'st \<Rightarrow> invitation_error + 'st) \<Rightarrow> 'e access_check option
     \<Rightarrow> Invitation \<Rightarrow> string \<Rightarrow> string \<Rightarrow> instant \<Rightarrow> instant \<Rightarrow> 'st \<times> Registry
     \<Rightarrow> ('e join_error + Room) \<times> 'st \<times> Registry" where
  "JoinRoom ready record_use access i userID username now room_now s =
     (case s of (st, reg) \<Rightarrow>
      if \<not> ready then (Inl (JoinSharing ErrRoomNotFound), st, reg)
      else if \<not> Active now i then (Inl (JoinInvitation ErrInvitationConsumed), st, reg)
      else if \<not> IsLink i \<and> \<not> equal_fold (i_InviteeUserID i) userID
        then (Inl (JoinInvitation ErrInvitationNotFound), st, reg)
      else if userID = i_OwnerUserID i then (Inl (JoinInvitation ErrInvitationNotFound), st, reg)
      else if (case reg_Get (i_SessionID i) reg of Some room \<Rightarrow> IsKicked userID room | None \<Rightarrow> False)
        then (Inl (JoinSharing ErrUserKicked), st, reg)
      else case check_access access (i_OwnerUserID i) userID (i_TargetID i) of
        Some e \<Rightarrow> (Inl e, st, reg)
      | None \<Rightarrow> (case record_use (i_ID i) userID now st of
          Inl e \<Rightarrow> (Inl (JoinInvitation e), st, reg)
        | Inr st' \<Rightarrow>
            (case EnsureRoom (i_SessionID i) (i_TargetID i) (i_OwnerUserID i) (i_OwnerUserID i) room_now reg of
              (room, reg') \<Rightarrow>
              if IsKicked userID room then (Inl (JoinSharing ErrUserKicked), st', reg')
              else (case AddViewer userID username (i_ID i) now room of
                Inl e \<Rightarrow> (Inl (JoinSharing e), st', reg')
              | Inr room' \<Rightarrow> (Inr room', st', AList.update (i_SessionID i) room' reg')))))"

text \<open>The calls a kick makes on the live bridge, in order.\<close>

datatype bridge_call = DetachUser string | SetWriter string

definition KickParticipant ::
  "bool \<Rightarrow> string \<Rightarrow> (string \<Rightarrow> instant) \<Rightarrow> Room option \<Rightarrow> (sharing_error + bridge_call list) \<times> Room option" where
  "KickParticipant live userID clock room =
     (case room of None \<Rightarrow> (Inl ErrRoomNotFound, None)
      | Some r \<Rightarrow> (case RemoveParticipant userID clock r of
          Inl e \<Rightarrow> (Inl e, Some r)
        | Inr r' \<Rightarrow> (Inr (if live then [DetachUser userID, SetWriter (r_writerID r')] else []), Some r')))"

definition DisconnectInvitationConsumers ::
  "bool \<Rightarrow> string \<Rightarrow> (string \<Rightarrow> instant) \<Rightarrow> Room option \<Rightarrow> string list \<times> Room option" where
  "DisconnectInvitationConsumers live invitationID clock room =
     (if room = None \<or> invitationID = [] then ([], room)
      else let userIDs = ParticipantUserIDsForInvitation invitationID (the room)
        in (userIDs, fold (\<lambda>uid r. snd (KickParticipant live uid clock r)) userIDs room))"

definition granted :: "'e access_check option \<Rightarrow> string \<Rightarrow> string \<Rightarrow> bool" where
  "granted access user target = (case access of None \<Rightarrow> True | Some acc \<Rightarrow> acc user target = Inr True)"

lemma check_access_None: "check_access access owner user target = None \<longleftrightarrow>
    granted access owner target \<and> granted access user target"
  by (auto simp: check_access_def granted_def split: option.splits sum.splits bool.splits)

lemma EnsureRoom_kicked:
  "EnsureRoom sid tid oid nm now reg = (room, reg') \<Longrightarrow>
     (case reg_Get sid reg of Some r \<Rightarrow> IsKicked u r | None \<Rightarrow> False) = IsKicked u room"
  by (auto simp: EnsureRoom_def reg_Get_def IsKicked_def new_room_def Let_def split: option.splits)

lemma AddViewer_ok: "\<not> IsKicked u room \<Longrightarrow> \<exists>room'. AddViewer u n i now room = Inr room' \<and> IsParticipant u room'
    \<and> r_kicked room' = r_kicked room \<and> r_writerID room' = r_writerID room"
  by (auto simp: AddViewer_def IsKicked_def IsParticipant_def Let_def split: option.splits)

text \<open>The two outcomes of a join.\<close>

lemma JoinRoom_cases:
  obtains (refused) e where "JoinRoom ready ru access i u n now rnow (st, reg) = (Inl e, st, reg)"
  | (joined) st' room room' reg' where
      "JoinRoom ready ru access i u n now rnow (st, reg) = (Inr room', st', AList.update (i_SessionID i) room' reg')"
      "Active now i" "IsLink i \<or> equal_fold (i_InviteeUserID i) u" "u \<noteq> i_OwnerUserID i"
      "granted access (i_OwnerUserID i) (i_TargetID i)" "granted access u (i_TargetID i)"
      "ru (i_ID i) u now st = Inr st'" "AddViewer u n (i_ID i) now room = Inr room'"
      "EnsureRoom (i_SessionID i) (i_TargetID i) (i_OwnerUserID i) (i_OwnerUserID i) rnow reg = (room, reg')"
      "\<not> IsKicked u room"
proof (cases "fst (JoinRoom ready ru access i u n now rnow (st, reg))")
  case (Inl e)
  have "JoinRoom ready ru access i u n now rnow (st, reg) = (Inl e, st, reg)"
  proof (cases "EnsureRoom (i_SessionID i) (i_TargetID i) (i_OwnerUserID i) (i_OwnerUserID i) rnow reg")
    case (Pair room reg')
    show ?thesis
    proof (cases "IsKicked u room")
      case True
      then show ?thesis using Inl EnsureRoom_kicked [OF Pair, of u]
        by (auto simp: JoinRoom_def split: if_splits)
    next
      case False
      then obtain room' where "AddViewer u n (i_ID i) now room = Inr room'" using AddViewer_ok by blast
      with False Inl show ?thesis by (auto simp: JoinRoom_def Pair split: if_splits option.splits sum.splits)
    qed
  qed
  then show ?thesis by (rule refused)
next
  case (Inr room')
  then show ?thesis
    by (auto simp: JoinRoom_def check_access_None split: if_splits option.splits sum.splits prod.splits intro!: joined)
qed

text \<open>
  C10. Nobody joins without being entitled to: when a join succeeds, the invitation was active and
  meant for this user (or a link), the user is not the owner and not kicked, and the access check
  granted the target to both the owner and the joining user; the use has been recorded in the
  store and the user is a participant of the registered room.
\<close>

theorem join_authorised:
  assumes "JoinRoom ready record_use access i u n now rnow (st, reg) = (Inr room, st', reg')"
  shows "Active now i \<and> (IsLink i \<or> equal_fold (i_InviteeUserID i) u) \<and> u \<noteq> i_OwnerUserID i
    \<and> granted access (i_OwnerUserID i) (i_TargetID i) \<and> granted access u (i_TargetID i)
    \<and> record_use (i_ID i) u now st = Inr st'
    \<and> reg_Get (i_SessionID i) reg' = Some room \<and> IsParticipant u room \<and> \<not> IsKicked u room"
proof (cases rule: JoinRoom_cases [of ready record_use access i u n now rnow st reg])
  case (joined st'' room0 room' reg'')
  from AddViewer_ok [OF joined(10), of n "i_ID i" now] joined(8,10)
  have "IsParticipant u room'" "\<not> IsKicked u room'" by (auto simp: IsKicked_def)
  with joined assms show ?thesis by (auto simp: reg_Get_def)
qed (use assms in simp)

definition demo_named :: Invitation where
  "demo_named = demo_link\<lparr>i_MaxUses := None\<rparr>"

definition demo_access :: "unit access_check" where
  "demo_access u t = Inr (u \<in> {''alice'', ''bob''} \<and> t = ''t1'')"

definition demo_join :: "(unit join_error + Room) \<times> SQLiteStore \<times> Registry" where
  "demo_join = JoinRoom True RecordUse (Some demo_access) demo_named ''bob'' ''Bob'' (time_unix 20) (time_unix 20)
     (projr (inv_Create demo_named ''h1'' empty_store), NewRegistry)"

lemmas demo_join_simps = demo_join_def demo_named_def demo_inv_simps JoinRoom_def Active_def Exhausted_def
  LinkUnlimited_def IsLink_def Revoked_def Expired_def Used_def is_zero_def time_unix_def unix_epoch_s_def
  reg_Get_def NewRegistry_def check_access_def demo_access_def EnsureRoom_def new_room_def AddViewer_def
  IsKicked_def unix_def

theorem join_authorised_witness:
  "\<exists>room st' reg'. demo_join = (Inr room, st', reg') \<and> IsParticipant ''bob'' room
     \<and> granted (Some demo_access) ''bob'' ''t1''"
proof -
  obtain room st' reg' where j: "demo_join = (Inr room, st', reg')"
    by (simp add: demo_join_simps Let_def)
  from join_authorised [OF j [unfolded demo_join_def]]
  have "IsParticipant ''bob'' room" "granted (Some demo_access) ''bob'' (i_TargetID demo_named)" by blast+
  with j show ?thesis by (auto simp: demo_named_def demo_link_def)
qed

text \<open>
  A refused join costs nothing: whatever the reason (inactive or foreign invitation, kicked
  user, missing access, consumed concurrently), the store and the registry are left exactly as
  they were, so a single-use invitation is never burnt by a join that did not happen.
\<close>

theorem join_refusal_harmless:
  assumes "fst (JoinRoom ready record_use access i u n now rnow (st, reg)) = Inl e"
  shows "snd (JoinRoom ready record_use access i u n now rnow (st, reg)) = (st, reg)"
  by (cases rule: JoinRoom_cases [of ready record_use access i u n now rnow st reg])
    (use assms in simp_all)

theorem join_refusal_harmless_witness:
  "snd (JoinRoom True RecordUse (Some demo_access) demo_named ''alice'' ''A'' (time_unix 20) (time_unix 20)
     (empty_store, NewRegistry)) = (empty_store, NewRegistry)"
proof (rule join_refusal_harmless)
  show "fst (JoinRoom True RecordUse (Some demo_access) demo_named ''alice'' ''A'' (time_unix 20) (time_unix 20)
     (empty_store, NewRegistry)) = Inl (JoinInvitation ErrInvitationNotFound)"
    by (simp add: demo_join_simps)
qed

text \<open>
  A link stops being a link at its first use: \<open>RecordUse\<close> writes the first consumer into the
  invitee column, whatever the cap, so that from then on the reloaded invitation is addressed to
  that user and every other user is refused, also when the link allows more or unlimited joins.
\<close>

theorem link_bound_to_first_consumer:
  assumes "store_wf st" "the_row iid st = Some c" "c_invitee_user_id c = None"
    and "RecordUse iid u1 t1 st = Inr st1" "trim_space u1 \<noteq> []"
    and "inv_GetByID iid st1 = Inr (i1, h)" "\<not> equal_fold (trim_space u1) u2"
  shows "\<not> IsLink i1 \<and> i_InviteeUserID i1 = trim_space u1
    \<and> (\<exists>e. fst (JoinRoom ready RecordUse access i1 u2 n now rnow (st1, reg)) = Inl e)"
proof -
  have "the_row iid st1 = Some (use_set (nullableUser u1) (unix t1) c)"
    using RecordUse_row [OF assms(1,4)] assms(2) by (metis option.inject)
  then have "i1 = row_invitation (use_set (nullableUser u1) (unix t1) c)"
    using assms(6) by (simp add: inv_GetByID_def the_row_def scanInvitation_def)
  then have inv: "i_InviteeUserID i1 = trim_space u1"
    using assms(3,5) by (simp add: row_invitation_def use_set_def nullableUser_def null_string_def)
  then have "\<not> IsLink i1" using assms(5) by (simp add: IsLink_def)
  with inv show ?thesis
    using assms(7) by (cases rule: JoinRoom_cases [of ready RecordUse access i1 u2 n now rnow st1 reg]) auto
qed

theorem link_bound_to_first_consumer_witness:
  "\<exists>st1 i1 h. RecordUse ''inv1'' ''bob'' (time_unix 20) (projr (inv_Create demo_named ''h1'' empty_store)) = Inr st1
     \<and> inv_GetByID ''inv1'' st1 = Inr (i1, h) \<and> i_MaxUses i1 = None
     \<and> (\<exists>e. fst (JoinRoom True RecordUse (None :: unit access_check option) i1 ''carol'' ''Carol''
           (time_unix 30) (time_unix 30) (st1, NewRegistry)) = Inl e)"
proof -
  let ?st = "projr (inv_Create demo_named ''h1'' empty_store)"
  have row: "\<exists>c. the_row ''inv1'' ?st = Some c \<and> c_invitee_user_id c = None" "store_wf ?st"
    by (simp_all add: the_row_def store_wf_def demo_named_def demo_inv_simps)
  obtain st1 where use: "RecordUse ''inv1'' ''bob'' (time_unix 20) ?st = Inr st1"
    by (simp add: demo_named_def demo_inv_simps Let_def)
  obtain i1 h where get: "inv_GetByID ''inv1'' st1 = Inr (i1, h)" "i_MaxUses i1 = None"
    using use by (auto simp: demo_named_def demo_inv_simps Let_def)
  have "\<not> equal_fold (trim_space ''bob'') ''carol''" by (simp add: equal_fold_def to_lower_def)
  with link_bound_to_first_consumer [OF row(2) _ _ use _ get(1)] row(1) use get show ?thesis by fastforce
qed

subsection \<open>Revoking an invitation disconnects everyone who used it\<close>

lemma kick_fold:
  assumes "room_inv r" "distinct us" "\<forall>u \<in> set us. IsParticipant u r \<and> u \<noteq> r_ownerID r"
  shows "\<exists>r'. fold (\<lambda>uid r. snd (KickParticipant live uid clock r)) us (Some r) = Some r' \<and> room_inv r'
    \<and> (\<forall>v. lookup (r_memberByID r') v = (if v \<in> set us then None else lookup (r_memberByID r) v))
    \<and> (\<forall>u \<in> set us. IsKicked u r')"
  using assms
proof (induction us rule: rev_induct)
  case (snoc u us)
  then obtain r1 where r1: "fold (\<lambda>uid r. snd (KickParticipant live uid clock r)) us (Some r) = Some r1"
    "room_inv r1" "\<forall>v. lookup (r_memberByID r1) v = (if v \<in> set us then None else lookup (r_memberByID r) v)"
    "\<forall>u \<in> set us. IsKicked u r1" by auto
  have own: "r_ownerID r1 = r_ownerID r"
  proof -
    have "fold (\<lambda>uid r. snd (KickParticipant live uid clock r)) us (Some r) = Some r1 \<Longrightarrow> r_ownerID r1 = r_ownerID r" for us r1
      by (induction us arbitrary: r1 rule: rev_induct)
        (auto simp: KickParticipant_def RemoveParticipant_def split: option.splits sum.splits if_splits)
    with r1(1) show ?thesis by blast
  qed
  have "has_key (r_memberByID r1) u" using r1(3) snoc.prems by (simp add: IsParticipant_def)
  then obtain r2 where r2: "RemoveParticipant u clock r1 = Inr r2"
    "r_memberByID r2 = AList.delete u (r_memberByID r1)" "r_kicked r2 = List.insert u (r_kicked r1)"
    using own snoc.prems by (auto simp: RemoveParticipant_def)
  with r1 room_inv_Remove [OF r1(2) r2(1)] show ?case
    by (auto simp: KickParticipant_def IsKicked_def)
qed simp

text \<open>
  After \<open>DisconnectInvitationConsumers\<close> no viewer who came in through that invitation is left in
  the room, each of them is blocked from rejoining, and everyone else is untouched.
\<close>

theorem disconnect_consumers_complete:
  assumes "room_step\<^sup>*\<^sup>* (new_room sid tid oid nm t0) r" "invitation \<noteq> []"
  shows "\<exists>us r'. DisconnectInvitationConsumers live invitation clock (Some r) = (us, Some r')
    \<and> ParticipantUserIDsForInvitation invitation r' = []
    \<and> (\<forall>u \<in> set us. IsKicked u r' \<and> \<not> IsParticipant u r')
    \<and> (\<forall>v. v \<notin> set us \<longrightarrow> lookup (r_memberByID r') v = lookup (r_memberByID r) v)"
proof -
  let ?us = "ParticipantUserIDsForInvitation invitation r"
  have inv: "room_inv r" by (rule reachable_new [OF assms(1)])
  then have mem: "members_ok r" by (simp add: room_inv_def)
  then have wf: "wf_map (r_memberByID r)" by (simp add: members_ok_def)
  have us: "u \<in> set ?us \<longleftrightarrow> (\<exists>p. lookup (r_memberByID r) u = Some p \<and> p_Role p = RoleViewer \<and> p_InvitationID p = invitation)" for u
    using assms(2) by (force simp: ParticipantUserIDsForInvitation_def simp flip: in_set_map_of [OF wf])
  have "distinct ?us"
    using wf_map_filter [OF wf] by (simp add: ParticipantUserIDsForInvitation_def wf_map_def)
  moreover have "IsParticipant u r \<and> u \<noteq> r_ownerID r" if "u \<in> set ?us" for u
    using that us member_ok [OF mem, of u] by (auto simp: IsParticipant_def)
  ultimately obtain r' where r': "fold (\<lambda>uid r. snd (KickParticipant live uid clock r)) ?us (Some r) = Some r'"
    "room_inv r'" "\<forall>v. lookup (r_memberByID r') v = (if v \<in> set ?us then None else lookup (r_memberByID r) v)"
    "\<forall>u \<in> set ?us. IsKicked u r'" using kick_fold [OF inv] by blast
  have wf': "wf_map (r_memberByID r')" using r'(2) by (simp add: room_inv_def members_ok_def)
  have no: "lookup (r_memberByID r') u = Some p \<Longrightarrow> p_Role p = RoleViewer \<Longrightarrow> p_InvitationID p \<noteq> invitation" for u p
    using r'(3) us by (auto split: if_splits)
  have "filter (\<lambda>(_, p). p_Role p = RoleViewer \<and> p_InvitationID p = invitation) (r_memberByID r') = []"
    by (auto simp: filter_empty_conv in_set_map_of [OF wf'] dest: no)
  then have "ParticipantUserIDsForInvitation invitation r' = []"
    by (simp add: ParticipantUserIDsForInvitation_def)
  with r' assms(2) show ?thesis
    by (auto simp: DisconnectInvitationConsumers_def IsParticipant_def)
qed

theorem disconnect_consumers_complete_witness:
  "\<exists>us r'. DisconnectInvitationConsumers True ''i1'' (\<lambda>_. 9) (Some demo_room) = (us, Some r')
     \<and> ParticipantUserIDsForInvitation ''i1'' r' = [] \<and> ParticipantUserIDsForInvitation ''i1'' demo_room = [''bob'']"
proof -
  have reach: "room_step\<^sup>*\<^sup>* (new_room ''s1'' ''t1'' ''alice'' ''Alice'' 1) demo_room"
    unfolding demo_room_def by (rule room_steps_fold)
  have "ParticipantUserIDsForInvitation ''i1'' demo_room = [''bob'']"
    by (simp add: ParticipantUserIDsForInvitation_def demo_room_def new_room_def or_unchanged_def
        AddViewer_def RequestWrite_def Let_def)
  with disconnect_consumers_complete [OF reach, of "''i1''" True "\<lambda>_. 9"] show ?thesis by auto
qed

end
