(* ===== verification/Go_Text.thy ===== *)
theory Go_Text
  imports Vantyx_Prelude
begin

text \<open>
  The parts of Go's \<open>unicode/utf8\<close>, \<open>unicode\<close>, \<open>strings\<close> and \<open>net\<close> packages that the
  validators use: decoding of a string into code points (an invalid byte is one replacement
  character), control characters, splitting, and \<open>net.ParseIP\<close> with the address classes of
  \<open>net.IP\<close>.
\<close>

subsection \<open>UTF-8\<close>

definition byte :: "char \<Rightarrow> nat" where "byte c = of_char c"

definition between :: "nat \<Rightarrow> nat \<Rightarrow> nat \<Rightarrow> bool" where
  "between lo hi n = (lo \<le> n \<and> n \<le> hi)"

definition rune_error :: nat where "rune_error = 65533"

text \<open>Allowed range of the second byte, by first byte, and the length of the encoding.\<close>

definition lead :: "nat \<Rightarrow> (nat \<times> nat \<times> nat) option" where
  "lead b = (if between 194 223 b then Some (2, 128, 191)
     else if b = 224 then Some (3, 160, 191)
     else if b = 237 then Some (3, 128, 159)
     else if between 225 239 b then Some (3, 128, 191)
     else if b = 240 then Some (4, 144, 191)
     else if between 241 243 b then Some (4, 128, 191)
     else if b = 244 then Some (4, 128, 143)
     else None)"

definition cont :: "nat \<Rightarrow> bool" where "cont b = between 128 191 b"

definition decode_rune :: "string \<Rightarrow> nat \<times> nat" where
  "decode_rune s = (case map byte (take 4 s) of
     [] \<Rightarrow> (rune_error, 0)
   | b0 # bs \<Rightarrow>
      if b0 < 128 then (b0, 1)
      else case lead b0 of None \<Rightarrow> (rune_error, 1)
        | Some (n, lo, hi) \<Rightarrow>
          (case bs of b1 # cs \<Rightarrow>
             if \<not> between lo hi b1 then (rune_error, 1)
             else if n = 2 then (b0 mod 32 * 64 + b1 mod 64, 2)
             else (case cs of b2 # ds \<Rightarrow>
                if \<not> cont b2 then (rune_error, 1)
                else if n = 3 then (b0 mod 16 * 4096 + b1 mod 64 * 64 + b2 mod 64, 3)
                else (case ds of b3 # _ \<Rightarrow>
                   if \<not> cont b3 then (rune_error, 1)
                   else (b0 mod 8 * 262144 + b1 mod 64 * 4096 + b2 mod 64 * 64 + b3 mod 64, 4)
                 | [] \<Rightarrow> (rune_error, 1))
              | [] \<Rightarrow> (rune_error, 1))
           | [] \<Rightarrow> (rune_error, 1)))"

lemma decode_rune_size: "s \<noteq> [] \<Longrightarrow> 0 < snd (decode_rune s)"
  by (cases s) (auto simp: decode_rune_def split: list.split option.split prod.split)

function runes :: "string \<Rightarrow> nat list" where
  "runes s = (if s = [] then [] else case decode_rune s of (r, n) \<Rightarrow> r # runes (drop n s))"
  by pat_completeness auto
termination
proof (relation "measure length", goal_cases)
  case (2 s r n)
  then have "0 < n" "s \<noteq> []" using decode_rune_size [of s] by (auto dest: arg_cong [where f = snd])
  then show ?case by simp
qed simp

declare runes.simps [simp del]

lemma runes_Nil [simp]: "runes [] = []"
  by (simp add: runes.simps)

lemma runes_ascii_Cons: "byte c < 128 \<Longrightarrow> runes (c # s) = byte c # runes s"
  by (simp add: runes.simps [of "c # s"] decode_rune_def)

lemma runes_ascii: "list_all (\<lambda>c. byte c < 128) s \<Longrightarrow> runes s = map byte s"
  by (induction s) (simp_all add: runes_ascii_Cons)

definition IsControl :: "nat \<Rightarrow> bool" where
  "IsControl r = (r < 32 \<or> between 127 159 r)"

subsection \<open>Splitting and joining\<close>

fun split_byte :: "char \<Rightarrow> string \<Rightarrow> string list" where
  "split_byte c [] = [[]]"
| "split_byte c (a # s) = (if a = c then [] # split_byte c s
     else case split_byte c s of [] \<Rightarrow> [[a]] | w # ws \<Rightarrow> (a # w) # ws)"

fun join_byte :: "char \<Rightarrow> string list \<Rightarrow> string" where
  "join_byte c [] = []"
| "join_byte c [w] = w"
| "join_byte c (w # v # ws) = w @ c # join_byte c (v # ws)"

lemma split_byte_nonempty [simp]: "split_byte c s \<noteq> []"
  by (induction s) (auto split: list.split)

lemma join_split [simp]: "join_byte c (split_byte c s) = s"
proof (induction s)
  case (Cons a s)
  obtain w ws where "split_byte c s = w # ws" by (cases "split_byte c s") auto
  with Cons show ?case by (cases ws) auto
qed simp

lemma split_append: "split_byte c (s @ c # t) = split_byte c s @ split_byte c t"
  by (induction s) (auto split: list.split)

lemma split_no_sep: "c \<notin> set s \<Longrightarrow> split_byte c s = [s]"
  by (induction s) auto

lemma set_split: "w \<in> set (split_byte c s) \<Longrightarrow> set w \<subseteq> set s \<and> c \<notin> set w"
proof (induction s arbitrary: w)
  case (Cons a s)
  show ?case
  proof (cases "split_byte c s")
    case (Cons v ws)
    with Cons.prems Cons.IH [of w] Cons.IH [of v] show ?thesis
      by (auto split: if_splits)
  qed simp
qed simp

subsection \<open>IP addresses\<close>

text \<open>
  \<open>net.ParseIP\<close>: sixteen bytes, an IPv4 address in its IPv4-mapped form.  The kind of address is
  chosen by the first of the characters dot, colon and percent.
\<close>

definition ipv4_field :: "string \<Rightarrow> nat option" where
  "ipv4_field w = (if w = [] \<or> \<not> list_all is_digit w then None
     else if length w > 1 \<and> hd w = CHR ''0'' then None
     else let v = nat (digits_val w) in if v > 255 then None else Some v)"

definition parse_ipv4 :: "string \<Rightarrow> nat list option" where
  "parse_ipv4 s = (case map ipv4_field (split_byte (CHR ''.'') s) of
     [Some a, Some b, Some c, Some d] \<Rightarrow> Some [a, b, c, d] | _ \<Rightarrow> None)"

definition hex_val :: "char \<Rightarrow> nat option" where
  "hex_val c = (if is_digit c then Some (byte c - 48)
     else if CHR ''a'' \<le> c \<and> c \<le> CHR ''f'' then Some (byte c - 87)
     else if CHR ''A'' \<le> c \<and> c \<le> CHR ''F'' then Some (byte c - 55) else None)"

definition is_hex :: "char \<Rightarrow> bool" where "is_hex c = (hex_val c \<noteq> None)"

definition hex_num :: "string \<Rightarrow> nat" where
  "hex_num w = foldl (\<lambda>n c. n * 16 + the (hex_val c)) 0 w"

text \<open>
  The field loop of the IPv6 parser: the bytes read so far (\<open>ip\<close>), the position of the ellipsis
  if it was seen, and the rest of the string.  Result: the bytes, the ellipsis and what is left.
\<close>

function ipv6_fields :: "nat list \<Rightarrow> nat option \<Rightarrow> string \<Rightarrow> (nat list \<times> nat option \<times> string) option" where
  "ipv6_fields ip ell s =
     (if length ip \<ge> 16 then Some (ip, ell, s)
      else let w = takeWhile is_hex s; r = dropWhile is_hex s in
        if w = [] \<or> length w > 4 then None
        else if r \<noteq> [] \<and> hd r = CHR ''.'' then
          (if ell = None \<and> length ip \<noteq> 12 then None
           else if length ip + 4 > 16 then None
           else map_option (\<lambda>v4. (ip @ v4, ell, [])) (parse_ipv4 s))
        else let ip = ip @ [hex_num w div 256, hex_num w mod 256] in
          if r = [] then Some (ip, ell, [])
          else if hd r \<noteq> CHR '':'' \<or> tl r = [] then None
          else if hd (tl r) = CHR '':'' then
            (if ell \<noteq> None then None
             else if tl (tl r) = [] then Some (ip, Some (length ip), [])
             else ipv6_fields ip (Some (length ip)) (tl (tl r)))
          else ipv6_fields ip ell (tl r))"
  by pat_completeness auto
termination
  by (relation "measure (\<lambda>(ip, _, _). 16 - length ip)") auto

declare ipv6_fields.simps [simp del]

definition parse_ipv6 :: "string \<Rightarrow> nat list option" where
  "parse_ipv6 s =
     (let lead = (take 2 s = ''::'') in
      if lead \<and> drop 2 s = [] then Some (replicate 16 0)
      else case ipv6_fields [] (if lead then Some 0 else None) (if lead then drop 2 s else s) of
        None \<Rightarrow> None
      | Some (ip, ell, rest) \<Rightarrow>
          if rest \<noteq> [] then None
          else if length ip < 16 then
            (case ell of None \<Rightarrow> None
             | Some e \<Rightarrow> Some (take e ip @ replicate (16 - length ip) 0 @ drop e ip))
          else if ell \<noteq> None then None else Some ip)"

definition v4_mapped :: "nat list \<Rightarrow> nat list" where
  "v4_mapped v = replicate 10 0 @ [255, 255] @ v"

definition ParseIP :: "string \<Rightarrow> nat list option" where
  "ParseIP s = (if CHR ''%'' \<in> set s then None
     else case find (\<lambda>c. c = CHR ''.'' \<or> c = CHR '':'') s of
       None \<Rightarrow> None
     | Some c \<Rightarrow> if c = CHR ''.'' then map_option v4_mapped (parse_ipv4 s) else parse_ipv6 s)"

definition To4 :: "nat list \<Rightarrow> nat list option" where
  "To4 ip = (if length ip = 4 then Some ip
     else if length ip = 16 \<and> take 12 ip = v4_mapped [] then Some (drop 12 ip) else None)"

definition IsLoopback :: "nat list \<Rightarrow> bool" where
  "IsLoopback ip = (case To4 ip of Some v \<Rightarrow> v ! 0 = 127 | None \<Rightarrow> ip = replicate 15 0 @ [1])"

definition IsLinkLocalUnicast :: "nat list \<Rightarrow> bool" where
  "IsLinkLocalUnicast ip = (case To4 ip of Some v \<Rightarrow> v ! 0 = 169 \<and> v ! 1 = 254
     | None \<Rightarrow> length ip = 16 \<and> ip ! 0 = 254 \<and> ip ! 1 div 64 = 2)"

definition IsLinkLocalMulticast :: "nat list \<Rightarrow> bool" where
  "IsLinkLocalMulticast ip = (case To4 ip of Some v \<Rightarrow> v ! 0 = 224 \<and> v ! 1 = 0 \<and> v ! 2 = 0
     | None \<Rightarrow> length ip = 16 \<and> ip ! 0 = 255 \<and> ip ! 1 mod 16 = 2)"

definition IsMulticast :: "nat list \<Rightarrow> bool" where
  "IsMulticast ip = (case To4 ip of Some v \<Rightarrow> v ! 0 div 16 = 14
     | None \<Rightarrow> length ip = 16 \<and> ip ! 0 = 255)"

lemma parse_ipv4_length: "parse_ipv4 s = Some v \<Longrightarrow> length v = 4"
  by (auto simp: parse_ipv4_def split: list.splits option.splits)

end
