(* ===== verification/Access_Validation.thy ===== *)
theory Access_Validation
  imports Go_Text
begin

text \<open>
  Input validation of the access package (\<open>src/internal/access\<close>): identifiers, names, hosts,
  protocols, tags, host-key fingerprints and list limits.  A validator returns \<open>None\<close> when it
  accepts; the environment variable that lifts the host restriction and Go's tables for
  non-ASCII letters and numbers are arguments.
\<close>

datatype access_error =
    ErrGroupIDEmpty | ErrGroupIDTooLong | ErrGroupIDInvalid
  | ErrTargetIDEmpty | ErrTargetIDTooLong | ErrTargetIDInvalid
  | ErrNameEmpty | ErrNameTooLong | ErrNameInvalid
  | ErrHostEmpty | ErrHostTooLong | ErrHostInvalid | ErrHostRestricted
  | ErrProtocolInvalid | ErrTagLength | ErrTagChars
  | ErrGroupExists | ErrGroupNotFound | ErrGroupNotEmpty
  | ErrTargetExists | ErrTargetNotFound | ErrEncryptionKeyRequired | ErrHostKeyFingerprintInvalid
  | ErrSSHKeyIDEmpty | ErrSSHKeyIDTooLong | ErrSSHKeyIDInvalid | ErrSSHKeyLabelReq
  | ErrCredentialIdentityIDEmpty | ErrCredentialIdentityIDTooLong | ErrCredentialIdentityIDInvalid
  | ErrCredentialIdentityLabelReq | ErrCredentialIdentityAuthReq
  | ErrSSHKeyExists | ErrSSHKeyNotFound | ErrSSHKeyPrivateReq | ErrSSHKeyInUse
  | ErrCredentialIdentityExists | ErrCredentialIdentityNotFound | ErrCredentialIdentityUserReq
  | ErrCredentialIdentityInUse | ErrCredentialSourceExclusive
  | ErrForeignKey | ErrUniqueConstraint | ErrEncrypt

definition maxIDLen :: nat where "maxIDLen = 512"
definition maxNameLen :: nat where "maxNameLen = 512"
definition maxHostLen :: nat where "maxHostLen = 253"
definition maxTagLen :: nat where "maxTagLen = 64"

text \<open>\<open>isUniqueConstraintErr\<close> on the text of a database error (\<open>None\<close> is the nil error).\<close>

definition isUniqueConstraintErr :: "string option \<Rightarrow> bool" where
  "isUniqueConstraintErr err = (case err of None \<Rightarrow> False
     | Some msg \<Rightarrow> contains msg ''UNIQUE constraint failed'')"

definition is_alnum :: "char \<Rightarrow> bool" where
  "is_alnum c = (is_digit c \<or> c \<in> {CHR ''A''..CHR ''Z''} \<or> c \<in> {CHR ''a''..CHR ''z''})"

definition id_char :: "char \<Rightarrow> bool" where
  "id_char c = (is_alnum c \<or> c = CHR ''_'' \<or> c = CHR ''-'')"

definition idPattern :: "string \<Rightarrow> bool" where
  "idPattern s = (s \<noteq> [] \<and> list_all id_char s)"

definition host_char :: "char \<Rightarrow> bool" where
  "host_char c = (is_alnum c \<or> c = CHR ''.'' \<or> c = CHR ''-'')"

definition hostnamePattern :: "string \<Rightarrow> bool" where
  "hostnamePattern s = (s \<noteq> [] \<and> is_alnum (hd s) \<and> is_alnum (last s) \<and> list_all host_char s)"

definition escapeLikePrefix :: "string \<Rightarrow> string" where
  "escapeLikePrefix s = concat (map (\<lambda>c. if c = CHR 0x5C \<or> c = CHR ''%'' \<or> c = CHR ''_'' then [CHR 0x5C, c] else [c]) s)"

definition validateGroupID :: "string \<Rightarrow> access_error option" where
  "validateGroupID s =
     (if s = [] then Some ErrGroupIDEmpty
      else if length s > maxIDLen then Some ErrGroupIDTooLong
      else if list_all (\<lambda>seg. seg \<noteq> [] \<and> seg \<noteq> ''.'' \<and> seg \<noteq> ''..'' \<and> idPattern seg) (split_byte (CHR ''/'') s)
      then None else Some ErrGroupIDInvalid)"

definition validateTargetID :: "string \<Rightarrow> access_error option" where
  "validateTargetID s =
     (if s = [] then Some ErrTargetIDEmpty
      else if length s > maxIDLen then Some ErrTargetIDTooLong
      else if \<not> idPattern s then Some ErrTargetIDInvalid else None)"

definition validateName :: "string \<Rightarrow> access_error option" where
  "validateName name =
     (if name = [] then Some ErrNameEmpty
      else if length name > maxNameLen then Some ErrNameTooLong
      else if \<exists>r \<in> set (runes name). r \<noteq> 9 \<and> IsControl r then Some ErrNameInvalid else None)"

definition restrictedHostsAllowed :: "string \<Rightarrow> bool" where
  "restrictedHostsAllowed env = (trim_space env = ''1'')"

definition checkRestrictedHostIP :: "string \<Rightarrow> nat list option \<Rightarrow> access_error option" where
  "checkRestrictedHostIP env ip = (case ip of None \<Rightarrow> None
     | Some a \<Rightarrow>
        if restrictedHostsAllowed env then None
        else if a = v4_mapped [169, 254, 169, 254] then Some ErrHostRestricted
        else if IsLoopback a \<or> IsLinkLocalUnicast a \<or> IsLinkLocalMulticast a then Some ErrHostRestricted
        else case To4 a of Some v \<Rightarrow> if v ! 0 = 169 \<and> v ! 1 = 254 then Some ErrHostRestricted else None
          | None \<Rightarrow> None)"

definition validateHost :: "string \<Rightarrow> string \<Rightarrow> access_error option" where
  "validateHost env host =
     (if host = [] then Some ErrHostEmpty
      else if length host > maxHostLen then Some ErrHostTooLong
      else case ParseIP host of Some ip \<Rightarrow> checkRestrictedHostIP env (Some ip)
        | None \<Rightarrow> if \<not> hostnamePattern host then Some ErrHostInvalid else None)"

type_synonym Protocol = string

definition ProtocolSSH :: Protocol where "ProtocolSSH = ''ssh''"
definition ProtocolTelnet :: Protocol where "ProtocolTelnet = ''telnet''"
definition ProtocolVNC :: Protocol where "ProtocolVNC = ''vnc''"
definition ProtocolFTP :: Protocol where "ProtocolFTP = ''ftp''"
definition ProtocolTFTP :: Protocol where "ProtocolTFTP = ''tftp''"
definition ProtocolRDP :: Protocol where "ProtocolRDP = ''rdp''"

definition validateProtocol :: "Protocol \<Rightarrow> access_error option" where
  "validateProtocol p = (if p \<in> {ProtocolSSH, ProtocolTelnet, ProtocolVNC, ProtocolTFTP, ProtocolRDP, ProtocolFTP}
     then None else Some ErrProtocolInvalid)"

record ListOpts =
  lo_Limit :: int
  lo_Offset :: int
  lo_AfterID :: string

definition DefaultListLimit :: int where "DefaultListLimit = 100"

definition listLimit :: "ListOpts option \<Rightarrow> int \<Rightarrow> int \<times> int" where
  "listLimit opts defaultLimit = (case opts of None \<Rightarrow> (defaultLimit, 0)
     | Some o' \<Rightarrow> (if lo_Limit o' > 0 then lo_Limit o' else defaultLimit,
                   if lo_Offset o' > 0 then lo_Offset o' else 0))"

text \<open>\<open>uni\<close> tells letters and numbers beyond ASCII.\<close>

definition validateTag :: "(nat \<Rightarrow> bool) \<Rightarrow> string \<Rightarrow> access_error option" where
  "validateTag uni tag =
     (if tag = [] \<or> length tag > maxTagLen then Some ErrTagLength
      else if list_all (\<lambda>r. if r < 128 then id_char (char_of r) else uni r) (runes tag) then None
      else Some ErrTagChars)"

definition trim_eq_right :: "string \<Rightarrow> string" where
  "trim_eq_right s = rev (dropWhile (\<lambda>c. c = CHR ''='') (rev s))"

definition validHostKeyFingerprint :: "string \<Rightarrow> access_error + string" where
  "validHostKeyFingerprint fp =
     (let fp = trim_space fp in
      if fp = [] then Inr []
      else if \<not> has_prefix fp ''SHA256:'' then Inl ErrHostKeyFingerprintInvalid
      else let body = trim_eq_right (drop (length ''SHA256:'') fp) in
        if length body < 40 \<or> length body > 60 then Inl ErrHostKeyFingerprintInvalid
        else if list_all (\<lambda>c. is_alnum c \<or> c = CHR ''+'' \<or> c = CHR ''/'') body
        then Inr (''SHA256:'' @ body)
        else Inl ErrHostKeyFingerprintInvalid)"

definition validateCredentialLibraryID ::
  "string \<Rightarrow> access_error \<Rightarrow> access_error \<Rightarrow> access_error \<Rightarrow> access_error option" where
  "validateCredentialLibraryID lid emptyErr tooLongErr invalidErr =
     (let s = trim_space lid in
      if s = [] then Some emptyErr
      else if length s > maxIDLen then Some tooLongErr
      else if \<not> idPattern s then Some invalidErr else None)"

definition isControlLike :: "nat \<Rightarrow> bool" where
  "isControlLike r = (r < 32 \<or> r = 127)"

definition validateCredentialLibraryLabel :: "string \<Rightarrow> access_error \<Rightarrow> access_error option" where
  "validateCredentialLibraryLabel label emptyErr =
     (let label = trim_space label in
      if label = [] then Some emptyErr
      else if length label > maxNameLen then Some ErrNameTooLong
      else if \<exists>r \<in> set (runes label). r \<noteq> 9 \<and> isControlLike r then Some ErrNameInvalid else None)"

definition validateSSHKeyID :: "string \<Rightarrow> access_error option" where
  "validateSSHKeyID kid = validateCredentialLibraryID kid ErrSSHKeyIDEmpty ErrSSHKeyIDTooLong ErrSSHKeyIDInvalid"

definition validateSSHKeyLabel :: "string \<Rightarrow> access_error option" where
  "validateSSHKeyLabel label = validateCredentialLibraryLabel label ErrSSHKeyLabelReq"

definition validateCredentialIdentityID :: "string \<Rightarrow> access_error option" where
  "validateCredentialIdentityID cid = validateCredentialLibraryID cid ErrCredentialIdentityIDEmpty
     ErrCredentialIdentityIDTooLong ErrCredentialIdentityIDInvalid"

definition validateCredentialIdentityLabel :: "string \<Rightarrow> access_error option" where
  "validateCredentialIdentityLabel label = validateCredentialLibraryLabel label ErrCredentialIdentityLabelReq"

definition validateCredentialIdentityAuth :: "string \<Rightarrow> string \<Rightarrow> access_error option" where
  "validateCredentialIdentityAuth sshPassword sshKeyID =
     (if trim_space sshPassword = [] \<and> trim_space sshKeyID = [] then Some ErrCredentialIdentityAuthReq else None)"

subsection \<open>What acceptance means\<close>

lemma dots_not_ids: "\<not> idPattern ''.''" "\<not> idPattern ''..''" "\<not> idPattern []"
  by (simp_all add: idPattern_def id_char_def is_alnum_def is_digit_def)

lemma validateGroupID_segments:
  "validateGroupID g = None \<longleftrightarrow> g \<noteq> [] \<and> length g \<le> maxIDLen
     \<and> (\<forall>seg \<in> set (split_byte (CHR ''/'') g). idPattern seg)"
  using dots_not_ids unfolding validateGroupID_def list_all_iff by (auto split: if_splits)

lemma set_split_cover: "set g \<subseteq> \<Union> (set ` set (split_byte c g)) \<union> {c}"
proof (induction g)
  case (Cons a g)
  obtain w ws where "split_byte c g = w # ws" by (cases "split_byte c g") auto
  with Cons show ?case by auto
qed simp

lemma validateGroupID_chars: "validateGroupID g = None \<Longrightarrow> c \<in> set g \<Longrightarrow> id_char c \<or> c = CHR ''/''"
  using set_split_cover [of g "CHR ''/''"]
  by (fastforce simp: validateGroupID_segments idPattern_def list_all_iff)

text \<open>
  A host that validation accepts as an IP address is never a loopback, link-local or
  cloud-metadata address, in whatever notation (dotted IPv4, IPv6, IPv4-mapped IPv6) it is written,
  unless the operator lifted the restriction.
\<close>

theorem accepted_host_not_restricted:
  assumes "validateHost env host = None" "\<not> restrictedHostsAllowed env" "ParseIP host = Some ip"
  shows "\<not> IsLoopback ip \<and> \<not> IsLinkLocalUnicast ip \<and> \<not> IsLinkLocalMulticast ip
    \<and> (\<forall>v. To4 ip = Some v \<longrightarrow> \<not> (v ! 0 = 169 \<and> v ! 1 = 254))"
  using assms by (auto simp: validateHost_def checkRestrictedHostIP_def split: if_splits option.splits)

lemmas host_eval = validateHost_def maxHostLen_def ParseIP_def parse_ipv4_def parse_ipv6_def ipv6_fields.simps
  ipv4_field_def is_digit_def digits_val_def digit_val_def v4_mapped_def checkRestrictedHostIP_def
  restrictedHostsAllowed_def trim_space_def trim_left_def trim_right_def strip_front.simps space_runes_def
  has_prefix_def IsLoopback_def IsLinkLocalUnicast_def IsLinkLocalMulticast_def To4_def is_hex_def hex_val_def
  hex_num_def byte_def Let_def replicate_num

theorem accepted_host_not_restricted_witness:
  "validateHost [] ''10.1.2.3'' = None \<and> \<not> IsLoopback (v4_mapped [10, 1, 2, 3])
   \<and> validateHost [] ''::ffff:127.0.0.1'' = Some ErrHostRestricted
   \<and> validateHost [] ''::1'' = Some ErrHostRestricted \<and> validateHost [] ''fe80::1'' = Some ErrHostRestricted"
proof -
  have ok: "validateHost [] ''10.1.2.3'' = None" "ParseIP ''10.1.2.3'' = Some (v4_mapped [10, 1, 2, 3])"
    by (simp_all add: host_eval)
  have env: "\<not> restrictedHostsAllowed []" by (simp add: host_eval)
  have bad: "validateHost [] ''::ffff:127.0.0.1'' = Some ErrHostRestricted"
    "validateHost [] ''::1'' = Some ErrHostRestricted" "validateHost [] ''fe80::1'' = Some ErrHostRestricted"
    by (simp_all add: host_eval)
  from accepted_host_not_restricted [OF ok(1) env ok(2)] ok(1) bad show ?thesis by blast
qed

end
