(* ===== verification/Access_Schema.thy ===== *)
theory Access_Schema
  imports Access_Validation
begin

text \<open>
  The tables behind access control (\<open>src/internal/db/sqlite/migrate.go\<close>), with their primary keys
  and foreign keys (\<open>foreign_keys\<close> is on, so deletions cascade), SQLite's LIKE operator, and the
  paging every list operation shares.
\<close>

record target_row =
  tr_id :: string
  tr_name :: string
  tr_host :: string
  tr_port :: int
  tr_protocol :: string
  tr_group_id :: string
  tr_path :: string
  tr_ssh_username :: string
  tr_ssh_password :: string
  tr_ssh_private_key :: string
  tr_ssh_private_key_passphrase :: string
  tr_sftp_enabled :: int
  tr_ftp_enabled :: int
  tr_tftp_enabled :: int
  tr_ssh_host_key_fingerprint :: string
  tr_ssh_host_key_insecure_skip_verify :: int
  tr_credential_identity_id :: string
  tr_ssh_key_id :: string

record AccessDB =
  db_users :: "string list"
  db_groups :: "(string \<times> string) list"
  db_targets :: "target_row list"
  db_user_groups :: "(string \<times> string \<times> int option) list"
  db_group_targets :: "(string \<times> string) list"
  db_group_tags :: "(string \<times> string) list"
  db_target_tags :: "(string \<times> string) list"
  db_user_tags :: "(string \<times> string) list"

definition group_exists :: "string \<Rightarrow> AccessDB \<Rightarrow> bool" where
  "group_exists g db = (g \<in> set (map fst (db_groups db)))"

definition target_exists :: "string \<Rightarrow> AccessDB \<Rightarrow> bool" where
  "target_exists t db = (t \<in> set (map tr_id (db_targets db)))"

text \<open>Deleting target rows cascades to their assignments and tags.\<close>

definition delete_targets :: "(target_row \<Rightarrow> bool) \<Rightarrow> AccessDB \<Rightarrow> AccessDB" where
  "delete_targets P db = (let gone = map tr_id (filter P (db_targets db)) in
     db\<lparr>db_targets := filter (\<lambda>r. \<not> P r) (db_targets db),
        db_group_targets := filter (\<lambda>(_, t). t \<notin> set gone) (db_group_targets db),
        db_target_tags := filter (\<lambda>(t, _). t \<notin> set gone) (db_target_tags db)\<rparr>)"

text \<open>Deleting a group cascades to memberships, assignments, tags and the targets created in it.\<close>

definition delete_group :: "string \<Rightarrow> AccessDB \<Rightarrow> AccessDB" where
  "delete_group g db = delete_targets (\<lambda>r. tr_group_id r = g)
     (db\<lparr>db_groups := filter (\<lambda>(i, _). i \<noteq> g) (db_groups db),
        db_user_groups := filter (\<lambda>(_, h, _). h \<noteq> g) (db_user_groups db),
        db_group_targets := filter (\<lambda>(h, _). h \<noteq> g) (db_group_targets db),
        db_group_tags := filter (\<lambda>(h, _). h \<noteq> g) (db_group_tags db)\<rparr>)"

definition db_inv :: "AccessDB \<Rightarrow> bool" where
  "db_inv db = (distinct (map fst (db_groups db)) \<and> distinct (map tr_id (db_targets db))
     \<and> distinct (map (\<lambda>(u, g, _). (u, g)) (db_user_groups db))
     \<and> distinct (db_group_targets db) \<and> distinct (db_group_tags db) \<and> distinct (db_target_tags db)
     \<and> (\<forall>(g, _) \<in> set (db_groups db). validateGroupID g = None)
     \<and> (\<forall>r \<in> set (db_targets db). group_exists (tr_group_id r) db)
     \<and> (\<forall>(u, g, _) \<in> set (db_user_groups db). u \<in> set (db_users db) \<and> group_exists g db)
     \<and> (\<forall>(g, t) \<in> set (db_group_targets db). group_exists g db \<and> target_exists t db)
     \<and> (\<forall>(g, _) \<in> set (db_group_tags db). group_exists g db)
     \<and> (\<forall>(t, _) \<in> set (db_target_tags db). target_exists t db))"

subsection \<open>LIKE with ESCAPE\<close>

text \<open>
  SQLite's LIKE with backslash as escape character: percent is any sequence, underscore any one
  character, and letters compare without regard to ASCII case.
\<close>

fun like :: "string \<Rightarrow> string \<Rightarrow> bool" where
  "like [] s = (s = [])"
| "like (c # p) s =
     (if c = CHR 0x5C then (case p of [] \<Rightarrow> False
        | d # q \<Rightarrow> (case s of [] \<Rightarrow> False | a # r \<Rightarrow> lower_char a = lower_char d \<and> like q r))
      else if c = CHR ''%'' then (like p s \<or> (case s of [] \<Rightarrow> False | _ # r \<Rightarrow> like (c # p) r))
      else if c = CHR ''_'' then (case s of [] \<Rightarrow> False | _ # r \<Rightarrow> like p r)
      else (case s of [] \<Rightarrow> False | a # r \<Rightarrow> lower_char a = lower_char c \<and> like p r))"

declare like.simps [simp del]

lemma like_any: "like ''%'' s"
  by (induction s) (simp_all add: like.simps)

lemma like_escaped_prefix:
  "like (escapeLikePrefix p @ q) s \<longleftrightarrow> to_lower (take (length p) s) = to_lower p \<and> like q (drop (length p) s)"
proof (induction p arbitrary: s)
  case Nil
  then show ?case by (simp add: escapeLikePrefix_def to_lower_def)
next
  case (Cons c p)
  have esc: "escapeLikePrefix (c # p) = (if c = CHR 0x5C \<or> c = CHR ''%'' \<or> c = CHR ''_'' then [CHR 0x5C, c] else [c]) @ escapeLikePrefix p"
    by (simp add: escapeLikePrefix_def)
  show ?case
  proof (cases s)
    case Nil
    then show ?thesis by (simp add: esc like.simps to_lower_def)
  next
    case (Cons a r)
    have "like (escapeLikePrefix (c # p) @ q) (a # r) \<longleftrightarrow> lower_char a = lower_char c \<and> like (escapeLikePrefix p @ q) r"
      by (simp add: esc like.simps(2))
    then show ?thesis by (simp add: Cons Cons.IH to_lower_def)
  qed
qed

subsection \<open>Paging\<close>

text \<open>
  Paging over a sorted list in Go (the cursor first, then the offset, then the limit), and the
  SQL form used by the plain listings, where a cursor replaces the offset.
\<close>

definition skip_after :: "string \<Rightarrow> string list \<Rightarrow> string list" where
  "skip_after a xs = dropWhile (\<lambda>x. x \<le> a) xs"

definition page :: "ListOpts option \<Rightarrow> int \<Rightarrow> string list \<Rightarrow> string list" where
  "page opts dflt xs =
     (case listLimit opts dflt of (limit, offset) \<Rightarrow>
      let xs = (case opts of Some o' \<Rightarrow> if lo_AfterID o' \<noteq> [] then skip_after (lo_AfterID o') xs else xs
                  | None \<Rightarrow> xs)
      in if offset > 0 \<and> nat offset \<ge> length xs then []
         else let xs = drop (nat offset) xs in
           if limit > 0 \<and> length xs > nat limit then take (nat limit) xs else xs)"

definition sql_page :: "ListOpts option \<Rightarrow> int \<Rightarrow> string list \<Rightarrow> string list" where
  "sql_page opts dflt xs =
     (case listLimit opts dflt of (limit, offset) \<Rightarrow>
      (case opts of Some o' \<Rightarrow>
          if lo_AfterID o' \<noteq> [] then take (nat limit) (filter (\<lambda>x. x > lo_AfterID o') xs)
          else take (nat limit) (drop (nat offset) xs)
       | None \<Rightarrow> take (nat limit) (drop (nat offset) xs)))"

lemma page_none: "0 < d \<Longrightarrow> page None d xs = take (nat d) xs"
  by (simp add: page_def listLimit_def)

lemma page_all: "0 < lo_Limit o' \<Longrightarrow> lo_Offset o' \<le> 0 \<Longrightarrow> lo_AfterID o' = [] \<Longrightarrow> int (length xs) \<le> lo_Limit o' \<Longrightarrow>
    page (Some o') d xs = xs"
  by (auto simp: page_def listLimit_def Let_def)

lemma set_page_subset: "set (page opts d xs) \<subseteq> set xs"
  by (auto simp: page_def skip_after_def Let_def split: prod.splits option.splits if_splits
      dest: in_set_takeD in_set_dropD set_dropWhileD)

lemma take_le_nth:
  assumes "sorted xs" "i < length xs" "x \<in> set (take (Suc i) xs)"
  shows "x \<le> xs ! i"
proof -
  obtain j where j: "j < Suc i" "x = xs ! j"
    using assms(2,3) by (auto simp: in_set_conv_nth)
  then have "j \<le> i" by simp
  with assms j(2) show ?thesis by (simp add: sorted_nth_mono)
qed

lemma skip_after_nth:
  assumes "sorted xs" "distinct xs" "i < length xs"
  shows "skip_after (xs ! i) xs = drop (Suc i) xs"
proof -
  have "dropWhile (\<lambda>x. x \<le> xs ! i) (take (Suc i) xs @ drop (Suc i) xs) = drop (Suc i) xs"
  proof (rule trans [OF dropWhile_append2])
    fix x assume "x \<in> set (take (Suc i) xs)"
    then show "x \<le> xs ! i" by (rule take_le_nth [OF assms(1,3)])
  next
    have "xs ! i < hd (drop (Suc i) xs)" if "drop (Suc i) xs \<noteq> []"
    proof -
      have "Suc i < length xs" using that by simp
      then have "xs ! i \<le> xs ! Suc i" "xs ! i \<noteq> xs ! Suc i"
        using assms by (simp_all add: sorted_nth_mono nth_eq_iff_index_eq)
      then show ?thesis using that by (simp add: hd_drop_conv_nth)
    qed
    then show "dropWhile (\<lambda>x. x \<le> xs ! i) (drop (Suc i) xs) = drop (Suc i) xs"
      by (cases "drop (Suc i) xs") auto
  qed
  then show ?thesis by (simp add: skip_after_def)
qed

lemma filter_greater_nth:
  assumes "sorted xs" "distinct xs" "i < length xs"
  shows "filter (\<lambda>x. xs ! i < x) xs = drop (Suc i) xs"
proof -
  have "filter (\<lambda>x. xs ! i < x) (take (Suc i) xs @ drop (Suc i) xs) = drop (Suc i) xs"
  proof -
    have "\<forall>x \<in> set (take (Suc i) xs). \<not> xs ! i < x"
      using take_le_nth [OF assms(1,3)] by (simp add: not_less)
    moreover have "xs ! i < x" if "x \<in> set (drop (Suc i) xs)" for x
    proof -
      from that obtain j where "j < length (drop (Suc i) xs)" "x = drop (Suc i) xs ! j"
        by (metis in_set_conv_nth)
      then have j: "Suc i + j < length xs" "x = xs ! (Suc i + j)" by simp_all
      then have "xs ! i \<le> x" "xs ! i \<noteq> x"
        using assms by (simp_all add: sorted_nth_mono nth_eq_iff_index_eq)
      then show ?thesis by simp
    qed
    ultimately show ?thesis
      unfolding filter_append by (simp add: filter_id_conv)
  qed
  then show ?thesis by simp
qed

end
