(* ===== verification/Access_Groups.thy ===== *)
theory Access_Groups
  imports Access_Schema
begin

text \<open>
  The access group store (\<open>SQLiteAccessGroupStore\<close> of \<open>src/internal/access/sqlite_store.go\<close>):
  groups form a hierarchy by their path-like identifiers, and a grant on a group, by membership or
  by tag, covers the group and its descendants.  Queries are list comprehensions over the tables;
  transactions are one step.  Clock readings are arguments.
\<close>

definition maxFanoutRowsPerQuery :: nat where "maxFanoutRowsPerQuery = 20000"

definition descendantOrSelf :: "string \<Rightarrow> string \<Rightarrow> bool" where
  "descendantOrSelf child parent = (child = parent \<or> take (length parent + 1) child = parent @ ''/'')"

definition activeMembership :: "instant \<Rightarrow> int option \<Rightarrow> bool" where
  "activeMembership now expires_at = (case expires_at of None \<Rightarrow> True | Some e \<Rightarrow> e > unix now)"

definition grp_Create :: "string \<Rightarrow> string \<Rightarrow> AccessDB \<Rightarrow> access_error + AccessDB" where
  "grp_Create gid name db =
     (case validateGroupID gid of Some e \<Rightarrow> Inl e
      | None \<Rightarrow> (case validateName name of Some e \<Rightarrow> Inl e
        | None \<Rightarrow> if group_exists gid db then Inl ErrGroupExists
            else Inr (db\<lparr>db_groups := db_groups db @ [(gid, name)]\<rparr>)))"

definition grp_Get :: "string \<Rightarrow> AccessDB \<Rightarrow> access_error + string \<times> string" where
  "grp_Get gid db = (case find (\<lambda>(g, _). g = gid) (db_groups db) of
     Some g \<Rightarrow> Inr g | None \<Rightarrow> Inl ErrGroupNotFound)"

definition grp_Update :: "string \<Rightarrow> string \<Rightarrow> AccessDB \<Rightarrow> access_error + AccessDB" where
  "grp_Update gid name db =
     (case validateGroupID gid of Some e \<Rightarrow> Inl e
      | None \<Rightarrow> (case validateName name of Some e \<Rightarrow> Inl e
        | None \<Rightarrow> (case sql_update (\<lambda>(g, _). g = gid) (\<lambda>(g, _). (g, name)) (db_groups db) of
            (n, rows) \<Rightarrow> if n = 0 then Inl ErrGroupNotFound else Inr (db\<lparr>db_groups := rows\<rparr>))))"

definition grp_Delete :: "string \<Rightarrow> AccessDB \<Rightarrow> access_error + AccessDB" where
  "grp_Delete gid db =
     (case validateGroupID gid of Some e \<Rightarrow> Inl e
      | None \<Rightarrow>
        if length (filter (\<lambda>(g, _). g = gid) (db_group_targets db)) > 0 then Inl ErrGroupNotEmpty
        else if length (filter (\<lambda>(g, _). like (escapeLikePrefix gid @ ''/%'') g) (db_groups db)) > 0
          then Inl ErrGroupNotEmpty
        else if \<not> group_exists gid db then Inl ErrGroupNotFound
        else Inr (delete_group gid db))"

definition AddUserToGroupUntil :: "string \<Rightarrow> string \<Rightarrow> instant option \<Rightarrow> AccessDB \<Rightarrow> access_error + AccessDB" where
  "AddUserToGroupUntil userID groupID expiresAt db =
     (if \<not> group_exists groupID db then Inl ErrGroupNotFound
      else if userID \<notin> set (db_users db) then Inl ErrForeignKey
      else let ex = map_option unix expiresAt in
        if \<exists>(u, g, _) \<in> set (db_user_groups db). u = userID \<and> g = groupID
        then Inr (db\<lparr>db_user_groups := map (\<lambda>(u, g, e). if u = userID \<and> g = groupID then (u, g, ex) else (u, g, e))
               (db_user_groups db)\<rparr>)
        else Inr (db\<lparr>db_user_groups := db_user_groups db @ [(userID, groupID, ex)]\<rparr>))"

definition AddUserToGroup :: "string \<Rightarrow> string \<Rightarrow> AccessDB \<Rightarrow> access_error + AccessDB" where
  "AddUserToGroup userID groupID db = AddUserToGroupUntil userID groupID None db"

record Membership =
  ms_UserID :: string
  ms_ExpiresAt :: "instant option"
  ms_Expired :: bool

definition MembershipsForGroup :: "string \<Rightarrow> instant \<Rightarrow> AccessDB \<Rightarrow> Membership list" where
  "MembershipsForGroup groupID now db =
     map (\<lambda>(u, _, e). \<lparr>ms_UserID = u, ms_ExpiresAt = map_option time_unix e,
            ms_Expired = (case e of None \<Rightarrow> False | Some x \<Rightarrow> \<not> time_unix x > now)\<rparr>)
       (sort_key fst (filter (\<lambda>(_, g, _). g = groupID) (db_user_groups db)))"

definition PurgeExpiredMemberships :: "instant \<Rightarrow> AccessDB \<Rightarrow> nat \<times> AccessDB" where
  "PurgeExpiredMemberships olderThan db =
     (case sql_delete (\<lambda>(_, _, e). case e of None \<Rightarrow> False | Some x \<Rightarrow> x < unix olderThan) (db_user_groups db) of
        (n, rows) \<Rightarrow> (n, db\<lparr>db_user_groups := rows\<rparr>))"

definition RemoveUserFromGroup :: "string \<Rightarrow> string \<Rightarrow> AccessDB \<Rightarrow> access_error + AccessDB" where
  "RemoveUserFromGroup userID groupID db =
     (if \<not> group_exists groupID db then Inl ErrGroupNotFound
      else Inr (db\<lparr>db_user_groups := filter (\<lambda>(u, g, _). \<not> (u = userID \<and> g = groupID)) (db_user_groups db)\<rparr>))"

definition UserIDsForGroup :: "string \<Rightarrow> ListOpts option \<Rightarrow> int \<Rightarrow> instant \<Rightarrow> AccessDB \<Rightarrow> string list" where
  "UserIDsForGroup groupID opts dflt now db =
     sql_page opts dflt (sort [u. (u, g, e) \<leftarrow> db_user_groups db, g = groupID, activeMembership now e])"

definition users_by_membership :: "string \<Rightarrow> instant \<Rightarrow> AccessDB \<Rightarrow> string list" where
  "users_by_membership targetID now db =
     [u. (u, g, e) \<leftarrow> db_user_groups db, (g', t) \<leftarrow> db_group_targets db,
         descendantOrSelf g' g, t = targetID, activeMembership now e]"

definition users_by_target_tag :: "string \<Rightarrow> AccessDB \<Rightarrow> string list" where
  "users_by_target_tag targetID db =
     [u. (u, tag) \<leftarrow> db_user_tags db, (t, tag') \<leftarrow> db_target_tags db, tag' = tag, t = targetID]"

definition users_by_group_tag :: "string \<Rightarrow> AccessDB \<Rightarrow> string list" where
  "users_by_group_tag targetID db =
     [u. (u, tag) \<leftarrow> db_user_tags db, (g, tag') \<leftarrow> db_group_tags db, tag' = tag,
         (g', t) \<leftarrow> db_group_targets db, descendantOrSelf g' g, t = targetID]"

definition UserIDsForTarget :: "string \<Rightarrow> ListOpts option \<Rightarrow> int \<Rightarrow> instant \<Rightarrow> AccessDB \<Rightarrow> string list" where
  "UserIDsForTarget targetID opts dflt now db =
     page opts dflt (sort (remdups (users_by_membership targetID now db
       @ users_by_target_tag targetID db @ users_by_group_tag targetID db)))"

definition TagsGrantingTargetAccess :: "string \<Rightarrow> AccessDB \<Rightarrow> string list" where
  "TagsGrantingTargetAccess targetID db =
     sort (remdups (
        [tag. (t, tag) \<leftarrow> db_target_tags db, t = targetID]
      @ [tag. (g, tag) \<leftarrow> db_group_tags db, (g', t) \<leftarrow> db_group_targets db, descendantOrSelf g' g, t = targetID]))"

definition TagsForGroup :: "string \<Rightarrow> AccessDB \<Rightarrow> string list" where
  "TagsForGroup groupID db = sort [tag. (g, tag) \<leftarrow> db_group_tags db, g = groupID]"

definition first_tag_error :: "(nat \<Rightarrow> bool) \<Rightarrow> string list \<Rightarrow> access_error option" where
  "first_tag_error uni tags = (case find (\<lambda>t. validateTag uni t \<noteq> None) tags of
     Some t \<Rightarrow> validateTag uni t | None \<Rightarrow> None)"

definition SetGroupTags :: "(nat \<Rightarrow> bool) \<Rightarrow> string \<Rightarrow> string list \<Rightarrow> AccessDB \<Rightarrow> access_error + AccessDB" where
  "SetGroupTags uni groupID tags db =
     (case first_tag_error uni tags of Some e \<Rightarrow> Inl e
      | None \<Rightarrow> if \<not> group_exists groupID db then Inl ErrGroupNotFound
          else if \<not> distinct tags then Inl Access_Validation.ErrUniqueConstraint
          else Inr (db\<lparr>db_group_tags := filter (\<lambda>(g, _). g \<noteq> groupID) (db_group_tags db)
                 @ map (\<lambda>t. (groupID, t)) tags\<rparr>))"

definition AddTargetToGroup :: "string \<Rightarrow> string \<Rightarrow> AccessDB \<Rightarrow> access_error + AccessDB" where
  "AddTargetToGroup groupID targetID db =
     (if \<not> group_exists groupID db then Inl ErrGroupNotFound
      else if (groupID, targetID) \<in> set (db_group_targets db) then Inr db
      else if \<not> target_exists targetID db then Inl ErrForeignKey
      else Inr (db\<lparr>db_group_targets := db_group_targets db @ [(groupID, targetID)]\<rparr>))"

definition RemoveTargetFromGroup :: "string \<Rightarrow> string \<Rightarrow> AccessDB \<Rightarrow> access_error + AccessDB" where
  "RemoveTargetFromGroup groupID targetID db =
     (if \<not> group_exists groupID db then Inl ErrGroupNotFound
      else Inr (db\<lparr>db_group_targets := filter (\<lambda>(g, t). \<not> (g = groupID \<and> t = targetID)) (db_group_targets db)\<rparr>))"

definition GroupIDsForTarget :: "string \<Rightarrow> AccessDB \<Rightarrow> string list" where
  "GroupIDsForTarget targetID db = sort [g. (g, t) \<leftarrow> db_group_targets db, t = targetID]"

text \<open>The three branches of the per-user unions, each cut at the fan-out bound.\<close>

definition fanout :: "string list \<Rightarrow> string list" where
  "fanout xs = take maxFanoutRowsPerQuery (remdups xs)"

definition GroupIDsForUser :: "string \<Rightarrow> ListOpts option \<Rightarrow> int \<Rightarrow> instant \<Rightarrow> AccessDB \<Rightarrow> string list" where
  "GroupIDsForUser userID opts dflt now db =
     page opts dflt (sort (remdups (
        fanout [i. (u, g, e) \<leftarrow> db_user_groups db, (i, _) \<leftarrow> db_groups db, descendantOrSelf i g,
            u = userID, activeMembership now e]
      @ fanout [g. (g, t) \<leftarrow> db_group_targets db, (t', tag) \<leftarrow> db_target_tags db, t' = t,
            (u, tag') \<leftarrow> db_user_tags db, tag' = tag, u = userID]
      @ fanout [i. (g, tag) \<leftarrow> db_group_tags db, (u, tag') \<leftarrow> db_user_tags db, tag' = tag, u = userID,
            (i, _) \<leftarrow> db_groups db, descendantOrSelf i g])))"

definition AllGroupIDs :: "ListOpts option \<Rightarrow> int \<Rightarrow> AccessDB \<Rightarrow> string list" where
  "AllGroupIDs opts dflt db = sql_page opts dflt (sort (map fst (db_groups db)))"

definition TargetIDsForGroup :: "string \<Rightarrow> ListOpts option \<Rightarrow> int \<Rightarrow> AccessDB \<Rightarrow> string list" where
  "TargetIDsForGroup groupID opts dflt db =
     sql_page opts dflt (sort [t. (g, t) \<leftarrow> db_group_targets db, g = groupID])"

definition via_membership :: "string \<Rightarrow> instant \<Rightarrow> AccessDB \<Rightarrow> string list" where
  "via_membership userID now db =
     [t. (u, g, e) \<leftarrow> db_user_groups db, (g', t) \<leftarrow> db_group_targets db, descendantOrSelf g' g,
         u = userID, activeMembership now e]"

definition via_target_tag :: "string \<Rightarrow> AccessDB \<Rightarrow> string list" where
  "via_target_tag userID db =
     [t. (t, tag) \<leftarrow> db_target_tags db, (u, tag') \<leftarrow> db_user_tags db, tag' = tag, u = userID]"

definition via_group_tag :: "string \<Rightarrow> AccessDB \<Rightarrow> string list" where
  "via_group_tag userID db =
     [t. (u, tag) \<leftarrow> db_user_tags db, (g, tag') \<leftarrow> db_group_tags db, tag' = tag, u = userID,
         (g', t) \<leftarrow> db_group_targets db, descendantOrSelf g' g]"

definition TargetIDsForUser :: "string \<Rightarrow> ListOpts option \<Rightarrow> int \<Rightarrow> instant \<Rightarrow> AccessDB \<Rightarrow> string list" where
  "TargetIDsForUser userID opts dflt now db =
     page opts dflt (sort (remdups (fanout (via_membership userID now db)
       @ fanout (via_target_tag userID db) @ fanout (via_group_tag userID db))))"

subsection \<open>The access rule\<close>

text \<open>
  What the documentation promises: a user reaches a target through an unexpired membership in a
  group that is the target's group or one of its ancestors, through a tag shared with the target,
  or through a tag shared with such a group.
\<close>

definition grants :: "AccessDB \<Rightarrow> string \<Rightarrow> string \<Rightarrow> bool" where
  "grants db g t = (\<exists>g'. (g', t) \<in> set (db_group_targets db) \<and> descendantOrSelf g' g)"

definition may_access :: "instant \<Rightarrow> AccessDB \<Rightarrow> string \<Rightarrow> string \<Rightarrow> bool" where
  "may_access now db u t =
     ((\<exists>g e. (u, g, e) \<in> set (db_user_groups db) \<and> activeMembership now e \<and> grants db g t)
      \<or> (\<exists>tag. (u, tag) \<in> set (db_user_tags db)
           \<and> ((t, tag) \<in> set (db_target_tags db) \<or> (\<exists>g. (g, tag) \<in> set (db_group_tags db) \<and> grants db g t))))"

definition within_fanout :: "string \<Rightarrow> instant \<Rightarrow> AccessDB \<Rightarrow> bool" where
  "within_fanout u now db = (\<forall>xs \<in> {via_membership u now db, via_target_tag u db, via_group_tag u db}.
     length (remdups xs) \<le> maxFanoutRowsPerQuery)"

lemma set_via_membership: "t \<in> set (via_membership u now db) \<longleftrightarrow>
    (\<exists>g e. (u, g, e) \<in> set (db_user_groups db) \<and> activeMembership now e \<and> grants db g t)"
  unfolding via_membership_def grants_def by (simp split: prod.split) (simp add: Bex_def split_paired_Ex, metis)

lemma set_via_target_tag: "t \<in> set (via_target_tag u db) \<longleftrightarrow>
    (\<exists>tag. (u, tag) \<in> set (db_user_tags db) \<and> (t, tag) \<in> set (db_target_tags db))"
  unfolding via_target_tag_def by (simp split: prod.split) (simp add: Bex_def split_paired_Ex, metis)

lemma set_via_group_tag: "t \<in> set (via_group_tag u db) \<longleftrightarrow>
    (\<exists>tag g. (u, tag) \<in> set (db_user_tags db) \<and> (g, tag) \<in> set (db_group_tags db) \<and> grants db g t)"
  unfolding via_group_tag_def grants_def by (simp split: prod.split) (simp add: Bex_def split_paired_Ex, metis)

lemma fanout_within: "length (remdups xs) \<le> maxFanoutRowsPerQuery \<Longrightarrow> fanout xs = remdups xs"
  by (simp add: fanout_def)

lemma set_fanout_subset: "set (fanout xs) \<subseteq> set xs"
  by (auto simp: fanout_def dest: in_set_takeD)

lemma may_access_via: "may_access now db u t \<longleftrightarrow>
    t \<in> set (via_membership u now db) \<union> set (via_target_tag u db) \<union> set (via_group_tag u db)"
  by (auto simp: may_access_def set_via_membership set_via_target_tag set_via_group_tag)

lemma sort_remdups_set: "set xs = A \<Longrightarrow> sort (remdups xs) = sorted_list_of_set A"
  by (metis sorted_list_of_set_sort_remdups)

lemma TargetIDsForUser_spec:
  assumes "within_fanout u now db"
  shows "TargetIDsForUser u opts d now db = page opts d (sorted_list_of_set {t. may_access now db u t})"
proof -
  have "fanout (via_membership u now db) = remdups (via_membership u now db)"
    "fanout (via_target_tag u db) = remdups (via_target_tag u db)"
    "fanout (via_group_tag u db) = remdups (via_group_tag u db)"
    using assms by (auto simp: within_fanout_def fanout_within)
  then have "set (fanout (via_membership u now db) @ fanout (via_target_tag u db) @ fanout (via_group_tag u db))
      = {t. may_access now db u t}"
    by (auto simp: may_access_via)
  then show ?thesis by (simp only: TargetIDsForUser_def sort_remdups_set)
qed

lemma TargetIDsForUser_sound: "t \<in> set (TargetIDsForUser u opts d now db) \<Longrightarrow> may_access now db u t"
  using set_page_subset set_fanout_subset unfolding TargetIDsForUser_def may_access_via by fastforce

lemma set_users_by_membership: "u \<in> set (users_by_membership t now db) \<longleftrightarrow>
    (\<exists>g e. (u, g, e) \<in> set (db_user_groups db) \<and> activeMembership now e \<and> grants db g t)"
  unfolding users_by_membership_def grants_def by (simp split: prod.split) (simp add: Bex_def split_paired_Ex, metis)

lemma set_users_by_target_tag: "u \<in> set (users_by_target_tag t db) \<longleftrightarrow>
    (\<exists>tag. (u, tag) \<in> set (db_user_tags db) \<and> (t, tag) \<in> set (db_target_tags db))"
  unfolding users_by_target_tag_def by (simp split: prod.split) (simp add: Bex_def split_paired_Ex)

lemma set_users_by_group_tag: "u \<in> set (users_by_group_tag t db) \<longleftrightarrow>
    (\<exists>tag g. (u, tag) \<in> set (db_user_tags db) \<and> (g, tag) \<in> set (db_group_tags db) \<and> grants db g t)"
  unfolding users_by_group_tag_def grants_def by (simp split: prod.split) (simp add: Bex_def split_paired_Ex, metis)

lemma may_access_by: "may_access now db u t \<longleftrightarrow>
    u \<in> set (users_by_membership t now db) \<union> set (users_by_target_tag t db) \<union> set (users_by_group_tag t db)"
  by (auto simp: may_access_def set_users_by_membership set_users_by_target_tag set_users_by_group_tag)

lemma UserIDsForTarget_spec:
  "UserIDsForTarget t opts d now db = page opts d (sorted_list_of_set {u. may_access now db u t})"
proof -
  have "set (users_by_membership t now db @ users_by_target_tag t db @ users_by_group_tag t db)
      = {u. may_access now db u t}"
    by (auto simp: may_access_by)
  then show ?thesis by (simp only: UserIDsForTarget_def sort_remdups_set)
qed

subsection \<open>The interface the authorisation layer uses\<close>

locale access_list =
  fixes target_ids :: "string \<Rightarrow> string list"
    and allowed :: "string \<Rightarrow> string \<Rightarrow> bool"
  assumes listed_allowed: "t \<in> set (target_ids u) \<Longrightarrow> allowed u t"
begin

definition check :: "string \<Rightarrow> string \<Rightarrow> bool" where
  "check u t = list_ex (\<lambda>x. x = t) (target_ids u)"

lemma check_allowed: "check u t \<Longrightarrow> allowed u t"
  by (auto simp: check_def list_ex_iff listed_allowed)

end

interpretation group_store: access_list "\<lambda>u. TargetIDsForUser u opts d now db" "may_access now db" for opts d now db
  by unfold_locales (rule TargetIDsForUser_sound)

subsection \<open>Properties\<close>


definition demo_db :: AccessDB where
  "demo_db = \<lparr>db_users = [''alice'', ''bob''], db_groups = [(''net'', ''N''), (''net/tokyo'', ''T''), (''net_x'', ''X'')],
     db_targets = [], db_user_groups = [(''alice'', ''net'', None), (''bob'', ''net'', Some 5)],
     db_group_targets = [(''net/tokyo'', ''sw1''), (''net_x'', ''sw2'')], db_group_tags = [(''net_x'', ''lab'')],
     db_target_tags = [], db_user_tags = [(''bob'', ''lab'')]\<rparr>"

lemmas demo_db_simps = demo_db_def via_membership_def via_target_tag_def via_group_tag_def
  descendantOrSelf_def activeMembership_def

lemma demo_within: "within_fanout ''alice'' (time_unix 9) demo_db" "within_fanout ''bob'' (time_unix 9) demo_db"
  by (simp_all add: within_fanout_def demo_db_simps maxFanoutRowsPerQuery_def)

lemma demo_access_sets:
  "{t. may_access (time_unix 9) demo_db ''alice'' t} = {''sw1''}"
  "{t. may_access (time_unix 9) demo_db ''bob'' t} = {''sw2''}"
  by (simp_all add: may_access_via demo_db_simps)


lemma finite_may_access: "finite {t. may_access now db u t}" "finite {u. may_access now db u t}"
proof -
  have "{t. may_access now db u t} = set (via_membership u now db) \<union> set (via_target_tag u db) \<union> set (via_group_tag u db)"
    by (auto simp: may_access_via)
  then show "finite {t. may_access now db u t}" by simp
  have "{u. may_access now db u t} =
      set (users_by_membership t now db) \<union> set (users_by_target_tag t db) \<union> set (users_by_group_tag t db)"
    by (auto simp: may_access_by)
  then show "finite {u. may_access now db u t}" by simp
qed

text \<open>
  The two directions of the access rule agree: when the result limits do not truncate, a
  target is listed for a user exactly when the user is listed for the target, so the list of users
  that can be invited to a session matches what those users can reach.
\<close>

theorem user_target_listings_agree:
  assumes "within_fanout u now db" "0 < d" "int (card {t. may_access now db u t}) \<le> d"
    and "0 < d'" "int (card {u. may_access now db u t}) \<le> d'"
  shows "t \<in> set (TargetIDsForUser u None d now db) \<longleftrightarrow> u \<in> set (UserIDsForTarget t None d' now db)"
proof -
  have "take (nat d) (sorted_list_of_set {t. may_access now db u t}) = sorted_list_of_set {t. may_access now db u t}"
    "take (nat d') (sorted_list_of_set {u. may_access now db u t}) = sorted_list_of_set {u. may_access now db u t}"
    using assms(3,5) by simp_all
  then show ?thesis
    using assms(2,4) by (simp add: TargetIDsForUser_spec [OF assms(1)] UserIDsForTarget_spec page_none finite_may_access)
qed

theorem user_target_listings_agree_witness:
  "''sw2'' \<in> set (TargetIDsForUser ''bob'' None 100 (time_unix 9) demo_db)
   \<and> ''bob'' \<in> set (UserIDsForTarget ''sw2'' None 100 (time_unix 9) demo_db)"
proof -
  have "{u. may_access (time_unix 9) demo_db u ''sw2''} = {''bob''}"
    by (auto simp: may_access_def grants_def demo_db_simps)
  moreover have "''sw2'' \<in> set (TargetIDsForUser ''bob'' None 100 (time_unix 9) demo_db)"
    by (simp add: TargetIDsForUser_spec [OF demo_within(2)] demo_access_sets page_none)
  ultimately show ?thesis
    using user_target_listings_agree [OF demo_within(2), of 100 100 "''sw2''"] by (simp add: demo_access_sets)
qed

lemma purge_via_membership:
  assumes "olderThan \<le> now"
  shows "via_membership u now (snd (PurgeExpiredMemberships olderThan db)) = via_membership u now db"
proof -
  let ?f = "\<lambda>(u', g, e). concat (map (\<lambda>(g', t). if descendantOrSelf g' g then if u' = u then if activeMembership now e then [t] else [] else [] else []) (db_group_targets db))"
  have dead: "?f r = []" if "case r of (_, _, e) \<Rightarrow> case e of None \<Rightarrow> False | Some x \<Rightarrow> x < unix olderThan" for r
  proof -
    obtain u' g e where r: "r = (u', g, e)" by (cases r)
    have "\<not> activeMembership now e"
      using that unix_mono [OF assms] by (auto simp: r activeMembership_def split: option.splits)
    then show ?thesis by (auto simp: r)
  qed
  have "concat (map ?f (filter (\<lambda>r. \<not> P r) rows)) = concat (map ?f rows)" if "\<And>r. P r \<Longrightarrow> ?f r = []" for P rows
    using that by (induction rows) auto
  from this [OF dead] show ?thesis
    by (simp add: via_membership_def PurgeExpiredMemberships_def sql_delete_def)
qed

text \<open>
  The maintenance job that deletes expired memberships never takes access away: purging rows
  that expired before any moment up to now leaves every user's list of targets as it was.
\<close>

theorem purge_keeps_access:
  assumes "olderThan \<le> now"
  shows "TargetIDsForUser u opts d now (snd (PurgeExpiredMemberships olderThan db)) = TargetIDsForUser u opts d now db"
proof -
  have "via_target_tag u (snd (PurgeExpiredMemberships olderThan db)) = via_target_tag u db"
    "via_group_tag u (snd (PurgeExpiredMemberships olderThan db)) = via_group_tag u db"
    by (simp_all add: via_target_tag_def via_group_tag_def PurgeExpiredMemberships_def sql_delete_def cong: if_cong)
  with purge_via_membership [OF assms] show ?thesis by (simp add: TargetIDsForUser_def)
qed

theorem purge_keeps_access_witness:
  "fst (PurgeExpiredMemberships (time_unix 8) demo_db) = 1
   \<and> TargetIDsForUser ''bob'' None 100 (time_unix 9) (snd (PurgeExpiredMemberships (time_unix 8) demo_db)) = [''sw2'']"
proof -
  have "fst (PurgeExpiredMemberships (time_unix 8) demo_db) = 1"
    by (simp add: PurgeExpiredMemberships_def sql_delete_def demo_db_def)
  moreover have "TargetIDsForUser ''bob'' None 100 (time_unix 9) demo_db = [''sw2'']"
    by (simp add: TargetIDsForUser_spec [OF demo_within(2)] demo_access_sets page_none)
  ultimately show ?thesis
    using purge_keeps_access [of "time_unix 8" "time_unix 9" "''bob''" None 100 demo_db] by simp
qed

text \<open>
  Cursor paging: on the sorted list behind the per-user listings, the page after the element at
  index \<open>i\<close> starts at the next element, so following the cursor visits everything once.  An offset
  given along with the cursor is applied on top of it by the listings paged in Go
  (\<open>TargetIDsForUser\<close>, \<open>GroupIDsForUser\<close>, \<open>UserIDsForTarget\<close>) and ignored by those
  paged in SQL.
\<close>

theorem cursor_paging:
  assumes "sorted xs" "distinct xs" "i < length xs" "xs ! i \<noteq> []" "0 < n" "0 \<le> k"
  shows "page (Some \<lparr>lo_Limit = n, lo_Offset = k, lo_AfterID = xs ! i\<rparr>) d xs = take (nat n) (drop (Suc i + nat k) xs)
    \<and> sql_page (Some \<lparr>lo_Limit = n, lo_Offset = k, lo_AfterID = xs ! i\<rparr>) d xs = take (nat n) (drop (Suc i) xs)"
  using assms by (simp add: page_def sql_page_def listLimit_def skip_after_nth filter_greater_nth Let_def ac_simps) arith

theorem cursor_paging_witness:
  "page (Some \<lparr>lo_Limit = 2, lo_Offset = 1, lo_AfterID = ''a''\<rparr>) 100 [''a'', ''b'', ''c'', ''d''] = [''c'', ''d'']
   \<and> sql_page (Some \<lparr>lo_Limit = 2, lo_Offset = 1, lo_AfterID = ''a''\<rparr>) 100 [''a'', ''b'', ''c'', ''d''] = [''b'', ''c'']"
  using cursor_paging [of "[''a'', ''b'', ''c'', ''d'']" 0 2 1 100] by simp

subsection \<open>Deleting a group\<close>

lemma strict_descendant_like: "take (length g + 1) h = g @ ''/'' \<Longrightarrow> like (escapeLikePrefix g @ ''/%'') h"
proof -
  assume h: "take (length g + 1) h = g @ ''/''"
  have "h = take (length g + 1) h @ drop (length g + 1) h" by simp
  then have "h = g @ CHR ''/'' # drop (length g + 1) h" unfolding h by simp
  then obtain r where "h = g @ CHR ''/'' # r" by blast
  then show ?thesis by (simp add: like_escaped_prefix like.simps(2) [of "CHR ''/''"] like_any)
qed

lemma grp_Delete_cases:
  assumes "grp_Delete g db = Inr db'"
  shows "db' = delete_group g db" "\<And>t. (g, t) \<notin> set (db_group_targets db)"
    "\<And>h. group_exists h db \<Longrightarrow> descendantOrSelf h g \<Longrightarrow> h = g"
proof -
  show "db' = delete_group g db" "\<And>t. (g, t) \<notin> set (db_group_targets db)"
    using assms by (auto simp: grp_Delete_def filter_empty_conv split: option.splits if_splits)
  have "\<not> like (escapeLikePrefix g @ ''/%'') h" if "group_exists h db" for h
    using assms that by (auto simp: grp_Delete_def filter_empty_conv group_exists_def split: option.splits if_splits)
  then show "\<And>h. group_exists h db \<Longrightarrow> descendantOrSelf h g \<Longrightarrow> h = g"
    using strict_descendant_like by (auto simp: descendantOrSelf_def)
qed

lemma delete_group_tables:
  "db_user_groups (delete_group g db) = filter (\<lambda>(_, h, _). h \<noteq> g) (db_user_groups db)"
  "db_group_tags (delete_group g db) = filter (\<lambda>(h, _). h \<noteq> g) (db_group_tags db)"
  "db_user_tags (delete_group g db) = db_user_tags db"
  "db_targets (delete_group g db) = filter (\<lambda>r. tr_group_id r \<noteq> g) (db_targets db)"
  by (simp_all add: delete_group_def delete_targets_def Let_def)

lemma delete_group_assignments:
  assumes "target_exists t (delete_group g db)" "db_inv db"
  shows "(h, t) \<in> set (db_group_targets (delete_group g db)) \<longleftrightarrow> (h, t) \<in> set (db_group_targets db) \<and> h \<noteq> g"
    "(t, tag) \<in> set (db_target_tags (delete_group g db)) \<longleftrightarrow> (t, tag) \<in> set (db_target_tags db)"
proof -
  have "t \<notin> tr_id ` {r \<in> set (db_targets db). tr_group_id r = g}"
  proof
    assume "t \<in> tr_id ` {r \<in> set (db_targets db). tr_group_id r = g}"
    then obtain r where r: "r \<in> set (db_targets db)" "tr_group_id r = g" "t = tr_id r" by auto
    obtain r' where r': "r' \<in> set (db_targets db)" "tr_group_id r' \<noteq> g" "t = tr_id r'"
      using assms(1) by (auto simp: target_exists_def delete_group_tables)
    have "inj_on tr_id (set (db_targets db))" using assms(2) by (simp add: db_inv_def distinct_map)
    then have "r = r'" using r(1,3) r'(1,3) by (auto dest: inj_onD)
    with r r' show False by simp
  qed
  then show "(h, t) \<in> set (db_group_targets (delete_group g db)) \<longleftrightarrow> (h, t) \<in> set (db_group_targets db) \<and> h \<noteq> g"
    "(t, tag) \<in> set (db_target_tags (delete_group g db)) \<longleftrightarrow> (t, tag) \<in> set (db_target_tags db)"
    by (auto simp: delete_group_def delete_targets_def Let_def)
qed

text \<open>
  Deleting a group never changes who can reach a remaining target: a deletion that is not
  refused hits a group without assigned targets and without descendants, so for every user and every
  target that still exists afterwards, access is the same before and after.
\<close>

theorem group_delete_keeps_access:
  assumes "db_inv db" "grp_Delete g db = Inr db'" "target_exists t db'"
  shows "may_access now db' u t \<longleftrightarrow> may_access now db u t"
proof -
  note del = grp_Delete_cases [OF assms(2)]
  note rows = delete_group_assignments [OF assms(3) [unfolded del(1)] assms(1)]
  have none: "\<not> grants db g t"
  proof
    assume "grants db g t"
    then obtain g' where g': "(g', t) \<in> set (db_group_targets db)" "descendantOrSelf g' g" by (auto simp: grants_def)
    then have "group_exists g' db" using assms(1) by (auto simp: db_inv_def)
    with del(2,3) g' show False by auto
  qed
  have same: "grants (delete_group g db) h t = grants db h t" for h
    using del(2) by (auto simp: grants_def rows)
  have "(\<exists>h e. (u, h, e) \<in> set (db_user_groups (delete_group g db)) \<and> activeMembership now e \<and> grants db h t)
      = (\<exists>h e. (u, h, e) \<in> set (db_user_groups db) \<and> activeMembership now e \<and> grants db h t)"
    using none by (auto simp: delete_group_tables)
  moreover have "(\<exists>h. (h, tag) \<in> set (db_group_tags (delete_group g db)) \<and> grants db h t)
      = (\<exists>h. (h, tag) \<in> set (db_group_tags db) \<and> grants db h t)" for tag
    using none by (auto simp: delete_group_tables)
  ultimately show ?thesis
    unfolding may_access_def del(1) same rows(2) delete_group_tables(3) by simp
qed

definition demo_target :: "string \<Rightarrow> string \<Rightarrow> target_row" where
  "demo_target t g = \<lparr>tr_id = t, tr_name = t, tr_host = ''h'', tr_port = 22, tr_protocol = ''ssh'', tr_group_id = g,
     tr_path = [], tr_ssh_username = [], tr_ssh_password = [], tr_ssh_private_key = [],
     tr_ssh_private_key_passphrase = [], tr_sftp_enabled = 1, tr_ftp_enabled = 0, tr_tftp_enabled = 0,
     tr_ssh_host_key_fingerprint = [], tr_ssh_host_key_insecure_skip_verify = 0,
     tr_credential_identity_id = [], tr_ssh_key_id = []\<rparr>"

text \<open>A target created in \<open>old\<close> and moved to \<open>new\<close>, another created in \<open>new\<close>.\<close>

definition demo_moved :: AccessDB where
  "demo_moved = \<lparr>db_users = [''alice''], db_groups = [(''old'', ''O''), (''new'', ''N'')],
     db_targets = [demo_target ''sw1'' ''old'', demo_target ''sw2'' ''new''],
     db_user_groups = [(''alice'', ''new'', None)],
     db_group_targets = [(''new'', ''sw1''), (''new'', ''sw2'')], db_group_tags = [], db_target_tags = [], db_user_tags = []\<rparr>"

lemmas valid_id_simps = validateGroupID_def maxIDLen_def idPattern_def id_char_def is_alnum_def is_digit_def

lemma demo_moved_inv: "db_inv demo_moved"
  by (simp add: db_inv_def demo_moved_def demo_target_def group_exists_def target_exists_def valid_id_simps)

lemma demo_moved_delete: "grp_Delete ''old'' demo_moved = Inr (delete_group ''old'' demo_moved)"
  by (simp add: grp_Delete_def demo_moved_def group_exists_def valid_id_simps escapeLikePrefix_def like.simps lower_char_def)

theorem group_delete_keeps_access_witness:
  "may_access 0 (delete_group ''old'' demo_moved) ''alice'' ''sw2'' = may_access 0 demo_moved ''alice'' ''sw2''
   \<and> may_access 0 demo_moved ''alice'' ''sw2''"
proof -
  have "target_exists ''sw2'' (delete_group ''old'' demo_moved)"
    by (simp add: target_exists_def delete_group_tables demo_moved_def demo_target_def)
  from group_delete_keeps_access [OF demo_moved_inv demo_moved_delete this] show ?thesis
    by (auto simp: may_access_def grants_def demo_moved_def descendantOrSelf_def activeMembership_def)
qed

text \<open>
  The foreign key from a target to the group it was created in also cascades: deleting that
  group removes the target itself, even after the target was moved and is assigned to another group
  only, because moving changes the assignments and never the target's own group column.
\<close>

theorem group_delete_drops_moved_target:
  assumes "db_inv db" "grp_Delete g db = Inr db'" "r \<in> set (db_targets db)" "tr_group_id r = g"
  shows "\<not> target_exists (tr_id r) db' \<and> (\<forall>u. \<not> may_access now db' u (tr_id r))"
proof -
  have db': "db' = delete_group g db" by (rule grp_Delete_cases(1) [OF assms(2)])
  have "inj_on tr_id (set (db_targets db))" using assms(1) by (simp add: db_inv_def distinct_map)
  then have "\<not> target_exists (tr_id r) db'"
    using assms(3,4) by (auto simp: target_exists_def db' delete_group_tables dest: inj_onD)
  moreover have "tr_id r \<in> set (map tr_id (filter (\<lambda>r. tr_group_id r = g) (db_targets db)))"
    using assms(3,4) by auto
  then have "(h, tr_id r) \<notin> set (db_group_targets db')" "(tr_id r, tag) \<notin> set (db_target_tags db')" for h tag
    by (auto simp: db' delete_group_def delete_targets_def Let_def)
  then have "\<not> may_access now db' u (tr_id r)" for u by (auto simp: may_access_def grants_def)
  ultimately show ?thesis by blast
qed

theorem group_delete_drops_moved_target_witness:
  "may_access 0 demo_moved ''alice'' ''sw1'' \<and> (\<exists>db'. grp_Delete ''old'' demo_moved = Inr db' \<and> \<not> target_exists ''sw1'' db')"
proof -
  have "may_access 0 demo_moved ''alice'' ''sw1''"
    by (auto simp: may_access_def grants_def demo_moved_def descendantOrSelf_def activeMembership_def)
  moreover have "demo_target ''sw1'' ''old'' \<in> set (db_targets demo_moved)" by (simp add: demo_moved_def)
  moreover have "tr_group_id (demo_target ''sw1'' ''old'') = ''old''" "tr_id (demo_target ''sw1'' ''old'') = ''sw1''"
    by (simp_all add: demo_target_def)
  ultimately show ?thesis
    using group_delete_drops_moved_target [OF demo_moved_inv demo_moved_delete] demo_moved_delete by metis
qed

end
