(* ===== verification/Secret_Box.thy ===== *)
theory Secret_Box
  imports Go_Text
begin

text \<open>
  Encryption of credentials at rest (\<open>src/internal/secret/secret.go\<close>).  The envelope, the
  base64 codings of Go's \<open>encoding/base64\<close> and the key handling are modelled; AES-256-GCM
  (\<open>seal\<close> and \<open>open\<close>), SHA-256 and the random nonce are arguments.  What is assumed of the
  cipher is its documented law: opening what was sealed with the same key, nonce and associated
  data gives back the plaintext.
\<close>

definition NonceSize :: nat where "NonceSize = 12"
definition KeySize :: nat where "KeySize = 32"
definition CiphertextVersionPrefixV2 :: string where "CiphertextVersionPrefixV2 = ''v2:''"
definition keyIDSize :: nat where "keyIDSize = 8"

datatype secret_error = ErrInvalidKey | ErrDecrypt | ErrInvalidInput | ErrKeyMismatch
  | ErrKeyRequired | ErrKeyNotBase64

subsection \<open>Base64\<close>

definition b64_alphabet :: string where
  "b64_alphabet = ''ABCDEFGHIJKLMNOPQRSTUVWXYZabcdefghijklmnopqrstuvwxyz0123456789+/''"

definition b64_char :: "nat \<Rightarrow> char" where
  "b64_char i = b64_alphabet ! i"

definition b64_value :: "char \<Rightarrow> nat option" where
  "b64_value c = index_byte b64_alphabet c"

text \<open>\<open>RawStdEncoding\<close>: no padding; a rest of one byte gives two digits, of two bytes three.\<close>

fun b64_encode :: "string \<Rightarrow> string" where
  "b64_encode (a # b # c # s) =
     (let n = byte a * 65536 + byte b * 256 + byte c
      in b64_char (n div 262144) # b64_char (n div 4096 mod 64) # b64_char (n div 64 mod 64) # b64_char (n mod 64)
         # b64_encode s)"
| "b64_encode [a, b] = (let n = byte a * 256 + byte b
     in [b64_char (n div 1024), b64_char (n div 16 mod 64), b64_char (n mod 16 * 4)])"
| "b64_encode [a] = [b64_char (byte a div 4), b64_char (byte a mod 4 * 16)]"
| "b64_encode [] = []"

fun b64_digits :: "nat list \<Rightarrow> string option" where
  "b64_digits (a # b # c # d # s) =
     (let n = a * 262144 + b * 4096 + c * 64 + d
      in map_option (\<lambda>r. char_of (n div 65536) # char_of (n div 256 mod 256) # char_of (n mod 256) # r) (b64_digits s))"
| "b64_digits [a, b, c] = (let n = a * 1024 + b * 16 + c div 4 in Some [char_of (n div 256), char_of (n mod 256)])"
| "b64_digits [a, b] = Some [char_of (a * 4 + b div 16)]"
| "b64_digits [a] = None"
| "b64_digits [] = Some []"

definition b64_values :: "string \<Rightarrow> nat list option" where
  "b64_values s = (if list_all (\<lambda>c. b64_value c \<noteq> None) s then Some (map (\<lambda>c. the (b64_value c)) s) else None)"

text \<open>Decoding skips line breaks and fails on any other foreign character.\<close>

definition b64_decode_raw :: "string \<Rightarrow> string option" where
  "b64_decode_raw s = Option.bind (b64_values (filter (\<lambda>c. c \<noteq> CHR 0x0A \<and> c \<noteq> CHR 0x0D) s)) b64_digits"

text \<open>\<open>StdEncoding\<close>: the last group of four is padded with one or two equal signs.\<close>

definition b64_decode_std :: "string \<Rightarrow> string option" where
  "b64_decode_std s =
     (let s = filter (\<lambda>c. c \<noteq> CHR 0x0A \<and> c \<noteq> CHR 0x0D) s;
          body = (if has_suffix s ''=='' then take (length s - 2) s
                  else if has_suffix s ''='' then take (length s - 1) s else s)
      in if length s mod 4 \<noteq> 0 then None else Option.bind (b64_values body) b64_digits)"

lemma index_byte_nth: "distinct s \<Longrightarrow> i < length s \<Longrightarrow> index_byte s (s ! i) = Some i"
proof (induction s arbitrary: i)
  case (Cons a s)
  then show ?case by (cases i) auto
qed simp

lemma b64_value_char: "i < 64 \<Longrightarrow> b64_value (b64_char i) = Some i"
  unfolding b64_value_def b64_char_def by (rule index_byte_nth) (simp_all add: b64_alphabet_def)

lemma byte_less: "byte c < 256"
  by (simp add: byte_def)

lemma char_of_byte [simp]: "char_of (byte c) = c"
  by (simp add: byte_def)

lemma b64_values_cons: "i < 64 \<Longrightarrow> b64_values (b64_char i # s) = map_option (Cons i) (b64_values s)"
  by (simp add: b64_values_def b64_value_char)

lemma b64_values_Nil [simp]: "b64_values [] = Some []"
  by (simp add: b64_values_def)

lemma base_split: "(x :: nat) < m \<Longrightarrow> (a * m + x) div m = a \<and> (a * m + x) mod m = x"
  by simp

lemma sextets: "(n :: nat) div 262144 * 262144 + n div 4096 mod 64 * 4096 + n div 64 mod 64 * 64 + n mod 64 = n"
proof -
  have "n div 4096 = n div 64 div 64" "n div 262144 = n div 4096 div 64"
    by (simp_all add: div_mult2_eq [symmetric])
  with div_mult_mod_eq [of n 64] div_mult_mod_eq [of "n div 64" 64] div_mult_mod_eq [of "n div 4096" 64]
  show ?thesis by linarith
qed

lemma b64_group3:
  fixes a b c :: nat assumes "a < 256" "b < 256" "c < 256"
  defines "n \<equiv> a * 65536 + b * 256 + c"
  shows "n div 262144 < 64"
    "n div 262144 * 262144 + n div 4096 mod 64 * 4096 + n div 64 mod 64 * 64 + n mod 64 = n"
    "n div 65536 = a" "n div 256 mod 256 = b" "n mod 256 = c"
proof -
  have n: "n = (a * 256 + b) * 256 + c" by (simp add: n_def algebra_simps)
  have d: "n div 256 = a * 256 + b" "n mod 256 = c" using base_split [OF assms(3), of "a * 256 + b"] by (simp_all add: n)
  show "n div 256 mod 256 = b" "n mod 256 = c" using d base_split [OF assms(2), of a] by simp_all
  have "n div 65536 = n div 256 div 256" by (simp add: div_mult2_eq [symmetric])
  then show "n div 65536 = a" using d base_split [OF assms(2), of a] by simp
  have "n < 64 * 262144" using assms by (simp add: n_def)
  then show "n div 262144 < 64" by (rule less_mult_imp_div_less)
qed (rule sextets)

lemma b64_group2:
  fixes a b :: nat assumes "a < 256" "b < 256"
  defines "n \<equiv> a * 256 + b"
  shows "n div 1024 < 64" "n mod 16 * 4 < 64" "n div 1024 * 1024 + n div 16 mod 64 * 16 + n mod 16 * 4 div 4 = n"
    "n div 256 = a" "n mod 256 = b"
proof -
  have "n < 64 * 1024" using assms by (simp add: n_def)
  then show "n div 1024 < 64" by (rule less_mult_imp_div_less)
  have "n mod 16 < 16" by simp
  then show "n mod 16 * 4 < 64" by linarith
  have "n div 1024 = n div 16 div 64" "n mod 16 * 4 div 4 = n mod 16"
    by (simp_all add: div_mult2_eq [symmetric])
  with div_mult_mod_eq [of n 16] div_mult_mod_eq [of "n div 16" 64]
  show "n div 1024 * 1024 + n div 16 mod 64 * 16 + n mod 16 * 4 div 4 = n" by linarith
  show "n div 256 = a" "n mod 256 = b" using base_split [OF assms(2), of a] by (simp_all add: n_def)
qed

lemma b64_group1:
  fixes a :: nat assumes "a < 256"
  shows "a div 4 < 64" "a mod 4 * 16 < 64" "a div 4 * 4 + a mod 4 * 16 div 16 = a"
  using assms by auto

lemma b64_roundtrip_values: "Option.bind (b64_values (b64_encode s)) b64_digits = Some s"
proof (induction s rule: b64_encode.induct)
  case (1 a b c s)
  let ?n = "byte a * 65536 + byte b * 256 + byte c"
  note g = b64_group3 [OF byte_less [of a] byte_less [of b] byte_less [of c]]
  obtain vs where vs: "b64_values (b64_encode s) = Some vs" "b64_digits vs = Some s"
    using 1 by (auto simp: bind_eq_Some_conv)
  have "b64_values (b64_encode (a # b # c # s)) =
      Some (?n div 262144 # ?n div 4096 mod 64 # ?n div 64 mod 64 # ?n mod 64 # vs)"
    using g(1) vs(1) by (simp add: Let_def b64_values_cons)
  then show ?case using vs(2) g(2-5) by (simp add: Let_def del: char_of_mod_256)
next
  case (2 a b)
  let ?n = "byte a * 256 + byte b"
  note g = b64_group2 [OF byte_less [of a] byte_less [of b]]
  have "b64_values (b64_encode [a, b]) = Some [?n div 1024, ?n div 16 mod 64, ?n mod 16 * 4]"
    using g(1,2) by (simp add: Let_def b64_values_cons)
  then show ?case using g(3-5) by (simp add: Let_def del: char_of_mod_256)
next
  case (3 a)
  note g = b64_group1 [OF byte_less [of a]]
  have "b64_values (b64_encode [a]) = Some [byte a div 4, byte a mod 4 * 16]"
    using g(1,2) by (simp add: b64_values_cons)
  then show ?case using g(3) by simp
qed simp

lemma b64_alphabet_no_break: "c \<in> set b64_alphabet \<Longrightarrow> c \<noteq> CHR 0x0A \<and> c \<noteq> CHR 0x0D"
  by (auto simp: b64_alphabet_def)

lemma b64_value_in: "b64_value c = Some i \<Longrightarrow> c \<in> set b64_alphabet"
proof -
  have "index_byte s c = Some i \<Longrightarrow> c \<in> set s" for s i by (induction s arbitrary: i) (auto split: if_splits)
  then show "b64_value c = Some i \<Longrightarrow> c \<in> set b64_alphabet" by (simp add: b64_value_def)
qed

lemma b64_decode_encode: "b64_decode_raw (b64_encode s) = Some s"
proof -
  have "list_all (\<lambda>c. b64_value c \<noteq> None) (b64_encode s)"
    using b64_roundtrip_values [of s] by (auto simp: b64_values_def bind_eq_Some_conv split: if_splits)
  then have "filter (\<lambda>c. c \<noteq> CHR 0x0A \<and> c \<noteq> CHR 0x0D) (b64_encode s) = b64_encode s"
    using b64_value_in b64_alphabet_no_break by (fastforce simp: list_all_iff filter_id_conv)
  then show ?thesis by (simp add: b64_decode_raw_def b64_roundtrip_values)
qed

subsection \<open>The envelope\<close>

definition IsEncrypted :: "string \<Rightarrow> bool" where
  "IsEncrypted stored = has_prefix stored CiphertextVersionPrefixV2"

text \<open>The cryptographic primitives: SHA-256, GCM sealing and opening (key, nonce, text, data).\<close>

record crypto =
  sha256 :: "string \<Rightarrow> string"
  gcm_seal :: "string \<Rightarrow> string \<Rightarrow> string \<Rightarrow> string \<Rightarrow> string"
  gcm_open :: "string \<Rightarrow> string \<Rightarrow> string \<Rightarrow> string \<Rightarrow> string option"

definition KeyID :: "crypto \<Rightarrow> string \<Rightarrow> string" where
  "KeyID cr key = go_copy (replicate keyIDSize (CHR 0x00)) (take keyIDSize (sha256 cr key))"

definition EncryptWithAAD :: "crypto \<Rightarrow> string \<Rightarrow> string \<Rightarrow> string \<Rightarrow> string \<Rightarrow> secret_error + string" where
  "EncryptWithAAD cr nonce key plaintext aad =
     (if length key \<noteq> KeySize then Inl ErrInvalidKey
      else if plaintext = [] then Inr []
      else Inr (CiphertextVersionPrefixV2
        @ b64_encode (KeyID cr key @ nonce @ gcm_seal cr key nonce plaintext aad)))"

definition decryptV2 :: "crypto \<Rightarrow> string \<Rightarrow> string \<Rightarrow> string \<Rightarrow> secret_error + string" where
  "decryptV2 cr key body aad =
     (if length key \<noteq> KeySize then Inl ErrInvalidKey
      else case b64_decode_raw body of None \<Rightarrow> Inl ErrInvalidInput
        | Some raw \<Rightarrow>
          if length raw < keyIDSize + NonceSize then Inl ErrInvalidInput
          else if take keyIDSize raw \<noteq> KeyID cr key then Inl ErrKeyMismatch
          else let nonce = take NonceSize (drop keyIDSize raw); enc = drop (keyIDSize + NonceSize) raw
            in case gcm_open cr key nonce enc aad of None \<Rightarrow> Inl ErrDecrypt | Some plain \<Rightarrow> Inr plain)"

definition DecryptWithAAD :: "crypto \<Rightarrow> string \<Rightarrow> string \<Rightarrow> string \<Rightarrow> secret_error + string" where
  "DecryptWithAAD cr key ciphertext aad =
     (if ciphertext = [] then Inr []
      else if \<not> has_prefix ciphertext CiphertextVersionPrefixV2 then Inl ErrInvalidInput
      else decryptV2 cr key (drop (length CiphertextVersionPrefixV2) ciphertext) aad)"

definition Encrypt :: "crypto \<Rightarrow> string \<Rightarrow> string \<Rightarrow> string \<Rightarrow> secret_error + string" where
  "Encrypt cr nonce key plaintext = EncryptWithAAD cr nonce key plaintext []"

definition Decrypt :: "crypto \<Rightarrow> string \<Rightarrow> string \<Rightarrow> secret_error + string" where
  "Decrypt cr key ciphertext = DecryptWithAAD cr key ciphertext []"

definition LoadKeyFromEnv :: "string \<Rightarrow> string option" where
  "LoadKeyFromEnv b64 = (if b64 = [] then None else case b64_decode_std b64 of
     None \<Rightarrow> None | Some key \<Rightarrow> if length key \<noteq> KeySize then None else Some key)"

definition LoadKeyFromEnvStrict :: "string \<Rightarrow> string \<Rightarrow> secret_error + string option" where
  "LoadKeyFromEnvStrict allowPlaintext b64 =
     (if b64 = [] then (if allowPlaintext = ''1'' then Inr None else Inl ErrKeyRequired)
      else case b64_decode_std b64 of None \<Rightarrow> Inl ErrKeyNotBase64
        | Some key \<Rightarrow> if length key \<noteq> KeySize then Inl ErrInvalidKey else Inr (Some key))"

text \<open>The documented law of an authenticated cipher, and an instance of it for the witnesses.\<close>

definition aead_law :: "crypto \<Rightarrow> bool" where
  "aead_law cr = (\<forall>k n p a. gcm_open cr k n (gcm_seal cr k n p a) a = Some p)"

definition aead_binding :: "crypto \<Rightarrow> bool" where
  "aead_binding cr = (\<forall>k n p a a'. a' \<noteq> a \<longrightarrow> gcm_open cr k n (gcm_seal cr k n p a) a' = None)"

definition framed_crypto :: crypto where
  "framed_crypto = \<lparr>sha256 = (\<lambda>k. take 32 (k @ replicate 32 (CHR 0x00))),
     gcm_seal = (\<lambda>k n p a. b64_encode a @ '':'' @ p),
     gcm_open = (\<lambda>k n c a. if has_prefix c (b64_encode a @ '':'') then Some (drop (length (b64_encode a) + 1) c) else None)\<rparr>"

lemma length_KeyID [simp]: "length (KeyID cr key) = keyIDSize"
  by (simp add: KeyID_def)

lemma decrypt_encrypted:
  assumes "length key = KeySize" "length nonce = NonceSize" "plaintext \<noteq> []" "EncryptWithAAD cr nonce key plaintext aad = Inr stored"
  shows "IsEncrypted stored \<and> stored \<noteq> []
    \<and> DecryptWithAAD cr key stored aad' = (case gcm_open cr key nonce (gcm_seal cr key nonce plaintext aad) aad' of
        None \<Rightarrow> Inl ErrDecrypt | Some p \<Rightarrow> Inr p)
    \<and> (length key' = KeySize \<longrightarrow> KeyID cr key' \<noteq> KeyID cr key \<longrightarrow> DecryptWithAAD cr key' stored aad' = Inl ErrKeyMismatch)"
proof -
  have st: "stored = ''v2:'' @ b64_encode (KeyID cr key @ nonce @ gcm_seal cr key nonce plaintext aad)"
    using assms by (auto simp: EncryptWithAAD_def CiphertextVersionPrefixV2_def)
  have raw: "b64_decode_raw (drop (length ''v2:'') stored) = Some (KeyID cr key @ nonce @ gcm_seal cr key nonce plaintext aad)"
    by (simp add: st b64_decode_encode)
  have pre: "has_prefix stored ''v2:''" "stored \<noteq> []" by (simp_all add: st has_prefix_def)
  then show ?thesis using raw assms(1,2)
    by (auto simp: IsEncrypted_def DecryptWithAAD_def CiphertextVersionPrefixV2_def decryptV2_def Let_def)
qed

text \<open>
  Credentials survive encryption at rest: for every 32-byte key, nonce, plaintext and associated
  data, encryption succeeds with a versioned envelope that is not the plaintext, decryption with the same key and data
  returns the plaintext, with different data (another row or column) it fails, and with a key of
  another fingerprint it reports the mismatch.
\<close>

theorem secret_roundtrip:
  assumes "aead_law cr" "aead_binding cr" "length key = KeySize" "length nonce = NonceSize" "plaintext \<noteq> []"
  shows "\<exists>stored. EncryptWithAAD cr nonce key plaintext aad = Inr stored \<and> IsEncrypted stored
    \<and> DecryptWithAAD cr key stored aad = Inr plaintext
    \<and> (\<forall>aad'. aad' \<noteq> aad \<longrightarrow> DecryptWithAAD cr key stored aad' = Inl ErrDecrypt)
    \<and> (\<forall>key' aad'. length key' = KeySize \<longrightarrow> KeyID cr key' \<noteq> KeyID cr key \<longrightarrow>
          DecryptWithAAD cr key' stored aad' = Inl ErrKeyMismatch)"
proof -
  obtain stored where st: "EncryptWithAAD cr nonce key plaintext aad = Inr stored"
    using assms(3,5) by (simp add: EncryptWithAAD_def)
  note d = decrypt_encrypted [OF assms(3-5) st]
  show ?thesis using st d assms(1,2) unfolding aead_law_def aead_binding_def by auto
qed

lemma b64_encode_inj: "b64_encode a = b64_encode b \<Longrightarrow> a = b"
  using b64_decode_encode by (metis option.inject)

lemma b64_encode_no_colon: "CHR '':'' \<notin> set (b64_encode s)"
proof
  assume "CHR '':'' \<in> set (b64_encode s)"
  moreover have "list_all (\<lambda>c. b64_value c \<noteq> None) (b64_encode s)"
    using b64_roundtrip_values [of s] by (auto simp: b64_values_def bind_eq_Some_conv split: if_splits)
  ultimately have "b64_value (CHR '':'') \<noteq> None" by (auto simp: list_all_iff)
  then show False by (auto simp: b64_alphabet_def dest: b64_value_in)
qed

lemma framed_prefix: "CHR '':'' \<notin> set x \<Longrightarrow> CHR '':'' \<notin> set y \<Longrightarrow> has_prefix (x @ '':'' @ p) (y @ '':'') \<Longrightarrow> x = y"
proof (induction x arbitrary: y)
  case Nil
  then show ?case by (cases y) (auto simp: has_prefix_def)
next
  case (Cons a x)
  then show ?case by (cases y) (auto simp: has_prefix_def)
qed

lemma framed_crypto_laws: "aead_law framed_crypto" "aead_binding framed_crypto"
proof -
  show "aead_law framed_crypto" by (simp add: aead_law_def framed_crypto_def has_prefix_def)
  have "\<not> has_prefix (b64_encode a @ '':'' @ p) (b64_encode a' @ '':'')" if "a' \<noteq> a" for a a' p
    using framed_prefix [OF b64_encode_no_colon b64_encode_no_colon] b64_encode_inj that by metis
  then show "aead_binding framed_crypto" by (simp add: aead_binding_def framed_crypto_def)
qed

theorem secret_roundtrip_witness:
  "\<exists>stored. EncryptWithAAD framed_crypto (replicate 12 (CHR ''n'')) (replicate 32 (CHR ''k'')) ''hunter2'' ''a'' = Inr stored
     \<and> DecryptWithAAD framed_crypto (replicate 32 (CHR ''k'')) stored ''a'' = Inr ''hunter2''"
  using secret_roundtrip [OF framed_crypto_laws, of "replicate 32 (CHR ''k'')" "replicate 12 (CHR ''n'')" "''hunter2''" "''a''"]
  by (auto simp: KeySize_def NonceSize_def)

end
