(* ===== verification/Access_Targets.thy ===== *)
theory Access_Targets
  imports Access_Groups Secret_Box
begin

text \<open>
  The target store (\<open>SQLiteTargetStore\<close> of \<open>src/internal/access/sqlite_store.go\<close>).  Credentials
  are encrypted with associated data that names the row and the column.  The encryption key, the
  cryptographic primitives, the three nonces of a write, and the environment are arguments
  (\<open>tenv\<close>).
\<close>

record tenv =
  te_crypto :: crypto
  te_encKey :: "string option"
  te_restricted :: string
  te_strict :: string

record Target =
  t_ID :: string
  t_Name :: string
  t_Host :: string
  t_Port :: nat
  t_Protocol :: Protocol
  t_Path :: string
  t_SSHUsername :: string
  t_SSHPassword :: string
  t_SSHPrivateKey :: string
  t_SSHPrivateKeyPassphrase :: string
  t_SSHHostKeyFingerprint :: string
  t_SSHHostKeyInsecureSkipVerify :: bool
  t_SFTPEnabled :: bool
  t_FTPEnabled :: bool
  t_TFTPEnabled :: bool
  t_CredentialIdentityID :: string
  t_SSHKeyID :: string

text \<open>What a create or update request carries.\<close>

record target_input =
  in_Name :: string
  in_Host :: string
  in_Port :: nat
  in_Protocol :: Protocol
  in_Path :: string
  in_SSHUsername :: string
  in_SSHPassword :: string
  in_SSHPrivateKey :: string
  in_SSHPrivateKeyPassphrase :: string
  in_SFTP :: bool
  in_FTP :: bool
  in_TFTP :: bool

definition key_bytes :: "tenv \<Rightarrow> string" where
  "key_bytes env = (case te_encKey env of None \<Rightarrow> [] | Some k \<Rightarrow> k)"

definition credentialAAD :: "string \<Rightarrow> string \<Rightarrow> string" where
  "credentialAAD targetID field = ''vantyx/target/'' @ targetID @ ''/'' @ field"

definition encrypt_field :: "tenv \<Rightarrow> string \<Rightarrow> string \<Rightarrow> string \<Rightarrow> string \<Rightarrow> access_error + string" where
  "encrypt_field env nonce targetID field v =
     (if v = [] then Inr []
      else case EncryptWithAAD (te_crypto env) nonce (key_bytes env) v (credentialAAD targetID field) of
        Inl _ \<Rightarrow> Inl ErrEncrypt | Inr c \<Rightarrow> Inr c)"

definition encryptCredentials ::
  "tenv \<Rightarrow> string \<times> string \<times> string \<Rightarrow> string \<Rightarrow> string \<Rightarrow> string \<Rightarrow> string \<Rightarrow> access_error + string \<times> string \<times> string" where
  "encryptCredentials env nonces targetID sshPassword sshPrivateKey passphrase =
     (case nonces of (n1, n2, n3) \<Rightarrow>
      if (sshPassword \<noteq> [] \<or> sshPrivateKey \<noteq> []) \<and> length (key_bytes env) \<noteq> KeySize
      then Inl ErrEncryptionKeyRequired
      else case encrypt_field env n1 targetID ''ssh_password'' sshPassword of Inl e \<Rightarrow> Inl e
        | Inr pw \<Rightarrow> (case encrypt_field env n2 targetID ''ssh_private_key'' sshPrivateKey of Inl e \<Rightarrow> Inl e
          | Inr k \<Rightarrow> (case encrypt_field env n3 targetID ''ssh_private_key_passphrase'' passphrase of Inl e \<Rightarrow> Inl e
            | Inr kp \<Rightarrow> Inr (pw, k, kp))))"

definition flag :: "bool \<Rightarrow> int" where "flag b = (if b then 1 else 0)"

definition validate_input :: "tenv \<Rightarrow> string \<Rightarrow> target_input \<Rightarrow> access_error option" where
  "validate_input env tid i =
     (case validateTargetID tid of Some e \<Rightarrow> Some e
      | None \<Rightarrow> (case validateName (in_Name i) of Some e \<Rightarrow> Some e
        | None \<Rightarrow> (case validateHost (te_restricted env) (in_Host i) of Some e \<Rightarrow> Some e
          | None \<Rightarrow> validateProtocol (in_Protocol i))))"

definition tgt_CreateWithPath ::
  "tenv \<Rightarrow> string \<times> string \<times> string \<Rightarrow> string \<Rightarrow> string \<Rightarrow> target_input \<Rightarrow> AccessDB \<Rightarrow> access_error + Target \<times> AccessDB" where
  "tgt_CreateWithPath env nonces tid groupID i db =
     (case validate_input env tid i of Some e \<Rightarrow> Inl e
      | None \<Rightarrow> (case (if groupID \<noteq> [] then validateGroupID groupID else None) of Some e \<Rightarrow> Inl e
        | None \<Rightarrow> (case encryptCredentials env nonces tid (in_SSHPassword i) (in_SSHPrivateKey i) (in_SSHPrivateKeyPassphrase i) of
            Inl e \<Rightarrow> Inl e
          | Inr (pw, k, kp) \<Rightarrow>
              if target_exists tid db \<or> \<not> group_exists groupID db then Inl ErrTargetExists
              else Inr (\<lparr>t_ID = tid, t_Name = in_Name i, t_Host = in_Host i, t_Port = in_Port i,
                   t_Protocol = in_Protocol i, t_Path = in_Path i, t_SSHUsername = in_SSHUsername i,
                   t_SSHPassword = in_SSHPassword i, t_SSHPrivateKey = in_SSHPrivateKey i,
                   t_SSHPrivateKeyPassphrase = in_SSHPrivateKeyPassphrase i,
                   t_SSHHostKeyFingerprint = [], t_SSHHostKeyInsecureSkipVerify = False,
                   t_SFTPEnabled = in_SFTP i, t_FTPEnabled = in_FTP i, t_TFTPEnabled = in_TFTP i,
                   t_CredentialIdentityID = [], t_SSHKeyID = []\<rparr>,
                 db\<lparr>db_targets := db_targets db @ [
                   \<lparr>tr_id = tid, tr_name = in_Name i, tr_host = in_Host i, tr_port = int (in_Port i),
                    tr_protocol = in_Protocol i, tr_group_id = groupID, tr_path = in_Path i,
                    tr_ssh_username = in_SSHUsername i, tr_ssh_password = pw, tr_ssh_private_key = k,
                    tr_ssh_private_key_passphrase = kp, tr_sftp_enabled = flag (in_SFTP i),
                    tr_ftp_enabled = flag (in_FTP i), tr_tftp_enabled = flag (in_TFTP i),
                    tr_ssh_host_key_fingerprint = [], tr_ssh_host_key_insecure_skip_verify = 0,
                    tr_credential_identity_id = [], tr_ssh_key_id = []\<rparr>]\<rparr>))))"

definition tgt_Create :: "tenv \<Rightarrow> string \<times> string \<times> string \<Rightarrow> string \<Rightarrow> string \<Rightarrow> string \<Rightarrow> nat \<Rightarrow> Protocol \<Rightarrow> AccessDB
     \<Rightarrow> access_error + Target \<times> AccessDB" where
  "tgt_Create env nonces tid name host port protocol db =
     tgt_CreateWithPath env nonces tid [] \<lparr>in_Name = name, in_Host = host, in_Port = port, in_Protocol = protocol,
       in_Path = [], in_SSHUsername = [], in_SSHPassword = [], in_SSHPrivateKey = [], in_SSHPrivateKeyPassphrase = [],
       in_SFTP = True, in_FTP = False, in_TFTP = False\<rparr> db"

definition decryptOrPlain :: "tenv \<Rightarrow> string \<Rightarrow> string \<Rightarrow> string \<Rightarrow> string" where
  "decryptOrPlain env stored targetID field =
     (if stored = [] then []
      else if \<not> IsEncrypted stored then (if te_strict env = ''1'' then [] else stored)
      else if length (key_bytes env) \<noteq> KeySize then []
      else case DecryptWithAAD (te_crypto env) (key_bytes env) stored (credentialAAD targetID field) of
        Inl _ \<Rightarrow> [] | Inr dec \<Rightarrow> dec)"

definition row_target :: "tenv \<Rightarrow> target_row \<Rightarrow> Target" where
  "row_target env r =
     \<lparr>t_ID = tr_id r, t_Name = tr_name r, t_Host = tr_host r, t_Port = nat (tr_port r), t_Protocol = tr_protocol r,
      t_Path = tr_path r, t_SSHUsername = tr_ssh_username r,
      t_SSHPassword = decryptOrPlain env (tr_ssh_password r) (tr_id r) ''ssh_password'',
      t_SSHPrivateKey = decryptOrPlain env (tr_ssh_private_key r) (tr_id r) ''ssh_private_key'',
      t_SSHPrivateKeyPassphrase = decryptOrPlain env (tr_ssh_private_key_passphrase r) (tr_id r) ''ssh_private_key_passphrase'',
      t_SSHHostKeyFingerprint = tr_ssh_host_key_fingerprint r,
      t_SSHHostKeyInsecureSkipVerify = (tr_ssh_host_key_insecure_skip_verify r \<noteq> 0),
      t_SFTPEnabled = (tr_sftp_enabled r \<noteq> 0), t_FTPEnabled = (tr_ftp_enabled r \<noteq> 0),
      t_TFTPEnabled = (tr_tftp_enabled r \<noteq> 0),
      t_CredentialIdentityID = tr_credential_identity_id r, t_SSHKeyID = tr_ssh_key_id r\<rparr>"

definition port_ok :: "target_row \<Rightarrow> bool" where
  "port_ok r = (0 \<le> tr_port r \<and> tr_port r \<le> 65535)"

definition tgt_Get :: "tenv \<Rightarrow> string \<Rightarrow> AccessDB \<Rightarrow> access_error + Target" where
  "tgt_Get env tid db = (case find (\<lambda>r. tr_id r = tid) (db_targets db) of None \<Rightarrow> Inl ErrTargetNotFound
     | Some r \<Rightarrow> if \<not> port_ok r then Inl ErrTargetNotFound else Inr (row_target env r))"

text \<open>An UPDATE of one target; no matching row is \<open>ErrTargetNotFound\<close>.\<close>

definition update_target :: "string \<Rightarrow> (target_row \<Rightarrow> target_row) \<Rightarrow> AccessDB \<Rightarrow> access_error + AccessDB" where
  "update_target tid f db = (case sql_update (\<lambda>r. tr_id r = tid) f (db_targets db) of
     (n, rows) \<Rightarrow> if n = 0 then Inl ErrTargetNotFound else Inr (db\<lparr>db_targets := rows\<rparr>))"

definition tgt_Update :: "tenv \<Rightarrow> string \<times> string \<times> string \<Rightarrow> string \<Rightarrow> target_input \<Rightarrow> AccessDB
     \<Rightarrow> access_error + Target \<times> AccessDB" where
  "tgt_Update env nonces tid i db =
     (case validate_input env tid i of Some e \<Rightarrow> Inl e
      | None \<Rightarrow> (case encryptCredentials env nonces tid (in_SSHPassword i) (in_SSHPrivateKey i) (in_SSHPrivateKeyPassphrase i) of
          Inl e \<Rightarrow> Inl e
        | Inr (pw, k, kp) \<Rightarrow>
            (case update_target tid (\<lambda>r. r\<lparr>tr_name := in_Name i, tr_host := in_Host i, tr_port := int (in_Port i),
                tr_protocol := in_Protocol i, tr_path := in_Path i, tr_ssh_username := trim_space (in_SSHUsername i),
                tr_ssh_password := pw, tr_ssh_private_key := k, tr_ssh_private_key_passphrase := kp,
                tr_sftp_enabled := flag (in_SFTP i), tr_ftp_enabled := flag (in_FTP i),
                tr_tftp_enabled := flag (in_TFTP i)\<rparr>) db of
               Inl e \<Rightarrow> Inl e
             | Inr db' \<Rightarrow> (case tgt_Get env tid db' of Inl e \<Rightarrow> Inl e | Inr t \<Rightarrow> Inr (t, db')))))"

definition SetSSHHostKeyFingerprint :: "string \<Rightarrow> string \<Rightarrow> AccessDB \<Rightarrow> access_error + AccessDB" where
  "SetSSHHostKeyFingerprint tid fingerprint db =
     (case validateTargetID tid of Some e \<Rightarrow> Inl e
      | None \<Rightarrow> (case validHostKeyFingerprint fingerprint of Inl e \<Rightarrow> Inl e
        | Inr canonical \<Rightarrow> update_target tid (\<lambda>r. r\<lparr>tr_ssh_host_key_fingerprint := canonical\<rparr>) db))"

definition SetSSHHostKeyInsecureSkipVerify :: "string \<Rightarrow> bool \<Rightarrow> AccessDB \<Rightarrow> access_error + AccessDB" where
  "SetSSHHostKeyInsecureSkipVerify tid skip db =
     (case validateTargetID tid of Some e \<Rightarrow> Inl e
      | None \<Rightarrow> update_target tid (\<lambda>r. r\<lparr>tr_ssh_host_key_insecure_skip_verify := flag skip\<rparr>) db)"

definition SetCredentialSource :: "string \<Rightarrow> string \<Rightarrow> string \<Rightarrow> AccessDB \<Rightarrow> access_error + AccessDB" where
  "SetCredentialSource tid credentialIdentityID sshKeyID db =
     (case validateTargetID tid of Some e \<Rightarrow> Inl e
      | None \<Rightarrow> update_target tid (\<lambda>r. r\<lparr>tr_credential_identity_id := credentialIdentityID, tr_ssh_key_id := sshKeyID\<rparr>) db)"

definition tgt_Delete :: "string \<Rightarrow> AccessDB \<Rightarrow> access_error + AccessDB" where
  "tgt_Delete tid db =
     (case validateTargetID tid of Some e \<Rightarrow> Inl e
      | None \<Rightarrow> if \<not> target_exists tid db then Inl ErrTargetNotFound
          else Inr (delete_targets (\<lambda>r. tr_id r = tid) db))"

text \<open>
  \<open>ListByIDs\<close>: page the requested identifiers, drop blanks and duplicates, fetch (in chunks of 999
  bound variables, which does not change the result set) and return in request order.
\<close>

definition slice_ids :: "ListOpts option \<Rightarrow> int \<Rightarrow> string list \<Rightarrow> string list" where
  "slice_ids opts dflt ids = (case listLimit opts dflt of (limit, offset) \<Rightarrow>
     if offset > 0 \<or> limit < int (length ids) then
       (if offset \<ge> int (length ids) then []
        else take (nat (min (offset + limit) (int (length ids)) - offset)) (drop (nat offset) ids))
     else ids)"

fun uniq_ids :: "string list \<Rightarrow> string list \<Rightarrow> string list" where
  "uniq_ids seen [] = []"
| "uniq_ids seen (i # ids) = (if i = [] \<or> i \<in> set seen then uniq_ids seen ids else i # uniq_ids (i # seen) ids)"

fun chunks :: "nat \<Rightarrow> 'a list \<Rightarrow> 'a list list" where
  "chunks n xs = (if xs = [] \<or> n = 0 then [] else take n xs # chunks n (drop n xs))"

declare chunks.simps [simp del]

definition fetch_chunk :: "tenv \<Rightarrow> AccessDB \<Rightarrow> string list \<Rightarrow> (string \<times> Target) list" where
  "fetch_chunk env db ids = [(tr_id r, row_target env r). r \<leftarrow> db_targets db, tr_id r \<in> set ids, port_ok r]"

definition ListByIDs :: "tenv \<Rightarrow> string list \<Rightarrow> ListOpts option \<Rightarrow> int \<Rightarrow> AccessDB \<Rightarrow> Target list" where
  "ListByIDs env ids opts dflt db =
     (let unique = uniq_ids [] (slice_ids opts dflt ids);
          byID = concat (map (fetch_chunk env db) (chunks 999 unique))
      in concat (map (\<lambda>i. case map_of byID i of None \<Rightarrow> [] | Some t \<Rightarrow> [t]) unique))"

definition AllIDs :: "ListOpts option \<Rightarrow> int \<Rightarrow> AccessDB \<Rightarrow> string list" where
  "AllIDs opts dflt db = sql_page opts dflt (sort (map tr_id (db_targets db)))"

definition ListByProtocol :: "Protocol \<Rightarrow> AccessDB \<Rightarrow> Target list" where
  "ListByProtocol protocol db =
     [\<lparr>t_ID = tr_id r, t_Name = tr_name r, t_Host = tr_host r, t_Port = nat (tr_port r), t_Protocol = tr_protocol r,
       t_Path = tr_path r, t_SSHUsername = [], t_SSHPassword = [], t_SSHPrivateKey = [], t_SSHPrivateKeyPassphrase = [],
       t_SSHHostKeyFingerprint = [], t_SSHHostKeyInsecureSkipVerify = False,
       t_SFTPEnabled = (tr_sftp_enabled r \<noteq> 0), t_FTPEnabled = (tr_ftp_enabled r \<noteq> 0),
       t_TFTPEnabled = (tr_tftp_enabled r \<noteq> 0), t_CredentialIdentityID = [], t_SSHKeyID = []\<rparr>.
      r \<leftarrow> db_targets db, tr_protocol r = protocol, port_ok r]"

definition TagsForTarget :: "string \<Rightarrow> AccessDB \<Rightarrow> string list" where
  "TagsForTarget targetID db = sort [tag. (t, tag) \<leftarrow> db_target_tags db, t = targetID]"

definition SetTargetTags :: "(nat \<Rightarrow> bool) \<Rightarrow> string \<Rightarrow> string list \<Rightarrow> AccessDB \<Rightarrow> access_error + AccessDB" where
  "SetTargetTags uni targetID tags db =
     (case first_tag_error uni tags of Some e \<Rightarrow> Inl e
      | None \<Rightarrow> if \<not> target_exists targetID db then Inl ErrTargetNotFound
          else if \<not> distinct tags then Inl Access_Validation.ErrUniqueConstraint
          else Inr (db\<lparr>db_target_tags := filter (\<lambda>(t, _). t \<noteq> targetID) (db_target_tags db)
                 @ map (\<lambda>t. (targetID, t)) tags\<rparr>))"

subsection \<open>Stored credentials come back\<close>

lemma encrypt_field_decrypts:
  assumes "encrypt_field env nonce tid field v = Inr c" "aead_law (te_crypto env)" "length nonce = NonceSize"
  shows "decryptOrPlain env c tid field = v \<and> (v \<noteq> [] \<longrightarrow> IsEncrypted c)"
proof (cases "v = []")
  case True
  then show ?thesis using assms(1) by (simp add: encrypt_field_def decryptOrPlain_def)
next
  case False
  have enc: "EncryptWithAAD (te_crypto env) nonce (key_bytes env) v (credentialAAD tid field) = Inr c"
    using assms(1) False by (auto simp: encrypt_field_def split: sum.splits)
  then have key: "length (key_bytes env) = KeySize" by (auto simp: EncryptWithAAD_def split: if_splits)
  note d = decrypt_encrypted [OF key assms(3) False enc, of "credentialAAD tid field"]
  with assms(2) key show ?thesis by (auto simp: decryptOrPlain_def aead_law_def)
qed

lemma encryptCredentials_decrypt:
  assumes "encryptCredentials env (n1, n2, n3) tid pw k kp = Inr (pw', k', kp')" "aead_law (te_crypto env)"
    and "length n1 = NonceSize" "length n2 = NonceSize" "length n3 = NonceSize"
  shows "decryptOrPlain env pw' tid ''ssh_password'' = pw" "decryptOrPlain env k' tid ''ssh_private_key'' = k"
    "decryptOrPlain env kp' tid ''ssh_private_key_passphrase'' = kp"
    "pw \<noteq> [] \<Longrightarrow> IsEncrypted pw'" "k \<noteq> [] \<Longrightarrow> IsEncrypted k'" "kp \<noteq> [] \<Longrightarrow> IsEncrypted kp'"
proof -
  have e: "encrypt_field env n1 tid ''ssh_password'' pw = Inr pw'" "encrypt_field env n2 tid ''ssh_private_key'' k = Inr k'"
    "encrypt_field env n3 tid ''ssh_private_key_passphrase'' kp = Inr kp'"
    using assms(1) by (auto simp: encryptCredentials_def split: if_splits sum.splits)
  from encrypt_field_decrypts [OF e(1) assms(2,3)] encrypt_field_decrypts [OF e(2) assms(2,4)]
    encrypt_field_decrypts [OF e(3) assms(2,5)]
  show "decryptOrPlain env pw' tid ''ssh_password'' = pw" "decryptOrPlain env k' tid ''ssh_private_key'' = k"
    "decryptOrPlain env kp' tid ''ssh_private_key_passphrase'' = kp"
    "pw \<noteq> [] \<Longrightarrow> IsEncrypted pw'" "k \<noteq> [] \<Longrightarrow> IsEncrypted k'" "kp \<noteq> [] \<Longrightarrow> IsEncrypted kp'" by auto
qed

lemma flag_zero [simp]: "(flag b = 0) = (\<not> b)"
  by (simp add: flag_def)

lemma CreateWithPath_row:
  assumes "tgt_CreateWithPath env ns tid g i db = Inr (t, db')"
  obtains pw k kp r where "encryptCredentials env ns tid (in_SSHPassword i) (in_SSHPrivateKey i) (in_SSHPrivateKeyPassphrase i) = Inr (pw, k, kp)"
    "db' = db\<lparr>db_targets := db_targets db @ [r]\<rparr>" "tr_id r = tid" "tr_group_id r = g" "tr_port r = int (in_Port i)"
    "tr_ssh_password r = pw" "tr_ssh_private_key r = k" "tr_ssh_private_key_passphrase r = kp"
    "t = (row_target env r)\<lparr>t_SSHPassword := in_SSHPassword i, t_SSHPrivateKey := in_SSHPrivateKey i,
       t_SSHPrivateKeyPassphrase := in_SSHPrivateKeyPassphrase i\<rparr>"
    "\<not> target_exists tid db" "group_exists g db" "validateTargetID tid = None"
proof -
  from assms obtain pw k kp where c: "encryptCredentials env ns tid (in_SSHPassword i) (in_SSHPrivateKey i) (in_SSHPrivateKeyPassphrase i) = Inr (pw, k, kp)"
    and v: "validate_input env tid i = None" "(if g \<noteq> [] then validateGroupID g else None) = None"
    and e: "\<not> (target_exists tid db \<or> \<not> group_exists g db)"
    unfolding tgt_CreateWithPath_def by (auto split: option.splits sum.splits prod.splits if_splits)
  have "validateTargetID tid = None" using v(1) by (auto simp: validate_input_def split: option.splits)
  then show ?thesis
    using assms e unfolding tgt_CreateWithPath_def v c
    by (intro that [OF c]) (auto simp: row_target_def)
qed

text \<open>
  What was registered is what a connection gets: after a target is created, reading it back
  returns exactly the created target with its user name, password, private key and passphrase,
  while the stored row holds no plaintext secret (every non-empty secret is a versioned ciphertext).
\<close>

theorem target_create_get_roundtrip:
  assumes "tgt_CreateWithPath env (n1, n2, n3) tid g i db = Inr (t, db')" "in_Port i \<le> 65535"
    and "aead_law (te_crypto env)" "length n1 = NonceSize" "length n2 = NonceSize" "length n3 = NonceSize"
  shows "tgt_Get env tid db' = Inr t
    \<and> (\<exists>r. find (\<lambda>r. tr_id r = tid) (db_targets db') = Some r
        \<and> (in_SSHPassword i \<noteq> [] \<longrightarrow> IsEncrypted (tr_ssh_password r))
        \<and> (in_SSHPrivateKey i \<noteq> [] \<longrightarrow> IsEncrypted (tr_ssh_private_key r))
        \<and> (in_SSHPrivateKeyPassphrase i \<noteq> [] \<longrightarrow> IsEncrypted (tr_ssh_private_key_passphrase r)))"
proof -
  obtain pw k kp r where c: "encryptCredentials env (n1, n2, n3) tid (in_SSHPassword i) (in_SSHPrivateKey i) (in_SSHPrivateKeyPassphrase i) = Inr (pw, k, kp)"
    and r: "db' = db\<lparr>db_targets := db_targets db @ [r]\<rparr>" "tr_id r = tid" "tr_port r = int (in_Port i)"
      "tr_ssh_password r = pw" "tr_ssh_private_key r = k" "tr_ssh_private_key_passphrase r = kp"
      "t = (row_target env r)\<lparr>t_SSHPassword := in_SSHPassword i, t_SSHPrivateKey := in_SSHPrivateKey i,
         t_SSHPrivateKeyPassphrase := in_SSHPrivateKeyPassphrase i\<rparr>"
    and new: "\<not> target_exists tid db"
    using assms(1) by (rule CreateWithPath_row)
  note d = encryptCredentials_decrypt [OF c assms(3-6)]
  have none: "find (\<lambda>r. tr_id r = tid) (db_targets db) = None"
    using new by (auto simp: target_exists_def find_None_iff)
  have find_snoc: "find P xs = None \<Longrightarrow> P y \<Longrightarrow> find P (xs @ [y]) = Some y" for P :: "target_row \<Rightarrow> bool" and xs y
    by (induction xs) (auto split: if_splits)
  have f: "find (\<lambda>r. tr_id r = tid) (db_targets db') = Some r"
    using find_snoc [OF none] r(1,2) by simp
  have "t = row_target env r" using r d(1-3) by (simp add: row_target_def)
  then have "tgt_Get env tid db' = Inr t" using f r(3) assms(2) by (simp add: tgt_Get_def port_ok_def)
  with f r d(4-6) show ?thesis by auto
qed

definition demo_env :: tenv where
  "demo_env = \<lparr>te_crypto = framed_crypto, te_encKey = Some (replicate 32 (CHR ''k'')), te_restricted = [], te_strict = ''1''\<rparr>"

definition demo_input :: target_input where
  "demo_input = \<lparr>in_Name = ''sw'', in_Host = ''sw1'', in_Port = 22, in_Protocol = ProtocolSSH, in_Path = [],
     in_SSHUsername = ''admin'', in_SSHPassword = ''hunter2'', in_SSHPrivateKey = [], in_SSHPrivateKeyPassphrase = [],
     in_SFTP = True, in_FTP = False, in_TFTP = False\<rparr>"

definition demo_nonce :: string where "demo_nonce = replicate 12 (CHR ''n'')"

lemma demo_create: "\<exists>t db'. tgt_CreateWithPath demo_env (demo_nonce, demo_nonce, demo_nonce) ''sw9'' ''new'' demo_input demo_moved = Inr (t, db')
    \<and> t_SSHPassword t = ''hunter2''"
proof -
  have v: "validate_input demo_env ''sw9'' demo_input = None"
    by (simp add: validate_input_def validateTargetID_def validateName_def runes_ascii_Cons byte_def IsControl_def
        between_def maxNameLen_def validateProtocol_def demo_env_def demo_input_def hostnamePattern_def host_char_def
        valid_id_simps host_eval)
  have g: "validateGroupID ''new'' = None" by (simp add: valid_id_simps)
  have ins: "in_SSHPassword demo_input = ''hunter2''" "in_SSHPrivateKey demo_input = []" "in_SSHPrivateKeyPassphrase demo_input = []"
    by (simp_all add: demo_input_def)
  have k: "length (key_bytes demo_env) = KeySize" by (simp add: key_bytes_def demo_env_def KeySize_def)
  obtain c where "encryptCredentials demo_env (demo_nonce, demo_nonce, demo_nonce) ''sw9'' ''hunter2'' [] [] = Inr (c, [], [])"
    by (simp add: encryptCredentials_def encrypt_field_def EncryptWithAAD_def k)
  moreover have "\<not> target_exists ''sw9'' demo_moved" "group_exists ''new'' demo_moved"
    by (simp_all add: target_exists_def group_exists_def demo_moved_def demo_target_def)
  ultimately show ?thesis by (simp add: tgt_CreateWithPath_def v g ins)
qed

theorem target_create_get_roundtrip_witness:
  "\<exists>t db'. tgt_CreateWithPath demo_env (demo_nonce, demo_nonce, demo_nonce) ''sw9'' ''new'' demo_input demo_moved = Inr (t, db')
     \<and> tgt_Get demo_env ''sw9'' db' = Inr t \<and> t_SSHPassword t = ''hunter2''"
proof -
  obtain t db' where c: "tgt_CreateWithPath demo_env (demo_nonce, demo_nonce, demo_nonce) ''sw9'' ''new'' demo_input demo_moved = Inr (t, db')"
    "t_SSHPassword t = ''hunter2''" using demo_create by blast
  have "in_Port demo_input \<le> 65535" "aead_law (te_crypto demo_env)" "length demo_nonce = NonceSize"
    by (simp_all add: demo_input_def demo_env_def framed_crypto_laws demo_nonce_def NonceSize_def)
  from target_create_get_roundtrip [OF c(1) this(1,2) this(3) this(3) this(3)] c show ?thesis by blast
qed

subsection \<open>Listing by identifiers\<close>

lemma set_uniq_ids: "set (uniq_ids seen ids) = set ids - set seen - {[]}"
  by (induction seen ids rule: uniq_ids.induct) auto

lemma concat_chunks: "0 < n \<Longrightarrow> concat (chunks n xs) = xs"
proof (induction n xs rule: chunks.induct)
  case (1 n xs)
  show ?case
  proof (cases "xs = []")
    case True
    then show ?thesis by (simp add: chunks.simps)
  next
    case False
    with 1 show ?thesis by (simp add: chunks.simps [of n xs])
  qed
qed

lemma map_of_concat_same:
  "(\<And>m. m \<in> set ms \<Longrightarrow> map_of m k = None \<or> map_of m k = v) \<Longrightarrow> v = None \<or> (\<exists>m \<in> set ms. map_of m k = v) \<Longrightarrow>
     map_of (concat ms) k = v"
proof (induction ms)
  case (Cons m ms)
  show ?case
  proof (cases "map_of m k")
    case None
    with Cons show ?thesis by (auto simp: map_add_def)
  next
    case (Some a)
    with Cons.prems(1) [of m] have "v = Some a" by simp
    with Some show ?thesis by (simp add: map_add_def)
  qed
qed auto

lemma map_of_fetch:
  assumes "distinct (map tr_id (db_targets db))"
  shows "map_of (fetch_chunk env db ids) i = (if i \<in> set ids then
     (case tgt_Get env i db of Inl _ \<Rightarrow> None | Inr t \<Rightarrow> Some t) else None)"
  using assms
proof (induction "db_targets db" arbitrary: db)
  case Nil
  then show ?case by (simp add: fetch_chunk_def tgt_Get_def)
next
  case (Cons r rs)
  let ?db = "db\<lparr>db_targets := rs\<rparr>"
  have IH: "map_of (fetch_chunk env ?db ids) i = (if i \<in> set ids then
     (case tgt_Get env i ?db of Inl _ \<Rightarrow> None | Inr t \<Rightarrow> Some t) else None)"
    using Cons.hyps(1) [of ?db] Cons.prems Cons.hyps(2) [symmetric] by simp
  have f: "fetch_chunk env db ids = (if tr_id r \<in> set ids \<and> port_ok r then [(tr_id r, row_target env r)] else []) @ fetch_chunk env ?db ids"
    by (simp add: fetch_chunk_def Cons.hyps(2) [symmetric])
  have g: "tgt_Get env i db = (if tr_id r = i then (if port_ok r then Inr (row_target env r) else Inl ErrTargetNotFound) else tgt_Get env i ?db)"
    by (simp add: tgt_Get_def Cons.hyps(2) [symmetric])
  have "tr_id r = i \<Longrightarrow> find (\<lambda>r. tr_id r = i) rs = None"
    using Cons.prems by (auto simp: Cons.hyps(2) [symmetric] find_None_iff rev_image_eqI)
  then have "tr_id r = i \<Longrightarrow> tgt_Get env i ?db = Inl ErrTargetNotFound" by (simp add: tgt_Get_def)
  with IH f g show ?case by auto
qed

text \<open>
  Listing targets by identifier is the same as reading them one by one: in a table with unique
  identifiers, \<open>ListByIDs\<close> returns, in request order, what \<open>Get\<close> returns for each distinct non-empty
  identifier of the requested slice and skips the rest; the batching into chunks of 999 bound
  variables is invisible.
\<close>

theorem list_by_ids_exact:
  assumes "distinct (map tr_id (db_targets db))"
  shows "ListByIDs env ids opts d db = concat (map (\<lambda>i. case tgt_Get env i db of Inl _ \<Rightarrow> [] | Inr t \<Rightarrow> [t])
     (uniq_ids [] (slice_ids opts d ids)))"
proof -
  let ?u = "uniq_ids [] (slice_ids opts d ids)"
  let ?ms = "map (fetch_chunk env db) (chunks 999 ?u)"
  have "map_of (concat ?ms) i = (case tgt_Get env i db of Inl _ \<Rightarrow> None | Inr t \<Rightarrow> Some t)" if "i \<in> set ?u" for i
  proof (rule map_of_concat_same)
    have "i \<in> set (concat (chunks 999 ?u))" using that by (simp add: concat_chunks)
    then show "(case tgt_Get env i db of Inl _ \<Rightarrow> None | Inr t \<Rightarrow> Some t) = None
        \<or> (\<exists>m \<in> set ?ms. map_of m i = (case tgt_Get env i db of Inl _ \<Rightarrow> None | Inr t \<Rightarrow> Some t))"
      by (auto simp: map_of_fetch [OF assms])
  qed (auto simp: map_of_fetch [OF assms])
  then have "map (\<lambda>i. case map_of (concat ?ms) i of None \<Rightarrow> [] | Some t \<Rightarrow> [t]) ?u =
      map (\<lambda>i. case tgt_Get env i db of Inl _ \<Rightarrow> [] | Inr t \<Rightarrow> [t]) ?u"
    by (auto split: sum.split)
  then show ?thesis unfolding ListByIDs_def Let_def by (rule arg_cong [where f = concat])
qed

theorem list_by_ids_exact_witness:
  "map t_ID (ListByIDs demo_env [''sw2'', ''nope'', ''sw1'', ''sw2''] None 100 demo_moved) = [''sw2'', ''sw1'']"
proof -
  have "distinct (map tr_id (db_targets demo_moved))" by (simp add: demo_moved_def demo_target_def)
  from list_by_ids_exact [OF this, of demo_env "[''sw2'', ''nope'', ''sw1'', ''sw2'']" None 100] show ?thesis
    by (simp add: slice_ids_def listLimit_def tgt_Get_def demo_moved_def demo_target_def port_ok_def row_target_def)
qed

subsection \<open>Every operation keeps the tables consistent\<close>

inductive access_step :: "AccessDB \<Rightarrow> AccessDB \<Rightarrow> bool" where
  group_create: "grp_Create g n db = Inr db' \<Longrightarrow> access_step db db'"
| group_update: "grp_Update g n db = Inr db' \<Longrightarrow> access_step db db'"
| group_delete: "grp_Delete g db = Inr db' \<Longrightarrow> access_step db db'"
| member_add: "AddUserToGroupUntil u g ex db = Inr db' \<Longrightarrow> access_step db db'"
| member_remove: "RemoveUserFromGroup u g db = Inr db' \<Longrightarrow> access_step db db'"
| member_purge: "access_step db (snd (PurgeExpiredMemberships t db))"
| assign: "AddTargetToGroup g t db = Inr db' \<Longrightarrow> access_step db db'"
| unassign: "RemoveTargetFromGroup g t db = Inr db' \<Longrightarrow> access_step db db'"
| group_tags: "SetGroupTags uni g tags db = Inr db' \<Longrightarrow> access_step db db'"
| target_create: "tgt_CreateWithPath env ns t g i db = Inr (x, db') \<Longrightarrow> access_step db db'"
| target_update: "tgt_Update env ns t i db = Inr (x, db') \<Longrightarrow> access_step db db'"
| target_fingerprint: "SetSSHHostKeyFingerprint t fp db = Inr db' \<Longrightarrow> access_step db db'"
| target_skip_verify: "SetSSHHostKeyInsecureSkipVerify t sk db = Inr db' \<Longrightarrow> access_step db db'"
| target_source: "SetCredentialSource t c k db = Inr db' \<Longrightarrow> access_step db db'"
| target_delete: "tgt_Delete t db = Inr db' \<Longrightarrow> access_step db db'"
| target_tags: "SetTargetTags uni t tags db = Inr db' \<Longrightarrow> access_step db db'"

lemma exists_frame [simp]:
  "group_exists g (db\<lparr>db_user_groups := ug\<rparr>) = group_exists g db"
  "group_exists g (db\<lparr>db_group_targets := gt\<rparr>) = group_exists g db"
  "group_exists g (db\<lparr>db_group_tags := gg\<rparr>) = group_exists g db"
  "group_exists g (db\<lparr>db_target_tags := tt\<rparr>) = group_exists g db"
  "group_exists g (db\<lparr>db_targets := ts\<rparr>) = group_exists g db"
  "target_exists t (db\<lparr>db_user_groups := ug\<rparr>) = target_exists t db"
  "target_exists t (db\<lparr>db_group_targets := gt\<rparr>) = target_exists t db"
  "target_exists t (db\<lparr>db_group_tags := gg\<rparr>) = target_exists t db"
  "target_exists t (db\<lparr>db_target_tags := tt\<rparr>) = target_exists t db"
  "target_exists t (db\<lparr>db_groups := gs\<rparr>) = target_exists t db"
  by (simp_all add: group_exists_def target_exists_def)

lemma group_exists_snoc [simp]: "group_exists h (db\<lparr>db_groups := db_groups db @ [(g, n)]\<rparr>) = (group_exists h db \<or> h = g)"
  by (auto simp: group_exists_def)

lemma db_inv_target_rows:
  assumes "db_inv db" "map tr_id rows = map tr_id (db_targets db)" "\<forall>r \<in> set rows. group_exists (tr_group_id r) db"
  shows "db_inv (db\<lparr>db_targets := rows\<rparr>)"
proof -
  have "target_exists t (db\<lparr>db_targets := rows\<rparr>) = target_exists t db" for t
    using assms(2) by (simp only: target_exists_def) simp
  moreover have "group_exists g (db\<lparr>db_targets := rows\<rparr>) = group_exists g db" for g by (simp add: group_exists_def)
  ultimately show ?thesis using assms by (simp add: db_inv_def)
qed

lemma db_inv_update_target:
  assumes "db_inv db" "update_target t f db = Inr db'" "\<And>r. tr_id (f r) = tr_id r" "\<And>r. tr_group_id (f r) = tr_group_id r"
  shows "db_inv db'"
proof -
  have db': "db' = db\<lparr>db_targets := snd (sql_update (\<lambda>r. tr_id r = t) f (db_targets db))\<rparr>"
    using assms(2) by (auto simp: update_target_def split: prod.splits if_splits)
  have ids: "map tr_id (snd (sql_update (\<lambda>r. tr_id r = t) f (db_targets db))) = map tr_id (db_targets db)"
    by (rule keys_update) (rule assms(3))
  have "\<forall>r \<in> set (snd (sql_update (\<lambda>r. tr_id r = t) f (db_targets db))). group_exists (tr_group_id r) db"
    using assms(1,4) by (auto simp: sql_update_def db_inv_def)
  from db_inv_target_rows [OF assms(1) ids this] show ?thesis by (simp add: db')
qed

lemma db_inv_delete_targets:
  assumes "db_inv db"
  shows "db_inv (delete_targets P db)"
proof -
  let ?gone = "set (map tr_id (filter P (db_targets db)))"
  have t: "target_exists t (delete_targets P db)" if "target_exists t db" "t \<notin> ?gone" for t
    using that by (auto simp: target_exists_def delete_targets_def Let_def)
  have g: "group_exists g (delete_targets P db) = group_exists g db" for g
    by (simp add: group_exists_def delete_targets_def Let_def)
  show ?thesis
    using assms t unfolding db_inv_def g
    by (auto simp: delete_targets_def Let_def distinct_map_filter distinct_filter)
qed

lemma db_inv_delete_group:
  assumes "db_inv db" shows "db_inv (delete_group g db)"
proof -
  let ?db1 = "delete_targets (\<lambda>r. tr_group_id r = g) db"
  let ?drop = "\<lambda>d. d\<lparr>db_groups := filter (\<lambda>(i, _). i \<noteq> g) (db_groups d),
        db_user_groups := filter (\<lambda>(_, h, _). h \<noteq> g) (db_user_groups d),
        db_group_targets := filter (\<lambda>(h, _). h \<noteq> g) (db_group_targets d),
        db_group_tags := filter (\<lambda>(h, _). h \<noteq> g) (db_group_tags d)\<rparr>"
  have eq: "delete_group g db = ?drop ?db1"
    by (simp add: delete_group_def delete_targets_def Let_def filter_filter conj_commute case_prod_beta)
  have inv1: "db_inv ?db1" by (rule db_inv_delete_targets [OF assms])
  have own: "\<forall>r \<in> set (db_targets ?db1). tr_group_id r \<noteq> g" by (simp add: delete_targets_def Let_def)
  have ge: "group_exists h (?drop ?db1) = (group_exists h ?db1 \<and> h \<noteq> g)" for h
    by (auto simp: group_exists_def)
  have te: "target_exists t (?drop ?db1) = target_exists t ?db1" for t by (simp add: target_exists_def)
  show ?thesis
    using inv1 own unfolding eq db_inv_def ge te
    by (auto simp: distinct_map_filter distinct_filter)
qed

lemma db_inv_groups:
  assumes "db_inv db" "map fst rows = map fst (db_groups db)"
  shows "db_inv (db\<lparr>db_groups := rows\<rparr>)"
proof -
  have ge: "group_exists g (db\<lparr>db_groups := rows\<rparr>) = group_exists g db" for g
    by (simp add: group_exists_def flip: assms(2))
  have "\<forall>g \<in> fst ` set (db_groups db). validateGroupID g = None" using assms(1) by (auto simp: db_inv_def)
  moreover have "fst ` set rows = fst ` set (db_groups db)" using assms(2) by (metis list.set_map)
  ultimately have "\<forall>g \<in> fst ` set rows. validateGroupID g = None" by metis
  then have "\<forall>(g, _) \<in> set rows. validateGroupID g = None" by auto
  then show ?thesis using assms unfolding db_inv_def ge by (simp add: target_exists_def)
qed

lemma db_inv_group_create:
  assumes "db_inv db" "grp_Create g n db = Inr db'" shows "db_inv db'"
proof -
  have g: "validateGroupID g = None" "g \<notin> set (map fst (db_groups db))" and db': "db' = db\<lparr>db_groups := db_groups db @ [(g, n)]\<rparr>"
    using assms(2) by (auto simp: grp_Create_def group_exists_def split: option.splits if_splits)
  show ?thesis using assms(1) g unfolding db' db_inv_def by (auto split: prod.splits)
qed

lemma db_inv_group_update:
  assumes "db_inv db" "grp_Update g n db = Inr db'" shows "db_inv db'"
proof -
  have "db' = db\<lparr>db_groups := snd (sql_update (\<lambda>(h, _). h = g) (\<lambda>(h, _). (h, n)) (db_groups db))\<rparr>"
    using assms(2) by (auto simp: grp_Update_def split: option.splits prod.splits if_splits)
  moreover have "map fst (snd (sql_update (\<lambda>(h, _). h = g) (\<lambda>(h, _). (h, n)) (db_groups db))) = map fst (db_groups db)"
    by (rule keys_update) (simp add: case_prod_beta)
  ultimately show ?thesis using db_inv_groups [OF assms(1)] by simp
qed

lemma db_inv_members:
  assumes "db_inv db" "distinct (map (\<lambda>(u, g, _). (u, g)) rows)"
    and "\<forall>(u, g, _) \<in> set rows. u \<in> set (db_users db) \<and> group_exists g db"
  shows "db_inv (db\<lparr>db_user_groups := rows\<rparr>)"
  using assms by (simp add: db_inv_def)

lemma db_inv_member_add:
  assumes "db_inv db" "AddUserToGroupUntil u g ex db = Inr db'" shows "db_inv db'"
proof -
  let ?ex = "map_option unix ex"
  have ok: "u \<in> set (db_users db)" "group_exists g db"
    using assms(2) by (auto simp: AddUserToGroupUntil_def Let_def split: if_splits)
  let ?f = "\<lambda>(u', h, e). if u' = u \<and> h = g then (u', h, ?ex) else (u', h, e)"
  have keys: "map (\<lambda>(u, g, _). (u, g)) (map ?f rows) = map (\<lambda>(u, g, _). (u, g)) rows" for rows :: "(string \<times> string \<times> int option) list"
    by (auto simp: case_prod_beta)
  consider "db' = db\<lparr>db_user_groups := map ?f (db_user_groups db)\<rparr>"
    | "db' = db\<lparr>db_user_groups := db_user_groups db @ [(u, g, ?ex)]\<rparr>" "\<forall>(v, h, _) \<in> set (db_user_groups db). \<not> (v = u \<and> h = g)"
    using assms(2) by (fastforce simp: AddUserToGroupUntil_def Let_def split: if_splits)
  then show ?thesis
  proof cases
    case 1
    have "distinct (map (\<lambda>(u, g, _). (u, g)) (map ?f (db_user_groups db)))"
      unfolding keys using assms(1) by (simp add: db_inv_def)
    then show ?thesis unfolding 1 by (rule db_inv_members [OF assms(1)])
        (use assms(1) ok in \<open>auto simp: db_inv_def split: if_splits\<close>)
  next
    case 2
    show ?thesis unfolding 2(1) by (rule db_inv_members [OF assms(1)])
        (use assms(1) ok 2(2) in \<open>auto simp: db_inv_def\<close>)
  qed
qed

lemma db_inv_member_filter: "db_inv db \<Longrightarrow> db_inv (db\<lparr>db_user_groups := filter P (db_user_groups db)\<rparr>)"
  by (rule db_inv_members) (auto simp: db_inv_def distinct_map_filter)

lemma db_inv_assignments:
  assumes "db_inv db" "distinct gt" "\<forall>(g, t) \<in> set gt. group_exists g db \<and> target_exists t db"
  shows "db_inv (db\<lparr>db_group_targets := gt\<rparr>)"
  using assms by (simp add: db_inv_def)

lemma db_inv_assign:
  assumes "db_inv db" "AddTargetToGroup g t db = Inr db'" shows "db_inv db'"
proof (cases "(g, t) \<in> set (db_group_targets db)")
  case True
  then show ?thesis using assms by (auto simp: AddTargetToGroup_def split: if_splits)
next
  case False
  have ex: "group_exists g db" "target_exists t db" and db': "db' = db\<lparr>db_group_targets := db_group_targets db @ [(g, t)]\<rparr>"
    using assms(2) False by (auto simp: AddTargetToGroup_def split: if_splits)
  show ?thesis unfolding db' by (rule db_inv_assignments [OF assms(1)])
      (use assms(1) False ex in \<open>auto simp: db_inv_def\<close>)
qed

lemma db_inv_unassign:
  assumes "db_inv db" "RemoveTargetFromGroup g t db = Inr db'" shows "db_inv db'"
proof -
  have db': "db' = db\<lparr>db_group_targets := filter (\<lambda>(h, t'). \<not> (h = g \<and> t' = t)) (db_group_targets db)\<rparr>"
    using assms(2) by (auto simp: RemoveTargetFromGroup_def split: if_splits)
  show ?thesis unfolding db' by (rule db_inv_assignments [OF assms(1)])
      (use assms(1) in \<open>auto simp: db_inv_def\<close>)
qed

lemma distinct_retag: "distinct xs \<Longrightarrow> distinct tags \<Longrightarrow>
    distinct (filter (\<lambda>(g, _). g \<noteq> k) xs @ map (\<lambda>t. (k, t)) tags)"
  by (auto simp: distinct_map inj_on_def)

lemma db_inv_group_tags:
  assumes "db_inv db" "SetGroupTags uni g tags db = Inr db'" shows "db_inv db'"
proof -
  let ?new = "filter (\<lambda>(h, _). h \<noteq> g) (db_group_tags db) @ map (\<lambda>t. (g, t)) tags"
  have g: "group_exists g db" "distinct tags" and db': "db' = db\<lparr>db_group_tags := ?new\<rparr>"
    using assms(2) by (auto simp: SetGroupTags_def split: if_splits option.splits)
  have old: "distinct (db_group_tags db)" "\<forall>(h, _) \<in> set (db_group_tags db). group_exists h db"
    using assms(1) by (simp_all add: db_inv_def)
  have "distinct ?new" by (rule distinct_retag [OF old(1) g(2)])
  moreover have "\<forall>(h, _) \<in> set ?new. group_exists h db" using old(2) g(1) by auto
  ultimately show ?thesis using assms(1) unfolding db' by (simp add: db_inv_def)
qed

lemma db_inv_target_tags:
  assumes "db_inv db" "SetTargetTags uni t tags db = Inr db'" shows "db_inv db'"
proof -
  let ?new = "filter (\<lambda>(h, _). h \<noteq> t) (db_target_tags db) @ map (\<lambda>g. (t, g)) tags"
  have t: "target_exists t db" "distinct tags" and db': "db' = db\<lparr>db_target_tags := ?new\<rparr>"
    using assms(2) by (auto simp: SetTargetTags_def split: if_splits option.splits)
  have old: "distinct (db_target_tags db)" "\<forall>(h, _) \<in> set (db_target_tags db). target_exists h db"
    using assms(1) by (simp_all add: db_inv_def)
  have "distinct ?new" by (rule distinct_retag [OF old(1) t(2)])
  moreover have "\<forall>(h, _) \<in> set ?new. target_exists h db" using old(2) t(1) by auto
  ultimately show ?thesis using assms(1) unfolding db' by (simp add: db_inv_def)
qed

lemma db_inv_target_create:
  assumes "db_inv db" "tgt_CreateWithPath env ns t g i db = Inr (x, db')" shows "db_inv db'"
  using assms(2)
proof (rule CreateWithPath_row)
  fix pw k kp r
  assume r: "db' = db\<lparr>db_targets := db_targets db @ [r]\<rparr>" "tr_id r = t" "tr_group_id r = g"
    and new: "\<not> target_exists t db" "group_exists g db"
  have te: "target_exists u db' = (target_exists u db \<or> u = t)" for u using r by (auto simp: target_exists_def)
  have ge: "group_exists h db' = group_exists h db" for h using r by (simp add: group_exists_def)
  show "db_inv db'" using assms(1) r new unfolding db_inv_def te ge by (auto simp: target_exists_def)
qed

lemma db_inv_step: "access_step db db' \<Longrightarrow> db_inv db \<Longrightarrow> db_inv db'"
proof (induction rule: access_step.induct)
  case (member_purge db t)
  then show ?case using db_inv_member_filter by (simp add: PurgeExpiredMemberships_def sql_delete_def)
next
  case (target_update env ns t i db x db')
  then obtain f where f: "update_target t f db = Inr db'" "\<And>r. tr_id (f r) = tr_id r" "\<And>r. tr_group_id (f r) = tr_group_id r"
    by (fastforce simp: tgt_Update_def split: option.splits sum.splits prod.splits)
  from db_inv_update_target [OF target_update.prems f] show ?case .
next
  case (group_delete g db db')
  then show ?case using grp_Delete_cases(1) db_inv_delete_group by metis
next
  case (target_delete t db db')
  then show ?case using db_inv_delete_targets by (auto simp: tgt_Delete_def split: option.splits if_splits)
next
  case (member_remove u g db db')
  then show ?case using db_inv_member_filter by (auto simp: RemoveUserFromGroup_def split: if_splits)
qed (auto simp: SetSSHHostKeyFingerprint_def SetSSHHostKeyInsecureSkipVerify_def SetCredentialSource_def
    split: option.splits sum.splits
    intro: db_inv_group_create db_inv_group_update db_inv_member_add db_inv_assign db_inv_unassign db_inv_group_tags
      db_inv_target_tags db_inv_target_create elim: db_inv_update_target)

definition empty_db :: "string list \<Rightarrow> AccessDB" where
  "empty_db users = \<lparr>db_users = users, db_groups = [], db_targets = [], db_user_groups = [], db_group_targets = [],
     db_group_tags = [], db_target_tags = [], db_user_tags = []\<rparr>"

interpretation access_db: transition_system access_step "\<lambda>db. \<exists>users. db = empty_db users" db_inv
proof (unfold_locales, goal_cases)
  case (1 db)
  then show ?case by (auto simp: empty_db_def db_inv_def)
next
  case (2 db db')
  then show ?case by (rule db_inv_step)
qed

text \<open>
  Referential integrity: starting from empty tables, after any sequence of successful group,
  membership, assignment, tag and target operations, keys are unique, group identifiers are valid
  paths, and no membership, assignment, tag or target refers to a group, target or user that does
  not exist.
\<close>

theorem access_tables_consistent:
  assumes "access_step\<^sup>*\<^sup>* (empty_db users) db"
  shows "db_inv db"
  by (rule access_db.reachable_inv [OF _ assms]) blast

theorem access_tables_consistent_witness:
  "\<exists>db. access_step\<^sup>*\<^sup>* (empty_db [''alice'']) db \<and> group_exists ''net'' db \<and> db_inv db"
proof -
  have v: "validateGroupID ''net'' = None" "validateName ''N'' = None"
    by (simp_all add: valid_id_simps validateName_def maxNameLen_def runes_ascii_Cons byte_def IsControl_def between_def)
  have "grp_Create ''net'' ''N'' (empty_db [''alice'']) = Inr ((empty_db [''alice''])\<lparr>db_groups := [(''net'', ''N'')]\<rparr>)"
    by (simp add: grp_Create_def v empty_db_def group_exists_def)
  from access_step.group_create [OF this]
  have "access_step\<^sup>*\<^sup>* (empty_db [''alice'']) ((empty_db [''alice''])\<lparr>db_groups := [(''net'', ''N'')]\<rparr>)" by blast
  with access_tables_consistent [OF this] show ?thesis by (auto simp: group_exists_def)
qed

end
