(* ===== verification/Auth_Store.thy ===== *)
theory Auth_Store
  imports Access_Targets
begin

text \<open>
  Accounts and login sessions: the password policy (\<open>src/internal/auth/password.go\<close>), the user
  store and the session store (\<open>src/internal/auth/sqlite_store.go\<close>) over the tables of
  \<open>src/internal/db/sqlite/migrate.go\<close>, with the cascades from \<open>users\<close>.  bcrypt, SHA-256 in
  hexadecimal, the parser of SSH public keys and the Unicode classes beyond ASCII are the fields of
  \<open>auth_env\<close>; salts, random tokens and clock readings are arguments.
\<close>

datatype auth_error =
    ErrIDOrUsernameEmpty | ErrUserExists | ErrUserNotFound | ErrInvalidSecret | ErrUserDisabled
  | ErrWrongPassword | ErrPasswordUnchanged | ErrInvalidPublicKey | ErrInvalidLocale | ErrInvalidRole
  | ErrEmptyPassword | ErrPasswordTooShort | ErrPasswordTooLong | ErrPasswordNoUpper | ErrPasswordNoLower
  | ErrPasswordNoDigit | ErrPasswordNoSpecial | ErrHashPassword | ErrUserTagLength | ErrUserTagChars
  | ErrSessionNotFound | ErrUserIDEmpty | ErrConstraint

datatype rune_class = Upper | Lower | Digit | Special | Other

record auth_env =
  ae_bcrypt_generate :: "int \<Rightarrow> string \<Rightarrow> string \<Rightarrow> string option"
  ae_bcrypt_compare :: "string \<Rightarrow> string \<Rightarrow> bool"
  ae_bcrypt_cost :: string
  ae_sha256hex :: "string \<Rightarrow> string"
  ae_parse_key :: "string \<Rightarrow> string option"
  ae_rune_class :: "nat \<Rightarrow> rune_class"
  ae_letter_number :: "nat \<Rightarrow> bool"

text \<open>Roles and the rows of the tables that hang off a user.\<close>

definition RoleAdmin :: string where "RoleAdmin = ''admin''"
definition RoleUser :: string where "RoleUser = ''user''"

record User =
  u_ID :: string
  u_Username :: string
  u_PasswordHash :: string
  u_Role :: string
  u_Locale :: string
  u_ForcePasswordChange :: bool
  u_Disabled :: bool

record user_row =
  ur_id :: string
  ur_username :: string
  ur_password_hash :: string
  ur_role :: string
  ur_locale :: string
  ur_force_password_change :: int
  ur_disabled :: int

record session_row =
  se_id :: string
  se_user_id :: string
  se_created_at :: instant
  se_expires_at :: instant

record UserSSHKey =
  uk_ID :: int
  uk_UserID :: string
  uk_KeyLine :: string
  uk_CreatedAt :: instant

record token_row =
  ak_id :: string
  ak_user_id :: string
  ak_name :: string
  ak_token_hash :: string
  ak_prefix :: string
  ak_scope :: string
  ak_created_at :: int
  ak_expires_at :: "int option"
  ak_last_used_at :: "int option"
  ak_revoked_at :: "int option"

text \<open>The column \<open>recovery_codes\<close> holds a JSON array of hexadecimal digests; it is the list here.\<close>

record totp_row =
  to_user_id :: string
  to_secret_enc :: string
  to_enabled :: int
  to_recovery_codes :: "string list"
  to_confirmed_at :: "instant option"

record request_row =
  rr_id :: string
  rr_user_id :: string
  rr_group_id :: string
  rr_reason :: string
  rr_duration_seconds :: int
  rr_status :: string
  rr_created_at :: int
  rr_decided_at :: "int option"
  rr_decided_by :: "string option"
  rr_decision_note :: "string option"
  rr_expires_at :: "int option"

record AuthDB =
  a_users :: "user_row list"
  a_sessions :: "session_row list"
  a_keys :: "UserSSHKey list"
  a_next_key :: int
  a_tokens :: "token_row list"
  a_totp :: "totp_row list"
  a_requests :: "request_row list"
  a_access :: AccessDB

definition user_exists :: "string \<Rightarrow> AuthDB \<Rightarrow> bool" where
  "user_exists u db = (u \<in> set (map ur_id (a_users db)))"

text \<open>The foreign keys to \<open>users\<close> cascade.\<close>

definition delete_user_access :: "string \<Rightarrow> AccessDB \<Rightarrow> AccessDB" where
  "delete_user_access u acc =
     acc\<lparr>db_users := filter (\<lambda>x. x \<noteq> u) (db_users acc),
         db_user_groups := filter (\<lambda>(v, _, _). v \<noteq> u) (db_user_groups acc),
         db_user_tags := filter (\<lambda>(v, _). v \<noteq> u) (db_user_tags acc)\<rparr>"

definition delete_user_rows :: "string \<Rightarrow> AuthDB \<Rightarrow> AuthDB" where
  "delete_user_rows u db =
     db\<lparr>a_users := filter (\<lambda>r. ur_id r \<noteq> u) (a_users db),
        a_sessions := filter (\<lambda>r. se_user_id r \<noteq> u) (a_sessions db),
        a_keys := filter (\<lambda>r. uk_UserID r \<noteq> u) (a_keys db),
        a_tokens := filter (\<lambda>r. ak_user_id r \<noteq> u) (a_tokens db),
        a_totp := filter (\<lambda>r. to_user_id r \<noteq> u) (a_totp db),
        a_requests := filter (\<lambda>r. rr_user_id r \<noteq> u) (a_requests db),
        a_access := delete_user_access u (a_access db)\<rparr>"

subsection \<open>Passwords\<close>

definition bcrypt_fallback :: int where "bcrypt_fallback = 12"
definition MinPasswordLength :: nat where "MinPasswordLength = 8"
definition MaxPasswordLength :: nat where "MaxPasswordLength = 72"

text \<open>The bounds 4 and 31 are bcrypt's documented \<open>MinCost\<close> and \<open>MaxCost\<close>.\<close>

definition bcryptCost :: "string \<Rightarrow> int" where
  "bcryptCost raw = (if raw = [] then bcrypt_fallback
     else case atoi raw of None \<Rightarrow> bcrypt_fallback
       | Some v \<Rightarrow> if v < 4 \<or> v > 31 then bcrypt_fallback else v)"

definition rune_class_of :: "auth_env \<Rightarrow> nat \<Rightarrow> rune_class" where
  "rune_class_of env r = (if r < 128 then
       (if between 65 90 r then Upper else if between 97 122 r then Lower else if between 48 57 r then Digit
        else if between 33 47 r \<or> between 58 64 r \<or> between 91 96 r \<or> between 123 126 r then Special else Other)
     else ae_rune_class env r)"

definition ValidatePassword :: "auth_env \<Rightarrow> string \<Rightarrow> auth_error option" where
  "ValidatePassword env plain =
     (if plain = [] then Some ErrEmptyPassword
      else if length plain < MinPasswordLength then Some ErrPasswordTooShort
      else if length plain > MaxPasswordLength then Some ErrPasswordTooLong
      else let classes = map (rune_class_of env) (runes plain) in
        if Upper \<notin> set classes then Some ErrPasswordNoUpper
        else if Lower \<notin> set classes then Some ErrPasswordNoLower
        else if Digit \<notin> set classes then Some ErrPasswordNoDigit
        else if Special \<notin> set classes then Some ErrPasswordNoSpecial
        else None)"

definition HashPassword :: "auth_env \<Rightarrow> string \<Rightarrow> string \<Rightarrow> auth_error + string" where
  "HashPassword env salt plain = (case ValidatePassword env plain of Some e \<Rightarrow> Inl e
     | None \<Rightarrow> (case ae_bcrypt_generate env (bcryptCost (ae_bcrypt_cost env)) salt plain of
         None \<Rightarrow> Inl ErrHashPassword | Some h \<Rightarrow> Inr h))"

definition VerifyPassword :: "auth_env \<Rightarrow> string \<Rightarrow> string \<Rightarrow> bool" where
  "VerifyPassword env hashed plain =
     (if hashed = [] \<or> plain = [] then False
      else if length plain > MaxPasswordLength then False
      else ae_bcrypt_compare env hashed plain)"

subsection \<open>The user store\<close>

definition scan_user :: "user_row \<Rightarrow> User" where
  "scan_user r = \<lparr>u_ID = ur_id r, u_Username = ur_username r, u_PasswordHash = ur_password_hash r,
     u_Role = ur_role r, u_Locale = ur_locale r, u_ForcePasswordChange = (ur_force_password_change r \<noteq> 0),
     u_Disabled = (ur_disabled r \<noteq> 0)\<rparr>"

definition CreateUser ::
  "auth_env \<Rightarrow> string \<Rightarrow> string \<Rightarrow> string \<Rightarrow> string \<Rightarrow> string \<Rightarrow> AuthDB \<Rightarrow> auth_error + User \<times> AuthDB" where
  "CreateUser env salt uid username plain role db =
     (if uid = [] \<or> username = [] then Inl ErrIDOrUsernameEmpty
      else let role = (if role \<noteq> RoleAdmin \<and> role \<noteq> RoleUser then RoleUser else role) in
        case HashPassword env salt plain of Inl e \<Rightarrow> Inl e
        | Inr h \<Rightarrow>
          if user_exists uid db \<or> username \<in> set (map ur_username (a_users db)) then Inl ErrUserExists
          else Inr (\<lparr>u_ID = uid, u_Username = username, u_PasswordHash = h, u_Role = role, u_Locale = [],
                     u_ForcePasswordChange = False, u_Disabled = False\<rparr>,
                    db\<lparr>a_users := a_users db @ [\<lparr>ur_id = uid, ur_username = username, ur_password_hash = h, ur_role = role,
                          ur_locale = [], ur_force_password_change = 0, ur_disabled = 0\<rparr>],
                       a_access := (a_access db)\<lparr>db_users := db_users (a_access db) @ [uid]\<rparr>\<rparr>))"

definition find_username :: "string \<Rightarrow> AuthDB \<Rightarrow> user_row option" where
  "find_username name db = find (\<lambda>r. ur_username r = name) (a_users db)"

definition find_user :: "string \<Rightarrow> AuthDB \<Rightarrow> user_row option" where
  "find_user uid db = find (\<lambda>r. ur_id r = uid) (a_users db)"

definition Authenticate :: "auth_env \<Rightarrow> string \<Rightarrow> string \<Rightarrow> AuthDB \<Rightarrow> auth_error + User" where
  "Authenticate env username plain db = (case find_username username db of
     None \<Rightarrow> Inl ErrInvalidSecret
   | Some r \<Rightarrow> let u = scan_user r in
       if \<not> VerifyPassword env (u_PasswordHash u) plain then Inl ErrInvalidSecret
       else if u_Disabled u then Inl ErrUserDisabled
       else Inr u)"

definition GetByID :: "string \<Rightarrow> AuthDB \<Rightarrow> auth_error + User" where
  "GetByID uid db = (case find_user uid db of None \<Rightarrow> Inl ErrUserNotFound | Some r \<Rightarrow> Inr (scan_user r))"

definition ListUsers :: "int \<Rightarrow> int \<Rightarrow> AuthDB \<Rightarrow> User list" where
  "ListUsers limit offset db =
     (let limit = (if limit \<le> 0 then 100 else limit); offset = (if offset < 0 then 0 else offset)
      in map scan_user (take (nat limit) (drop (nat offset) (sort_key ur_username (a_users db)))))"

definition DeleteUser :: "string \<Rightarrow> AuthDB \<Rightarrow> auth_error + AuthDB" where
  "DeleteUser uid db =
     (if trim_space uid = [] then Inl ErrUserNotFound
      else if length (filter (\<lambda>r. ur_id r = uid) (a_users db)) \<noteq> 1 then Inl ErrUserNotFound
      else Inr (delete_user_rows uid db))"

text \<open>An UPDATE of one user; anything but one affected row is reported as an unknown user.\<close>

definition update_user :: "string \<Rightarrow> (user_row \<Rightarrow> user_row) \<Rightarrow> AuthDB \<Rightarrow> auth_error + AuthDB" where
  "update_user uid f db = (case sql_update (\<lambda>r. ur_id r = uid) f (a_users db) of
     (n, rows) \<Rightarrow> if n \<noteq> 1 then Inl ErrUserNotFound else Inr (db\<lparr>a_users := rows\<rparr>))"

definition SetForcePasswordChange :: "string \<Rightarrow> bool \<Rightarrow> AuthDB \<Rightarrow> auth_error + AuthDB" where
  "SetForcePasswordChange uid force db =
     (if trim_space uid = [] then Inl ErrUserNotFound
      else update_user uid (\<lambda>r. r\<lparr>ur_force_password_change := flag force\<rparr>) db)"

definition supportedUILocales :: "string list" where
  "supportedUILocales = [[], ''en'', ''ja'']"

definition NormalizeUILocale :: "string \<Rightarrow> auth_error + string" where
  "NormalizeUILocale locale = (let loc = to_lower (trim_space locale) in
     if loc \<notin> set supportedUILocales then Inl ErrInvalidLocale else Inr loc)"

definition UpdateUsername :: "string \<Rightarrow> string \<Rightarrow> AuthDB \<Rightarrow> auth_error + AuthDB" where
  "UpdateUsername userID username db =
     (let uid = trim_space userID; name = trim_space username in
      if uid = [] \<or> name = [] then Inl ErrIDOrUsernameEmpty
      else if length name > 64 then Inl ErrIDOrUsernameEmpty
      else if length (filter (\<lambda>r. ur_username r = name \<and> ur_id r \<noteq> uid) (a_users db)) > 0 then Inl ErrUserExists
      else update_user uid (\<lambda>r. r\<lparr>ur_username := name\<rparr>) db)"

definition SetDisabled :: "string \<Rightarrow> bool \<Rightarrow> AuthDB \<Rightarrow> auth_error + AuthDB" where
  "SetDisabled uid disabled db =
     (if trim_space uid = [] then Inl ErrUserNotFound
      else update_user uid (\<lambda>r. r\<lparr>ur_disabled := flag disabled\<rparr>) db)"

definition UpdateRole :: "string \<Rightarrow> string \<Rightarrow> AuthDB \<Rightarrow> auth_error + AuthDB" where
  "UpdateRole uid role db =
     (if trim_space uid = [] then Inl ErrUserNotFound
      else if role \<noteq> RoleAdmin \<and> role \<noteq> RoleUser then Inl ErrInvalidRole
      else update_user uid (\<lambda>r. r\<lparr>ur_role := role\<rparr>) db)"

definition UpdateLocale :: "string \<Rightarrow> string \<Rightarrow> AuthDB \<Rightarrow> auth_error + AuthDB" where
  "UpdateLocale uid locale db =
     (if trim_space uid = [] then Inl ErrUserNotFound
      else case NormalizeUILocale locale of Inl e \<Rightarrow> Inl e
        | Inr loc \<Rightarrow> update_user uid (\<lambda>r. r\<lparr>ur_locale := loc\<rparr>) db)"

definition maxUserTagLen :: nat where "maxUserTagLen = 64"

definition validateUserTag :: "auth_env \<Rightarrow> string \<Rightarrow> auth_error option" where
  "validateUserTag env tag =
     (if tag = [] \<or> length tag > maxUserTagLen then Some ErrUserTagLength
      else if list_all (\<lambda>r. if r < 128 then id_char (char_of r) else ae_letter_number env r) (runes tag) then None
      else Some ErrUserTagChars)"

definition TagsForUser :: "string \<Rightarrow> AuthDB \<Rightarrow> string list" where
  "TagsForUser uid db = sort [tag. (u, tag) \<leftarrow> db_user_tags (a_access db), u = uid]"

text \<open>
  Replacing the tags is a DELETE followed by one INSERT per tag, outside a transaction: a failing
  INSERT leaves what the earlier statements did.
\<close>

fun insert_user_tags :: "string \<Rightarrow> string list \<Rightarrow> (string \<times> string) list \<Rightarrow> auth_error option \<times> (string \<times> string) list" where
  "insert_user_tags uid [] tt = (None, tt)"
| "insert_user_tags uid (t # ts) tt =
     (if (uid, t) \<in> set tt then (Some ErrConstraint, tt) else insert_user_tags uid ts (tt @ [(uid, t)]))"

definition SetUserTags :: "auth_env \<Rightarrow> string \<Rightarrow> string list \<Rightarrow> AuthDB \<Rightarrow> auth_error option \<times> AuthDB" where
  "SetUserTags env uid tags db =
     (if uid = [] then (Some ErrUserNotFound, db)
      else case find (\<lambda>t. validateUserTag env t \<noteq> None) tags of
        Some t \<Rightarrow> (validateUserTag env t, db)
      | None \<Rightarrow>
        if \<not> user_exists uid db then (Some ErrUserNotFound, db)
        else case insert_user_tags uid tags (filter (\<lambda>(u, _). u \<noteq> uid) (db_user_tags (a_access db))) of
          (e, tt) \<Rightarrow> (e, db\<lparr>a_access := (a_access db)\<lparr>db_user_tags := tt\<rparr>\<rparr>))"

definition UpdatePassword :: "auth_env \<Rightarrow> string \<Rightarrow> string \<Rightarrow> string \<Rightarrow> string \<Rightarrow> AuthDB \<Rightarrow> auth_error + AuthDB" where
  "UpdatePassword env salt uid current new db =
     (case ValidatePassword env new of Some e \<Rightarrow> Inl e
      | None \<Rightarrow>
        if current = new then Inl ErrPasswordUnchanged
        else case GetByID uid db of Inl e \<Rightarrow> Inl e
        | Inr u \<Rightarrow>
          if \<not> VerifyPassword env (u_PasswordHash u) current then Inl ErrWrongPassword
          else case HashPassword env salt new of Inl e \<Rightarrow> Inl e
          | Inr h \<Rightarrow> update_user uid (\<lambda>r. r\<lparr>ur_password_hash := h\<rparr>) db)"

subsection \<open>SSH public keys\<close>

definition AddPublicKey :: "auth_env \<Rightarrow> string \<Rightarrow> string \<Rightarrow> instant \<Rightarrow> AuthDB \<Rightarrow> auth_error + int \<times> AuthDB" where
  "AddPublicKey env uid keyLine now db =
     (let keyLine = trim_space keyLine in
      if keyLine = [] then Inl ErrInvalidPublicKey
      else if ae_parse_key env keyLine = None then Inl ErrInvalidPublicKey
      else if \<not> user_exists uid db then Inl ErrUserNotFound
      else Inr (a_next_key db, db\<lparr>
        a_keys := a_keys db @ [\<lparr>uk_ID = a_next_key db, uk_UserID = uid, uk_KeyLine = keyLine, uk_CreatedAt = now\<rparr>],
        a_next_key := a_next_key db + 1\<rparr>))"

definition ListPublicKeys :: "string \<Rightarrow> AuthDB \<Rightarrow> UserSSHKey list" where
  "ListPublicKeys uid db = sort_key uk_ID (filter (\<lambda>k. uk_UserID k = uid) (a_keys db))"

definition DeletePublicKey :: "string \<Rightarrow> int \<Rightarrow> AuthDB \<Rightarrow> auth_error + AuthDB" where
  "DeletePublicKey uid kid db = (case sql_delete (\<lambda>k. uk_UserID k = uid \<and> uk_ID k = kid) (a_keys db) of
     (n, rows) \<Rightarrow> if n \<noteq> 1 then Inl ErrUserNotFound else Inr (db\<lparr>a_keys := rows\<rparr>))"

text \<open>The presented key is given by its wire form; \<open>force_password_change\<close> is not read here.\<close>

definition AuthenticateByPublicKey :: "auth_env \<Rightarrow> string \<Rightarrow> string option \<Rightarrow> AuthDB \<Rightarrow> auth_error + User" where
  "AuthenticateByPublicKey env username key db =
     (case key of None \<Rightarrow> Inl ErrInvalidSecret
      | Some keyMarshal \<Rightarrow>
        if username = [] then Inl ErrInvalidSecret
        else case find_username username db of None \<Rightarrow> Inl ErrInvalidSecret
        | Some r \<Rightarrow>
          let u = (scan_user r)\<lparr>u_ForcePasswordChange := False\<rparr> in
          case find (\<lambda>k. ae_parse_key env (uk_KeyLine k) = Some keyMarshal)
                 (filter (\<lambda>k. uk_UserID k = u_ID u) (a_keys db)) of
            None \<Rightarrow> Inl ErrInvalidSecret
          | Some _ \<Rightarrow> if u_Disabled u then Inl ErrUserDisabled else Inr u)"

subsection \<open>The session store\<close>

record LoginSession =
  s_ID :: string
  s_UserID :: string
  s_CreatedAt :: instant
  s_ExpiresAt :: instant

definition hashSessionToken :: "auth_env \<Rightarrow> string \<Rightarrow> string" where
  "hashSessionToken env token = ae_sha256hex env token"

definition ses_Create :: "auth_env \<Rightarrow> duration \<Rightarrow> string \<Rightarrow> string \<Rightarrow> instant \<Rightarrow> AuthDB \<Rightarrow> auth_error + LoginSession \<times> AuthDB" where
  "ses_Create env ttl raw userID now db =
     (if userID = [] then Inl ErrUserIDEmpty
      else let hashed = hashSessionToken env raw; expires = now + ttl in
        if hashed \<in> set (map se_id (a_sessions db)) \<or> \<not> user_exists userID db then Inl ErrConstraint
        else Inr (\<lparr>s_ID = raw, s_UserID = userID, s_CreatedAt = now, s_ExpiresAt = expires\<rparr>,
          db\<lparr>a_sessions := a_sessions db @ [\<lparr>se_id = hashed, se_user_id = userID, se_created_at = now, se_expires_at = expires\<rparr>]\<rparr>))"

definition ses_Delete :: "auth_env \<Rightarrow> string \<Rightarrow> AuthDB \<Rightarrow> AuthDB" where
  "ses_Delete env rawToken db =
     (if rawToken = [] then db
      else db\<lparr>a_sessions := filter (\<lambda>r. se_id r \<noteq> hashSessionToken env rawToken) (a_sessions db)\<rparr>)"

definition ses_Get :: "auth_env \<Rightarrow> string \<Rightarrow> instant \<Rightarrow> AuthDB \<Rightarrow> (auth_error + LoginSession) \<times> AuthDB" where
  "ses_Get env rawToken now db =
     (if rawToken = [] then (Inl ErrSessionNotFound, db)
      else case find (\<lambda>r. se_id r = hashSessionToken env rawToken) (a_sessions db) of
        None \<Rightarrow> (Inl ErrSessionNotFound, db)
      | Some r \<Rightarrow> if now > se_expires_at r then (Inl ErrSessionNotFound, ses_Delete env rawToken db)
          else (Inr \<lparr>s_ID = rawToken, s_UserID = se_user_id r, s_CreatedAt = se_created_at r,
                  s_ExpiresAt = se_expires_at r\<rparr>, db))"

definition DeleteAllForUser :: "auth_env \<Rightarrow> string \<Rightarrow> string \<Rightarrow> AuthDB \<Rightarrow> auth_error + AuthDB" where
  "DeleteAllForUser env userID keepToken db =
     (if userID = [] then Inl ErrUserIDEmpty
      else if keepToken = [] then Inr (db\<lparr>a_sessions := filter (\<lambda>r. se_user_id r \<noteq> userID) (a_sessions db)\<rparr>)
      else Inr (db\<lparr>a_sessions := filter (\<lambda>r. \<not> (se_user_id r = userID \<and> se_id r \<noteq> hashSessionToken env keepToken))
             (a_sessions db)\<rparr>))"

subsection \<open>Laws of the primitives, and an instance for the witnesses\<close>

text \<open>bcrypt's documented behaviour: a generated hash is not empty and accepts its password and no other.\<close>

definition bcrypt_law :: "auth_env \<Rightarrow> bool" where
  "bcrypt_law env = (\<forall>cost salt p h. ae_bcrypt_generate env cost salt p = Some h \<longrightarrow>
     h \<noteq> [] \<and> (\<forall>q. ae_bcrypt_compare env h q = (q = p)))"

definition demo_env :: auth_env where
  "demo_env = \<lparr>ae_bcrypt_generate = (\<lambda>cost salt p. Some (''$'' @ p)), ae_bcrypt_compare = (\<lambda>h p. h = ''$'' @ p),
     ae_bcrypt_cost = [], ae_sha256hex = (\<lambda>s. ''#'' @ s), ae_parse_key = Some, ae_rune_class = (\<lambda>_. Other),
     ae_letter_number = (\<lambda>_. False)\<rparr>"

lemma demo_bcrypt: "bcrypt_law demo_env"
  by (auto simp: bcrypt_law_def demo_env_def)

definition demo_user :: "string \<Rightarrow> string \<Rightarrow> string \<Rightarrow> int \<Rightarrow> int \<Rightarrow> user_row" where
  "demo_user u pw role fc dis = \<lparr>ur_id = u, ur_username = u, ur_password_hash = ''$'' @ pw, ur_role = role, ur_locale = [],
     ur_force_password_change = fc, ur_disabled = dis\<rparr>"

definition demo_session :: "string \<Rightarrow> string \<Rightarrow> instant \<Rightarrow> session_row" where
  "demo_session t u ex = \<lparr>se_id = ''#'' @ t, se_user_id = u, se_created_at = 0, se_expires_at = ex\<rparr>"

text \<open>
  An administrator, a user, a disabled user with a surviving session, and a user who must change the
  password; each session token is \<open>s-\<close> and the name, valid up to instant 100.
\<close>

definition demo_accounts :: AuthDB where
  "demo_accounts = \<lparr>a_users = [demo_user ''alice'' ''Alice-pw1'' RoleAdmin 0 0, demo_user ''bob'' ''Bob-pass1'' RoleUser 0 0,
       demo_user ''carol'' ''Carol-pw1'' RoleUser 0 1, demo_user ''dave'' ''Dave-pass1'' RoleUser 1 0],
     a_sessions = [demo_session ''s-alice'' ''alice'' (time_unix 100), demo_session ''s-bob'' ''bob'' (time_unix 100),
       demo_session ''s-carol'' ''carol'' (time_unix 100), demo_session ''s-dave'' ''dave'' (time_unix 100)],
     a_keys = [], a_next_key = 1,
     a_tokens = [\<lparr>ak_id = ''k1'', ak_user_id = ''bob'', ak_name = ''ci'', ak_token_hash = ''#vtx_0123456789abcdef'', ak_prefix = ''vtx_01234567'',
       ak_scope = ''read'', ak_created_at = 0, ak_expires_at = None, ak_last_used_at = None, ak_revoked_at = None\<rparr>],
     a_totp = [], a_requests = [], a_access = demo_db\<rparr>"

end
