(* ===== verification/Auth_Factors.thy ===== *)
theory Auth_Factors
  imports Auth_Store
begin

text \<open>
  The second factor (\<open>src/internal/auth/totp.go\<close>) and API tokens
  (\<open>src/internal/auth/api_tokens.go\<close>) over the account tables.  The one-time-password library
  is the pair of arguments \<open>generated\<close> (the secret and URL it drew, if any) and \<open>otp_ok\<close>
  (whether it accepts a code for a secret at an instant, one period of skew either side).
\<close>

datatype totp_error = ErrTOTPNotEnabled | ErrTOTPAlreadyEnabled | ErrTOTPNoPending | ErrTOTPInvalidCode
  | ErrTOTPUser auth_error | ErrTOTPSecret secret_error | ErrTOTPGenerate

type_synonym otp_check = "string \<Rightarrow> string \<Rightarrow> instant \<Rightarrow> bool"

record totp_env =
  tp_auth :: auth_env
  tp_crypto :: crypto
  tp_key :: string
  tp_otp_ok :: otp_check

record TOTPStatus =
  ts_Enabled :: bool
  ts_Pending :: bool
  ts_RecoveryCodesLeft :: nat
  ts_ConfirmedAt :: instant

definition recoveryCodeCount :: nat where "recoveryCodeCount = 8"

definition find_totp :: "string \<Rightarrow> AuthDB \<Rightarrow> totp_row option" where
  "find_totp userID db = find (\<lambda>r. to_user_id r = userID) (a_totp db)"

definition sealSecret :: "totp_env \<Rightarrow> string \<Rightarrow> string \<Rightarrow> totp_error + string" where
  "sealSecret env nonce secretB32 = (if tp_key env = [] then Inr secretB32
     else case Encrypt (tp_crypto env) nonce (tp_key env) secretB32 of Inl e \<Rightarrow> Inl (ErrTOTPSecret e) | Inr c \<Rightarrow> Inr c)"

definition openSecret :: "totp_env \<Rightarrow> string \<Rightarrow> totp_error + string" where
  "openSecret env stored = (if tp_key env = [] then Inr stored
     else case Decrypt (tp_crypto env) (tp_key env) stored of Inl e \<Rightarrow> Inl (ErrTOTPSecret e) | Inr p \<Rightarrow> Inr p)"

definition totp_Status :: "string \<Rightarrow> AuthDB \<Rightarrow> TOTPStatus" where
  "totp_Status userID db = (case find_totp userID db of
     None \<Rightarrow> \<lparr>ts_Enabled = False, ts_Pending = False, ts_RecoveryCodesLeft = 0, ts_ConfirmedAt = 0\<rparr>
   | Some r \<Rightarrow> \<lparr>ts_Enabled = (to_enabled r \<noteq> 0), ts_Pending = (to_enabled r = 0),
       ts_RecoveryCodesLeft = length (to_recovery_codes r),
       ts_ConfirmedAt = (case to_confirmed_at r of Some t \<Rightarrow> t | None \<Rightarrow> 0)\<rparr>)"

definition totp_Enabled :: "string \<Rightarrow> AuthDB \<Rightarrow> bool" where
  "totp_Enabled userID db = ts_Enabled (totp_Status userID db)"

definition put_totp :: "totp_row \<Rightarrow> AuthDB \<Rightarrow> AuthDB" where
  "put_totp r db = db\<lparr>a_totp := (if find_totp (to_user_id r) db = None then a_totp db @ [r]
     else map (\<lambda>x. if to_user_id x = to_user_id r then r else x) (a_totp db))\<rparr>"

definition BeginEnrolment ::
  "totp_env \<Rightarrow> (string \<times> string) option \<Rightarrow> string \<Rightarrow> string \<Rightarrow> AuthDB \<Rightarrow> totp_error + (string \<times> string) \<times> AuthDB" where
  "BeginEnrolment env generated nonce userID db =
     (if trim_space userID = [] then Inl (ErrTOTPUser ErrUserNotFound)
      else if totp_Enabled userID db then Inl ErrTOTPAlreadyEnabled
      else case generated of None \<Rightarrow> Inl ErrTOTPGenerate
      | Some (url, secretB32) \<Rightarrow>
        (case sealSecret env nonce secretB32 of Inl e \<Rightarrow> Inl e
         | Inr enc \<Rightarrow>
           if \<not> user_exists userID db then Inl (ErrTOTPUser ErrConstraint)
           else Inr ((url, secretB32), put_totp \<lparr>to_user_id = userID, to_secret_enc = enc, to_enabled = 0,
                  to_recovery_codes = [], to_confirmed_at = None\<rparr> db)))"

definition loadSecret :: "totp_env \<Rightarrow> string \<Rightarrow> AuthDB \<Rightarrow> totp_error + string \<times> bool \<times> string list" where
  "loadSecret env userID db = (case find_totp userID db of None \<Rightarrow> Inl ErrTOTPNotEnabled
     | Some r \<Rightarrow> (case openSecret env (to_secret_enc r) of Inl e \<Rightarrow> Inl e
         | Inr s \<Rightarrow> Inr (s, to_enabled r \<noteq> 0, to_recovery_codes r)))"

definition remove_char :: "char \<Rightarrow> string \<Rightarrow> string" where
  "remove_char c s = filter (\<lambda>x. x \<noteq> c) s"

definition validateCode :: "totp_env \<Rightarrow> string \<Rightarrow> string \<Rightarrow> instant \<Rightarrow> bool" where
  "validateCode env code secretB32 now =
     (let code = remove_char (CHR '' '') (trim_space code) in
      if code = [] then False else tp_otp_ok env code secretB32 now)"

definition recovery_alphabet :: string where
  "recovery_alphabet = ''abcdefghjkmnpqrstuvwxyz23456789''"

definition normRecovery :: "string \<Rightarrow> string" where
  "normRecovery code = remove_char (CHR '' '') (remove_char (CHR ''-'') (to_lower (trim_space code)))"

definition hashRecoveryCode :: "totp_env \<Rightarrow> string \<Rightarrow> string" where
  "hashRecoveryCode env code = ae_sha256hex (tp_auth env) (normRecovery code)"

text \<open>The random source \<open>rnd i j\<close> is byte \<open>j\<close> of the buffer drawn for code \<open>i\<close>.\<close>

definition recoveryCode :: "string \<Rightarrow> string" where
  "recoveryCode buf = (let cs = map (\<lambda>x. recovery_alphabet ! (byte x mod length recovery_alphabet)) buf
     in take 5 cs @ (if length cs > 5 then ''-'' else []) @ drop 5 cs)"

definition newRecoveryCodes :: "totp_env \<Rightarrow> (nat \<Rightarrow> nat \<Rightarrow> char) \<Rightarrow> string list \<times> string list" where
  "newRecoveryCodes env rnd = (let plain = map (\<lambda>i. recoveryCode (map (rnd i) [0..<10])) [0..<recoveryCodeCount] in (plain, map (hashRecoveryCode env) plain))"

definition totp_Confirm ::
  "totp_env \<Rightarrow> (nat \<Rightarrow> nat \<Rightarrow> char) \<Rightarrow> string \<Rightarrow> string \<Rightarrow> instant \<Rightarrow> AuthDB \<Rightarrow> totp_error + string list \<times> AuthDB" where
  "totp_Confirm env rnd userID code now db =
     (case loadSecret env userID db of
        Inl e \<Rightarrow> Inl (if e = ErrTOTPNotEnabled then ErrTOTPNoPending else e)
      | Inr (secretB32, enabled, _) \<Rightarrow>
        if enabled then Inl ErrTOTPAlreadyEnabled
        else if \<not> validateCode env code secretB32 now then Inl ErrTOTPInvalidCode
        else case newRecoveryCodes env rnd of (plain, hashes) \<Rightarrow>
          (case sql_update (\<lambda>r. to_user_id r = userID \<and> to_enabled r = 0)
                  (\<lambda>r. r\<lparr>to_enabled := 1, to_recovery_codes := hashes, to_confirmed_at := Some now\<rparr>) (a_totp db) of
             (n, rows) \<Rightarrow> if n \<noteq> 1 then Inl ErrTOTPNoPending else Inr (plain, db\<lparr>a_totp := rows\<rparr>)))"

text \<open>
  \<open>Verify\<close> reads the row, decides, and for a recovery code writes the remaining codes back under
  the condition that the column still holds what was read.  The two statements are separate
  definitions so that concurrent calls can interleave between them.
\<close>

fun remove_first :: "string \<Rightarrow> string list \<Rightarrow> string list option" where
  "remove_first h [] = None"
| "remove_first h (c # cs) = (if c = h then Some cs else map_option (Cons c) (remove_first h cs))"

definition verify_read :: "totp_env \<Rightarrow> string \<Rightarrow> string \<Rightarrow> instant \<Rightarrow> AuthDB \<Rightarrow> totp_error + (string list \<times> string list) option" where
  "verify_read env userID code now db =
     (case loadSecret env userID db of Inl e \<Rightarrow> Inl e
      | Inr (secretB32, enabled, codes) \<Rightarrow>
        if \<not> enabled then Inl ErrTOTPNotEnabled
        else if validateCode env code secretB32 now then Inr None
        else case remove_first (hashRecoveryCode env code) codes of
          None \<Rightarrow> Inl ErrTOTPInvalidCode
        | Some remaining \<Rightarrow> Inr (Some (codes, remaining)))"

definition verify_write :: "string \<Rightarrow> string list \<times> string list \<Rightarrow> AuthDB \<Rightarrow> totp_error + AuthDB" where
  "verify_write userID p db = (case p of (codes, remaining) \<Rightarrow>
     (case sql_update (\<lambda>r. to_user_id r = userID \<and> to_recovery_codes r = codes)
             (\<lambda>r. r\<lparr>to_recovery_codes := remaining\<rparr>) (a_totp db) of
        (n, rows) \<Rightarrow> if n \<noteq> 1 then Inl ErrTOTPInvalidCode else Inr (db\<lparr>a_totp := rows\<rparr>)))"

definition totp_Verify :: "totp_env \<Rightarrow> string \<Rightarrow> string \<Rightarrow> instant \<Rightarrow> AuthDB \<Rightarrow> totp_error + bool \<times> AuthDB" where
  "totp_Verify env userID code now db =
     (case verify_read env userID code now db of Inl e \<Rightarrow> Inl e
      | Inr None \<Rightarrow> Inr (False, db)
      | Inr (Some p) \<Rightarrow> (case verify_write userID p db of Inl e \<Rightarrow> Inl e | Inr db' \<Rightarrow> Inr (True, db')))"

definition totp_Disable :: "string \<Rightarrow> AuthDB \<Rightarrow> totp_error + AuthDB" where
  "totp_Disable userID db = (case sql_delete (\<lambda>r. to_user_id r = userID) (a_totp db) of
     (n, rows) \<Rightarrow> if n = 0 then Inl ErrTOTPNotEnabled else Inr (db\<lparr>a_totp := rows\<rparr>))"

subsection \<open>API tokens\<close>

datatype token_error = ErrAPITokenNotFound | ErrAPITokenInvalid | ErrAPITokenLimit | ErrAPITokenScope
  | ErrAPITokenStore auth_error

definition APITokenPrefix :: string where "APITokenPrefix = ''vtx_''"
definition APITokenScopeRead :: string where "APITokenScopeRead = ''read''"
definition APITokenScopeWrite :: string where "APITokenScopeWrite = ''write''"
definition apiTokenMaxPerUser :: nat where "apiTokenMaxPerUser = 50"

record APIToken =
  tk_ID :: string
  tk_UserID :: string
  tk_Name :: string
  tk_Prefix :: string
  tk_Scope :: string
  tk_CreatedAt :: instant
  tk_ExpiresAt :: "instant option"
  tk_LastUsedAt :: "instant option"
  tk_RevokedAt :: "instant option"

definition tok_Active :: "instant \<Rightarrow> APIToken \<Rightarrow> bool" where
  "tok_Active now t = (if tk_RevokedAt t \<noteq> None then False
     else case tk_ExpiresAt t of None \<Rightarrow> True | Some e \<Rightarrow> if \<not> now < e then False else True)"

definition HashAPIToken :: "auth_env \<Rightarrow> string \<Rightarrow> string" where
  "HashAPIToken env plain = ae_sha256hex env plain"

text \<open>\<open>RawURLEncoding\<close> differs from the standard alphabet in its last two digits.\<close>

definition b64_url :: "string \<Rightarrow> string" where
  "b64_url s = map (\<lambda>c. if c = CHR ''+'' then CHR ''-'' else if c = CHR ''/'' then CHR ''_'' else c) (b64_encode s)"

definition tok_Create ::
  "auth_env \<Rightarrow> string \<Rightarrow> string \<Rightarrow> string \<Rightarrow> string \<Rightarrow> string \<Rightarrow> instant option \<Rightarrow> instant \<Rightarrow> AuthDB
     \<Rightarrow> token_error + (APIToken \<times> string) \<times> AuthDB" where
  "tok_Create env raw idRaw userID name scope expiresAt now db =
     (let userID = trim_space userID; name = trim_space name in
      if userID = [] \<or> name = [] then Inl (ErrAPITokenStore ErrIDOrUsernameEmpty)
      else if scope \<noteq> APITokenScopeRead \<and> scope \<noteq> APITokenScopeWrite then Inl ErrAPITokenScope
      else if length (filter (\<lambda>r. ak_user_id r = userID \<and> ak_revoked_at r = None) (a_tokens db)) \<ge> apiTokenMaxPerUser
        then Inl ErrAPITokenLimit
      else let plain = APITokenPrefix @ b64_url raw; i = b64_url idRaw; h = HashAPIToken env plain in
        if i \<in> set (map ak_id (a_tokens db)) \<or> h \<in> set (map ak_token_hash (a_tokens db)) \<or> \<not> user_exists userID db
        then Inl (ErrAPITokenStore ErrConstraint)
        else Inr ((\<lparr>tk_ID = i, tk_UserID = userID, tk_Name = name, tk_Prefix = take 12 plain, tk_Scope = scope,
                   tk_CreatedAt = now, tk_ExpiresAt = expiresAt, tk_LastUsedAt = None, tk_RevokedAt = None\<rparr>, plain),
             db\<lparr>a_tokens := a_tokens db @ [\<lparr>ak_id = i, ak_user_id = userID, ak_name = name, ak_token_hash = h,
                  ak_prefix = take 12 plain, ak_scope = scope, ak_created_at = unix now,
                  ak_expires_at = map_option unix expiresAt, ak_last_used_at = None, ak_revoked_at = None\<rparr>]\<rparr>))"

definition scanAPIToken :: "token_row \<Rightarrow> APIToken" where
  "scanAPIToken r = \<lparr>tk_ID = ak_id r, tk_UserID = ak_user_id r, tk_Name = ak_name r, tk_Prefix = ak_prefix r,
     tk_Scope = ak_scope r, tk_CreatedAt = time_unix (ak_created_at r),
     tk_ExpiresAt = map_option time_unix (ak_expires_at r), tk_LastUsedAt = map_option time_unix (ak_last_used_at r),
     tk_RevokedAt = map_option time_unix (ak_revoked_at r)\<rparr>"

definition tok_Authenticate :: "auth_env \<Rightarrow> string \<Rightarrow> instant \<Rightarrow> AuthDB \<Rightarrow> token_error + APIToken" where
  "tok_Authenticate env plain now db =
     (let plain = trim_space plain in
      if \<not> has_prefix plain APITokenPrefix \<or> length plain < 20 then Inl ErrAPITokenInvalid
      else case find (\<lambda>r. ak_token_hash r = HashAPIToken env plain) (a_tokens db) of
        None \<Rightarrow> Inl ErrAPITokenInvalid
      | Some r \<Rightarrow> let t = scanAPIToken r in if \<not> tok_Active now t then Inl ErrAPITokenInvalid else Inr t)"

definition tok_Touch :: "string \<Rightarrow> instant \<Rightarrow> AuthDB \<Rightarrow> AuthDB" where
  "tok_Touch i now db = db\<lparr>a_tokens := snd (sql_update (\<lambda>r. ak_id r = i) (\<lambda>r. r\<lparr>ak_last_used_at := Some (unix now)\<rparr>) (a_tokens db))\<rparr>"

definition tok_ListForUser :: "string \<Rightarrow> AuthDB \<Rightarrow> APIToken list" where
  "tok_ListForUser userID db = map scanAPIToken
     (sort_key (\<lambda>r. (- ak_created_at r, ak_id r)) (filter (\<lambda>r. ak_user_id r = userID) (a_tokens db)))"

definition tok_Revoke :: "string \<Rightarrow> string \<Rightarrow> instant \<Rightarrow> AuthDB \<Rightarrow> token_error + AuthDB" where
  "tok_Revoke userID i now db =
     (case sql_update (\<lambda>r. ak_id r = i \<and> ak_revoked_at r = None \<and> (userID \<noteq> [] \<longrightarrow> ak_user_id r = userID))
             (\<lambda>r. r\<lparr>ak_revoked_at := Some (unix now)\<rparr>) (a_tokens db) of
        (n, rows) \<Rightarrow> if n \<noteq> 1 then Inl ErrAPITokenNotFound else Inr (db\<lparr>a_tokens := rows\<rparr>))"

end
