(* ===== verification/Access_Requests.thy ===== *)
theory Access_Requests
  imports Auth_Factors
begin

text \<open>
  The store of access requests (\<open>src/internal/access/requests.go\<close>) and, over all operations of
  the account stores, the consistency of the account tables.
\<close>

datatype request_error = ErrRequestNotFound | ErrRequestNotPending | ErrRequestInvalid
  | ErrRequestGroup access_error | ErrRequestStore auth_error

type_synonym AccessRequestStatus = string

definition RequestPending :: AccessRequestStatus where "RequestPending = ''pending''"
definition RequestApproved :: AccessRequestStatus where "RequestApproved = ''approved''"
definition RequestDenied :: AccessRequestStatus where "RequestDenied = ''denied''"
definition RequestCancelled :: AccessRequestStatus where "RequestCancelled = ''cancelled''"

record AccessRequest =
  ar_ID :: string
  ar_UserID :: string
  ar_GroupID :: string
  ar_Reason :: string
  ar_DurationSeconds :: int
  ar_Status :: AccessRequestStatus
  ar_CreatedAt :: instant
  ar_DecidedAt :: "instant option"
  ar_DecidedBy :: string
  ar_DecisionNote :: string
  ar_ExpiresAt :: "instant option"

record AccessRequestFilter =
  af_UserID :: string
  af_Status :: AccessRequestStatus
  af_Limit :: int

definition req_Create :: "AccessRequest \<Rightarrow> instant \<Rightarrow> AuthDB \<Rightarrow> request_error + AuthDB" where
  "req_Create req now db =
     (if trim_space (ar_ID req) = [] \<or> trim_space (ar_UserID req) = [] then Inl ErrRequestInvalid
      else case validateGroupID (ar_GroupID req) of Some e \<Rightarrow> Inl (ErrRequestGroup e)
      | None \<Rightarrow>
        let created = (if is_zero (ar_CreatedAt req) then now else ar_CreatedAt req);
            status = (if ar_Status req = [] then RequestPending else ar_Status req)
        in if ar_ID req \<in> set (map rr_id (a_requests db)) \<or> \<not> user_exists (ar_UserID req) db
           then Inl (ErrRequestStore ErrConstraint)
           else Inr (db\<lparr>a_requests := a_requests db @ [
             \<lparr>rr_id = ar_ID req, rr_user_id = ar_UserID req, rr_group_id = ar_GroupID req, rr_reason = ar_Reason req,
              rr_duration_seconds = ar_DurationSeconds req, rr_status = status, rr_created_at = unix created,
              rr_decided_at = None, rr_decided_by = None, rr_decision_note = None, rr_expires_at = None\<rparr>]\<rparr>))"

definition ns_string :: "string option \<Rightarrow> string" where
  "ns_string s = (case s of Some x \<Rightarrow> x | None \<Rightarrow> [])"

definition scanAccessRequest :: "request_row \<Rightarrow> AccessRequest" where
  "scanAccessRequest r = \<lparr>ar_ID = rr_id r, ar_UserID = rr_user_id r, ar_GroupID = rr_group_id r, ar_Reason = rr_reason r,
     ar_DurationSeconds = rr_duration_seconds r, ar_Status = rr_status r, ar_CreatedAt = time_unix (rr_created_at r),
     ar_DecidedAt = map_option time_unix (rr_decided_at r), ar_DecidedBy = ns_string (rr_decided_by r),
     ar_DecisionNote = ns_string (rr_decision_note r), ar_ExpiresAt = map_option time_unix (rr_expires_at r)\<rparr>"

definition find_request :: "string \<Rightarrow> AuthDB \<Rightarrow> request_row option" where
  "find_request i db = find (\<lambda>r. rr_id r = i) (a_requests db)"

definition req_Get :: "string \<Rightarrow> AuthDB \<Rightarrow> request_error + AccessRequest" where
  "req_Get i db = (case find_request i db of None \<Rightarrow> Inl ErrRequestNotFound | Some r \<Rightarrow> Inr (scanAccessRequest r))"

definition req_List :: "AccessRequestFilter \<Rightarrow> AuthDB \<Rightarrow> AccessRequest list" where
  "req_List f db =
     (let rows = filter (\<lambda>r. (af_UserID f \<noteq> [] \<longrightarrow> rr_user_id r = af_UserID f) \<and> (af_Status f \<noteq> [] \<longrightarrow> rr_status r = af_Status f))
                   (a_requests db);
          limit = (if af_Limit f \<le> 0 \<or> af_Limit f > 1000 then 200 else af_Limit f)
      in map scanAccessRequest (take (nat limit) (sort_key (\<lambda>r. (- rr_created_at r, rr_id r)) rows)))"

definition HasPending :: "string \<Rightarrow> string \<Rightarrow> AuthDB \<Rightarrow> bool" where
  "HasPending userID groupID db =
     (length (filter (\<lambda>r. rr_user_id r = userID \<and> rr_group_id r = groupID \<and> rr_status r = RequestPending) (a_requests db)) > 0)"

definition req_Decide ::
  "string \<Rightarrow> AccessRequestStatus \<Rightarrow> string \<Rightarrow> string \<Rightarrow> instant option \<Rightarrow> instant \<Rightarrow> AuthDB \<Rightarrow> request_error + AuthDB" where
  "req_Decide i status decidedBy note expiresAt now db =
     (case sql_update (\<lambda>r. rr_id r = i \<and> rr_status r = RequestPending)
             (\<lambda>r. r\<lparr>rr_status := status, rr_decided_at := Some (unix now), rr_decided_by := Some decidedBy,
                     rr_decision_note := Some note, rr_expires_at := map_option unix expiresAt\<rparr>) (a_requests db) of
        (n, rows) \<Rightarrow>
          if n \<noteq> 1 then (if req_Get i db = Inl ErrRequestNotFound then Inl ErrRequestNotFound else Inl ErrRequestNotPending)
          else Inr (db\<lparr>a_requests := rows\<rparr>))"

definition CountPending :: "AuthDB \<Rightarrow> nat" where
  "CountPending db = length (filter (\<lambda>r. rr_status r = RequestPending) (a_requests db))"

subsection \<open>All operations of the account stores\<close>

inductive auth_step :: "AuthDB \<Rightarrow> AuthDB \<Rightarrow> bool" where
  user_create: "CreateUser env salt uid nm pw role db = Inr (u, db') \<Longrightarrow> auth_step db db'"
| user_delete: "DeleteUser uid db = Inr db' \<Longrightarrow> auth_step db db'"
| user_force: "SetForcePasswordChange uid b db = Inr db' \<Longrightarrow> auth_step db db'"
| user_rename: "UpdateUsername uid nm db = Inr db' \<Longrightarrow> auth_step db db'"
| user_disable: "SetDisabled uid b db = Inr db' \<Longrightarrow> auth_step db db'"
| user_role: "UpdateRole uid role db = Inr db' \<Longrightarrow> auth_step db db'"
| user_locale: "UpdateLocale uid loc db = Inr db' \<Longrightarrow> auth_step db db'"
| user_tags: "auth_step db (snd (SetUserTags env uid tags db))"
| user_password: "UpdatePassword env salt uid old new db = Inr db' \<Longrightarrow> auth_step db db'"
| key_add: "AddPublicKey env uid line now db = Inr (k, db') \<Longrightarrow> auth_step db db'"
| key_delete: "DeletePublicKey uid kid db = Inr db' \<Longrightarrow> auth_step db db'"
| session_create: "ses_Create env ttl raw uid now db = Inr (s, db') \<Longrightarrow> auth_step db db'"
| session_get: "auth_step db (snd (ses_Get env raw now db))"
| session_delete: "auth_step db (ses_Delete env raw db)"
| session_revoke: "DeleteAllForUser env uid keep db = Inr db' \<Longrightarrow> auth_step db db'"
| totp_begin: "BeginEnrolment tenv gen nonce uid db = Inr (x, db') \<Longrightarrow> auth_step db db'"
| totp_confirm: "totp_Confirm tenv rnd uid code now db = Inr (codes, db') \<Longrightarrow> auth_step db db'"
| totp_use: "verify_write uid p db = Inr db' \<Longrightarrow> auth_step db db'"
| totp_disable: "totp_Disable uid db = Inr db' \<Longrightarrow> auth_step db db'"
| token_create: "tok_Create env raw idRaw uid nm scope ex now db = Inr (t, db') \<Longrightarrow> auth_step db db'"
| token_touch: "auth_step db (tok_Touch i now db)"
| token_revoke: "tok_Revoke uid i now db = Inr db' \<Longrightarrow> auth_step db db'"
| request_create: "req_Create req now db = Inr db' \<Longrightarrow> auth_step db db'"
| request_decide: "req_Decide i st who nt ex now db = Inr db' \<Longrightarrow> auth_step db db'"
| access_change: "access_step (a_access db) acc \<Longrightarrow> auth_step db (db\<lparr>a_access := acc\<rparr>)"

text \<open>
  Keys are unique, every dependent row names an existing user, roles are the two known ones, and the
  user identifiers access control refers to are those of the account table.
\<close>

definition users_inv :: "AuthDB \<Rightarrow> bool" where
  "users_inv db = (distinct (map ur_id (a_users db)) \<and> distinct (map ur_username (a_users db))
     \<and> (\<forall>r \<in> set (a_users db). ur_role r \<in> {RoleAdmin, RoleUser}))"

definition deps_inv :: "AuthDB \<Rightarrow> bool" where
  "deps_inv db = ((\<forall>r \<in> set (a_sessions db). user_exists (se_user_id r) db)
     \<and> (\<forall>r \<in> set (a_keys db). user_exists (uk_UserID r) db)
     \<and> (\<forall>r \<in> set (a_tokens db). user_exists (ak_user_id r) db)
     \<and> (\<forall>r \<in> set (a_totp db). user_exists (to_user_id r) db)
     \<and> (\<forall>r \<in> set (a_requests db). user_exists (rr_user_id r) db)
     \<and> (\<forall>(u, _) \<in> set (db_user_tags (a_access db)). user_exists u db))"

definition keys_inv :: "AuthDB \<Rightarrow> bool" where
  "keys_inv db = (distinct (map se_id (a_sessions db)) \<and> distinct (map uk_ID (a_keys db))
     \<and> (\<forall>k \<in> set (a_keys db). uk_ID k < a_next_key db)
     \<and> distinct (map ak_id (a_tokens db)) \<and> distinct (map ak_token_hash (a_tokens db))
     \<and> distinct (map to_user_id (a_totp db)) \<and> distinct (map rr_id (a_requests db))
     \<and> distinct (db_user_tags (a_access db)))"

definition auth_inv :: "AuthDB \<Rightarrow> bool" where
  "auth_inv db = (users_inv db \<and> deps_inv db \<and> keys_inv db
     \<and> db_users (a_access db) = map ur_id (a_users db) \<and> db_inv (a_access db))"

lemmas auth_inv_defs = auth_inv_def users_inv_def deps_inv_def keys_inv_def user_exists_def


subsection \<open>Every operation keeps the tables consistent\<close>

lemma auth_inv_users:
  assumes "auth_inv db" "map ur_id rows = map ur_id (a_users db)" "distinct (map ur_username rows)"
    and "\<forall>r \<in> set rows. ur_role r \<in> {RoleAdmin, RoleUser}"
  shows "auth_inv (db\<lparr>a_users := rows\<rparr>)"
proof -
  have "user_exists u (db\<lparr>a_users := rows\<rparr>) = user_exists u db" for u
    using assms(2) by (simp only: user_exists_def) simp
  then show ?thesis using assms by (simp add: auth_inv_def users_inv_def deps_inv_def keys_inv_def)
qed

lemma update_user_rows:
  assumes "update_user uid f db = Inr db'"
  shows "db' = db\<lparr>a_users := map (\<lambda>r. if ur_id r = uid then f r else r) (a_users db)\<rparr>"
    "length (filter (\<lambda>r. ur_id r = uid) (a_users db)) = 1"
  using assms by (auto simp: update_user_def sql_update_def split: if_splits)

text \<open>Updates that change neither identifiers nor usernames.\<close>

lemma auth_inv_update_user:
  assumes "auth_inv db" "update_user uid f db = Inr db'"
    and "\<And>r. ur_id (f r) = ur_id r" "\<And>r. ur_username (f r) = ur_username r"
    and "\<And>r. ur_role r \<in> {RoleAdmin, RoleUser} \<Longrightarrow> ur_role (f r) \<in> {RoleAdmin, RoleUser}"
  shows "auth_inv db'"
proof -
  have u: "users_inv db" using assms(1) by (simp add: auth_inv_def)
  have "map g (map (\<lambda>r. if ur_id r = uid then f r else r) (a_users db)) = map g (a_users db)"
    if "\<And>r. g (f r) = g r" for g :: "user_row \<Rightarrow> string"
    using that by simp
  note cols = this [of ur_id, OF assms(3)] this [of ur_username, OF assms(4)]
  show ?thesis unfolding update_user_rows(1) [OF assms(2)]
  proof (rule auth_inv_users [OF assms(1) cols(1)])
    show "distinct (map ur_username (map (\<lambda>r. if ur_id r = uid then f r else r) (a_users db)))"
      unfolding cols(2) using u by (simp add: users_inv_def)
    show "\<forall>r \<in> set (map (\<lambda>r. if ur_id r = uid then f r else r) (a_users db)). ur_role r \<in> {RoleAdmin, RoleUser}"
      using u assms(5) by (auto simp: users_inv_def)
  qed
qed

lemma distinct_map_change:
  assumes "distinct (map k xs)" "distinct (map g xs)" "\<forall>x \<in> set xs. k x \<noteq> a \<longrightarrow> g x \<noteq> v"
    and "\<And>x. g (f x) = v"
  shows "distinct (map g (map (\<lambda>x. if k x = a then f x else x) xs))"
  using assms(1-3)
proof (induction xs)
  case (Cons x xs)
  have rest: "g x' \<noteq> g x" "k x' \<noteq> k x" if "x' \<in> set xs" for x' using Cons.prems that by (auto simp: image_iff)
  have "map (\<lambda>x. if k x = a then f x else x) xs = xs" if "k x = a"
    using rest(2) that by (intro map_idI) auto
  then show ?case using Cons rest assms(4) by (cases "k x = a") (auto simp: image_iff)
qed simp

lemma auth_inv_rename:
  assumes "auth_inv db" "UpdateUsername userID username db = Inr db'"
  shows "auth_inv db'"
proof -
  define uid nm where "uid = trim_space userID" and "nm = trim_space username"
  have up: "update_user uid (\<lambda>r. r\<lparr>ur_username := nm\<rparr>) db = Inr db'"
    and free: "\<forall>r \<in> set (a_users db). ur_id r \<noteq> uid \<longrightarrow> ur_username r \<noteq> nm"
    using assms(2) by (auto simp: UpdateUsername_def Let_def uid_def nm_def filter_empty_conv split: if_splits)
  have u: "users_inv db" using assms(1) by (simp add: auth_inv_def)
  show ?thesis unfolding update_user_rows(1) [OF up]
  proof (rule auth_inv_users [OF assms(1)])
    show "distinct (map ur_username (map (\<lambda>r. if ur_id r = uid then r\<lparr>ur_username := nm\<rparr> else r) (a_users db)))"
      by (rule distinct_map_change [where v = nm]) (use u free in \<open>auto simp: users_inv_def\<close>)
  qed (use u in \<open>auto simp: users_inv_def\<close>)
qed

text \<open>Changes of the dependent tables.\<close>

lemma auth_inv_tables:
  assumes "auth_inv db" "deps_inv db'" "keys_inv db'" "a_users db' = a_users db"
    and "db_users (a_access db') = db_users (a_access db)" "db_inv (a_access db')"
  shows "auth_inv db'"
  using assms by (simp add: auth_inv_def users_inv_def)

lemma auth_inv_sub:
  assumes "auth_inv db"
  shows "auth_inv (db\<lparr>a_sessions := filter P (a_sessions db)\<rparr>)" "auth_inv (db\<lparr>a_keys := filter Q (a_keys db)\<rparr>)"
    "auth_inv (db\<lparr>a_totp := filter R (a_totp db)\<rparr>)"
  using assms by (auto simp: auth_inv_defs distinct_map_filter)

lemma auth_inv_map_rows:
  assumes "auth_inv db"
  shows "(\<And>r. ak_id (f r) = ak_id r) \<Longrightarrow> (\<And>r. ak_token_hash (f r) = ak_token_hash r) \<Longrightarrow> (\<And>r. ak_user_id (f r) = ak_user_id r)
      \<Longrightarrow> auth_inv (db\<lparr>a_tokens := snd (sql_update P f (a_tokens db))\<rparr>)"
    "(\<And>r. to_user_id (g r) = to_user_id r) \<Longrightarrow> auth_inv (db\<lparr>a_totp := snd (sql_update Q g (a_totp db))\<rparr>)"
    "(\<And>r. rr_id (h r) = rr_id r) \<Longrightarrow> (\<And>r. rr_user_id (h r) = rr_user_id r)
      \<Longrightarrow> auth_inv (db\<lparr>a_requests := snd (sql_update R h (a_requests db))\<rparr>)"
proof goal_cases
  case 1
  have "\<forall>r \<in> set (snd (sql_update P f (a_tokens db))). user_exists (ak_user_id r) db"
    using assms 1(3) by (auto simp: sql_update_def auth_inv_def deps_inv_def)
  moreover have "map ak_id (snd (sql_update P f (a_tokens db))) = map ak_id (a_tokens db)"
    "map ak_token_hash (snd (sql_update P f (a_tokens db))) = map ak_token_hash (a_tokens db)"
    by (rule keys_update, rule 1)+
  ultimately show ?case using assms by (simp add: auth_inv_defs)
next
  case 2
  have "map to_user_id (snd (sql_update Q g (a_totp db))) = map to_user_id (a_totp db)"
    by (rule keys_update) (rule 2)
  moreover have "\<forall>r \<in> set (snd (sql_update Q g (a_totp db))). user_exists (to_user_id r) db"
    using assms 2 by (auto simp: sql_update_def auth_inv_def deps_inv_def)
  ultimately show ?case using assms by (simp add: auth_inv_defs)
next
  case 3
  have "map rr_id (snd (sql_update R h (a_requests db))) = map rr_id (a_requests db)"
    by (rule keys_update) (rule 3)
  moreover have "\<forall>r \<in> set (snd (sql_update R h (a_requests db))). user_exists (rr_user_id r) db"
    using assms 3 by (auto simp: sql_update_def auth_inv_def deps_inv_def)
  ultimately show ?case using assms by (simp add: auth_inv_defs)
qed

lemma auth_inv_put_totp:
  assumes "auth_inv db" "user_exists (to_user_id r) db"
  shows "auth_inv (put_totp r db)"
proof (cases "find_totp (to_user_id r) db = None")
  case True
  then have "to_user_id r \<notin> set (map to_user_id (a_totp db))"
    by (auto simp: find_totp_def find_None_iff)
  then show ?thesis using assms True by (auto simp: put_totp_def auth_inv_defs)
next
  case False
  have "put_totp r db = db\<lparr>a_totp := snd (sql_update (\<lambda>x. to_user_id x = to_user_id r) (\<lambda>_. r) (a_totp db))\<rparr>"
    using False by (simp add: put_totp_def sql_update_def)
  moreover have "map to_user_id (snd (sql_update (\<lambda>x. to_user_id x = to_user_id r) (\<lambda>_. r) (a_totp db)))
      = map to_user_id (a_totp db)"
    by (simp add: sql_update_def)
  moreover have "\<forall>x \<in> set (snd (sql_update (\<lambda>x. to_user_id x = to_user_id r) (\<lambda>_. r) (a_totp db))). user_exists (to_user_id x) db"
    using assms by (auto simp: sql_update_def auth_inv_def deps_inv_def)
  ultimately show ?thesis using assms(1) by (simp add: auth_inv_defs)
qed

lemma insert_user_tags_inv:
  "insert_user_tags uid tags tt = (e, tt') \<Longrightarrow> distinct tt \<Longrightarrow>
     distinct tt' \<and> set tt \<subseteq> set tt' \<and> set tt' \<subseteq> set tt \<union> {uid} \<times> set tags"
proof (induction tags arbitrary: tt)
  case (Cons t ts)
  then show ?case by (fastforce split: if_splits)
qed simp

lemma db_inv_user_tags [simp]: "db_inv (acc\<lparr>db_user_tags := tt\<rparr>) = db_inv acc"
  by (simp add: db_inv_def group_exists_def target_exists_def)

lemma auth_inv_set_tags:
  assumes "auth_inv db" shows "auth_inv (snd (SetUserTags env uid tags db))"
proof -
  let ?old = "filter (\<lambda>(u, _). u \<noteq> uid) (db_user_tags (a_access db))"
  obtain e tt where ins: "insert_user_tags uid tags ?old = (e, tt)" by fastforce
  have "distinct ?old" using assms by (simp add: auth_inv_defs)
  note new = insert_user_tags_inv [OF ins this]
  have "auth_inv (db\<lparr>a_access := (a_access db)\<lparr>db_user_tags := tt\<rparr>\<rparr>)" if "user_exists uid db"
    using assms new that by (auto 0 3 simp: auth_inv_defs)
  then show ?thesis using assms ins by (auto simp: SetUserTags_def split: option.splits)
qed

lemma auth_inv_create_user:
  assumes "auth_inv db" "CreateUser env salt uid nm pw role db = Inr (u, db')" shows "auth_inv db'"
proof -
  have fresh: "\<not> user_exists uid db" "nm \<notin> set (map ur_username (a_users db))"
    and rows: "\<exists>r. a_users db' = a_users db @ [r] \<and> ur_id r = uid \<and> ur_username r = nm \<and> ur_role r \<in> {RoleAdmin, RoleUser}"
      "a_access db' = (a_access db)\<lparr>db_users := db_users (a_access db) @ [uid]\<rparr>"
      "a_sessions db' = a_sessions db" "a_keys db' = a_keys db" "a_next_key db' = a_next_key db"
      "a_tokens db' = a_tokens db" "a_totp db' = a_totp db" "a_requests db' = a_requests db"
    using assms(2) by (auto simp: CreateUser_def Let_def split: if_splits sum.splits)
  then obtain r where r: "a_users db' = a_users db @ [r]" "ur_id r = uid" "ur_username r = nm" "ur_role r \<in> {RoleAdmin, RoleUser}" by blast
  have ue: "user_exists v db' = (user_exists v db \<or> v = uid)" for v using r by (auto simp: user_exists_def)
  have acc: "db_inv (a_access db')" using assms(1) unfolding rows
    by (auto simp: auth_inv_def db_inv_def group_exists_def target_exists_def)
  have "users_inv db'" using assms(1) r fresh by (auto simp: auth_inv_def users_inv_def user_exists_def)
  moreover have "deps_inv db'" using assms(1) unfolding deps_inv_def ue rows(2-) by (auto simp: auth_inv_def deps_inv_def)
  moreover have "keys_inv db'" using assms(1) unfolding keys_inv_def rows(2-) by (simp add: auth_inv_def keys_inv_def)
  ultimately show ?thesis using assms(1) acc r rows(2) by (simp add: auth_inv_def)
qed

lemma db_inv_delete_user: "db_inv acc \<Longrightarrow> db_inv (delete_user_access u acc)"
  by (auto simp: db_inv_def delete_user_access_def group_exists_def target_exists_def distinct_map_filter)

lemma auth_inv_delete_user: "auth_inv db \<Longrightarrow> auth_inv (delete_user_rows u db)"
  using db_inv_delete_user [of "a_access db" u]
  by (auto simp: auth_inv_defs delete_user_rows_def delete_user_access_def distinct_map_filter filter_map o_def)

lemma update_target_frame: "update_target t f acc = Inr acc' \<Longrightarrow> db_users acc' = db_users acc \<and> db_user_tags acc' = db_user_tags acc"
  by (auto simp: update_target_def split: prod.splits if_splits)

lemma access_step_frame: "access_step acc acc' \<Longrightarrow> db_users acc' = db_users acc \<and> db_user_tags acc' = db_user_tags acc"
proof (induction rule: access_step.induct)
  case (target_create env ns t g i db x db')
  from target_create show ?case by (rule CreateWithPath_row) simp
next
  case (target_update env ns t i db x db')
  then obtain f where "update_target t f db = Inr db'"
    by (fastforce simp: tgt_Update_def split: option.splits sum.splits prod.splits)
  then show ?case by (rule update_target_frame)
next
  case (group_delete g db db')
  then show ?case using grp_Delete_cases(1) by (fastforce simp: delete_group_def delete_targets_def Let_def)
qed (auto simp: grp_Create_def grp_Update_def AddUserToGroupUntil_def RemoveUserFromGroup_def PurgeExpiredMemberships_def
    sql_delete_def AddTargetToGroup_def RemoveTargetFromGroup_def SetGroupTags_def SetTargetTags_def tgt_Delete_def
    delete_targets_def SetSSHHostKeyFingerprint_def SetSSHHostKeyInsecureSkipVerify_def SetCredentialSource_def Let_def
    split: option.splits sum.splits if_splits prod.splits dest!: update_target_frame)

lemma auth_inv_add:
  assumes "auth_inv db"
  shows "se_id s \<notin> set (map se_id (a_sessions db)) \<Longrightarrow> user_exists (se_user_id s) db
      \<Longrightarrow> auth_inv (db\<lparr>a_sessions := a_sessions db @ [s]\<rparr>)"
    "uk_ID k = a_next_key db \<Longrightarrow> user_exists (uk_UserID k) db
      \<Longrightarrow> auth_inv (db\<lparr>a_keys := a_keys db @ [k], a_next_key := a_next_key db + 1\<rparr>)"
    "ak_id t \<notin> set (map ak_id (a_tokens db)) \<Longrightarrow> ak_token_hash t \<notin> set (map ak_token_hash (a_tokens db))
      \<Longrightarrow> user_exists (ak_user_id t) db \<Longrightarrow> auth_inv (db\<lparr>a_tokens := a_tokens db @ [t]\<rparr>)"
    "rr_id r \<notin> set (map rr_id (a_requests db)) \<Longrightarrow> user_exists (rr_user_id r) db
      \<Longrightarrow> auth_inv (db\<lparr>a_requests := a_requests db @ [r]\<rparr>)"
proof goal_cases
  case 2
  have "a_next_key db \<notin> uk_ID ` set (a_keys db)" "\<forall>k \<in> set (a_keys db). uk_ID k < a_next_key db + 1"
    using assms by (auto simp: auth_inv_def keys_inv_def)
  then show ?case using assms 2 by (simp add: auth_inv_defs)
qed (use assms in \<open>simp_all add: auth_inv_defs\<close>)

lemma auth_inv_insert:
  assumes "auth_inv db"
  shows "ses_Create env ttl raw uid now db = Inr (s, db') \<Longrightarrow> auth_inv db'"
    "AddPublicKey env uid line now db = Inr (k, db') \<Longrightarrow> auth_inv db'"
    "tok_Create env raw idRaw uid nm scope ex now db = Inr (t, db') \<Longrightarrow> auth_inv db'"
    "req_Create req now db = Inr db' \<Longrightarrow> auth_inv db'"
proof goal_cases
  case 1
  then show ?case by (auto simp: ses_Create_def Let_def split: if_splits intro!: auth_inv_add(1) [OF assms])
next
  case 2
  then show ?case by (auto simp: AddPublicKey_def Let_def split: if_splits intro!: auth_inv_add(2) [OF assms])
next
  case 3
  then show ?case by (auto simp: tok_Create_def Let_def split: if_splits intro!: auth_inv_add(3) [OF assms])
next
  case 4
  then show ?case by (auto simp: req_Create_def Let_def split: option.splits if_splits intro!: auth_inv_add(4) [OF assms])
qed

lemma auth_inv_step: "auth_step db db' \<Longrightarrow> auth_inv db \<Longrightarrow> auth_inv db'"
proof (induction rule: auth_step.induct)
  case (user_password env salt uid old new db db')
  then obtain h where "update_user uid (\<lambda>r. r\<lparr>ur_password_hash := h\<rparr>) db = Inr db'"
    by (auto simp: UpdatePassword_def split: option.splits if_splits sum.splits)
  from auth_inv_update_user [OF user_password.prems this] show ?case by simp
next
  case (user_delete uid db db')
  then show ?case using auth_inv_delete_user by (auto simp: DeleteUser_def split: if_splits)
next
  case (session_get db env raw now)
  then show ?case using auth_inv_sub(1) by (auto simp: ses_Get_def ses_Delete_def split: option.split)
next
  case (totp_begin tenv gen nonce uid db x db')
  then show ?case by (auto simp: BeginEnrolment_def split: if_splits option.splits sum.splits intro!: auth_inv_put_totp)
next
  case (totp_confirm tenv rnd uid code now db codes db')
  then obtain hs where "db' = db\<lparr>a_totp := snd (sql_update (\<lambda>r. to_user_id r = uid \<and> to_enabled r = 0)
      (\<lambda>r. r\<lparr>to_enabled := 1, to_recovery_codes := hs, to_confirmed_at := Some now\<rparr>) (a_totp db))\<rparr>"
    by (auto simp: totp_Confirm_def sql_update_def split: sum.splits if_splits prod.splits)
  then show ?case by (simp add: auth_inv_map_rows(2) [OF totp_confirm.prems])
next
  case (totp_use uid p db db')
  then have "db' = db\<lparr>a_totp := snd (sql_update (\<lambda>r. to_user_id r = uid \<and> to_recovery_codes r = fst p)
      (\<lambda>r. r\<lparr>to_recovery_codes := snd p\<rparr>) (a_totp db))\<rparr>"
    by (auto simp: verify_write_def sql_update_def split: if_splits prod.splits)
  then show ?case by (simp add: auth_inv_map_rows(2) [OF totp_use.prems])
next
  case (totp_disable uid db db')
  then show ?case using auth_inv_sub(3) by (auto simp: totp_Disable_def sql_delete_def split: if_splits)
next
  case (token_touch db i now)
  then show ?case by (simp add: tok_Touch_def auth_inv_map_rows(1))
next
  case (token_revoke uid i now db db')
  then have "db' = db\<lparr>a_tokens := snd (sql_update (\<lambda>r. ak_id r = i \<and> ak_revoked_at r = None \<and> (uid \<noteq> [] \<longrightarrow> ak_user_id r = uid))
      (\<lambda>r. r\<lparr>ak_revoked_at := Some (unix now)\<rparr>) (a_tokens db))\<rparr>"
    by (auto simp: tok_Revoke_def split: prod.splits if_splits)
  then show ?case by (simp add: auth_inv_map_rows(1) [OF token_revoke.prems])
next
  case (request_decide i st who nt ex now db db')
  then have "db' = db\<lparr>a_requests := snd (sql_update (\<lambda>r. rr_id r = i \<and> rr_status r = RequestPending)
      (\<lambda>r. r\<lparr>rr_status := st, rr_decided_at := Some (unix now), rr_decided_by := Some who,
                     rr_decision_note := Some nt, rr_expires_at := map_option unix ex\<rparr>) (a_requests db))\<rparr>"
    by (auto simp: req_Decide_def sql_update_def split: if_splits prod.splits)
  then show ?case by (simp add: auth_inv_map_rows(3) [OF request_decide.prems])
next
  case (access_change db acc)
  with access_step_frame db_inv_step show ?case by (fastforce simp: auth_inv_defs)
next
  case (key_delete uid kid db db')
  then show ?case using auth_inv_sub(2) by (auto simp: DeletePublicKey_def sql_delete_def split: if_splits)
next
  case (session_revoke env uid keep db db')
  then show ?case using auth_inv_sub(1) by (auto simp: DeleteAllForUser_def split: if_splits)
next
  case (user_tags db env uid tags)
  then show ?case by (rule auth_inv_set_tags)
next
  case (session_delete db env raw)
  then show ?case using auth_inv_sub(1) by (simp add: ses_Delete_def)
next
  case (user_role uid role db db')
  then show ?case by (auto simp: UpdateRole_def split: if_splits elim!: auth_inv_update_user)
qed (auto simp: SetForcePasswordChange_def SetDisabled_def UpdateLocale_def split: if_splits sum.splits
    intro: auth_inv_create_user auth_inv_rename auth_inv_insert elim: auth_inv_update_user)

definition empty_auth :: AuthDB where
  "empty_auth = \<lparr>a_users = [], a_sessions = [], a_keys = [], a_next_key = 1, a_tokens = [], a_totp = [], a_requests = [],
     a_access = empty_db []\<rparr>"

interpretation auth_db: transition_system auth_step "\<lambda>db. db = empty_auth" auth_inv
proof (unfold_locales, goal_cases)
  case (1 db)
  then show ?case by (simp add: auth_inv_defs empty_auth_def empty_db_def db_inv_def)
next
  case (2 db db')
  then show ?case by (rule auth_inv_step)
qed

subsection \<open>Properties\<close>



lemma delete_user_rows_gone [simp]: "\<not> user_exists u (delete_user_rows u db)"
  by (auto simp: user_exists_def delete_user_rows_def)

lemma grants_delete_user [simp]: "grants (delete_user_access u acc) g t = grants acc g t"
  by (simp add: grants_def delete_user_access_def)

text \<open>
  Deleting an account removes every way in: no session, public key, second factor, API token,
  request, membership or tag of it remains, it can reach no target, and what any other user can reach
  and every other session is exactly as before.
\<close>

theorem deleted_user_leaves_nothing:
  assumes "auth_inv db" "DeleteUser u db = Inr db'"
  shows "\<not> user_exists u db' \<and> (\<forall>r \<in> set (a_sessions db'). se_user_id r \<noteq> u) \<and> (\<forall>k \<in> set (a_keys db'). uk_UserID k \<noteq> u)
    \<and> (\<forall>r \<in> set (a_tokens db'). ak_user_id r \<noteq> u) \<and> find_totp u db' = None \<and> (\<forall>r \<in> set (a_requests db'). rr_user_id r \<noteq> u)
    \<and> (\<forall>t. \<not> may_access now (a_access db') u t)
    \<and> (\<forall>v t. v \<noteq> u \<longrightarrow> may_access now (a_access db') v t = may_access now (a_access db) v t)
    \<and> (\<forall>r. se_user_id r \<noteq> u \<longrightarrow> (r \<in> set (a_sessions db') \<longleftrightarrow> r \<in> set (a_sessions db)))"
proof -
  have db': "db' = delete_user_rows u db" using assms(2) by (auto simp: DeleteUser_def split: if_splits)
  have "\<not> may_access now (delete_user_access u (a_access db)) u t" for t
    unfolding may_access_def by (auto simp: delete_user_access_def)
  moreover have "may_access now (delete_user_access u (a_access db)) v t = may_access now (a_access db) v t" if "v \<noteq> u" for v t
    unfolding may_access_def using that by (simp add: delete_user_access_def)
      (simp add: grants_def)
  moreover have "find_totp u (delete_user_rows u db) = None" by (simp add: find_totp_def find_None_iff delete_user_rows_def)
  moreover have "a_access (delete_user_rows u db) = delete_user_access u (a_access db)"
    "a_sessions (delete_user_rows u db) = filter (\<lambda>r. se_user_id r \<noteq> u) (a_sessions db)"
    "a_keys (delete_user_rows u db) = filter (\<lambda>r. uk_UserID r \<noteq> u) (a_keys db)"
    "a_tokens (delete_user_rows u db) = filter (\<lambda>r. ak_user_id r \<noteq> u) (a_tokens db)"
    "a_requests (delete_user_rows u db) = filter (\<lambda>r. rr_user_id r \<noteq> u) (a_requests db)"
    by (simp_all add: delete_user_rows_def)
  ultimately show ?thesis unfolding db' by simp
qed

definition demo_one :: AuthDB where
  "demo_one = \<lparr>a_users = [demo_user ''alice'' ''Alice-pw1'' RoleAdmin 0 0], a_sessions = [demo_session ''s-alice'' ''alice'' (time_unix 100)],
     a_keys = [], a_next_key = 1, a_tokens = [], a_totp = [], a_requests = [], a_access = demo_moved\<rparr>"

lemma demo_one_inv: "auth_inv demo_one"
  using demo_moved_inv
  by (simp add: auth_inv_defs demo_one_def demo_user_def demo_session_def) (simp add: demo_moved_def)

theorem deleted_user_leaves_nothing_witness:
  "may_access 0 (a_access demo_one) ''alice'' ''sw1''
   \<and> (\<exists>db'. DeleteUser ''alice'' demo_one = Inr db' \<and> \<not> may_access 0 (a_access db') ''alice'' ''sw1'')"
proof -
  have "DeleteUser ''alice'' demo_one = Inr (delete_user_rows ''alice'' demo_one)"
    by (simp add: DeleteUser_def demo_one_def demo_user_def trim_space_visible visible_def)
  with deleted_user_leaves_nothing [OF demo_one_inv this, of 0]
  have "\<not> may_access 0 (a_access (delete_user_rows ''alice'' demo_one)) ''alice'' ''sw1''" by blast
  moreover have "may_access 0 (a_access demo_one) ''alice'' ''sw1''"
    by (auto simp: demo_one_def may_access_def grants_def demo_moved_def descendantOrSelf_def activeMembership_def)
  ultimately show ?thesis using \<open>DeleteUser ''alice'' demo_one = _\<close> by blast
qed

lemma find_filter_other: "(\<And>r. P r \<Longrightarrow> Q r) \<Longrightarrow> find P (filter Q xs) = find P xs"
  by (induction xs) auto

lemma request_step:
  assumes "auth_step db db'" "find_request i db = Some r" "rr_status r \<noteq> RequestPending" "auth_inv db"
  shows "find_request i db' = Some r \<or> find_request i db' = None \<and> \<not> user_exists (rr_user_id r) db'"
  using assms
proof (induction rule: auth_step.induct)
  case (user_delete uid db db')
  have db': "db' = delete_user_rows uid db" using user_delete(1) by (auto simp: DeleteUser_def split: if_splits)
  have r: "r \<in> set (a_requests db)" "rr_id r = i" using find_in_set user_delete.prems(1) by (fastforce simp: find_request_def)+
  show ?case
  proof (cases "rr_user_id r = uid")
    case True
    have "r' = r" if "r' \<in> set (a_requests db)" "rr_id r' = i" for r'
      using user_delete.prems(3) r that by (auto simp: auth_inv_def keys_inv_def distinct_map dest: inj_onD)
    then have "find_request i db' = None" using True by (auto simp: find_request_def db' delete_user_rows_def find_None_iff)
    then show ?thesis using True by (simp add: db')
  next
    case False
    have "find (\<lambda>r. rr_id r = i) (filter (\<lambda>r. rr_user_id r \<noteq> uid) xs) = Some r" if "find (\<lambda>r. rr_id r = i) xs = Some r" for xs
      using that False by (induction xs) (auto split: if_splits)
    then show ?thesis using user_delete.prems(1) by (simp add: find_request_def db' delete_user_rows_def)
  qed
next
  case (request_decide j st who nt ex now db db')
  then have "a_requests db' = map (\<lambda>r. if rr_id r = j \<and> rr_status r = RequestPending then r\<lparr>rr_status := st,
      rr_decided_at := Some (unix now), rr_decided_by := Some who, rr_decision_note := Some nt,
      rr_expires_at := map_option unix ex\<rparr> else r) (a_requests db)"
    by (auto simp: req_Decide_def sql_update_def split: if_splits)
  moreover have "find (\<lambda>r. rr_id r = i) (map (\<lambda>r. if rr_id r = j \<and> rr_status r = RequestPending then r\<lparr>rr_status := st,
      rr_decided_at := Some (unix now), rr_decided_by := Some who, rr_decision_note := Some nt,
      rr_expires_at := map_option unix ex\<rparr> else r) xs) = Some r" if "find (\<lambda>r. rr_id r = i) xs = Some r" for xs
    using that request_decide.prems(2) by (induction xs) (auto split: if_splits)
  ultimately show ?case using request_decide.prems(1) by (simp add: find_request_def)
next
  case (request_create req now db db')
  then obtain x where "a_requests db' = a_requests db @ [x]" by (auto simp: req_Create_def Let_def split: option.splits if_splits)
  moreover have "find P (xs @ ys) = Some r" if "find P xs = Some r" for P xs and ys :: "request_row list"
    using that by (induction xs) (auto split: if_splits)
  ultimately show ?case using request_create.prems(1) by (simp add: find_request_def)
qed (auto simp: CreateUser_def SetForcePasswordChange_def UpdateUsername_def SetDisabled_def UpdateRole_def UpdateLocale_def
    SetUserTags_def UpdatePassword_def AddPublicKey_def DeletePublicKey_def ses_Create_def ses_Get_def ses_Delete_def
    DeleteAllForUser_def BeginEnrolment_def totp_Confirm_def verify_write_def totp_Disable_def tok_Create_def tok_Touch_def
    tok_Revoke_def put_totp_def find_request_def Let_def
    split: if_splits sum.splits option.splits prod.splits dest!: update_user_rows(1))

text \<open>
  A decision on an access request is final: once a request has left the pending state, a further
  decision is refused as not pending, and no operation of any store changes its outcome; it can only
  disappear together with the account that made it.
\<close>

theorem request_decision_final:
  assumes "auth_inv db" "find_request i db = Some r" "rr_status r \<noteq> RequestPending"
  shows "req_Decide i st who nt ex now db = Inl ErrRequestNotPending
    \<and> (\<forall>db'. auth_step db db' \<longrightarrow> find_request i db' = Some r \<or> find_request i db' = None \<and> \<not> user_exists (rr_user_id r) db')"
proof
  have r: "r \<in> set (a_requests db)" "rr_id r = i" using find_in_set assms(2) by (fastforce simp: find_request_def)+
  have "\<not> (rr_id x = i \<and> rr_status x = RequestPending)" if "x \<in> set (a_requests db)" for x
    using assms(1,3) r that by (auto simp: auth_inv_def keys_inv_def distinct_map dest: inj_onD)
  then have "filter (\<lambda>r. rr_id r = i \<and> rr_status r = RequestPending) (a_requests db) = []" by (simp add: filter_empty_conv)
  then show "req_Decide i st who nt ex now db = Inl ErrRequestNotPending"
    using assms(2) by (simp add: req_Decide_def sql_update_def req_Get_def)
  show "\<forall>db'. auth_step db db' \<longrightarrow> find_request i db' = Some r \<or> find_request i db' = None \<and> \<not> user_exists (rr_user_id r) db'"
    using request_step assms by blast
qed

definition demo_denied :: request_row where
  "demo_denied = \<lparr>rr_id = ''q1'', rr_user_id = ''alice'', rr_group_id = ''new'', rr_reason = [], rr_duration_seconds = 0, rr_status = ''denied'',
     rr_created_at = 0, rr_decided_at = Some 1, rr_decided_by = Some ''alice'', rr_decision_note = Some [], rr_expires_at = None\<rparr>"

theorem request_decision_final_witness:
  "req_Decide ''q1'' RequestApproved ''alice'' [] None 5 (demo_one\<lparr>a_requests := [demo_denied]\<rparr>) = Inl ErrRequestNotPending"
proof -
  have "auth_inv (demo_one\<lparr>a_requests := [demo_denied]\<rparr>)"
    using demo_one_inv by (simp add: auth_inv_defs demo_one_def demo_denied_def demo_user_def)
  from request_decision_final [OF this, of "''q1''" demo_denied] show ?thesis
    by (simp add: find_request_def demo_denied_def RequestPending_def)
qed

end
