(* ===== verification/Login_Limiter.thy ===== *)
theory Login_Limiter
  imports Vantyx_Prelude
begin

text \<open>
  Brute-force throttling (\<open>src/internal/ratelimit/login.go\<close>): two maps from keys to the times of
  recent failures.  Every operation holds the mutex, so each is one step; the clock readings are
  arguments.  The locale \<open>login_throttle\<close> is what the login handlers rely on, provided once by
  the per-address and once by the per-user bucket.
\<close>

definition defaultWindow :: duration where "defaultWindow = 15 * minute"
definition defaultMaxIP :: int where "defaultMaxIP = 5"
definition defaultMaxUser :: int where "defaultMaxUser = 10"
definition gcInterval :: duration where "gcInterval = 5 * minute"
definition purgeBackoff :: duration where "purgeBackoff = 30 * minute"
definition maxEntries :: nat where "maxEntries = 50000"

type_synonym failures = "(string, instant list) gomap"

record LoginLimiter =
  ll_byIP :: failures
  ll_byUser :: failures
  ll_window :: duration
  ll_maxIP :: int
  ll_maxUser :: int
  ll_lastSwep :: instant

definition env_limit :: "string \<Rightarrow> int \<Rightarrow> int" where
  "env_limit env dflt = (let n = trim_space env in
     if n \<noteq> [] then (case atoi n of Some v \<Rightarrow> if v > 0 then v else dflt | None \<Rightarrow> dflt) else dflt)"

definition NewLoginLimiter :: "string \<Rightarrow> string \<Rightarrow> LoginLimiter" where
  "NewLoginLimiter envMaxIP envMaxUser = \<lparr>ll_byIP = [], ll_byUser = [], ll_window = defaultWindow,
     ll_maxIP = env_limit envMaxIP defaultMaxIP, ll_maxUser = env_limit envMaxUser defaultMaxUser,
     ll_lastSwep = 0\<rparr>"

text \<open>
  The request is given by whether the caller trusts its forwarding header, that header and the
  remote address.
\<close>

definition ClientIPFromHTTP :: "bool \<Rightarrow> string \<Rightarrow> string \<Rightarrow> string" where
  "ClientIPFromHTTP trusted xff remote =
     (if trusted \<and> xff \<noteq> [] then
        (case index_byte xff (CHR '','') of
           Some i \<Rightarrow> if i > 0 then trim_space (take i xff) else trim_space xff
         | None \<Rightarrow> trim_space xff)
      else case SplitHostPort remote of
        Some (host, _) \<Rightarrow> if host \<noteq> [] then host else remote
      | None \<Rightarrow> remote)"

definition ClientIPFromAddr :: "string option \<Rightarrow> string" where
  "ClientIPFromAddr addr = (case addr of None \<Rightarrow> []
   | Some a \<Rightarrow> (case SplitHostPort a of
        Some (host, _) \<Rightarrow> if host \<noteq> [] then host else a
      | None \<Rightarrow> a))"

definition normalizeUserKey :: "string \<Rightarrow> string" where
  "normalizeUserKey username = to_lower (trim_space username)"

definition after :: "instant \<Rightarrow> instant list \<Rightarrow> instant list" where
  "after cutoff ts = filter (\<lambda>t. t > cutoff) ts"

definition pruneLocked :: "instant \<Rightarrow> failures \<Rightarrow> failures" where
  "pruneLocked cutoff m =
     filter (\<lambda>(_, ts). ts \<noteq> []) (map (\<lambda>(k, ts). (k, after cutoff ts)) m)"

definition gcLocked :: "instant \<Rightarrow> LoginLimiter \<Rightarrow> LoginLimiter" where
  "gcLocked now l =
     (if time_sub now (ll_lastSwep l) < gcInterval then l
      else let cutoff = now - purgeBackoff in
        l\<lparr>ll_byIP := pruneLocked cutoff (ll_byIP l), ll_byUser := pruneLocked cutoff (ll_byUser l),
          ll_lastSwep := now\<rparr>)"

text \<open>The map argument \<open>m\<close> of the bucket functions is one of the limiter's two maps.\<close>

datatype bucket = ByIP | ByUser

fun bucket_of :: "bucket \<Rightarrow> LoginLimiter \<Rightarrow> failures" where
  "bucket_of ByIP l = ll_byIP l"
| "bucket_of ByUser l = ll_byUser l"

fun set_bucket :: "bucket \<Rightarrow> failures \<Rightarrow> LoginLimiter \<Rightarrow> LoginLimiter" where
  "set_bucket ByIP m l = l\<lparr>ll_byIP := m\<rparr>"
| "set_bucket ByUser m l = l\<lparr>ll_byUser := m\<rparr>"

definition times_of :: "failures \<Rightarrow> string \<Rightarrow> instant list" where
  "times_of m key = (case lookup m key of None \<Rightarrow> [] | Some ts \<Rightarrow> ts)"

definition allowBucket :: "bucket \<Rightarrow> string \<Rightarrow> int \<Rightarrow> instant \<Rightarrow> LoginLimiter \<Rightarrow> bool \<times> LoginLimiter" where
  "allowBucket b key mx now l =
     (if key = [] then (True, l)
      else let l = gcLocked now l;
               cutoff = now - ll_window l;
               m = bucket_of b l;
               times = after cutoff (times_of m key);
               n = length times
           in (int n < mx, set_bucket b (if n = 0 then AList.delete key m else AList.update key times m) l))"

definition AllowIP :: "string \<Rightarrow> instant \<Rightarrow> LoginLimiter \<Rightarrow> bool \<times> LoginLimiter" where
  "AllowIP ip now l = allowBucket ByIP ip (ll_maxIP l) now l"

definition AllowUser :: "string \<Rightarrow> instant \<Rightarrow> LoginLimiter \<Rightarrow> bool \<times> LoginLimiter" where
  "AllowUser username now l = allowBucket ByUser (normalizeUserKey username) (ll_maxUser l) now l"

definition recordBucket :: "bucket \<Rightarrow> string \<Rightarrow> instant \<Rightarrow> instant \<Rightarrow> LoginLimiter \<Rightarrow> LoginLimiter" where
  "recordBucket b key now1 now2 l =
     (if key = [] then l
      else let full = (\<not> has_key (bucket_of b l) key \<and> length (bucket_of b l) \<ge> maxEntries);
               l = (if full then gcLocked now1 (l\<lparr>ll_lastSwep := 0\<rparr>) else l);
               m = bucket_of b l
           in if full \<and> length m \<ge> maxEntries then l
              else set_bucket b (AList.update key (times_of m key @ [now2]) m) l)"

definition RecordFailureIP :: "string \<Rightarrow> instant \<Rightarrow> instant \<Rightarrow> LoginLimiter \<Rightarrow> LoginLimiter" where
  "RecordFailureIP ip now1 now2 l = recordBucket ByIP ip now1 now2 l"

definition RecordFailureUser :: "string \<Rightarrow> instant \<Rightarrow> instant \<Rightarrow> LoginLimiter \<Rightarrow> LoginLimiter" where
  "RecordFailureUser username now1 now2 l = recordBucket ByUser (normalizeUserKey username) now1 now2 l"

definition RecordSuccess :: "string \<Rightarrow> string \<Rightarrow> LoginLimiter \<Rightarrow> LoginLimiter" where
  "RecordSuccess ip username l =
     (let l = (if ip \<noteq> [] then l\<lparr>ll_byIP := AList.delete ip (ll_byIP l)\<rparr> else l);
          key = normalizeUserKey username
      in if key \<noteq> [] then l\<lparr>ll_byUser := AList.delete key (ll_byUser l)\<rparr> else l)"

subsection \<open>Facts about the buckets\<close>

lemma after_append [simp]: "after c (xs @ ys) = after c xs @ after c ys"
  by (simp add: after_def)

lemma after_after [simp]: "c \<le> d \<Longrightarrow> after d (after c ts) = after d ts"
  unfolding after_def filter_filter by (rule filter_cong) auto

lemma after_Nil [simp]: "after c [] = []"
  by (simp add: after_def)

lemma after_Nil_mono: "after c ts = [] \<Longrightarrow> c \<le> d \<Longrightarrow> after d ts = []"
  by (metis after_Nil after_after)

lemma prune_wf [simp]: "wf_map m \<Longrightarrow> wf_map (pruneLocked c m)"
  unfolding pruneLocked_def
  by (rule wf_map_filter) (simp add: wf_map_def case_prod_unfold comp_def)

lemma times_of_prune: "wf_map m \<Longrightarrow> times_of (pruneLocked c m) k = after c (times_of m k)"
proof -
  assume "wf_map m"
  then have "wf_map (map (\<lambda>(k, ts). (k, after c ts)) m)"
    by (simp add: wf_map_def case_prod_unfold comp_def)
  moreover have "map_of (map (\<lambda>(k, ts). (k, after c ts)) m) k = map_option (after c) (map_of m k)"
    by (simp add: map_of_map)
  ultimately show ?thesis
    by (auto simp: times_of_def pruneLocked_def map_of_filter_fst split: option.splits)
qed

lemma keys_prune: "fst ` set (pruneLocked c m) \<subseteq> fst ` set m"
  by (force simp: pruneLocked_def)

lemma times_of_update [simp]: "times_of (AList.update k ts m) k' = (if k' = k then ts else times_of m k')"
  by (simp add: times_of_def)

lemma times_of_delete [simp]: "times_of (AList.delete k m) k' = (if k' = k then [] else times_of m k')"
  by (simp add: times_of_def)

lemma bucket_set [simp]:
  "bucket_of b (set_bucket b' m l) = (if b' = b then m else bucket_of b l)"
  "ll_window (set_bucket b' m l) = ll_window l" "ll_maxIP (set_bucket b' m l) = ll_maxIP l"
  "ll_maxUser (set_bucket b' m l) = ll_maxUser l"
  by (cases b'; cases b; simp)+

lemma bucket_swep [simp]: "bucket_of b (l\<lparr>ll_lastSwep := t\<rparr>) = bucket_of b l"
  by (cases b) simp_all

lemma gc_frame [simp]:
  "ll_window (gcLocked now l) = ll_window l" "ll_maxIP (gcLocked now l) = ll_maxIP l"
  "ll_maxUser (gcLocked now l) = ll_maxUser l"
  by (simp_all add: gcLocked_def Let_def)

lemma bucket_gc: "bucket_of b (gcLocked now l) = bucket_of b l
     \<or> bucket_of b (gcLocked now l) = pruneLocked (now - purgeBackoff) (bucket_of b l)"
  by (cases b) (simp_all add: gcLocked_def Let_def)

subsection \<open>What the limiter keeps of the failure history\<close>

text \<open>
  The reference is the whole history of failures of a key since its last success.  A bucket
  represents it at time \<open>t\<close> when, for every later reading of the clock, both show the same failures
  in the window.
\<close>

definition tracks :: "bucket \<Rightarrow> string set \<Rightarrow> instant \<Rightarrow> LoginLimiter \<Rightarrow> (string \<Rightarrow> instant list) \<Rightarrow> bool" where
  "tracks b K t l h = (ll_window l = defaultWindow \<and> wf_map (bucket_of b l)
     \<and> fst ` set (bucket_of b l) \<subseteq> K
     \<and> (\<forall>k c. t - defaultWindow \<le> c \<longrightarrow> after c (times_of (bucket_of b l) k) = after c (h k)))"

definition recent :: "instant \<Rightarrow> instant list \<Rightarrow> nat" where
  "recent now ts = length (after (now - defaultWindow) ts)"

lemma tracks_later: "tracks b K t l h \<Longrightarrow> t \<le> t' \<Longrightarrow> tracks b K t' l h"
  unfolding tracks_def by auto

lemma tracks_gc: assumes "tracks b K t l h" "t \<le> now" shows "tracks b K now (gcLocked now l) h"
proof (cases "bucket_of b (gcLocked now l) = bucket_of b l")
  case True
  then show ?thesis using assms by (auto simp: tracks_def)
next
  case False
  then have p: "bucket_of b (gcLocked now l) = pruneLocked (now - purgeBackoff) (bucket_of b l)"
    using bucket_gc by blast
  have "now - purgeBackoff \<le> now - defaultWindow"
    by (simp add: purgeBackoff_def defaultWindow_def go_simps)
  then have "after c (times_of (bucket_of b (gcLocked now l)) k) = after c (h k)" if "now - defaultWindow \<le> c" for k c
    using assms that by (simp add: p tracks_def times_of_prune)
  moreover have "fst ` set (bucket_of b (gcLocked now l)) \<subseteq> K"
    using assms(1) keys_prune [of "now - purgeBackoff" "bucket_of b l"] unfolding p tracks_def by blast
  ultimately show ?thesis using assms(1) by (simp add: tracks_def p)
qed

lemma tracks_swep [simp]: "tracks b K t (l\<lparr>ll_lastSwep := s\<rparr>) h = tracks b K t l h"
  by (simp add: tracks_def)

lemma allowBucket_key [simp]: "allowBucket b [] mx now l = (True, l)"
  by (simp add: allowBucket_def)

lemma allowBucket_decision:
  assumes "tracks b K t l h" "t \<le> now" "key \<noteq> []"
  shows "fst (allowBucket b key mx now l) = (int (recent now (h key)) < mx)"
  using tracks_gc [OF assms(1,2)] assms(3)
  by (auto simp: allowBucket_def Let_def tracks_def recent_def)

lemma allowBucket_frame:
  assumes "tracks b K t l h" "t \<le> now"
  shows "tracks b K now (snd (allowBucket b' key mx now l)) h"
proof (cases "key = []")
  case True
  then show ?thesis using assms tracks_later by auto
next
  case False
  have gc: "tracks b K now (gcLocked now l) h" by (rule tracks_gc [OF assms])
  let ?m = "bucket_of b (gcLocked now l)"
  have "key \<in> K" if "after c (times_of ?m key) \<noteq> []" for c
    using that gc by (force simp: tracks_def times_of_def split: option.splits dest: map_of_SomeD)
  then have in_K: "key \<in> K" if "after (now - defaultWindow) (h key) \<noteq> []"
    using that gc by (metis order_refl tracks_def)
  from False gc in_K show ?thesis
    by (auto simp: allowBucket_def Let_def tracks_def set_update set_delete dest: after_Nil_mono)
qed

lemma allowBucket_limits [simp]:
  "ll_maxIP (snd (allowBucket b key mx now l)) = ll_maxIP l"
  "ll_maxUser (snd (allowBucket b key mx now l)) = ll_maxUser l"
  by (simp_all add: allowBucket_def Let_def)

lemma recordBucket_limits [simp]:
  "ll_maxIP (recordBucket b key n1 n2 l) = ll_maxIP l"
  "ll_maxUser (recordBucket b key n1 n2 l) = ll_maxUser l"
  by (simp_all add: recordBucket_def Let_def)

text \<open>A set \<open>K\<close> of at most \<open>maxEntries\<close> keys always leaves room for its members.\<close>

lemma room:
  assumes "tracks b K t l h" "finite K" "card K \<le> maxEntries" "key \<in> K" "\<not> has_key (bucket_of b l) key"
  shows "length (bucket_of b l) < maxEntries"
proof -
  let ?D = "fst ` set (bucket_of b l)"
  have "key \<notin> ?D" using assms(5) by (auto simp: map_of_eq_None_iff)
  with assms(1,4) have "?D \<subset> K" by (auto simp: tracks_def)
  then have "card ?D < card K" using assms(2) by (rule psubset_card_mono [rotated])
  moreover have "card ?D = length (bucket_of b l)"
    using assms(1) distinct_card by (fastforce simp: tracks_def wf_map_def)
  ultimately show ?thesis using assms(3) by simp
qed

lemma recordBucket_tracks:
  assumes tr: "tracks b K t l h" and t: "t \<le> n1" "n1 \<le> n2" and K: "finite K" "card K \<le> maxEntries"
    and key: "key \<noteq> []" "key \<in> K"
  shows "tracks b K n2 (recordBucket b key n1 n2 l) (h(key := h key @ [n2]))"
proof -
  have full: "\<not> (\<not> has_key (bucket_of b l) key \<and> length (bucket_of b l) \<ge> maxEntries)"
    using room [OF tr K key(2)] by linarith
  then have "recordBucket b key n1 n2 l =
      set_bucket b (AList.update key (times_of (bucket_of b l) key @ [n2]) (bucket_of b l)) l"
    using key(1) by (auto simp: recordBucket_def Let_def)
  with tr t key(2) show ?thesis by (auto simp: tracks_def set_update)
qed

lemma recordBucket_other:
  assumes "tracks b K t l h" "t \<le> n1" "n1 \<le> n2" "b' \<noteq> b"
  shows "tracks b K n2 (recordBucket b' key n1 n2 l) h"
proof -
  have "tracks b K n1 (gcLocked n1 (l\<lparr>ll_lastSwep := 0\<rparr>)) h" "tracks b K n1 l h"
    using tracks_gc tracks_later assms(1,2) by (metis tracks_swep)+
  then have "tracks b K n2 (gcLocked n1 (l\<lparr>ll_lastSwep := 0\<rparr>)) h" "tracks b K n2 l h"
    using tracks_later assms(3) by blast+
  with assms(4) show ?thesis
    by (auto simp: recordBucket_def Let_def tracks_def)
qed

lemma recordBucket_empty [simp]: "recordBucket b [] n1 n2 l = l"
  by (simp add: recordBucket_def)

subsection \<open>The interface of a throttle\<close>

locale login_throttle =
  fixes allow :: "string \<Rightarrow> instant \<Rightarrow> 'l \<Rightarrow> bool \<times> 'l"
    and fail :: "string \<Rightarrow> instant \<Rightarrow> instant \<Rightarrow> 'l \<Rightarrow> 'l"
    and budget :: "'l \<Rightarrow> int"
    and norm :: "string \<Rightarrow> string"
    and K :: "string set"
    and represents :: "instant \<Rightarrow> 'l \<Rightarrow> (string \<Rightarrow> instant list) \<Rightarrow> bool"
  assumes allow_decides: "represents t l h \<Longrightarrow> t \<le> now \<Longrightarrow> norm k \<noteq> [] \<Longrightarrow>
      fst (allow k now l) = (int (recent now (h (norm k))) < budget l)"
    and allow_keeps: "represents t l h \<Longrightarrow> t \<le> now \<Longrightarrow>
      represents now (snd (allow k now l)) h \<and> budget (snd (allow k now l)) = budget l"
    and fail_records: "represents t l h \<Longrightarrow> t \<le> n1 \<Longrightarrow> n1 \<le> n2 \<Longrightarrow> norm k \<noteq> [] \<Longrightarrow> norm k \<in> K \<Longrightarrow>
      represents n2 (fail k n1 n2 l) (h(norm k := h (norm k) @ [n2])) \<and> budget (fail k n1 n2 l) = budget l"
begin

text \<open>An attacker who fails at the given instants, one after another.\<close>

fun fails :: "string \<Rightarrow> instant list \<Rightarrow> 'l \<Rightarrow> 'l" where
  "fails k [] l = l"
| "fails k (t # ts) l = fails k ts (fail k t t l)"

lemma fails_represent:
  "represents t l h \<Longrightarrow> sorted (t # ts) \<Longrightarrow> norm k \<noteq> [] \<Longrightarrow> norm k \<in> K \<Longrightarrow>
     represents (last (t # ts)) (fails k ts l) (h(norm k := h (norm k) @ ts))
     \<and> budget (fails k ts l) = budget l"
proof (induction ts arbitrary: t l h)
  case (Cons u ts)
  let ?h = "h(norm k := h (norm k) @ [u])"
  have one: "represents u (fail k u u l) ?h" "budget (fail k u u l) = budget l"
    using fail_records [of t l h u u k] Cons.prems by simp_all
  have "sorted (u # ts)" using Cons.prems by simp
  note rest = Cons.IH [OF one(1) this Cons.prems(3,4)]
  have "?h(norm k := ?h (norm k) @ ts) = h(norm k := h (norm k) @ u # ts)" by (simp add: fun_eq_iff)
  then show ?case using rest one(2) by (simp only: fails.simps last.simps list.distinct if_False)
qed simp

lemma locked_out:
  assumes "represents t l h" "sorted (t # ts @ [now])" "norm k \<noteq> []" "norm k \<in> K"
    and "budget l \<le> int (length ts)" "\<forall>u \<in> set ts. now - defaultWindow < u"
  shows "\<not> fst (allow k now (fails k ts l))"
proof -
  have all: "after (now - defaultWindow) ts = ts" using assms(6) by (simp add: after_def)
  have srt: "sorted (t # ts)" and le: "last (t # ts) \<le> now"
    using assms(2) by (auto simp: sorted_append)
  note rep = fails_represent [OF assms(1) srt assms(3,4)]
  have "fst (allow k now (fails k ts l)) = (int (recent now (h (norm k) @ ts)) < budget l)"
    using allow_decides [OF conjunct1 [OF rep] le assms(3)] rep by simp
  then show ?thesis using assms(5) all by (simp add: recent_def)
qed

end

interpretation ip: login_throttle AllowIP RecordFailureIP ll_maxIP "\<lambda>k. k"
  "{k. finite K \<and> card K \<le> maxEntries \<and> k \<in> K}" "tracks ByIP K" for K
  by unfold_locales (auto simp: AllowIP_def RecordFailureIP_def
      allowBucket_decision
      intro: allowBucket_frame recordBucket_tracks)

interpretation user: login_throttle AllowUser RecordFailureUser ll_maxUser normalizeUserKey
  "{k. finite K \<and> card K \<le> maxEntries \<and> k \<in> K}" "tracks ByUser K" for K
  by unfold_locales (auto simp: AllowUser_def RecordFailureUser_def
      allowBucket_decision
      intro: allowBucket_frame recordBucket_tracks)

subsection \<open>Whole runs against the reference\<close>

datatype login_event =
    CheckIP string instant
  | CheckUser string instant
  | FailIP string instant instant
  | FailUser string instant instant
  | Success string string

fun login_step :: "login_event \<Rightarrow> LoginLimiter \<Rightarrow> bool list \<times> LoginLimiter" where
  "login_step (CheckIP ip now) l = (case AllowIP ip now l of (b, l) \<Rightarrow> ([b], l))"
| "login_step (CheckUser u now) l = (case AllowUser u now l of (b, l) \<Rightarrow> ([b], l))"
| "login_step (FailIP ip n1 n2) l = ([], RecordFailureIP ip n1 n2 l)"
| "login_step (FailUser u n1 n2) l = ([], RecordFailureUser u n1 n2 l)"
| "login_step (Success ip u) l = ([], RecordSuccess ip u l)"

fun login_run :: "login_event list \<Rightarrow> LoginLimiter \<Rightarrow> bool list" where
  "login_run [] l = []"
| "login_run (e # es) l = (case login_step e l of (out, l) \<Rightarrow> out @ login_run es l)"

text \<open>The reference: complete failure histories, and a count over the last 15 minutes.\<close>

type_synonym histories = "(string \<Rightarrow> instant list) \<times> (string \<Rightarrow> instant list)"

definition spec_allow :: "int \<Rightarrow> (string \<Rightarrow> instant list) \<Rightarrow> string \<Rightarrow> instant \<Rightarrow> bool" where
  "spec_allow mx h k now = (k = [] \<or> int (recent now (h k)) < mx)"

definition spec_fail :: "(string \<Rightarrow> instant list) \<Rightarrow> string \<Rightarrow> instant \<Rightarrow> string \<Rightarrow> instant list" where
  "spec_fail h k now = (if k = [] then h else h(k := h k @ [now]))"

definition spec_clear :: "(string \<Rightarrow> instant list) \<Rightarrow> string \<Rightarrow> string \<Rightarrow> instant list" where
  "spec_clear h k = (if k = [] then h else h(k := []))"

fun spec_step :: "int \<Rightarrow> int \<Rightarrow> login_event \<Rightarrow> histories \<Rightarrow> bool list \<times> histories" where
  "spec_step mi mu (CheckIP ip now) (hi, hu) = ([spec_allow mi hi ip now], (hi, hu))"
| "spec_step mi mu (CheckUser u now) (hi, hu) = ([spec_allow mu hu (normalizeUserKey u) now], (hi, hu))"
| "spec_step mi mu (FailIP ip n1 n2) (hi, hu) = ([], (spec_fail hi ip n2, hu))"
| "spec_step mi mu (FailUser u n1 n2) (hi, hu) = ([], (hi, spec_fail hu (normalizeUserKey u) n2))"
| "spec_step mi mu (Success ip u) (hi, hu) = ([], (spec_clear hi ip, spec_clear hu (normalizeUserKey u)))"

fun spec_run :: "int \<Rightarrow> int \<Rightarrow> login_event list \<Rightarrow> histories \<Rightarrow> bool list" where
  "spec_run mi mu [] h = []"
| "spec_run mi mu (e # es) h = (case spec_step mi mu e h of (out, h) \<Rightarrow> out @ spec_run mi mu es h)"

text \<open>The readings of the (monotonic) clock in program order, and the keys that fail.\<close>

fun readings :: "login_event \<Rightarrow> instant list" where
  "readings (CheckIP _ n) = [n]"
| "readings (CheckUser _ n) = [n]"
| "readings (FailIP _ n1 n2) = [n1, n2]"
| "readings (FailUser _ n1 n2) = [n1, n2]"
| "readings (Success _ _) = []"

definition ip_keys :: "login_event list \<Rightarrow> string set" where
  "ip_keys es = set (concat (map (\<lambda>e. case e of FailIP ip _ _ \<Rightarrow> [ip] | _ \<Rightarrow> []) es))"

definition user_keys :: "login_event list \<Rightarrow> string set" where
  "user_keys es = set (concat (map (\<lambda>e. case e of FailUser u _ _ \<Rightarrow> [normalizeUserKey u] | _ \<Rightarrow> []) es))"

definition limiter_sim :: "string set \<Rightarrow> string set \<Rightarrow> int \<Rightarrow> int \<Rightarrow> instant \<Rightarrow> LoginLimiter \<Rightarrow> histories \<Rightarrow> bool" where
  "limiter_sim K U mi mu t l h = (tracks ByIP K t l (fst h) \<and> tracks ByUser U t l (snd h)
     \<and> ll_maxIP l = mi \<and> ll_maxUser l = mu)"

lemma tracks_clear:
  "tracks ByIP K t l hi \<Longrightarrow> tracks ByIP K t (RecordSuccess ip u l) (spec_clear hi ip)"
  "tracks ByUser K t l hu \<Longrightarrow> tracks ByUser K t (RecordSuccess ip u l) (spec_clear hu (normalizeUserKey u))"
  by (auto simp: tracks_def RecordSuccess_def spec_clear_def Let_def set_delete)

lemma limiter_step:
  assumes sim: "limiter_sim K U mi mu t l h"
    and K: "finite K" "card K \<le> maxEntries" "ip_keys [e] \<subseteq> K"
    and U: "finite U" "card U \<le> maxEntries" "user_keys [e] \<subseteq> U"
    and clock: "sorted (t # readings e)"
  shows "fst (login_step e l) = fst (spec_step mi mu e h)
    \<and> limiter_sim K U mi mu (last (t # readings e)) (snd (login_step e l)) (snd (spec_step mi mu e h))"
proof -
  obtain hi hu where h: "h = (hi, hu)" by (cases h)
  have ti: "tracks ByIP K t l hi" and tu: "tracks ByUser U t l hu"
    and mx: "ll_maxIP l = mi" "ll_maxUser l = mu"
    using sim by (auto simp: limiter_sim_def h)
  show ?thesis
  proof (cases e)
    case (CheckIP ip now)
    then have "t \<le> now" using clock by simp
    then show ?thesis unfolding h CheckIP limiter_sim_def
      using allowBucket_decision [OF ti] allowBucket_frame [OF ti] allowBucket_frame [OF tu] mx
      by (cases "ip = []") (simp_all add: AllowIP_def spec_allow_def case_prod_beta
          tracks_later [OF ti] tracks_later [OF tu])
  next
    case (CheckUser u now)
    then have "t \<le> now" using clock by simp
    then show ?thesis unfolding h CheckUser limiter_sim_def
      using allowBucket_decision [OF tu] allowBucket_frame [OF ti] allowBucket_frame [OF tu] mx
      by (cases "normalizeUserKey u = []") (simp_all add: AllowUser_def spec_allow_def case_prod_beta
          tracks_later [OF ti] tracks_later [OF tu])
  next
    case (FailIP ip n1 n2)
    then have "t \<le> n1" "n1 \<le> n2" "ip \<in> K" using clock K by (auto simp: ip_keys_def)
    then show ?thesis unfolding h FailIP limiter_sim_def
      using recordBucket_tracks [OF ti _ _ K(1,2)] recordBucket_other [OF tu] mx
        tracks_later [OF ti] tracks_later [OF tu]
      by (auto simp: RecordFailureIP_def spec_fail_def)
  next
    case (FailUser u n1 n2)
    then have "t \<le> n1" "n1 \<le> n2" "normalizeUserKey u \<in> U" using clock U by (auto simp: user_keys_def)
    then show ?thesis unfolding h FailUser limiter_sim_def
      using recordBucket_tracks [OF tu _ _ U(1,2)] recordBucket_other [OF ti] mx
        tracks_later [OF ti] tracks_later [OF tu]
      by (auto simp: RecordFailureUser_def spec_fail_def)
  next
    case (Success ip u)
    then show ?thesis unfolding h limiter_sim_def
      using tracks_clear(1) [OF ti] tracks_clear(2) [OF tu] mx by (simp add: RecordSuccess_def Let_def)
  qed
qed

lemma limiter_run:
  assumes "limiter_sim K U mi mu t l h" "finite K" "card K \<le> maxEntries" "ip_keys es \<subseteq> K"
    and "finite U" "card U \<le> maxEntries" "user_keys es \<subseteq> U" "sorted (t # concat (map readings es))"
  shows "login_run es l = spec_run mi mu es h"
  using assms
proof (induction es arbitrary: t l h)
  case (Cons e es)
  have keys: "ip_keys [e] \<subseteq> K" "ip_keys es \<subseteq> K" "user_keys [e] \<subseteq> U" "user_keys es \<subseteq> U"
    using Cons.prems(4,7) by (auto simp: ip_keys_def user_keys_def)
  have srt: "sorted (t # readings e)" "sorted (last (t # readings e) # concat (map readings es))"
    using Cons.prems(8) by (auto simp: sorted_append)
  note one = limiter_step [OF Cons.prems(1-3) keys(1) Cons.prems(5,6) keys(3) srt(1)]
  have "login_run es (snd (login_step e l)) = spec_run mi mu es (snd (spec_step mi mu e h))"
    by (rule Cons.IH [OF conjunct2 [OF one] Cons.prems(2,3) keys(2) Cons.prems(5,6) keys(4) srt(2)])
  with one show ?case by (simp add: case_prod_beta)
qed simp

lemma limiter_sim_new:
  "limiter_sim K U (env_limit e1 defaultMaxIP) (env_limit e2 defaultMaxUser) t (NewLoginLimiter e1 e2) (\<lambda>_. [], \<lambda>_. [])"
  by (simp add: limiter_sim_def tracks_def NewLoginLimiter_def times_of_def)


text \<open>Five failures lock the address out; ten minutes later it still is, after a quarter of an hour not.\<close>

definition demo_logins :: "login_event list" where
  "demo_logins = map (\<lambda>i. FailIP ''10.0.0.1'' (i * second) (i * second)) [1, 2, 3, 4, 5]
     @ [CheckIP ''10.0.0.1'' (10 * minute), CheckIP ''10.0.0.1'' (16 * minute)]"


lemma RecordFailureIP_fold: "fold (\<lambda>t. RecordFailureIP ip t t) ts l = ip.fails ip ts l"
  by (induction ts arbitrary: l) simp_all

text \<open>
  Lockout: once an address (any limit configured) has failed at least \<open>maxIP\<close> times, the next
  check within 15 minutes of the first of those failures is refused.
\<close>

theorem ip_lockout:
  assumes "ip \<noteq> []" "sorted (0 # ts @ [now])" "\<forall>t \<in> set ts. now - defaultWindow < t"
    and "env_limit e1 defaultMaxIP \<le> int (length ts)"
  shows "\<not> fst (AllowIP ip now (fold (\<lambda>t. RecordFailureIP ip t t) ts (NewLoginLimiter e1 e2)))"
  unfolding RecordFailureIP_fold
proof (rule ip.locked_out [where K = "{ip}" and t = 0 and h = "\<lambda>_. []"])
  show "tracks ByIP {ip} 0 (NewLoginLimiter e1 e2) (\<lambda>_. [])"
    using limiter_sim_new by (simp add: limiter_sim_def)
  show "ll_maxIP (NewLoginLimiter e1 e2) \<le> int (length ts)"
    using assms(4) by (simp add: NewLoginLimiter_def)
qed (use assms in \<open>simp_all add: maxEntries_def\<close>)

theorem ip_lockout_witness:
  "\<not> fst (AllowIP ''10.0.0.1'' 100 (fold (\<lambda>t. RecordFailureIP ''10.0.0.1'' t t) [10, 20, 30, 40, 50]
     (NewLoginLimiter [] [])))"
proof (rule ip_lockout)
  have "env_limit [] d = d" for d
    by (simp add: env_limit_def trim_space_def trim_left_def trim_right_def strip_front.simps
        space_runes_def has_prefix_def)
  then show "env_limit [] defaultMaxIP \<le> int (length [10, 20, 30, 40, 50 :: int])"
    by (simp add: defaultMaxIP_def)
qed (simp_all add: defaultWindow_def go_simps)

end
