(* ===== verification/Auth_Login.thy ===== *)
theory Auth_Login
  imports Request_Guards Login_Limiter
begin

text \<open>
  Logging in and out (\<open>src/internal/httpapi/auth_handler.go\<close>, \<open>auth_totp.go\<close>): the password
  step with both throttles, the pending second factors, the second step, logout and the password
  change.  The state joins the account tables, the limiter and the pending logins; every component
  the constructor sets up is present.  One clock reading serves a whole request; random tokens are
  arguments; a body that does not decode is \<open>None\<close>; whether an account has passkeys is a field of
  the environment.
\<close>

definition mfaPendingTTL :: duration where "mfaPendingTTL = 5 * minute"
definition mfaMaxFailures :: nat where "mfaMaxFailures = 5"

record mfaPending =
  mp_userID :: string
  mp_username :: string
  mp_ip :: string
  mp_expires :: instant
  mp_failures :: nat
  mp_webauthn :: "string option"

type_synonym mfaPendingStore = "(string, mfaPending) gomap"

definition mfa_issue :: "string \<Rightarrow> string \<Rightarrow> string \<Rightarrow> string \<Rightarrow> instant \<Rightarrow> mfaPendingStore \<Rightarrow> string \<times> mfaPendingStore" where
  "mfa_issue buf userID username ip now items =
     (let tok = b64_url buf; items = filter (\<lambda>(_, p). \<not> now > mp_expires p) items
      in (tok, AList.update tok \<lparr>mp_userID = userID, mp_username = username, mp_ip = ip,
            mp_expires = now + mfaPendingTTL, mp_failures = 0, mp_webauthn = None\<rparr> items))"

definition mfa_get :: "string \<Rightarrow> instant \<Rightarrow> mfaPendingStore \<Rightarrow> mfaPending option \<times> mfaPendingStore" where
  "mfa_get tok now items = (case lookup items tok of
     Some p \<Rightarrow> if now > mp_expires p then (None, AList.delete tok items) else (Some p, items)
   | None \<Rightarrow> (None, AList.delete tok items))"

definition setWebAuthnSession :: "string \<Rightarrow> string \<Rightarrow> mfaPendingStore \<Rightarrow> mfaPendingStore" where
  "setWebAuthnSession tok sd items = (case lookup items tok of
     Some p \<Rightarrow> AList.update tok (p\<lparr>mp_webauthn := Some sd\<rparr>) items | None \<Rightarrow> items)"

definition mfa_fail :: "string \<Rightarrow> mfaPendingStore \<Rightarrow> nat \<times> mfaPendingStore" where
  "mfa_fail tok items = (case lookup items tok of None \<Rightarrow> (mfaMaxFailures, items)
     | Some p \<Rightarrow> let p = p\<lparr>mp_failures := mp_failures p + 1\<rparr> in
         (mp_failures p, if mp_failures p \<ge> mfaMaxFailures then AList.delete tok items else AList.update tok p items))"

definition mfa_consume :: "string \<Rightarrow> mfaPendingStore \<Rightarrow> mfaPendingStore" where
  "mfa_consume tok items = AList.delete tok items"

subsection \<open>Handlers\<close>

record App =
  ap_db :: AuthDB
  ap_limiter :: LoginLimiter
  ap_mfa :: mfaPendingStore

record login_env =
  le_guard :: guard_env
  le_totp :: totp_env
  le_passkeys :: "string \<Rightarrow> bool"
  le_ttl :: duration

datatype login_resp =
    LoginError nat string
  | MFARequired string "string list"
  | SessionIssued LoginSession User
  | NoContent

definition clientIP :: "login_env \<Rightarrow> http_req \<Rightarrow> string" where
  "clientIP env r = ClientIPFromHTTP (trustForwardedFor (le_guard env) r) (rq_XForwardedFor r) (rq_RemoteAddr r)"

definition finishLogin :: "login_env \<Rightarrow> User \<Rightarrow> string \<Rightarrow> instant \<Rightarrow> App \<Rightarrow> login_resp \<times> App" where
  "finishLogin env u raw now s = (case ses_Create (ge_auth (le_guard env)) (le_ttl env) raw (u_ID u) now (ap_db s) of
     Inl _ \<Rightarrow> (LoginError 500 ''auth.sessionCreateFailed'', s)
   | Inr (sess, db') \<Rightarrow> (SessionIssued sess (if u_Role u = [] then u\<lparr>u_Role := RoleUser\<rparr> else u), s\<lparr>ap_db := db'\<rparr>))"

definition record_failures :: "string \<Rightarrow> string \<Rightarrow> instant \<Rightarrow> LoginLimiter \<Rightarrow> LoginLimiter" where
  "record_failures ip username now l =
     RecordFailureUser username now now (if ip \<noteq> [] then RecordFailureIP ip now now l else l)"

definition handleLogin ::
  "login_env \<Rightarrow> http_req \<Rightarrow> (string \<times> string) option \<Rightarrow> string \<Rightarrow> string \<Rightarrow> instant \<Rightarrow> App \<Rightarrow> login_resp \<times> App" where
  "handleLogin env r body mfa_buf raw now s =
     (let ip = clientIP env r in
      case AllowIP ip now (ap_limiter s) of (ok, lim) \<Rightarrow>
      let s = s\<lparr>ap_limiter := lim\<rparr> in
      if \<not> ok then (LoginError 429 ''auth.tooManyAttempts'', s)
      else if \<not> sameOriginRequest (le_guard env) r then (LoginError 403 ''common.forbidden'', s)
      else case body of None \<Rightarrow> (LoginError 400 ''common.invalidRequestBody'', s)
      | Some (username, password) \<Rightarrow>
        (case AllowUser username now (ap_limiter s) of (ok, lim) \<Rightarrow>
         let s = s\<lparr>ap_limiter := lim\<rparr> in
         if \<not> ok then (LoginError 429 ''auth.tooManyAttempts'', s)
         else case Authenticate (ge_auth (le_guard env)) username password (ap_db s) of
           Inl e \<Rightarrow>
             if e = ErrUserDisabled then (LoginError 403 ''auth.accountDisabled'', s)
             else (LoginError 401 ''auth.invalidCredentials'', s\<lparr>ap_limiter := record_failures ip username now (ap_limiter s)\<rparr>)
         | Inr u \<Rightarrow>
           let s = s\<lparr>ap_limiter := RecordSuccess ip username (ap_limiter s)\<rparr>;
               totpOn = totp_Enabled (u_ID u) (ap_db s); passkeysOn = le_passkeys env (u_ID u)
           in if totpOn \<or> passkeysOn then
                (case mfa_issue mfa_buf (u_ID u) (u_Username u) ip now (ap_mfa s) of (tok, items) \<Rightarrow>
                 (MFARequired tok ((if totpOn then [''totp''] else []) @ (if passkeysOn then [''webauthn''] else [])),
                  s\<lparr>ap_mfa := items\<rparr>))
              else finishLogin env u raw now s))"

definition handleLoginTOTP ::
  "login_env \<Rightarrow> http_req \<Rightarrow> (string \<times> string) option \<Rightarrow> string \<Rightarrow> instant \<Rightarrow> App \<Rightarrow> login_resp \<times> App" where
  "handleLoginTOTP env r body raw now s =
     (if \<not> sameOriginRequest (le_guard env) r then (LoginError 403 ''common.forbidden'', s)
      else case body of None \<Rightarrow> (LoginError 400 ''common.invalidRequestBody'', s)
      | Some (mfaToken, code) \<Rightarrow>
        (case mfa_get (trim_space mfaToken) now (ap_mfa s) of
           (None, items) \<Rightarrow> (LoginError 401 ''auth.mfaTokenInvalid'', s\<lparr>ap_mfa := items\<rparr>)
         | (Some p, items) \<Rightarrow>
           let s = s\<lparr>ap_mfa := items\<rparr>; ip = clientIP env r in
           case AllowIP ip now (ap_limiter s) of (okIP, lim) \<Rightarrow>
           let (okUser, lim) = (if okIP then AllowUser (mp_username p) now lim else (False, lim));
               s = s\<lparr>ap_limiter := lim\<rparr>
           in if \<not> okIP \<or> \<not> okUser then (LoginError 429 ''auth.tooManyAttempts'', s)
              else case totp_Verify (le_totp env) (mp_userID p) code now (ap_db s) of
                Inl _ \<Rightarrow> (LoginError 401 ''auth.totpInvalidCode'',
                  s\<lparr>ap_mfa := snd (mfa_fail (trim_space mfaToken) (ap_mfa s)),
                     ap_limiter := record_failures ip (mp_username p) now (ap_limiter s)\<rparr>)
              | Inr (_, db') \<Rightarrow>
                let s = s\<lparr>ap_db := db', ap_mfa := mfa_consume mfaToken (ap_mfa s),
                          ap_limiter := RecordSuccess ip (mp_username p) (ap_limiter s)\<rparr>
                in case GetByID (mp_userID p) (ap_db s) of
                     Inl _ \<Rightarrow> (LoginError 401 ''auth.invalidCredentials'', s)
                   | Inr u \<Rightarrow> finishLogin env u raw now s))"

definition handleLogout :: "login_env \<Rightarrow> http_req \<Rightarrow> App \<Rightarrow> login_resp \<times> App" where
  "handleLogout env r s = (NoContent, (case rq_Cookie r of
     Some c \<Rightarrow> if c \<noteq> [] then s\<lparr>ap_db := ses_Delete (ge_auth (le_guard env)) c (ap_db s)\<rparr> else s | None \<Rightarrow> s))"

fun password_error :: "auth_error \<Rightarrow> nat \<times> string" where
  "password_error ErrWrongPassword = (401, ''auth.currentPasswordWrong'')"
| "password_error ErrPasswordUnchanged = (400, ''auth.passwordUnchanged'')"
| "password_error ErrUserNotFound = (401, ''common.unauthorized'')"
| "password_error ErrEmptyPassword = (400, ''auth.passwordEmpty'')"
| "password_error ErrPasswordTooShort = (400, ''auth.passwordTooShort'')"
| "password_error ErrPasswordTooLong = (400, ''auth.passwordTooLong'')"
| "password_error ErrPasswordNoUpper = (400, ''auth.passwordNoUpper'')"
| "password_error ErrPasswordNoLower = (400, ''auth.passwordNoLower'')"
| "password_error ErrPasswordNoDigit = (400, ''auth.passwordNoDigit'')"
| "password_error ErrPasswordNoSpecial = (400, ''auth.passwordNoSpecial'')"
| "password_error _ = (500, ''common.internalError'')"

definition or_keep :: "'e + 'a \<Rightarrow> 'a \<Rightarrow> 'a" where
  "or_keep x a = (case x of Inr y \<Rightarrow> y | Inl _ \<Rightarrow> a)"

definition handleChangePassword ::
  "login_env \<Rightarrow> http_req \<Rightarrow> (string \<times> string) option \<Rightarrow> string \<Rightarrow> instant \<Rightarrow> App \<Rightarrow> login_resp \<times> App" where
  "handleChangePassword env r body salt now s =
     (let ge = le_guard env; ip = clientIP env r in
      case AllowIP ip now (ap_limiter s) of (ok, lim) \<Rightarrow>
      let s = s\<lparr>ap_limiter := lim\<rparr> in
      if \<not> ok then (LoginError 429 ''auth.tooManyAttempts'', s)
      else case currentUserID ge r now (ap_db s) of (userID, db) \<Rightarrow>
      let s = s\<lparr>ap_db := db\<rparr> in
      if userID = [] then (LoginError 401 ''common.unauthorized'', s)
      else case body of None \<Rightarrow> (LoginError 400 ''common.invalidRequestBody'', s)
      | Some (current, new) \<Rightarrow>
        (case UpdatePassword (ge_auth ge) salt userID current new (ap_db s) of
           Inl e \<Rightarrow> (case password_error e of (st, k) \<Rightarrow>
             (LoginError st k, if ip \<noteq> [] \<and> e = ErrWrongPassword
                then s\<lparr>ap_limiter := RecordFailureUser userID now now (RecordFailureIP ip now now (ap_limiter s))\<rparr> else s))
         | Inr db \<Rightarrow>
           let db = or_keep (SetForcePasswordChange userID False db) db;
               keep = (case rq_Cookie r of Some c \<Rightarrow> c | None \<Rightarrow> []);
               db = or_keep (DeleteAllForUser (ge_auth ge) userID keep db) db
           in (NoContent, s\<lparr>ap_db := db, ap_limiter := RecordSuccess ip userID (ap_limiter s)\<rparr>)))"


subsection \<open>Outcomes of the handlers\<close>

lemma finishLogin_cases:
  obtains (issued) sess db' where "finishLogin env u raw now s = (SessionIssued sess (if u_Role u = [] then u\<lparr>u_Role := RoleUser\<rparr> else u), s\<lparr>ap_db := db'\<rparr>)"
      "ses_Create (ge_auth (le_guard env)) (le_ttl env) raw (u_ID u) now (ap_db s) = Inr (sess, db')"
  | (refused) "finishLogin env u raw now s = (LoginError 500 ''auth.sessionCreateFailed'', s)"
  by (cases "ses_Create (ge_auth (le_guard env)) (le_ttl env) raw (u_ID u) now (ap_db s)") (auto simp: finishLogin_def split: prod.splits)

lemma handleLogin_cases:
  assumes "handleLogin env r body buf raw now s = (resp, s')"
  obtains (refused) st k where "resp = LoginError st k" "ap_mfa s' = ap_mfa s" "ap_db s' = ap_db s"
  | (challenge) name pw u lim ms tok items where "body = Some (name, pw)" "resp = MFARequired tok ms"
      "Authenticate (ge_auth (le_guard env)) name pw (ap_db s) = Inr u"
      "mfa_issue buf (u_ID u) (u_Username u) (clientIP env r) now (ap_mfa s) = (tok, items)"
      "s' = s\<lparr>ap_limiter := RecordSuccess (clientIP env r) name lim, ap_mfa := items\<rparr>"
      "lim = snd (AllowUser name now (snd (AllowIP (clientIP env r) now (ap_limiter s))))"
      "totp_Enabled (u_ID u) (ap_db s) \<or> le_passkeys env (u_ID u)"
  | (issued) name pw u sess where "body = Some (name, pw)"
      "resp = SessionIssued sess (if u_Role u = [] then u\<lparr>u_Role := RoleUser\<rparr> else u)"
      "Authenticate (ge_auth (le_guard env)) name pw (ap_db s) = Inr u" "\<not> totp_Enabled (u_ID u) (ap_db s)"
      "\<not> le_passkeys env (u_ID u)" "ap_mfa s' = ap_mfa s"
      "ses_Create (ge_auth (le_guard env)) (le_ttl env) raw (u_ID u) now (ap_db s) = Inr (sess, ap_db s')"
proof -
  obtain ok1 lim1 where ip: "AllowIP (clientIP env r) now (ap_limiter s) = (ok1, lim1)" by fastforce
  show ?thesis
  proof (cases "ok1 \<and> sameOriginRequest (le_guard env) r \<and> body \<noteq> None")
    case False
    then show ?thesis using assms refused by (cases body) (auto simp: handleLogin_def ip Let_def split: if_splits)
  next
    case True
    then obtain name pw where body: "body = Some (name, pw)" by (cases body) auto
    obtain ok2 lim where us: "AllowUser name now lim1 = (ok2, lim)" by fastforce
    show ?thesis
    proof (cases "ok2 \<and> (\<exists>u. Authenticate (ge_auth (le_guard env)) name pw (ap_db s) = Inr u)")
      case False
      then show ?thesis using True assms refused body us
        by (auto simp: handleLogin_def ip Let_def split: if_splits sum.splits)
    next
      case ok: True
      then obtain u where u: "Authenticate (ge_auth (le_guard env)) name pw (ap_db s) = Inr u" by blast
      let ?s = "s\<lparr>ap_limiter := RecordSuccess (clientIP env r) name lim\<rparr>"
      show ?thesis
      proof (cases "totp_Enabled (u_ID u) (ap_db s) \<or> le_passkeys env (u_ID u)")
        case second: True
        obtain tok items where iss: "mfa_issue buf (u_ID u) (u_Username u) (clientIP env r) now (ap_mfa s) = (tok, items)" by fastforce
        have "s' = ?s\<lparr>ap_mfa := items\<rparr>" "\<exists>ms. resp = MFARequired tok ms"
          using assms True ok body us u second iss by (auto simp: handleLogin_def ip Let_def)
        then show ?thesis using challenge [OF body _ u iss] second ip us by auto
      next
        case False
        then have "(resp, s') = finishLogin env u raw now ?s"
          using assms True ok body us u by (simp add: handleLogin_def ip Let_def)
        then show ?thesis using False issued [OF body _ u] refused
          by (cases rule: finishLogin_cases [of env u raw now ?s]) auto
      qed
    qed
  qed
qed

lemma mfa_get_cases:
  obtains (found) p where "mfa_get tok now items = (Some p, items)" "lookup items tok = Some p" "now \<le> mp_expires p"
  | (gone) "mfa_get tok now items = (None, AList.delete tok items)"
proof (cases "lookup items tok")
  case None
  then show ?thesis using gone by (simp add: mfa_get_def)
next
  case (Some p)
  then show ?thesis using found gone by (cases "mp_expires p < now") (simp_all add: mfa_get_def)
qed

lemma handleLoginTOTP_cases:
  assumes "handleLoginTOTP env r body raw now s = (resp, s')"
  obtains (refused) st k where "resp = LoginError st k" "ap_db s' = ap_db s"
      "ap_mfa s' = ap_mfa s \<or> (\<exists>tok. ap_mfa s' = AList.delete tok (ap_mfa s))"
  | (wrong) tok code p where "body = Some (tok, code)" "resp = LoginError 401 ''auth.totpInvalidCode''" "ap_db s' = ap_db s"
      "lookup (ap_mfa s) (trim_space tok) = Some p" "ap_mfa s' = snd (mfa_fail (trim_space tok) (ap_mfa s))"
  | (verified) tok code p b db' where "body = Some (tok, code)" "lookup (ap_mfa s) (trim_space tok) = Some p" "now \<le> mp_expires p"
      "totp_Verify (le_totp env) (mp_userID p) code now (ap_db s) = Inr (b, db')" "ap_mfa s' = mfa_consume tok (ap_mfa s)"
      "(\<exists>st k. resp = LoginError st k) \<and> ap_db s' = db'
       \<or> (\<exists>sess u. GetByID (mp_userID p) db' = Inr u \<and> resp = SessionIssued sess (if u_Role u = [] then u\<lparr>u_Role := RoleUser\<rparr> else u)
            \<and> ses_Create (ge_auth (le_guard env)) (le_ttl env) raw (u_ID u) now db' = Inr (sess, ap_db s'))"
proof (cases "sameOriginRequest (le_guard env) r \<and> body \<noteq> None")
  case False
  then show ?thesis using assms refused by (cases body) (auto simp: handleLoginTOTP_def split: if_splits)
next
  case True
  then obtain tok code where body: "body = Some (tok, code)" by (cases body) auto
  show ?thesis
  proof (cases rule: mfa_get_cases [of "trim_space tok" now "ap_mfa s"])
    case gone
    then have "resp = LoginError 401 ''auth.mfaTokenInvalid''" "s' = s\<lparr>ap_mfa := AList.delete (trim_space tok) (ap_mfa s)\<rparr>"
      using assms True body by (simp_all add: handleLoginTOTP_def)
    then show ?thesis using refused [of 401 "''auth.mfaTokenInvalid''"] by force
  next
    case (found p)
    obtain ok1 lim1 where ip: "AllowIP (clientIP env r) now (ap_limiter s) = (ok1, lim1)" by fastforce
    obtain ok2 lim where us: "AllowUser (mp_username p) now lim1 = (ok2, lim)" by fastforce
    show ?thesis
    proof (cases "ok1 \<and> ok2")
      case False
      then show ?thesis using assms True body found ip us refused by (auto simp: handleLoginTOTP_def Let_def split: if_splits)
    next
      case lim: True
      show ?thesis
      proof (cases "totp_Verify (le_totp env) (mp_userID p) code now (ap_db s)")
        case (Inl e)
        then show ?thesis using assms True body found ip us lim wrong by (auto simp: handleLoginTOTP_def Let_def)
      next
        case (Inr x)
        obtain b db' where x: "x = (b, db')" by fastforce
        let ?s = "s\<lparr>ap_db := db', ap_mfa := mfa_consume tok (ap_mfa s), ap_limiter := RecordSuccess (clientIP env r) (mp_username p) lim\<rparr>"
        have res: "(case GetByID (mp_userID p) db' of Inl _ \<Rightarrow> (LoginError 401 ''auth.invalidCredentials'', ?s)
            | Inr u \<Rightarrow> finishLogin env u raw now ?s) = (resp, s')"
          using assms True body found ip us lim Inr x by (simp add: handleLoginTOTP_def Let_def)
        note ver = verified [OF body found(2,3) Inr [unfolded x]]
        show ?thesis
        proof (cases "GetByID (mp_userID p) db'")
          case (Inl e)
          then show ?thesis using res ver by auto
        next
          case (Inr u)
          then show ?thesis using res ver by (cases rule: finishLogin_cases [of env u raw now ?s]) auto
        qed
      qed
    qed
  qed
qed


subsection \<open>Runs\<close>

text \<open>
  A run of the login handlers, interleaved with any other account operation.  The log keeps, for
  every challenge handed out, the account whose password was verified for it.
\<close>

definition log_login ::
  "login_env \<Rightarrow> (string \<times> string) option \<Rightarrow> login_resp \<Rightarrow> App \<Rightarrow> (string \<times> string) list \<Rightarrow> (string \<times> string) list" where
  "log_login env body resp s H = (case (body, resp) of
     (Some (name, pw), MFARequired tok _) \<Rightarrow>
        (case Authenticate (ge_auth (le_guard env)) name pw (ap_db s) of Inr u \<Rightarrow> (tok, u_ID u) # H | Inl _ \<Rightarrow> H)
   | _ \<Rightarrow> H)"

inductive login_step :: "login_env \<Rightarrow> (string \<times> string) list \<times> App \<Rightarrow> (string \<times> string) list \<times> App \<Rightarrow> bool" for env where
  password: "handleLogin env r body buf raw now s = (resp, s') \<Longrightarrow> login_step env (H, s) (log_login env body resp s H, s')"
| second: "handleLoginTOTP env r body raw now s = (resp, s') \<Longrightarrow> login_step env (H, s) (H, s')"
| logout: "login_step env (H, s) (H, snd (handleLogout env r s))"
| change: "login_step env (H, s) (H, snd (handleChangePassword env r body salt now s))"
| passkey: "login_step env (H, s) (H, s\<lparr>ap_mfa := setWebAuthnSession tok sd (ap_mfa s)\<rparr>)"
| accounts: "auth_step (ap_db s) db' \<Longrightarrow> login_step env (H, s) (H, s\<lparr>ap_db := db'\<rparr>)"

definition mfa_inv :: "(string \<times> string) list \<Rightarrow> mfaPendingStore \<Rightarrow> bool" where
  "mfa_inv H items = (wf_map items \<and> (\<forall>(tok, p) \<in> set items. (tok, mp_userID p) \<in> set H \<and> mp_failures p < mfaMaxFailures))"

lemma mfa_inv_delete: "mfa_inv H items \<Longrightarrow> mfa_inv H (AList.delete tok items)"
  by (auto simp: mfa_inv_def set_delete)

lemma mfa_inv_lookup: "mfa_inv H items \<Longrightarrow> lookup items tok = Some p \<Longrightarrow> (tok, mp_userID p) \<in> set H \<and> mp_failures p < mfaMaxFailures"
  by (force simp: mfa_inv_def dest: map_of_SomeD)

lemma mfa_inv_update:
  "mfa_inv H items \<Longrightarrow> (tok, mp_userID p) \<in> set H \<Longrightarrow> mp_failures p < mfaMaxFailures \<Longrightarrow> mfa_inv H (AList.update tok p items)"
  by (auto simp: mfa_inv_def set_update)

lemma mfa_inv_fail: "mfa_inv H items \<Longrightarrow> mfa_inv H (snd (mfa_fail tok items))"
  by (auto simp: mfa_fail_def Let_def split: option.split intro!: mfa_inv_delete mfa_inv_update dest: mfa_inv_lookup)

lemma mfa_inv_issue:
  assumes "mfa_inv H items" "mfa_issue buf uid name ip now items = (tok, items')"
  shows "mfa_inv ((tok, uid) # H) items'"
proof -
  have "mfa_inv ((tok, uid) # H) (filter (\<lambda>(_, p). \<not> now > mp_expires p) items)"
    using assms(1) by (auto simp: mfa_inv_def)
  from mfa_inv_update [OF this, of tok] show ?thesis
    using assms(2) by (auto simp: mfa_issue_def Let_def mfaMaxFailures_def)
qed

lemma mfa_inv_step: "login_step env x y \<Longrightarrow> mfa_inv (fst x) (ap_mfa (snd x)) \<Longrightarrow> mfa_inv (fst y) (ap_mfa (snd y))"
proof (induction rule: login_step.induct)
  case (password r body buf raw now s resp s' H)
  from password(1) show ?case
  proof (cases rule: handleLogin_cases)
    case (challenge name pw u lim ms tok items)
    then show ?thesis using password mfa_inv_issue [OF _ challenge(4), of H] by (simp add: log_login_def)
  qed (use password in \<open>auto simp: log_login_def split: option.split\<close>)
next
  case (second r body raw now s resp s' H)
  from second(1) show ?case
    by (cases rule: handleLoginTOTP_cases) (use second mfa_inv_delete mfa_inv_fail in \<open>auto simp: mfa_consume_def\<close>)
next
  case (logout H s r)
  then show ?case by (auto simp: handleLogout_def split: option.split)
next
  case (change H s r body salt now)
  have "ap_mfa (snd (handleChangePassword env r body salt now s)) = ap_mfa s"
    by (simp add: handleChangePassword_def Let_def split: prod.split option.split sum.split)
  then show ?case using change by simp
next
  case (passkey H s tok sd)
  then show ?case using mfa_inv_lookup mfa_inv_update
    by (auto simp: setWebAuthnSession_def split: option.split)
qed simp

interpretation logins: transition_system "login_step env" "\<lambda>x. ap_mfa (snd x) = []" "\<lambda>x. mfa_inv (fst x) (ap_mfa (snd x))" for env
proof (unfold_locales, goal_cases)
  case (1 x)
  then show ?case by (simp add: mfa_inv_def)
next
  case (2 x y)
  then show ?case by (rule mfa_inv_step)
qed

text \<open>
  C4. No session without all factors.  In any run from a server without pending logins: when the
  password step issues a session, the password of that enabled account was just verified and the
  account has neither TOTP nor passkeys; when the second step issues one, the presented challenge was
  handed out after the password of the same account was verified, it is unexpired, and the one-time
  or recovery code was just accepted for that account.
\<close>

theorem second_factor_enforced:
  assumes "(login_step env)\<^sup>*\<^sup>* (H0, s0) (H, s)" "ap_mfa s0 = []"
  shows "(handleLogin env r body buf raw now s = (SessionIssued sess u, s') \<longrightarrow>
      (\<exists>name pw a. body = Some (name, pw) \<and> Authenticate (ge_auth (le_guard env)) name pw (ap_db s) = Inr a \<and> u_ID a = u_ID u
         \<and> s_UserID sess = u_ID u \<and> \<not> totp_Enabled (u_ID u) (ap_db s) \<and> \<not> le_passkeys env (u_ID u)))
    \<and> (handleLoginTOTP env r body raw now s = (SessionIssued sess u, s') \<longrightarrow>
      (\<exists>tok code p. body = Some (tok, code) \<and> lookup (ap_mfa s) (trim_space tok) = Some p \<and> now \<le> mp_expires p
         \<and> (trim_space tok, mp_userID p) \<in> set H \<and> s_UserID sess = mp_userID p
         \<and> (\<exists>b db'. totp_Verify (le_totp env) (mp_userID p) code now (ap_db s) = Inr (b, db'))))"
proof
  have inv: "mfa_inv H (ap_mfa s)" using logins.reachable_inv [OF _ assms(1)] assms(2) by simp
  have sess: "s_UserID sess = u" if "ses_Create e ttl raw u now db = Inr (sess, db')" for e ttl u db db'
    using that by (auto simp: ses_Create_def Let_def split: if_splits)
  show "handleLogin env r body buf raw now s = (SessionIssued sess u, s') \<longrightarrow>
      (\<exists>name pw a. body = Some (name, pw) \<and> Authenticate (ge_auth (le_guard env)) name pw (ap_db s) = Inr a \<and> u_ID a = u_ID u
         \<and> s_UserID sess = u_ID u \<and> \<not> totp_Enabled (u_ID u) (ap_db s) \<and> \<not> le_passkeys env (u_ID u))"
  proof
    assume "handleLogin env r body buf raw now s = (SessionIssued sess u, s')"
    then show "\<exists>name pw a. body = Some (name, pw) \<and> Authenticate (ge_auth (le_guard env)) name pw (ap_db s) = Inr a \<and> u_ID a = u_ID u
         \<and> s_UserID sess = u_ID u \<and> \<not> totp_Enabled (u_ID u) (ap_db s) \<and> \<not> le_passkeys env (u_ID u)"
      by (cases rule: handleLogin_cases) (auto dest: sess)
  qed
  show "handleLoginTOTP env r body raw now s = (SessionIssued sess u, s') \<longrightarrow>
      (\<exists>tok code p. body = Some (tok, code) \<and> lookup (ap_mfa s) (trim_space tok) = Some p \<and> now \<le> mp_expires p
         \<and> (trim_space tok, mp_userID p) \<in> set H \<and> s_UserID sess = mp_userID p
         \<and> (\<exists>b db'. totp_Verify (le_totp env) (mp_userID p) code now (ap_db s) = Inr (b, db')))"
  proof
    assume "handleLoginTOTP env r body raw now s = (SessionIssued sess u, s')"
    then show "\<exists>tok code p. body = Some (tok, code) \<and> lookup (ap_mfa s) (trim_space tok) = Some p \<and> now \<le> mp_expires p
         \<and> (trim_space tok, mp_userID p) \<in> set H \<and> s_UserID sess = mp_userID p
         \<and> (\<exists>b db'. totp_Verify (le_totp env) (mp_userID p) code now (ap_db s) = Inr (b, db'))"
    proof (cases rule: handleLoginTOTP_cases)
      case (verified tok code p b db')
      then obtain a where a: "GetByID (mp_userID p) db' = Inr a"
          "ses_Create (ge_auth (le_guard env)) (le_ttl env) raw (u_ID a) now db' = Inr (sess, ap_db s')" by auto
      have "u_ID a = mp_userID p" using a(1) by (auto simp: GetByID_def find_user_def scan_user_def split: option.splits dest!: find_in_set)
      then show ?thesis using verified mfa_inv_lookup [OF inv verified(2)] sess [OF a(2)] by auto
    qed auto
  qed
qed


definition demo_lenv :: login_env where
  "demo_lenv = \<lparr>le_guard = demo_genv,
     le_totp = \<lparr>tp_auth = demo_env, tp_crypto = framed_crypto, tp_key = [], tp_otp_ok = (\<lambda>code sec t. code = ''123456'')\<rparr>,
     le_passkeys = (\<lambda>_. False), le_ttl = 24 * hour\<rparr>"

definition demo_app :: App where
  "demo_app = \<lparr>ap_db = demo_accounts\<lparr>a_totp := [\<lparr>to_user_id = ''bob'', to_secret_enc = ''JBSWY3DP'', to_enabled = 1,
       to_recovery_codes = [''#abcde23456''], to_confirmed_at = Some 0\<rparr>]\<rparr>, ap_limiter = NewLoginLimiter [] [], ap_mfa = []\<rparr>"

definition demo_post :: http_req where
  "demo_post = (demo_get ''/api/login'' [])\<lparr>rq_Method := ''POST''\<rparr>"

lemma demo_ip: "clientIP demo_lenv demo_post = ''10.0.0.9''"
  by (simp add: clientIP_def ClientIPFromHTTP_def demo_post_def demo_get_def SplitHostPort_def last_index_byte_def Let_def)

lemma demo_same_origin: "sameOriginRequest demo_genv demo_post"
  by (simp add: sameOriginRequest_def demo_post_def demo_get_def Let_def)

definition demo_challenged :: App where
  "demo_challenged = snd (handleLogin demo_lenv demo_post (Some (''bob'', ''Bob-pass1'')) ''xyz'' ''s1'' 1000 demo_app)"

lemmas demo_login_simps = demo_app_def NewLoginLimiter_def env_limit_def defaultMaxIP_def defaultMaxUser_def
  AllowIP_def AllowUser_def allowBucket_def gcLocked_def time_sub_def go_simps gcInterval_def normalizeUserKey_def times_of_def

lemma demo_allowed:
  "AllowIP ''10.0.0.9'' 1000 (NewLoginLimiter [] []) = (True, NewLoginLimiter [] [])"
  "AllowUser ''bob'' 1000 (NewLoginLimiter [] []) = (True, NewLoginLimiter [] [])"
  by (simp_all add: demo_login_simps trim_space_visible visible_def to_lower_def lower_char_def)

lemma demo_auth: "Authenticate (ge_auth demo_genv) ''bob'' ''Bob-pass1'' (ap_db demo_app) = Inr (scan_user (demo_user ''bob'' ''Bob-pass1'' RoleUser 0 0))"
  by (simp add: Authenticate_def find_username_def demo_app_def demo_accounts_def demo_user_def scan_user_def VerifyPassword_def
        MaxPasswordLength_def demo_genv_def demo_env_def)

lemma demo_password_step:
  "handleLogin demo_lenv demo_post (Some (''bob'', ''Bob-pass1'')) ''xyz'' ''s1'' 1000 demo_app = (MFARequired ''eHl6'' [''totp''], demo_challenged)"
proof -
  have le: "le_guard demo_lenv = demo_genv" "le_passkeys demo_lenv = (\<lambda>_. False)" by (simp_all add: demo_lenv_def)
  have en: "totp_Enabled ''bob'' (ap_db demo_app)" by (simp add: totp_Enabled_def totp_Status_def find_totp_def demo_app_def)
  have tok: "b64_url ''xyz'' = ''eHl6''" by (simp add: b64_url_def byte_def b64_char_def b64_alphabet_def Let_def)
  have lim: "ap_limiter demo_app = NewLoginLimiter [] []" by (simp add: demo_app_def)
  have "fst (handleLogin demo_lenv demo_post (Some (''bob'', ''Bob-pass1'')) ''xyz'' ''s1'' 1000 demo_app) = MFARequired ''eHl6'' [''totp'']"
    using en by (simp add: handleLogin_def Let_def demo_ip le demo_same_origin lim demo_allowed demo_auth scan_user_def demo_user_def mfa_issue_def tok)
  then show ?thesis by (simp add: demo_challenged_def prod_eq_iff)
qed


lemma demo_challenged_eq:
  "demo_challenged = demo_app\<lparr>ap_mfa := [(''eHl6'', \<lparr>mp_userID = ''bob'', mp_username = ''bob'', mp_ip = ''10.0.0.9'',
     mp_expires = 1000 + mfaPendingTTL, mp_failures = 0, mp_webauthn = None\<rparr>)]\<rparr>"
  using demo_password_step
proof (cases rule: handleLogin_cases)
  case (challenge name pw u lim ms tok items)
  have "u = scan_user (demo_user ''bob'' ''Bob-pass1'' RoleUser 0 0)"
    using challenge(1,3) demo_auth by (simp add: demo_lenv_def)
  then have "items = [(''eHl6'', \<lparr>mp_userID = ''bob'', mp_username = ''bob'', mp_ip = ''10.0.0.9'',
     mp_expires = 1000 + mfaPendingTTL, mp_failures = 0, mp_webauthn = None\<rparr>)]"
    using challenge(2,4) by (auto simp: mfa_issue_def demo_ip demo_app_def scan_user_def demo_user_def Let_def)
  moreover have "RecordSuccess (clientIP demo_lenv demo_post) name lim = NewLoginLimiter [] []"
  proof -
    have "name = ''bob''" using challenge(1) by simp
    then have "lim = NewLoginLimiter [] []" using challenge(6) by (simp add: demo_ip demo_app_def demo_allowed del: char.inject)
    then show ?thesis by (simp add: RecordSuccess_def Let_def NewLoginLimiter_def)
  qed
  ultimately show ?thesis using challenge(5) by (simp add: demo_app_def)
qed simp_all

lemma demo_second_step:
  "\<exists>sess u s'. handleLoginTOTP demo_lenv demo_post (Some (''eHl6'', ''123456'')) ''s2'' 1000 demo_challenged = (SessionIssued sess u, s')"
proof -
  have le: "le_guard demo_lenv = demo_genv" by (simp add: demo_lenv_def)
  have ver: "totp_Verify (le_totp demo_lenv) ''bob'' ''123456'' 1000 (ap_db demo_app) = Inr (False, ap_db demo_app)"
    by (simp add: totp_Verify_def verify_read_def loadSecret_def find_totp_def demo_app_def openSecret_def demo_lenv_def validateCode_def
        trim_space_visible visible_def remove_char_def)
  have u: "GetByID ''bob'' (ap_db demo_app) = Inr (scan_user (demo_user ''bob'' ''Bob-pass1'' RoleUser 0 0))"
    by (simp add: GetByID_def find_user_def demo_app_def demo_accounts_def demo_user_def)
  have ses: "\<exists>x. ses_Create (ge_auth demo_genv) (le_ttl demo_lenv) ''s2'' ''bob'' 1000 (ap_db demo_app) = Inr x"
    by (simp add: ses_Create_def user_exists_def demo_app_def demo_accounts_def demo_user_def demo_session_def hashSessionToken_def
        demo_genv_def demo_env_def Let_def)
  have lim: "ap_limiter demo_app = NewLoginLimiter [] []" by (simp add: demo_app_def)
  show ?thesis using ses
    by (auto simp: handleLoginTOTP_def demo_challenged_eq le demo_same_origin trim_space_visible visible_def mfa_get_def mfaPendingTTL_def go_simps
        demo_ip lim demo_allowed ver u Let_def finishLogin_def scan_user_def demo_user_def)
qed

theorem second_factor_enforced_witness:
  "\<exists>sess u s'. handleLoginTOTP demo_lenv demo_post (Some (''eHl6'', ''123456'')) ''s2'' 1000 demo_challenged = (SessionIssued sess u, s')
     \<and> s_UserID sess = ''bob''"
proof -
  let ?H = "log_login demo_lenv (Some (''bob'', ''Bob-pass1'')) (MFARequired ''eHl6'' [''totp'']) demo_app []"
  obtain sess u s' where fin: "handleLoginTOTP demo_lenv demo_post (Some (''eHl6'', ''123456'')) ''s2'' 1000 demo_challenged = (SessionIssued sess u, s')"
    using demo_second_step by blast
  have "(login_step demo_lenv)\<^sup>*\<^sup>* ([], demo_app) (?H, demo_challenged)"
    by (rule r_into_rtranclp, rule login_step.password [OF demo_password_step])
  moreover have "ap_mfa demo_app = []" by (simp add: demo_app_def)
  ultimately have "\<exists>p. lookup (ap_mfa demo_challenged) (trim_space ''eHl6'') = Some p \<and> s_UserID sess = mp_userID p"
    using second_factor_enforced [of demo_lenv "[]" demo_app ?H demo_challenged demo_post "Some (''eHl6'', ''123456'')" "[]" "''s2''" 1000 sess u s'] fin
    by auto
  then have "s_UserID sess = ''bob''" by (simp add: demo_challenged_eq trim_space_visible visible_def)
  with fin show ?thesis by blast
qed

end
