(* ===== verification/Client_Pool.thy ===== *)
theory Client_Pool
  imports Ring_Buffer Session_Manager
begin

text \<open>
  The clients attached to a detachable terminal bridge, as the SSH bridge has them
  (\<open>src/internal/sshproxy/bridge_detachable.go\<close>); the Telnet bridge
  (\<open>src/internal/telnetproxy/bridge_detachable.go\<close>) repeats the same methods line by line, and
  both bridges extend the record of this theory.

  A client entry is a heap object: \<open>p_entries\<close> is the heap, an index is a pointer and
  \<open>p_clients\<close> the set of attached pointers, because the goroutines that read from a client keep
  their entry after it has been removed from the set.  \<open>p_attaching\<close> are the clients that are
  registered and wait for their replay.  Every definition is one critical section of the client
  mutex or one uninterrupted stretch of a goroutine.  The frames handed to a client are recorded
  in order.  Which client writes fail is an argument.
\<close>

datatype frame = TextFrame bytes | BinaryFrame bytes

datatype message_type = TextMessage | BinaryMessage | OtherMessage

record clientEntry =
  ce_canWrite :: bool
  ce_userID :: string
  ce_frames :: "frame list"
  ce_closed :: bool

record clientPool =
  p_endMsg :: string
  p_output :: RingBuffer
  p_stdin :: "bytes list"
  p_recorded :: "bytes list"
  p_entries :: "clientEntry list"
  p_clients :: "nat list"
  p_attaching :: "nat list"

text \<open>A change of heap objects by pointer.\<close>

definition upd_at :: "(nat \<Rightarrow> 'a \<Rightarrow> 'a) \<Rightarrow> 'a list \<Rightarrow> 'a list" where
  "upd_at f xs = map (\<lambda>(i, e). f i e) (List.enumerate 0 xs)"

lemma length_upd_at [simp]: "length (upd_at f xs) = length xs"
  by (simp add: upd_at_def)

lemma nth_upd_at [simp]: "k < length xs \<Longrightarrow> upd_at f xs ! k = f k (xs ! k)"
  by (simp add: upd_at_def nth_enumerate_eq)

text \<open>\<open>broadcast\<close> and \<open>broadcastText\<close>: every attached client is written to, the ones that fail are dropped and closed.\<close>

definition deliver :: "(bytes \<Rightarrow> frame) \<Rightarrow> nat list \<Rightarrow> bytes \<Rightarrow> 'a clientPool_scheme \<Rightarrow> 'a clientPool_scheme" where
  "deliver mk dead p b =
     (if p = [] then b
      else b\<lparr>p_entries := upd_at (\<lambda>i e. if i \<notin> set (p_clients b) then e
                 else if i \<in> set dead then e\<lparr>ce_closed := True\<rparr>
                 else e\<lparr>ce_frames := ce_frames e @ [mk p]\<rparr>) (p_entries b),
             p_clients := filter (\<lambda>i. i \<notin> set dead) (p_clients b)\<rparr>)"

definition broadcast :: "nat list \<Rightarrow> bytes \<Rightarrow> 'a clientPool_scheme \<Rightarrow> 'a clientPool_scheme" where
  "broadcast dead p b = deliver BinaryFrame dead p b"

definition broadcastText :: "nat list \<Rightarrow> bytes \<Rightarrow> 'a clientPool_scheme \<Rightarrow> 'a clientPool_scheme" where
  "broadcastText dead p b = deliver TextFrame dead p b"

definition upd_clients :: "(clientEntry \<Rightarrow> clientEntry) \<Rightarrow> 'a clientPool_scheme \<Rightarrow> 'a clientPool_scheme" where
  "upd_clients f b = b\<lparr>p_entries :=
     upd_at (\<lambda>i e. if i \<in> set (p_clients b) then f e else e) (p_entries b)\<rparr>"

definition SetWriter :: "string \<Rightarrow> 'a clientPool_scheme \<Rightarrow> 'a clientPool_scheme" where
  "SetWriter userID b = upd_clients (\<lambda>e. e\<lparr>ce_canWrite := (userID \<noteq> [] \<and> ce_userID e = userID)\<rparr>) b"

text \<open>Called before the new entry is added, so every attached client is another one.\<close>

definition demoteOtherWritersLocked :: "'a clientPool_scheme \<Rightarrow> 'a clientPool_scheme" where
  "demoteOtherWritersLocked b = upd_clients (\<lambda>e. e\<lparr>ce_canWrite := False\<rparr>) b"

definition kickedEndMsg :: string where "kickedEndMsg = ''session_ended: kicked''"

text \<open>The farewell and the closing of the socket; \<open>dead\<close> are the entries whose write fails.\<close>

definition DetachUser :: "nat list \<Rightarrow> string \<Rightarrow> 'a clientPool_scheme \<Rightarrow> 'a clientPool_scheme" where
  "DetachUser dead userID b =
     (if userID = [] then b
      else let toClose = filter (\<lambda>i. ce_userID (p_entries b ! i) = userID) (p_clients b) in
        b\<lparr>p_clients := filter (\<lambda>i. i \<notin> set toClose) (p_clients b),
          p_entries := upd_at (\<lambda>i e. if i \<in> set toClose
              then e\<lparr>ce_frames := ce_frames e @ (if i \<in> set dead then [] else [TextFrame kickedEndMsg]),
                     ce_closed := True\<rparr>
              else e) (p_entries b)\<rparr>)"

definition detachEntry :: "nat \<Rightarrow> 'a clientPool_scheme \<Rightarrow> 'a clientPool_scheme" where
  "detachEntry i b =
     b\<lparr>p_clients := filter (\<lambda>j. j \<noteq> i) (p_clients b),
       p_entries := (p_entries b)[i := (p_entries b ! i)\<lparr>ce_closed := True\<rparr>]\<rparr>"

text \<open>The first critical section of \<open>attachWebSocket\<close> and \<open>attachStream\<close>; the new pointer is the result.\<close>

definition attach_register :: "AttachMode \<Rightarrow> string \<Rightarrow> 'a clientPool_scheme \<Rightarrow> nat \<times> 'a clientPool_scheme" where
  "attach_register mode userID b =
     (let entry = \<lparr>ce_canWrite = (mode \<noteq> AttachModeViewer), ce_userID = userID, ce_frames = [], ce_closed = False\<rparr>;
          b = (if ce_canWrite entry then demoteOtherWritersLocked b else b);
          i = length (p_entries b)
      in (i, b\<lparr>p_entries := p_entries b @ [entry], p_clients := p_clients b @ [i],
            p_attaching := p_attaching b @ [i]\<rparr>))"

definition send_frame :: "nat \<Rightarrow> frame \<Rightarrow> 'a clientPool_scheme \<Rightarrow> 'a clientPool_scheme" where
  "send_frame i f b = b\<lparr>p_entries := (p_entries b)[i := (p_entries b ! i)\<lparr>ce_frames := ce_frames (p_entries b ! i) @ [f]\<rparr>]\<rparr>"

text \<open>
  The rest of the attachment, from the copy of the replay buffer on; \<open>ok\<close> is the outcome of
  writing it.  The first result tells whether the client stays attached.
\<close>

definition attach_replay_ws :: "bool \<Rightarrow> nat \<Rightarrow> 'a clientPool_scheme \<Rightarrow> bool \<times> 'a clientPool_scheme" where
  "attach_replay_ws ok i b =
     (let b = b\<lparr>p_attaching := remove1 i (p_attaching b)\<rparr>; replay = ring_Bytes (p_output b) in
      if length replay > 0 then
        (if \<not> ok then (False, detachEntry i b) else (True, send_frame i (BinaryFrame replay) b))
      else (True, b))"

definition attach_replay_stream :: "bool \<Rightarrow> nat \<Rightarrow> 'a clientPool_scheme \<Rightarrow> 'a clientPool_scheme" where
  "attach_replay_stream ok i b =
     (let b = b\<lparr>p_attaching := remove1 i (p_attaching b)\<rparr>; replay = ring_Bytes (p_output b) in
      if length replay > 0 \<and> ok then send_frame i (BinaryFrame replay) b else b)"

definition isDataMessage :: "message_type \<Rightarrow> bool" where
  "isDataMessage mt = (mt = TextMessage \<or> mt = BinaryMessage)"

definition stream_message :: "nat \<Rightarrow> bytes \<Rightarrow> 'a clientPool_scheme \<Rightarrow> 'a clientPool_scheme" where
  "stream_message i data b =
     (if \<not> ce_canWrite (p_entries b ! i) then b else b\<lparr>p_stdin := p_stdin b @ [data]\<rparr>)"

definition end_session :: "nat list \<Rightarrow> 'a clientPool_scheme \<Rightarrow> 'a clientPool_scheme" where
  "end_session dead b = (if p_endMsg b \<noteq> [] then broadcastText dead (p_endMsg b) b else b)"

subsection \<open>The invariant\<close>

text \<open>
  The invariant: attached pointers are valid, attached clients are open, the replay buffer is
  well formed, and all attached clients that may write belong to one user.
\<close>

definition writes_for :: "'a clientPool_scheme \<Rightarrow> string \<Rightarrow> bool" where
  "writes_for b u = (\<forall>i \<in> set (p_clients b). ce_canWrite (p_entries b ! i) \<longrightarrow> ce_userID (p_entries b ! i) = u)"

definition pool_inv :: "'a clientPool_scheme \<Rightarrow> bool" where
  "pool_inv b = (distinct (p_clients b) \<and> ring_inv (p_output b)
     \<and> (\<forall>i \<in> set (p_attaching b). i < length (p_entries b))
     \<and> (\<forall>i \<in> set (p_clients b). i < length (p_entries b) \<and> \<not> ce_closed (p_entries b ! i))
     \<and> (\<exists>u. writes_for b u))"

text \<open>Operations that leave the clients alone.\<close>

definition same_clients :: "'a clientPool_scheme \<Rightarrow> 'a clientPool_scheme \<Rightarrow> bool" where
  "same_clients b b' = (p_clients b' = p_clients b \<and> p_entries b' = p_entries b
     \<and> p_output b' = p_output b \<and> p_attaching b' = p_attaching b)"

lemma same_clients_refl [simp]: "same_clients b b"
  by (simp add: same_clients_def)

lemma same_clients_trans: "same_clients a b \<Longrightarrow> same_clients b c \<Longrightarrow> same_clients a c"
  by (simp add: same_clients_def)

lemma same_fold: "(\<And>x b. same_clients b (f x b)) \<Longrightarrow> same_clients b (fold f xs b)"
  by (induction xs arbitrary: b) (auto intro: same_clients_trans)

lemma same_stream_message: "same_clients b (stream_message i data b)"
  by (simp add: stream_message_def same_clients_def)

lemma ring_inv_write [simp]: "ring_inv r \<Longrightarrow> ring_inv (snd (ring_Write p r))"
  by (rule ring.write_inv)

lemma pool_inv_same: "same_clients b b' \<Longrightarrow> pool_inv b \<Longrightarrow> pool_inv b'"
  by (simp add: pool_inv_def same_clients_def writes_for_def)

text \<open>Changes to the entries that keep who may write, apart from withdrawals.\<close>

lemma pool_inv_entries:
  assumes "pool_inv b" and "set (p_clients b') \<subseteq> set (p_clients b)" and "distinct (p_clients b')"
    and "length (p_entries b') = length (p_entries b)" and "ring_inv (p_output b')"
    and "set (p_attaching b') \<subseteq> set (p_attaching b)"
    and "\<And>i. i \<in> set (p_clients b') \<Longrightarrow> i < length (p_entries b) \<Longrightarrow>
      ce_userID (p_entries b' ! i) = ce_userID (p_entries b ! i)
      \<and> ce_closed (p_entries b' ! i) = ce_closed (p_entries b ! i)
      \<and> (ce_canWrite (p_entries b' ! i) \<longrightarrow> ce_canWrite (p_entries b ! i))"
  shows "pool_inv b'"
proof -
  have valid: "i < length (p_entries b) \<and> \<not> ce_closed (p_entries b ! i) \<and> i \<in> set (p_clients b)"
    if "i \<in> set (p_clients b')" for i
    using assms(1,2) that unfolding pool_inv_def by blast
  have "\<exists>u. writes_for b' u"
  proof -
    obtain u where "writes_for b u" using assms(1) unfolding pool_inv_def by blast
    then have "writes_for b' u" using valid assms(7) by (simp add: writes_for_def)
    then show ?thesis ..
  qed
  moreover have "\<forall>i \<in> set (p_attaching b'). i < length (p_entries b)"
    using assms(1,6) unfolding pool_inv_def by blast
  ultimately show ?thesis unfolding pool_inv_def assms(4)
    using assms(3,5) valid assms(7) by simp
qed

lemma pool_inv_deliver: "pool_inv b \<Longrightarrow> pool_inv (deliver mk dead p b)"
  by (rule pool_inv_entries [of b]) (auto simp: deliver_def pool_inv_def split: if_splits)

lemma pool_inv_end: "pool_inv b \<Longrightarrow> pool_inv (end_session dead b)"
  by (simp add: end_session_def broadcastText_def pool_inv_deliver)

lemma pool_inv_DetachUser: "pool_inv b \<Longrightarrow> pool_inv (DetachUser dead user b)"
  by (rule pool_inv_entries [of b]) (auto simp: DetachUser_def pool_inv_def Let_def split: if_splits)

lemma pool_inv_detachEntry: "pool_inv b \<Longrightarrow> pool_inv (detachEntry i b)"
  by (rule pool_inv_entries [of b]) (auto simp: detachEntry_def pool_inv_def)

lemma pool_inv_SetWriter: "pool_inv b \<Longrightarrow> pool_inv (SetWriter user b)"
  by (auto simp: pool_inv_def writes_for_def SetWriter_def upd_clients_def intro!: exI [of _ user])

lemma demoted:
  assumes "pool_inv b"
  shows "pool_inv (demoteOtherWritersLocked b)"
    and "i \<in> set (p_clients b) \<Longrightarrow> \<not> ce_canWrite (p_entries (demoteOtherWritersLocked b) ! i)"
  using assms by (auto simp: pool_inv_def writes_for_def demoteOtherWritersLocked_def upd_clients_def)

lemma pool_inv_register: "pool_inv b \<Longrightarrow> pool_inv (snd (attach_register mode user b))"
proof -
  assume b: "pool_inv b"
  define b1 where "b1 = (if mode \<noteq> AttachModeViewer then demoteOtherWritersLocked b else b)"
  have c: "p_clients b1 = p_clients b" by (simp add: b1_def demoteOtherWritersLocked_def upd_clients_def)
  have i1: "pool_inv b1" using b demoted(1) [OF b] by (simp add: b1_def)
  have d: "\<not> ce_canWrite (p_entries b1 ! i)" if "mode \<noteq> AttachModeViewer" "i \<in> set (p_clients b1)" for i
    using demoted(2) [OF b] that c by (simp add: b1_def)
  have fresh: "length (p_entries b1) \<notin> set (p_clients b1)" using i1 by (auto simp: pool_inv_def)
  let ?e = "\<lparr>ce_canWrite = (mode \<noteq> AttachModeViewer), ce_userID = user, ce_frames = [], ce_closed = False\<rparr>"
  let ?b2 = "b1\<lparr>p_entries := p_entries b1 @ [?e], p_clients := p_clients b1 @ [length (p_entries b1)],
      p_attaching := p_attaching b1 @ [length (p_entries b1)]\<rparr>"
  have eq: "snd (attach_register mode user b) = ?b2" by (simp add: attach_register_def b1_def Let_def)
  have valid: "i < length (p_entries b1)" if "i \<in> set (p_clients b1)" for i using i1 that by (simp add: pool_inv_def)
  obtain u where "writes_for b1 u" using i1 unfolding pool_inv_def by blast
  then have "writes_for ?b2 (if mode = AttachModeViewer then u else user)"
    using d valid by (auto simp: writes_for_def nth_append)
  then have "\<exists>u. writes_for ?b2 u" ..
  then show ?thesis using i1 fresh valid unfolding eq pool_inv_def by (auto simp: nth_append less_Suc_eq)
qed

lemma nth_list_update_if: "k < length xs \<Longrightarrow> xs[i := v] ! k = (if k = i then v else xs ! k)"
  by (cases "k = i") simp_all

lemma pool_inv_send: "pool_inv b \<Longrightarrow> pool_inv (send_frame i f b)"
  by (rule pool_inv_entries [of b]) (auto simp: send_frame_def pool_inv_def nth_list_update_if)

lemma pool_inv_attaching: "pool_inv b \<Longrightarrow> set xs \<subseteq> set (p_attaching b) \<Longrightarrow> pool_inv (b\<lparr>p_attaching := xs\<rparr>)"
  by (auto simp: pool_inv_def writes_for_def)

lemma pool_inv_replay:
  assumes "pool_inv b"
  shows "pool_inv (snd (attach_replay_ws ok i b))" and "pool_inv (attach_replay_stream ok i b)"
proof -
  have b: "pool_inv (b\<lparr>p_attaching := remove1 i (p_attaching b)\<rparr>)"
    using assms by (simp add: pool_inv_attaching set_remove1_subset)
  then show "pool_inv (snd (attach_replay_ws ok i b))" and "pool_inv (attach_replay_stream ok i b)"
    by (simp_all add: attach_replay_ws_def attach_replay_stream_def Let_def pool_inv_detachEntry pool_inv_send)
qed

lemma pool_inv_store: "pool_inv b \<Longrightarrow> pool_inv (b\<lparr>p_output := snd (ring_Write x (p_output b))\<rparr>)"
  by (simp add: pool_inv_def writes_for_def)

subsection \<open>Replay\<close>

text \<open>The terminal output a client has received.\<close>

fun received :: "frame list \<Rightarrow> bytes" where
  "received [] = []"
| "received (BinaryFrame p # fs) = p @ received fs"
| "received (TextFrame p # fs) = received fs"

lemma received_append [simp]: "received (fs @ gs) = received fs @ received gs"
  by (induction fs rule: received.induct) auto

lemma rb_cap_ring_Write [simp]: "rb_cap (snd (ring_Write p r)) = rb_cap r"
proof -
  have "rb_cap (fold ring_put p r) = rb_cap r" by (induction p arbitrary: r) (simp_all add: ring_put_def)
  then show ?thesis by (simp add: ring_Write_def Let_def)
qed

text \<open>
  A client is in sync when the last bytes it received, followed by the bytes \<open>q\<close> that are stored
  and not yet broadcast, are the contents of the replay buffer.
\<close>

definition in_sync :: "bytes \<Rightarrow> nat \<Rightarrow> 'a clientPool_scheme \<Rightarrow> bool" where
  "in_sync q i b = (i < length (p_entries b) \<and> i \<notin> set (p_attaching b)
     \<and> (i \<in> set (p_clients b) \<longrightarrow>
          lastn (rb_cap (p_output b)) (received (ce_frames (p_entries b ! i)) @ q) = ring_Bytes (p_output b)))"

lemma in_sync_same: "same_clients b b' \<Longrightarrow> in_sync q i b \<Longrightarrow> in_sync q i b'"
  by (simp add: same_clients_def in_sync_def)

text \<open>Steps that change neither the output nor what this client has received.\<close>

lemma in_sync_frame:
  assumes "in_sync q i b" and "p_output b' = p_output b"
    and "length (p_entries b) \<le> length (p_entries b')" and "i \<notin> set (p_attaching b')"
    and "i \<in> set (p_clients b') \<Longrightarrow> i \<in> set (p_clients b)
      \<and> received (ce_frames (p_entries b' ! i)) = received (ce_frames (p_entries b ! i))"
  shows "in_sync q i b'"
  using assms by (auto simp: in_sync_def)

lemma register_simps [simp]:
  "fst (attach_register mode user b) = length (p_entries b)"
  "p_clients (snd (attach_register mode user b)) = p_clients b @ [length (p_entries b)]"
  "p_attaching (snd (attach_register mode user b)) = p_attaching b @ [length (p_entries b)]"
  "length (p_entries (snd (attach_register mode user b))) = Suc (length (p_entries b))"
  "p_output (snd (attach_register mode user b)) = p_output b"
  "p_entries (snd (attach_register mode user b)) ! length (p_entries b) =
     \<lparr>ce_canWrite = (mode \<noteq> AttachModeViewer), ce_userID = user, ce_frames = [], ce_closed = False\<rparr>"
  "k < length (p_entries b) \<Longrightarrow> ce_frames (p_entries (snd (attach_register mode user b)) ! k) = ce_frames (p_entries b ! k)"
  by (cases mode; simp add: attach_register_def demoteOtherWritersLocked_def upd_clients_def Let_def nth_append)+

lemma in_sync_register: "in_sync q i b \<Longrightarrow> in_sync q i (snd (attach_register mode user b))"
  by (rule in_sync_frame [of q i b]) (auto simp: in_sync_def)

lemma in_sync_send: "i \<noteq> j \<Longrightarrow> in_sync q i b \<Longrightarrow> in_sync q i (send_frame j f b)"
  by (rule in_sync_frame [of q i b]) (auto simp: send_frame_def in_sync_def)

lemma in_sync_detachEntry: "in_sync q i b \<Longrightarrow> in_sync q i (detachEntry j b)"
  by (rule in_sync_frame [of q i b]) (auto simp: detachEntry_def in_sync_def)

lemma in_sync_replay:
  assumes "in_sync q i b" and "j \<in> set (p_attaching b)"
  shows "in_sync q i (snd (attach_replay_ws ok j b))" and "in_sync q i (attach_replay_stream ok j b)"
proof -
  have ij: "i \<noteq> j" using assms by (auto simp: in_sync_def)
  have b: "in_sync q i (b\<lparr>p_attaching := remove1 j (p_attaching b)\<rparr>)"
    using assms(1) by (auto simp: in_sync_def dest: notin_set_remove1)
  with ij show "in_sync q i (snd (attach_replay_ws ok j b))" and "in_sync q i (attach_replay_stream ok j b)"
    by (auto simp: attach_replay_ws_def attach_replay_stream_def Let_def intro!: in_sync_detachEntry in_sync_send)
qed

lemma in_sync_SetWriter: "in_sync q i b \<Longrightarrow> in_sync q i (SetWriter user b)"
  by (rule in_sync_frame [of q i b]) (auto simp: SetWriter_def upd_clients_def in_sync_def)

lemma in_sync_DetachUser: "in_sync q i b \<Longrightarrow> in_sync q i (DetachUser dead user b)"
  by (rule in_sync_frame [of q i b]) (auto simp: DetachUser_def in_sync_def Let_def split: if_splits)

lemma in_sync_end: "in_sync q i b \<Longrightarrow> in_sync q i (end_session dead b)"
  by (rule in_sync_frame [of q i b])
    (auto simp: end_session_def broadcastText_def deliver_def in_sync_def split: if_splits)

lemma in_sync_broadcast: "in_sync x i b \<Longrightarrow> in_sync [] i (broadcast dead x b)"
  by (auto simp: broadcast_def deliver_def in_sync_def split: if_splits)

lemma in_sync_store:
  assumes "pool_inv b" and "in_sync [] i b"
  shows "in_sync x i (b\<lparr>p_output := snd (ring_Write x (p_output b))\<rparr>)"
proof -
  have r: "ring_inv (p_output b)" using assms(1) by (simp add: pool_inv_def)
  show ?thesis using assms(2) ring.write_bytes [OF r, of x]
    by (auto simp: in_sync_def) (metis lastn_lastn_append)
qed

lemma in_sync_attached:
  assumes "pool_inv b" and reg: "attach_register mode user b = (i, b1)"
  shows "in_sync [] i (snd (attach_replay_ws True i b1)) \<and> in_sync [] i (attach_replay_stream True i b1)"
proof -
  note r = register_simps [where mode = mode and user = user and b = b, unfolded reg, simplified]
  have "i \<notin> set (p_attaching b)" using assms(1) r(1) by (auto simp: pool_inv_def)
  then have a: "remove1 i (p_attaching b1) = p_attaching b" using r by (simp add: remove1_append)
  have "ring_inv (p_output b)" using assms(1) by (simp add: pool_inv_def)
  then have "length (ring_Bytes (p_output b)) \<le> rb_cap (p_output b)" by (simp add: length_ring_Bytes ring_inv_def)
  then show ?thesis using r a \<open>i \<notin> set (p_attaching b)\<close>
    by (auto simp: attach_replay_ws_def attach_replay_stream_def Let_def in_sync_def send_frame_def lastn_short)
qed

subsection \<open>The contract of a bridge\<close>

text \<open>
  What a bridge promises about its clients: its steps keep the pool's invariant.  A bridge with
  one output pump also keeps every synchronised client synchronised, where \<open>flight\<close> is the output
  stored and not yet broadcast.
\<close>

locale client_host =
  transition_system step initial "pool_inv :: 'a clientPool_scheme \<Rightarrow> bool"
    for step :: "'a clientPool_scheme \<Rightarrow> 'a clientPool_scheme \<Rightarrow> bool" and initial
begin

lemma one_writing_user:
  "initial b0 \<Longrightarrow> step\<^sup>*\<^sup>* b0 b \<Longrightarrow>
     \<exists>u. \<forall>i \<in> set (p_clients b). ce_canWrite (p_entries b ! i) \<longrightarrow> ce_userID (p_entries b ! i) = u"
  using reachable_inv by (fastforce simp: pool_inv_def writes_for_def)

end

locale terminal_bridge = client_host +
  fixes flight :: "'a clientPool_scheme \<Rightarrow> bytes"
  assumes sync_step: "step b b' \<Longrightarrow> pool_inv b \<Longrightarrow> in_sync (flight b) i b \<Longrightarrow> in_sync (flight b') i b'"
begin

lemma sync_steps: "step\<^sup>*\<^sup>* b b' \<Longrightarrow> pool_inv b \<Longrightarrow> in_sync (flight b) i b \<Longrightarrow> in_sync (flight b') i b'"
proof (induction rule: rtranclp_induct)
  case (step c d)
  then show ?case using steps_inv sync_step by blast
qed

text \<open>A client whose registration and replay were not interrupted by output follows the replay buffer.\<close>

lemma follows_replay:
  assumes "initial b0" "step\<^sup>*\<^sup>* b0 b" and "attach_register mode user b = (i, b1)"
    and "flight (snd (attach_replay_ws True i b1)) = []"
    and "step\<^sup>*\<^sup>* (snd (attach_replay_ws True i b1)) b2" and "i \<in> set (p_clients b2)"
  shows "lastn (rb_cap (p_output b2)) (received (ce_frames (p_entries b2 ! i)) @ flight b2) = ring_Bytes (p_output b2)"
proof -
  have b: "pool_inv b" using reachable_inv [OF assms(1,2)] .
  then have "pool_inv (snd (attach_replay_ws True i b1))"
    using pool_inv_register [OF b, of mode user] assms(3) pool_inv_replay(1) by simp
  then have "in_sync (flight b2) i b2"
    using sync_steps [OF assms(5)] in_sync_attached [OF b assms(3)] assms(4) by simp
  with assms(6) show ?thesis by (simp add: in_sync_def)
qed

end

end
