(* ===== verification/SSH_Bridge.thy ===== *)
theory SSH_Bridge
  imports Client_Pool Secret_Box
begin

text \<open>
  The SSH client side (\<open>src/internal/sshproxy\<close>): verification of the target's host key
  (\<open>hostkey.go\<close>, with the options \<open>internal/httpapi/bridge_options.go\<close> builds for a target) and the
  detachable bridge (\<open>bridge_detachable.go\<close>, \<open>RunBridgeDetachable\<close> of \<open>bridge.go\<close>).

  SHA-256 is the parameter \<open>sha\<close>; a public key is its marshalled form.  The SSH transport is the
  environment: which reads and client writes happen are the steps of the bridge.
\<close>

subsection \<open>Host keys\<close>

record bridgeOptions =
  o_hostKeyFingerprint :: string
  o_insecureSkipVerify :: bool
  o_targetInsecureSkipVerify :: bool
  o_captured :: bool
  o_controlSink :: bool
  o_resizeRecorder :: bool

datatype BridgeOption = WithHostKeyFingerprint string | WithInsecureSkipHostKeyVerify
  | WithTargetInsecureSkipVerify | WithBridgeControlSink bool | WithResizeRecorder bool
  | WithCapturedFingerprint bool | NilOption

text \<open>The function values of the options; sinks and pointers are represented by whether they are set.\<close>

fun apply_option :: "BridgeOption \<Rightarrow> bridgeOptions \<Rightarrow> bridgeOptions" where
  "apply_option (WithHostKeyFingerprint fp) opts = opts\<lparr>o_hostKeyFingerprint := trim_space fp\<rparr>"
| "apply_option WithInsecureSkipHostKeyVerify opts = opts\<lparr>o_insecureSkipVerify := True\<rparr>"
| "apply_option WithTargetInsecureSkipVerify opts = opts\<lparr>o_targetInsecureSkipVerify := True\<rparr>"
| "apply_option (WithBridgeControlSink sink) opts = opts\<lparr>o_controlSink := sink\<rparr>"
| "apply_option (WithResizeRecorder rr) opts = opts\<lparr>o_resizeRecorder := rr\<rparr>"
| "apply_option (WithCapturedFingerprint nonnil) opts = (if nonnil then opts\<lparr>o_captured := True\<rparr> else opts)"
| "apply_option NilOption opts = opts"

definition zero_options :: bridgeOptions where
  "zero_options = \<lparr>o_hostKeyFingerprint = [], o_insecureSkipVerify = False, o_targetInsecureSkipVerify = False,
     o_captured = False, o_controlSink = False, o_resizeRecorder = False\<rparr>"

definition buildOptions :: "BridgeOption list \<Rightarrow> bridgeOptions" where
  "buildOptions opts = fold apply_option opts zero_options"

definition b64_encode_std :: "string \<Rightarrow> string" where
  "b64_encode_std s = b64_encode s @ replicate ((3 - length s mod 3) mod 3) (CHR ''='')"

definition SHA256Fingerprint :: "(bytes \<Rightarrow> bytes) \<Rightarrow> bytes \<Rightarrow> string" where
  "SHA256Fingerprint sha key =
     ''SHA256:'' @ rev (dropWhile (\<lambda>c. c = CHR ''='') (rev (b64_encode_std (sha key))))"

datatype host_key_error = HostKeyMismatchError string string string | HostKeyUnknownError string string

text \<open>
  The callback of the options: the verdict (\<open>None\<close> accepts) and the fingerprint it publishes.
  The first argument after the digest is the value of \<open>VANTYX_SSH_INSECURE_IGNORE_HOST_KEY\<close>.
\<close>

definition hostKeyCallback ::
  "(bytes \<Rightarrow> bytes) \<Rightarrow> string \<Rightarrow> bridgeOptions \<Rightarrow> string \<Rightarrow> bytes \<Rightarrow> host_key_error option \<times> string option" where
  "hostKeyCallback sha env opts hostname key =
     (let fp = o_hostKeyFingerprint opts; got = SHA256Fingerprint sha key in
      if fp \<noteq> [] then
        (if got = fp then None else Some (HostKeyMismatchError hostname fp got), None)
      else if o_targetInsecureSkipVerify opts \<or> o_insecureSkipVerify opts \<or> env = ''1'' then
        (None, if o_captured opts then Some got else None)
      else (Some (HostKeyUnknownError hostname got), if o_captured opts then Some got else None))"

definition HostKeyCallbackForOptions ::
  "(bytes \<Rightarrow> bytes) \<Rightarrow> string \<Rightarrow> BridgeOption list \<Rightarrow> string \<Rightarrow> bytes \<Rightarrow> host_key_error option \<times> string option" where
  "HostKeyCallbackForOptions sha env opts = hostKeyCallback sha env (buildOptions opts)"

definition sshBridgeOptions :: "string \<Rightarrow> bool \<Rightarrow> BridgeOption list \<Rightarrow> BridgeOption list" where
  "sshBridgeOptions fingerprint insecureSkip extra =
     [WithHostKeyFingerprint fingerprint] @ (if insecureSkip then [WithTargetInsecureSkipVerify] else []) @ extra"

subsection \<open>The detachable bridge\<close>

datatype stream = Stdout | Stderr

record sshDetachableBridge = clientPool +
  sb_stdinOpen :: bool
  sb_written :: "bytes list"
  sb_windows :: "(int \<times> int) list"
  sb_resizes :: "(int \<times> int) list"
  sb_flight :: "stream \<Rightarrow> bytes option"

definition newSSHDetachableBridge :: "string \<Rightarrow> RingBuffer \<Rightarrow> sshDetachableBridge" where
  "newSSHDetachableBridge endMsg output =
     \<lparr>p_endMsg = endMsg, p_output = output, p_stdin = [], p_recorded = [], p_entries = [], p_clients = [],
      p_attaching = [], sb_stdinOpen = True, sb_written = [], sb_windows = [], sb_resizes = [],
      sb_flight = (\<lambda>_. None)\<rparr>"

text \<open>One round of \<open>runStdinPump\<close>; a write to a closed pipe fails and its error is ignored.\<close>

definition ssh_stdin_pump :: "sshDetachableBridge \<Rightarrow> sshDetachableBridge" where
  "ssh_stdin_pump b =
     (case p_stdin b of [] \<Rightarrow> b
      | data # rest \<Rightarrow>
        let b = b\<lparr>p_stdin := rest\<rparr> in
        if length data > 0 then
          (let b = b\<lparr>p_recorded := p_recorded b @ [data]\<rparr> in
           if sb_stdinOpen b then b\<lparr>sb_written := sb_written b @ [data]\<rparr> else b)
        else b)"

text \<open>\<open>pumpReader\<close> of one of the two output streams: store a chunk, broadcast it, end on an error.\<close>

definition pump_store :: "stream \<Rightarrow> bytes \<Rightarrow> sshDetachableBridge \<Rightarrow> sshDetachableBridge" where
  "pump_store s buf b =
     (if buf = [] then b
      else b\<lparr>p_output := snd (ring_Write buf (p_output b)), sb_flight := (sb_flight b)(s := Some buf)\<rparr>)"

definition pump_send :: "stream \<Rightarrow> nat list \<Rightarrow> sshDetachableBridge \<Rightarrow> sshDetachableBridge" where
  "pump_send s dead b =
     (case sb_flight b s of None \<Rightarrow> b
      | Some buf \<Rightarrow> broadcast dead buf (b\<lparr>sb_flight := (sb_flight b)(s := None)\<rparr>))"

definition pump_eof :: "sshDetachableBridge \<Rightarrow> sshDetachableBridge" where
  "pump_eof b = b\<lparr>sb_stdinOpen := False\<rparr>"

definition window_change :: "int \<Rightarrow> int \<Rightarrow> sshDetachableBridge \<Rightarrow> sshDetachableBridge" where
  "window_change cols rows b =
     b\<lparr>sb_windows := sb_windows b @ [(cols, rows)], sb_resizes := sb_resizes b @ [(cols, rows)]\<rparr>"

definition runExternalResize :: "int \<Rightarrow> int \<Rightarrow> sshDetachableBridge \<Rightarrow> sshDetachableBridge" where
  "runExternalResize cols rows b = (if cols > 0 \<and> rows > 0 then window_change cols rows b else b)"

text \<open>One message of \<open>readWebSocket\<close>; a well-formed resize message is honoured for the writer only.\<close>

definition resize_request :: "(bytes \<Rightarrow> (string \<times> int \<times> int) option) \<Rightarrow> message_type \<Rightarrow> bytes \<Rightarrow> (int \<times> int) option" where
  "resize_request unmarshal mt msg =
     (if mt = TextMessage \<and> msg \<noteq> [] \<and> hd msg = CHR ''{'' \<and> contains msg ''\"type\":\"resize\"'' then
        (case unmarshal msg of None \<Rightarrow> None
         | Some (ty, cols, rows) \<Rightarrow> if ty = ''resize'' \<and> cols > 0 \<and> rows > 0 then Some (cols, rows) else None)
      else None)"

definition ssh_ws_message ::
  "(bytes \<Rightarrow> (string \<times> int \<times> int) option) \<Rightarrow> nat \<Rightarrow> message_type \<Rightarrow> bytes \<Rightarrow> sshDetachableBridge \<Rightarrow> sshDetachableBridge" where
  "ssh_ws_message unmarshal i mt msg b =
     (case resize_request unmarshal mt msg of
        Some (cols, rows) \<Rightarrow> if ce_canWrite (p_entries b ! i) then window_change cols rows b else b
      | None \<Rightarrow>
        if \<not> isDataMessage mt then b
        else if \<not> ce_canWrite (p_entries b ! i) then b
        else b\<lparr>p_stdin := p_stdin b @ [msg]\<rparr>)"

text \<open>
  The interleavings, for a set of output streams that carry data: with a terminal allocated the
  server merges both streams into \<open>Stdout\<close>.
\<close>

inductive ssh_step ::
  "stream set \<Rightarrow> (bytes \<Rightarrow> (string \<times> int \<times> int) option) \<Rightarrow> sshDetachableBridge \<Rightarrow> sshDetachableBridge \<Rightarrow> bool"
  for streams and unmarshal where
  ss_register: "ssh_step streams unmarshal b (snd (attach_register mode user b))"
| ss_replay_ws: "i \<in> set (p_attaching b) \<Longrightarrow> ssh_step streams unmarshal b (snd (attach_replay_ws ok i b))"
| ss_replay_stream: "i \<in> set (p_attaching b) \<Longrightarrow> ssh_step streams unmarshal b (attach_replay_stream ok i b)"
| ss_store: "s \<in> streams \<Longrightarrow> sb_flight b s = None \<Longrightarrow> ssh_step streams unmarshal b (pump_store s buf b)"
| ss_send: "s \<in> streams \<Longrightarrow> ssh_step streams unmarshal b (pump_send s dead b)"
| ss_eof: "ssh_step streams unmarshal b (pump_eof b)"
| ss_stdin: "ssh_step streams unmarshal b (ssh_stdin_pump b)"
| ss_ws_message: "i < length (p_entries b) \<Longrightarrow> ssh_step streams unmarshal b (ssh_ws_message unmarshal i mt msg b)"
| ss_stream_message: "i < length (p_entries b) \<Longrightarrow> ssh_step streams unmarshal b (stream_message i data b)"
| ss_resize: "ssh_step streams unmarshal b (runExternalResize cols rows b)"
| ss_set_writer: "ssh_step streams unmarshal b (SetWriter user b)"
| ss_detach_user: "ssh_step streams unmarshal b (DetachUser dead user b)"
| ss_detach: "i < length (p_entries b) \<Longrightarrow> ssh_step streams unmarshal b (detachEntry i b)"
| ss_end: "ssh_step streams unmarshal b (end_session dead b)"

lemma ssh_same:
  "same_clients b (ssh_stdin_pump b)" "same_clients b (pump_eof b)" "same_clients b (ssh_ws_message unmarshal i mt msg b)"
  "same_clients b (runExternalResize cols rows b)"
  by (auto simp: same_clients_def ssh_stdin_pump_def pump_eof_def ssh_ws_message_def runExternalResize_def window_change_def
      Let_def split: list.split option.split)

lemma ssh_flight [simp]:
  "sb_flight (ssh_stdin_pump b) = sb_flight b" "sb_flight (pump_eof b) = sb_flight b"
  "sb_flight (ssh_ws_message unmarshal i mt msg b) = sb_flight b" "sb_flight (runExternalResize cols rows b) = sb_flight b"
  "sb_flight (stream_message i data b) = sb_flight b"
  "sb_flight (snd (attach_register mode user b)) = sb_flight b"
  "sb_flight (snd (attach_replay_ws ok i b)) = sb_flight b"
  "sb_flight (attach_replay_stream ok i b) = sb_flight b"
  "sb_flight (SetWriter user b) = sb_flight b" "sb_flight (DetachUser dead user b) = sb_flight b"
  "sb_flight (detachEntry i b) = sb_flight b" "sb_flight (end_session dead b) = sb_flight b"
  "sb_flight (broadcast dead x b) = sb_flight b"
  by (simp_all add: ssh_stdin_pump_def pump_eof_def ssh_ws_message_def runExternalResize_def window_change_def stream_message_def
      attach_register_def attach_replay_ws_def attach_replay_stream_def send_frame_def detachEntry_def SetWriter_def DetachUser_def
      end_session_def broadcastText_def broadcast_def deliver_def demoteOtherWritersLocked_def upd_clients_def Let_def
      split: list.split option.split)

lemma pool_flight [simp]:
  "pool_inv ((b :: sshDetachableBridge)\<lparr>sb_flight := x\<rparr>) = pool_inv b" "in_sync q i (b\<lparr>sb_flight := x\<rparr>) = in_sync q i b"
  by (simp_all add: pool_inv_def writes_for_def in_sync_def)

lemma ssh_inv_step: "ssh_step streams unmarshal b b' \<Longrightarrow> pool_inv b \<Longrightarrow> pool_inv b'"
proof (induction rule: ssh_step.induct)
  case (ss_store s b buf)
  then show ?case using pool_inv_store [of b buf] by (simp add: pump_store_def)
next
  case (ss_send s b dead)
  then show ?case by (auto simp: pump_send_def broadcast_def pool_inv_deliver split: option.split)
qed (auto intro: pool_inv_register pool_inv_replay pool_inv_SetWriter pool_inv_DetachUser pool_inv_detachEntry pool_inv_end
  pool_inv_same [OF ssh_same(1)] pool_inv_same [OF ssh_same(2)] pool_inv_same [OF ssh_same(3)] pool_inv_same [OF ssh_same(4)]
  pool_inv_same [OF same_stream_message])

definition stdout_flight :: "sshDetachableBridge \<Rightarrow> bytes" where
  "stdout_flight b = (case sb_flight b Stdout of None \<Rightarrow> [] | Some x \<Rightarrow> x)"

lemma ssh_sync_step:
  "ssh_step {Stdout} unmarshal b b' \<Longrightarrow> pool_inv b \<Longrightarrow> in_sync (stdout_flight b) i b \<Longrightarrow> in_sync (stdout_flight b') i b'"
proof (induction rule: ssh_step.induct)
  case (ss_store s b buf)
  then have s: "s = Stdout" "sb_flight b Stdout = None" by auto
  show ?case
  proof (cases "buf = []")
    case False
    then show ?thesis using ss_store s in_sync_store [of b i buf] by (simp add: pump_store_def stdout_flight_def)
  qed (use ss_store in \<open>simp add: pump_store_def\<close>)
next
  case (ss_send s b dead)
  then have s: "s = Stdout" by simp
  show ?case
  proof (cases "sb_flight b Stdout")
    case (Some x)
    then have "in_sync x i (b\<lparr>sb_flight := (sb_flight b)(Stdout := None)\<rparr>)" using ss_send by (simp add: stdout_flight_def)
    from in_sync_broadcast [OF this] Some s show ?thesis by (simp add: pump_send_def stdout_flight_def)
  qed (use ss_send s in \<open>simp add: pump_send_def\<close>)
qed (auto simp: stdout_flight_def intro: in_sync_register in_sync_replay in_sync_SetWriter in_sync_DetachUser in_sync_detachEntry
  in_sync_end in_sync_same [OF ssh_same(1)] in_sync_same [OF ssh_same(2)] in_sync_same [OF ssh_same(3)]
  in_sync_same [OF ssh_same(4)] in_sync_same [OF same_stream_message])

definition new_ssh_bridge :: "sshDetachableBridge \<Rightarrow> bool" where
  "new_ssh_bridge b = (\<exists>endMsg capacity. b = newSSHDetachableBridge endMsg (NewRingBuffer capacity))"

lemma new_ssh_inv: "new_ssh_bridge b \<Longrightarrow> pool_inv b"
  by (auto simp: new_ssh_bridge_def newSSHDetachableBridge_def pool_inv_def writes_for_def ring.new_inv)

interpretation ssh_host: client_host "ssh_step streams unmarshal" new_ssh_bridge for streams unmarshal
  by unfold_locales (auto intro: new_ssh_inv ssh_inv_step)

interpretation ssh: terminal_bridge "ssh_step {Stdout} unmarshal" new_ssh_bridge stdout_flight for unmarshal
  by unfold_locales (auto intro: ssh_sync_step)

subsection \<open>Pinned host keys\<close>

lemma b64_encode_chars: "c \<in> set (b64_encode s) \<Longrightarrow> c \<noteq> CHR ''=''"
proof -
  assume "c \<in> set (b64_encode s)"
  moreover have "b64_values (b64_encode s) \<noteq> None" using b64_roundtrip_values [of s] by (cases "b64_values (b64_encode s)") auto
  ultimately have "b64_value c \<noteq> None" by (auto simp: b64_values_def list_all_iff split: if_splits)
  then have "c \<in> set b64_alphabet" using b64_value_in by blast
  then show ?thesis by (auto simp: b64_alphabet_def)
qed

lemma fingerprint_raw: "SHA256Fingerprint sha key = ''SHA256:'' @ b64_encode (sha key)"
proof -
  have pad: "dropWhile (\<lambda>c. c = x) (replicate n x @ ys) = ys" if "x \<notin> set ys" for x :: char and n ys
    using that by (induction n) (auto simp: dropWhile_eq_self_iff intro: list.set_sel(1))
  have "CHR ''='' \<notin> set (rev (b64_encode (sha key)))" using b64_encode_chars by auto
  then show ?thesis by (simp add: SHA256Fingerprint_def b64_encode_std_def pad)
qed

lemma fingerprint_inj: "SHA256Fingerprint sha k = SHA256Fingerprint sha k' \<Longrightarrow> sha k = sha k'"
  by (auto simp: fingerprint_raw intro: b64_encode_inj)

lemma options_keep_pin:
  "\<forall>fp. WithHostKeyFingerprint fp \<notin> set extra \<Longrightarrow>
     o_hostKeyFingerprint (fold apply_option extra opts) = o_hostKeyFingerprint opts"
proof (induction extra arbitrary: opts)
  case (Cons x extra)
  have "o_hostKeyFingerprint (apply_option x opts) = o_hostKeyFingerprint opts" using Cons.prems by (cases x) auto
  with Cons show ?case by simp
qed simp

lemma options_skip [simp]:
  "o_insecureSkipVerify (fold apply_option xs opts) \<longleftrightarrow> WithInsecureSkipHostKeyVerify \<in> set xs \<or> o_insecureSkipVerify opts"
  "o_targetInsecureSkipVerify (fold apply_option xs opts) \<longleftrightarrow> WithTargetInsecureSkipVerify \<in> set xs \<or> o_targetInsecureSkipVerify opts"
proof (induction xs arbitrary: opts)
  case (Cons x xs)
  { case 1 show ?case using Cons by (cases x) auto }
  { case 2 show ?case using Cons by (cases x) auto }
qed simp_all

text \<open>
  C6. A target whose stored fingerprint is that of a key is connected to only when the server
  presents a key with the same SHA-256 digest; no insecure-skip setting of the target, of the
  caller or of the environment overrides a stored fingerprint, and a refusal reports both
  fingerprints.  Without a stored fingerprint the connection is accepted only under one of these
  settings.
\<close>

theorem pinned_host_key:
  assumes "\<forall>fp. WithHostKeyFingerprint fp \<notin> set extra"
  shows "trim_space fp = SHA256Fingerprint sha key0 \<Longrightarrow>
      (case fst (HostKeyCallbackForOptions sha env (sshBridgeOptions fp skip extra) host key) of
         None \<Rightarrow> sha key = sha key0
       | Some e \<Rightarrow> e = HostKeyMismatchError host (SHA256Fingerprint sha key0) (SHA256Fingerprint sha key) \<and> key \<noteq> key0)
    \<and> (fst (HostKeyCallbackForOptions sha env (sshBridgeOptions [] skip extra) host key) = None \<longrightarrow>
         skip \<or> env = ''1'' \<or> WithInsecureSkipHostKeyVerify \<in> set extra \<or> WithTargetInsecureSkipVerify \<in> set extra)"
proof -
  assume fp: "trim_space fp = SHA256Fingerprint sha key0"
  have pin: "o_hostKeyFingerprint (buildOptions (sshBridgeOptions p skip extra)) = trim_space p" for p
    using options_keep_pin [OF assms] by (simp add: buildOptions_def sshBridgeOptions_def)
  have "SHA256Fingerprint sha key0 \<noteq> []" by (simp add: fingerprint_raw)
  then have pinned: "fst (HostKeyCallbackForOptions sha env (sshBridgeOptions fp skip extra) host key) =
      (if SHA256Fingerprint sha key = SHA256Fingerprint sha key0 then None
       else Some (HostKeyMismatchError host (SHA256Fingerprint sha key0) (SHA256Fingerprint sha key)))"
    by (simp add: HostKeyCallbackForOptions_def hostKeyCallback_def pin fp)
  have "fst (HostKeyCallbackForOptions sha env (sshBridgeOptions [] skip extra) host key) = None \<longrightarrow>
      skip \<or> env = ''1'' \<or> WithInsecureSkipHostKeyVerify \<in> set extra \<or> WithTargetInsecureSkipVerify \<in> set extra"
    unfolding HostKeyCallbackForOptions_def hostKeyCallback_def pin
    by (auto simp: buildOptions_def sshBridgeOptions_def zero_options_def Let_def split: if_splits)
  with pinned fingerprint_inj [of sha key key0] show ?thesis by auto
qed

text \<open>The identity in place of the digest, and a key of two bytes.\<close>

theorem pinned_host_key_witness:
  "fst (HostKeyCallbackForOptions (\<lambda>k. k) ''1'' (sshBridgeOptions ''SHA256:aGk'' True [WithResizeRecorder True]) ''h'' ''hi'') = None
   \<and> fst (HostKeyCallbackForOptions (\<lambda>k. k) ''1'' (sshBridgeOptions ''SHA256:aGk'' True [WithResizeRecorder True]) ''h'' ''ho'') \<noteq> None"
proof -
  have fp: "trim_space ''SHA256:aGk'' = SHA256Fingerprint (\<lambda>k. k) ''hi''"
    by (simp add: fingerprint_raw trim_space_visible visible_def b64_char_def b64_alphabet_def byte_def)
  show ?thesis
    using pinned_host_key [where extra = "[WithResizeRecorder True]" and fp = "''SHA256:aGk''" and sha = "\<lambda>k. k" and ?key0.0 = "''hi''"
        and env = "''1''" and skip = True and host = "''h''" and key = "''hi''", OF _ fp]
      pinned_host_key [where extra = "[WithResizeRecorder True]" and fp = "''SHA256:aGk''" and sha = "\<lambda>k. k" and ?key0.0 = "''hi''"
        and env = "''1''" and skip = True and host = "''h''" and key = "''ho''", OF _ fp]
    by (auto split: option.splits)
qed

text \<open>
  An empty fingerprint is not ignored: given after another one it removes the pin.
\<close>

lemma empty_fingerprint_unpins:
  "o_hostKeyFingerprint (buildOptions [WithHostKeyFingerprint fp, WithHostKeyFingerprint []]) = []"
  by (simp add: buildOptions_def)

subsection \<open>Writers and replay\<close>


definition demo_ssh :: sshDetachableBridge where
  "demo_ssh = newSSHDetachableBridge ''bye'' (NewRingBuffer 4)"

lemma demo_ssh_new: "new_ssh_bridge demo_ssh"
  unfolding new_ssh_bridge_def demo_ssh_def by blast

definition demo_ssh_pair :: sshDetachableBridge where
  "demo_ssh_pair = snd (attach_register AttachModeWriter ''alice'' (snd (attach_register AttachModeWriter ''bob'' demo_ssh)))"

lemma demo_ssh_pair_steps: "(ssh_step streams unmarshal)\<^sup>*\<^sup>* demo_ssh demo_ssh_pair"
  unfolding demo_ssh_pair_def by (rule rtranclp.rtrancl_into_rtrancl [OF r_into_rtranclp]; rule ss_register)

lemmas demo_ssh_simps = demo_ssh_pair_def demo_ssh_def newSSHDetachableBridge_def attach_register_def
  demoteOtherWritersLocked_def upd_clients_def upd_at_def Let_def



definition demo_output :: "bytes \<Rightarrow> sshDetachableBridge \<Rightarrow> sshDetachableBridge" where
  "demo_output x b = pump_send Stdout [] (pump_store Stdout x b)"

lemma demo_output_steps: "sb_flight b Stdout = None \<Longrightarrow> (ssh_step {Stdout} unmarshal)\<^sup>*\<^sup>* b (demo_output x b)"
proof -
  assume "sb_flight b Stdout = None"
  then have "ssh_step {Stdout} unmarshal b (pump_store Stdout x b)" by (intro ss_store) simp_all
  moreover have "ssh_step {Stdout} unmarshal (pump_store Stdout x b) (demo_output x b)"
    unfolding demo_output_def by (intro ss_send) simp
  ultimately show ?thesis by (rule converse_rtranclp_into_rtranclp [OF _ r_into_rtranclp])
qed

lemmas demo_output_simps = demo_output_def pump_store_def pump_send_def broadcast_def deliver_def upd_at_def

definition demo_joined :: sshDetachableBridge where
  "demo_joined = snd (attach_replay_ws True 0 (snd (attach_register AttachModeViewer ''bob'' (demo_output ''hi'' demo_ssh))))"


text \<open>With two streams the order a client sees and the order of the replay buffer can differ.\<close>

lemma two_streams_reorder:
  defines "b \<equiv> snd (attach_replay_ws True 0 (snd (attach_register AttachModeViewer ''bob'' demo_ssh)))"
  defines "c \<equiv> pump_send Stdout [] (pump_send Stderr [] (pump_store Stderr ''e'' (pump_store Stdout ''o'' b)))"
  shows "received (ce_frames (p_entries c ! 0)) = ''eo''" and "ring_Bytes (p_output c) = ''oe''"
  by (simp_all add: b_def c_def demo_ssh_simps attach_replay_ws_def demo_output_simps NewRingBuffer_def ring_Write_def ring_put_def
      ring_Bytes_def go_copy_def replicate_num)

text \<open>The hand-over promotes every client of the user, so two windows of one user both write.\<close>

lemma both_windows_write:
  defines "b \<equiv> SetWriter ''bob'' (snd (attach_register AttachModeViewer ''bob'' (snd (attach_register AttachModeWriter ''bob'' demo_ssh))))"
  shows "p_clients b = [0, 1]" and "ce_canWrite (p_entries b ! 0)" and "ce_canWrite (p_entries b ! 1)"
  by (simp_all add: b_def demo_ssh_simps SetWriter_def)

text \<open>
  Detaching a user removes its clients and closes their sockets, but the entry keeps its right to
  write: a message its reader already holds still reaches the input channel.
\<close>

lemma kicked_writer_still_heard:
  defines "b \<equiv> DetachUser [] ''alice'' demo_ssh_pair"
  shows "p_clients b = [0]" and "p_stdin (ssh_ws_message (\<lambda>_. None) 1 BinaryMessage ''rm'' b) = [''rm'']"
  by (simp_all add: b_def demo_ssh_simps DetachUser_def ssh_ws_message_def resize_request_def isDataMessage_def)

end
