(* ===== verification/Telnet_Codec.thy ===== *)
theory Telnet_Codec
  imports Vantyx_Prelude "HOL-Library.Word"
begin

text \<open>
  The byte level of the Telnet client (\<open>src/internal/telnetproxy\<close>): removal of the RFC 854
  command sequences from the server's stream and the replies to option negotiation
  (\<open>iac.go\<close>), the terminal size and its RFC 1073 encoding (\<open>size.go\<close>, \<open>encodeNAWS\<close>), the
  login automation (\<open>login.go\<close>) and the helpers of \<open>bridge.go\<close>.

  Terminal dimensions are 16-bit words.  The filter's callback is the list of the replies it is
  called with, in order.
\<close>

unbundle bit_operations_syntax

subsection \<open>Commands and options\<close>

definition iac :: char where "iac = CHR 0xFF"
definition will_cmd :: char where "will_cmd = CHR 0xFB"
definition wont_cmd :: char where "wont_cmd = CHR 0xFC"
definition do_cmd :: char where "do_cmd = CHR 0xFD"
definition dont_cmd :: char where "dont_cmd = CHR 0xFE"
definition sb :: char where "sb = CHR 0xFA"
definition se :: char where "se = CHR 0xF0"

definition optEcho :: char where "optEcho = CHR 0x01"
definition optSuppressGoAhead :: char where "optSuppressGoAhead = CHR 0x03"
definition optNAWS :: char where "optNAWS = CHR 0x1F"

lemmas telnet_consts = iac_def will_cmd_def wont_cmd_def do_cmd_def dont_cmd_def sb_def se_def
  optEcho_def optSuppressGoAhead_def optNAWS_def

definition sendClientNegotiation :: bytes where
  "sendClientNegotiation = [iac, will_cmd, optSuppressGoAhead, iac, wont_cmd, optEcho]"

definition negotiateReply :: "char \<Rightarrow> char \<Rightarrow> bytes" where
  "negotiateReply cmd opt =
     (if cmd = do_cmd then
        (if opt = optEcho then [iac, wont_cmd, optEcho]
         else if opt = optSuppressGoAhead then [iac, will_cmd, opt]
         else if opt = optNAWS then [iac, will_cmd, opt]
         else [iac, wont_cmd, opt])
      else if cmd = dont_cmd then [iac, wont_cmd, opt]
      else if cmd = will_cmd then
        (if opt = optEcho \<or> opt = optSuppressGoAhead then [iac, do_cmd, opt] else [iac, dont_cmd, opt])
      else if cmd = wont_cmd then [iac, dont_cmd, opt]
      else [])"

definition is_negotiation :: "char \<Rightarrow> bool" where
  "is_negotiation c = (c = do_cmd \<or> c = dont_cmd \<or> c = will_cmd \<or> c = wont_cmd)"

subsection \<open>The filter\<close>

text \<open>
  The loop over a subnegotiation: what follows the first IAC SE, and nothing when the buffer ends
  before it or right after it.
\<close>

fun skip_sub :: "bytes \<Rightarrow> bytes" where
  "skip_sub [] = []"
| "skip_sub (c # r) = (if c = iac \<and> r \<noteq> [] \<and> hd r = se then tl r else skip_sub r)"

lemma length_skip_sub [termination_simp]: "length (skip_sub s) \<le> length s"
  by (induction s) (auto simp: le_diff_conv)

text \<open>Output, replies and the retained rest, from the position of the loop variable on.\<close>

function filterIACBytes :: "bytes \<Rightarrow> bytes \<times> bytes list \<times> bytes" where
  "filterIACBytes [] = ([], [], [])"
| "filterIACBytes (c # r) =
     (if c \<noteq> iac then (case filterIACBytes r of (out, replies, rest) \<Rightarrow> (c # out, replies, rest))
      else case r of [] \<Rightarrow> ([], [], [c])
      | cmd # s \<Rightarrow>
        if cmd = iac then (case filterIACBytes s of (out, replies, rest) \<Rightarrow> (iac # out, replies, rest))
        else if is_negotiation cmd then
          (case s of [] \<Rightarrow> ([], [], [c, cmd])
           | opt # t \<Rightarrow> (case filterIACBytes t of (out, replies, rest) \<Rightarrow>
               (out, (if negotiateReply cmd opt \<noteq> [] then [negotiateReply cmd opt] else []) @ replies, rest)))
        else if cmd = sb then
          (if skip_sub s = [] then ([], [], c # r) else filterIACBytes (skip_sub s))
        else filterIACBytes s)"
  by pat_completeness auto
termination
  by (relation "measure length") (auto simp: length_skip_sub less_Suc_eq_le le_SucI)

definition filterIAC :: "bytes \<Rightarrow> bytes" where
  "filterIAC b = fst (filterIACBytes b)"

record iacStream =
  pending :: bytes

text \<open>\<open>Filter\<close>: the output, the replies sent, and the stream with the retained sequence.\<close>

definition Filter :: "bytes \<Rightarrow> iacStream \<Rightarrow> bytes \<times> bytes list \<times> iacStream" where
  "Filter b s =
     (let b' = (if length (pending s) > 0 then pending s @ b else b)
      in case filterIACBytes b' of (out, replies, rest) \<Rightarrow> (out, replies, s\<lparr>pending := rest\<rparr>))"

fun Filter_all :: "bytes list \<Rightarrow> iacStream \<Rightarrow> bytes \<times> bytes list \<times> iacStream" where
  "Filter_all [] s = ([], [], s)"
| "Filter_all (b # bs) s = (case Filter b s of (out, replies, s1) \<Rightarrow>
     case Filter_all bs s1 of (out', replies', s2) \<Rightarrow> (out @ out', replies @ replies', s2))"

subsection \<open>Terminal size\<close>

record terminalSize =
  ts_cols :: "16 word"
  ts_rows :: "16 word"

definition clampTerminalSize :: "int \<Rightarrow> int \<Rightarrow> 16 word \<times> 16 word" where
  "clampTerminalSize cols rows =
     (let cols = (if cols \<le> 0 then 80 else cols);
          rows = (if rows \<le> 0 then 24 else rows);
          cols = (if cols > 65535 then 65535 else cols);
          rows = (if rows > 65535 then 65535 else rows)
      in (word_of_int cols, word_of_int rows))"

definition newTerminalSize :: "int \<Rightarrow> int \<Rightarrow> terminalSize" where
  "newTerminalSize cols rows =
     (case clampTerminalSize cols rows of (c, r) \<Rightarrow> \<lparr>ts_cols = c, ts_rows = r\<rparr>)"

definition ts_get :: "terminalSize \<Rightarrow> 16 word \<times> 16 word" where
  "ts_get t = (ts_cols t, ts_rows t)"

definition ts_set :: "int \<Rightarrow> int \<Rightarrow> terminalSize \<Rightarrow> bool \<times> terminalSize" where
  "ts_set cols rows t =
     (case clampTerminalSize cols rows of (c, r) \<Rightarrow>
        if ts_cols t = c \<and> ts_rows t = r then (False, t)
        else (True, t\<lparr>ts_cols := c, ts_rows := r\<rparr>))"

definition low_byte :: "16 word \<Rightarrow> char" where
  "low_byte w = char_of (unat (w AND 255))"

definition encodeNAWS :: "16 word \<Rightarrow> 16 word \<Rightarrow> bytes" where
  "encodeNAWS cols rows =
     (case clampTerminalSize (uint cols) (uint rows) of (c, r) \<Rightarrow>
        [iac, sb, optNAWS,
         low_byte (drop_bit 8 c), low_byte c,
         low_byte (drop_bit 8 r), low_byte r,
         iac, se])"

subsection \<open>Login automation\<close>

text \<open>
  \<open>bytes.ToLower\<close> depends on the Unicode case tables and is the parameter \<open>lower\<close>.  A credential
  write is the reply value; its error is ignored by the code.
\<close>

record LoginAutomater =
  la_username :: string
  la_password :: string
  la_state :: nat
  la_tail :: bytes

definition NewLoginAutomater :: "string \<Rightarrow> string \<Rightarrow> LoginAutomater option" where
  "NewLoginAutomater username password =
     (if username = [] then None
      else Some \<lparr>la_username = username, la_password = password, la_state = 0, la_tail = []\<rparr>)"

text \<open>What follows the last line break, unless the line break ends the text.\<close>

definition line_break :: "char \<Rightarrow> bool" where
  "line_break c = (c = CHR 0x0D \<or> c = CHR 0x0A)"

definition promptLineSuffix :: "bytes \<Rightarrow> bytes" where
  "promptLineSuffix lower =
     (let line = rev (takeWhile (\<lambda>c. \<not> line_break c) (rev lower))
      in if length line < length lower \<and> line \<noteq> [] then line else lower)"

definition login_prompts :: "bytes list" where
  "login_prompts = [''login:'', ''log in:'', ''username:'', ''user name:'', ''account:'',
     ''account name:'', ''user access verification'',
     [CHR 0xE3, CHR 0x83, CHR 0xAD, CHR 0xE3, CHR 0x82, CHR 0xB0, CHR 0xE3, CHR 0x82, CHR 0xA4,
      CHR 0xE3, CHR 0x83, CHR 0xB3],
     [CHR 0xE3, CHR 0x83, CHR 0xA6, CHR 0xE3, CHR 0x83, CHR 0xBC, CHR 0xE3, CHR 0x82, CHR 0xB6]]"

definition password_prompts :: "bytes list" where
  "password_prompts = [''password:'', ''passwort:'', ''passwd:'',
     [CHR 0xE3, CHR 0x83, CHR 0x91, CHR 0xE3, CHR 0x82, CHR 0xB9, CHR 0xE3, CHR 0x83, CHR 0xAF,
      CHR 0xE3, CHR 0x83, CHR 0xBC, CHR 0xE3, CHR 0x83, CHR 0x89]]"

definition loginPromptSeen :: "bytes \<Rightarrow> bool" where
  "loginPromptSeen line = list_ex (contains (trim_space line)) login_prompts"

definition passwordPromptSeen :: "bytes \<Rightarrow> bool" where
  "passwordPromptSeen line = list_ex (contains (trim_space line)) password_prompts"

definition OnOutput :: "(bytes \<Rightarrow> bytes) \<Rightarrow> bytes \<Rightarrow> LoginAutomater \<Rightarrow> bytes list \<times> LoginAutomater" where
  "OnOutput lower chunk l =
     (if la_state l \<ge> 2 \<or> length chunk = 0 then ([], l)
      else
        let tail = la_tail l @ chunk;
            tail = (if length tail > 512 then drop (length tail - 512) tail else tail);
            line = promptLineSuffix (lower tail)
        in if la_state l = 0 then
             (if loginPromptSeen line
              then ([la_username l @ [CHR 0x0D]], l\<lparr>la_state := 1, la_tail := []\<rparr>)
              else ([], l\<lparr>la_tail := tail\<rparr>))
           else
             (if passwordPromptSeen line
              then ([la_password l @ [CHR 0x0D]], l\<lparr>la_state := 2, la_tail := []\<rparr>)
              else ([], l\<lparr>la_tail := tail\<rparr>)))"

subsection \<open>Input and addresses\<close>

definition bytesContains :: "bytes \<Rightarrow> char \<Rightarrow> bool" where
  "bytesContains b c = list_ex (\<lambda>x. x = c) b"

text \<open>The loop of \<open>normalizeTelnetInput\<close>, with the byte before the current position.\<close>

fun normalize_loop :: "char option \<Rightarrow> bytes \<Rightarrow> bytes" where
  "normalize_loop prev [] = []"
| "normalize_loop prev (c # r) =
     (if c = CHR 0x0A \<and> prev \<noteq> Some (CHR 0x0D) then [CHR 0x0D] else []) @ c # normalize_loop (Some c) r"

definition normalizeTelnetInput :: "bytes \<Rightarrow> bytes" where
  "normalizeTelnetInput b = (if \<not> bytesContains b (CHR 0x0A) then b else normalize_loop None b)"

fun port_digits :: "nat \<Rightarrow> string \<Rightarrow> string" where
  "port_digits p buf = (if p \<ge> 10 then port_digits (p div 10) (char_of (48 + p mod 10) # buf)
     else char_of (48 + p) # buf)"

declare port_digits.simps [simp del]

definition portString :: "16 word \<Rightarrow> string" where
  "portString port = (if port = 0 then ''23'' else port_digits (unat port) [])"

text \<open>The environment variable is the argument.\<close>

definition telnetWakeOnConnect :: "string \<Rightarrow> bool" where
  "telnetWakeOnConnect env = (let v = trim_space env in \<not> (v = ''0'' \<or> equal_fold v ''false''))"


subsection \<open>Chunk independence\<close>

declare filterIACBytes.simps(2) [simp del]

text \<open>The branches of the loop, one equation each.\<close>

lemma filter_branches [simp]:
  "c \<noteq> iac \<Longrightarrow> filterIACBytes (c # r) = (case filterIACBytes r of (out, replies, rest) \<Rightarrow> (c # out, replies, rest))"
  "filterIACBytes [iac] = ([], [], [iac])"
  "filterIACBytes (iac # iac # s) = (case filterIACBytes s of (out, replies, rest) \<Rightarrow> (iac # out, replies, rest))"
  by (simp_all add: filterIACBytes.simps(2))

lemma negotiation_reply: "is_negotiation cmd \<Longrightarrow> negotiateReply cmd opt \<noteq> [] \<and> cmd \<noteq> iac"
  by (auto simp: is_negotiation_def negotiateReply_def telnet_consts)

lemma filter_negotiation [simp]:
  assumes "is_negotiation cmd"
  shows "filterIACBytes [iac, cmd] = ([], [], [iac, cmd])"
    and "filterIACBytes (iac # cmd # opt # t) = (case filterIACBytes t of (out, replies, rest) \<Rightarrow>
      (out, negotiateReply cmd opt # replies, rest))"
  using assms negotiation_reply [OF assms, of opt] by (simp_all add: filterIACBytes.simps(2))

lemma sub_not_negotiation [simp]: "\<not> is_negotiation sb" "sb \<noteq> iac"
  by (simp_all add: is_negotiation_def telnet_consts)

lemma filter_sub [simp]:
  "filterIACBytes (iac # sb # s) =
     (if skip_sub s = [] then ([], [], iac # sb # s) else filterIACBytes (skip_sub s))"
  by (simp add: filterIACBytes.simps(2))

lemma filter_command [simp]:
  "cmd \<noteq> iac \<Longrightarrow> \<not> is_negotiation cmd \<Longrightarrow> cmd \<noteq> sb \<Longrightarrow> filterIACBytes (iac # cmd # s) = filterIACBytes s"
  by (simp add: filterIACBytes.simps(2))

lemma skip_sub_append: "skip_sub s \<noteq> [] \<Longrightarrow> skip_sub (s @ b) = skip_sub s @ b"
proof (induction s)
  case (Cons c s)
  then show ?case by (cases s) auto
qed simp

lemma filter_append:
  assumes "filterIACBytes a = (out, replies, rest)" and "filterIACBytes (rest @ b) = (out', replies', rest')"
  shows "filterIACBytes (a @ b) = (out @ out', replies @ replies', rest')"
  using assms
proof (induction a arbitrary: out replies rest rule: filterIACBytes.induct)
  case 1
  then show ?case by simp
next
  case step: (2 c r)
  show ?case
  proof (cases "c = iac")
    case False
    with step.prems step.IH(1) show ?thesis by (auto split: prod.splits)
  next
    case ic: True
    show ?thesis
    proof (cases r)
      case Nil
      with step.prems ic show ?thesis by auto
    next
      case (Cons cmd s)
      consider "cmd = iac" | "cmd \<noteq> iac" "is_negotiation cmd" | "cmd = sb"
        | "cmd \<noteq> iac" "\<not> is_negotiation cmd" "cmd \<noteq> sb" by blast
      then show ?thesis
      proof cases
        case 1
        with step.prems step.IH(2) [OF _ Cons] ic Cons show ?thesis by (auto split: prod.splits)
      next
        case 2
        with step.prems step.IH(3) [OF _ Cons] ic Cons show ?thesis
          by (cases s) (auto split: prod.splits)
      next
        case 3
        with step.prems step.IH(4) [OF _ Cons] ic Cons show ?thesis
          by (cases "skip_sub s = []") (auto simp: skip_sub_append)
      next
        case 4
        with step.prems step.IH(5) [OF _ Cons] ic Cons show ?thesis by auto
      qed
    qed
  qed
qed

text \<open>What is retained is an incomplete sequence: filtering it again yields nothing.\<close>

lemma filter_rest: "filterIACBytes a = (out, replies, rest) \<Longrightarrow> filterIACBytes rest = ([], [], rest)"
proof (induction a arbitrary: out replies rest rule: length_induct)
  case (1 a)
  then have shorter: "filterIACBytes b = (o', r', rest) \<Longrightarrow> length b < length a \<Longrightarrow> ?case" for b o' r' by blast
  show ?case
  proof (cases a)
    case (Cons c r)
    from 1(2) [unfolded Cons filterIACBytes.simps(2)] show ?thesis
      by (auto split: if_splits list.splits prod.splits elim!: shorter simp: Cons le_imp_less_Suc le_SucI
          intro: le_less_trans [OF length_skip_sub])
  qed (use 1 in simp)
qed

lemma Filter_all_eq:
  "Filter_all bs s = (case filterIACBytes (pending s @ concat bs) of (out, replies, rest) \<Rightarrow> (out, replies, s\<lparr>pending := rest\<rparr>))"
  if "filterIACBytes (pending s) = ([], [], pending s)"
  using that
proof (induction bs arbitrary: s)
  case Nil
  then show ?case by simp
next
  case (Cons b bs)
  obtain out replies rest where f: "filterIACBytes (pending s @ b) = (out, replies, rest)"
    by (cases "filterIACBytes (pending s @ b)") auto
  then have fil: "Filter b s = (out, replies, s\<lparr>pending := rest\<rparr>)" by (cases "pending s") (simp_all add: Filter_def)
  obtain o2 r2 p2 where g: "filterIACBytes (rest @ concat bs) = (o2, r2, p2)"
    by (cases "filterIACBytes (rest @ concat bs)") auto
  show ?case using Cons.IH [of "s\<lparr>pending := rest\<rparr>"] filter_rest [OF f] filter_append [OF f g] fil g
    by simp
qed

text \<open>
  However the network splits the server's stream into reads, the text delivered, the
  negotiation replies and the retained incomplete sequence are those of filtering the whole
  stream at once.
\<close>

theorem telnet_chunks_irrelevant:
  "Filter_all bs \<lparr>pending = []\<rparr> =
     (case filterIACBytes (concat bs) of (out, replies, rest) \<Rightarrow> (out, replies, \<lparr>pending = rest\<rparr>))"
  by (simp add: Filter_all_eq)

subsection \<open>Decoding of well-formed streams\<close>

text \<open>The items of an RFC 854 stream and their encoding.\<close>

datatype telnet_item = Data char | Negotiation char char | is_Sub: Sub bytes | Command char

fun wire :: "telnet_item \<Rightarrow> bytes" where
  "wire (Data c) = (if c = iac then [iac, iac] else [c])"
| "wire (Negotiation cmd opt) = [iac, cmd, opt]"
| "wire (Sub body) = [iac, sb] @ body @ [iac, se]"
| "wire (Command c) = [iac, c]"

fun item_ok :: "telnet_item \<Rightarrow> bool" where
  "item_ok (Data c) = True"
| "item_ok (Negotiation cmd opt) = is_negotiation cmd"
| "item_ok (Sub body) = (\<not> contains body [iac, se])"
| "item_ok (Command c) = (c \<noteq> iac \<and> \<not> is_negotiation c \<and> c \<noteq> sb)"

fun item_text :: "telnet_item \<Rightarrow> bytes" where
  "item_text (Data c) = [c]"
| "item_text _ = []"

fun item_replies :: "telnet_item \<Rightarrow> bytes list" where
  "item_replies (Negotiation cmd opt) = [negotiateReply cmd opt]"
| "item_replies _ = []"

fun open_tail :: "telnet_item list \<Rightarrow> bytes" where
  "open_tail [] = []"
| "open_tail [Sub body] = wire (Sub body)"
| "open_tail (i # is) = open_tail is"

lemma contains_Cons: "\<not> contains (c # s) p \<Longrightarrow> \<not> contains s p"
  unfolding contains_iff by (metis append_Cons)

lemma skip_sub_body: "\<not> contains body [iac, se] \<Longrightarrow> skip_sub (body @ iac # se # r) = r"
proof (induction body)
  case (Cons c body)
  have "\<not> (c = iac \<and> hd (body @ iac # se # r) = se)"
  proof (cases body)
    case Nil
    then show ?thesis by (simp add: telnet_consts)
  next
    case body: (Cons d rest)
    have "c # body \<noteq> [] @ [iac, se] @ rest" using Cons.prems unfolding contains_iff by blast
    then show ?thesis using body by auto
  qed
  with Cons show ?case using contains_Cons [OF Cons.prems] by auto
qed simp

lemma wire_nonempty: "wire i \<noteq> []"
  by (cases i) auto

lemma filter_item:
  assumes "item_ok i" and "is_Sub i \<Longrightarrow> r \<noteq> []"
  shows "filterIACBytes (wire i @ r) = (case filterIACBytes r of (out, replies, rest) \<Rightarrow>
    (item_text i @ out, item_replies i @ replies, rest))"
  using assms by (cases i) (auto simp: skip_sub_body split: prod.split)

lemma filter_items:
  "list_all item_ok items \<Longrightarrow> filterIACBytes (concat (map wire items)) =
     (concat (map item_text items), concat (map item_replies items), open_tail items)"
proof (induction items rule: open_tail.induct)
  case (2 body)
  then show ?case by (simp add: skip_sub_body)
qed (auto simp: filter_item wire_nonempty)



subsection \<open>Terminal sizes\<close>

definition size_in_range :: "int \<Rightarrow> int \<Rightarrow> int" where
  "size_in_range d n = (if n \<le> 0 then d else min n 65535)"

lemma clamp_sizes:
  "clampTerminalSize cols rows = (word_of_int (size_in_range 80 cols), word_of_int (size_in_range 24 rows))"
  by (simp add: clampTerminalSize_def size_in_range_def min_def)

lemma size_in_range_bounds: "0 < d \<Longrightarrow> d < 65536 \<Longrightarrow> 0 < size_in_range d n \<and> size_in_range d n < 65536"
  by (auto simp: size_in_range_def)

lemma uint_size: "0 < d \<Longrightarrow> d < 65536 \<Longrightarrow> uint (word_of_int (size_in_range d n) :: 16 word) = size_in_range d n"
  using size_in_range_bounds [of d n] by (simp add: uint_word_of_int)

lemma size_in_range_idem: "0 < d \<Longrightarrow> d < 65536 \<Longrightarrow> size_in_range d (size_in_range d n) = size_in_range d n"
  using size_in_range_bounds [of d n] by (auto simp: size_in_range_def)

lemma of_char_low: "(of_char (low_byte w) :: nat) = unat w mod 256"
proof -
  have "unat (w AND mask 8) = unat w mod 256"
    by (simp add: take_bit_eq_mod unat_mod flip: take_bit_eq_mask)
  then have "unat (w AND 255) = unat w mod 256" by (simp add: mask_eq_exp_minus_1)
  then show ?thesis by (simp add: low_byte_def)
qed

lemma word_bytes:
  fixes w :: "16 word"
  shows "256 * (of_char (low_byte (drop_bit 8 w)) :: nat) + of_char (low_byte w) = unat w"
proof -
  have "unat w < 2 ^ 16" using unsigned_less [of w] by simp
  then have "unat w div 256 < 256" by (simp add: less_mult_imp_div_less)
  moreover have "unat (drop_bit 8 w) = unat w div 256" by (simp add: drop_bit_eq_div unat_div)
  ultimately show ?thesis unfolding of_char_low by simp
qed

text \<open>
  Whatever size a client asks for, the size kept and announced to the server is the requested
  one brought into the 16-bit range, with 80 by 24 for a size that is not positive; the
  announcement carries exactly these two numbers, most significant byte first, and asking again
  for the size already in force changes nothing.
\<close>

theorem announced_size_in_range:
  "\<exists>a b c d. encodeNAWS (ts_cols (snd (ts_set cols rows t))) (ts_rows (snd (ts_set cols rows t)))
       = [iac, sb, optNAWS, a, b, c, d, iac, se]
     \<and> int (256 * of_char a + of_char b) = (if cols \<le> 0 then 80 else min cols 65535)
     \<and> int (256 * of_char c + of_char d) = (if rows \<le> 0 then 24 else min rows 65535)
     \<and> ts_set cols rows (snd (ts_set cols rows t)) = (False, snd (ts_set cols rows t))"
proof -
  let ?t = "snd (ts_set cols rows t)" and ?c = "word_of_int (size_in_range 80 cols) :: 16 word"
    and ?r = "word_of_int (size_in_range 24 rows) :: 16 word"
  have t: "ts_cols ?t = ?c" "ts_rows ?t = ?r" by (auto simp: ts_set_def clamp_sizes)
  then have same: "ts_set cols rows ?t = (False, ?t)" by (simp add: ts_set_def [of cols rows ?t] clamp_sizes)
  have "clampTerminalSize (uint ?c) (uint ?r) = (?c, ?r)"
    by (simp only: clamp_sizes) (simp add: uint_size size_in_range_idem)
  then have enc: "encodeNAWS (ts_cols ?t) (ts_rows ?t) = [iac, sb, optNAWS, low_byte (drop_bit 8 ?c), low_byte ?c,
      low_byte (drop_bit 8 ?r), low_byte ?r, iac, se]"
    unfolding encodeNAWS_def t by simp
  have "int (unat ?c) = size_in_range 80 cols" "int (unat ?r) = size_in_range 24 rows"
    by (simp_all add: uint_size)
  then have "int (256 * of_char (low_byte (drop_bit 8 ?c)) + of_char (low_byte ?c)) = (if cols \<le> 0 then 80 else min cols 65535)"
    "int (256 * of_char (low_byte (drop_bit 8 ?r)) + of_char (low_byte ?r)) = (if rows \<le> 0 then 24 else min rows 65535)"
    unfolding word_bytes by (simp_all only: size_in_range_def)
  with enc same show ?thesis by blast
qed

text \<open>
  The dimension bytes are not escaped: a width of 65520 columns puts IAC SE into the
  announcement, and a receiver that follows RFC 854 sees it end early and reads the rest as text.
\<close>

lemma naws_not_escaped:
  "encodeNAWS 65520 24 = [iac, sb, optNAWS, iac, se, CHR 0x00, CHR 0x18, iac, se]"
  "fst (filterIACBytes (encodeNAWS 65520 24)) = [CHR 0x00, CHR 0x18]"
proof -
  show "encodeNAWS 65520 24 = [iac, sb, optNAWS, iac, se, CHR 0x00, CHR 0x18, iac, se]"
    by (simp add: encodeNAWS_def clampTerminalSize_def low_byte_def telnet_consts drop_bit_eq_div char_of_def bit_0)
  then show "fst (filterIACBytes (encodeNAWS 65520 24)) = [CHR 0x00, CHR 0x18]"
    by (simp add: telnet_consts filterIACBytes.simps(2) is_negotiation_def)
qed

subsection \<open>Credentials\<close>

fun OnOutput_all :: "(bytes \<Rightarrow> bytes) \<Rightarrow> bytes list \<Rightarrow> LoginAutomater \<Rightarrow> bytes list \<times> LoginAutomater" where
  "OnOutput_all lower [] l = ([], l)"
| "OnOutput_all lower (c # cs) l = (case OnOutput lower c l of (ws, l1) \<Rightarrow>
     case OnOutput_all lower cs l1 of (ws', l2) \<Rightarrow> (ws @ ws', l2))"

text \<open>
  The reference: \<open>await seen h cs\<close> reads chunks after the text \<open>h\<close> until a prompt stands on the
  current line of the last 512 bytes, and returns the chunks that follow.
\<close>

fun await :: "(bytes \<Rightarrow> bool) \<Rightarrow> bytes \<Rightarrow> bytes list \<Rightarrow> bytes list option" where
  "await seen h [] = None"
| "await seen h (c # cs) = (if seen (lastn 512 (h @ c)) then Some cs else await seen (h @ c) cs)"

definition login_due :: "(bytes \<Rightarrow> bytes) \<Rightarrow> bytes \<Rightarrow> bool" where
  "login_due lower t = loginPromptSeen (promptLineSuffix (lower t))"

definition password_due :: "(bytes \<Rightarrow> bytes) \<Rightarrow> bytes \<Rightarrow> bool" where
  "password_due lower t = passwordPromptSeen (promptLineSuffix (lower t))"

definition credentials_spec :: "(bytes \<Rightarrow> bytes) \<Rightarrow> string \<Rightarrow> string \<Rightarrow> bytes list \<Rightarrow> bytes list" where
  "credentials_spec lower user pass cs =
     (case await (login_due lower) [] cs of None \<Rightarrow> []
      | Some cs1 \<Rightarrow> (user @ [CHR 0x0D]) #
         (case await (password_due lower) [] cs1 of None \<Rightarrow> [] | Some _ \<Rightarrow> [pass @ [CHR 0x0D]]))"

lemma OnOutput_tail:
  assumes "la_tail l = lastn 512 h" and "c \<noteq> []" and "la_state l < 2"
  shows "OnOutput lower c l =
    (if (if la_state l = 0 then login_due lower else password_due lower) (lastn 512 (h @ c))
     then ([(if la_state l = 0 then la_username l else la_password l) @ [CHR 0x0D]], l\<lparr>la_state := Suc (la_state l), la_tail := []\<rparr>)
     else ([], l\<lparr>la_tail := lastn 512 (h @ c)\<rparr>))"
proof -
  have "(if 512 < length (lastn 512 h @ c) then drop (length (lastn 512 h @ c) - 512) (lastn 512 h @ c)
      else lastn 512 h @ c) = lastn 512 (lastn 512 h @ c)"
    by (simp add: lastn_def)
  then show ?thesis using assms
    by (auto simp: OnOutput_def Let_def login_due_def password_due_def less_2_cases_iff)
qed

lemma fst_OnOutput_all:
  "fst (OnOutput_all lower (c # cs) l) = fst (OnOutput lower c l) @ fst (OnOutput_all lower cs (snd (OnOutput lower c l)))"
  by (simp split: prod.split)

lemma OnOutput_done: "la_state l = 2 \<Longrightarrow> OnOutput_all lower cs l = ([], l)"
  by (induction cs) (auto simp: OnOutput_def)

lemma OnOutput_password:
  assumes "la_state l = 1" "la_tail l = lastn 512 h" "[] \<notin> set cs"
  shows "fst (OnOutput_all lower cs l) =
    (case await (password_due lower) h cs of None \<Rightarrow> [] | Some _ \<Rightarrow> [la_password l @ [CHR 0x0D]])"
  using assms
proof (induction cs arbitrary: l h)
  case (Cons c cs)
  then have step: "OnOutput lower c l = (if password_due lower (lastn 512 (h @ c))
      then ([la_password l @ [CHR 0x0D]], l\<lparr>la_state := 2, la_tail := []\<rparr>) else ([], l\<lparr>la_tail := lastn 512 (h @ c)\<rparr>))"
    by (subst OnOutput_tail [of l h]) auto
  show ?case
    using Cons.prems Cons.IH [of "l\<lparr>la_tail := lastn 512 (h @ c)\<rparr>" "h @ c"]
    unfolding fst_OnOutput_all step by (simp add: OnOutput_done split: option.split)
qed simp

lemma OnOutput_login:
  assumes "la_state l = 0" "la_tail l = lastn 512 h" "[] \<notin> set cs"
  shows "fst (OnOutput_all lower cs l) =
    (case await (login_due lower) h cs of None \<Rightarrow> []
     | Some cs1 \<Rightarrow> (la_username l @ [CHR 0x0D]) #
        (case await (password_due lower) [] cs1 of None \<Rightarrow> [] | Some _ \<Rightarrow> [la_password l @ [CHR 0x0D]]))"
  using assms
proof (induction cs arbitrary: l h)
  case (Cons c cs)
  then have step: "OnOutput lower c l = (if login_due lower (lastn 512 (h @ c))
      then ([la_username l @ [CHR 0x0D]], l\<lparr>la_state := 1, la_tail := []\<rparr>) else ([], l\<lparr>la_tail := lastn 512 (h @ c)\<rparr>))"
    by (subst OnOutput_tail [of l h]) auto
  show ?case
  proof (cases "login_due lower (lastn 512 (h @ c))")
    case True
    let ?l = "l\<lparr>la_state := 1, la_tail := []\<rparr>"
    have "fst (OnOutput_all lower cs ?l) =
        (case await (password_due lower) [] cs of None \<Rightarrow> [] | Some _ \<Rightarrow> [la_password l @ [CHR 0x0D]])"
      using OnOutput_password [of ?l "[]" cs lower] Cons.prems by (simp split: option.split)
    with True show ?thesis unfolding fst_OnOutput_all step by simp
  next
    case False
    with Cons.prems Cons.IH [of "l\<lparr>la_tail := lastn 512 (h @ c)\<rparr>" "h @ c"] show ?thesis
      unfolding fst_OnOutput_all step by (simp split: option.split)
  qed
qed simp

text \<open>
  The login automation writes exactly what its contract says: the user name once, at the
  first output after which a login prompt stands on the current line, then the password once, at
  the first later output with a password prompt, and nothing else however the server goes on.
\<close>

theorem credentials_sent_as_prompted:
  assumes "NewLoginAutomater user pass = Some l" and "[] \<notin> set cs"
  shows "fst (OnOutput_all lower cs l) = credentials_spec lower user pass cs"
proof -
  have "la_username l = user" "la_password l = pass" "la_state l = 0" "la_tail l = lastn 512 []"
    using assms(1) by (auto simp: NewLoginAutomater_def split: if_splits)
  with OnOutput_login [of l "[]" cs lower] assms(2) show ?thesis by (simp add: credentials_spec_def split: option.split)
qed

lemma demo_prompt: "login_due to_lower ''Router Login:''" "password_due to_lower ''PASSWORD:''"
  "\<not> login_due to_lower ''Router ''" "\<not> password_due to_lower ''PASS''"
proof -
  have lower: "to_lower ''Router Login:'' = ''router login:''" "to_lower ''PASSWORD:'' = ''password:''"
    "to_lower ''Router '' = ''router ''" "to_lower ''PASS'' = ''pass''"
    by (simp_all add: to_lower_def lower_char_def char_of_def bit_0)
  show "login_due to_lower ''Router Login:''"
    by (simp add: login_due_def lower promptLineSuffix_def line_break_def loginPromptSeen_def login_prompts_def
        trim_space_visible visible_def contains_def index_of.simps has_prefix_def)
  show "password_due to_lower ''PASSWORD:''"
    by (simp add: password_due_def lower promptLineSuffix_def line_break_def passwordPromptSeen_def password_prompts_def
        trim_space_visible visible_def contains_def index_of.simps has_prefix_def)
  show "\<not> password_due to_lower ''PASS''"
    by (simp add: password_due_def lower promptLineSuffix_def line_break_def passwordPromptSeen_def password_prompts_def
        trim_space_visible visible_def contains_def index_of.simps has_prefix_def)
  show "\<not> login_due to_lower ''Router ''"
    by (simp add: login_due_def lower promptLineSuffix_def line_break_def loginPromptSeen_def login_prompts_def
        trim_space_def trim_left_def trim_right_def strip_front.simps space_runes_def contains_def index_of.simps has_prefix_def)
qed

theorem credentials_sent_as_prompted_witness:
  "fst (OnOutput_all to_lower [''Router '', ''Login:'', ''PASS'', ''WORD:'', ''Router Login:'']
     \<lparr>la_username = ''admin'', la_password = ''secret'', la_state = 0, la_tail = []\<rparr>)
   = [''admin'' @ [CHR 0x0D], ''secret'' @ [CHR 0x0D]]"
proof -
  have new: "NewLoginAutomater ''admin'' ''secret'' =
      Some \<lparr>la_username = ''admin'', la_password = ''secret'', la_state = 0, la_tail = []\<rparr>"
    by (simp add: NewLoginAutomater_def)
  show ?thesis
    by (subst credentials_sent_as_prompted [OF new])
      (simp_all add: credentials_spec_def lastn_def demo_prompt)
qed

text \<open>
  A login prompt inside a line that is already finished counts while nothing follows the line
  break: the whole retained text is searched, not the (empty) current line.
\<close>

lemma finished_line_counts: "promptLineSuffix (s @ [CHR 0x0A]) = s @ [CHR 0x0A]"
  by (simp add: promptLineSuffix_def line_break_def)

end
