(* ===== verification/Telnet_Bridge.thy ===== *)
theory Telnet_Bridge
  imports Telnet_Codec Client_Pool
begin

text \<open>
  The detachable Telnet bridge (\<open>src/internal/telnetproxy/bridge.go\<close>, \<open>bridge_detachable.go\<close>): one
  upstream connection, the pool of attached clients and the pumps between them.

  Every definition is one critical section or one uninterrupted stretch of a goroutine; a
  goroutine that can be interrupted in between is several definitions and the step relation
  interleaves them.  \<open>tb_outgoing\<close> is the chunk the output pump has stored and not yet broadcast.
  Successful writes to the upstream connection are recorded in order; \<open>json.Unmarshal\<close> of a
  resize message is the parameter \<open>unmarshal\<close>.
\<close>

record detachableBridge = clientPool +
  tb_open :: bool
  tb_wire :: "bytes list"
  tb_termSize :: terminalSize
  tb_login :: "LoginAutomater option"
  tb_iac :: iacStream
  tb_resizes :: "(16 word \<times> 16 word) list"
  tb_outgoing :: "bytes option"

text \<open>A write to the upstream connection, which fails once the connection is closed.\<close>

definition conn_Write :: "bytes \<Rightarrow> detachableBridge \<Rightarrow> bool \<times> detachableBridge" where
  "conn_Write p b = (if tb_open b then (True, b\<lparr>tb_wire := tb_wire b @ [p]\<rparr>) else (False, b))"

text \<open>The bridge after \<open>RunBridgeDetachable\<close> has sent the client's options and constructed it.\<close>

definition newDetachableBridge ::
  "string \<Rightarrow> string \<Rightarrow> RingBuffer \<Rightarrow> string \<Rightarrow> string \<Rightarrow> int \<Rightarrow> int \<Rightarrow> detachableBridge" where
  "newDetachableBridge wake_env endMsg output username password cols rows =
     (let b = \<lparr>p_endMsg = endMsg, p_output = output, p_stdin = [], p_recorded = [], p_entries = [], p_clients = [],
                 p_attaching = [], tb_open = True, tb_wire = [sendClientNegotiation], tb_termSize = newTerminalSize cols rows,
                 tb_login = NewLoginAutomater username password, tb_iac = \<lparr>pending = []\<rparr>,
                 tb_resizes = [], tb_outgoing = None\<rparr>
      in if tb_login b \<noteq> None \<and> telnetWakeOnConnect wake_env then snd (conn_Write [CHR 0x0D] b) else b)"

definition replyTo :: "bytes \<Rightarrow> detachableBridge \<Rightarrow> detachableBridge" where
  "replyTo iacReply b =
     (case conn_Write iacReply b of (ok, b1) \<Rightarrow>
        if \<not> ok then b1
        else if iacReply = [iac, will_cmd, optNAWS] then
          (case ts_get (tb_termSize b1) of (cols, rows) \<Rightarrow> snd (conn_Write (encodeNAWS cols rows) b1))
        else b1)"

definition tryResize :: "int \<Rightarrow> int \<Rightarrow> detachableBridge \<Rightarrow> detachableBridge" where
  "tryResize cols rows b =
     (case ts_set cols rows (tb_termSize b) of (changed, t) \<Rightarrow>
        let b = b\<lparr>tb_termSize := t\<rparr> in
        if changed then
          (case ts_get t of (c, r) \<Rightarrow>
             (snd (conn_Write (encodeNAWS c r) b))\<lparr>tb_resizes := tb_resizes b @ [(c, r)]\<rparr>)
        else b)"

text \<open>The goroutine that forwards size changes from outside.\<close>

definition external_resize :: "int \<Rightarrow> int \<Rightarrow> detachableBridge \<Rightarrow> detachableBridge" where
  "external_resize cols rows b = (if cols > 0 \<and> rows > 0 then tryResize cols rows b else b)"

text \<open>One round of \<open>runStdinPump\<close>: the oldest message of the channel.\<close>

definition stdin_pump :: "detachableBridge \<Rightarrow> detachableBridge" where
  "stdin_pump b =
     (case p_stdin b of [] \<Rightarrow> b
      | data # rest \<Rightarrow>
        let b = b\<lparr>p_stdin := rest\<rparr> in
        if length data > 0
        then snd (conn_Write (normalizeTelnetInput data) (b\<lparr>p_recorded := p_recorded b @ [data]\<rparr>))
        else b)"

text \<open>
  The output pump, up to the broadcast: the filter with its replies, the login automation, the
  replay buffer.  The chunk waits in \<open>tb_outgoing\<close> for the broadcast.
\<close>

definition login_output :: "(bytes \<Rightarrow> bytes) \<Rightarrow> bytes \<Rightarrow> detachableBridge \<Rightarrow> detachableBridge" where
  "login_output lower filtered b =
     (case tb_login b of None \<Rightarrow> b
      | Some l \<Rightarrow> (case OnOutput lower filtered l of (ws, l') \<Rightarrow>
          fold (\<lambda>w b. snd (conn_Write w b)) ws (b\<lparr>tb_login := Some l'\<rparr>)))"

definition pump_read :: "(bytes \<Rightarrow> bytes) \<Rightarrow> bytes \<Rightarrow> detachableBridge \<Rightarrow> detachableBridge" where
  "pump_read lower buf b =
     (if buf = [] then b
      else case Filter buf (tb_iac b) of (filtered, replies, s) \<Rightarrow>
        let b = fold replyTo replies (b\<lparr>tb_iac := s\<rparr>) in
        if length filtered > 0 then
          (let b = login_output lower filtered b in
           b\<lparr>p_output := snd (ring_Write filtered (p_output b)), tb_outgoing := Some filtered\<rparr>)
        else b)"

definition pump_broadcast :: "nat list \<Rightarrow> detachableBridge \<Rightarrow> detachableBridge" where
  "pump_broadcast dead b =
     (case tb_outgoing b of None \<Rightarrow> b
      | Some filtered \<Rightarrow> broadcast dead filtered (b\<lparr>tb_outgoing := None\<rparr>))"

definition handleResizeMessage ::
  "(bytes \<Rightarrow> (string \<times> int \<times> int) option) \<Rightarrow> bytes \<Rightarrow> detachableBridge \<Rightarrow> bool \<times> detachableBridge" where
  "handleResizeMessage unmarshal msg b =
     (if msg = [] \<or> hd msg \<noteq> CHR ''{'' \<or> \<not> contains msg ''\"type\":\"resize\"'' then (False, b)
      else case unmarshal msg of None \<Rightarrow> (False, b)
      | Some (ty, cols, rows) \<Rightarrow>
          if ty \<noteq> ''resize'' \<or> cols \<le> 0 \<or> rows \<le> 0 then (False, b)
          else (True, tryResize cols rows b))"

text \<open>The rest of \<open>attachWebSocket\<close>: a client that stays attached makes the bridge announce the size.\<close>

definition attach_announce :: "bool \<Rightarrow> nat \<Rightarrow> detachableBridge \<Rightarrow> detachableBridge" where
  "attach_announce ok i b =
     (case attach_replay_ws ok i b of (stays, b1) \<Rightarrow>
        if \<not> stays then b1
        else case ts_get (tb_termSize b1) of (cols, rows) \<Rightarrow> snd (conn_Write (encodeNAWS cols rows) b1))"

text \<open>One message read by \<open>readWebSocket\<close>.\<close>

definition ws_message ::
  "(bytes \<Rightarrow> (string \<times> int \<times> int) option) \<Rightarrow> nat \<Rightarrow> message_type \<Rightarrow> bytes \<Rightarrow> detachableBridge \<Rightarrow> detachableBridge" where
  "ws_message unmarshal i mt msg b =
     (case (if mt = TextMessage then handleResizeMessage unmarshal msg b else (False, b)) of (handled, b) \<Rightarrow>
        if handled then b
        else if \<not> isDataMessage mt then b
        else if \<not> ce_canWrite (p_entries b ! i) then b
        else b\<lparr>p_stdin := p_stdin b @ [msg]\<rparr>)"

definition cleanup :: "detachableBridge \<Rightarrow> detachableBridge" where
  "cleanup b = b\<lparr>tb_open := False\<rparr>"

subsection \<open>Interleavings\<close>

inductive telnet_step ::
  "(bytes \<Rightarrow> bytes) \<Rightarrow> (bytes \<Rightarrow> (string \<times> int \<times> int) option) \<Rightarrow> detachableBridge \<Rightarrow> detachableBridge \<Rightarrow> bool"
  for lower and unmarshal where
  ts_register: "telnet_step lower unmarshal b (snd (attach_register mode user b))"
| ts_replay_ws: "i \<in> set (p_attaching b) \<Longrightarrow> telnet_step lower unmarshal b (attach_announce ok i b)"
| ts_replay_stream: "i \<in> set (p_attaching b) \<Longrightarrow> telnet_step lower unmarshal b (attach_replay_stream ok i b)"
| ts_read: "tb_outgoing b = None \<Longrightarrow> telnet_step lower unmarshal b (pump_read lower buf b)"
| ts_broadcast: "telnet_step lower unmarshal b (pump_broadcast dead b)"
| ts_stdin: "telnet_step lower unmarshal b (stdin_pump b)"
| ts_ws_message: "i < length (p_entries b) \<Longrightarrow> telnet_step lower unmarshal b (ws_message unmarshal i mt msg b)"
| ts_stream_message: "i < length (p_entries b) \<Longrightarrow> telnet_step lower unmarshal b (stream_message i data b)"
| ts_resize: "telnet_step lower unmarshal b (external_resize cols rows b)"
| ts_set_writer: "telnet_step lower unmarshal b (SetWriter user b)"
| ts_detach_user: "telnet_step lower unmarshal b (DetachUser dead user b)"
| ts_detach: "i < length (p_entries b) \<Longrightarrow> telnet_step lower unmarshal b (detachEntry i b)"
| ts_end: "telnet_step lower unmarshal b (end_session dead b)"
| ts_cleanup: "telnet_step lower unmarshal b (cleanup b)"

text \<open>The upstream side leaves the clients, and the chunk under way, alone.\<close>

definition same_side :: "detachableBridge \<Rightarrow> detachableBridge \<Rightarrow> bool" where
  "same_side b b' = (same_clients b b' \<and> tb_outgoing b' = tb_outgoing b)"

lemma same_side_refl [simp]: "same_side b b"
  by (simp add: same_side_def)

lemma same_side_trans: "same_side a b \<Longrightarrow> same_side b c \<Longrightarrow> same_side a c"
  by (auto simp: same_side_def intro: same_clients_trans)

lemma same_side_fold: "(\<And>x b. same_side b (f x b)) \<Longrightarrow> same_side b (fold f xs b)"
  by (induction xs arbitrary: b) (auto intro: same_side_trans)

lemmas same_defs = same_side_def same_clients_def

lemma same_conn_Write [simp]: "same_side b (snd (conn_Write p b))"
  by (simp add: conn_Write_def same_defs)

lemma same_replyTo: "same_side b (replyTo r b)"
  by (auto simp: replyTo_def conn_Write_def same_defs ts_get_def)

lemma same_tryResize [simp]: "same_side b (tryResize cols rows b)"
  by (auto simp: tryResize_def conn_Write_def same_defs ts_get_def Let_def split: prod.split)

lemma same_external_resize: "same_side b (external_resize cols rows b)"
  by (simp add: external_resize_def)

lemma same_stdin_pump: "same_side b (stdin_pump b)"
  by (auto simp: stdin_pump_def conn_Write_def same_defs Let_def split: list.split)

lemma same_handleResize: "handleResizeMessage unmarshal msg b = (h, b') \<Longrightarrow> same_side b b' \<and> p_stdin b' = p_stdin b"
  by (auto simp: handleResizeMessage_def same_defs tryResize_def conn_Write_def ts_get_def Let_def
      split: option.splits prod.splits if_splits)

lemma same_ws_message: "same_side b (ws_message unmarshal i mt msg b)"
  by (auto simp: ws_message_def same_defs split: prod.splits if_splits
      dest!: same_handleResize [unfolded same_defs])

lemma same_telnet_stream: "same_side b (stream_message i data b)"
  by (simp add: stream_message_def same_defs)

lemma same_login_output: "same_side b (login_output lower filtered b)"
proof (cases "tb_login b")
  case (Some l)
  obtain ws l' where o: "OnOutput lower filtered l = (ws, l')" by force
  have "same_side b (b\<lparr>tb_login := Some l'\<rparr>)" by (simp add: same_defs)
  then show ?thesis using same_side_fold [of "\<lambda>w b. snd (conn_Write w b)"] Some o
    by (auto simp: login_output_def intro: same_side_trans)
qed (simp add: login_output_def)

lemma same_cleanup: "same_side b (cleanup b)"
  by (simp add: cleanup_def same_defs)

text \<open>The output pump stores exactly the filtered text.\<close>

lemma pump_read_effect:
  "\<exists>x c. same_side b c \<and> pump_read lower buf b =
     c\<lparr>p_output := snd (ring_Write x (p_output c)), tb_outgoing := (if x = [] then tb_outgoing c else Some x)\<rparr>"
proof (cases "buf = []")
  case True
  then show ?thesis by (intro exI [of _ "[]"] exI [of _ b]) (simp add: pump_read_def ring_Write_def)
next
  case False
  obtain x replies s where f: "Filter buf (tb_iac b) = (x, replies, s)" by (metis prod_cases3)
  let ?b1 = "fold replyTo replies (b\<lparr>tb_iac := s\<rparr>)"
  have "same_side b (b\<lparr>tb_iac := s\<rparr>)" by (simp add: same_defs)
  then have 1: "same_side b ?b1" using same_side_fold [of replyTo] same_replyTo same_side_trans by blast
  show ?thesis
  proof (cases "x = []")
    case True
    with 1 f False show ?thesis
      by (intro exI [of _ "[]"] exI [of _ ?b1]) (simp add: pump_read_def ring_Write_def)
  next
    case nonempty: False
    have "same_side b (login_output lower x ?b1)" using 1 same_login_output same_side_trans by blast
    with f False nonempty show ?thesis
      by (intro exI [of _ x] exI [of _ "login_output lower x ?b1"]) (simp add: pump_read_def Let_def)
  qed
qed

subsection \<open>The bridge keeps the contract of the pool\<close>

definition outgoing :: "detachableBridge \<Rightarrow> bytes" where
  "outgoing b = (case tb_outgoing b of None \<Rightarrow> [] | Some x \<Rightarrow> x)"

lemma same_side_keeps:
  assumes "same_side b b'"
  shows "pool_inv b \<Longrightarrow> pool_inv b'" and "in_sync (outgoing b) i b \<Longrightarrow> in_sync (outgoing b') i b'"
  using assms by (auto simp: same_side_def outgoing_def intro: pool_inv_same in_sync_same)

lemma outgoing_pool_ops [simp]:
  "tb_outgoing (snd (attach_register mode user b)) = tb_outgoing b"
  "tb_outgoing (snd (attach_replay_ws ok i b)) = tb_outgoing b"
  "tb_outgoing (attach_replay_stream ok i b) = tb_outgoing b"
  "tb_outgoing (SetWriter user b) = tb_outgoing b"
  "tb_outgoing (DetachUser dead user b) = tb_outgoing b"
  "tb_outgoing (detachEntry i b) = tb_outgoing b"
  "tb_outgoing (end_session dead b) = tb_outgoing b"
  "tb_outgoing (broadcast dead x b) = tb_outgoing b"
  by (simp_all add: attach_register_def attach_replay_ws_def attach_replay_stream_def send_frame_def detachEntry_def
      SetWriter_def DetachUser_def end_session_def broadcastText_def broadcast_def deliver_def demoteOtherWritersLocked_def upd_clients_def Let_def)

lemma pool_inv_outgoing [simp]:
  "pool_inv ((b :: detachableBridge)\<lparr>tb_outgoing := x\<rparr>) = pool_inv b" "in_sync q i (b\<lparr>tb_outgoing := x\<rparr>) = in_sync q i b"
  by (simp_all add: pool_inv_def writes_for_def in_sync_def)

lemma same_announce: "same_side (snd (attach_replay_ws ok i b)) (attach_announce ok i b)"
  by (auto simp: attach_announce_def ts_get_def split: prod.split)

lemma telnet_inv_read: "pool_inv b \<Longrightarrow> pool_inv (pump_read lower buf b)"
  using pump_read_effect [of b lower buf] same_side_keeps(1) by (fastforce intro: pool_inv_store)

lemma telnet_sync_read:
  assumes "pool_inv b" and "in_sync (outgoing b) i b" and "tb_outgoing b = None"
  shows "in_sync (outgoing (pump_read lower buf b)) i (pump_read lower buf b)"
proof -
  obtain x c where c: "same_side b c" and eq: "pump_read lower buf b =
      c\<lparr>p_output := snd (ring_Write x (p_output c)), tb_outgoing := (if x = [] then tb_outgoing c else Some x)\<rparr>"
    using pump_read_effect by blast
  have "tb_outgoing c = None" "in_sync [] i c" using c assms same_side_keeps(2) [OF c, of i]
    by (simp_all add: same_side_def outgoing_def)
  then show ?thesis using in_sync_store [OF same_side_keeps(1) [OF c assms(1)]] unfolding eq by (simp add: outgoing_def)
qed

lemma telnet_inv_step: "telnet_step lower unmarshal b b' \<Longrightarrow> pool_inv b \<Longrightarrow> pool_inv b'"
proof (induction rule: telnet_step.induct)
  case (ts_replay_ws i b ok)
  then show ?case using same_side_keeps(1) [OF same_announce] pool_inv_replay(1) by blast
next
  case (ts_broadcast b dead)
  then show ?case by (auto simp: pump_broadcast_def broadcast_def pool_inv_deliver split: option.split)
qed (auto intro: pool_inv_register pool_inv_replay telnet_inv_read pool_inv_SetWriter pool_inv_DetachUser
  pool_inv_detachEntry pool_inv_end same_side_keeps(1) [OF same_stdin_pump] same_side_keeps(1) [OF same_ws_message]
  same_side_keeps(1) [OF same_telnet_stream] same_side_keeps(1) [OF same_external_resize] same_side_keeps(1) [OF same_cleanup])

lemma telnet_sync_step:
  "telnet_step lower unmarshal b b' \<Longrightarrow> pool_inv b \<Longrightarrow> in_sync (outgoing b) i b \<Longrightarrow> in_sync (outgoing b') i b'"
proof (induction rule: telnet_step.induct)
  case (ts_replay_ws j b ok)
  then have "in_sync (outgoing b) i (snd (attach_replay_ws ok j b))" by (intro in_sync_replay) auto
  then have "in_sync (outgoing (snd (attach_replay_ws ok j b))) i (snd (attach_replay_ws ok j b))" by (simp add: outgoing_def)
  then show ?case by (rule same_side_keeps(2) [OF same_announce])
next
  case (ts_broadcast b dead)
  then show ?case
  proof (cases "tb_outgoing b")
    case (Some x)
    then have "in_sync x i (b\<lparr>tb_outgoing := None\<rparr>)" using ts_broadcast by (simp add: outgoing_def)
    from in_sync_broadcast [OF this] Some show ?thesis
      by (simp add: pump_broadcast_def outgoing_def)
  qed (simp add: pump_broadcast_def)
qed (auto simp: outgoing_def intro: in_sync_register in_sync_replay in_sync_SetWriter in_sync_DetachUser in_sync_detachEntry in_sync_end
  telnet_sync_read [unfolded outgoing_def] same_side_keeps(2) [OF same_stdin_pump, unfolded outgoing_def]
  same_side_keeps(2) [OF same_ws_message, unfolded outgoing_def] same_side_keeps(2) [OF same_telnet_stream, unfolded outgoing_def]
  same_side_keeps(2) [OF same_external_resize, unfolded outgoing_def] same_side_keeps(2) [OF same_cleanup, unfolded outgoing_def])

definition new_bridge :: "detachableBridge \<Rightarrow> bool" where
  "new_bridge b = (\<exists>env endMsg capacity u p cols rows.
     b = newDetachableBridge env endMsg (NewRingBuffer capacity) u p cols rows)"

lemma new_bridge_empty [simp]:
  "p_clients (newDetachableBridge env endMsg output u p cols rows) = []"
  "p_attaching (newDetachableBridge env endMsg output u p cols rows) = []"
  "p_output (newDetachableBridge env endMsg output u p cols rows) = output"
  by (simp_all add: newDetachableBridge_def conn_Write_def Let_def)

lemma new_bridge_inv: "new_bridge b \<Longrightarrow> pool_inv b"
  by (auto simp: new_bridge_def pool_inv_def writes_for_def ring.new_inv)

interpretation telnet: terminal_bridge "telnet_step lower unmarshal" new_bridge outgoing for lower unmarshal
  by unfold_locales (auto intro: new_bridge_inv telnet_inv_step telnet_sync_step)

text \<open>
  At every moment of every interleaving all attached clients that may write belong to one
  user, and what a client without the right to write sends never enters the input channel of the
  target.
\<close>

theorem telnet_one_writing_user:
  assumes "new_bridge b0" and "(telnet_step lower unmarshal)\<^sup>*\<^sup>* b0 b"
  shows "(\<exists>u. \<forall>i \<in> set (p_clients b). ce_canWrite (p_entries b ! i) \<longrightarrow> ce_userID (p_entries b ! i) = u)
    \<and> (\<forall>k mt msg. \<not> ce_canWrite (p_entries b ! k) \<longrightarrow>
         p_stdin (ws_message unmarshal k mt msg b) = p_stdin b \<and> p_stdin (stream_message k msg b) = p_stdin b)"
proof
  show "\<exists>u. \<forall>i \<in> set (p_clients b). ce_canWrite (p_entries b ! i) \<longrightarrow> ce_userID (p_entries b ! i) = u"
    using telnet.one_writing_user [OF assms] .
  show "\<forall>k mt msg. \<not> ce_canWrite (p_entries b ! k) \<longrightarrow>
      p_stdin (ws_message unmarshal k mt msg b) = p_stdin b \<and> p_stdin (stream_message k msg b) = p_stdin b"
    by (auto simp: ws_message_def stream_message_def split: prod.splits if_splits dest!: same_handleResize [unfolded same_defs])
qed

definition demo_bridge :: detachableBridge where
  "demo_bridge = newDetachableBridge ''0'' ''bye'' (NewRingBuffer 4) [] [] 80 24"

definition demo_pair :: detachableBridge where
  "demo_pair = snd (attach_register AttachModeViewer ''bob'' (snd (attach_register AttachModeWriter ''alice'' demo_bridge)))"

lemma demo_bridge_new: "new_bridge demo_bridge"
  unfolding new_bridge_def demo_bridge_def by blast

lemma demo_bridge_simps [simp]:
  "p_entries demo_bridge = []" "p_clients demo_bridge = []" "p_stdin demo_bridge = []" "tb_outgoing demo_bridge = None"
  "p_attaching demo_bridge = []" "tb_login demo_bridge = None" "tb_iac demo_bridge = \<lparr>pending = []\<rparr>"
  "p_output demo_bridge = NewRingBuffer 4"
  by (simp_all add: demo_bridge_def newDetachableBridge_def NewLoginAutomater_def Let_def)

lemma demo_pair_simps:
  "p_clients demo_pair = [0, 1]" "ce_canWrite (p_entries demo_pair ! 0)" "\<not> ce_canWrite (p_entries demo_pair ! 1)"
  "p_stdin demo_pair = []"
  by (simp_all add: demo_pair_def attach_register_def demoteOtherWritersLocked_def upd_clients_def upd_at_def Let_def)

theorem telnet_one_writing_user_witness:
  "p_stdin (ws_message (\<lambda>_. None) 1 BinaryMessage ''rm'' demo_pair) = []
     \<and> p_stdin (ws_message (\<lambda>_. None) 0 BinaryMessage ''ls'' demo_pair) = [''ls'']"
proof -
  have "(telnet_step to_lower (\<lambda>_. None))\<^sup>*\<^sup>* demo_bridge demo_pair"
    unfolding demo_pair_def by (rule rtranclp.rtrancl_into_rtrancl [OF r_into_rtranclp]; rule ts_register)
  from telnet_one_writing_user [OF demo_bridge_new this]
  show ?thesis using demo_pair_simps by (simp add: ws_message_def isDataMessage_def)
qed

text \<open>
  A client that attaches while no output is under way sees the terminal as the replay buffer
  has it: at every later moment of every interleaving, as long as it stays attached, the last
  bytes it has received, with the chunk that is being broadcast, are the contents of the replay
  buffer -- nothing is lost, repeated or reordered.
\<close>

theorem telnet_client_in_sync:
  assumes "new_bridge b0" and "(telnet_step lower unmarshal)\<^sup>*\<^sup>* b0 b" and "tb_outgoing b = None"
    and reg: "attach_register mode user b = (i, b1)"
    and "(telnet_step lower unmarshal)\<^sup>*\<^sup>* (attach_announce True i b1) b2" and "i \<in> set (p_clients b2)"
  shows "lastn (rb_cap (p_output b2)) (received (ce_frames (p_entries b2 ! i)) @ outgoing b2) = ring_Bytes (p_output b2)"
proof -
  let ?b = "snd (attach_replay_ws True i b1)"
  have b: "pool_inv b" using telnet.reachable_inv [OF assms(1,2)] .
  then have "pool_inv b1" using pool_inv_register [of b mode user] reg by simp
  then have inv: "pool_inv ?b" by (rule pool_inv_replay)
  have "tb_outgoing ?b = None" using assms(3) outgoing_pool_ops(1) [of mode user b] reg by simp
  then have "in_sync (outgoing ?b) i ?b" using in_sync_attached [OF b reg] by (simp add: outgoing_def)
  then have "in_sync (outgoing b2) i b2"
    using telnet.sync_steps [OF assms(5)] same_side_keeps [OF same_announce] inv by blast
  with assms(6) show ?thesis by (simp add: in_sync_def)
qed

definition demo_pump :: "bytes \<Rightarrow> detachableBridge \<Rightarrow> detachableBridge" where
  "demo_pump x b = pump_broadcast [] (pump_read to_lower x b)"

lemma demo_pump_steps: "tb_outgoing b = None \<Longrightarrow> (telnet_step to_lower unmarshal)\<^sup>*\<^sup>* b (demo_pump x b)"
proof -
  assume "tb_outgoing b = None"
  then have "telnet_step to_lower unmarshal b (pump_read to_lower x b)" by (rule ts_read)
  moreover have "telnet_step to_lower unmarshal (pump_read to_lower x b) (demo_pump x b)"
    unfolding demo_pump_def by (rule ts_broadcast)
  ultimately show ?thesis by (rule converse_rtranclp_into_rtranclp [OF _ r_into_rtranclp])
qed

definition demo_follower :: detachableBridge where
  "demo_follower = attach_announce True 0 (snd (attach_register AttachModeViewer ''bob'' (demo_pump ''hi'' demo_bridge)))"

lemmas demo_pump_simps = demo_pump_def pump_read_def pump_broadcast_def broadcast_def deliver_def Filter_def iac_def
  login_output_def upd_at_def

theorem telnet_client_in_sync_witness:
  "received (ce_frames (p_entries (demo_pump ''jk!'' demo_follower) ! 0)) = ''hijk!''
     \<and> ring_Bytes (p_output (demo_pump ''jk!'' demo_follower)) = ''ijk!''"
proof -
  let ?b = "demo_pump ''hi'' demo_bridge"
  have b: "tb_outgoing ?b = None" "p_entries ?b = []" "p_clients ?b = []" "p_attaching ?b = []" "tb_login ?b = None"
    "tb_iac ?b = \<lparr>pending = []\<rparr>" "p_output ?b = snd (ring_Write ''hi'' (NewRingBuffer 4))"
    by (simp_all add: demo_pump_simps)
  have r: "ring_Bytes (p_output ?b) = ''hi''" "rb_cap (p_output ?b) = 4" unfolding b
    by (simp_all add: ring_Write_def ring_put_def ring_Bytes_def go_copy_def NewRingBuffer_def replicate_num)
  have f: "tb_outgoing demo_follower = None" "tb_login demo_follower = None" "tb_iac demo_follower = \<lparr>pending = []\<rparr>"
    "p_clients demo_follower = [0]" "rb_cap (p_output demo_follower) = 4"
    "p_entries demo_follower = [\<lparr>ce_canWrite = False, ce_userID = ''bob'', ce_frames = [BinaryFrame ''hi''], ce_closed = False\<rparr>]"
    using b r by (simp_all add: demo_follower_def attach_announce_def attach_replay_ws_def attach_register_def send_frame_def conn_Write_def ts_get_def Let_def)
  let ?c = "demo_pump ''jk!'' demo_follower"
  have c: "p_clients ?c = [0]" "received (ce_frames (p_entries ?c ! 0)) = ''hijk!''" "outgoing ?c = []"
    using f by (simp_all add: demo_pump_simps outgoing_def)
  have "rb_cap (p_output ?c) = 4"
    using f by (simp add: demo_pump_simps)
  moreover have "lastn (rb_cap (p_output ?c)) (received (ce_frames (p_entries ?c ! 0)) @ outgoing ?c) = ring_Bytes (p_output ?c)"
    by (rule telnet_client_in_sync [OF demo_bridge_new demo_pump_steps b(1), where unmarshal = "\<lambda>_. None"])
      (use b c f demo_pump_steps [OF f(1)] in \<open>auto simp: demo_follower_def prod_eq_iff\<close>)
  ultimately show ?thesis using c by (simp add: lastn_def)
qed

text \<open>
  The condition that no output is under way is needed: a client registered between the storing
  and the broadcast of a chunk receives it in the replay and once more.
\<close>

lemma attach_race_repeats:
  defines "b \<equiv> pump_read to_lower ''hi'' demo_bridge"
  defines "c \<equiv> attach_announce True 0 (snd (attach_register AttachModeViewer ''bob'' b))"
  shows "received (ce_frames (p_entries (pump_broadcast [] c) ! 0)) = ''hihi''"
proof -
  have b: "tb_outgoing b = Some ''hi''" "p_entries b = []" "p_clients b = []" "p_attaching b = []"
    "p_output b = snd (ring_Write ''hi'' (NewRingBuffer 4))"
    by (simp_all add: b_def demo_pump_simps)
  have "ring_Bytes (p_output b) = ''hi''" unfolding b
    by (simp add: ring_Write_def ring_put_def ring_Bytes_def go_copy_def NewRingBuffer_def replicate_num)
  then show ?thesis using b
    by (simp add: c_def demo_pump_simps attach_announce_def attach_replay_ws_def attach_register_def send_frame_def conn_Write_def ts_get_def Let_def)
qed

end
