(* ===== verification/File_Transfer.thy ===== *)
theory File_Transfer
  imports Access_Schema
begin

text \<open>
  Background file transfers (\<open>src/internal/filetransfer\<close>): the table of jobs (\<open>store.go\<close>) and the
  manager with the job objects its goroutines hold (\<open>manager.go\<close>).

  \<open>tm_jobs\<close> is the table; \<open>tm_objects\<close> maps the identifier of a job to the in-memory object that
  \<open>Create\<close> returned and that the transfer goroutine keeps; \<open>tm_live\<close> are the live handles and
  \<open>tm_cancelled\<close> the jobs whose cancel function was called; \<open>tm_events\<close> are the snapshots handed
  to the notifier.  The clock is an argument.  The store is present and its statements succeed,
  except for violated constraints.
\<close>

datatype Backend = BackendRemote | BackendTFTPServer

datatype Direction = DirectionUpload | DirectionDownload

datatype State = StateReceiving | StateRunning | StateCompleted | StateFailed | StateCancelled

definition DefaultMaxHistoryPerUser :: int where "DefaultMaxHistoryPerUser = 500"

definition progressPersistInterval :: duration where "progressPersistInterval = 200 * 1000000"

record JobRecord =
  j_ID :: string
  j_UserID :: string
  j_TargetID :: string
  j_TargetName :: string
  j_Backend :: Backend
  j_Direction :: Direction
  j_RemotePath :: string
  j_FileName :: string
  j_State :: State
  j_Progress :: int
  j_Total :: int
  j_Error :: string
  j_TempPath :: string
  j_CreatedAt :: instant
  j_UpdatedAt :: instant

record Job = JobRecord +
  j_lastPersistedAt :: instant

datatype transfer_error = ErrNotFound | ErrForbidden | ErrConstraint | ErrUserRequired

subsection \<open>The table of jobs\<close>

definition job_Insert :: "string list \<Rightarrow> JobRecord \<Rightarrow> JobRecord list \<Rightarrow> transfer_error + JobRecord list" where
  "job_Insert users rec t =
     (if list_ex (\<lambda>r. j_ID r = j_ID rec) t \<or> j_UserID rec \<notin> set users then Inl ErrConstraint
      else Inr (t @ [rec]))"

definition UpdateState :: "string \<Rightarrow> State \<Rightarrow> string \<Rightarrow> instant \<Rightarrow> JobRecord list \<Rightarrow> JobRecord list" where
  "UpdateState i state errMsg updatedAt t =
     snd (sql_update (\<lambda>r. j_ID r = i) (\<lambda>r. r\<lparr>j_State := state, j_Error := errMsg, j_UpdatedAt := updatedAt\<rparr>) t)"

definition UpdateProgress :: "string \<Rightarrow> int \<Rightarrow> int \<Rightarrow> instant \<Rightarrow> JobRecord list \<Rightarrow> JobRecord list" where
  "UpdateProgress i progress tot updatedAt t =
     (if tot > 0 then
        snd (sql_update (\<lambda>r. j_ID r = i) (\<lambda>r. r\<lparr>j_Progress := progress, j_Total := tot, j_UpdatedAt := updatedAt\<rparr>) t)
      else snd (sql_update (\<lambda>r. j_ID r = i) (\<lambda>r. r\<lparr>j_Progress := progress, j_UpdatedAt := updatedAt\<rparr>) t))"

definition UpdateTempPath :: "string \<Rightarrow> string \<Rightarrow> JobRecord list \<Rightarrow> JobRecord list" where
  "UpdateTempPath i path t = snd (sql_update (\<lambda>r. j_ID r = i) (\<lambda>r. r\<lparr>j_TempPath := path\<rparr>) t)"

definition job_Get :: "string \<Rightarrow> JobRecord list \<Rightarrow> transfer_error + JobRecord" where
  "job_Get i t = (case find (\<lambda>r. j_ID r = i) t of None \<Rightarrow> Inl ErrNotFound | Some r \<Rightarrow> Inr r)"

text \<open>ORDER BY updated_at DESC, id DESC.\<close>

definition newest_first :: "JobRecord list \<Rightarrow> JobRecord list" where
  "newest_first rs = rev (sort_key (\<lambda>r. (j_UpdatedAt r, j_ID r)) rs)"

definition job_ListByUser :: "string \<Rightarrow> int \<Rightarrow> JobRecord list \<Rightarrow> JobRecord list" where
  "job_ListByUser userID limit t =
     (let limit = (if limit \<le> 0 then 500 else limit)
      in take (nat limit) (newest_first (filter (\<lambda>r. j_UserID r = userID) t)))"

record ListFilter =
  lf_UserID :: string
  lf_Query :: string
  lf_TargetID :: string
  lf_Direction :: "Direction option"
  lf_Backend :: "Backend option"
  lf_States :: "State list"
  lf_From :: instant
  lf_To :: instant
  lf_AfterUpdated :: instant
  lf_AfterID :: string
  lf_Limit :: int

text \<open>\<open>WriteRune\<close> of each code point; a byte that is not part of an encoding becomes U+FFFD.\<close>

function escapeLikeOperand :: "string \<Rightarrow> string" where
  "escapeLikeOperand s =
     (if s = [] then []
      else case decode_rune s of (r, n) \<Rightarrow>
        (if r = 0x5C \<or> r = 0x25 \<or> r = 0x5F then [CHR 0x5C] else [])
        @ (if r = rune_error \<and> n = 1 then [CHR 0xEF, CHR 0xBF, CHR 0xBD] else take n s)
        @ escapeLikeOperand (drop n s))"
  by pat_completeness auto
termination
proof (relation "measure length", goal_cases)
  case (2 s r n)
  then have "0 < n" "s \<noteq> []" using decode_rune_size [of s] by (auto dest: arg_cong [where f = snd])
  then show ?case by simp
qed simp

declare escapeLikeOperand.simps [simp del]

text \<open>The WHERE clause \<open>buildFileTransferJobQuery\<close> assembles, and its ORDER BY and LIMIT.\<close>

definition job_matches :: "ListFilter \<Rightarrow> JobRecord \<Rightarrow> bool" where
  "job_matches f r =
     (j_UserID r = lf_UserID f
      \<and> (is_zero (lf_From f) \<or> lf_From f \<le> j_UpdatedAt r)
      \<and> (is_zero (lf_To f) \<or> j_UpdatedAt r < lf_To f)
      \<and> (lf_TargetID f = [] \<or> j_TargetID r = lf_TargetID f)
      \<and> (case lf_Direction f of None \<Rightarrow> True | Some d \<Rightarrow> j_Direction r = d)
      \<and> (case lf_Backend f of None \<Rightarrow> True | Some b \<Rightarrow> j_Backend r = b)
      \<and> (lf_States f = [] \<or> j_State r \<in> set (lf_States f))
      \<and> (let q = trim_space (lf_Query f); pat = ''%'' @ escapeLikeOperand q @ ''%'' in
         q = [] \<or> like pat (j_FileName r) \<or> like pat (j_RemotePath r) \<or> like pat (j_TargetName r))
      \<and> (is_zero (lf_AfterUpdated f) \<or> j_UpdatedAt r < lf_AfterUpdated f
         \<or> (j_UpdatedAt r = lf_AfterUpdated f \<and> j_ID r < lf_AfterID f)))"

definition buildFileTransferJobQuery :: "ListFilter \<Rightarrow> JobRecord list \<Rightarrow> JobRecord list" where
  "buildFileTransferJobQuery f t =
     (let limit = (if lf_Limit f \<le> 0 then 100 else lf_Limit f)
      in take (nat limit) (newest_first (filter (job_matches f) t)))"

definition store_ListByUserFiltered :: "ListFilter \<Rightarrow> JobRecord list \<Rightarrow> transfer_error + JobRecord list" where
  "store_ListByUserFiltered f t =
     (if trim_space (lf_UserID f) = [] then Inl ErrUserRequired else Inr (buildFileTransferJobQuery f t))"

definition job_Delete :: "string \<Rightarrow> string \<Rightarrow> JobRecord list \<Rightarrow> (transfer_error + JobRecord \<times> bool) \<times> JobRecord list" where
  "job_Delete i userID t =
     (case job_Get i t of Inl e \<Rightarrow> (Inl e, t)
      | Inr rec \<Rightarrow>
        if j_UserID rec \<noteq> userID then (Inl ErrForbidden, t)
        else case sql_delete (\<lambda>r. j_ID r = i) t of (n, t') \<Rightarrow> (Inr (rec, n > 0), t'))"

definition MarkOrphansFailed :: "instant \<Rightarrow> string \<Rightarrow> JobRecord list \<Rightarrow> nat \<times> JobRecord list" where
  "MarkOrphansFailed now message t =
     sql_update (\<lambda>r. j_State r = StateReceiving \<or> j_State r = StateRunning)
       (\<lambda>r. r\<lparr>j_State := StateFailed, j_Error := message, j_UpdatedAt := now\<rparr>) t"

definition isTerminalState :: "State \<Rightarrow> bool" where
  "isTerminalState s = (s = StateCompleted \<or> s = StateFailed \<or> s = StateCancelled)"

definition history :: "string \<Rightarrow> JobRecord list \<Rightarrow> JobRecord list" where
  "history userID t = filter (\<lambda>r. j_UserID r = userID \<and> isTerminalState (j_State r)) t"

definition TrimUserHistory :: "string \<Rightarrow> int \<Rightarrow> JobRecord list \<Rightarrow> nat \<times> JobRecord list" where
  "TrimUserHistory userID maxRows t =
     (if maxRows \<le> 0 then (0, t)
      else let keep = map j_ID (take (nat maxRows) (newest_first (history userID t)))
        in sql_delete (\<lambda>r. j_UserID r = userID \<and> isTerminalState (j_State r) \<and> j_ID r \<notin> set keep) t)"

subsection \<open>The manager\<close>

record TransferManager =
  tm_users :: "string list"
  tm_jobs :: "JobRecord list"
  tm_objects :: "(string, Job) gomap"
  tm_live :: "string list"
  tm_cancelled :: "string list"
  tm_maxHistory :: int
  tm_events :: "(JobRecord \<times> string) list"

definition NewTransferManager :: "string list \<Rightarrow> JobRecord list \<Rightarrow> TransferManager" where
  "NewTransferManager users jobs = \<lparr>tm_users = users, tm_jobs = jobs, tm_objects = [], tm_live = [], tm_cancelled = [],
     tm_maxHistory = DefaultMaxHistoryPerUser, tm_events = []\<rparr>"

definition SetMaxHistoryPerUser :: "int \<Rightarrow> TransferManager \<Rightarrow> TransferManager" where
  "SetMaxHistoryPerUser n m = (if n \<le> 0 then m else m\<lparr>tm_maxHistory := n\<rparr>)"

record CreateOpts =
  co_UserID :: string
  co_TargetID :: string
  co_TargetName :: string
  co_Backend :: Backend
  co_Direction :: Direction
  co_RemotePath :: string
  co_FileName :: string
  co_InitialState :: "State option"
  co_Total :: int

definition toRecord :: "Job \<Rightarrow> JobRecord" where
  "toRecord j = JobRecord.truncate j"

definition recordToJob :: "JobRecord \<Rightarrow> Job" where
  "recordToJob r = JobRecord.extend r \<lparr>j_lastPersistedAt = 0\<rparr>"

definition emit :: "JobRecord \<Rightarrow> TransferManager \<Rightarrow> TransferManager" where
  "emit j m = m\<lparr>tm_events := tm_events m @ [(j, j_UserID j)]\<rparr>"

definition releaseLive :: "string \<Rightarrow> TransferManager \<Rightarrow> TransferManager" where
  "releaseLive i m = m\<lparr>tm_live := filter (\<lambda>k. k \<noteq> i) (tm_live m)\<rparr>"

definition trimHistory :: "string \<Rightarrow> TransferManager \<Rightarrow> TransferManager" where
  "trimHistory userID m = m\<lparr>tm_jobs := snd (TrimUserHistory userID (tm_maxHistory m) (tm_jobs m))\<rparr>"

text \<open>The generated identifier is an argument.\<close>

definition job_Create :: "string \<Rightarrow> CreateOpts \<Rightarrow> instant \<Rightarrow> TransferManager \<Rightarrow> (transfer_error + Job) \<times> TransferManager" where
  "job_Create i opts now m =
     (let state = (case co_InitialState opts of None \<Rightarrow> StateRunning | Some s \<Rightarrow> s);
          j = \<lparr>j_ID = i, j_UserID = co_UserID opts, j_TargetID = co_TargetID opts, j_TargetName = co_TargetName opts,
               j_Backend = co_Backend opts, j_Direction = co_Direction opts, j_RemotePath = co_RemotePath opts,
               j_FileName = co_FileName opts, j_State = state, j_Progress = 0, j_Total = co_Total opts, j_Error = [],
               j_TempPath = [], j_CreatedAt = now, j_UpdatedAt = now, j_lastPersistedAt = 0\<rparr>
      in case job_Insert (tm_users m) (toRecord j) (tm_jobs m) of
           Inl e \<Rightarrow> (Inl e, m)
         | Inr t \<Rightarrow> (Inr j, emit (toRecord j) (m\<lparr>tm_jobs := t, tm_live := i # filter (\<lambda>k. k \<noteq> i) (tm_live m),
             tm_objects := AList.update i j (tm_objects m)\<rparr>)))"

definition mgr_Get_job :: "string \<Rightarrow> TransferManager \<Rightarrow> Job option" where
  "mgr_Get_job i m = (case job_Get i (tm_jobs m) of Inl _ \<Rightarrow> None | Inr rec \<Rightarrow> Some (recordToJob rec))"

definition mgr_ListByUser :: "string \<Rightarrow> TransferManager \<Rightarrow> Job list" where
  "mgr_ListByUser userID m = map recordToJob (job_ListByUser userID (tm_maxHistory m) (tm_jobs m))"

definition mgr_ListByUserFiltered :: "ListFilter \<Rightarrow> TransferManager \<Rightarrow> transfer_error + Job list" where
  "mgr_ListByUserFiltered f m =
     (let f = (if lf_Limit f \<le> 0 then f\<lparr>lf_Limit := tm_maxHistory m\<rparr> else f)
      in case store_ListByUserFiltered f (tm_jobs m) of Inl e \<Rightarrow> Inl e | Inr rs \<Rightarrow> Inr (map recordToJob rs))"

definition mgr_Remove :: "string \<Rightarrow> TransferManager \<Rightarrow> TransferManager" where
  "mgr_Remove i m =
     (let m = releaseLive i m in
      case job_Get i (tm_jobs m) of Inl _ \<Rightarrow> m
      | Inr rec \<Rightarrow> m\<lparr>tm_jobs := snd (job_Delete i (j_UserID rec) (tm_jobs m))\<rparr>)"

definition mgr_Cancel :: "string \<Rightarrow> string \<Rightarrow> instant \<Rightarrow> TransferManager \<Rightarrow> transfer_error option \<times> TransferManager" where
  "mgr_Cancel i userID now m =
     (case job_Get i (tm_jobs m) of Inl e \<Rightarrow> (Some e, m)
      | Inr rec \<Rightarrow>
        if j_UserID rec \<noteq> userID then (Some ErrForbidden, m)
        else if isTerminalState (j_State rec) then (None, m)
        else
          let m = (if i \<in> set (tm_live m) then m\<lparr>tm_cancelled := i # tm_cancelled m\<rparr> else m);
              m = m\<lparr>tm_jobs := UpdateState i StateCancelled [] now (tm_jobs m)\<rparr>;
              m = emit (rec\<lparr>j_State := StateCancelled, j_UpdatedAt := now\<rparr>) m
          in (None, trimHistory userID (releaseLive i m)))"

text \<open>Methods of the job object with identifier \<open>i\<close>.\<close>

definition with_state :: "State \<Rightarrow> string \<Rightarrow> instant \<Rightarrow> Job \<Rightarrow> Job" where
  "with_state state errMsg now j =
     (let j = j\<lparr>j_State := state, j_Error := errMsg, j_UpdatedAt := now\<rparr>;
          j = (if state = StateCompleted \<and> j_Total j > 0 \<and> j_Progress j < j_Total j
               then j\<lparr>j_Progress := j_Total j\<rparr> else j)
      in j\<lparr>j_lastPersistedAt := now\<rparr>)"

definition job_SetState :: "string \<Rightarrow> State \<Rightarrow> string \<Rightarrow> instant \<Rightarrow> TransferManager \<Rightarrow> TransferManager" where
  "job_SetState i state errMsg now m =
     (case lookup (tm_objects m) i of None \<Rightarrow> m
      | Some j \<Rightarrow>
        if isTerminalState (j_State j) then m
        else
          let j = with_state state errMsg now j;
              m = m\<lparr>tm_objects := AList.update i j (tm_objects m),
                    tm_jobs := UpdateState i state errMsg now
                      (UpdateProgress i (j_Progress j) (j_Total j) now (tm_jobs m))\<rparr>;
              m = emit (toRecord j) m
          in if isTerminalState state then trimHistory (j_UserID j) (releaseLive i m) else m)"

definition job_SetTempPath :: "string \<Rightarrow> string \<Rightarrow> TransferManager \<Rightarrow> TransferManager" where
  "job_SetTempPath i path m =
     (case lookup (tm_objects m) i of None \<Rightarrow> m
      | Some j \<Rightarrow> m\<lparr>tm_objects := AList.update i (j\<lparr>j_TempPath := path\<rparr>) (tm_objects m),
          tm_jobs := UpdateTempPath i path (tm_jobs m)\<rparr>)"

definition job_SetProgress :: "string \<Rightarrow> int \<Rightarrow> int \<Rightarrow> instant \<Rightarrow> TransferManager \<Rightarrow> TransferManager" where
  "job_SetProgress i done tot now m =
     (case lookup (tm_objects m) i of None \<Rightarrow> m
      | Some j \<Rightarrow>
        let persist = (time_sub now (j_lastPersistedAt j) \<ge> progressPersistInterval);
            j = j\<lparr>j_Progress := done, j_Total := (if tot > 0 then tot else j_Total j), j_UpdatedAt := now\<rparr>;
            j = (if persist then j\<lparr>j_lastPersistedAt := now\<rparr> else j);
            m = m\<lparr>tm_objects := AList.update i j (tm_objects m)\<rparr>;
            m = (if persist then m\<lparr>tm_jobs := UpdateProgress i done (j_Total j) now (tm_jobs m)\<rparr> else m)
        in emit (toRecord j) m)"

definition ReapOrphans :: "instant \<Rightarrow> string \<Rightarrow> TransferManager \<Rightarrow> nat \<times> TransferManager" where
  "ReapOrphans now message m =
     (case MarkOrphansFailed now message (tm_jobs m) of (n, t) \<Rightarrow> (n, m\<lparr>tm_jobs := t\<rparr>))"

subsection \<open>Order and retention\<close>

abbreviation job_key :: "JobRecord \<Rightarrow> instant \<times> string" where
  "job_key r \<equiv> (j_UpdatedAt r, j_ID r)"

lemma set_newest_first [simp]: "set (newest_first rs) = set rs"
  by (simp add: newest_first_def)

lemma length_newest_first [simp]: "length (newest_first rs) = length rs"
  by (simp add: newest_first_def)

lemma newest_first_sorted: "sorted_wrt (\<lambda>a b. job_key b \<le> job_key a) (newest_first rs)"
  unfolding newest_first_def sorted_wrt_rev using sorted_sort_key [of job_key rs] by (simp add: sorted_map)

lemma distinct_newest_first: "distinct (map j_ID rs) \<Longrightarrow> distinct (map j_ID (newest_first rs))"
  by (simp add: newest_first_def rev_map [symmetric] distinct_map)

lemma newest_first_strict:
  assumes "distinct (map j_ID rs)"
  shows "sorted_wrt (\<lambda>a b. job_key b < job_key a) (newest_first rs)"
  unfolding sorted_wrt_iff_nth_less
proof (intro allI impI)
  let ?xs = "newest_first rs"
  fix i k assume ik: "i < k" "k < length ?xs"
  have "job_key (?xs ! k) \<le> job_key (?xs ! i)"
    using newest_first_sorted [of rs] ik by (simp add: sorted_wrt_iff_nth_less)
  moreover have "j_ID (?xs ! k) \<noteq> j_ID (?xs ! i)"
    using distinct_newest_first [OF assms] ik by (auto simp: distinct_conv_nth)
  ultimately show "job_key (?xs ! k) < job_key (?xs ! i)" by (metis order_le_less prod.inject)
qed

lemma take_before_drop:
  assumes "sorted_wrt R xs" "a \<in> set (take n xs)" "b \<in> set (drop n xs)"
  shows "R a b"
  using assms by (metis append_take_drop_id sorted_wrt_append)

lemma filter_after_nth:
  fixes key :: "'a \<Rightarrow> 'b :: linorder"
  shows "sorted_wrt (\<lambda>a b. key b < key a) xs \<Longrightarrow> k < length xs \<Longrightarrow> filter (\<lambda>r. key r < key (xs ! k)) xs = drop (Suc k) xs"
proof (induction xs arbitrary: k)
  case (Cons a xs)
  show ?case
  proof (cases k)
    case 0
    with Cons.prems show ?thesis by auto
  next
    case (Suc i)
    then have "key (xs ! i) < key a" using Cons.prems by auto
    then have "\<not> key a < key (xs ! i)" by simp
    with Suc Cons show ?thesis by simp
  qed
qed simp

lemma newest_first_filter: "newest_first (filter P rs) = filter P (newest_first rs)"
  by (simp add: newest_first_def filter_sort flip: rev_filter)

text \<open>
  Trimming leaves a user at most the configured number of finished jobs, namely the most
  recently updated ones, and touches neither an unfinished job nor a job of another user.
\<close>

theorem history_trimmed:
  assumes "distinct (map j_ID t)" and "0 < n"
  shows "length (history u (snd (TrimUserHistory u n t))) = min (nat n) (length (history u t))
    \<and> (\<forall>r \<in> set t. j_UserID r \<noteq> u \<or> \<not> isTerminalState (j_State r) \<longrightarrow> r \<in> set (snd (TrimUserHistory u n t)))
    \<and> (\<forall>r \<in> set (history u (snd (TrimUserHistory u n t))). \<forall>d \<in> set t - set (snd (TrimUserHistory u n t)).
         (j_UpdatedAt d, j_ID d) < (j_UpdatedAt r, j_ID r))"
proof -
  let ?h = "history u t" and ?t = "snd (TrimUserHistory u n t)"
  let ?keep = "take (nat n) (newest_first ?h)"
  have dh: "distinct (map j_ID ?h)" using assms(1) unfolding history_def by (rule distinct_map_filter)
  have inj: "r = r'" if "r \<in> set t" "r' \<in> set t" "j_ID r = j_ID r'" for r r'
    using assms(1) that by (simp add: distinct_map inj_on_def)
  have keep_t: "set ?keep \<subseteq> set ?h" using set_take_subset by fastforce
  have t': "?t = filter (\<lambda>r. \<not> (j_UserID r = u \<and> isTerminalState (j_State r) \<and> j_ID r \<notin> j_ID ` set ?keep)) t"
    using assms(2) by (simp add: TrimUserHistory_def sql_delete_def Let_def)
  have hist: "history u ?t = filter (\<lambda>r. j_ID r \<in> j_ID ` set ?keep) ?h"
    unfolding t' history_def filter_filter by (rule filter_cong) auto
  have set_hist: "set (history u ?t) = set ?keep"
    unfolding hist using keep_t inj by (auto simp: history_def)
  have "distinct (history u ?t)" unfolding hist using dh by (simp add: distinct_map)
  then have "length (history u ?t) = card (set ?keep)" using set_hist distinct_card by metis
  also have "\<dots> = length ?keep"
    using distinct_newest_first [OF dh] by (metis distinct_card distinct_map distinct_take)
  finally have len: "length (history u ?t) = min (nat n) (length ?h)" by (simp add: min.commute)
  have old: "d \<in> set (drop (nat n) (newest_first ?h))" if "d \<in> set t" "d \<notin> set ?t" for d
  proof -
    from that have "d \<in> set ?h" "d \<notin> set ?keep" unfolding t' history_def by auto
    then have "d \<in> set (newest_first ?h)" by simp
    then show ?thesis using \<open>d \<notin> set ?keep\<close> by (metis Un_iff append_take_drop_id set_append)
  qed
  have "(j_UpdatedAt d, j_ID d) < (j_UpdatedAt r, j_ID r)"
    if "r \<in> set (history u ?t)" "d \<in> set t" "d \<notin> set ?t" for r d
    using take_before_drop [OF newest_first_strict [OF dh]] old that set_hist by blast
  with len show ?thesis unfolding t' by auto
qed

definition demo_job :: "string \<Rightarrow> State \<Rightarrow> instant \<Rightarrow> JobRecord" where
  "demo_job i state at = \<lparr>j_ID = i, j_UserID = ''alice'', j_TargetID = ''web'', j_TargetName = ''web'', j_Backend = BackendRemote,
     j_Direction = DirectionUpload, j_RemotePath = ''/tmp/a_b'', j_FileName = ''a_b'', j_State = state, j_Progress = 3, j_Total = 10,
     j_Error = [], j_TempPath = [], j_CreatedAt = 1, j_UpdatedAt = at\<rparr>"

lemma demo_job_simps [simp]:
  "j_ID (demo_job i s at) = i" "j_UpdatedAt (demo_job i s at) = at" "j_UserID (demo_job i s at) = ''alice''"
  "j_State (demo_job i s at) = s"
  by (simp_all add: demo_job_def)

theorem history_trimmed_witness:
  "length (history ''alice'' (snd (TrimUserHistory ''alice'' 1
     [demo_job ''a'' StateCompleted 5, demo_job ''b'' StateRunning 1, demo_job ''c'' StateFailed 7]))) = 1"
  using history_trimmed [of "[demo_job ''a'' StateCompleted 5, demo_job ''b'' StateRunning 1, demo_job ''c'' StateFailed 7]" 1 "''alice''"]
  by (simp add: history_def isTerminalState_def)

text \<open>
  A page that starts after the last row of the previous one, by its time stamp and identifier,
  contains exactly the rows that follow it in the listing, also when several rows carry the same
  time stamp: walking through the pages meets every matching job once.
\<close>

theorem job_pages_continue:
  assumes "distinct (map j_ID t)" and "is_zero (lf_AfterUpdated f)"
    and "k < length (newest_first (filter (job_matches f) t))" and "c = newest_first (filter (job_matches f) t) ! k"
    and "\<not> is_zero (j_UpdatedAt c)"
  shows "buildFileTransferJobQuery (f\<lparr>lf_AfterUpdated := j_UpdatedAt c, lf_AfterID := j_ID c\<rparr>) t
    = take (nat (if lf_Limit f \<le> 0 then 100 else lf_Limit f)) (drop (Suc k) (newest_first (filter (job_matches f) t)))"
proof -
  let ?xs = "newest_first (filter (job_matches f) t)" and ?g = "f\<lparr>lf_AfterUpdated := j_UpdatedAt c, lf_AfterID := j_ID c\<rparr>"
  have d: "distinct (map j_ID (filter (job_matches f) t))" using assms(1) by (rule distinct_map_filter)
  have "job_matches ?g r \<longleftrightarrow> job_matches f r \<and> job_key r < job_key c" for r
    using assms(2,5) by (auto simp: job_matches_def Let_def)
  then have "filter (job_matches ?g) t = filter (\<lambda>r. job_key r < job_key c) (filter (job_matches f) t)"
    unfolding filter_filter by (intro filter_cong) auto
  then have "newest_first (filter (job_matches ?g) t) = filter (\<lambda>r. job_key r < job_key c) ?xs"
    by (simp only: newest_first_filter)
  also have "\<dots> = drop (Suc k) ?xs"
    using filter_after_nth [OF newest_first_strict [OF d] assms(3)] assms(4) by simp
  finally show ?thesis by (simp add: buildFileTransferJobQuery_def)
qed

definition demo_filter :: ListFilter where
  "demo_filter = \<lparr>lf_UserID = ''alice'', lf_Query = [], lf_TargetID = [], lf_Direction = None, lf_Backend = None, lf_States = [],
     lf_From = 0, lf_To = 0, lf_AfterUpdated = 0, lf_AfterID = [], lf_Limit = 1\<rparr>"

theorem job_pages_continue_witness:
  "buildFileTransferJobQuery (demo_filter\<lparr>lf_AfterUpdated := 5, lf_AfterID := ''b''\<rparr>)
     [demo_job ''a'' StateCompleted 5, demo_job ''b'' StateRunning 5, demo_job ''c'' StateFailed 4] = [demo_job ''a'' StateCompleted 5]"
proof -
  let ?t = "[demo_job ''a'' StateCompleted 5, demo_job ''b'' StateRunning 5, demo_job ''c'' StateFailed 4]"
  have m: "job_matches demo_filter (demo_job i s at)" for i s at
    by (simp add: job_matches_def demo_filter_def demo_job_def is_zero_def)
  have xs: "newest_first (filter (job_matches demo_filter) ?t) =
      [demo_job ''b'' StateRunning 5, demo_job ''a'' StateCompleted 5, demo_job ''c'' StateFailed 4]"
    by (simp add: m newest_first_def)
  show ?thesis
    using job_pages_continue [where t = ?t and f = demo_filter and k = 0 and c = "demo_job ''b'' StateRunning 5"]
    unfolding xs by (simp add: demo_filter_def is_zero_def)
qed

lemma escape_ascii: "list_all (\<lambda>c. byte c < 128) q \<Longrightarrow> escapeLikeOperand q = escapeLikePrefix q"
proof (induction q)
  case Nil
  then show ?case by (simp add: escapeLikeOperand.simps escapeLikePrefix_def)
next
  case (Cons c q)
  have "decode_rune (c # q) = (byte c, 1)" using Cons.prems by (simp add: decode_rune_def)
  moreover have eq: "byte c = byte d \<longleftrightarrow> c = d" for d by (simp add: byte_def)
  have "byte c = 0x5C \<longleftrightarrow> c = CHR 0x5C" "byte c = 0x25 \<longleftrightarrow> c = CHR ''%''" "byte c = 0x5F \<longleftrightarrow> c = CHR ''_''"
    using eq [of "CHR 0x5C"] eq [of "CHR ''%''"] eq [of "CHR ''_''"] by (simp_all add: byte_def)
  ultimately show ?case using Cons
    by (simp add: escapeLikeOperand.simps [of "c # q"] escapeLikePrefix_def rune_error_def)
qed

lemma like_percent: "like (CHR ''%'' # p) s \<longleftrightarrow> (\<exists>k \<le> length s. like p (drop k s))"
proof (induction s)
  case Nil
  then show ?case by (simp add: like.simps(2))
next
  case (Cons a s)
  have "like (CHR ''%'' # p) (a # s) \<longleftrightarrow> like p (a # s) \<or> like (CHR ''%'' # p) s" by (simp add: like.simps(2))
  also have "\<dots> \<longleftrightarrow> like p (a # s) \<or> (\<exists>k \<le> length s. like p (drop k s))" using Cons by simp
  also have "\<dots> \<longleftrightarrow> (\<exists>k \<le> length (a # s). like p (drop k (a # s)))"
    by (metis (no_types, opaque_lifting) Suc_le_mono diff_Suc_1 drop0 drop_Suc_Cons length_Cons not0_implies_Suc zero_le)
  finally show ?case .
qed

lemma like_substring: "like (''%'' @ escapeLikePrefix q @ ''%'') s \<longleftrightarrow> contains (to_lower s) (to_lower q)"
proof -
  have "like (''%'' @ escapeLikePrefix q @ ''%'') s \<longleftrightarrow> (\<exists>k \<le> length s. to_lower (take (length q) (drop k s)) = to_lower q)"
    by (simp add: like_percent [of "escapeLikePrefix q @ ''%''"] like_escaped_prefix like_any)
  also have "\<dots> \<longleftrightarrow> (\<exists>k \<le> length s. take (length q) (drop k (to_lower s)) = to_lower q)"
    by (simp add: to_lower_def take_map drop_map)
  also have "\<dots> \<longleftrightarrow> contains (to_lower s) (to_lower q)" (is "?L \<longleftrightarrow> ?R")
  proof
    assume ?L
    then obtain k where "take (length q) (drop k (to_lower s)) = to_lower q" by blast
    then have "to_lower s = take k (to_lower s) @ to_lower q @ drop (length q) (drop k (to_lower s))"
      by (metis append_take_drop_id)
    then show ?R unfolding contains_iff by blast
  next
    assume ?R
    then obtain xs ys where e: "to_lower s = xs @ to_lower q @ ys" unfolding contains_iff by blast
    have l: "length (to_lower s) = length s" "length (to_lower q) = length q" by (simp_all add: to_lower_def)
    have "length xs \<le> length s" using arg_cong [OF e, of length] l by simp
    moreover have "take (length q) (drop (length xs) (to_lower s)) = to_lower q" unfolding e by (simp flip: l(2))
    ultimately show ?L by blast
  qed
  finally show ?thesis .
qed

text \<open>
  A search for ASCII text finds exactly the jobs of the user whose file name, remote path or
  target name contains it, without regard to case: the wildcards of SQL in the text have no effect.
\<close>

theorem job_search_literal:
  assumes "lf_Query f = q" and "trim_space q = q" and "q \<noteq> []" and "list_all (\<lambda>c. byte c < 128) q"
  shows "job_matches f r \<longleftrightarrow> job_matches (f\<lparr>lf_Query := []\<rparr>) r
    \<and> (\<exists>s \<in> {j_FileName r, j_RemotePath r, j_TargetName r}. contains (to_lower s) (to_lower q))"
  using assms by (auto simp: job_matches_def Let_def escape_ascii like_substring [simplified])

theorem job_search_literal_witness:
  "job_matches (demo_filter\<lparr>lf_Query := ''A_B''\<rparr>) (demo_job ''a'' StateRunning 1)
     \<and> \<not> job_matches (demo_filter\<lparr>lf_Query := ''A%B''\<rparr>) (demo_job ''a'' StateRunning 1)"
proof -
  have a: "list_all (\<lambda>c. byte c < 128) ''A_B''" "list_all (\<lambda>c. byte c < 128) ''A%B''" by (simp_all add: byte_def)
  have t: "trim_space ''A_B'' = ''A_B''" "trim_space ''A%B'' = ''A%B''" by (simp_all add: trim_space_visible visible_def)
  have low: "to_lower ''A_B'' = ''a_b''" "to_lower ''A%B'' = ''a%b''" "to_lower ''a_b'' = ''a_b''" "to_lower ''/tmp/a_b'' = ''/tmp/a_b''"
    "to_lower ''web'' = ''web''"
    by (simp_all add: to_lower_def lower_char_def char_of_def bit_0)
  have base: "job_matches (demo_filter\<lparr>lf_Query := []\<rparr>) (demo_job ''a'' StateRunning 1)"
    by (simp add: job_matches_def demo_filter_def demo_job_def is_zero_def)
  have fields: "j_FileName (demo_job ''a'' StateRunning 1) = ''a_b''" "j_RemotePath (demo_job ''a'' StateRunning 1) = ''/tmp/a_b''"
    "j_TargetName (demo_job ''a'' StateRunning 1) = ''web''"
    by (simp_all add: demo_job_def)
  have c: "contains ''a_b'' ''a_b''" "\<not> contains ''a_b'' ''a%b''" "\<not> contains ''/tmp/a_b'' ''a%b''" "\<not> contains ''web'' ''a%b''"
    by (simp_all add: contains_def index_of.simps has_prefix_def)
  show ?thesis
    using job_search_literal [where f = "demo_filter\<lparr>lf_Query := ''A_B''\<rparr>", OF _ t(1) _ a(1)] base
      job_search_literal [where f = "demo_filter\<lparr>lf_Query := ''A%B''\<rparr>", OF _ t(2) _ a(2)] c
    by (simp add: fields low)
qed

subsection \<open>Runs of the manager\<close>

text \<open>
  Identifiers are sixteen random bytes; one that was used before is not drawn again.
  \<open>ReapOrphans\<close> runs at start-up, before any job of this process exists.
\<close>

inductive transfer_step :: "TransferManager \<Rightarrow> TransferManager \<Rightarrow> bool" where
  tr_create: "lookup (tm_objects m) i = None \<Longrightarrow> transfer_step m (snd (job_Create i opts now m))"
| tr_cancel: "transfer_step m (snd (mgr_Cancel i u now m))"
| tr_remove: "transfer_step m (mgr_Remove i m)"
| tr_state: "transfer_step m (job_SetState i st e now m)"
| tr_temp: "transfer_step m (job_SetTempPath i path m)"
| tr_progress: "transfer_step m (job_SetProgress i d tot now m)"
| tr_max: "transfer_step m (SetMaxHistoryPerUser n m)"
| tr_reap: "tm_objects m = [] \<Longrightarrow> transfer_step m (snd (ReapOrphans now message m))"

text \<open>
  The invariant: identifiers of rows are unique, an object is filed under its identifier, and the
  row of a job whose object is finished carries the state and message of the object.
\<close>

definition object_ok :: "JobRecord list \<Rightarrow> string \<Rightarrow> Job \<Rightarrow> bool" where
  "object_ok t i j = (j_ID j = i \<and> (isTerminalState (j_State j) \<longrightarrow>
     (\<forall>r \<in> set t. j_ID r = i \<longrightarrow> j_State r = j_State j \<and> j_Error r = j_Error j)))"

definition transfer_inv :: "TransferManager \<Rightarrow> bool" where
  "transfer_inv m = (distinct (map j_ID (tm_jobs m))
     \<and> (\<forall>i j. lookup (tm_objects m) i = Some j \<longrightarrow> object_ok (tm_jobs m) i j))"

text \<open>Statements that touch one row only.\<close>

lemma ids_updates [simp]:
  "map j_ID (UpdateState i st e now t) = map j_ID t" "map j_ID (UpdateProgress i d tot now t) = map j_ID t"
  "map j_ID (UpdateTempPath i path t) = map j_ID t"
  by (simp_all add: UpdateState_def UpdateProgress_def UpdateTempPath_def sql_update_def)

lemma set_updates:
  "r \<in> set (UpdateState i st e now t) \<Longrightarrow> \<exists>r0 \<in> set t. j_ID r = j_ID r0 \<and> (if j_ID r = i then j_State r = st \<and> j_Error r = e else r = r0)"
  "r \<in> set (UpdateProgress i d tot now t) \<Longrightarrow> \<exists>r0 \<in> set t. j_ID r = j_ID r0 \<and> j_State r = j_State r0 \<and> j_Error r = j_Error r0"
  "r \<in> set (UpdateTempPath i path t) \<Longrightarrow> \<exists>r0 \<in> set t. j_ID r = j_ID r0 \<and> j_State r = j_State r0 \<and> j_Error r = j_Error r0"
  by (auto simp: UpdateState_def UpdateProgress_def UpdateTempPath_def sql_update_def split: if_splits)

text \<open>
  Rows evolve when each row of the new table comes from a row with the same identifier, and the
  state and message are kept outside the identifier \<open>i\<close>.
\<close>

definition evolves :: "string option \<Rightarrow> JobRecord list \<Rightarrow> JobRecord list \<Rightarrow> bool" where
  "evolves i t t' = (\<forall>r \<in> set t'. \<exists>r0 \<in> set t. j_ID r = j_ID r0
     \<and> (Some (j_ID r) \<noteq> i \<longrightarrow> j_State r = j_State r0 \<and> j_Error r = j_Error r0))"

lemma evolves_refl [simp]: "evolves i t t"
  by (auto simp: evolves_def)

lemma evolves_subset: "set t' \<subseteq> set t \<Longrightarrow> evolves i t t'"
  by (auto simp: evolves_def)

lemma evolves_trans: "evolves i t t1 \<Longrightarrow> evolves i t1 t2 \<Longrightarrow> evolves i t t2"
  unfolding evolves_def by metis

lemma evolves_weaken: "evolves None t t' \<Longrightarrow> evolves i t t'"
  by (auto simp: evolves_def)

lemma evolves_updates:
  "evolves (Some i) t (UpdateState i st e now t)" "evolves j t (UpdateProgress i d tot now t)"
  "evolves j t (UpdateTempPath i path t)"
  using set_updates by (fastforce simp: evolves_def)+

lemma trim_subset: "set (snd (TrimUserHistory u n t)) \<subseteq> set t"
  by (auto simp: TrimUserHistory_def sql_delete_def Let_def)

lemma distinct_trim: "distinct (map j_ID t) \<Longrightarrow> distinct (map j_ID (snd (TrimUserHistory u n t)))"
  by (simp add: TrimUserHistory_def sql_delete_def Let_def distinct_map_filter)

text \<open>An operation keeps the invariant when it changes no state of a finished object's row.\<close>

lemma object_ok_evolves:
  "object_ok t k j \<Longrightarrow> evolves i t t' \<Longrightarrow> (Some k = i \<Longrightarrow> \<not> isTerminalState (j_State j)) \<Longrightarrow> object_ok t' k j"
  unfolding object_ok_def evolves_def by metis

lemma job_Get_row: "job_Get i t = Inr r \<Longrightarrow> r \<in> set t \<and> j_ID r = i"
  by (auto simp: job_Get_def find_Some_iff split: option.splits)

lemma transfer_inv_cancel:
  assumes "transfer_inv m"
  shows "transfer_inv (snd (mgr_Cancel i u now m))"
proof (cases "job_Get i (tm_jobs m)")
  case (Inr rec)
  show ?thesis
  proof (cases "j_UserID rec \<noteq> u \<or> isTerminalState (j_State rec)")
    case True
    with Inr assms show ?thesis by (auto simp: mgr_Cancel_def)
  next
    case False
    let ?t = "snd (TrimUserHistory u (tm_maxHistory m) (UpdateState i StateCancelled [] now (tm_jobs m)))"
    have eq: "tm_jobs (snd (mgr_Cancel i u now m)) = ?t" "tm_objects (snd (mgr_Cancel i u now m)) = tm_objects m"
      using Inr False by (simp_all add: mgr_Cancel_def trimHistory_def releaseLive_def emit_def Let_def)
    have ev: "evolves (Some i) (tm_jobs m) ?t"
      using evolves_updates(1) evolves_subset [OF trim_subset] by (rule evolves_trans)
    have live: "\<not> isTerminalState (j_State j)" if "lookup (tm_objects m) i = Some j" for j
      using assms that job_Get_row [OF Inr] False unfolding transfer_inv_def object_ok_def by metis
    show ?thesis unfolding transfer_inv_def eq
      using assms ev live by (auto simp: transfer_inv_def distinct_trim intro: object_ok_evolves)
  qed
qed (use assms in \<open>simp add: mgr_Cancel_def\<close>)

lemma transfer_inv_state:
  assumes "transfer_inv m"
  shows "transfer_inv (job_SetState i st e now m)"
proof (cases "\<exists>j. lookup (tm_objects m) i = Some j \<and> \<not> isTerminalState (j_State j)")
  case False
  then have "job_SetState i st e now m = m" by (auto simp: job_SetState_def split: option.split)
  with assms show ?thesis by simp
next
  case True
  then obtain j where j: "lookup (tm_objects m) i = Some j" "\<not> isTerminalState (j_State j)" by blast
  let ?j = "with_state st e now j"
  let ?u = "UpdateState i st e now (UpdateProgress i (j_Progress ?j) (j_Total ?j) now (tm_jobs m))"
  have j': "tm_objects (job_SetState i st e now m) = AList.update i ?j (tm_objects m)"
      "j_ID ?j = j_ID j" "j_State ?j = st" "j_Error ?j = e"
    and t: "tm_jobs (job_SetState i st e now m) =
        (if isTerminalState st then snd (TrimUserHistory (j_UserID ?j) (tm_maxHistory m) ?u) else ?u)"
    using j by (simp_all add: job_SetState_def trimHistory_def releaseLive_def emit_def Let_def with_state_def)
  have sub: "set (tm_jobs (job_SetState i st e now m)) \<subseteq> set ?u" using t trim_subset by auto
  have ev: "evolves (Some i) (tm_jobs m) (tm_jobs (job_SetState i st e now m))"
    using evolves_trans [OF evolves_updates(2) evolves_updates(1)] evolves_subset [OF sub] evolves_trans by metis
  have row: "j_State r = st \<and> j_Error r = e" if "r \<in> set (tm_jobs (job_SetState i st e now m))" "j_ID r = i" for r
    using set_updates(1) that sub by (metis (no_types, lifting) subsetD)
  have "distinct (map j_ID (tm_jobs (job_SetState i st e now m)))"
    using assms unfolding t transfer_inv_def by (simp add: distinct_trim)
  moreover have "object_ok (tm_jobs (job_SetState i st e now m)) k l"
    if "lookup (tm_objects (job_SetState i st e now m)) k = Some l" for k l
  proof (cases "k = i")
    case True
    then have "l = ?j" using that j'(1) by simp
    with True j' row assms j(1) show ?thesis by (auto simp: object_ok_def transfer_inv_def)
  next
    case False
    then have "object_ok (tm_jobs m) k l" using that j'(1) assms by (simp add: transfer_inv_def)
    then show ?thesis using object_ok_evolves [OF _ ev] False by blast
  qed
  ultimately show ?thesis by (simp add: transfer_inv_def)
qed

lemma transfer_inv_create:
  assumes "transfer_inv m" and "lookup (tm_objects m) i = None"
  shows "transfer_inv (snd (job_Create i opts now m))"
proof -
  obtain j where j: "j_ID j = i" "snd (job_Create i opts now m) = (case job_Insert (tm_users m) (toRecord j) (tm_jobs m) of
      Inl e \<Rightarrow> m | Inr t \<Rightarrow> emit (toRecord j) (m\<lparr>tm_jobs := t, tm_live := i # filter (\<lambda>k. k \<noteq> i) (tm_live m),
        tm_objects := AList.update i j (tm_objects m)\<rparr>))"
    and st: "isTerminalState (j_State j) \<Longrightarrow> j_State (toRecord j) = j_State j \<and> j_Error (toRecord j) = j_Error j"
    by (rule that [of "\<lparr>j_ID = i, j_UserID = co_UserID opts, j_TargetID = co_TargetID opts, j_TargetName = co_TargetName opts,
               j_Backend = co_Backend opts, j_Direction = co_Direction opts, j_RemotePath = co_RemotePath opts,
               j_FileName = co_FileName opts, j_State = (case co_InitialState opts of None \<Rightarrow> StateRunning | Some s \<Rightarrow> s),
               j_Progress = 0, j_Total = co_Total opts, j_Error = [],
               j_TempPath = [], j_CreatedAt = now, j_UpdatedAt = now, j_lastPersistedAt = 0\<rparr>"])
      (auto simp: job_Create_def Let_def toRecord_def JobRecord.defs split: sum.split)
  show ?thesis
  proof (cases "job_Insert (tm_users m) (toRecord j) (tm_jobs m)")
    case (Inr t)
    then have t: "t = tm_jobs m @ [toRecord j]" "i \<notin> set (map j_ID (tm_jobs m))"
      using j(1) by (auto simp: job_Insert_def list_ex_iff toRecord_def JobRecord.defs split: if_splits)
    have id: "j_ID (toRecord j) = i" using j(1) by (simp add: toRecord_def JobRecord.defs)
    have fresh: "r \<in> set (tm_jobs m) \<Longrightarrow> j_ID r \<noteq> i" for r using t(2) by auto
    show ?thesis using assms j t id st Inr
      by (auto simp: transfer_inv_def emit_def object_ok_def dest: fresh)
  qed (use assms j in simp)
qed

lemma transfer_inv_rows:
  assumes "transfer_inv m" and "evolves None (tm_jobs m) t" and "distinct (map j_ID t)"
  shows "transfer_inv (m\<lparr>tm_jobs := t\<rparr>)"
  using assms by (auto simp: transfer_inv_def intro: object_ok_evolves)

lemma transfer_inv_remove: "transfer_inv m \<Longrightarrow> transfer_inv (mgr_Remove i m)"
proof -
  assume m: "transfer_inv m"
  then have r: "transfer_inv (releaseLive i m)" by (simp add: transfer_inv_def releaseLive_def)
  show ?thesis
  proof (cases "job_Get i (tm_jobs (releaseLive i m))")
    case (Inr rec)
    have t: "snd (job_Delete i (j_UserID rec) (tm_jobs (releaseLive i m))) = filter (\<lambda>r. j_ID r \<noteq> i) (tm_jobs (releaseLive i m))"
      using Inr by (simp add: job_Delete_def sql_delete_def)
    show ?thesis using Inr r unfolding mgr_Remove_def Let_def
      by (simp add: t transfer_inv_rows evolves_subset distinct_map_filter transfer_inv_def [of "releaseLive i m"])
  qed (use r in \<open>simp add: mgr_Remove_def Let_def\<close>)
qed

lemma transfer_inv_object:
  assumes "transfer_inv m" and "lookup (tm_objects m) i = Some j"
    and "j_ID j' = j_ID j" "j_State j' = j_State j" "j_Error j' = j_Error j"
  shows "transfer_inv (m\<lparr>tm_objects := AList.update i j' (tm_objects m)\<rparr>)"
  using assms by (auto simp: transfer_inv_def object_ok_def)

lemma transfer_inv_temp: "transfer_inv m \<Longrightarrow> transfer_inv (job_SetTempPath i path m)"
proof (cases "lookup (tm_objects m) i")
  case (Some j)
  assume m: "transfer_inv m"
  let ?m = "m\<lparr>tm_objects := AList.update i (j\<lparr>j_TempPath := path\<rparr>) (tm_objects m)\<rparr>"
  have "transfer_inv ?m" by (rule transfer_inv_object [OF m Some]) simp_all
  from transfer_inv_rows [OF this, of "UpdateTempPath i path (tm_jobs m)"] m Some show ?thesis
    by (simp add: job_SetTempPath_def evolves_updates transfer_inv_def [of m])
qed (simp add: job_SetTempPath_def)

lemma transfer_inv_emit [simp]: "transfer_inv (emit r m) = transfer_inv m"
  by (simp add: transfer_inv_def emit_def)

lemma transfer_inv_progress: "transfer_inv m \<Longrightarrow> transfer_inv (job_SetProgress i d tot now m)"
proof (cases "lookup (tm_objects m) i")
  case (Some j)
  assume m: "transfer_inv m"
  define p where "p = (time_sub now (j_lastPersistedAt j) \<ge> progressPersistInterval)"
  define j' where "j' = (let j = j\<lparr>j_Progress := d, j_Total := (if tot > 0 then tot else j_Total j), j_UpdatedAt := now\<rparr>
    in if p then j\<lparr>j_lastPersistedAt := now\<rparr> else j)"
  let ?m = "m\<lparr>tm_objects := AList.update i j' (tm_objects m)\<rparr>"
  have 1: "transfer_inv ?m" by (rule transfer_inv_object [OF m Some]) (simp_all add: j'_def Let_def)
  from transfer_inv_rows [OF 1, of "UpdateProgress i d (j_Total j') now (tm_jobs m)"] m
  have 2: "transfer_inv (?m\<lparr>tm_jobs := UpdateProgress i d (j_Total j') now (tm_jobs m)\<rparr>)"
    by (simp add: evolves_updates transfer_inv_def [of m])
  have "job_SetProgress i d tot now m = emit (toRecord j')
      (if p then ?m\<lparr>tm_jobs := UpdateProgress i d (j_Total j') now (tm_jobs m)\<rparr> else ?m)"
    using Some by (simp add: job_SetProgress_def p_def j'_def Let_def)
  with 1 2 show ?thesis by simp
qed (simp add: job_SetProgress_def)

lemma transfer_inv_step: "transfer_step m m' \<Longrightarrow> transfer_inv m \<Longrightarrow> transfer_inv m'"
proof (induction rule: transfer_step.induct)
  case (tr_max m n)
  then show ?case by (simp add: SetMaxHistoryPerUser_def transfer_inv_def)
next
  case (tr_reap m now message)
  then show ?case by (simp add: ReapOrphans_def MarkOrphansFailed_def sql_update_def transfer_inv_def comp_def if_distrib cong: if_cong)
qed (auto intro: transfer_inv_create transfer_inv_cancel transfer_inv_remove transfer_inv_state transfer_inv_temp
  transfer_inv_progress)

definition transfer_init :: "TransferManager \<Rightarrow> bool" where
  "transfer_init m = (\<exists>users jobs. distinct (map j_ID jobs) \<and> m = NewTransferManager users jobs)"

interpretation transfers: transition_system transfer_step transfer_init transfer_inv
proof
  show "transfer_inv m" if "transfer_init m" for m
    using that by (auto simp: transfer_init_def NewTransferManager_def transfer_inv_def)
qed (rule transfer_inv_step)

lemma transfer_object_kept:
  assumes "lookup (tm_objects m) i = Some j" and "isTerminalState (j_State j)" and "transfer_step m m'"
  shows "\<exists>j'. lookup (tm_objects m') i = Some j' \<and> j_State j' = j_State j \<and> j_Error j' = j_Error j"
  using assms(3,1,2)
proof (cases rule: transfer_step.cases)
  case (tr_create k opts now)
  then show ?thesis using assms(1) by (auto simp: job_Create_def emit_def Let_def split: sum.split)
next
  case (tr_cancel k u now)
  then show ?thesis using assms(1)
    by (auto simp: mgr_Cancel_def emit_def trimHistory_def releaseLive_def Let_def split: sum.split)
next
  case (tr_remove k)
  then show ?thesis using assms(1) by (auto simp: mgr_Remove_def releaseLive_def Let_def split: sum.split)
next
  case (tr_state k st e now)
  then show ?thesis using assms(1,2)
    by (auto simp: job_SetState_def emit_def trimHistory_def releaseLive_def Let_def split: option.split)
next
  case (tr_temp k path)
  then show ?thesis using assms(1) by (auto simp: job_SetTempPath_def split: option.split)
next
  case (tr_progress k d tot now)
  then show ?thesis using assms(1) by (auto simp: job_SetProgress_def emit_def Let_def split: option.split)
next
  case (tr_max n)
  then show ?thesis using assms(1) by (simp add: SetMaxHistoryPerUser_def)
next
  case (tr_reap now message)
  then show ?thesis using assms(1) by simp
qed


definition demo_opts :: CreateOpts where
  "demo_opts = \<lparr>co_UserID = ''alice'', co_TargetID = ''web'', co_TargetName = ''web'', co_Backend = BackendRemote,
     co_Direction = DirectionUpload, co_RemotePath = ''/tmp/a'', co_FileName = ''a'', co_InitialState = None, co_Total = 10\<rparr>"

definition demo_started :: TransferManager where
  "demo_started = snd (job_Create ''j1'' demo_opts 1 (NewTransferManager [''alice''] []))"

definition demo_finished :: TransferManager where
  "demo_finished = job_SetState ''j1'' StateCompleted [] 2 demo_started"

definition demo_object :: Job where
  "demo_object = \<lparr>j_ID = ''j1'', j_UserID = ''alice'', j_TargetID = ''web'', j_TargetName = ''web'', j_Backend = BackendRemote,
     j_Direction = DirectionUpload, j_RemotePath = ''/tmp/a'', j_FileName = ''a'', j_State = StateRunning, j_Progress = 0,
     j_Total = 10, j_Error = [], j_TempPath = [], j_CreatedAt = 1, j_UpdatedAt = 1, j_lastPersistedAt = 0\<rparr>"

lemma demo_started_simps:
  "tm_jobs demo_started = [toRecord demo_object]" "tm_objects demo_started = [(''j1'', demo_object)]"
  "tm_maxHistory demo_started = 500" "tm_live demo_started = [''j1'']"
  by (simp_all add: demo_started_def demo_opts_def NewTransferManager_def job_Create_def job_Insert_def emit_def
      demo_object_def toRecord_def JobRecord.defs DefaultMaxHistoryPerUser_def Let_def)

lemma toRecord_simps [simp]:
  "j_ID (toRecord j) = j_ID j" "j_State (toRecord j) = j_State j" "j_UserID (toRecord j) = j_UserID j"
  by (simp_all add: toRecord_def JobRecord.defs)

lemma demo_object_simps [simp]:
  "j_ID demo_object = ''j1''" "j_State demo_object = StateRunning" "j_UserID demo_object = ''alice''" "j_Total demo_object = 10"
  by (simp_all add: demo_object_def)

lemmas demo_transfer_simps = job_SetState_def with_state_def UpdateState_def UpdateProgress_def sql_update_def emit_def
  trimHistory_def releaseLive_def isTerminalState_def demo_started_simps Let_def

lemma trim_short: "length t \<le> nat n \<Longrightarrow> snd (TrimUserHistory u n t) = t"
proof -
  assume l: "length t \<le> nat n"
  have "length (history u t) \<le> length t" unfolding history_def by (rule length_filter_le)
  with l have "take (nat n) (newest_first (history u t)) = newest_first (history u t)" by simp
  then show ?thesis by (auto simp: TrimUserHistory_def sql_delete_def history_def Let_def intro!: filter_True)
qed

lemma demo_finished_simps:
  "map (\<lambda>r. (j_ID r, j_State r)) (tm_jobs demo_finished) = [(''j1'', StateCompleted)]"
  "map_option j_State (lookup (tm_objects demo_finished) ''j1'') = Some StateCompleted"
  by (simp_all add: demo_finished_def demo_transfer_simps trim_short)

lemma demo_cancel:
  "fst (mgr_Cancel ''j1'' ''alice'' 2 demo_started) = None"
  "map (\<lambda>r. (j_ID r, j_State r)) (tm_jobs (snd (mgr_Cancel ''j1'' ''alice'' 2 demo_started))) = [(''j1'', StateCancelled)]"
  "tm_objects (snd (mgr_Cancel ''j1'' ''alice'' 2 demo_started)) = [(''j1'', demo_object)]"
  "tm_maxHistory (snd (mgr_Cancel ''j1'' ''alice'' 2 demo_started)) = 500"
  by (simp_all add: mgr_Cancel_def job_Get_def demo_transfer_simps trim_short)

lemma demo_transfer_steps:
  "transfer_init (NewTransferManager [''alice''] [])" "transfer_step\<^sup>*\<^sup>* (NewTransferManager [''alice''] []) demo_started"
  "transfer_step\<^sup>*\<^sup>* demo_started demo_finished" "transfer_step\<^sup>*\<^sup>* demo_finished (job_SetState ''j1'' StateFailed ''late'' 3 demo_finished)"
  unfolding demo_finished_def demo_started_def
  by (auto simp: transfer_init_def NewTransferManager_def intro!: r_into_rtranclp tr_create tr_state)


text \<open>
  Cancelling a job whose goroutine still runs does not bind that goroutine: the manager
  answers without an error and marks the row as cancelled, but the state the goroutine reports
  afterwards replaces the mark, because the test for a final state looks at the goroutine's own
  object, which \<open>Cancel\<close> does not change.
\<close>

theorem cancel_overridden_by_goroutine:
  assumes "lookup (tm_objects m) i = Some j" and "\<not> isTerminalState (j_State j)"
    and "r \<in> set (tm_jobs (job_SetState i st e now' (snd (mgr_Cancel i u now m))))" and "j_ID r = i"
  shows "j_State r = st"
proof -
  let ?m = "snd (mgr_Cancel i u now m)" and ?j = "with_state st e now' j"
  have "lookup (tm_objects ?m) i = Some j" using assms(1)
    by (auto simp: mgr_Cancel_def emit_def trimHistory_def releaseLive_def Let_def split: sum.split)
  then have "set (tm_jobs (job_SetState i st e now' ?m))
      \<subseteq> set (UpdateState i st e now' (UpdateProgress i (j_Progress ?j) (j_Total ?j) now' (tm_jobs ?m)))"
    using assms(2) trim_subset by (auto simp: job_SetState_def emit_def trimHistory_def releaseLive_def Let_def)
  then have "r \<in> set (UpdateState i st e now' (UpdateProgress i (j_Progress ?j) (j_Total ?j) now' (tm_jobs ?m)))"
    using assms(3) by blast
  from set_updates(1) [OF this] assms(4) show ?thesis by auto
qed

theorem cancel_overridden_by_goroutine_witness:
  "fst (mgr_Cancel ''j1'' ''alice'' 2 demo_started) = None
   \<and> map (\<lambda>r. (j_ID r, j_State r)) (tm_jobs (snd (mgr_Cancel ''j1'' ''alice'' 2 demo_started))) = [(''j1'', StateCancelled)]
   \<and> map j_State (tm_jobs (job_SetState ''j1'' StateCompleted [] 3 (snd (mgr_Cancel ''j1'' ''alice'' 2 demo_started)))) = [StateCompleted]"
proof -
  let ?m = "snd (mgr_Cancel ''j1'' ''alice'' 2 demo_started)" and ?n = "job_SetState ''j1'' StateCompleted [] 3 (snd (mgr_Cancel ''j1'' ''alice'' 2 demo_started))"
  obtain r0 where r0: "tm_jobs ?m = [r0]" "j_ID r0 = ''j1''" using demo_cancel(2) by auto
  have "map j_ID (tm_jobs ?n) = [''j1'']"
    using r0 by (simp add: demo_cancel demo_transfer_simps trim_short)
  then obtain r where r: "tm_jobs ?n = [r]" "j_ID r = ''j1''" by auto
  have "j_State r = StateCompleted"
    by (rule cancel_overridden_by_goroutine [where m = demo_started and j = demo_object and u = "''alice''" and now = 2 and e = "[]" and now' = 3])
      (use r in \<open>auto simp: demo_started_simps isTerminalState_def\<close>)
  with r show ?thesis by (simp add: demo_cancel)
qed

end
