(* ===== verification/Command_Log.thy ===== *)
theory Command_Log
  imports Go_Text
begin

text \<open>
  The command log (\<open>src/internal/httpapi/command_line_tracker.go\<close>, \<open>command_store.go\<close>): a tracker that
  follows the input line on the terminal from the target's output, and a recorder that combines
  it with the keyboard input into the lines written to \<open>command_logs\<close>.

  A Go panic is the value \<open>None\<close>: an index or slice bound out of range, or an allocation larger
  than the address space.  Integers are 64 bits wide and wrap around.  The regular expressions of
  \<open>redactSecrets\<close> are the parameter \<open>redact\<close>; \<open>promptNoisePattern\<close> is written out.
\<close>

text \<open>The runtime's bound on the size of an allocation (linux/amd64).\<close>

definition maxAlloc :: int where "maxAlloc = 2 ^ 48"

subsection \<open>The tracker\<close>

record commandLineTracker =
  ct_line :: bytes
  ct_col :: int
  ct_escBuf :: bytes

definition ESC :: char where "ESC = CHR 0x1B"

definition ct_reset :: "commandLineTracker \<Rightarrow> commandLineTracker" where
  "ct_reset t = t\<lparr>ct_line := [], ct_col := 0, ct_escBuf := []\<rparr>"

definition currentLine :: "commandLineTracker \<Rightarrow> string" where
  "currentLine t = trim_space (ct_line t)"

text \<open>\<open>line[:k]\<close> and \<open>line[k:]\<close>.\<close>

definition slice_to :: "bytes \<Rightarrow> int \<Rightarrow> bytes option" where
  "slice_to s k = (if 0 \<le> k \<and> k \<le> int (length s) then Some (take (nat k) s) else None)"

definition slice_from :: "bytes \<Rightarrow> int \<Rightarrow> bytes option" where
  "slice_from s k = (if 0 \<le> k \<and> k \<le> int (length s) then Some (drop (nat k) s) else None)"

definition splice :: "bytes \<Rightarrow> int \<Rightarrow> bytes \<Rightarrow> int \<Rightarrow> bytes option" where
  "splice s k mid l = (case (slice_to s k, slice_from s l) of
     (Some a, Some b) \<Rightarrow> if int (length (a @ mid @ b)) > maxAlloc then None else Some (a @ mid @ b) | _ \<Rightarrow> None)"

definition isCSIFinal :: "char \<Rightarrow> bool" where
  "isCSIFinal b = (0x40 \<le> byte b \<and> byte b \<le> 0x7E)"

definition csiParam :: "string \<Rightarrow> int \<Rightarrow> int" where
  "csiParam params defaultVal =
     (if params = [] then defaultVal
      else let params = takeWhile (\<lambda>c. c \<noteq> CHR '';'') params in
        if \<not> list_all is_digit params then defaultVal
        else let n = foldl (\<lambda>n c. wrap64 (wrap64 (n * 10) + digit_val c)) 0 params
          in if n = 0 then defaultVal else n)"

definition insertByte :: "char \<Rightarrow> commandLineTracker \<Rightarrow> commandLineTracker option" where
  "insertByte b t =
     (if ct_col t \<ge> int (length (ct_line t)) then
        (if int (length (ct_line t)) + 1 > maxAlloc then None
         else Some (t\<lparr>ct_line := ct_line t @ [b], ct_col := int (length (ct_line t)) + 1\<rparr>))
      else if ct_col t < 0 then None
      else Some (t\<lparr>ct_line := (ct_line t)[nat (ct_col t) := b], ct_col := ct_col t + 1\<rparr>))"

definition feedByte :: "char \<Rightarrow> commandLineTracker \<Rightarrow> commandLineTracker option" where
  "feedByte b t =
     (if b = CHR 0x0D then Some (t\<lparr>ct_line := [], ct_col := 0\<rparr>)
      else if b = CHR 0x0A \<or> b = CHR 0x07 then Some t
      else if b = CHR 0x08 \<or> b = CHR 0x7F then
        (if ct_col t > 0 then
           map_option (\<lambda>s. t\<lparr>ct_line := s, ct_col := ct_col t - 1\<rparr>)
             (splice (ct_line t) (ct_col t - 1) [] (ct_col t))
         else Some t)
      else if b = CHR 0x09 then Some t
      else if byte b < 32 then Some t
      else insertByte b t)"

definition applyCSI :: "char \<Rightarrow> string \<Rightarrow> commandLineTracker \<Rightarrow> commandLineTracker option" where
  "applyCSI cmd params t =
     (let len = int (length (ct_line t)); col = ct_col t in
      if cmd = CHR ''K'' then
        (let mode = csiParam params 0 in
         if mode = 1 then
           (if col > 0 then map_option (\<lambda>s. t\<lparr>ct_line := s, ct_col := 0\<rparr>) (slice_from (ct_line t) col) else Some t)
         else if mode = 2 then Some (ct_reset t)
         else if col < len then map_option (\<lambda>s. t\<lparr>ct_line := s\<rparr>) (slice_to (ct_line t) col) else Some t)
      else if cmd = CHR ''G'' then
        (let c = wrap64 (csiParam params 1 - 1); c = (if c < 0 then 0 else c)
         in Some (t\<lparr>ct_col := (if c > len then len else c)\<rparr>))
      else if cmd = CHR ''C'' then
        (let c = wrap64 (col + csiParam params 1) in Some (t\<lparr>ct_col := (if c > len then len else c)\<rparr>))
      else if cmd = CHR ''D'' then
        (let c = wrap64 (col - csiParam params 1) in Some (t\<lparr>ct_col := (if c < 0 then 0 else c)\<rparr>))
      else if cmd = CHR ''P'' then
        (let n = csiParam params 1 in
         if n > 0 \<and> col < len then
           (let e = wrap64 (col + n); e = (if e > len then len else e)
            in map_option (\<lambda>s. t\<lparr>ct_line := s\<rparr>) (splice (ct_line t) col [] e))
         else Some t)
      else if cmd = CHR ''@'' then
        (let n = csiParam params 1 in
         if n > 0 then
           (if n > maxAlloc then None
            else map_option (\<lambda>s. t\<lparr>ct_line := s\<rparr>)
              (splice (ct_line t) col (replicate (nat n) (CHR 0x00)) col))
         else Some t)
      else Some t)"

text \<open>
  How many bytes of an operating-system command, or of the parameters of a control sequence, are
  consumed; \<open>None\<close> when the end has not arrived yet.
\<close>

fun osc_end :: "bytes \<Rightarrow> nat option" where
  "osc_end [] = None"
| "osc_end (c # r) = (if c = CHR 0x07 then Some 1
     else if c = ESC \<and> r \<noteq> [] \<and> hd r = CHR 0x5C then Some 2
     else map_option Suc (osc_end r))"

fun csi_end :: "bytes \<Rightarrow> nat option" where
  "csi_end [] = None"
| "csi_end (c # r) = (if isCSIFinal c then Some 1 else map_option Suc (csi_end r))"

definition esc_length :: "bytes \<Rightarrow> nat option" where
  "esc_length seq = (case seq of
     [] \<Rightarrow> Some 0
   | [e] \<Rightarrow> None
   | e # c # body \<Rightarrow>
      if c = CHR '']'' then map_option (\<lambda>k. 2 + k) (osc_end body)
      else if c = CHR ''['' then map_option (\<lambda>k. 2 + k) (csi_end body)
      else if isCSIFinal c then Some 2 else None)"

text \<open>\<open>consumeEscape\<close> at an ESC: the bytes consumed, \<open>None\<close> for an incomplete sequence.\<close>

definition consumeEscape :: "bytes \<Rightarrow> commandLineTracker \<Rightarrow> (nat option \<times> commandLineTracker) option" where
  "consumeEscape seq t =
     (case esc_length seq of None \<Rightarrow> Some (None, t)
      | Some n \<Rightarrow>
        if take 1 (drop 1 seq) = ''['' then
          map_option (\<lambda>t'. (Some n, t')) (applyCSI (seq ! (n - 1)) (take (n - 3) (drop 2 seq)) t)
        else Some (Some n, t))"

lemma osc_end_pos: "osc_end s = Some k \<Longrightarrow> 0 < k"
  by (induction s arbitrary: k) (auto split: if_splits)

lemma csi_end_pos: "csi_end s = Some k \<Longrightarrow> 0 < k \<and> k \<le> length s"
proof (induction s arbitrary: k)
  case (Cons c s)
  then show ?case by (cases "csi_end s") (auto split: if_splits)
qed simp

lemma esc_length_pos: "esc_length (c # s) = Some n \<Longrightarrow> 2 \<le> n"
  by (auto simp: esc_length_def split: list.splits if_splits)

lemma consumeEscape_pos: "consumeEscape (c # s) t = Some (Some n, t') \<Longrightarrow> 2 \<le> n"
  by (auto simp: consumeEscape_def split: option.splits if_splits dest: esc_length_pos)

function feed_loop :: "bytes \<Rightarrow> commandLineTracker \<Rightarrow> commandLineTracker option" where
  "feed_loop [] t = Some t"
| "feed_loop (c # r) t =
     (if c = ESC then
        (case consumeEscape (c # r) t of
           None \<Rightarrow> None
         | Some (None, t') \<Rightarrow> Some (t'\<lparr>ct_escBuf := c # r\<rparr>)
         | Some (Some n, t') \<Rightarrow> feed_loop (drop n (c # r)) t')
      else (case feedByte c t of None \<Rightarrow> None | Some t' \<Rightarrow> feed_loop r t'))"
  by pat_completeness auto
termination
  by (relation "measure (\<lambda>(s, _). length s)") (auto dest: consumeEscape_pos)

declare feed_loop.simps(2) [simp del]

definition feed :: "bytes \<Rightarrow> commandLineTracker \<Rightarrow> commandLineTracker option" where
  "feed p t =
     (let data = (if length (ct_escBuf t) > 0 then ct_escBuf t @ p else p)
      in feed_loop data (t\<lparr>ct_escBuf := []\<rparr>))"

subsection \<open>The recorder\<close>

definition last_index :: "string \<Rightarrow> string \<Rightarrow> nat option" where
  "last_index s sub = map_option (\<lambda>i. length s - length sub - i) (index_of (rev s) (rev sub))"

definition stripShellPrompt :: "string \<Rightarrow> string" where
  "stripShellPrompt s =
     (let s = trim_space s in
      case find (\<lambda>sep. last_index s sep \<noteq> None) [''$ '', ''# '', ''> '', ''% ''] of
        None \<Rightarrow> s
      | Some sep \<Rightarrow> trim_space (drop (the (last_index s sep) + length sep) s))"

text \<open>
  \<open>promptNoisePattern\<close>: the last character that is not white space is one of \<open>$#%>\<close>, and before it
  stand, without white space, an at sign, a colon after it and from the first such colon on none
  of \<open>$#%\<close>.  The optional leading digits are covered by the first part.
\<close>

definition re_space :: "char \<Rightarrow> bool" where
  "re_space c = (c \<in> {CHR 0x09, CHR 0x0A, CHR 0x0C, CHR 0x0D, CHR 0x20})"

definition prompt_noise :: "string \<Rightarrow> bool" where
  "prompt_noise line =
     (let core = rev (dropWhile re_space (rev line)) in
      core \<noteq> [] \<and> last core \<in> set ''$#%>''
      \<and> (let rest = butlast core in
         list_all (\<lambda>c. \<not> re_space c) rest
         \<and> list_ex (\<lambda>i. rest ! i = CHR ''@'' \<and>
             (case index_byte (drop (i + 1) rest) (CHR '':'') of None \<Rightarrow> False
              | Some k \<Rightarrow> list_all (\<lambda>c. c \<notin> set ''$#%'') (drop (k + 1) (drop (i + 1) rest)))) [0..<length rest]))"

definition isNoiseCommandLogLine :: "string \<Rightarrow> bool" where
  "isNoiseCommandLogLine line =
     (let line = trim_space line in
      line = [] \<or> ESC \<in> set line \<or> prompt_noise line
      \<or> (CHR '' '' \<notin> set line \<and> has_suffix line ''#'')
      \<or> (let stripped = stripShellPrompt line in
         (stripped = [] \<or> stripped = line)
         \<and> (CHR ''@'' \<in> set line \<and> list_ex (\<lambda>c. c \<in> set ''$#%>'') line \<or> has_prefix line ''0;'')))"

definition mergeCommandLine :: "string \<Rightarrow> string \<Rightarrow> string" where
  "mergeCommandLine stdinLine echoLine =
     (let stdinLine = trim_space stdinLine; echoLine = trim_space echoLine in
      if stdinLine \<noteq> [] \<and> echoLine = [] then []
      else if echoLine = [] then stdinLine
      else if stdinLine = [] then
        (let candidate = stripShellPrompt echoLine in if isNoiseCommandLogLine candidate then [] else candidate)
      else case last_index echoLine stdinLine of
        Some i \<Rightarrow> (let candidate = trim_space (drop i echoLine) in if isNoiseCommandLogLine candidate then [] else candidate)
      | None \<Rightarrow>
        if length echoLine \<ge> length stdinLine then
          (let stripped = stripShellPrompt echoLine in
           if stripped \<noteq> [] \<and> \<not> isNoiseCommandLogLine stripped then stripped
           else if \<not> isNoiseCommandLogLine echoLine then echoLine else [])
        else if isNoiseCommandLogLine stdinLine then [] else stdinLine)"

record commandLogRow =
  cl_session_id :: string
  cl_user_id :: string
  cl_target_id :: string
  cl_time :: instant
  cl_line_text :: string

definition appendLine ::
  "(string \<Rightarrow> string) \<Rightarrow> string \<Rightarrow> string \<Rightarrow> string \<Rightarrow> instant \<Rightarrow> string \<Rightarrow> commandLogRow list \<Rightarrow> commandLogRow list" where
  "appendLine redact sessionID userID targetID now line rows =
     (let line = trim_space line in
      if line = [] then rows
      else rows @ [\<lparr>cl_session_id = sessionID, cl_user_id = userID, cl_target_id = targetID, cl_time = now,
                    cl_line_text = redact line\<rparr>])"

record commandLogRecorder =
  cr_rows :: "commandLogRow list"
  cr_sessionID :: string
  cr_userID :: string
  cr_targetID :: string
  cr_buf :: bytes
  cr_echo :: commandLineTracker
  cr_lastEchoLine :: string

definition newCommandLogRecorder :: "commandLogRow list \<Rightarrow> string \<Rightarrow> string \<Rightarrow> string \<Rightarrow> commandLogRecorder" where
  "newCommandLogRecorder rows sessionID userID targetID =
     \<lparr>cr_rows = rows, cr_sessionID = sessionID, cr_userID = userID, cr_targetID = targetID, cr_buf = [],
      cr_echo = \<lparr>ct_line = [], ct_col = 0, ct_escBuf = []\<rparr>, cr_lastEchoLine = []\<rparr>"

definition recordStdout :: "bytes \<Rightarrow> commandLogRecorder \<Rightarrow> commandLogRecorder option" where
  "recordStdout p r =
     (if p = [] then Some r
      else case feed p (cr_echo r) of None \<Rightarrow> None
      | Some t \<Rightarrow> Some (r\<lparr>cr_echo := t, cr_lastEchoLine := (if currentLine t \<noteq> [] then currentLine t else cr_lastEchoLine r)\<rparr>))"

definition flushLine :: "(string \<Rightarrow> string) \<Rightarrow> instant \<Rightarrow> commandLogRecorder \<Rightarrow> commandLogRecorder" where
  "flushLine redact now r =
     (let stdinLine = trim_space (cr_buf r);
          echoLine = currentLine (cr_echo r);
          echoLine = (if echoLine = [] then cr_lastEchoLine r else echoLine);
          line = mergeCommandLine stdinLine echoLine;
          r = r\<lparr>cr_buf := [], cr_echo := ct_reset (cr_echo r), cr_lastEchoLine := []\<rparr>
      in if line = [] \<or> isNoiseCommandLogLine line then r
         else r\<lparr>cr_rows := appendLine redact (cr_sessionID r) (cr_userID r) (cr_targetID r) now line (cr_rows r)\<rparr>)"

fun RecordInput :: "(string \<Rightarrow> string) \<Rightarrow> instant \<Rightarrow> bytes \<Rightarrow> commandLogRecorder \<Rightarrow> commandLogRecorder" where
  "RecordInput redact now [] r = r"
| "RecordInput redact now (b # p) r =
     RecordInput redact now p
       (if b = CHR 0x0D \<or> b = CHR 0x0A then flushLine redact now r
        else if b = CHR 0x09 then r
        else if byte b < 32 then r
        else r\<lparr>cr_buf := cr_buf r @ [b]\<rparr>)"

subsection \<open>Chunk independence\<close>

lemma osc_end_append: "osc_end s = Some k \<Longrightarrow> osc_end (s @ b) = Some k \<and> k \<le> length s"
proof (induction s arbitrary: k)
  case (Cons c s)
  show ?case
  proof (cases "c = CHR 0x07 \<or> c = ESC \<and> s \<noteq> [] \<and> hd s = CHR 0x5C")
    case True
    with Cons.prems show ?thesis by (cases s) (auto simp: ESC_def split: if_splits)
  next
    case False
    with Cons.prems obtain j where j: "osc_end s = Some j" "k = Suc j" by auto
    then have "s \<noteq> []" by auto
    with False j Cons.IH [OF j(1)] show ?thesis by auto
  qed
qed simp

lemma csi_end_append: "csi_end s = Some k \<Longrightarrow> csi_end (s @ b) = Some k"
  by (induction s arbitrary: k) (auto split: if_splits)

lemma esc_length_append: "esc_length (c # s) = Some n \<Longrightarrow> esc_length (c # s @ b) = Some n \<and> n \<le> Suc (length s)"
  by (cases s) (auto simp: esc_length_def osc_end_append csi_end_append split: if_splits dest: csi_end_pos osc_end_append)

lemma csi_start: "esc_length (c # s) = Some n \<Longrightarrow> take 1 (drop 1 (c # s)) = ''['' \<Longrightarrow> 3 \<le> n"
  by (cases s) (auto simp: esc_length_def split: if_splits dest: csi_end_pos)

lemma consumeEscape_append:
  assumes "esc_length (c # s) = Some n"
  shows "consumeEscape (c # s @ b) t = consumeEscape (c # s) t"
proof -
  have n: "esc_length (c # s @ b) = Some n" "n \<le> Suc (length s)" "2 \<le> n"
    using esc_length_append [OF assms] esc_length_pos [OF assms] by auto
  then obtain d r where s: "s = d # r" by (cases s) auto
  have "take (n - 3) (r @ b) = take (n - 3) r" using n s by simp
  moreover have "(c # s @ b) ! (n - 1) = (c # s) ! (n - 1)" using n by (cases n) (auto simp: nth_append nth_Cons split: nat.split)
  ultimately show ?thesis using assms n(1) s by (auto simp: consumeEscape_def simp del: take_append)
qed

lemma feedByte_kept: "ct_escBuf t = [] \<Longrightarrow> feedByte c t = Some t' \<Longrightarrow> ct_escBuf t' = []"
  by (auto simp: feedByte_def insertByte_def split: if_splits)

lemma applyCSI_kept: "ct_escBuf t = [] \<Longrightarrow> applyCSI cmd params t = Some t' \<Longrightarrow> ct_escBuf t' = []"
  by (auto simp: applyCSI_def ct_reset_def Let_def split: if_splits)

lemma consumeEscape_kept: "ct_escBuf t = [] \<Longrightarrow> consumeEscape s t = Some (n, t') \<Longrightarrow> ct_escBuf t' = []"
  by (auto simp: consumeEscape_def split: option.splits if_splits dest: applyCSI_kept)

lemma empty_escBuf: "ct_escBuf t = [] \<Longrightarrow> t\<lparr>ct_escBuf := []\<rparr> = t"
  by (cases t) simp

lemma feed_loop_append: "ct_escBuf t = [] \<Longrightarrow> Option.bind (feed_loop a t) (feed b) = feed_loop (a @ b) t"
proof (induction a t rule: feed_loop.induct)
  case (1 t)
  then show ?case by (simp add: feed_def empty_escBuf)
next
  case (2 c r t)
  show ?case
  proof (cases "c = ESC")
    case False
    show ?thesis
    proof (cases "feedByte c t")
      case (Some t')
      with False 2 show ?thesis by (simp add: feed_loop.simps(2) feedByte_kept [OF 2(3)])
    qed (simp add: feed_loop.simps(2) False)
  next
    case True
    show ?thesis
    proof (cases "esc_length (c # r)")
      case None
      then have "feed_loop (c # r) t = Some (t\<lparr>ct_escBuf := c # r\<rparr>)"
        using True by (simp add: feed_loop.simps(2) consumeEscape_def)
      then show ?thesis using empty_escBuf [OF 2(3)] by (simp add: feed_def)
    next
      case (Some n)
      then have same: "consumeEscape (c # r @ b) t = consumeEscape (c # r) t" and n: "n \<le> Suc (length r)" "2 \<le> n"
        using consumeEscape_append esc_length_append esc_length_pos by blast+
      show ?thesis
      proof (cases "consumeEscape (c # r) t")
        case None
        with True same show ?thesis by (simp add: feed_loop.simps(2))
      next
        case c: (Some q)
        then obtain t' where t': "consumeEscape (c # r) t = Some (Some n, t')"
          using Some by (auto simp: consumeEscape_def split: if_splits)
        then have e: "ct_escBuf t' = []" using consumeEscape_kept [OF 2(3)] by blast
        have "drop n (c # r @ b) = drop n (c # r) @ b" using n by (cases n) auto
        with t' same True 2(1) [OF True t' refl refl e] show ?thesis by (simp add: feed_loop.simps(2))
      qed
    qed
  qed
qed

text \<open>
  However the target's output is split into writes, the tracker ends in the same state (and
  panics on the same output): an escape sequence cut by a write is resumed with the next one.
\<close>

theorem tracker_chunks_irrelevant:
  "Option.bind (feed a t) (feed b) = feed (a @ b) t"
proof (cases "ct_escBuf t")
  case Nil
  then show ?thesis using feed_loop_append [of "t\<lparr>ct_escBuf := []\<rparr>" a b] by (simp add: feed_def)
next
  case (Cons x xs)
  then show ?thesis using feed_loop_append [of "t\<lparr>ct_escBuf := []\<rparr>" "ct_escBuf t @ a" b] by (simp add: feed_def)
qed

subsection \<open>Absence and presence of panics\<close>

definition tracker_ok :: "commandLineTracker \<Rightarrow> bool" where
  "tracker_ok t = (0 \<le> ct_col t \<and> ct_col t \<le> int (length (ct_line t)))"

text \<open>Some seven consecutive bytes are digits.\<close>

definition long_number :: "bytes \<Rightarrow> bool" where
  "long_number s = list_ex (\<lambda>i. list_all is_digit (take 7 (drop i s)) \<and> i + 7 \<le> length s) [0..<length s]"

lemma digit_val_range: "is_digit c \<Longrightarrow> 0 \<le> digit_val c \<and> digit_val c \<le> 9"
  by (auto simp: is_digit_def digit_val_def less_eq_char_def)

lemma decimal_value:
  "list_all is_digit s \<Longrightarrow> 0 \<le> n \<Longrightarrow> n * 10 ^ length s + 10 ^ length s \<le> 10 ^ 18 \<Longrightarrow>
     0 \<le> foldl (\<lambda>n c. wrap64 (wrap64 (n * 10) + digit_val c)) n s
     \<and> foldl (\<lambda>n c. wrap64 (wrap64 (n * 10) + digit_val c)) n s < n * 10 ^ length s + 10 ^ length s"
proof (induction s arbitrary: n)
  case (Cons c s)
  let ?m = "n * 10 + digit_val c" and ?p = "10 ^ length s :: int"
  have d: "0 \<le> digit_val c" "digit_val c \<le> 9" using Cons.prems(1) digit_val_range by auto
  have "?m \<le> n * 10 + 9" using d by simp
  then have "(?m + 1) * ?p \<le> (n * 10 + 10) * ?p" by (intro mult_right_mono) auto
  then have b: "?m * ?p + ?p \<le> n * 10 ^ length (c # s) + 10 ^ length (c # s)" by (simp add: algebra_simps)
  have "1 \<le> ?p" by simp
  then have "?m * 1 \<le> ?m * ?p" using Cons.prems(2) d by (intro mult_left_mono) auto
  moreover have "?m * ?p \<le> 10 ^ 18" using b Cons.prems(3) \<open>1 \<le> ?p\<close> by linarith
  ultimately have le: "?m \<le> 10 ^ 18" by (metis mult_1_right order_trans)
  have "wrap64 (n * 10) = n * 10" "wrap64 ?m = ?m" using le d Cons.prems(2) by (auto intro!: wrap64_id)
  then show ?case using Cons.IH [of ?m] Cons.prems d b by (simp del: power_Suc)
qed simp

lemma param_range:
  assumes "\<not> long_number s" and "s = a @ params @ r" and "0 \<le> d" "d \<le> 1"
  shows "0 \<le> csiParam params d \<and> csiParam params d < 10 ^ 6"
proof -
  let ?q = "takeWhile (\<lambda>c. c \<noteq> CHR '';'') params"
  have "length ?q \<le> 6" if "list_all is_digit ?q"
  proof (rule ccontr)
    assume "\<not> length ?q \<le> 6"
    then have q: "7 \<le> length ?q" by simp
    have "s = a @ ?q @ dropWhile (\<lambda>c. c \<noteq> CHR '';'') params @ r" using assms(2) by simp
    then obtain e where s: "s = a @ ?q @ e" by metis
    have "take 7 (drop (length a) s) = take 7 ?q" using q by (subst s) simp
    moreover have "list_all is_digit (take 7 ?q)" using that by (auto simp: list_all_iff dest: in_set_takeD)
    moreover have "length a + 7 \<le> length s" using q by (subst s) simp
    ultimately have "long_number s" unfolding long_number_def by (auto simp: list_ex_iff intro!: bexI [of _ "length a"])
    with assms(1) show False by contradiction
  qed
  moreover have "(10 :: int) ^ length ?q \<le> 10 ^ 6" if "length ?q \<le> 6" using that by (rule power_increasing) simp
  ultimately show ?thesis
    using decimal_value [of ?q 0] assms(3,4) by (fastforce simp: csiParam_def Let_def)
qed

lemma feedByte_ok:
  assumes "tracker_ok t" and "int (length (ct_line t)) + 1 \<le> maxAlloc"
  shows "\<exists>t'. feedByte c t = Some t' \<and> tracker_ok t' \<and> length (ct_line t') \<le> length (ct_line t) + 1"
  using assms by (auto simp: feedByte_def insertByte_def splice_def slice_to_def slice_from_def tracker_ok_def maxAlloc_def)

lemma applyCSI_ok:
  assumes "tracker_ok t" and "int (length (ct_line t)) + 10 ^ 6 \<le> maxAlloc"
    and p0: "0 \<le> csiParam params 0" and p1: "0 \<le> csiParam params 1" "csiParam params 1 < 10 ^ 6"
  shows "\<exists>t'. applyCSI cmd params t = Some t' \<and> tracker_ok t' \<and> length (ct_line t') \<le> length (ct_line t) + 10 ^ 6"
proof -
  let ?n = "csiParam params 1" and ?l = "int (length (ct_line t))"
  have r: "0 \<le> ct_col t" "ct_col t \<le> ?l" "?l \<le> 2 ^ 48" using assms(1,2) by (auto simp: tracker_ok_def maxAlloc_def)
  have w: "wrap64 (?n - 1) = ?n - 1" "wrap64 (ct_col t + ?n) = ct_col t + ?n" "wrap64 (ct_col t - ?n) = ct_col t - ?n"
    using r p1 by (auto intro!: wrap64_id)
  show ?thesis using assms r
    unfolding applyCSI_def Let_def w
    by (auto simp: ct_reset_def splice_def slice_to_def slice_from_def tracker_ok_def maxAlloc_def)
qed

lemma long_number_sub: "\<not> long_number (a @ s) \<Longrightarrow> \<not> long_number s"
proof (rule notI)
  assume a: "\<not> long_number (a @ s)" and "long_number s"
  then obtain i where "list_all is_digit (take 7 (drop i s))" "i + 7 \<le> length s" by (auto simp: long_number_def list_ex_iff)
  then have "long_number (a @ s)" unfolding long_number_def by (auto simp: list_ex_iff intro!: bexI [of _ "length a + i"])
  with a show False by contradiction
qed

lemma long_number_drop: "\<not> long_number s \<Longrightarrow> \<not> long_number (drop n s)"
  using long_number_sub [of "take n s" "drop n s"] by simp

lemma consumeEscape_ok:
  assumes "tracker_ok t" and "int (length (ct_line t)) + 10 ^ 6 \<le> maxAlloc" and "\<not> long_number seq"
  shows "\<exists>n t'. consumeEscape seq t = Some (n, t') \<and> tracker_ok t' \<and> length (ct_line t') \<le> length (ct_line t) + 10 ^ 6"
proof (cases "esc_length seq")
  case (Some n)
  let ?p = "take (n - 3) (drop 2 seq)"
  have s: "seq = take 2 seq @ ?p @ drop (n - 3) (drop 2 seq)" by (metis append_take_drop_id)
  have "0 \<le> csiParam ?p 0" "0 \<le> csiParam ?p 1" "csiParam ?p 1 < 10 ^ 6"
    using param_range [OF assms(3) s] by auto
  from applyCSI_ok [OF assms(1,2) this] Some assms(1) show ?thesis
    by (cases "take 1 (drop 1 seq) = ''[''") (auto simp: consumeEscape_def)
qed (use assms in \<open>simp add: consumeEscape_def\<close>)

lemma feed_loop_ok:
  "tracker_ok t \<Longrightarrow> int (length (ct_line t)) + 10 ^ 6 * int (length s) \<le> maxAlloc \<Longrightarrow> \<not> long_number s \<Longrightarrow>
     \<exists>t'. feed_loop s t = Some t' \<and> tracker_ok t' \<and> int (length (ct_line t')) \<le> int (length (ct_line t)) + 10 ^ 6 * int (length s)"
proof (induction s t rule: feed_loop.induct)
  case (1 t)
  then show ?case by simp
next
  case (2 c r t)
  have room: "int (length (ct_line t)) + 10 ^ 6 \<le> maxAlloc" using 2(4) by simp
  show ?case
  proof (cases "c = ESC")
    case True
    obtain n t' where t': "consumeEscape (c # r) t = Some (n, t')" "tracker_ok t'" "length (ct_line t') \<le> length (ct_line t) + 10 ^ 6"
      using consumeEscape_ok [OF 2(3) room 2(5)] by blast
    show ?thesis
    proof (cases n)
      case None
      with t' True show ?thesis by (auto simp: feed_loop.simps(2) tracker_ok_def)
    next
      case (Some k)
      then have k: "2 \<le> k" using t'(1) consumeEscape_pos by blast
      then have len: "length (drop k (c # r)) \<le> length r" by simp
      then have len': "(10 :: int) ^ 6 * int (length (drop k (c # r))) \<le> 10 ^ 6 * int (length r)" by simp
      have "tracker_ok t' \<Longrightarrow> int (length (ct_line t')) + 10 ^ 6 * int (length (drop k (c # r))) \<le> maxAlloc \<Longrightarrow>
          \<not> long_number (drop k (c # r)) \<Longrightarrow> \<exists>u. feed_loop (drop k (c # r)) t' = Some u \<and> tracker_ok u
            \<and> int (length (ct_line u)) \<le> int (length (ct_line t')) + 10 ^ 6 * int (length (drop k (c # r)))"
        using 2(1) [OF True] t'(1) Some by blast
      moreover have "int (length (ct_line t')) + 10 ^ 6 * int (length (drop k (c # r))) \<le> maxAlloc"
        using t'(3) len' 2(4) by simp
      ultimately obtain u where u: "feed_loop (drop k (c # r)) t' = Some u" "tracker_ok u"
          "int (length (ct_line u)) \<le> int (length (ct_line t')) + 10 ^ 6 * int (length (drop k (c # r)))"
        using t'(2) long_number_drop [OF 2(5), of k] by blast
      have "feed_loop (c # r) t = Some u" using u(1) t'(1) Some True by (simp add: feed_loop.simps(2))
      moreover have "int (length (ct_line u)) \<le> int (length (ct_line t)) + 10 ^ 6 * int (length (c # r))"
        using u(3) t'(3) len' by simp
      ultimately show ?thesis using u(2) by blast
    qed
  next
    case False
    obtain t' where t': "feedByte c t = Some t'" "tracker_ok t'" "length (ct_line t') \<le> length (ct_line t) + 1"
      using feedByte_ok [OF 2(3), of c] room by auto
    have "\<not> long_number r" using long_number_sub [of "[c]" r] 2(5) by simp
    with 2(2) [OF False t'(1) t'(2)] t' 2(4) False show ?thesis by (auto simp: feed_loop.simps(2))
  qed
qed

text \<open>
  C37. On output whose numbers have at most six digits the tracker never panics, and its cursor
  stays between the ends of the line: no index of its code is out of range.
\<close>

theorem tracker_safe_on_short_numbers:
  assumes "tracker_ok t" and "\<not> long_number (ct_escBuf t @ p)"
    and "int (length (ct_line t)) + 10 ^ 6 * int (length (ct_escBuf t @ p)) \<le> maxAlloc"
  shows "\<exists>t'. feed p t = Some t' \<and> 0 \<le> ct_col t' \<and> ct_col t' \<le> int (length (ct_line t'))"
proof -
  have "feed p t = feed_loop (ct_escBuf t @ p) (t\<lparr>ct_escBuf := []\<rparr>)" by (cases "ct_escBuf t") (simp_all add: feed_def)
  moreover have "tracker_ok (t\<lparr>ct_escBuf := []\<rparr>)" using assms(1) by (simp add: tracker_ok_def)
  ultimately show ?thesis using feed_loop_ok [of "t\<lparr>ct_escBuf := []\<rparr>" "ct_escBuf t @ p"] assms(2,3) by (auto simp: tracker_ok_def)
qed

definition demo_tracker :: commandLineTracker where
  "demo_tracker = \<lparr>ct_line = ''ls'', ct_col = 2, ct_escBuf = []\<rparr>"

theorem tracker_safe_on_short_numbers_witness:
  "\<exists>t'. feed ([ESC] @ ''[1Dx'') demo_tracker = Some t' \<and> 0 \<le> ct_col t' \<and> ct_col t' \<le> int (length (ct_line t'))"
  using tracker_safe_on_short_numbers [of demo_tracker "[ESC] @ ''[1Dx''"]
  by (simp add: demo_tracker_def tracker_ok_def long_number_def ESC_def maxAlloc_def)

lemma feed_csi:
  assumes "ct_escBuf t = []" and "list_all (\<lambda>c. \<not> isCSIFinal c) params" and "isCSIFinal cmd"
  shows "feed (ESC # CHR ''['' # params @ cmd # rest) t = Option.bind (applyCSI cmd params t) (feed_loop rest)"
proof -
  have e: "csi_end (params @ cmd # rest) = Some (Suc (length params))"
    using assms(2,3) by (induction params) auto
  have l: "esc_length (ESC # CHR ''['' # params @ cmd # rest) = Some (3 + length params)"
    by (simp add: esc_length_def e)
  have "consumeEscape (ESC # CHR ''['' # params @ cmd # rest) t =
      map_option (\<lambda>t'. (Some (3 + length params), t')) (applyCSI cmd params t)"
    unfolding consumeEscape_def l by (simp add: nth_append)
  moreover have "feed (ESC # CHR ''['' # params @ cmd # rest) t = feed_loop (ESC # CHR ''['' # params @ cmd # rest) t"
    using assms(1) by (simp add: feed_def empty_escBuf)
  moreover have "drop (3 + length params) (ESC # CHR ''['' # params @ cmd # rest) = rest" by (simp add: numeral_3_eq_3)
  ultimately show ?thesis by (cases "applyCSI cmd params t") (simp_all add: feed_loop.simps(2) del: drop_Cons')
qed

lemma csi_big [simp]: "csiParam ''9223372036854775807'' d = 9223372036854775807"
  by (simp add: csiParam_def is_digit_def digit_val_def wrap64_id)

text \<open>
  C36. Output of the target can make the tracker panic: when the cursor is not at the start of the
  line, a cursor-forward sequence with the largest 64-bit number makes the column negative, and
  the next printable character indexes the line with it.
\<close>

theorem cursor_overflow_panics:
  assumes "ct_escBuf t = []" and "0 < ct_col t" and "ct_col t \<le> int (length (ct_line t))" and "int (length (ct_line t)) \<le> maxAlloc"
    and "32 \<le> byte c" and "byte c \<noteq> 127"
  shows "feed (ESC # ''[9223372036854775807C'' @ [c]) t = None"
proof -
  have w: "wrap64 (ct_col t + 9223372036854775807) = ct_col t - 9223372036854775809"
  proof -
    have "wrap64 (ct_col t + 9223372036854775807) = wrap64 (ct_col t - 9223372036854775809)"
      unfolding wrap64_def signed_take_bit_eq_iff_take_bit_eq take_bit_eq_mod by (simp add: mod_eq_dvd_iff)
    also have "\<dots> = ct_col t - 9223372036854775809" using assms by (intro wrap64_id) (auto simp: maxAlloc_def)
    finally show ?thesis .
  qed
  have "applyCSI (CHR ''C'') ''9223372036854775807'' t = Some (t\<lparr>ct_col := ct_col t - 9223372036854775809\<rparr>)"
    using assms by (simp add: applyCSI_def w maxAlloc_def)
  moreover have "c \<noteq> ESC" "c \<noteq> CHR 0x0D" "c \<noteq> CHR 0x0A" "c \<noteq> CHR 0x07" "c \<noteq> CHR 0x08" "c \<noteq> CHR 0x7F" "c \<noteq> CHR 0x09"
    using assms(5,6) by (auto simp: ESC_def byte_def)
  then have "feed_loop [c] (t\<lparr>ct_col := ct_col t - 9223372036854775809\<rparr>) = None"
    using assms by (simp add: feed_loop.simps(2) feedByte_def insertByte_def maxAlloc_def)
  ultimately show ?thesis
    using feed_csi [OF assms(1), of "''9223372036854775807''" "CHR ''C''" "[c]"] by (simp add: isCSIFinal_def byte_def)
qed

theorem cursor_overflow_panics_witness:
  "feed (ESC # ''[9223372036854775807C'' @ ''x'') demo_tracker = None"
  using cursor_overflow_panics [of demo_tracker "CHR ''x''"] by (simp add: demo_tracker_def maxAlloc_def byte_def)

text \<open>Inserting too many blanks asks for more memory than there is.\<close>

lemma insert_blanks_panics:
  assumes "ct_escBuf t = []"
  shows "feed (ESC # ''[999999999999999@'') t = None"
proof -
  have "csiParam ''999999999999999'' 1 = 999999999999999" by (simp add: csiParam_def is_digit_def digit_val_def wrap64_id)
  then have "applyCSI (CHR ''@'') ''999999999999999'' t = None" by (simp add: applyCSI_def maxAlloc_def)
  then show ?thesis
    using feed_csi [OF assms, of "''999999999999999''" "CHR ''@''" "[]"] by (simp add: isCSIFinal_def byte_def)
qed

text \<open>The selection of a character set (ESC and a byte below 0x40) is never seen as complete.\<close>

lemma charset_never_completes: "esc_length (ESC # CHR ''('' # s) = None"
  by (simp add: esc_length_def isCSIFinal_def byte_def)

subsection \<open>Secrets\<close>

lemma RecordInput_text:
  "list_all (\<lambda>c. 32 \<le> byte c) p \<Longrightarrow> RecordInput redact now (p @ q) r = RecordInput redact now q (r\<lparr>cr_buf := cr_buf r @ p\<rparr>)"
proof (induction p arbitrary: r)
  case Nil
  then show ?case by simp
next
  case (Cons c p)
  then have "c \<noteq> CHR 0x0D" "c \<noteq> CHR 0x0A" "c \<noteq> CHR 0x09" "\<not> byte c < 32" by (auto simp: byte_def)
  with Cons show ?case by simp
qed

text \<open>Input to which the terminal showed nothing at all is dropped.\<close>

lemma silent_input_dropped: "trim_space echo = [] \<Longrightarrow> trim_space stdin \<noteq> [] \<Longrightarrow> mergeCommandLine stdin echo = []"
  by (simp add: mergeCommandLine_def)

text \<open>
  A secret typed at a prompt is written to the command log when it is longer than the prompt:
  the line is dropped only when the terminal line is empty, and at a prompt it is not.  For every
  printable input that does not occur in the shown line and is longer than it, and that is not
  taken for a prompt, the input itself is stored (after redaction of known command-line flags).
\<close>

theorem long_secret_logged:
  assumes "trim_space pw = pw" and "pw \<noteq> []" and "list_all (\<lambda>c. 32 \<le> byte c) pw" and "\<not> isNoiseCommandLogLine pw"
    and "cr_buf r = []" and "currentLine (cr_echo r) = shown" and "shown \<noteq> []"
    and "last_index shown pw = None" and "length shown < length pw"
  shows "cr_rows (RecordInput redact now (pw @ [CHR 0x0D]) r) = cr_rows r @
    [\<lparr>cl_session_id = cr_sessionID r, cl_user_id = cr_userID r, cl_target_id = cr_targetID r, cl_time = now,
      cl_line_text = redact pw\<rparr>]"
proof -
  have "trim_space shown = shown" using assms(6) by (auto simp: currentLine_def)
  then have "mergeCommandLine pw shown = pw"
    using assms by (simp add: mergeCommandLine_def)
  then show ?thesis using assms
    by (simp add: RecordInput_text flushLine_def appendLine_def Let_def)
qed

definition demo_recorder :: commandLogRecorder where
  "demo_recorder = (newCommandLogRecorder [] ''s'' ''alice'' ''web'')\<lparr>cr_echo := \<lparr>ct_line = ''Password: '', ct_col = 10, ct_escBuf = []\<rparr>\<rparr>"

theorem long_secret_logged_witness:
  "map cl_line_text (cr_rows (RecordInput (\<lambda>s. s) 1 (''hunter2hunter2'' @ [CHR 0x0D]) demo_recorder)) = [''hunter2hunter2'']"
proof -
  let ?pw = "''hunter2hunter2''"
  have t: "trim_space ?pw = ?pw" by (simp add: trim_space_visible visible_def)
  have strip: "stripShellPrompt ?pw = ?pw"
    unfolding stripShellPrompt_def t Let_def by (simp add: last_index_def index_of.simps has_prefix_def)
  have noise: "\<not> isNoiseCommandLogLine ?pw"
    unfolding isNoiseCommandLogLine_def t Let_def strip
    by (simp add: ESC_def prompt_noise_def re_space_def has_suffix_def has_prefix_def)
  have shown: "currentLine (cr_echo demo_recorder) = ''Password:''"
    by (simp add: currentLine_def demo_recorder_def newCommandLogRecorder_def trim_space_def trim_left_def trim_right_def
        strip_front.simps space_runes_def has_prefix_def)
  have idx: "last_index ''Password:'' ?pw = None" by (simp add: last_index_def index_of.simps has_prefix_def)
  have buf: "cr_buf demo_recorder = []" "cr_rows demo_recorder = []" by (simp_all add: demo_recorder_def newCommandLogRecorder_def)
  have ascii: "list_all (\<lambda>c. 32 \<le> byte c) ?pw" by (simp add: byte_def)
  have "?pw \<noteq> []" "''Password:'' \<noteq> []" "length ''Password:'' < length ?pw" by simp_all
  note eq = long_secret_logged [OF t this(1) ascii noise buf(1) shown this(2) idx this(3), of "\<lambda>s. s" 1]
  show ?thesis unfolding eq by (simp add: buf(2))
qed

end
