(* ===== verification/Account_Admin.thy ===== *)
theory Account_Admin
  imports Session_Manager Sharing_Invitations Request_Guards
begin

text \<open>
  Account administration over HTTP (\<open>src/internal/httpapi/users_handler.go\<close>,
  \<open>users_delete_handler.go\<close>) and the handlers of access requests
  (\<open>access_requests_handler.go\<close>), on top of the account stores, the session managers, the rooms and
  the invitations.  A handler returns its error (status and message key) or its reply, and the new
  state; audit records and the broadcast to event listeners are left out, and one reading of the clock
  serves a request.  The decoded body is an argument, \<open>None\<close> when it does not decode.
\<close>

subsection \<open>State\<close>

text \<open>
  The connections of the command-line gateway (\<open>src/internal/sshd/server.go\<close>): who is logged in
  on which connection, and which connections have been closed.
\<close>

record CLIServer =
  cs_conns :: "(nat, string) gomap"
  cs_closed :: "nat list"

definition CloseConnectionsForUser :: "string \<Rightarrow> CLIServer \<Rightarrow> nat \<times> CLIServer" where
  "CloseConnectionsForUser userID s =
     (let victims = map fst (filter (\<lambda>(_, uid). uid = userID) (cs_conns s))
      in (length victims, s\<lparr>cs_closed := cs_closed s @ victims\<rparr>))"

definition trackConn :: "nat \<Rightarrow> string \<Rightarrow> CLIServer \<Rightarrow> CLIServer" where
  "trackConn c userID s = s\<lparr>cs_conns := AList.update c userID (cs_conns s)\<rparr>"

definition untrackConn :: "nat \<Rightarrow> CLIServer \<Rightarrow> CLIServer" where
  "untrackConn c s = s\<lparr>cs_conns := AList.delete c (cs_conns s)\<rparr>"

text \<open>Optional parts of the application are options: a missing one is a nil pointer of the source.\<close>

record AdminApp =
  aa_db :: AuthDB
  aa_cli :: "CLIServer option"
  aa_terminal :: "Manager option"
  aa_vnc :: "Manager option"
  aa_rooms :: "Registry option"
  aa_invitations :: "SQLiteStore option"

definition internal_error :: http_error where "internal_error = (500, ''internal error'')"

subsection \<open>Stopping sessions\<close>

text \<open>
  A whole \<open>Stop\<close> call.  When \<open>ends\<close>, the goroutine of the session finishes while \<open>Stop\<close> waits;
  otherwise the wait times out.
\<close>

definition mgr_Stop :: "bool \<Rightarrow> string \<Rightarrow> Manager \<Rightarrow> bool \<times> Manager" where
  "mgr_Stop ends sid m = (case stop_begin sid m of
     (None, m) \<Rightarrow> (True, m)
   | (Some ref, m) \<Rightarrow>
       let m = (if ends then goroutine_close ref (goroutine_remove ref m) else m)
       in case stop_select sid ref (\<not> ends) m of Some r \<Rightarrow> r | None \<Rightarrow> (False, m))"

definition stop_one :: "(string \<Rightarrow> bool) \<Rightarrow> string \<Rightarrow> Manager \<times> Registry option \<Rightarrow> Manager \<times> Registry option" where
  "stop_one ends sid x = (case x of (m, rooms) \<Rightarrow> (snd (mgr_Stop (ends sid) sid m), map_option (reg_Remove sid) rooms))"

definition stop_owned :: "(string \<Rightarrow> bool) \<Rightarrow> string \<Rightarrow> Manager \<Rightarrow> Registry option \<Rightarrow> nat \<times> Manager \<times> Registry option" where
  "stop_owned ends userID m rooms =
     (let ids = map (\<lambda>ref. s_id (m_heap m ! ref)) (ActiveSessionsForUser userID m)
      in (length ids, fold (stop_one ends) ids (m, rooms)))"

definition stopSessionsOwnedBy :: "(string \<Rightarrow> bool) \<Rightarrow> string \<Rightarrow> AdminApp \<Rightarrow> nat \<times> AdminApp" where
  "stopSessionsOwnedBy ends userID s =
     (let (n1, cli) = (case aa_cli s of None \<Rightarrow> (0, None)
            | Some c \<Rightarrow> (case CloseConnectionsForUser userID c of (n, c) \<Rightarrow> (n, Some c)));
          (n2, term, rooms) = (case aa_terminal s of None \<Rightarrow> (0, None, aa_rooms s)
            | Some m \<Rightarrow> (case stop_owned ends userID m (aa_rooms s) of (n, m, rs) \<Rightarrow> (n, Some m, rs)));
          (n3, vnc, rooms) = (case aa_vnc s of None \<Rightarrow> (0, None, rooms)
            | Some m \<Rightarrow> (case stop_owned ends userID m rooms of (n, m, rs) \<Rightarrow> (n, Some m, rs)))
      in (n1 + n2 + n3, s\<lparr>aa_cli := cli, aa_terminal := term, aa_vnc := vnc, aa_rooms := rooms\<rparr>))"

definition revokeInvitationsForUser :: "string \<Rightarrow> instant \<Rightarrow> AdminApp \<Rightarrow> nat \<times> AdminApp" where
  "revokeInvitationsForUser userID now s = (case aa_invitations s of None \<Rightarrow> (0, s)
     | Some st \<Rightarrow>
       (case sql_update (\<lambda>c. c_revoked_at c = None \<and> (c_owner_user_id c = userID \<or> c_invitee_user_id c = Some userID))
              (\<lambda>c. c\<lparr>c_revoked_at := Some (unix now)\<rparr>) (st_invitations st) of
          (n, rows) \<Rightarrow> (n, s\<lparr>aa_invitations := Some (st\<lparr>st_invitations := rows\<rparr>)\<rparr>)))"

subsection \<open>Users\<close>

definition countAdmins :: "AuthDB \<Rightarrow> nat" where
  "countAdmins db = length (filter (\<lambda>u. u_Role u = RoleAdmin \<and> \<not> u_Disabled u) (ListUsers 1000 0 db))"

text \<open>The guard every administration handler starts with, and the identity it acts under.\<close>

definition as_admin ::
  "guard_env \<Rightarrow> http_req \<Rightarrow> instant \<Rightarrow> AdminApp \<Rightarrow> (AdminApp \<Rightarrow> (http_error + 'a) \<times> AdminApp) \<Rightarrow> (http_error + 'a) \<times> AdminApp" where
  "as_admin env r now s k = (case requireAdmin env r now (aa_db s) of
     (Inl e, db) \<Rightarrow> (Inl e, s\<lparr>aa_db := db\<rparr>)
   | (Inr _, db) \<Rightarrow> k (s\<lparr>aa_db := db\<rparr>))"

definition as_caller ::
  "guard_env \<Rightarrow> http_req \<Rightarrow> instant \<Rightarrow> AdminApp \<Rightarrow> (string \<Rightarrow> AdminApp \<Rightarrow> (http_error + 'a) \<times> AdminApp) \<Rightarrow> (http_error + 'a) \<times> AdminApp" where
  "as_caller env r now s k = (case currentUserID env r now (aa_db s) of (uid, db) \<Rightarrow> k uid (s\<lparr>aa_db := db\<rparr>))"

definition handleDeleteUser ::
  "guard_env \<Rightarrow> (string \<Rightarrow> bool) \<Rightarrow> http_req \<Rightarrow> string \<Rightarrow> instant \<Rightarrow> AdminApp \<Rightarrow> (http_error + nat \<times> nat) \<times> AdminApp" where
  "handleDeleteUser env ends r user_id now s = as_admin env r now s (\<lambda>s.
     let targetUserID = trim_space user_id in
     if targetUserID = [] then (Inl (400, ''users.idRequired''), s)
     else as_caller env r now s (\<lambda>actor s.
       if targetUserID = trim_space actor then (Inl (400, ''users.cannotDeleteSelf''), s)
       else case GetByID targetUserID (aa_db s) of
         Inl _ \<Rightarrow> (Inl (404, ''users.userNotFound''), s)
       | Inr target \<Rightarrow>
         if u_Role target = RoleAdmin \<and> countAdmins (aa_db s) \<le> 1 then (Inl (409, ''users.lastAdmin''), s)
         else case stopSessionsOwnedBy ends targetUserID s of (stopped, s) \<Rightarrow>
           (case DeleteUser targetUserID (aa_db s) of
              Inl e \<Rightarrow> (Inl (if e = ErrUserNotFound then (404, ''users.userNotFound'') else internal_error), s)
            | Inr db \<Rightarrow> (case revokeInvitationsForUser targetUserID now (s\<lparr>aa_db := db\<rparr>) of
                (revoked, s) \<Rightarrow> (Inr (stopped, revoked), s)))))"

record createUserRequest =
  cu_ID :: string
  cu_Username :: string
  cu_Password :: string
  cu_Role :: string

fun slug_bytes :: "string \<Rightarrow> string \<Rightarrow> string" where
  "slug_bytes b [] = b"
| "slug_bytes b (c # s) = slug_bytes (
     if between 65 90 (byte c) then b @ [lower_char c]
     else if between 97 122 (byte c) \<or> between 48 57 (byte c) then b @ [c]
     else if c = CHR '' '' \<or> c = CHR ''-'' \<or> c = CHR ''_'' then (if b \<noteq> [] \<and> last b \<noteq> CHR ''-'' then b @ ''-'' else b)
     else b) s"

definition slugID :: "string \<Rightarrow> string" where
  "slugID s = (let b = slug_bytes [] s in
     if b = [] then ''target'' else if last b = CHR ''-'' then butlast b else b)"

fun create_user_error :: "auth_error \<Rightarrow> http_error" where
  "create_user_error ErrUserExists = (409, ''users.alreadyExists'')"
| "create_user_error ErrIDOrUsernameEmpty = (400, ''validation.idUsernameEmpty'')"
| "create_user_error ErrEmptyPassword = (400, ''auth.passwordEmpty'')"
| "create_user_error ErrPasswordTooShort = (400, ''auth.passwordTooShort'')"
| "create_user_error ErrPasswordNoUpper = (400, ''auth.passwordNoUpper'')"
| "create_user_error ErrPasswordNoLower = (400, ''auth.passwordNoLower'')"
| "create_user_error ErrPasswordNoDigit = (400, ''auth.passwordNoDigit'')"
| "create_user_error ErrPasswordNoSpecial = (400, ''auth.passwordNoSpecial'')"
| "create_user_error _ = internal_error"

definition handleCreateUser ::
  "guard_env \<Rightarrow> string \<Rightarrow> http_req \<Rightarrow> createUserRequest option \<Rightarrow> instant \<Rightarrow> AdminApp \<Rightarrow> (http_error + User) \<times> AdminApp" where
  "handleCreateUser env salt r body now s = as_admin env r now s (\<lambda>s.
     case body of None \<Rightarrow> (Inl (400, ''common.invalidRequestBody''), s)
     | Some req \<Rightarrow>
       let username = trim_space (cu_Username req); uid = trim_space (cu_ID req); role = trim_space (cu_Role req) in
       if username = [] then (Inl (400, ''users.usernameRequired''), s)
       else if cu_Password req = [] then (Inl (400, ''users.passwordRequired''), s)
       else let uid = (if uid = [] then slugID username else uid);
                role = (if role \<noteq> RoleAdmin \<and> role \<noteq> RoleUser then RoleUser else role)
         in case CreateUser (ge_auth env) salt uid username (cu_Password req) role (aa_db s) of
              Inl e \<Rightarrow> (Inl (create_user_error e), s)
            | Inr (u, db) \<Rightarrow> (Inr u, s\<lparr>aa_db := db\<rparr>))"

record updateUserRequest =
  uq_Role :: "string option"
  uq_Username :: "string option"
  uq_Disabled :: "bool option"

text \<open>The three parts of \<open>handleUpdateUser\<close>; each passes on the user it has read and changed.  The change of
  role is a guard, which counts the administrators, and then an UPDATE.\<close>

definition role_guard :: "guard_env \<Rightarrow> http_req \<Rightarrow> string \<Rightarrow> string \<Rightarrow> instant \<Rightarrow> AdminApp \<Rightarrow> (http_error + unit) \<times> AdminApp" where
  "role_guard env r userID role now s = as_caller env r now s (\<lambda>actor s.
     if role = RoleUser \<and> userID = actor then (Inl (400, ''users.cannotDemoteSelf''), s)
     else if role = RoleUser \<and> countAdmins (aa_db s) \<le> 1 then (Inl (409, ''users.lastAdminRole''), s)
     else (Inr (), s))"

definition role_store :: "string \<Rightarrow> string \<Rightarrow> User \<Rightarrow> AdminApp \<Rightarrow> (http_error + User) \<times> AdminApp" where
  "role_store userID role target s = (case UpdateRole userID role (aa_db s) of
     Inl e \<Rightarrow> (Inl (if e = ErrUserNotFound then (404, ''users.userNotFound'')
                  else if e = ErrInvalidRole then (400, ''users.invalidRole'') else internal_error), s)
   | Inr db \<Rightarrow> (Inr (target\<lparr>u_Role := role\<rparr>), s\<lparr>aa_db := db\<rparr>))"

definition and_then :: "('e + 'a) \<times> 's \<Rightarrow> ('a \<Rightarrow> 's \<Rightarrow> ('e + 'b) \<times> 's) \<Rightarrow> ('e + 'b) \<times> 's" where
  "and_then x k = (case x of (Inl e, s) \<Rightarrow> (Inl e, s) | (Inr a, s) \<Rightarrow> k a s)"

definition update_role ::
  "guard_env \<Rightarrow> http_req \<Rightarrow> string \<Rightarrow> instant \<Rightarrow> updateUserRequest \<Rightarrow> User \<Rightarrow> AdminApp \<Rightarrow> (http_error + User) \<times> AdminApp" where
  "update_role env r userID now req target s = (case uq_Role req of None \<Rightarrow> (Inr target, s)
     | Some raw \<Rightarrow>
       let role = trim_space raw; current = (if u_Role target = [] then RoleUser else u_Role target) in
       if role \<noteq> RoleAdmin \<and> role \<noteq> RoleUser then (Inl (400, ''users.invalidRole''), s)
       else if role = current then (Inr target, s)
       else and_then (role_guard env r userID role now s) (\<lambda>_. role_store userID role target))"

definition update_name ::
  "string \<Rightarrow> updateUserRequest \<Rightarrow> User \<Rightarrow> AdminApp \<Rightarrow> (http_error + User) \<times> AdminApp" where
  "update_name userID req target s = (case uq_Username req of None \<Rightarrow> (Inr target, s)
     | Some raw \<Rightarrow>
       let name = trim_space raw in
       if name = [] \<or> length name > 64 then (Inl (400, ''users.usernameInvalid''), s)
       else if name = u_Username target then (Inr target, s)
       else case UpdateUsername userID name (aa_db s) of
         Inl e \<Rightarrow> (Inl (if e = ErrUserExists then (409, ''users.alreadyExists'')
                      else if e = ErrUserNotFound then (404, ''users.userNotFound'')
                      else if e = ErrIDOrUsernameEmpty then (400, ''users.usernameInvalid'') else internal_error), s)
       | Inr db \<Rightarrow> (Inr (target\<lparr>u_Username := name\<rparr>), s\<lparr>aa_db := db\<rparr>))"

definition update_disabled ::
  "guard_env \<Rightarrow> (string \<Rightarrow> bool) \<Rightarrow> http_req \<Rightarrow> string \<Rightarrow> instant \<Rightarrow> updateUserRequest \<Rightarrow> User \<Rightarrow> AdminApp \<Rightarrow> (http_error + User) \<times> AdminApp" where
  "update_disabled env ends r userID now req target s = (case uq_Disabled req of None \<Rightarrow> (Inr target, s)
     | Some d \<Rightarrow>
       if d = u_Disabled target then (Inr target, s)
       else as_caller env r now s (\<lambda>actor s.
         if d \<and> userID = actor then (Inl (400, ''users.cannotDisableSelf''), s)
         else if d \<and> u_Role target = RoleAdmin \<and> countAdmins (aa_db s) \<le> 1 then (Inl (409, ''users.lastAdminDisable''), s)
         else case SetDisabled userID d (aa_db s) of
           Inl _ \<Rightarrow> (Inl internal_error, s)
         | Inr db \<Rightarrow>
           let target = target\<lparr>u_Disabled := d\<rparr>; s = s\<lparr>aa_db := db\<rparr> in
           if d then
             (case stopSessionsOwnedBy ends userID s of (_, s) \<Rightarrow>
               (Inr target, s\<lparr>aa_db := (case DeleteAllForUser (ge_auth env) userID [] (aa_db s) of
                  Inr db \<Rightarrow> db | Inl _ \<Rightarrow> aa_db s)\<rparr>))
           else (Inr target, s)))"

definition handleUpdateUser ::
  "guard_env \<Rightarrow> (string \<Rightarrow> bool) \<Rightarrow> http_req \<Rightarrow> string \<Rightarrow> updateUserRequest option \<Rightarrow> instant \<Rightarrow> AdminApp \<Rightarrow> (http_error + User) \<times> AdminApp" where
  "handleUpdateUser env ends r user_id body now s = as_admin env r now s (\<lambda>s.
     let userID = trim_space user_id in
     if userID = [] then (Inl (400, ''users.idRequired''), s)
     else case body of None \<Rightarrow> (Inl (400, ''common.invalidRequestBody''), s)
     | Some req \<Rightarrow> (case GetByID userID (aa_db s) of
         Inl _ \<Rightarrow> (Inl (404, ''users.userNotFound''), s)
       | Inr target \<Rightarrow>
         and_then (and_then (update_role env r userID now req target s) (update_name userID req))
           (update_disabled env ends r userID now req)))"

definition handleSetUserTags ::
  "guard_env \<Rightarrow> http_req \<Rightarrow> string \<Rightarrow> string list option \<Rightarrow> instant \<Rightarrow> AdminApp \<Rightarrow> (http_error + string list) \<times> AdminApp" where
  "handleSetUserTags env r user_id body now s = as_admin env r now s (\<lambda>s.
     let userID = trim_space user_id in
     if userID = [] then (Inl (400, ''users.idRequired''), s)
     else case body of None \<Rightarrow> (Inl (400, ''common.invalidRequestBody''), s)
     | Some tags \<Rightarrow> (case SetUserTags (ge_auth env) userID tags (aa_db s) of
         (None, db) \<Rightarrow> (Inr tags, s\<lparr>aa_db := db\<rparr>)
       | (Some e, db) \<Rightarrow> (Inl (if e = ErrUserNotFound then (404, ''users.userNotFound'')
             else if e = ErrUserTagLength then (400, ''tags.lengthInvalid'')
             else if e = ErrUserTagChars then (400, ''tags.charsInvalid'') else internal_error), s\<lparr>aa_db := db\<rparr>)))"

subsection \<open>Access requests\<close>

definition accessRequestMaxReason :: nat where "accessRequestMaxReason = 500"
definition accessRequestMaxDuration :: int where "accessRequestMaxDuration = 365 * 24 * 3600"

record createAccessRequestRequest =
  cr_GroupID :: string
  cr_Reason :: string
  cr_DurationSeconds :: int

record decideAccessRequestRequest =
  dr_DurationSeconds :: "int option"
  dr_Note :: string

definition limit_opts :: "int \<Rightarrow> ListOpts" where
  "limit_opts n = \<lparr>lo_Limit = n, lo_Offset = 0, lo_AfterID = []\<rparr>"

text \<open>The random token the identifier is cut from is an argument.\<close>

definition handleCreateAccessRequest ::
  "guard_env \<Rightarrow> string \<Rightarrow> http_req \<Rightarrow> createAccessRequestRequest option \<Rightarrow> instant \<Rightarrow> AdminApp \<Rightarrow> (http_error + AccessRequest) \<times> AdminApp" where
  "handleCreateAccessRequest env token r body now s = as_caller env r now s (\<lambda>uid s.
     let userID = trim_space uid in
     if userID = [] then (Inl (401, ''common.unauthorized''), s)
     else case body of None \<Rightarrow> (Inl (400, ''common.invalidRequestBody''), s)
     | Some req \<Rightarrow>
       let groupID = trim_space (cr_GroupID req); reason = trim_space (cr_Reason req) in
       if groupID = [] then (Inl (400, ''groups.idRequired''), s)
       else if length reason > accessRequestMaxReason then (Inl (400, ''accessRequests.reasonTooLong''), s)
       else if cr_DurationSeconds req < 0 \<or> cr_DurationSeconds req > accessRequestMaxDuration
         then (Inl (400, ''accessRequests.durationInvalid''), s)
       else case grp_Get groupID (a_access (aa_db s)) of
         Inl e \<Rightarrow> (Inl (if e = ErrGroupNotFound then (404, ''groups.notFound'') else internal_error), s)
       | Inr _ \<Rightarrow>
         if list_ex (\<lambda>g. g = groupID) (GroupIDsForUser userID (Some (limit_opts 1000)) (ge_list_limit env) now (a_access (aa_db s)))
         then (Inl (409, ''accessRequests.alreadyHasAccess''), s)
         else if HasPending userID groupID (aa_db s) then (Inl (409, ''accessRequests.pendingExists''), s)
         else let ar = \<lparr>ar_ID = take 22 token, ar_UserID = userID, ar_GroupID = groupID, ar_Reason = reason,
                  ar_DurationSeconds = cr_DurationSeconds req, ar_Status = RequestPending, ar_CreatedAt = now,
                  ar_DecidedAt = None, ar_DecidedBy = [], ar_DecisionNote = [], ar_ExpiresAt = None\<rparr>
           in case req_Create ar now (aa_db s) of
                Inl _ \<Rightarrow> (Inl internal_error, s)
              | Inr db \<Rightarrow> (Inr ar, s\<lparr>aa_db := db\<rparr>))"

definition handleListAccessRequests ::
  "guard_env \<Rightarrow> http_req \<Rightarrow> string \<Rightarrow> string \<Rightarrow> instant \<Rightarrow> AdminApp \<Rightarrow> (http_error + AccessRequest list) \<times> AdminApp" where
  "handleListAccessRequests env r status mine now s = as_caller env r now s (\<lambda>uid s.
     let userID = trim_space uid in
     if userID = [] then (Inl (401, ''common.unauthorized''), s)
     else case currentUserIsAdmin env r now (aa_db s) of (isAdmin, db) \<Rightarrow>
       let s = s\<lparr>aa_db := db\<rparr>;
           f = \<lparr>af_UserID = (if \<not> isAdmin \<or> mine = ''1'' then userID else []), af_Status = trim_space status, af_Limit = 0\<rparr>
       in (Inr (req_List f db), s))"

definition loadPendingRequest :: "string \<Rightarrow> AuthDB \<Rightarrow> http_error + AccessRequest" where
  "loadPendingRequest raw db =
     (let i = trim_space raw in
      if i = [] then Inl (404, ''accessRequests.notFound'')
      else case req_Get i db of
        Inl e \<Rightarrow> Inl (if e = ErrRequestNotFound then (404, ''accessRequests.notFound'') else internal_error)
      | Inr ar \<Rightarrow> if ar_Status ar \<noteq> RequestPending then Inl (409, ''accessRequests.notPending'') else Inr ar)"

text \<open>
  The body is read only when the content length is not zero: \<open>None\<close> for no body, \<open>Some None\<close> for one
  that does not decode.
\<close>

definition decision_body :: "decideAccessRequestRequest option option \<Rightarrow> http_error + decideAccessRequestRequest" where
  "decision_body body = (case body of None \<Rightarrow> Inr \<lparr>dr_DurationSeconds = None, dr_Note = []\<rparr>
     | Some None \<Rightarrow> Inl (400, ''common.invalidRequestBody'') | Some (Some req) \<Rightarrow> Inr req)"

definition decide_request ::
  "AccessRequest \<Rightarrow> AccessRequestStatus \<Rightarrow> string \<Rightarrow> string \<Rightarrow> instant option \<Rightarrow> instant \<Rightarrow> AdminApp \<Rightarrow> (http_error + AccessRequest) \<times> AdminApp" where
  "decide_request ar status decidedBy reason expiresAt now s =
     (case req_Decide (ar_ID ar) status decidedBy reason expiresAt now (aa_db s) of
        Inl e \<Rightarrow> (Inl (if e = ErrRequestNotPending then (409, ''accessRequests.notPending'') else internal_error), s)
      | Inr db \<Rightarrow> (Inr (case req_Get (ar_ID ar) db of Inr updated \<Rightarrow> updated | Inl _ \<Rightarrow> ar), s\<lparr>aa_db := db\<rparr>))"

definition approve_grant :: "AccessRequest \<Rightarrow> instant option \<Rightarrow> AdminApp \<Rightarrow> (http_error + unit) \<times> AdminApp" where
  "approve_grant ar expiresAt s =
     (case AddUserToGroupUntil (ar_UserID ar) (ar_GroupID ar) expiresAt (a_access (aa_db s)) of
        Inl e \<Rightarrow> (Inl (if e = ErrGroupNotFound then (404, ''groups.notFound'') else internal_error), s)
      | Inr acc \<Rightarrow> (Inr (), s\<lparr>aa_db := (aa_db s)\<lparr>a_access := acc\<rparr>\<rparr>))"

definition approval_expiry :: "int \<Rightarrow> instant \<Rightarrow> instant option" where
  "approval_expiry duration now = (if duration > 0 then Some (now + duration * second) else None)"

definition handleApproveAccessRequest ::
  "guard_env \<Rightarrow> http_req \<Rightarrow> string \<Rightarrow> decideAccessRequestRequest option option \<Rightarrow> instant \<Rightarrow> AdminApp \<Rightarrow> (http_error + AccessRequest) \<times> AdminApp" where
  "handleApproveAccessRequest env r raw body now s = as_admin env r now s (\<lambda>s.
     case loadPendingRequest raw (aa_db s) of Inl e \<Rightarrow> (Inl e, s)
     | Inr ar \<Rightarrow> (case decision_body body of Inl e \<Rightarrow> (Inl e, s)
       | Inr req \<Rightarrow>
         let duration = (case dr_DurationSeconds req of Some d \<Rightarrow> d | None \<Rightarrow> ar_DurationSeconds ar) in
         if duration < 0 \<or> duration > accessRequestMaxDuration then (Inl (400, ''accessRequests.durationInvalid''), s)
         else let expiresAt = approval_expiry duration now in
           as_caller env r now s (\<lambda>adminID s. and_then (approve_grant ar expiresAt s)
             (\<lambda>_. decide_request ar RequestApproved adminID (trim_space (dr_Note req)) expiresAt now))))"

definition handleDenyAccessRequest ::
  "guard_env \<Rightarrow> http_req \<Rightarrow> string \<Rightarrow> decideAccessRequestRequest option option \<Rightarrow> instant \<Rightarrow> AdminApp \<Rightarrow> (http_error + AccessRequest) \<times> AdminApp" where
  "handleDenyAccessRequest env r raw body now s = as_admin env r now s (\<lambda>s.
     case loadPendingRequest raw (aa_db s) of Inl e \<Rightarrow> (Inl e, s)
     | Inr ar \<Rightarrow> (case decision_body body of Inl e \<Rightarrow> (Inl e, s)
       | Inr req \<Rightarrow> as_caller env r now s (\<lambda>adminID.
           decide_request ar RequestDenied adminID (trim_space (dr_Note req)) None now)))"

definition handleCancelAccessRequest ::
  "guard_env \<Rightarrow> http_req \<Rightarrow> string \<Rightarrow> instant \<Rightarrow> AdminApp \<Rightarrow> (http_error + unit) \<times> AdminApp" where
  "handleCancelAccessRequest env r raw now s = as_caller env r now s (\<lambda>uid s.
     let userID = trim_space uid in
     if userID = [] then (Inl (401, ''common.unauthorized''), s)
     else case loadPendingRequest raw (aa_db s) of Inl e \<Rightarrow> (Inl e, s)
     | Inr ar \<Rightarrow> (case currentUserIsAdmin env r now (aa_db s) of (isAdmin, db) \<Rightarrow>
         let s = s\<lparr>aa_db := db\<rparr> in
         if ar_UserID ar \<noteq> userID \<and> \<not> isAdmin then (Inl (403, ''common.forbidden''), s)
         else and_then (decide_request ar RequestCancelled userID [] None now s) (\<lambda>_ s. (Inr (), s))))"

subsection \<open>Stopping what a user owns\<close>

definition entries_ok :: "Manager \<Rightarrow> bool" where
  "entries_ok m = list_all (entry_ok m) (m_sessions m)"

definition session_owner :: "Manager \<Rightarrow> nat \<Rightarrow> string" where
  "session_owner m ref = Session_Manager.Session.s_UserID (m_heap m ! ref)"

lemma ActiveSessionsForUser_owner:
  "ActiveSessionsForUser u m = map snd (filter (\<lambda>(_, ref). session_owner m ref = u) (m_sessions m))"
  by (simp add: ActiveSessionsForUser_def session_owner_def)

text \<open>What stopping may change: entries go, owners stay.\<close>

definition stopped :: "string set \<Rightarrow> Manager \<Rightarrow> Manager \<Rightarrow> bool" where
  "stopped ids m m' = (m_sessions m' = filter (\<lambda>(k, _). k \<notin> ids) (m_sessions m) \<and> length (m_heap m') = length (m_heap m)
     \<and> (\<forall>i < length (m_heap m). session_owner m' i = session_owner m i) \<and> entries_ok m')"

lemma mgr_Stop_stopped:
  assumes "entries_ok m"
  shows "stopped {sid} m (snd (mgr_Stop e sid m))"
proof (cases "lookup (m_sessions m) sid")
  case None
  then have "filter (\<lambda>(k, _). k \<notin> {sid}) (m_sessions m) = m_sessions m"
    by (intro filter_True) (auto simp: map_of_eq_None_iff image_iff)
  then show ?thesis using assms None by (simp add: mgr_Stop_def stop_begin_def stopped_def)
next
  case (Some ref)
  then have "entry_ok m (sid, ref)" using assms map_of_SomeD by (fastforce simp: entries_ok_def list_all_iff)
  then show ?thesis using assms Some
    by (auto simp: mgr_Stop_def stop_begin_def stop_select_def goroutine_close_def goroutine_remove_def Let_def entries_ok_def
        list_all_iff entry_ok_def AList.delete_eq stopped_def session_owner_def nth_list_update upd_session_def
        intro!: filter_cong)
qed

lemma stop_fold:
  assumes "entries_ok m" "fold (stop_one ends) ids (m, rooms) = (m', rooms')"
  shows "stopped (set ids) m m' \<and> rooms' = map_option (filter (\<lambda>(k, _). k \<notin> set ids)) rooms"
  using assms
proof (induction ids arbitrary: m rooms)
  case Nil
  then show ?case by (simp add: stopped_def option.map_ident_strong case_prod_beta)
next
  case (Cons sid ids)
  let ?m = "snd (mgr_Stop (ends sid) sid m)"
  have one: "stopped {sid} m ?m" by (rule mgr_Stop_stopped [OF Cons.prems(1)])
  have "stopped (set ids) ?m m' \<and> rooms' = map_option (filter (\<lambda>(k, _). k \<notin> set ids)) (map_option (reg_Remove sid) rooms)"
    using one Cons.prems(2) by (intro Cons.IH) (simp_all add: stopped_def stop_one_def)
  then show ?case using one
    by (auto simp: stopped_def reg_Remove_def AList.delete_eq option.map_comp comp_def case_prod_beta conj_commute intro!: option.map_cong filter_cong)
qed

lemma stop_owned_effect:
  assumes "entries_ok m" "stop_owned ends u m rooms = (n, m', rooms')"
  defines "ids \<equiv> fst ` {e \<in> set (m_sessions m). session_owner m (snd e) = u}"
  shows "ActiveSessionsForUser u m' = []"
    and "rooms' = map_option (filter (\<lambda>(k, _). k \<notin> ids)) rooms"
    and "m_sessions m' = filter (\<lambda>(k, _). k \<notin> ids) (m_sessions m)"
proof -
  let ?ids = "map (\<lambda>ref. s_id (m_heap m ! ref)) (ActiveSessionsForUser u m)"
  have ok: "entry_ok m e" if "e \<in> set (m_sessions m)" for e using assms(1) that by (simp add: entries_ok_def list_all_iff)
  have ids: "set ?ids = ids"
    using ok by (force simp: ids_def ActiveSessionsForUser_owner entry_ok_def image_iff)
  have st: "stopped ids m m' \<and> rooms' = map_option (filter (\<lambda>(k, _). k \<notin> ids)) rooms"
    using stop_fold [OF assms(1), of ends ?ids rooms m' rooms'] assms(2) unfolding ids by (simp add: stop_owned_def Let_def)
  then show "rooms' = map_option (filter (\<lambda>(k, _). k \<notin> ids)) rooms" "m_sessions m' = filter (\<lambda>(k, _). k \<notin> ids) (m_sessions m)"
    by (simp_all add: stopped_def)
  have "session_owner m' ref \<noteq> u" if "(k, ref) \<in> set (m_sessions m')" for k ref
    using st that ok by (force simp: stopped_def entry_ok_def ids_def)
  then show "ActiveSessionsForUser u m' = []" by (auto simp: ActiveSessionsForUser_owner filter_empty_conv)
qed

definition managers_ok :: "AdminApp \<Rightarrow> bool" where
  "managers_ok s = (pred_option entries_ok (aa_terminal s) \<and> pred_option entries_ok (aa_vnc s))"

text \<open>The identifiers of the sessions a user owns, over both managers.\<close>

definition owned_in :: "string \<Rightarrow> Manager option \<Rightarrow> string set" where
  "owned_in u m = (case m of None \<Rightarrow> {} | Some m \<Rightarrow> fst ` {e \<in> set (m_sessions m). session_owner m (snd e) = u})"

definition owned_sessions :: "string \<Rightarrow> AdminApp \<Rightarrow> string set" where
  "owned_sessions u s = owned_in u (aa_terminal s) \<union> owned_in u (aa_vnc s)"

lemma stopSessions_frame [simp]:
  "aa_db (snd (stopSessionsOwnedBy ends u s)) = aa_db s"
  "aa_invitations (snd (stopSessionsOwnedBy ends u s)) = aa_invitations s"
  by (simp_all add: stopSessionsOwnedBy_def Let_def split: prod.split)

lemma stop_optional:
  assumes "pred_option entries_ok mo"
    and "(case mo of None \<Rightarrow> (0, None, rooms) | Some m \<Rightarrow> (case stop_owned ends u m rooms of (n, m, rs) \<Rightarrow> (n, Some m, rs))) = (n, mo', rooms')"
  shows "rooms' = map_option (filter (\<lambda>(k, _). k \<notin> owned_in u mo)) rooms \<and> owned_in u mo' = {}"
proof (cases mo)
  case None
  then show ?thesis using assms(2) by (simp add: owned_in_def option.map_ident_strong case_prod_beta)
next
  case (Some m)
  obtain m' where m': "stop_owned ends u m rooms = (n, m', rooms')" "mo' = Some m'"
    using assms(2) Some by (auto split: prod.splits)
  from stop_owned_effect [OF _ m'(1)] Some assms(1) show ?thesis
    by (auto simp: owned_in_def m'(2) ActiveSessionsForUser_owner filter_empty_conv)
qed

lemma stopSessions_effect:
  assumes "managers_ok s" "stopSessionsOwnedBy ends u s = (n, s')"
  shows "owned_sessions u s' = {}"
    and "aa_rooms s' = map_option (filter (\<lambda>(k, _). k \<notin> owned_sessions u s)) (aa_rooms s)"
    and "aa_cli s' = map_option (\<lambda>c. snd (CloseConnectionsForUser u c)) (aa_cli s)"
proof -
  obtain n2 t rs where t: "(case aa_terminal s of None \<Rightarrow> (0, None, aa_rooms s) | Some m \<Rightarrow>
      (case stop_owned ends u m (aa_rooms s) of (n, m, rs) \<Rightarrow> (n, Some m, rs))) = (n2, t, rs)" by (metis prod_cases3)
  obtain n3 v rs' where v: "(case aa_vnc s of None \<Rightarrow> (0, None, rs) | Some m \<Rightarrow>
      (case stop_owned ends u m rs of (n, m, rs) \<Rightarrow> (n, Some m, rs))) = (n3, v, rs')" by (metis prod_cases3)
  obtain n1 c where c: "(case aa_cli s of None \<Rightarrow> (0, None) | Some c \<Rightarrow>
      (case CloseConnectionsForUser u c of (n, c) \<Rightarrow> (n, Some c))) = (n1, c)" by (metis old.prod.exhaust)
  have s': "s' = s\<lparr>aa_cli := c, aa_terminal := t, aa_vnc := v, aa_rooms := rs'\<rparr>"
    using assms(2) by (simp add: stopSessionsOwnedBy_def t v c)
  have 1: "rs = map_option (filter (\<lambda>(k, _). k \<notin> owned_in u (aa_terminal s))) (aa_rooms s) \<and> owned_in u t = {}"
    using assms(1) by (intro stop_optional [OF _ t]) (simp add: managers_ok_def)
  have 2: "rs' = map_option (filter (\<lambda>(k, _). k \<notin> owned_in u (aa_vnc s))) rs \<and> owned_in u v = {}"
    using assms(1) by (intro stop_optional [OF _ v]) (simp add: managers_ok_def)
  show "owned_sessions u s' = {}" using 1 2 by (simp add: owned_sessions_def s')
  show "aa_rooms s' = map_option (filter (\<lambda>(k, _). k \<notin> owned_sessions u s)) (aa_rooms s)"
    using 1 2 by (simp add: s' owned_sessions_def option.map_comp comp_def case_prod_unfold conj_commute)
  show "aa_cli s' = map_option (\<lambda>c. snd (CloseConnectionsForUser u c)) (aa_cli s)"
    using c by (auto simp: s' split: option.splits prod.splits)
qed

subsection \<open>Who acts\<close>

lemma requireAdmin_ok:
  assumes "requireAdmin env r now db = (Inr x, db')"
  obtains u row where "currentUserID env r now db = (u, db)" "u \<noteq> []" "find_user u db = Some row" "ur_role row = RoleAdmin" "db' = db"
proof -
  obtain u d where cu: "currentUserID env r now db = (u, d)" by fastforce
  with assms have ne: "u \<noteq> []" by (auto simp: requireAdmin_def split: if_splits)
  from cu ne have "d = db" by (cases rule: currentUserID_cases) simp_all
  obtain a where a: "GetByID u d = Inr a" "u_Role a = RoleAdmin" "db' = d"
    using assms ne by (auto simp: requireAdmin_def cu split: sum.splits if_splits)
  obtain row where "find_user u d = Some row" "a = scan_user row"
    using a(1) by (auto simp: GetByID_def split: option.splits)
  then show ?thesis using that [of u row] cu ne a \<open>d = db\<close> by (simp add: scan_user_def)
qed

lemma requireAdmin_frame [simp]:
  "a_users (snd (requireAdmin env r now db)) = a_users db" "a_access (snd (requireAdmin env r now db)) = a_access db"
  "a_requests (snd (requireAdmin env r now db)) = a_requests db"
proof -
  have "snd (requireAdmin env r now db) = snd (currentUserID env r now db)"
    by (simp add: requireAdmin_def split: prod.split sum.split)
  then show "a_users (snd (requireAdmin env r now db)) = a_users db" "a_access (snd (requireAdmin env r now db)) = a_access db"
    "a_requests (snd (requireAdmin env r now db)) = a_requests db" by simp_all
qed

lemma as_admin_cases:
  assumes "as_admin env r now s k = (x, s')"
  obtains (refused) e db where "x = Inl e" "s' = s\<lparr>aa_db := db\<rparr>" "a_users db = a_users (aa_db s)" "a_access db = a_access (aa_db s)"
      "a_requests db = a_requests (aa_db s)"
  | (admin) u row where "k s = (x, s')" "currentUserID env r now (aa_db s) = (u, aa_db s)" "u \<noteq> []"
      "find_user u (aa_db s) = Some row" "ur_role row = RoleAdmin"
proof -
  obtain y db where y: "requireAdmin env r now (aa_db s) = (y, db)" by fastforce
  note fr = requireAdmin_frame [of env r now "aa_db s", unfolded y, simplified]
  show thesis
  proof (cases y)
    case (Inl e)
    then show thesis using refused [of e db] assms y fr by (simp add: as_admin_def)
  next
    case (Inr w)
    from y [unfolded Inr] obtain u row where "currentUserID env r now (aa_db s) = (u, aa_db s)" "u \<noteq> []"
        "find_user u (aa_db s) = Some row" "ur_role row = RoleAdmin" "db = aa_db s" by (rule requireAdmin_ok)
    then show thesis using admin assms y Inr by (simp add: as_admin_def)
  qed
qed

lemma as_caller_known: "currentUserID env r now (aa_db s) = (u, aa_db s) \<Longrightarrow> as_caller env r now s k = k u s"
  by (simp add: as_caller_def)

lemma handleDeleteUser_ok:
  assumes "handleDeleteUser env ends r user_id now s = (Inr x, s')"
  obtains u row db n s1 where "currentUserID env r now (aa_db s) = (u, aa_db s)" "u \<noteq> []" "trim_space user_id \<noteq> u"
    "find_user u (aa_db s) = Some row" "ur_role row = RoleAdmin"
    "stopSessionsOwnedBy ends (trim_space user_id) s = (n, s1)" "db = delete_user_rows (trim_space user_id) (aa_db s)"
    "s' = snd (revokeInvitationsForUser (trim_space user_id) now (s1\<lparr>aa_db := db\<rparr>))"
proof -
  from assms show thesis unfolding handleDeleteUser_def
  proof (cases rule: as_admin_cases)
    case (admin u row)
    obtain n s1 where st: "stopSessionsOwnedBy ends (trim_space user_id) s = (n, s1)" by fastforce
    then have "aa_db s1 = aa_db s" using stopSessions_frame(1) [of ends "trim_space user_id" s] by simp
    with admin(1) st have *: "trim_space user_id \<noteq> trim_space u" "DeleteUser (trim_space user_id) (aa_db s) = Inr (delete_user_rows (trim_space user_id) (aa_db s))"
        "s' = snd (revokeInvitationsForUser (trim_space user_id) now (s1\<lparr>aa_db := delete_user_rows (trim_space user_id) (aa_db s)\<rparr>))"
      by (auto simp: as_caller_known [OF admin(2)] Let_def DeleteUser_def split: if_splits sum.splits prod.splits)
    have "trim_space user_id \<noteq> u" using *(1) by (metis trim_space_idem)
    then show ?thesis using that admin st *(3) by blast
  qed simp
qed

lemma revoke_frame [simp]:
  "aa_db (snd (revokeInvitationsForUser u now s)) = aa_db s" "aa_cli (snd (revokeInvitationsForUser u now s)) = aa_cli s"
  "aa_terminal (snd (revokeInvitationsForUser u now s)) = aa_terminal s" "aa_vnc (snd (revokeInvitationsForUser u now s)) = aa_vnc s"
  "aa_rooms (snd (revokeInvitationsForUser u now s)) = aa_rooms s"
  by (simp_all add: revokeInvitationsForUser_def split: option.split prod.split)

lemma revoked_all:
  assumes "aa_invitations (snd (revokeInvitationsForUser u now s)) = Some st" "c \<in> set (st_invitations st)"
    "c_owner_user_id c = u \<or> c_invitee_user_id c = Some u"
  shows "c_revoked_at c \<noteq> None"
proof -
  let ?P = "\<lambda>c. c_revoked_at c = None \<and> (c_owner_user_id c = u \<or> c_invitee_user_id c = Some u)"
  obtain st0 where "st = st0\<lparr>st_invitations := snd (sql_update ?P (\<lambda>c. c\<lparr>c_revoked_at := Some (unix now)\<rparr>) (st_invitations st0))\<rparr>"
    using assms(1) by (cases "aa_invitations s") (auto simp: revokeInvitationsForUser_def case_prod_unfold)
  then have "c \<in> (\<lambda>c. if ?P c then c\<lparr>c_revoked_at := Some (unix now)\<rparr> else c) ` set (st_invitations st0)"
    using assms(2) by (simp add: sql_update_def)
  then obtain c0 where "c = (if ?P c0 then c0\<lparr>c_revoked_at := Some (unix now)\<rparr> else c0)" by blast
  then show ?thesis using assms(3) by (cases "?P c0") simp_all
qed

lemma map_of_filter_key: "P k \<Longrightarrow> map_of (filter (\<lambda>(k', _). P k') m) k = map_of m k"
  by (induction m) auto


text \<open>
  The deletion reaches only the sessions the account owns: in a session somebody else owns, the
  deleted user stays a participant of the room, and stays its writer.
\<close>

theorem deleted_guest_keeps_seat:
  assumes "managers_ok s" "handleDeleteUser env ends r t now s = (Inr x, s')" "trim_space t = t"
    and "aa_rooms s = Some rs" "reg_Get sid rs = Some room" "sid \<notin> owned_sessions t s"
    and "IsParticipant t room" "HasWriter t room"
  shows "\<exists>rs' room'. aa_rooms s' = Some rs' \<and> reg_Get sid rs' = Some room' \<and> IsParticipant t room' \<and> HasWriter t room'"
proof -
  obtain n s1 where st: "stopSessionsOwnedBy ends t s = (n, s1)"
      "s' = snd (revokeInvitationsForUser t now (s1\<lparr>aa_db := delete_user_rows t (aa_db s)\<rparr>))"
    using handleDeleteUser_ok [OF assms(2)] assms(3) by metis
  have "aa_rooms s' = Some (filter (\<lambda>(k, _). k \<notin> owned_sessions t s) rs)"
    using stopSessions_effect(2) [OF assms(1) st(1)] assms(4) by (simp add: st(2))
  moreover have "reg_Get sid (filter (\<lambda>(k, _). k \<notin> owned_sessions t s) rs) = Some room"
    using assms(5,6) by (simp add: reg_Get_def map_of_filter_key)
  ultimately show ?thesis using assms(7,8) by blast
qed

subsection \<open>An enabled administrator remains\<close>

definition has_enabled_admin :: "AuthDB \<Rightarrow> bool" where
  "has_enabled_admin db = list_ex (\<lambda>row. ur_role row = RoleAdmin \<and> ur_disabled row = 0) (a_users db)"

definition enabled_admin :: "string \<Rightarrow> AuthDB \<Rightarrow> bool" where
  "enabled_admin u db = (case find_user u db of None \<Rightarrow> False | Some row \<Rightarrow> ur_role row = RoleAdmin \<and> ur_disabled row = 0)"

lemma enabled_admin_some: "enabled_admin u db \<Longrightarrow> has_enabled_admin db"
  using find_in_set by (fastforce simp: enabled_admin_def has_enabled_admin_def find_user_def list_ex_iff split: option.splits)

lemma enabled_admin_users: "a_users db = a_users db' \<Longrightarrow> enabled_admin u db = enabled_admin u db'"
  by (simp add: enabled_admin_def find_user_def)

lemma find_user_update:
  assumes "update_user uid f db = Inr db'" "\<And>row. ur_id (f row) = ur_id row"
  shows "find_user u db' = map_option (\<lambda>row. if u = uid then f row else row) (find_user u db)"
proof -
  have "find (\<lambda>r. ur_id r = u) (map (\<lambda>r. if ur_id r = uid then f r else r) rows)
      = map_option (\<lambda>row. if u = uid then f row else row) (find (\<lambda>r. ur_id r = u) rows)" for rows
    using assms(2) by (induction rows) auto
  then show ?thesis using update_user_rows(1) [OF assms(1)] by (simp add: find_user_def)
qed

lemma enabled_admin_update:
  assumes "update_user uid f db = Inr db'" "\<And>row. ur_id (f row) = ur_id row" "enabled_admin u db"
    and "u = uid \<Longrightarrow> \<forall>row. ur_role row = RoleAdmin \<and> ur_disabled row = 0 \<longrightarrow> ur_role (f row) = RoleAdmin \<and> ur_disabled (f row) = 0"
  shows "enabled_admin u db'"
  using find_user_update [OF assms(1,2), of u] assms(3,4) by (auto simp: enabled_admin_def split: option.splits)

text \<open>The identity of a request stays while the sessions stay and its account stays enabled.\<close>

definition acts_as :: "guard_env \<Rightarrow> http_req \<Rightarrow> instant \<Rightarrow> string \<Rightarrow> AuthDB \<Rightarrow> bool" where
  "acts_as env r now u db = (currentUserID env r now db = (u, db) \<and> u \<noteq> [] \<and> enabled_admin u db)"

lemma acts_as_keep:
  assumes "acts_as env r now u db" "a_sessions db' = a_sessions db" "enabled_admin u db'"
  shows "acts_as env r now u db'"
proof -
  have cu: "currentUserID env r now db = (u, db)" "u \<noteq> []" using assms(1) by (simp_all add: acts_as_def)
  obtain row where row: "GetByID u db' = Inr (scan_user row)" "ur_disabled row = 0"
    using assms(3) by (auto simp: enabled_admin_def GetByID_def split: option.splits)
  have "currentUserID env r now db' = (u, db')"
  proof (cases "rq_token r")
    case (Some t)
    then show ?thesis using cu by (simp add: currentUserID_def)
  next
    case None
    with cu obtain c where c: "rq_Cookie r = Some c" "c \<noteq> []"
      by (auto simp: currentUserID_def split: option.splits if_splits)
    obtain x d where g: "ses_Get (ge_auth env) c now db = (x, d)" by fastforce
    then obtain sess where x: "x = Inr sess" using None c cu by (cases x) (simp_all add: currentUserID_def)
    have "s_UserID sess = u" using None c cu g x by (auto simp: currentUserID_def split: sum.splits if_splits)
    moreover have "ses_Get (ge_auth env) c now db' = (Inr sess, db')"
      using g x assms(2) by (auto simp: ses_Get_def split: option.splits if_splits)
    ultimately show ?thesis using None c row by (simp add: currentUserID_def scan_user_def)
  qed
  then show ?thesis using cu assms(3) by (simp add: acts_as_def)
qed

lemma acts_as_caller: "acts_as env r now u (aa_db s) \<Longrightarrow> as_caller env r now s k = k u s"
  by (simp add: acts_as_def as_caller_known)

lemma update_user_sessions: "update_user uid f db = Inr db' \<Longrightarrow> a_sessions db' = a_sessions db"
  by (auto dest: update_user_rows(1))

lemma update_role_keeps:
  assumes "acts_as env r now u (aa_db s)" "update_role env r userID now req target s = (x, s')"
    and "GetByID userID (aa_db s) = Inr target"
  shows "acts_as env r now u (aa_db s')"
proof (cases "s' = s")
  case False
  then obtain role db where *: "UpdateRole userID role (aa_db s) = Inr db" "s' = s\<lparr>aa_db := db\<rparr>"
      "role \<noteq> (if u_Role target = [] then RoleUser else u_Role target)" "\<not> (role = RoleUser \<and> userID = u)" "role = RoleAdmin \<or> role = RoleUser"
    using assms(2) by (auto simp: update_role_def role_guard_def role_store_def and_then_def Let_def acts_as_caller [OF assms(1)] split: option.splits if_splits sum.splits)
  have up: "update_user userID (\<lambda>row. row\<lparr>ur_role := role\<rparr>) (aa_db s) = Inr db"
    using *(1) by (simp add: UpdateRole_def split: if_splits)
  have "u \<noteq> userID"
    using * assms(1,3) by (auto simp: acts_as_def enabled_admin_def GetByID_def scan_user_def RoleAdmin_def split: option.splits if_splits)
  then have "enabled_admin u db" using assms(1) by (intro enabled_admin_update [OF up]) (simp_all add: acts_as_def)
  then show ?thesis using acts_as_keep [OF assms(1)] update_user_sessions [OF up] *(2) by simp
qed (use assms in simp)

lemma update_name_keeps:
  assumes "acts_as env r now u (aa_db s)" "update_name userID req target s = (x, s')"
  shows "acts_as env r now u (aa_db s')"
proof (cases "s' = s")
  case False
  then obtain name db where *: "UpdateUsername userID name (aa_db s) = Inr db" "s' = s\<lparr>aa_db := db\<rparr>"
    using assms(2) by (auto simp: update_name_def Let_def split: option.splits if_splits sum.splits)
  then obtain uid where up: "update_user uid (\<lambda>row. row\<lparr>ur_username := trim_space name\<rparr>) (aa_db s) = Inr db"
    by (auto simp: UpdateUsername_def Let_def split: if_splits)
  then have "enabled_admin u db" using assms(1) by (intro enabled_admin_update [OF up]) (simp_all add: acts_as_def)
  then show ?thesis using acts_as_keep [OF assms(1)] update_user_sessions [OF up] *(2) by simp
qed (use assms in simp)

lemma update_disabled_keeps:
  assumes "acts_as env r now u (aa_db s)" "update_disabled env ends r userID now req target s = (x, s')"
  shows "enabled_admin u (aa_db s')"
proof (cases "s' = s")
  case False
  then obtain d db where *: "SetDisabled userID d (aa_db s) = Inr db" "\<not> (d \<and> userID = u)" "a_users (aa_db s') = a_users db"
    using assms(2) by (auto simp: update_disabled_def Let_def acts_as_caller [OF assms(1)] DeleteAllForUser_def case_prod_unfold
        split: option.splits if_splits sum.splits)
  have up: "update_user userID (\<lambda>row. row\<lparr>ur_disabled := flag d\<rparr>) (aa_db s) = Inr db"
    using *(1) by (simp add: SetDisabled_def split: if_splits)
  have "enabled_admin u db"
    using assms(1) *(2) by (intro enabled_admin_update [OF up]) (auto simp: acts_as_def flag_def)
  then show ?thesis using enabled_admin_users [OF *(3)] by simp
qed (use assms in \<open>simp add: acts_as_def\<close>)

text \<open>A request through the middleware chain to its handler, and every request that is served.\<close>

definition served ::
  "guard_env \<Rightarrow> http_req \<Rightarrow> instant \<Rightarrow> AdminApp \<Rightarrow> (http_req \<Rightarrow> AdminApp \<Rightarrow> (http_error + 'a) \<times> AdminApp) \<Rightarrow> (http_error + 'a) \<times> AdminApp" where
  "served env r now s handler = (case admit env r now (aa_db s) of
     (Reject status key, db) \<Rightarrow> (Inl (status, key), s\<lparr>aa_db := db\<rparr>)
   | (Pass r', db) \<Rightarrow> handler r' (s\<lparr>aa_db := db\<rparr>))"

inductive admin_step :: "guard_env \<Rightarrow> AdminApp \<Rightarrow> AdminApp \<Rightarrow> bool" for env where
  serve_delete: "rq_token r = None \<Longrightarrow> admin_step env s (snd (served env r now s (\<lambda>r. handleDeleteUser env ends r uid now)))"
| serve_update: "rq_token r = None \<Longrightarrow> admin_step env s (snd (served env r now s (\<lambda>r. handleUpdateUser env ends r uid req now)))"
| serve_create: "rq_token r = None \<Longrightarrow> admin_step env s (snd (served env r now s (\<lambda>r. handleCreateUser env salt r body now)))"
| serve_tags: "rq_token r = None \<Longrightarrow> admin_step env s (snd (served env r now s (\<lambda>r. handleSetUserTags env r uid tags now)))"
| serve_request: "rq_token r = None \<Longrightarrow> admin_step env s (snd (served env r now s (\<lambda>r. handleCreateAccessRequest env token r ask now)))"
| serve_approve: "rq_token r = None \<Longrightarrow> admin_step env s (snd (served env r now s (\<lambda>r. handleApproveAccessRequest env r i dec now)))"
| serve_deny: "rq_token r = None \<Longrightarrow> admin_step env s (snd (served env r now s (\<lambda>r. handleDenyAccessRequest env r i dec now)))"
| serve_cancel: "rq_token r = None \<Longrightarrow> admin_step env s (snd (served env r now s (\<lambda>r. handleCancelAccessRequest env r i now)))"

lemma admit_users [simp]: "a_users (snd (admit env r now db)) = a_users db"
proof -
  have force: "a_users (snd (forcePasswordChangeMiddleware env r now db)) = a_users db" for r db
    by (simp add: forcePasswordChangeMiddleware_def case_prod_unfold split: sum.split)
  have token: "a_users (snd (apiTokenMiddleware env r now db)) = a_users db" for r db
    by (auto simp: apiTokenMiddleware_def tok_Touch_def split: sum.split)
  show ?thesis
    using force token by (auto simp: admit_def Let_def split: verdict.splits prod.splits) (metis snd_conv session_middleware_frame(1))+
qed

lemma served_keeps_admin:
  assumes "has_enabled_admin (aa_db s)" "rq_token r = None"
    and "\<And>r' db. a_users db = a_users (aa_db s) \<Longrightarrow> (\<And>u row. currentUserID env r' now db = (u, db) \<Longrightarrow> u \<noteq> []
         \<Longrightarrow> find_user u db = Some row \<Longrightarrow> ur_disabled row = 0) \<Longrightarrow> has_enabled_admin (aa_db (snd (k r' (s\<lparr>aa_db := db\<rparr>))))"
  shows "has_enabled_admin (aa_db (snd (served env r now s k)))"
proof (cases "admit env r now (aa_db s)")
  case (Pair v db)
  have users: "a_users db = a_users (aa_db s)" using admit_users [of env r now "aa_db s"] Pair by simp
  show ?thesis
  proof (cases v)
    case (Pass r')
    have "ur_disabled row = 0" if "currentUserID env r' now db = (u, db)" "u \<noteq> []" "find_user u db = Some row" for u row
      using admitted_enabled [OF assms(2), of env now "aa_db s" r' db u row] Pair Pass that users by (simp add: find_user_def)
    then show ?thesis using assms(3) [OF users, of r'] Pair Pass by (simp add: served_def)
  qed (use assms(1) users Pair in \<open>simp add: served_def has_enabled_admin_def\<close>)
qed

lemma as_admin_keeps_admin:
  assumes "has_enabled_admin (aa_db s)"
    and "\<And>u row. currentUserID env r now (aa_db s) = (u, aa_db s) \<Longrightarrow> u \<noteq> [] \<Longrightarrow> find_user u (aa_db s) = Some row \<Longrightarrow> ur_disabled row = 0"
    and "\<And>u. acts_as env r now u (aa_db s) \<Longrightarrow> has_enabled_admin (aa_db (snd (k s)))"
  shows "has_enabled_admin (aa_db (snd (as_admin env r now s k)))"
proof -
  obtain x s' where eq: "as_admin env r now s k = (x, s')" by fastforce
  then show ?thesis
  proof (cases rule: as_admin_cases)
    case (admin u row)
    then have "acts_as env r now u (aa_db s)" using assms(2) by (simp add: acts_as_def enabled_admin_def)
    from assms(3) [OF this] show ?thesis by (simp add: eq admin(1))
  qed (use assms(1) eq in \<open>simp add: has_enabled_admin_def\<close>)
qed

lemma delete_keeps_admin:
  assumes "acts_as env r now u (aa_db s)" "t \<noteq> u" "DeleteUser t (aa_db s) = Inr db"
  shows "has_enabled_admin db"
proof -
  obtain row where row: "find_user u (aa_db s) = Some row" "ur_role row = RoleAdmin" "ur_disabled row = 0"
    using assms(1) by (auto simp: acts_as_def enabled_admin_def split: option.splits)
  then have "row \<in> set (a_users (aa_db s)) \<and> ur_id row = u" using find_in_set by (fastforce simp: find_user_def)
  then show ?thesis using assms(2,3) row
    by (auto simp: DeleteUser_def delete_user_rows_def has_enabled_admin_def list_ex_iff split: if_splits)
qed

lemma users_keep_admin: "a_users db = a_users db' \<Longrightarrow> has_enabled_admin db \<Longrightarrow> has_enabled_admin db'"
  by (simp add: has_enabled_admin_def)

lemma acts_as_has_admin: "acts_as env r now u db \<Longrightarrow> has_enabled_admin db"
  using enabled_admin_some by (auto simp: acts_as_def)

lemma update_parts_keep:
  assumes "acts_as env r now u (aa_db s)" "GetByID userID (aa_db s) = Inr target"
  shows "has_enabled_admin (aa_db (snd (and_then (and_then (update_role env r userID now req target s) (update_name userID req))
    (update_disabled env ends r userID now req))))"
proof -
  obtain x1 s1 where 1: "update_role env r userID now req target s = (x1, s1)" by fastforce
  note k1 = update_role_keeps [OF assms(1) 1 assms(2)]
  show ?thesis
  proof (cases x1)
    case (Inr t1)
    obtain x2 s2 where 2: "update_name userID req t1 s1 = (x2, s2)" by fastforce
    note k2 = update_name_keeps [OF k1 2]
    show ?thesis
    proof (cases x2)
      case (Inr t2)
      obtain x3 s3 where 3: "update_disabled env ends r userID now req t2 s2 = (x3, s3)" by fastforce
      show ?thesis using update_disabled_keeps [OF k2 3] enabled_admin_some
        by (auto simp: and_then_def 1 2 3 Inr \<open>x1 = Inr t1\<close>)
    qed (use k2 acts_as_has_admin in \<open>auto simp: and_then_def 1 2 Inr\<close>)
  qed (use k1 acts_as_has_admin in \<open>auto simp: and_then_def 1\<close>)
qed

text \<open>What the guards hand to a handler: a caller who is enabled.\<close>

definition enabled_caller :: "guard_env \<Rightarrow> http_req \<Rightarrow> instant \<Rightarrow> AuthDB \<Rightarrow> bool" where
  "enabled_caller env r now db = (\<forall>u row. currentUserID env r now db = (u, db) \<longrightarrow> u \<noteq> [] \<longrightarrow> find_user u db = Some row \<longrightarrow> ur_disabled row = 0)"

lemma update_keeps_admin:
  "has_enabled_admin (aa_db s) \<Longrightarrow> enabled_caller env r now (aa_db s) \<Longrightarrow>
     has_enabled_admin (aa_db (snd (handleUpdateUser env ends r uid req now s)))"
  unfolding handleUpdateUser_def
  by (rule as_admin_keeps_admin)
    (auto simp: enabled_caller_def Let_def acts_as_has_admin update_parts_keep split: option.split sum.split)

lemma deletion_keeps_admin:
  assumes "has_enabled_admin (aa_db s)" "enabled_caller env r now (aa_db s)"
  shows "has_enabled_admin (aa_db (snd (handleDeleteUser env ends r uid now s)))"
  unfolding handleDeleteUser_def
proof (rule as_admin_keeps_admin [OF assms(1)], goal_cases)
  case (2 u)
  have "trim_space uid \<noteq> u" if "trim_space uid \<noteq> trim_space u" using that by (metis trim_space_idem)
  then show ?case
    using acts_as_has_admin [OF 2] delete_keeps_admin [OF 2]
    by (auto simp: Let_def acts_as_caller [OF 2] case_prod_unfold split: sum.split)
qed (use assms(2) in \<open>auto simp: enabled_caller_def\<close>)

lemma creation_keeps_admin:
  assumes "has_enabled_admin (aa_db s)"
  shows "has_enabled_admin (aa_db (snd (handleCreateUser env salt r body now s)))"
proof -
  obtain x s' where eq: "handleCreateUser env salt r body now s = (x, s')" by fastforce
  then have "has_enabled_admin (aa_db s')" unfolding handleCreateUser_def
  proof (cases rule: as_admin_cases)
    case (admin u row)
    have "has_enabled_admin db" if "CreateUser (ge_auth env) salt i n p ro (aa_db s) = Inr (y, db)" for i n p ro y db
      using that assms by (auto simp: CreateUser_def Let_def has_enabled_admin_def split: if_splits sum.splits)
    then show ?thesis using admin(1) assms
      by (auto simp: Let_def split: option.splits if_splits sum.splits prod.splits)
  qed (use assms in \<open>simp add: has_enabled_admin_def\<close>)
  then show ?thesis by (simp add: eq)
qed

text \<open>The other handlers do not touch the account rows.\<close>

lemma as_admin_users: "(\<And>s'. a_users (aa_db s') = a_users (aa_db s) \<Longrightarrow> a_users (aa_db (snd (k s'))) = a_users (aa_db s)) \<Longrightarrow>
    a_users (aa_db (snd (as_admin env r now s k))) = a_users (aa_db s)"
  by (simp add: as_admin_def case_prod_unfold split: sum.split)

lemma as_caller_users: "(\<And>u s'. a_users (aa_db s') = a_users (aa_db s) \<Longrightarrow> a_users (aa_db (snd (k u s'))) = a_users (aa_db s)) \<Longrightarrow>
    a_users (aa_db (snd (as_caller env r now s k))) = a_users (aa_db s)"
  by (simp add: as_caller_def case_prod_unfold)

lemma SetUserTags_users: "a_users (snd (SetUserTags env uid tags db)) = a_users db"
  by (simp add: SetUserTags_def split: option.split prod.split)

lemma decide_request_users: "a_users (aa_db (snd (decide_request ar st who reason ex now s))) = a_users (aa_db s)"
  by (auto simp: decide_request_def req_Decide_def sql_update_def split: sum.split)

lemma approve_grant_users: "a_users (aa_db (snd (approve_grant ar ex s))) = a_users (aa_db s)"
  by (auto simp: approve_grant_def split: sum.split)

lemma req_Create_users: "req_Create ar now db = Inr db' \<Longrightarrow> a_users db' = a_users db"
  by (auto simp: req_Create_def Let_def split: option.splits if_splits)

lemma isAdmin_users: "a_users (snd (currentUserIsAdmin env r now db)) = a_users db"
  by (simp add: currentUserIsAdmin_def case_prod_unfold split: sum.split)

lemmas users_kept = SetUserTags_users decide_request_users approve_grant_users isAdmin_users

lemma tags_users: "a_users (aa_db (snd (handleSetUserTags env r uid tags now s))) = a_users (aa_db s)"
  unfolding handleSetUserTags_def
  by (rule as_admin_users) (auto simp: Let_def case_prod_unfold users_kept split: option.split)

lemma ask_users: "a_users (aa_db (snd (handleCreateAccessRequest env token r ask now s))) = a_users (aa_db s)"
  unfolding handleCreateAccessRequest_def
  by (rule as_caller_users) (auto simp: Let_def dest: req_Create_users split: option.split sum.split)

lemma and_then_users:
  "a_users (aa_db (snd x)) = us \<Longrightarrow> (\<And>a s. a_users (aa_db s) = us \<Longrightarrow> a_users (aa_db (snd (k a s))) = us) \<Longrightarrow>
     a_users (aa_db (snd (and_then x k))) = us"
  by (auto simp: and_then_def case_prod_unfold split: sum.split)

lemma approve_users: "a_users (aa_db (snd (handleApproveAccessRequest env r i dec now s))) = a_users (aa_db s)"
  unfolding handleApproveAccessRequest_def
  by (rule as_admin_users)
    (auto simp: Let_def users_kept split: sum.split option.split intro!: as_caller_users [THEN trans] and_then_users)

lemma deny_users: "a_users (aa_db (snd (handleDenyAccessRequest env r i dec now s))) = a_users (aa_db s)"
  unfolding handleDenyAccessRequest_def
  by (rule as_admin_users) (auto simp: users_kept split: sum.split intro!: as_caller_users [THEN trans])

lemma cancel_users: "a_users (aa_db (snd (handleCancelAccessRequest env r i now s))) = a_users (aa_db s)"
  unfolding handleCancelAccessRequest_def
  by (rule as_caller_users) (auto simp: Let_def case_prod_unfold users_kept split: sum.split intro!: and_then_users)

lemma admin_step_keeps: "admin_step env s s' \<Longrightarrow> has_enabled_admin (aa_db s) \<Longrightarrow> has_enabled_admin (aa_db s')"
proof (induction rule: admin_step.induct)
  case (serve_delete r s now ends uid)
  then show ?case
    by (intro served_keeps_admin deletion_keeps_admin) (auto simp: enabled_caller_def has_enabled_admin_def)
next
  case (serve_update r s now ends uid req)
  then show ?case
    by (intro served_keeps_admin update_keeps_admin) (auto simp: enabled_caller_def has_enabled_admin_def)
next
  case (serve_create r s now salt body)
  then show ?case
    by (intro served_keeps_admin creation_keeps_admin) (auto simp: has_enabled_admin_def)
qed (rule served_keeps_admin; simp add: has_enabled_admin_def tags_users ask_users approve_users deny_users cancel_users)+

interpretation admins: transition_system "admin_step env" "\<lambda>s. has_enabled_admin (aa_db s)" "\<lambda>s. has_enabled_admin (aa_db s)" for env
  by unfold_locales (simp_all add: admin_step_keeps)

text \<open>
  C18. As long as requests are served one after another, an instance never loses its last enabled
  administrator: no sequence of account and access-request calls, by whomever and however
  authenticated, ends without one.
\<close>

theorem enabled_admin_remains:
  "has_enabled_admin (aa_db s) \<Longrightarrow> (admin_step env)\<^sup>*\<^sup>* s s' \<Longrightarrow> has_enabled_admin (aa_db s')"
  by (rule admins.reachable_inv)

text \<open>Alice runs the session \<open>s2\<close>, where bob holds the write token; bob runs \<open>s1\<close>.\<close>

definition demo_sess :: "string \<Rightarrow> string \<Rightarrow> Session_Manager.Session" where
  "demo_sess sid owner = \<lparr>s_id = sid, s_createdAt = 0, s_lastSeen = 0, s_keep = False, s_UserID = owner, s_TargetID = ''t1'',
     s_TargetName = [], s_Name = [], s_Description = [], s_Output = NewRingBuffer 1, s_cancelled = False, s_goroutine = InBridge\<rparr>"

definition demo_own_room :: "string \<Rightarrow> string \<Rightarrow> Room" where
  "demo_own_room sid owner = new_room sid ''t1'' owner owner 0"

definition demo_shared :: Room where
  "demo_shared = (case AddViewer ''bob'' ''bob'' ''i1'' 1 (demo_own_room ''s2'' ''alice'') of Inr r \<Rightarrow> r\<lparr>r_writerID := ''bob''\<rparr> | Inl _ \<Rightarrow> demo_own_room ''s2'' ''alice'')"

definition demo_admin :: AdminApp where
  "demo_admin = \<lparr>aa_db = demo_accounts, aa_cli = Some \<lparr>cs_conns = [(7, ''bob'')], cs_closed = []\<rparr>,
     aa_terminal = Some (NewManager\<lparr>m_heap := [demo_sess ''s1'' ''bob'', demo_sess ''s2'' ''alice''], m_sessions := [(''s1'', 0), (''s2'', 1)]\<rparr>),
     aa_vnc = None, aa_rooms = Some [(''s1'', demo_own_room ''s1'' ''bob''), (''s2'', demo_shared)],
     aa_invitations = Some \<lparr>st_invitations = [], st_consumers = []\<rparr>\<rparr>"

lemma demo_admin_ok: "managers_ok demo_admin"
  by (simp add: managers_ok_def demo_admin_def entries_ok_def entry_ok_def demo_sess_def)

lemma demo_alice: "requireAdmin demo_genv (demo_get p ''s-alice'') (time_unix 9) demo_accounts = (Inr (), demo_accounts)"
    "currentUserID demo_genv (demo_get p ''s-alice'') (time_unix 9) demo_accounts = (''alice'', demo_accounts)"
  by (simp_all add: requireAdmin_def currentUserID_def ses_Get_def demo_guard_simps)

lemma demo_delete_bob:
  "\<exists>x s'. handleDeleteUser demo_genv ends (demo_get p ''s-alice'') ''bob'' (time_unix 9) demo_admin = (Inr x, s')"
proof -
  have bob: "GetByID ''bob'' demo_accounts = Inr (scan_user (demo_user ''bob'' ''Bob-pass1'' RoleUser 0 0))"
    by (simp add: demo_guard_simps)
  obtain n s1 where st: "stopSessionsOwnedBy ends ''bob'' demo_admin = (n, s1)" by fastforce
  then have "aa_db s1 = demo_accounts" using stopSessions_frame(1) [of ends "''bob''" demo_admin] by (simp add: demo_admin_def)
  moreover have "DeleteUser ''bob'' demo_accounts = Inr (delete_user_rows ''bob'' demo_accounts)"
    by (simp add: DeleteUser_def trim_space_visible visible_def demo_accounts_def demo_user_def)
  moreover have same: "aa_db demo_admin = demo_accounts" "demo_admin\<lparr>aa_db := demo_accounts\<rparr> = demo_admin" by (simp_all add: demo_admin_def)
  ultimately show ?thesis
    using st bob by (simp add: handleDeleteUser_def same Let_def as_admin_def as_caller_def demo_alice trim_space_visible visible_def
        scan_user_def demo_user_def RoleAdmin_def RoleUser_def split: prod.split)
qed


theorem deleted_guest_keeps_seat_witness:
  "\<exists>x s' rs' room'. handleDeleteUser demo_genv (\<lambda>_. True) (demo_get ''/api/users/bob'' ''s-alice'') ''bob'' (time_unix 9) demo_admin = (Inr x, s')
     \<and> aa_rooms s' = Some rs' \<and> reg_Get ''s2'' rs' = Some room' \<and> IsParticipant ''bob'' room' \<and> HasWriter ''bob'' room'"
proof -
  obtain x s' where del: "handleDeleteUser demo_genv (\<lambda>_. True) (demo_get ''/api/users/bob'' ''s-alice'') ''bob'' (time_unix 9) demo_admin = (Inr x, s')"
    using demo_delete_bob by blast
  have "''s2'' \<notin> owned_sessions ''bob'' demo_admin"
    by (auto simp: owned_sessions_def owned_in_def demo_admin_def session_owner_def demo_sess_def)
  moreover have "IsParticipant ''bob'' demo_shared" "HasWriter ''bob'' demo_shared"
    by (simp_all add: demo_shared_def demo_own_room_def new_room_def AddViewer_def IsParticipant_def HasWriter_def Let_def)
  moreover have "aa_rooms demo_admin = Some [(''s1'', demo_own_room ''s1'' ''bob''), (''s2'', demo_shared)]" by (simp add: demo_admin_def)
  ultimately have "\<exists>rs' room'. aa_rooms s' = Some rs' \<and> reg_Get ''s2'' rs' = Some room' \<and> IsParticipant ''bob'' room' \<and> HasWriter ''bob'' room'"
    using deleted_guest_keeps_seat [OF demo_admin_ok del, of _ "''s2''" demo_shared] by (simp add: trim_space_visible visible_def reg_Get_def)
  then show ?thesis using del by blast
qed

theorem enabled_admin_remains_witness:
  "\<exists>s'. (admin_step demo_genv)\<^sup>*\<^sup>* demo_admin s' \<and> \<not> user_exists ''bob'' (aa_db s') \<and> has_enabled_admin (aa_db s')"
proof -
  obtain x s' where del: "handleDeleteUser demo_genv (\<lambda>_. True) (demo_get ''/api/users/bob'' ''s-alice'') ''bob'' (time_unix 9) demo_admin = (Inr x, s')"
    using demo_delete_bob by blast
  let ?r = "demo_get ''/api/users/bob'' ''s-alice''"
  have "admit demo_genv ?r (time_unix 9) demo_accounts = (Pass ?r, demo_accounts)"
    by (simp add: chain_simps demo_guard_simps)
  then have "served demo_genv ?r (time_unix 9) demo_admin (\<lambda>r. handleDeleteUser demo_genv (\<lambda>_. True) r ''bob'' (time_unix 9)) = (Inr x, s')"
    using del by (simp add: served_def demo_admin_def)
  moreover have "rq_token ?r = None" by (simp add: demo_get_def)
  ultimately have step: "(admin_step demo_genv)\<^sup>*\<^sup>* demo_admin s'"
    using serve_delete [of ?r demo_genv demo_admin "time_unix 9" "\<lambda>_. True" "''bob''"] by (auto intro: r_into_rtranclp)
  have "has_enabled_admin (aa_db demo_admin)" by (simp add: has_enabled_admin_def demo_admin_def demo_accounts_def demo_user_def)
  moreover have "aa_db s' = delete_user_rows (trim_space ''bob'') (aa_db demo_admin)"
    by (rule handleDeleteUser_ok [OF del]) simp
  then have "\<not> user_exists ''bob'' (aa_db s')" by (simp add: trim_space_visible visible_def)
  ultimately show ?thesis using enabled_admin_remains step by blast
qed

subsection \<open>Requests served at the same time\<close>

lemma two_in_filter:
  assumes "x \<in> set xs" "y \<in> set xs" "x \<noteq> y" "P x" "P y"
  shows "length (filter P xs) > 1"
proof -
  have "{x, y} \<subseteq> set (filter P xs)" using assms by auto
  from card_mono [OF _ this] have "card {x, y} \<le> card (set (filter P xs))" by simp
  then show ?thesis using assms(3) card_length [of "filter P xs"] by simp
qed

lemma one_in_filter: "distinct (map f xs) \<Longrightarrow> x \<in> set xs \<Longrightarrow> length (filter (\<lambda>y. f y = f x) xs) = 1"
proof (induction xs)
  case (Cons a xs)
  have "filter (\<lambda>y. f y = f x) xs = []" if "f a = f x"
    using Cons.prems(1) that by (auto simp: filter_empty_conv image_iff)
  then show ?case using Cons by auto
qed simp

lemma countAdmins_two:
  assumes "enabled_admin a db" "enabled_admin b db" "a \<noteq> b" "length (a_users db) \<le> 1000"
  shows "countAdmins db > 1"
proof -
  have row: "\<exists>row \<in> set (a_users db). ur_id row = u \<and> ur_role row = RoleAdmin \<and> ur_disabled row = 0" if "enabled_admin u db" for u
    using that find_in_set by (fastforce simp: enabled_admin_def find_user_def split: option.splits)
  obtain ra rb where r: "ra \<in> set (a_users db)" "ur_id ra = a" "ur_role ra = RoleAdmin" "ur_disabled ra = 0"
      "rb \<in> set (a_users db)" "ur_id rb = b" "ur_role rb = RoleAdmin" "ur_disabled rb = 0"
    using row [OF assms(1)] row [OF assms(2)] by blast
  have "ListUsers 1000 0 db = map scan_user (sort_key ur_username (a_users db))" using assms(4) by (simp add: ListUsers_def)
  then have "scan_user ra \<in> set (ListUsers 1000 0 db)" "scan_user rb \<in> set (ListUsers 1000 0 db)" using r by simp_all
  moreover have "u_ID (scan_user ra) \<noteq> u_ID (scan_user rb)" using r(2,6) assms(3) by (simp add: scan_user_def)
  then have "scan_user ra \<noteq> scan_user rb" by metis
  ultimately show ?thesis unfolding countAdmins_def by (rule two_in_filter) (simp_all add: scan_user_def r)
qed

lemma role_store_ok:
  assumes "enabled_admin u (aa_db s)" "trim_space u \<noteq> []" "distinct (map ur_id (a_users (aa_db s)))"
  shows "role_store u RoleUser target s = (Inr (target\<lparr>u_Role := RoleUser\<rparr>),
    s\<lparr>aa_db := (aa_db s)\<lparr>a_users := map (\<lambda>row. if ur_id row = u then row\<lparr>ur_role := RoleUser\<rparr> else row) (a_users (aa_db s))\<rparr>\<rparr>)"
proof -
  obtain row where "row \<in> set (a_users (aa_db s))" "ur_id row = u"
    using assms(1) find_in_set by (fastforce simp: enabled_admin_def find_user_def split: option.splits)
  then have "length (filter (\<lambda>row. ur_id row = u) (a_users (aa_db s))) = 1"
    using one_in_filter [OF assms(3)] by blast
  then show ?thesis using assms(2) by (simp add: role_store_def UpdateRole_def update_user_def sql_update_def)
qed

text \<open>
  C19. The guard for the last administrator is not atomic with the update it guards: when the only two
  enabled administrators demote each other at the same time, both guards pass before either update,
  both updates succeed, and no enabled administrator is left.
\<close>

theorem concurrent_demotions_leave_no_admin:
  assumes "distinct (map ur_id (a_users (aa_db s)))" "length (a_users (aa_db s)) \<le> 1000"
    and "acts_as env ra now a (aa_db s)" "acts_as env rb now b (aa_db s)" "a \<noteq> b" "trim_space a \<noteq> []" "trim_space b \<noteq> []"
    and "\<forall>row \<in> set (a_users (aa_db s)). ur_role row = RoleAdmin \<and> ur_disabled row = 0 \<longrightarrow> ur_id row \<in> {a, b}"
  shows "role_guard env ra b RoleUser now s = (Inr (), s) \<and> role_guard env rb a RoleUser now s = (Inr (), s)
    \<and> (\<exists>ua ub s1 s2. role_store b RoleUser tb s = (Inr ub, s1) \<and> role_store a RoleUser ta s1 = (Inr ua, s2)
         \<and> \<not> has_enabled_admin (aa_db s2))"
proof -
  have ab: "enabled_admin a (aa_db s)" "enabled_admin b (aa_db s)" using assms(3,4) by (simp_all add: acts_as_def)
  have n: "countAdmins (aa_db s) > 1" using countAdmins_two [OF ab assms(5,2)] .
  have guards: "role_guard env ra b RoleUser now s = (Inr (), s)" "role_guard env rb a RoleUser now s = (Inr (), s)"
    using n assms(5) by (simp_all add: role_guard_def acts_as_caller [OF assms(3)] acts_as_caller [OF assms(4)])
  let ?demote = "\<lambda>u. map (\<lambda>row. if ur_id row = u then row\<lparr>ur_role := RoleUser\<rparr> else row)"
  let ?s1 = "s\<lparr>aa_db := (aa_db s)\<lparr>a_users := ?demote b (a_users (aa_db s))\<rparr>\<rparr>"
  have 1: "role_store b RoleUser tb s = (Inr (tb\<lparr>u_Role := RoleUser\<rparr>), ?s1)" by (rule role_store_ok [OF ab(2) assms(7,1)])
  have "find (\<lambda>r. ur_id r = a) (?demote b rows) = find (\<lambda>r. ur_id r = a) rows" for rows :: "user_row list"
    using assms(5) by (induction rows) auto
  then have a1: "enabled_admin a (aa_db ?s1)" using ab(1) by (simp add: enabled_admin_def find_user_def)
  have ids: "map ur_id (a_users (aa_db ?s1)) = map ur_id (a_users (aa_db s))" by simp
  note 2 = role_store_ok [OF a1 assms(6), of ta, unfolded ids, OF assms(1)]
  have "\<not> has_enabled_admin ((aa_db s)\<lparr>a_users := ?demote a (?demote b (a_users (aa_db s)))\<rparr>)"
    using assms(8) by (auto simp: has_enabled_admin_def list_ex_iff RoleUser_def RoleAdmin_def)
  then show ?thesis using guards 1 2 by simp
qed

definition demo_pair :: AdminApp where
  "demo_pair = demo_admin\<lparr>aa_db := demo_accounts\<lparr>a_users := [demo_user ''alice'' ''Alice-pw1'' RoleAdmin 0 0, demo_user ''bob'' ''Bob-pass1'' RoleAdmin 0 0]\<rparr>\<rparr>"

lemma demo_pair_acts:
  "acts_as demo_genv (demo_get p ''s-alice'') (time_unix 9) ''alice'' (aa_db demo_pair)"
  "acts_as demo_genv (demo_get p ''s-bob'') (time_unix 9) ''bob'' (aa_db demo_pair)"
  by (simp_all add: acts_as_def demo_pair_def enabled_admin_def currentUserID_def ses_Get_def demo_guard_simps)

theorem concurrent_demotions_leave_no_admin_witness:
  "has_enabled_admin (aa_db demo_pair)
     \<and> (\<exists>ua ub s1 s2. role_store ''bob'' RoleUser (scan_user (demo_user ''bob'' ''Bob-pass1'' RoleAdmin 0 0)) demo_pair = (Inr ub, s1)
          \<and> role_store ''alice'' RoleUser (scan_user (demo_user ''alice'' ''Alice-pw1'' RoleAdmin 0 0)) s1 = (Inr ua, s2)
          \<and> \<not> has_enabled_admin (aa_db s2))"
proof -
  have users: "a_users (aa_db demo_pair) = [demo_user ''alice'' ''Alice-pw1'' RoleAdmin 0 0, demo_user ''bob'' ''Bob-pass1'' RoleAdmin 0 0]"
    by (simp add: demo_pair_def)
  have "has_enabled_admin (aa_db demo_pair)" by (simp add: has_enabled_admin_def users demo_user_def)
  then show ?thesis
    using concurrent_demotions_leave_no_admin [OF _ _ demo_pair_acts, of "''/a''" "''/b''"
        "scan_user (demo_user ''bob'' ''Bob-pass1'' RoleAdmin 0 0)" "scan_user (demo_user ''alice'' ''Alice-pw1'' RoleAdmin 0 0)"]
    by (simp add: users demo_user_def trim_space_visible visible_def)
qed

subsection \<open>Deciding access requests\<close>

lemma membership_added:
  assumes "AddUserToGroupUntil u g ex acc = Inr acc'"
  shows "(u, g, map_option unix ex) \<in> set (db_user_groups acc')"
  using assms by (force simp: AddUserToGroupUntil_def Let_def split: if_splits)

lemma decide_not_pending:
  assumes "distinct (map rr_id (a_requests (aa_db s)))" "find_request (ar_ID ar) (aa_db s) = Some row" "rr_status row \<noteq> RequestPending"
  shows "decide_request ar st who reason ex now s = (Inl (409, ''accessRequests.notPending''), s)"
proof -
  have row: "row \<in> set (a_requests (aa_db s))" "rr_id row = ar_ID ar" using find_in_set [OF assms(2) [unfolded find_request_def]] by simp_all
  have "filter (\<lambda>r. rr_id r = ar_ID ar \<and> rr_status r = RequestPending) (a_requests (aa_db s)) = []"
    using assms(1,3) row by (metis (mono_tags, lifting) distinct_map filter_empty_conv inj_onD)
  then show ?thesis using assms(2) by (simp add: decide_request_def req_Decide_def sql_update_def req_Get_def)
qed

lemma decide_stores:
  assumes "decide_request ar st who reason ex now s = (Inr y, s')" "distinct (map rr_id (a_requests (aa_db s)))"
  shows "\<exists>row. find_request (ar_ID ar) (aa_db s') = Some row \<and> rr_status row = st \<and> rr_expires_at row = map_option unix ex
     \<and> y = scanAccessRequest row \<and> (\<exists>old \<in> set (a_requests (aa_db s)). rr_id old = ar_ID ar \<and> rr_user_id row = rr_user_id old
           \<and> rr_group_id row = rr_group_id old \<and> rr_status old = RequestPending)"
    and "a_access (aa_db s') = a_access (aa_db s)" "map rr_id (a_requests (aa_db s')) = map rr_id (a_requests (aa_db s))"
proof -
  let ?P = "\<lambda>r. rr_id r = ar_ID ar \<and> rr_status r = RequestPending"
  let ?f = "\<lambda>r. r\<lparr>rr_status := st, rr_decided_at := Some (unix now), rr_decided_by := Some who,
                     rr_decision_note := Some reason, rr_expires_at := map_option unix ex\<rparr>"
  let ?rows = "map (\<lambda>r. if ?P r then ?f r else r) (a_requests (aa_db s))"
  have s': "s' = s\<lparr>aa_db := (aa_db s)\<lparr>a_requests := ?rows\<rparr>\<rparr>" and n: "length (filter ?P (a_requests (aa_db s))) = 1"
    and y: "y = (case req_Get (ar_ID ar) (aa_db s') of Inr updated \<Rightarrow> updated | Inl _ \<Rightarrow> ar)"
    using assms(1) by (auto simp: decide_request_def req_Decide_def sql_update_def split: if_splits sum.splits)
  then show "a_access (aa_db s') = a_access (aa_db s)" "map rr_id (a_requests (aa_db s')) = map rr_id (a_requests (aa_db s))" by simp_all
  from n obtain old where old: "old \<in> set (a_requests (aa_db s))" "?P old"
    by (metis (mono_tags, lifting) filter_empty_conv length_0_conv zero_neq_one)
  have only: "find (\<lambda>r. rr_id r = rr_id old) (map (\<lambda>r. if ?P r then ?f r else r) rows) = Some (?f old)"
    if "distinct (map rr_id rows)" "old \<in> set rows" for rows :: "request_row list"
    using that old(2) by (induction rows) (auto simp: image_iff)
  have "find_request (ar_ID ar) (aa_db s') = Some (?f old)"
    using only [OF assms(2) old(1)] old(2) by (simp add: find_request_def s')
  then show "\<exists>row. find_request (ar_ID ar) (aa_db s') = Some row \<and> rr_status row = st \<and> rr_expires_at row = map_option unix ex
     \<and> y = scanAccessRequest row \<and> (\<exists>old \<in> set (a_requests (aa_db s)). rr_id old = ar_ID ar \<and> rr_user_id row = rr_user_id old
           \<and> rr_group_id row = rr_group_id old \<and> rr_status old = RequestPending)"
    using old y by (intro exI [of _ "?f old"]) (auto simp: req_Get_def)
qed

lemma loadPending_row:
  assumes "loadPendingRequest raw db = Inr ar"
  obtains row where "find_request (ar_ID ar) db = Some row" "ar = scanAccessRequest row"
proof -
  obtain row where row: "find_request (trim_space raw) db = Some row" "ar = scanAccessRequest row"
    using assms by (auto simp: loadPendingRequest_def Let_def req_Get_def split: if_splits option.splits)
  then have "ar_ID ar = trim_space raw" using find_in_set by (fastforce simp: find_request_def scanAccessRequest_def)
  then show thesis using that row by simp
qed

lemma decide_find:
  assumes "decide_request ar st who reason ex now s = (Inr y, s')" "distinct (map rr_id (a_requests (aa_db s)))"
  obtains row where "find_request (ar_ID ar) (aa_db s') = Some row" "rr_status row = st"
  using decide_stores(1) [OF assms] by blast

text \<open>
  Approving grants before it decides: when the request is denied or withdrawn between the two,
  the approval is answered with a conflict, yet the membership it granted stays.
\<close>

theorem denied_request_still_granted:
  assumes "distinct (map rr_id (a_requests (aa_db s)))" "loadPendingRequest raw (aa_db s) = Inr ar"
    and "decide_request ar st who reason None t1 s = (Inr y, s1)" "st \<in> {RequestDenied, RequestCancelled}"
    and "approve_grant ar ex s1 = (Inr (), s2)"
  shows "decide_request ar RequestApproved adm why ex t2 s2 = (Inl (409, ''accessRequests.notPending''), s2)
    \<and> (ar_UserID ar, ar_GroupID ar, map_option unix ex) \<in> set (db_user_groups (a_access (aa_db s2)))
    \<and> (\<exists>row. find_request (ar_ID ar) (aa_db s2) = Some row \<and> rr_status row = st)"
proof -
  obtain row where row: "find_request (ar_ID ar) (aa_db s1) = Some row" "rr_status row = st"
    by (rule decide_find [OF assms(3,1)])
  obtain acc where acc: "AddUserToGroupUntil (ar_UserID ar) (ar_GroupID ar) ex (a_access (aa_db s1)) = Inr acc"
      "s2 = s1\<lparr>aa_db := (aa_db s1)\<lparr>a_access := acc\<rparr>\<rparr>"
    using assms(5) by (auto simp: approve_grant_def split: sum.splits)
  have "distinct (map rr_id (a_requests (aa_db s2)))" using decide_stores(3) [OF assms(3,1)] assms(1) by (simp add: acc(2))
  moreover have "find_request (ar_ID ar) (aa_db s2) = Some row" using row(1) by (simp add: acc(2) find_request_def)
  moreover have "rr_status row \<noteq> RequestPending"
    using row(2) assms(4) by (auto simp: RequestDenied_def RequestCancelled_def RequestPending_def)
  ultimately show ?thesis using decide_not_pending membership_added [OF acc(1)] row(2) by (auto simp: acc(2))
qed

text \<open>
  Approving a request that no one else decides gives exactly what the reply says: the request is
  approved, and its user is a member of its group until the expiry the reply shows, for ever when it
  shows none.
\<close>

theorem approval_grants_until:
  assumes "distinct (map rr_id (a_requests (aa_db s)))" "handleApproveAccessRequest env r raw body now s = (Inr ar, s')"
  shows "ar_Status ar = RequestApproved
    \<and> (\<exists>e. (ar_UserID ar, ar_GroupID ar, e) \<in> set (db_user_groups (a_access (aa_db s'))) \<and> ar_ExpiresAt ar = map_option time_unix e)
    \<and> (\<exists>u row. currentUserID env r now (aa_db s) = (u, aa_db s) \<and> find_user u (aa_db s) = Some row \<and> ur_role row = RoleAdmin)"
  using assms(2) unfolding handleApproveAccessRequest_def
proof (cases rule: as_admin_cases)
  case (admin u row)
  obtain old why ex s1 where *: "loadPendingRequest raw (aa_db s) = Inr old" "approve_grant old ex s = (Inr (), s1)"
      "decide_request old RequestApproved u why ex now s1 = (Inr ar, s')"
    using admin(1) by (auto simp: as_caller_known [OF admin(2)] and_then_def Let_def split: sum.splits if_splits prod.splits)
  obtain acc where acc: "AddUserToGroupUntil (ar_UserID old) (ar_GroupID old) ex (a_access (aa_db s)) = Inr acc"
      "s1 = s\<lparr>aa_db := (aa_db s)\<lparr>a_access := acc\<rparr>\<rparr>"
    using *(2) by (auto simp: approve_grant_def split: sum.splits)
  have d: "distinct (map rr_id (a_requests (aa_db s1)))" using assms(1) by (simp add: acc(2))
  obtain new prev where new: "ar = scanAccessRequest new" "rr_status new = RequestApproved" "rr_expires_at new = map_option unix ex"
      "prev \<in> set (a_requests (aa_db s))" "rr_id prev = ar_ID old" "rr_user_id new = rr_user_id prev" "rr_group_id new = rr_group_id prev"
    using decide_stores(1) [OF *(3) d] by (auto simp: acc(2))
  obtain row0 where row0: "find_request (ar_ID old) (aa_db s) = Some row0" "old = scanAccessRequest row0"
    by (rule loadPending_row [OF *(1)])
  have "row0 = prev" using find_in_set [OF row0(1) [unfolded find_request_def]] new(4,5) assms(1)
    by (metis (mono_tags, lifting) distinct_map inj_onD)
  then have ids: "ar_UserID ar = ar_UserID old" "ar_GroupID ar = ar_GroupID old"
    using new(1,6,7) row0(2) by (simp_all add: scanAccessRequest_def)
  have "a_access (aa_db s') = acc" using decide_stores(2) [OF *(3) d] by (simp add: acc(2))
  then have "(ar_UserID ar, ar_GroupID ar, map_option unix ex) \<in> set (db_user_groups (a_access (aa_db s')))"
    using membership_added [OF acc(1)] unfolding ids by (simp only:)
  moreover have "ar_Status ar = RequestApproved" "ar_ExpiresAt ar = map_option time_unix (map_option unix ex)"
    using new(1,2,3) by (simp_all add: scanAccessRequest_def)
  ultimately show ?thesis using admin by blast
qed simp

text \<open>Bob has asked for an hour in the group \<open>g1\<close>.\<close>

definition demo_asked :: request_row where
  "demo_asked = \<lparr>rr_id = ''q1'', rr_user_id = ''bob'', rr_group_id = ''g1'', rr_reason = [], rr_duration_seconds = 3600,
     rr_status = ''pending'', rr_created_at = 0, rr_decided_at = None, rr_decided_by = None, rr_decision_note = None, rr_expires_at = None\<rparr>"

definition demo_asking :: AdminApp where
  "demo_asking = demo_admin\<lparr>aa_db := demo_accounts\<lparr>a_requests := [demo_asked],
     a_access := demo_db\<lparr>db_users := [''alice'', ''bob''], db_groups := [(''g1'', ''ops'')], db_user_groups := []\<rparr>\<rparr>\<rparr>"

lemmas demo_asking_simps = demo_asking_def demo_asked_def decide_request_def req_Decide_def sql_update_def approve_grant_def
  AddUserToGroupUntil_def group_exists_def scanAccessRequest_def Let_def req_Get_def find_request_def RequestPending_def RequestDenied_def

lemma demo_asking_load: "loadPendingRequest ''q1'' (aa_db demo_asking) = Inr (scanAccessRequest demo_asked)"
  by (simp add: loadPendingRequest_def trim_space_visible visible_def demo_asking_simps)

theorem denied_request_still_granted_witness:
  "\<exists>y s1 s2. decide_request (scanAccessRequest demo_asked) RequestDenied ''alice'' [] None (time_unix 9) demo_asking = (Inr y, s1)
     \<and> approve_grant (scanAccessRequest demo_asked) None s1 = (Inr (), s2)
     \<and> (''bob'', ''g1'', None) \<in> set (db_user_groups (a_access (aa_db s2)))"
proof -
  obtain y s1 where d: "decide_request (scanAccessRequest demo_asked) RequestDenied ''alice'' [] None (time_unix 9) demo_asking = (Inr y, s1)"
    by (simp add: demo_asking_simps)
  then have acc: "a_access (aa_db s1) = a_access (aa_db demo_asking)"
    by (auto simp: demo_asking_simps)
  obtain s2 where g: "approve_grant (scanAccessRequest demo_asked) None s1 = (Inr (), s2)"
    using acc by (simp add: demo_asking_simps)
  have "distinct (map rr_id (a_requests (aa_db demo_asking)))" by (simp add: demo_asking_def)
  from denied_request_still_granted [OF this demo_asking_load d _ g] d g show ?thesis
    by (auto simp: scanAccessRequest_def demo_asked_def)
qed

lemma demo_asking_alice:
  "currentUserID demo_genv (demo_get p ''s-alice'') (time_unix 9) (aa_db demo_asking) = (''alice'', aa_db demo_asking)"
  "requireAdmin demo_genv (demo_get p ''s-alice'') (time_unix 9) (aa_db demo_asking) = (Inr (), aa_db demo_asking)"
  by (simp_all add: demo_asking_def requireAdmin_def currentUserID_def ses_Get_def demo_guard_simps)

theorem approval_grants_until_witness:
  "\<exists>ar s'. handleApproveAccessRequest demo_genv (demo_get ''/api'' ''s-alice'') ''q1'' None (time_unix 9) demo_asking = (Inr ar, s')
     \<and> ar_Status ar = RequestApproved \<and> ar_ExpiresAt ar = Some (time_unix 3609)"
proof -
  have ex: "approval_expiry 3600 (time_unix 9) = Some (time_unix 3609)"
    by (simp add: approval_expiry_def time_unix_def second_def unix_epoch_s_def)
  let ?old = "scanAccessRequest demo_asked"
  have "handleApproveAccessRequest demo_genv (demo_get ''/api'' ''s-alice'') ''q1'' None (time_unix 9) demo_asking
      = and_then (approve_grant ?old (Some (time_unix 3609)) demo_asking)
          (\<lambda>_. decide_request ?old RequestApproved ''alice'' [] (Some (time_unix 3609)) (time_unix 9))"
    by (simp add: handleApproveAccessRequest_def as_admin_def demo_asking_alice as_caller_known demo_asking_load decision_body_def
        accessRequestMaxDuration_def scanAccessRequest_def demo_asked_def ex Let_def)
  then obtain ar s' where ap: "handleApproveAccessRequest demo_genv (demo_get ''/api'' ''s-alice'') ''q1'' None (time_unix 9) demo_asking = (Inr ar, s')"
      and ar: "ar_ExpiresAt ar = Some (time_unix 3609)"
    by (simp add: and_then_def demo_asking_simps)
  have "distinct (map rr_id (a_requests (aa_db demo_asking)))" by (simp add: demo_asking_def)
  from approval_grants_until [OF this ap] ap ar show ?thesis by blast
qed

end
