(* ===== verification/CLI_Filter.thy ===== *)
theory CLI_Filter
  imports Command_Log
begin

text \<open>
  The terminal of the command-line gateway (\<open>src/internal/sshd\<close>): the output filter that keeps a
  target from drawing over the header (\<open>cli_output_filter.go\<close>) and
  the reader of the user's keys (\<open>cli_attach.go\<close>).  A panic is \<open>None\<close>; integers
  wrap at 64 bits; writes to the user's connection succeed.
\<close>

subsection \<open>Numbers\<close>

definition atoiBytes :: "bytes \<Rightarrow> int" where
  "atoiBytes b = foldl (\<lambda>n c. wrap64 (wrap64 (n * 10) + digit_val c)) 0 (takeWhile is_digit b)"

definition digit_char :: "int \<Rightarrow> char" where
  "digit_char d = char_of (nat d + 48)"

text \<open>The digits are written backwards into an array of 12 bytes; the first index below it panics.\<close>

fun itoa_loop :: "nat \<Rightarrow> int \<Rightarrow> bytes \<Rightarrow> bytes option" where
  "itoa_loop 0 n acc = (if n > 0 then None else Some acc)"
| "itoa_loop (Suc i) n acc = (if n > 0 then itoa_loop i (n div 10) (digit_char (n mod 10) # acc) else Some acc)"

definition itoa :: "int \<Rightarrow> bytes option" where
  "itoa n = (if n = 0 then Some ''0'' else itoa_loop 12 n [])"

subsection \<open>Control sequences\<close>

definition ansiRedrawHeader :: bytes where "ansiRedrawHeader = CHR 0x00 # ''vantyx-redraw-header''"
definition ansiSuppress :: bytes where "ansiSuppress = CHR 0x00 # ''vantyx-suppress''"

definition parseCSIRowCol :: "bytes \<Rightarrow> (int \<times> int) option" where
  "parseCSIRowCol body =
     (if body = [] then None
      else let parts = split_byte (CHR '';'') body;
               row = (if length parts \<ge> 1 \<and> length (parts ! 0) > 0 then atoiBytes (parts ! 0) else 1);
               col = (if length parts \<ge> 2 \<and> length (parts ! 1) > 0 then atoiBytes (parts ! 1) else 1)
        in Some (row, col))"

definition formatCSIRowCol :: "int \<Rightarrow> int \<Rightarrow> bytes option" where
  "formatCSIRowCol row col =
     (let row = (if row < 1 then 1 else row); col = (if col < 1 then 1 else col) in
      if row = 1 \<and> col = 1 then Some []
      else case (itoa row, itoa col) of (Some r, Some c) \<Rightarrow> Some (r @ '';'' @ c) | _ \<Rightarrow> None)"

definition rewriteCSI :: "bytes \<Rightarrow> int \<Rightarrow> bytes option" where
  "rewriteCSI sq headerLines =
     (if length sq < 3 then Some sq
      else let body = butlast (drop 2 sq); final = last sq; first = wrap64 (headerLines + 1) in
        if final = CHR ''H'' \<or> final = CHR ''f'' then
          (case parseCSIRowCol body of None \<Rightarrow> Some sq
           | Some (row, col) \<Rightarrow>
             let row = (if row > 0 \<and> row < first then first else row) in
             map_option (\<lambda>s. ESC # ''['' @ s @ [final]) (formatCSIRowCol row col))
        else if final = CHR ''r'' then Some ansiSuppress
        else if final = CHR ''J'' then (if body = ''2'' \<or> body = ''3'' then Some ansiRedrawHeader else Some sq)
        else Some sq)"

text \<open>
  The length of the control sequence at the start of the buffer, \<open>None\<close> while it is incomplete.
\<close>

fun csi_length :: "bytes \<Rightarrow> nat option" where
  "csi_length [] = None"
| "csi_length (c # s) = (if isCSIFinal c then Some 1 else map_option Suc (csi_length s))"

text \<open>
  The outer option is a panic, the inner one the \<open>nil\<close> that stands for an incomplete sequence.
\<close>

definition consumeCSI :: "bytes \<Rightarrow> int \<Rightarrow> (bytes \<times> bytes option) option" where
  "consumeCSI b headerLines = (case csi_length (drop 2 b) of None \<Rightarrow> Some (b, None)
     | Some k \<Rightarrow> map_option (\<lambda>out. (drop (2 + k) b, Some out)) (rewriteCSI (take (2 + k) b) headerLines))"

definition consumeANSI :: "bytes \<Rightarrow> int \<Rightarrow> (bytes \<times> bytes option) option" where
  "consumeANSI b headerLines =
     (if length b < 2 \<or> hd b \<noteq> ESC then Some (b, None)
      else if b ! 1 = CHR ''['' then consumeCSI b headerLines
      else Some (drop 2 b, Some (take 2 b)))"

subsection \<open>The filter\<close>

datatype cli_event = Out bytes | RedrawHeader

record cliOutputFilter =
  cf_headerLines :: int
  cf_buf :: bytes
  cf_onFullClear :: bool

definition newCLIOutputFilter :: "int \<Rightarrow> cliOutputFilter" where
  "newCLIOutputFilter headerLines = \<lparr>cf_headerLines = headerLines, cf_buf = [], cf_onFullClear = False\<rparr>"

definition emit_esc :: "bool \<Rightarrow> bytes \<Rightarrow> cli_event list" where
  "emit_esc onFullClear esc =
     (if esc = ansiRedrawHeader then (if onFullClear then [RedrawHeader] else [])
      else if esc \<noteq> ansiSuppress then [Out esc] else [])"

definition emit_text :: "bytes \<Rightarrow> cli_event list" where
  "emit_text p = (if p = [] then [] else [Out p])"

lemma csi_length_bounds: "csi_length s = Some k \<Longrightarrow> 0 < k \<and> k \<le> length s"
  by (induction s arbitrary: k) (auto split: if_splits)

lemma consumeANSI_shorter: "consumeANSI b hl = Some (rest, Some esc) \<Longrightarrow> length rest < length b"
  by (auto simp: consumeANSI_def consumeCSI_def split: if_splits option.splits dest!: csi_length_bounds)

lemma index_byte_bound: "index_byte s c = Some i \<Longrightarrow> i < length s"
  by (induction s arbitrary: i) (auto split: if_splits)

function write_loop :: "int \<Rightarrow> bool \<Rightarrow> bytes \<Rightarrow> (cli_event list \<times> bytes) option" where
  "write_loop hl clr buf = (case index_byte buf ESC of
     None \<Rightarrow> Some (emit_text buf, [])
   | Some idx \<Rightarrow> (case consumeANSI (drop idx buf) hl of
       None \<Rightarrow> None
     | Some (_, None) \<Rightarrow> Some (emit_text (take idx buf), drop idx buf)
     | Some (rest, Some esc) \<Rightarrow>
         map_option (\<lambda>(evs, buf'). (emit_text (take idx buf) @ emit_esc clr esc @ evs, buf')) (write_loop hl clr rest)))"
  by pat_completeness auto
termination
proof (relation "measure (\<lambda>(_, _, buf). length buf)", simp)
  fix hl clr buf idx rest esc p r
  assume "index_byte buf ESC = Some idx" "consumeANSI (drop idx buf) hl = Some p" "(rest, r) = p" "r = Some esc"
  then show "((hl, clr, rest), hl, clr, buf) \<in> measure (\<lambda>(_, _, buf). length buf)"
    using consumeANSI_shorter [of "drop idx buf" hl rest esc] by auto
qed

declare write_loop.simps [simp del]

definition cf_Write :: "bytes \<Rightarrow> cliOutputFilter \<Rightarrow> (cli_event list \<times> cliOutputFilter) option" where
  "cf_Write p f = map_option (\<lambda>(evs, buf). (evs, f\<lparr>cf_buf := buf\<rparr>))
     (write_loop (cf_headerLines f) (cf_onFullClear f) (cf_buf f @ p))"

subsection \<open>The keys of the user\<close>

record cliStreamAttachOpts =
  endOnCtrlD :: bool
  detachOnCtrlBracket :: bool

text \<open>Whether a key ends the attachment, and whether it ends the session.\<close>

definition stopForControl :: "cliStreamAttachOpts \<Rightarrow> char \<Rightarrow> (bool \<times> bool)" where
  "stopForControl opts b =
     (if detachOnCtrlBracket opts \<and> b = CHR 0x1D then (True, False)
      else if endOnCtrlD opts \<and> b = CHR 0x04 then (True, True)
      else (False, False))"

text \<open>
  One round of the reader: the bytes waiting in the channel, the first of which woke it up.  \<open>Inl\<close> is
  the return of the goroutine, with whether the session was ended; \<open>Inr\<close> the bytes sent to the bridge.
\<close>

fun read_burst :: "cliStreamAttachOpts \<Rightarrow> bytes \<Rightarrow> bytes \<Rightarrow> bool + bytes" where
  "read_burst opts buf [] = Inr buf"
| "read_burst opts buf (b # bs) = (case stopForControl opts b of
     (True, ended) \<Rightarrow> Inl ended | (False, _) \<Rightarrow> read_burst opts (buf @ [b]) bs)"

fun read_keys :: "cliStreamAttachOpts \<Rightarrow> bytes list \<Rightarrow> bytes list \<times> bool option" where
  "read_keys opts [] = ([], None)"
| "read_keys opts (burst # rest) = (if burst = [] then read_keys opts rest else
     case read_burst opts [] burst of Inl ended \<Rightarrow> ([], Some ended)
     | Inr sent \<Rightarrow> (case read_keys opts rest of (out, r) \<Rightarrow> (sent # out, r)))"

subsection \<open>Output is filtered as one stream\<close>

text \<open>What reaches the user: bytes, and redrawings of the header between them.\<close>

definition screen :: "cli_event list \<Rightarrow> (char + unit) list" where
  "screen evs = concat (map (\<lambda>e. case e of Out p \<Rightarrow> map Inl p | RedrawHeader \<Rightarrow> [Inr ()]) evs)"

lemma screen_simps [simp]:
  "screen [] = []" "screen (xs @ ys) = screen xs @ screen ys" "screen (emit_text p) = map Inl p"
  by (simp_all add: screen_def emit_text_def)

definition shown :: "(cli_event list \<times> 'b) option \<Rightarrow> ((char + unit) list \<times> 'b) option" where
  "shown = map_option (\<lambda>(evs, b). (screen evs, b))"

lemma shown_simps [simp]: "shown None = None" "shown (Some (evs, b)) = Some (screen evs, b)"
  by (simp_all add: shown_def)

definition after_text :: "(char + unit) list \<Rightarrow> ((char + unit) list \<times> 'b) option \<Rightarrow> ((char + unit) list \<times> 'b) option" where
  "after_text t = map_option (\<lambda>(s, b). (t @ s, b))"

lemma after_text_simps [simp]:
  "after_text t None = None" "after_text t (Some (s, b)) = Some (t @ s, b)" "after_text [] x = x"
  "after_text t (after_text u x) = after_text (t @ u) x"
  by (cases x; auto simp: after_text_def)+

lemma shown_map:
  "shown (map_option (\<lambda>(evs, b). (pre @ e @ evs, b)) x) = after_text (screen pre @ screen e) (shown x)"
  "shown (map_option (\<lambda>(evs, b). (e @ evs, b)) x) = after_text (screen e) (shown x)"
  by (cases x; auto)+

lemma index_byte_none: "index_byte s c = None \<longleftrightarrow> c \<notin> set s"
  by (induction s) auto

lemma index_byte_append: "c \<notin> set p \<Longrightarrow> index_byte (p @ s) c = map_option ((+) (length p)) (index_byte s c)"
proof (induction p)
  case (Cons a p)
  then show ?case by (cases "index_byte s c") auto
qed (simp add: option.map_ident_strong)

lemma index_byte_take: "index_byte s c = Some i \<Longrightarrow> c \<notin> set (take i s) \<and> hd (drop i s) = c"
  by (induction s arbitrary: i) (auto split: if_splits)

lemma write_loop_text: "ESC \<notin> set p \<Longrightarrow> shown (write_loop hl clr (p @ s)) = after_text (map Inl p) (shown (write_loop hl clr s))"
proof (cases "index_byte s ESC")
  case None
  then show ?thesis if "ESC \<notin> set p" using that
    by (simp add: write_loop.simps [of hl clr s] write_loop.simps [of hl clr "p @ s"] index_byte_append)
next
  case (Some i)
  then show ?thesis if "ESC \<notin> set p" using that
    by (auto simp: write_loop.simps [of hl clr s] write_loop.simps [of hl clr "p @ s"] index_byte_append shown_map split: option.split)
qed

lemma csi_length_append: "csi_length s = Some k \<Longrightarrow> csi_length (s @ t) = Some k"
  by (induction s arbitrary: k) (auto split: if_splits)

lemma consumeANSI_append:
  "consumeANSI b hl = Some (rest, Some esc) \<Longrightarrow> consumeANSI (b @ q) hl = Some (rest @ q, Some esc)"
  "consumeANSI b hl = None \<Longrightarrow> consumeANSI (b @ q) hl = None"
proof -
  show "consumeANSI (b @ q) hl = Some (rest @ q, Some esc)" if "consumeANSI b hl = Some (rest, Some esc)"
  proof -
    have "length b \<ge> 2" using that by (auto simp: consumeANSI_def split: if_splits)
    then obtain x y c where b: "b = x # y # c" by (cases b rule: remdups_adj.cases) auto
    show ?thesis using that csi_length_append csi_length_bounds [of c]
      by (auto simp: consumeANSI_def consumeCSI_def b split: if_splits option.splits)
  qed
  show "consumeANSI (b @ q) hl = None" if "consumeANSI b hl = None"
  proof -
    have "length b \<ge> 2" using that by (auto simp: consumeANSI_def split: if_splits)
    then obtain x y c where b: "b = x # y # c" by (cases b rule: remdups_adj.cases) auto
    show ?thesis using that csi_length_append csi_length_bounds [of c]
      by (auto simp: consumeANSI_def consumeCSI_def b split: if_splits option.splits)
  qed
qed

lemma write_loop_append:
  "shown (write_loop hl clr (buf @ q)) = (case write_loop hl clr buf of None \<Rightarrow> None
     | Some (evs, rem) \<Rightarrow> after_text (screen evs) (shown (write_loop hl clr (rem @ q))))"
proof (induction hl clr buf rule: write_loop.induct)
  case (1 hl clr buf)
  show ?case
  proof (cases "index_byte buf ESC")
    case None
    then show ?thesis using write_loop_text [of buf hl clr q] index_byte_none [of buf ESC] by (simp add: write_loop.simps [of hl clr buf] None)
  next
    case (Some i)
    note i = index_byte_take [OF Some] index_byte_bound [OF Some]
    have split: "shown (write_loop hl clr (buf @ q)) = after_text (map Inl (take i buf)) (shown (write_loop hl clr (drop i buf @ q)))"
      using write_loop_text [of "take i buf" hl clr "drop i buf @ q"] i by (simp flip: append_assoc)
    have esc: "index_byte (drop i buf @ q) ESC = Some 0" using i by (cases "drop i buf") auto
    show ?thesis
    proof (cases "consumeANSI (drop i buf) hl")
      case None
      then show ?thesis using Some split esc consumeANSI_append(2) [OF None, of q]
        by (simp add: write_loop.simps [of hl clr buf] write_loop.simps [of hl clr "drop i buf @ q"])
    next
      case (Some p)
      obtain rest r where p: "p = (rest, r)" by fastforce
      show ?thesis
      proof (cases r)
        case None
        then show ?thesis using \<open>index_byte buf ESC = Some i\<close> Some p split by (simp add: write_loop.simps [of hl clr buf])
      next
        case (Some esc')
        have c: "consumeANSI (drop i buf @ q) hl = Some (rest @ q, Some esc')"
          using consumeANSI_append(1) \<open>consumeANSI (drop i buf) hl = Some p\<close> p Some by simp
        have "shown (write_loop hl clr (drop i buf @ q)) = after_text (screen (emit_esc clr esc')) (shown (write_loop hl clr (rest @ q)))"
          using esc c by (simp add: write_loop.simps [of hl clr "drop i buf @ q"] shown_map emit_text_def)
        moreover have "shown (write_loop hl clr (rest @ q)) = (case write_loop hl clr rest of None \<Rightarrow> None
            | Some (evs, rem) \<Rightarrow> after_text (screen evs) (shown (write_loop hl clr (rem @ q))))"
          using 1 [OF \<open>index_byte buf ESC = Some i\<close> \<open>consumeANSI (drop i buf) hl = Some p\<close>] p Some by simp
        ultimately show ?thesis
          using split \<open>index_byte buf ESC = Some i\<close> \<open>consumeANSI (drop i buf) hl = Some p\<close> p Some
          by (simp add: write_loop.simps [of hl clr buf] split: option.split)
      qed
    qed
  qed
qed

text \<open>Several writes, one after the other.\<close>

fun write_chunks :: "bytes list \<Rightarrow> cliOutputFilter \<Rightarrow> (cli_event list \<times> cliOutputFilter) option" where
  "write_chunks [] f = Some ([], f)"
| "write_chunks (p # ps) f = (case cf_Write p f of None \<Rightarrow> None
     | Some (evs, f') \<Rightarrow> map_option (\<lambda>(evs', g). (evs @ evs', g)) (write_chunks ps f'))"

lemma cf_Write_append:
  "shown (cf_Write (p @ q) f) = (case cf_Write p f of None \<Rightarrow> None
     | Some (evs, f') \<Rightarrow> after_text (screen evs) (shown (cf_Write q f')))"
proof -
  have put: "shown (map_option (\<lambda>(evs, buf). (evs, f\<lparr>cf_buf := buf\<rparr>)) x) = map_option (\<lambda>(s, buf). (s, f\<lparr>cf_buf := buf\<rparr>)) (shown x)" for x
    by (cases x) auto
  have lift: "map_option (\<lambda>(s, buf). (s, f\<lparr>cf_buf := buf\<rparr>)) (after_text t x) = after_text t (map_option (\<lambda>(s, buf). (s, f\<lparr>cf_buf := buf\<rparr>)) x)" for t x
    by (cases x) auto
  show ?thesis
    using write_loop_append [of "cf_headerLines f" "cf_onFullClear f" "cf_buf f @ p" q]
    by (auto simp: cf_Write_def put lift split: option.split)
qed

text \<open>
  How the output of a target is cut into writes does not matter: the filter shows the user the
  same bytes with the header redrawn at the same places, keeps the same rest, and panics alike.
\<close>

theorem cli_filter_chunks_irrelevant: "shown (write_chunks (p # ps) f) = shown (cf_Write (concat (p # ps)) f)"
proof (induction ps arbitrary: p f)
  case Nil
  show ?case by (auto simp: shown_map split: option.split)
next
  case (Cons q ps)
  have "shown (write_chunks (p # q # ps) f)
      = (case cf_Write p f of None \<Rightarrow> None | Some (evs, f') \<Rightarrow> after_text (screen evs) (shown (write_chunks (q # ps) f')))"
    by (auto simp: shown_map simp del: write_chunks.simps(2) split: option.split) (simp_all add: shown_map)
  then show ?case unfolding Cons.IH cf_Write_append [of p "concat (q # ps)" f] concat.simps(2) [of p] .
qed

subsection \<open>Positions\<close>

lemma itoa_loop_ok:
  "0 \<le> n \<Longrightarrow> n < 10 ^ i \<Longrightarrow> i \<le> 12 \<Longrightarrow> \<exists>s. itoa_loop i n acc = Some (s @ acc) \<and> list_all is_digit s
     \<and> foldl (\<lambda>n c. wrap64 (wrap64 (n * 10) + digit_val c)) 0 s = n \<and> (0 < n \<longrightarrow> s \<noteq> [])"
proof (induction i arbitrary: n acc)
  case (Suc i)
  show ?case
  proof (cases "n > 0")
    case True
    let ?d = "digit_char (n mod 10)"
    have small: "n < 10 ^ 12" using Suc.prems(2,3) power_increasing [of "Suc i" 12 "10 :: int"] by simp
    have "n div 10 < P" if "n < 10 * P" for P :: int using that by presburger
    then have "0 \<le> n div 10" "n div 10 < 10 ^ i" using Suc.prems(1,2) by simp_all
    then obtain s where s: "itoa_loop i (n div 10) (?d # acc) = Some (s @ ?d # acc)" "list_all is_digit s"
        "foldl (\<lambda>n c. wrap64 (wrap64 (n * 10) + digit_val c)) 0 s = n div 10"
      using Suc.IH [of "n div 10" "?d # acc"] Suc.prems by auto
    have d: "is_digit ?d \<and> digit_val ?d = n mod 10"
    proof -
      obtain k where k: "n mod 10 = int k" "k < 10" using zero_le_imp_eq_int [of "n mod 10"] by auto
      then have "k \<in> {0, 1, 2, 3, 4, 5, 6, 7, 8, 9}" by auto
      then show ?thesis unfolding k(1) by (auto simp: digit_char_def is_digit_def digit_val_def less_eq_char_def)
    qed
    have "wrap64 (wrap64 (n div 10 * 10) + n mod 10) = n"
      using True small by (subst (1 2) wrap64_id) auto
    then show ?thesis using True s d by (intro exI [of _ "s @ [?d]"]) simp
  qed (use Suc.prems in auto)
qed simp

lemma itoa_ok:
  assumes "0 < n" "n < 10 ^ 12"
  obtains s where "itoa n = Some s" "list_all is_digit s" "s \<noteq> []" "atoiBytes s = n"
proof -
  obtain s where "itoa_loop 12 n [] = Some s" "list_all is_digit s" "s \<noteq> []"
      "foldl (\<lambda>n c. wrap64 (wrap64 (n * 10) + digit_val c)) 0 s = n"
    using itoa_loop_ok [of n 12 "[]"] assms by auto
  moreover from this(2) have tw: "takeWhile is_digit s = s" by (simp add: list_all_iff)
  ultimately show thesis using that [of s] assms(1) unfolding itoa_def atoiBytes_def tw by simp
qed

lemma itoa_loop_panic: "10 ^ i \<le> n \<Longrightarrow> itoa_loop i n acc = None"
proof (induction i arbitrary: n acc)
  case (Suc i)
  then have "10 ^ i \<le> n div 10" "n > 0" using zero_less_power [of "10 :: int" i] by (auto simp del: zero_less_power)
  then show ?case using Suc.IH by simp
qed simp

lemma itoa_panic: "10 ^ 12 \<le> n \<Longrightarrow> itoa n = None"
  using itoa_loop_panic [of 12 n "[]"] by (simp add: itoa_def)

lemma parse_format:
  assumes "list_all is_digit r" "r \<noteq> []" "list_all is_digit c" "c \<noteq> []"
  shows "parseCSIRowCol (r @ '';'' @ c) = Some (atoiBytes r, atoiBytes c)"
proof -
  have "CHR '';'' \<notin> set r" "CHR '';'' \<notin> set c" using assms by (auto simp: list_all_iff is_digit_def)
  then have "split_byte (CHR '';'') (r @ '';'' @ c) = [r, c]" using split_append [of "CHR '';''" r c] by (simp add: split_no_sep)
  then show ?thesis using assms by (simp add: parseCSIRowCol_def)
qed

text \<open>
  An absolute cursor position with explicit numbers below 10 to the 12 is passed on as the same
  kind of sequence, for the same column, and for the same row or, if the row is one of the header's,
  the first row below the header.
\<close>

theorem cursor_kept_below_header:
  assumes "parseCSIRowCol body = Some (row, col)" "1 \<le> row" "row < 10 ^ 12" "col < 10 ^ 12"
    and "1 \<le> hl" "hl < 10 ^ 11" "final \<in> {CHR ''H'', CHR ''f''}"
  shows "\<exists>body'. rewriteCSI (ESC # ''['' @ body @ [final]) hl = Some (ESC # ''['' @ body' @ [final])
    \<and> parseCSIRowCol body' = Some (max row (hl + 1), max col 1)"
proof -
  have first: "wrap64 (hl + 1) = hl + 1" using assms by (intro wrap64_id) auto
  let ?row = "max row (hl + 1)" and ?col = "max col 1"
  obtain r where r: "itoa ?row = Some r" "list_all is_digit r" "r \<noteq> []" "atoiBytes r = ?row"
    by (rule itoa_ok [of ?row]) (use assms in auto)
  obtain c where c: "itoa ?col = Some c" "list_all is_digit c" "c \<noteq> []" "atoiBytes c = ?col"
    by (rule itoa_ok [of ?col]) (use assms in auto)
  have "(if ?row < 1 then 1 else ?row) = ?row" "(if col < 1 then 1 else col) = ?col" "?row \<noteq> 1" using assms(2,5) by auto
  then have format: "formatCSIRowCol ?row col = Some (r @ '';'' @ c)" unfolding formatCSIRowCol_def by (simp add: r c Let_def)
  have "row \<le> hl \<Longrightarrow> ?row = hl + 1" "\<not> row \<le> hl \<Longrightarrow> ?row = row" by simp_all
  then have row: "row \<le> hl \<Longrightarrow> formatCSIRowCol (hl + 1) col = Some (r @ '';'' @ c)" "\<not> row \<le> hl \<Longrightarrow> formatCSIRowCol row col = Some (r @ '';'' @ c)"
    using format by simp_all
  have "rewriteCSI (ESC # ''['' @ body @ [final]) hl = Some (ESC # ''['' @ (r @ '';'' @ c) @ [final])"
  proof (cases "row \<le> hl")
    case True
    then show ?thesis using assms(2,7) by (auto simp: rewriteCSI_def assms(1) first row(1) [OF True] Let_def)
  next
    case False
    then show ?thesis using assms(2,7) by (auto simp: rewriteCSI_def assms(1) first row(2) [OF False] Let_def)
  qed
  moreover have "parseCSIRowCol (r @ '';'' @ c) = Some (?row, ?col)" using parse_format [OF r(2,3) c(2,3)] unfolding r(4) c(4) .
  ultimately show ?thesis by (intro exI [of _ "r @ '';'' @ c"] conjI)
qed

theorem cursor_kept_below_header_witness:
  "\<exists>body'. rewriteCSI (ESC # ''['' @ ''2;5'' @ ''H'') 3 = Some (ESC # ''['' @ body' @ ''H'') \<and> parseCSIRowCol body' = Some (4, 5)"
proof -
  have "parseCSIRowCol ''2;5'' = Some (2, 5)"
    by (simp add: parseCSIRowCol_def atoiBytes_def is_digit_def digit_val_def wrap64_id)
  from cursor_kept_below_header [OF this, of 3 "CHR ''H''"] show ?thesis by simp
qed

text \<open>
  A target ends the whole server with one sequence: a cursor position whose row has a value of
  10 to the 12 or more makes the filter index its array of digits out of bounds, whatever text
  precedes it.  No goroutine recovers from a panic.
\<close>

theorem long_row_panics:
  assumes "parseCSIRowCol body = Some (row, col)" "10 ^ 12 \<le> row" "list_all (\<lambda>c. \<not> isCSIFinal c) body"
    and "cf_buf f = []" "ESC \<notin> set text" "0 \<le> cf_headerLines f" "cf_headerLines f < 10 ^ 11"
  shows "cf_Write (text @ ESC # ''['' @ body @ ''H'' @ rest) f = None"
proof -
  let ?hl = "cf_headerLines f" and ?seq = "ESC # ''['' @ body @ ''H''"
  have len: "csi_length (body @ CHR ''H'' # rest) = Some (length body + 1)"
    using assms(3) by (induction body) (auto simp: isCSIFinal_def byte_def)
  have "wrap64 (?hl + 1) = ?hl + 1" using assms(6,7) by (intro wrap64_id) auto
  moreover have "formatCSIRowCol row col = None" using assms(2) itoa_panic by (simp add: formatCSIRowCol_def Let_def)
  ultimately have "rewriteCSI ?seq ?hl = None" using assms(1,2,7) by (simp add: rewriteCSI_def Let_def)
  then have "consumeANSI (ESC # ''['' @ body @ CHR ''H'' # rest) ?hl = None"
    using len by (simp add: consumeANSI_def consumeCSI_def)
  then have "write_loop ?hl (cf_onFullClear f) (ESC # ''['' @ body @ CHR ''H'' # rest) = None"
    by (simp add: write_loop.simps [of _ _ "ESC # _"])
  then have "shown (write_loop ?hl (cf_onFullClear f) (text @ ESC # ''['' @ body @ CHR ''H'' # rest)) = None"
    using write_loop_text [OF assms(5)] by simp
  then show ?thesis using assms(4) by (simp add: cf_Write_def shown_def)
qed

theorem long_row_panics_witness: "cf_Write (''hello'' @ ESC # ''['' @ ''1000000000000'' @ ''H'' @ []) (newCLIOutputFilter 3) = None"
proof (rule long_row_panics)
  show "parseCSIRowCol ''1000000000000'' = Some (1000000000000, 1)"
    by (simp add: parseCSIRowCol_def atoiBytes_def is_digit_def digit_val_def wrap64_id)
qed (simp_all add: newCLIOutputFilter_def isCSIFinal_def byte_def ESC_def)

text \<open>
  Sequences the filter does not guard: the cursor home without numbers, a row of zero, a relative
  row and an erasure above the cursor reach the header's rows.
\<close>

lemma home_not_guarded:
  "rewriteCSI (ESC # ''[H'') hl = Some (ESC # ''[H'')"
  "rewriteCSI (ESC # ''[0;0H'') hl = Some (ESC # ''[H'')"
  "rewriteCSI (ESC # ''[1d'') hl = Some (ESC # ''[1d'')"
  "rewriteCSI (ESC # ''[1J'') hl = Some (ESC # ''[1J'')"
  by (simp_all add: rewriteCSI_def parseCSIRowCol_def atoiBytes_def is_digit_def digit_val_def wrap64_id formatCSIRowCol_def Let_def)

text \<open>
  Keys typed before a detach or end key are sent when they arrive alone, and lost when they arrive in
  the same burst.
\<close>

lemma read_burst_stop:
  assumes "list_all (\<lambda>b. fst (stopForControl opts b) = False) typed" "stopForControl opts b = (True, ended)"
  shows "read_burst opts buf (typed @ b # later) = Inl ended"
  using assms by (induction typed arbitrary: buf) (auto split: prod.splits bool.splits)

lemma read_burst_send: "list_all (\<lambda>b. fst (stopForControl opts b) = False) typed \<Longrightarrow> read_burst opts buf typed = Inr (buf @ typed)"
  by (induction typed arbitrary: buf) (auto split: prod.splits bool.splits)

lemma keys_before_stop_lost:
  assumes "list_all (\<lambda>b. fst (stopForControl opts b) = False) typed" "typed \<noteq> []" "stopForControl opts b = (True, ended)"
  shows "read_keys opts [typed @ [b]] = ([], Some ended)" "read_keys opts [typed, [b]] = ([typed], Some ended)"
  using read_burst_stop [OF assms(1,3), of "[]" "[]"] read_burst_send [OF assms(1)] assms(2,3) by simp_all

end
