(* ===== verification/TFTP_Server.thy ===== *)
theory TFTP_Server
  imports Request_Guards
begin

text \<open>
  The embedded TFTP server: paths, write windows and the authorisation of a transfer
  (\<open>src/internal/tftp/server.go\<close>), the controller that starts and stops it
  (\<open>controller.go\<close>), and the HTTP handlers that open and close a write window
  (\<open>src/internal/httpapi/tftp_write_window.go\<close>, \<open>tftp_server_files.go\<close>).  An address is its bytes,
  empty for nil.  A transfer is followed up to the path it opens; the packets are those of a library.
\<close>

subsection \<open>Paths\<close>

text \<open>
  \<open>filepath.Clean\<close> and \<open>filepath.Join\<close> on a Unix system: the elements of the path are taken in turn,
  empty ones and single dots dropped, and a double dot removes the element before it; at the front it
  is kept, unless the path is rooted.
\<close>

abbreviation slash :: char where "slash \<equiv> CHR ''/''"

definition clean_step :: "bool \<Rightarrow> string \<Rightarrow> string list \<Rightarrow> string list" where
  "clean_step rooted seg out =
     (if seg = [] \<or> seg = ''.'' then out
      else if seg = ''..'' then
        (if out = [] then (if rooted then [] else [''..''])
         else if last out = ''..'' then out @ [''..''] else butlast out)
      else out @ [seg])"

definition clean_segments :: "bool \<Rightarrow> string list \<Rightarrow> string list" where
  "clean_segments rooted segs = fold (clean_step rooted) segs []"

definition is_rooted :: "string \<Rightarrow> bool" where
  "is_rooted path = (path \<noteq> [] \<and> hd path = slash)"

definition render_path :: "bool \<Rightarrow> string list \<Rightarrow> string" where
  "render_path rooted segs = (if rooted then slash # join_byte slash segs
     else if segs = [] then ''.'' else join_byte slash segs)"

definition path_Clean :: "string \<Rightarrow> string" where
  "path_Clean path = (if path = [] then ''.''
     else render_path (is_rooted path) (clean_segments (is_rooted path) (split_byte slash path)))"

definition path_Join :: "string \<Rightarrow> string \<Rightarrow> string" where
  "path_Join a b = (if a \<noteq> [] then path_Clean (a @ slash # b) else if b \<noteq> [] then path_Clean b else [])"

text \<open>The check both the server and the file handlers make: inside the directory, or the directory itself.\<close>

definition inside_or_same :: "string \<Rightarrow> string \<Rightarrow> bool" where
  "inside_or_same base full = (has_prefix full (base @ [slash]) \<or> full = base)"

definition safePath :: "string \<Rightarrow> string \<Rightarrow> string \<Rightarrow> string option" where
  "safePath rootDir targetID relPath =
     (let base = path_Clean (path_Join rootDir targetID); full = path_Clean (path_Join base relPath)
      in if inside_or_same base full then Some full else None)"

definition tftpServerRoot :: "string \<Rightarrow> string" where
  "tftpServerRoot env = (let root = trim_space env in if root = [] then ''/app/data/tftp'' else root)"

definition tftpServerTargetRoot :: "string \<Rightarrow> string \<Rightarrow> string" where
  "tftpServerTargetRoot env targetID = path_Join (tftpServerRoot env) targetID"

definition tftpServerFullPath :: "string \<Rightarrow> string \<Rightarrow> string \<Rightarrow> string option" where
  "tftpServerFullPath env targetID relPath =
     (let base = path_Clean (tftpServerTargetRoot env targetID) in
      if relPath = [] \<or> relPath = ''/'' then Some base
      else let rel = (if has_prefix relPath ''/'' then drop 1 relPath else relPath);
               full = path_Clean (path_Join base rel)
        in if inside_or_same base full then Some full else None)"

subsection \<open>Write windows\<close>

record tftpWindow =
  w_expires :: instant
  w_allowIP :: "nat list"

record TServer =
  ts_rootDir :: string
  ts_windows :: "(string, tftpWindow) gomap"
  ts_readWithoutWindow :: bool

definition NewServer :: "string \<Rightarrow> string \<Rightarrow> TServer" where
  "NewServer allowRead rootDir =
     \<lparr>ts_rootDir = rootDir, ts_windows = [], ts_readWithoutWindow = (allowRead = ''1'')\<rparr>"

definition OpenWriteWindow :: "string \<Rightarrow> nat list \<Rightarrow> duration \<Rightarrow> instant \<Rightarrow> TServer \<Rightarrow> TServer" where
  "OpenWriteWindow targetID clientIP ttl now s =
     (if ttl \<le> 0 then s\<lparr>ts_windows := AList.delete targetID (ts_windows s)\<rparr>
      else s\<lparr>ts_windows := AList.update targetID \<lparr>w_expires = now + ttl, w_allowIP = clientIP\<rparr> (ts_windows s)\<rparr>)"

definition CloseWriteWindow :: "string \<Rightarrow> instant \<Rightarrow> TServer \<Rightarrow> TServer" where
  "CloseWriteWindow targetID now s = OpenWriteWindow targetID [] 0 now s"

text \<open>\<open>IP.Equal\<close>: an IPv4 address and its form mapped into IPv6 are equal.\<close>

definition IP_Equal :: "nat list \<Rightarrow> nat list \<Rightarrow> bool" where
  "IP_Equal ip x = (if length ip = length x then ip = x
     else if length ip = 4 \<and> length x = 16 then x = v4_mapped ip
     else if length ip = 16 \<and> length x = 4 then ip = v4_mapped x else False)"

definition hasOpenWindow :: "string \<Rightarrow> nat list \<Rightarrow> instant \<Rightarrow> TServer \<Rightarrow> bool \<times> TServer" where
  "hasOpenWindow targetID clientIP now s = (case lookup (ts_windows s) targetID of None \<Rightarrow> (False, s)
     | Some w \<Rightarrow>
       if now > w_expires w then (False, s\<lparr>ts_windows := AList.delete targetID (ts_windows s)\<rparr>)
       else if w_allowIP w = [] \<or> clientIP = [] then (False, s)
       else (IP_Equal (w_allowIP w) clientIP, s))"

definition WriteWindowStatus :: "string \<Rightarrow> instant \<Rightarrow> TServer \<Rightarrow> (nat list \<times> instant) option \<times> TServer" where
  "WriteWindowStatus targetID now s = (case lookup (ts_windows s) targetID of None \<Rightarrow> (None, s)
     | Some w \<Rightarrow>
       if now > w_expires w then (None, s\<lparr>ts_windows := AList.delete targetID (ts_windows s)\<rparr>)
       else (Some (w_allowIP w, w_expires w), s))"

subsection \<open>Authorisation\<close>

datatype tftp_error = ManyTargetsForIP | NoTargetForIP | EmptyFilename | TargetNotFound | NotTFTP
  | HostNotIP | IPDenied | WriteDenied | ReadDenied | InvalidPath

definition enforceWindow :: "string \<Rightarrow> nat list \<Rightarrow> bool \<Rightarrow> instant \<Rightarrow> TServer \<Rightarrow> tftp_error option \<times> TServer" where
  "enforceWindow targetID clientIP isWrite now s =
     (if \<not> isWrite \<and> ts_readWithoutWindow s then (None, s)
      else case hasOpenWindow targetID clientIP now s of
        (True, s) \<Rightarrow> (None, s)
      | (False, s) \<Rightarrow> (Some (if isWrite then WriteDenied else ReadDenied), s))"

definition trim_slashes_left :: "string \<Rightarrow> string" where
  "trim_slashes_left s = dropWhile (\<lambda>c. c = slash) s"

definition host_is :: "nat list \<Rightarrow> Target \<Rightarrow> bool" where
  "host_is clientIP t = (case ParseIP (t_Host t) of None \<Rightarrow> False
     | Some tip \<Rightarrow> clientIP \<noteq> [] \<and> IP_Equal clientIP tip)"

text \<open>The requested name, cut at its first slash; \<open>None\<close> when it does not have the form \<open>id/path\<close>.\<close>

definition split_name :: "string \<Rightarrow> (string \<times> string) option" where
  "split_name trimmed = (case index_byte trimmed slash of None \<Rightarrow> None
     | Some i \<Rightarrow> let a = take i trimmed; b = drop (i + 1) trimmed
         in if a = [] \<or> b = [] then None else Some (a, b))"

definition tftp_authorize ::
  "tenv \<Rightarrow> AccessDB \<Rightarrow> nat list \<Rightarrow> string \<Rightarrow> bool \<Rightarrow> instant \<Rightarrow> TServer \<Rightarrow> (tftp_error + Target \<times> string) \<times> TServer" where
  "tftp_authorize te db clientIP filename isWrite now s =
     (let trimmed = trim_slashes_left filename in
      case split_name trimmed of
        None \<Rightarrow>
          (case filter (host_is clientIP) (ListByProtocol ProtocolTFTP db) of
             [] \<Rightarrow> (Inl NoTargetForIP, s)
           | [match] \<Rightarrow>
               if trimmed = [] then (Inl EmptyFilename, s)
               else (case enforceWindow (t_ID match) clientIP isWrite now s of
                   (Some e, s) \<Rightarrow> (Inl e, s) | (None, s) \<Rightarrow> (Inr (match, trimmed), s))
           | _ \<Rightarrow> (Inl ManyTargetsForIP, s))
      | Some (targetID, relPath) \<Rightarrow>
          (case tgt_Get te targetID db of Inl _ \<Rightarrow> (Inl TargetNotFound, s)
           | Inr target \<Rightarrow>
               if t_Protocol target \<noteq> ProtocolTFTP then (Inl NotTFTP, s)
               else case ParseIP (t_Host target) of None \<Rightarrow> (Inl HostNotIP, s)
                 | Some targetIP \<Rightarrow>
                     if clientIP = [] \<or> \<not> IP_Equal clientIP targetIP then (Inl IPDenied, s)
                     else (case enforceWindow (t_ID target) clientIP isWrite now s of
                         (Some e, s) \<Rightarrow> (Inl e, s) | (None, s) \<Rightarrow> (Inr (target, relPath), s))))"

text \<open>
  A read or write request up to the file it opens: authorise, then build the path.
\<close>

definition transfer_path ::
  "tenv \<Rightarrow> AccessDB \<Rightarrow> nat list \<Rightarrow> string \<Rightarrow> bool \<Rightarrow> instant \<Rightarrow> TServer \<Rightarrow> (tftp_error + Target \<times> string) \<times> TServer" where
  "transfer_path te db clientIP filename isWrite now s =
     (case tftp_authorize te db clientIP filename isWrite now s of
        (Inl e, s) \<Rightarrow> (Inl e, s)
      | (Inr (target, relPath), s) \<Rightarrow> (case safePath (ts_rootDir s) (t_ID target) relPath of
          None \<Rightarrow> (Inl InvalidPath, s) | Some full \<Rightarrow> (Inr (target, full), s)))"

abbreviation tftp_handleRead where "tftp_handleRead te db ip f now s \<equiv> transfer_path te db ip f False now s"
abbreviation tftp_handleWrite where "tftp_handleWrite te db ip f now s \<equiv> transfer_path te db ip f True now s"

subsection \<open>The controller\<close>

record tftp_controller =
  tc_refCount :: int
  tc_server :: "TServer option"
  tc_running :: bool

text \<open>What the process reads from its environment, and whether the root directory can be made.\<close>

record tftp_env =
  tv_root :: string
  tv_allow_read :: string
  tv_mkdir_ok :: bool

definition start_server :: "tftp_env \<Rightarrow> tftp_controller \<Rightarrow> tftp_controller" where
  "start_server v c = c\<lparr>tc_server := Some (NewServer (tv_allow_read v) (tftpServerRoot (tv_root v))), tc_running := True\<rparr>"

definition NotifyTargetCreated :: "tftp_env \<Rightarrow> Protocol \<Rightarrow> tftp_controller \<Rightarrow> tftp_controller" where
  "NotifyTargetCreated v proto c =
     (if proto \<noteq> ProtocolTFTP then c
      else let c = c\<lparr>tc_refCount := tc_refCount c + 1\<rparr> in
        if tc_running c then c else if \<not> tv_mkdir_ok v then c else start_server v c)"

definition StartServerIfNeeded :: "tftp_env \<Rightarrow> AccessDB \<Rightarrow> tftp_controller \<Rightarrow> tftp_controller" where
  "StartServerIfNeeded v db c =
     (let n = length (ListByProtocol ProtocolTFTP db) in
      if n = 0 then c
      else if tc_running c then c\<lparr>tc_refCount := tc_refCount c + int n\<rparr>
      else if \<not> tv_mkdir_ok v then c else start_server v (c\<lparr>tc_refCount := int n\<rparr>))"

definition tftp_Current :: "tftp_controller \<Rightarrow> TServer option" where
  "tftp_Current c = (if \<not> tc_running c then None else tc_server c)"

definition NotifyTargetDeleted :: "Protocol \<Rightarrow> tftp_controller \<Rightarrow> tftp_controller" where
  "NotifyTargetDeleted proto c =
     (if proto \<noteq> ProtocolTFTP then c
      else let c = (if tc_refCount c > 0 then c\<lparr>tc_refCount := tc_refCount c - 1\<rparr> else c) in
        if tc_refCount c > 0 then c else c\<lparr>tc_server := None, tc_running := False\<rparr>)"

definition isEmbeddedCompanionTarget :: "Target \<Rightarrow> Target list \<Rightarrow> bool" where
  "isEmbeddedCompanionTarget t sshTelnet =
     (t_Protocol t = ProtocolTFTP \<and> trim_space (t_Host t) \<noteq> []
      \<and> list_ex (\<lambda>x. t_Host x = t_Host t \<and> (t_Protocol x = ProtocolSSH \<or> t_Protocol x = ProtocolTelnet)
           \<and> t_TFTPEnabled x) sshTelnet)"

definition listSSHTelnetTargets :: "AccessDB \<Rightarrow> Target list" where
  "listSSHTelnetTargets db = ListByProtocol ProtocolSSH db @ ListByProtocol ProtocolTelnet db"

definition DisableAtStartup :: "AccessDB \<Rightarrow> AccessDB" where
  "DisableAtStartup db =
     (let sshTelnet = listSSHTelnetTargets db in
      fold (\<lambda>t db. if \<not> isEmbeddedCompanionTarget t sshTelnet then db
                   else case tgt_Delete (t_ID t) db of Inl _ \<Rightarrow> db | Inr db \<Rightarrow> db)
        (ListByProtocol ProtocolTFTP db) db)"

subsection \<open>The HTTP handlers of a write window\<close>

definition tftpWriteWindowDefaultTTL :: duration where "tftpWriteWindowDefaultTTL = 5 * minute"
definition tftpWriteWindowMaxTTL :: duration where "tftpWriteWindowMaxTTL = 30 * minute"

datatype Capability = CapabilityTerminal | CapabilityFileTransfer | CapabilityTFTPServer

definition Supports :: "Protocol \<Rightarrow> Capability \<Rightarrow> bool" where
  "Supports p cap = (case cap of
     CapabilityTerminal \<Rightarrow> p \<in> {ProtocolSSH, ProtocolTelnet, ProtocolRDP, ProtocolVNC}
   | CapabilityFileTransfer \<Rightarrow> p \<in> {ProtocolSSH, ProtocolFTP, ProtocolTFTP}
   | CapabilityTFTPServer \<Rightarrow> p = ProtocolTFTP)"

definition getTFTPServerTarget ::
  "guard_env \<Rightarrow> tenv \<Rightarrow> http_req \<Rightarrow> string \<Rightarrow> instant \<Rightarrow> AuthDB \<Rightarrow> (http_error + Target) \<times> AuthDB" where
  "getTFTPServerTarget env te r targetID now db =
     (case getSessionAndTargetWithAccess env te r targetID now db of
        (Inl e, db) \<Rightarrow> (Inl e, db)
      | (Inr (_, target), db) \<Rightarrow>
          if \<not> Supports (t_Protocol target) CapabilityTFTPServer then (Inl (400, ''tftp.notTFTPServer''), db)
          else (Inr target, db))"

record tftpWriteWindowStatusResponse =
  wr_Open :: bool
  wr_TargetID :: string
  wr_ClientIP :: "nat list"
  wr_ExpiresAt :: instant

definition tftpWriteWindowStatusFor ::
  "Target \<Rightarrow> instant \<Rightarrow> tftp_controller \<Rightarrow> tftpWriteWindowStatusResponse \<times> tftp_controller" where
  "tftpWriteWindowStatusFor target now c =
     (let closed = \<lparr>wr_Open = False, wr_TargetID = t_ID target, wr_ClientIP = [], wr_ExpiresAt = 0\<rparr> in
      case tftp_Current c of None \<Rightarrow> (closed, c)
      | Some srv \<Rightarrow> (case WriteWindowStatus (t_ID target) now srv of
          (None, srv) \<Rightarrow> (closed, c\<lparr>tc_server := Some srv\<rparr>)
        | (Some (ip, e), srv) \<Rightarrow> (\<lparr>wr_Open = True, wr_TargetID = t_ID target, wr_ClientIP = ip, wr_ExpiresAt = e\<rparr>,
            c\<lparr>tc_server := Some srv\<rparr>)))"

definition window_ttl :: "int \<Rightarrow> duration" where
  "window_ttl ttlSeconds =
     (if ttlSeconds > 0 then
        let ttl = wrap64 (ttlSeconds * second) in if ttl > tftpWriteWindowMaxTTL then tftpWriteWindowMaxTTL else ttl
      else tftpWriteWindowDefaultTTL)"

text \<open>
  The body of the request is its \<open>ttl_seconds\<close> (0 when the field or the whole body is missing), \<open>None\<close>
  when it does not decode.
\<close>

definition handleTFTPOpenWriteWindow ::
  "guard_env \<Rightarrow> tenv \<Rightarrow> http_req \<Rightarrow> string \<Rightarrow> int option \<Rightarrow> instant \<Rightarrow> AuthDB \<times> tftp_controller
     \<Rightarrow> (http_error + tftpWriteWindowStatusResponse) \<times> AuthDB \<times> tftp_controller" where
  "handleTFTPOpenWriteWindow env te r targetID body now s = (case s of (db, c) \<Rightarrow>
     if rq_Method r \<noteq> ''POST'' then (Inl (405, ''common.methodNotAllowed''), db, c)
     else case getTFTPServerTarget env te r targetID now db of
       (Inl e, db) \<Rightarrow> (Inl e, db, c)
     | (Inr target, db) \<Rightarrow> (case ParseIP (t_Host target) of
         None \<Rightarrow> (Inl (400, ''tftp.targetHostNotIP''), db, c)
       | Some clientIP \<Rightarrow> (case body of
           None \<Rightarrow> (Inl (400, ''common.invalidRequestBody''), db, c)
         | Some ttlSeconds \<Rightarrow> (case tftp_Current c of
             None \<Rightarrow> (Inl (503, ''common.serviceUnavailable''), db, c)
           | Some srv \<Rightarrow>
               (case tftpWriteWindowStatusFor target now
                   (c\<lparr>tc_server := Some (OpenWriteWindow (t_ID target) clientIP (window_ttl ttlSeconds) now srv)\<rparr>) of
                  (status, c) \<Rightarrow> (Inr status, db, c))))))"

definition handleTFTPCloseWriteWindow ::
  "guard_env \<Rightarrow> tenv \<Rightarrow> http_req \<Rightarrow> string \<Rightarrow> instant \<Rightarrow> AuthDB \<times> tftp_controller
     \<Rightarrow> (http_error + unit) \<times> AuthDB \<times> tftp_controller" where
  "handleTFTPCloseWriteWindow env te r targetID now s = (case s of (db, c) \<Rightarrow>
     if rq_Method r \<noteq> ''DELETE'' then (Inl (405, ''common.methodNotAllowed''), db, c)
     else case getTFTPServerTarget env te r targetID now db of
       (Inl e, db) \<Rightarrow> (Inl e, db, c)
     | (Inr target, db) \<Rightarrow> (case tftp_Current c of
         None \<Rightarrow> (Inl (503, ''common.serviceUnavailable''), db, c)
       | Some srv \<Rightarrow> (Inr (), db, c\<lparr>tc_server := Some (CloseWriteWindow (t_ID target) now srv)\<rparr>)))"

definition handleTFTPGetWriteWindow ::
  "guard_env \<Rightarrow> tenv \<Rightarrow> http_req \<Rightarrow> string \<Rightarrow> instant \<Rightarrow> AuthDB \<times> tftp_controller
     \<Rightarrow> (http_error + tftpWriteWindowStatusResponse) \<times> AuthDB \<times> tftp_controller" where
  "handleTFTPGetWriteWindow env te r targetID now s = (case s of (db, c) \<Rightarrow>
     if rq_Method r \<noteq> ''GET'' then (Inl (405, ''common.methodNotAllowed''), db, c)
     else case getTFTPServerTarget env te r targetID now db of
       (Inl e, db) \<Rightarrow> (Inl e, db, c)
     | (Inr target, db) \<Rightarrow> (case tftpWriteWindowStatusFor target now c of (status, c) \<Rightarrow> (Inr status, db, c)))"

subsection \<open>Cleaned paths\<close>

definition proper :: "string \<Rightarrow> bool" where
  "proper seg = (seg \<noteq> [] \<and> seg \<noteq> ''.'' \<and> seg \<noteq> ''..'' \<and> slash \<notin> set seg)"

text \<open>What cleaning leaves: double dots, none when the path is rooted, and then proper names.\<close>

definition clean_shape :: "bool \<Rightarrow> string list \<Rightarrow> bool" where
  "clean_shape rooted out = (\<exists>n ps. out = replicate n ''..'' @ ps \<and> list_all proper ps \<and> (rooted \<longrightarrow> n = 0))"

lemma proper_not_dots [simp]: "\<not> proper ''..''" "\<not> proper ''.''" "\<not> proper []"
  by (simp_all add: proper_def)

lemma clean_step_proper: "proper seg \<Longrightarrow> clean_step rooted seg out = out @ [seg]"
  by (auto simp: clean_step_def proper_def)

lemma clean_shapeI: "list_all proper ps \<Longrightarrow> (rooted \<Longrightarrow> n = 0) \<Longrightarrow> clean_shape rooted (replicate n ''..'' @ ps)"
  unfolding clean_shape_def by blast

lemma clean_shape_Nil [simp]: "clean_shape rooted []"
  using clean_shapeI [of "[]" rooted 0] by simp

lemma clean_shape_step:
  assumes "clean_shape rooted out" "slash \<notin> set seg"
  shows "clean_shape rooted (clean_step rooted seg out)"
proof -
  obtain n ps where out: "out = replicate n ''..'' @ ps" "list_all proper ps" "rooted \<longrightarrow> n = 0"
    using assms(1) by (auto simp: clean_shape_def)
  consider "seg = [] \<or> seg = ''.''" | "seg = ''..''" "ps = []" | "seg = ''..''" "ps \<noteq> []" | "proper seg"
    using assms(2) by (auto simp: proper_def)
  then show ?thesis
  proof cases
    case 1 then show ?thesis using assms(1) by (auto simp: clean_step_def)
  next
    case 2
    then have "clean_step rooted seg out = (if n = 0 \<and> rooted then [] else replicate (Suc n) ''..'' @ [])"
      using out by (cases n) (auto simp: clean_step_def replicate_append_same)
    then show ?thesis using out clean_shapeI [of "[]" rooted "Suc n"] by (auto simp del: replicate_Suc)
  next
    case 3
    then have "proper (last ps)" using out by (simp add: list_all_iff)
    then have "last ps \<noteq> ''..''" by (metis proper_not_dots(1))
    with 3 have "clean_step rooted seg out = replicate n ''..'' @ butlast ps"
      using out by (simp add: clean_step_def butlast_append)
    moreover have "list_all proper (butlast ps)" using out by (auto simp: list_all_iff dest: in_set_butlastD)
    ultimately show ?thesis using out clean_shapeI by simp
  next
    case 4
    then have "clean_step rooted seg out = replicate n ''..'' @ (ps @ [seg])" "list_all proper (ps @ [seg])"
      using out clean_step_proper by simp_all
    then show ?thesis using out clean_shapeI [of "ps @ [seg]"] by simp
  qed
qed

lemma clean_shape_fold:
  "clean_shape rooted out \<Longrightarrow> \<forall>seg \<in> set segs. slash \<notin> set seg \<Longrightarrow> clean_shape rooted (fold (clean_step rooted) segs out)"
  by (induction segs arbitrary: out) (auto intro: clean_shape_step)

lemma clean_shape_segments: "clean_shape rooted (clean_segments rooted (split_byte slash path))"
  unfolding clean_segments_def by (rule clean_shape_fold) (auto dest: set_split)

lemma fold_clean_proper: "list_all proper ps \<Longrightarrow> fold (clean_step rooted) ps out = out @ ps"
  by (induction ps arbitrary: out) (simp_all add: clean_step_proper)

lemma fold_clean_dots: "fold (clean_step False) (replicate n ''..'') (replicate m ''..'') = replicate (m + n) ''..''"
proof (induction n arbitrary: m)
  case (Suc n)
  have "clean_step False ''..'' (replicate m ''..'') = replicate (Suc m) ''..''"
    by (cases m) (simp_all add: clean_step_def replicate_append_same)
  then show ?case using Suc [of "Suc m"] by simp
qed simp

lemma clean_segments_shape:
  assumes "clean_shape rooted segs"
  shows "clean_segments rooted segs = segs"
proof -
  obtain n ps where segs: "segs = replicate n ''..'' @ ps" "list_all proper ps" "rooted \<longrightarrow> n = 0"
    using assms by (auto simp: clean_shape_def)
  have "fold (clean_step rooted) (replicate n ''..'') [] = replicate n ''..''"
    using segs(3) fold_clean_dots [of n 0] by (cases rooted) simp_all
  then have "fold (clean_step rooted) segs [] = segs" unfolding segs(1) fold_append comp_def fold_clean_proper [OF segs(2)] by simp
  then show ?thesis by (simp add: clean_segments_def)
qed

lemma clean_shape_no_slash:
  assumes "clean_shape rooted segs" "seg \<in> set segs"
  shows "seg \<noteq> [] \<and> slash \<notin> set seg"
proof -
  obtain n ps where segs: "segs = replicate n ''..'' @ ps" "list_all proper ps"
    using assms(1) unfolding clean_shape_def by metis
  then have "seg = ''..'' \<or> proper seg" using assms(2) by (simp add: list_all_iff) metis
  then show ?thesis by (elim disjE) (simp_all add: proper_def)
qed

lemma split_join: "segs \<noteq> [] \<Longrightarrow> \<forall>seg \<in> set segs. c \<notin> set seg \<Longrightarrow> split_byte c (join_byte c segs) = segs"
proof (induction segs rule: join_byte.induct)
  case (3 c w v ws)
  then show ?case by (simp add: split_append split_no_sep)
qed (simp_all add: split_no_sep)

lemma is_rooted_join: "segs \<noteq> [] \<Longrightarrow> hd segs \<noteq> [] \<Longrightarrow> slash \<notin> set (hd segs) \<Longrightarrow> \<not> is_rooted (join_byte slash segs)"
  by (cases segs; cases "tl segs"; cases "hd segs") (auto simp: is_rooted_def)

lemma is_rooted_render: 
  assumes "clean_shape rooted segs"
  shows "is_rooted (render_path rooted segs) = rooted"
proof (cases "rooted \<or> segs = []")
  case False
  then show ?thesis using is_rooted_join [of segs] clean_shape_no_slash [OF assms, of "hd segs"] by (simp add: render_path_def)
qed (auto simp: render_path_def is_rooted_def)

lemma split_render:
  assumes "clean_shape rooted segs" "rooted \<or> segs \<noteq> []"
  shows "clean_segments rooted (split_byte slash (render_path rooted segs) @ rest) = fold (clean_step rooted) rest segs"
proof -
  have drop: "clean_segments rooted ([] # xs) = clean_segments rooted xs" for xs by (simp add: clean_segments_def clean_step_def)
  have "clean_segments rooted (split_byte slash (render_path rooted segs)) = segs"
  proof (cases "segs = []")
    case True
    then show ?thesis using assms(2) drop [of "[[]]"] drop [of "[]"] by (simp add: render_path_def) (simp add: clean_segments_def)
  next
    case False
    then have "split_byte slash (join_byte slash segs) = segs"
      using clean_shape_no_slash [OF assms(1)] by (intro split_join) auto
    then show ?thesis using False clean_segments_shape [OF assms(1)] drop by (cases rooted) (simp_all add: render_path_def)
  qed
  then show ?thesis by (simp add: clean_segments_def)
qed

lemma path_Clean_render:
  assumes "clean_shape rooted segs" "rooted \<or> segs \<noteq> []"
  shows "path_Clean (render_path rooted segs) = render_path rooted segs"
proof -
  have "render_path rooted segs \<noteq> []" using assms clean_shape_no_slash [OF assms(1)]
    by (cases segs; cases "tl segs") (auto simp: render_path_def)
  then show ?thesis using split_render [OF assms, of "[]"] is_rooted_render [OF assms(1)] by (simp add: path_Clean_def)
qed

lemma path_Join_render:
  assumes "clean_shape rooted segs" "rooted \<or> segs \<noteq> []"
  shows "path_Join (render_path rooted segs) b = render_path rooted (fold (clean_step rooted) (split_byte slash b) segs)"
proof -
  have ne: "render_path rooted segs \<noteq> []" using assms clean_shape_no_slash [OF assms(1)]
    by (cases segs; cases "tl segs") (auto simp: render_path_def)
  then have "is_rooted (render_path rooted segs @ slash # b) = rooted"
    using is_rooted_render [OF assms(1)] by (simp add: is_rooted_def)
  then show ?thesis using ne split_render [OF assms] by (simp add: path_Join_def path_Clean_def split_append)
qed

lemma join_snoc: "segs \<noteq> [] \<Longrightarrow> r \<noteq> [] \<Longrightarrow> join_byte c (segs @ r) = join_byte c segs @ c # join_byte c r"
proof (induction segs rule: join_byte.induct)
  case (2 c w)
  then show ?case by (cases r) simp_all
qed simp_all

lemma target_directory:
  assumes "rootDir \<noteq> []" "proper tid"
  defines "segs \<equiv> clean_segments (is_rooted rootDir) (split_byte slash rootDir)"
  shows "path_Join rootDir tid = render_path (is_rooted rootDir) (segs @ [tid])" "clean_shape (is_rooted rootDir) (segs @ [tid])"
proof -
  have rooted: "is_rooted (rootDir @ slash # tid) = is_rooted rootDir" using assms(1) by (simp add: is_rooted_def)
  have "split_byte slash tid = [tid]" using assms(2) by (simp add: proper_def split_no_sep)
  then have *: "clean_segments (is_rooted rootDir) (split_byte slash (rootDir @ slash # tid)) = segs @ [tid]"
    using assms(2) by (simp add: segs_def clean_segments_def split_append clean_step_proper)
  show "path_Join rootDir tid = render_path (is_rooted rootDir) (segs @ [tid])"
    using assms(1) rooted * by (simp add: path_Join_def path_Clean_def)
  show "clean_shape (is_rooted rootDir) (segs @ [tid])" using clean_shape_segments [of "is_rooted rootDir" "rootDir @ slash # tid"] * by simp
qed

text \<open>A clean path below a directory that ends in a proper name goes down by proper names.\<close>

lemma below_directory:
  assumes "clean_shape rooted (segs @ [tid])" "proper tid" "clean_shape rooted fs" "rooted \<or> fs \<noteq> []"
    and "inside_or_same (render_path rooted (segs @ [tid])) (render_path rooted fs)"
  shows "\<exists>ps. list_all proper ps \<and> fs = segs @ [tid] @ ps"
proof (cases "fs = []")
  case True
  have "inside_or_same (slash # join_byte slash (segs @ [tid])) [slash]" using assms(4,5) True by (simp add: render_path_def)
  moreover have "join_byte slash (segs @ [tid]) \<noteq> []" using assms(2) join_snoc [of segs "[tid]"] by (cases "segs = []") (auto simp: proper_def)
  ultimately show ?thesis by (auto simp: inside_or_same_def has_prefix_def)
next
  case False
  have split: "split_byte slash (join_byte slash fs) = fs" "split_byte slash (join_byte slash (segs @ [tid])) = segs @ [tid]"
    using False clean_shape_no_slash [OF assms(1)] clean_shape_no_slash [OF assms(3)] by (intro split_join; auto)+
  have render: "render_path rooted fs = (if rooted then slash # join_byte slash fs else join_byte slash fs)"
    "render_path rooted (segs @ [tid]) = (if rooted then slash # join_byte slash (segs @ [tid]) else join_byte slash (segs @ [tid]))"
    using False by (simp_all add: render_path_def)
  consider "join_byte slash fs = join_byte slash (segs @ [tid])"
    | r where "join_byte slash fs = join_byte slash (segs @ [tid]) @ slash # r"
    using assms(5) unfolding inside_or_same_def render by (auto elim!: has_prefixE split: if_splits)
  then show ?thesis
  proof cases
    case 1
    then have "fs = segs @ [tid]" using split by metis
    then show ?thesis by (intro exI [of _ "[]"]) simp
  next
    case 2
    then have fs: "fs = segs @ [tid] @ split_byte slash r" using split split_append by (metis append.assoc)
    obtain n ps where shape: "fs = replicate n ''..'' @ ps" "list_all proper ps" using assms(3) by (auto simp: clean_shape_def)
    have "n \<le> length segs"
    proof (rule ccontr)
      assume "\<not> n \<le> length segs"
      then have "fs ! length segs = ''..''" using shape(1) by (simp add: nth_append)
      then show False using fs assms(2) by (simp add: nth_append)
    qed
    then have "list_all proper (drop (length segs) fs)" using shape by (auto simp: list_all_iff dest: in_set_dropD)
    then show ?thesis using fs by auto
  qed
qed

lemma valid_id_proper: "validateTargetID tid = None \<Longrightarrow> proper tid"
  by (auto simp: validateTargetID_def idPattern_def proper_def id_char_def is_alnum_def is_digit_def list_all_iff less_eq_char_def split: if_splits)

text \<open>Confined to a directory: the directory itself, or below it by proper names only.\<close>

definition confined :: "string \<Rightarrow> string \<Rightarrow> bool" where
  "confined base full = (\<exists>ps. list_all proper ps \<and> full = (if ps = [] then base else base @ slash # join_byte slash ps))"

lemma render_append: "segs \<noteq> [] \<Longrightarrow> ps \<noteq> [] \<Longrightarrow> render_path rooted (segs @ ps) = render_path rooted segs @ slash # join_byte slash ps"
  by (simp add: render_path_def join_snoc)

lemma confined_below:
  assumes "rootDir \<noteq> []" "proper tid" "inside_or_same (path_Join rootDir tid) (path_Clean (path_Join (path_Join rootDir tid) rel))"
  shows "confined (path_Join rootDir tid) (path_Clean (path_Join (path_Join rootDir tid) rel))"
proof -
  define segs where "segs = clean_segments (is_rooted rootDir) (split_byte slash rootDir)"
  note dir = target_directory [OF assms(1,2), folded segs_def]
  let ?rt = "is_rooted rootDir" let ?fs = "fold (clean_step ?rt) (split_byte slash rel) (segs @ [tid])"
  have shape: "clean_shape ?rt ?fs" by (rule clean_shape_fold [OF dir(2)]) (auto dest: set_split)
  have join: "path_Join (path_Join rootDir tid) rel = render_path ?rt ?fs" unfolding dir(1) by (rule path_Join_render [OF dir(2)]) simp
  show ?thesis
  proof (cases "?rt \<or> ?fs \<noteq> []")
    case True
    then have full: "path_Clean (path_Join (path_Join rootDir tid) rel) = render_path ?rt ?fs"
      using path_Clean_render [OF shape] join by simp
    obtain ps where ps: "list_all proper ps" "?fs = segs @ [tid] @ ps"
      using below_directory [OF dir(2) assms(2) shape True] assms(3) full dir(1) by auto
    have "render_path ?rt ?fs = (if ps = [] then path_Join rootDir tid else path_Join rootDir tid @ slash # join_byte slash ps)"
      unfolding ps(2) dir(1) using render_append [of "segs @ [tid]" ps] by simp
    then show ?thesis using full ps(1) by (auto simp: confined_def)
  next
    case False
    then have "path_Clean (path_Join (path_Join rootDir tid) rel) = ''.''"
      unfolding join by (simp add: render_path_def path_Clean_def is_rooted_def clean_segments_def clean_step_def)
    moreover have "path_Join rootDir tid \<noteq> ''.''" "path_Join rootDir tid \<noteq> []"
    proof -
      have "path_Join rootDir tid = join_byte slash (segs @ [tid])" using False dir(1) by (simp add: render_path_def)
      moreover have "split_byte slash (join_byte slash (segs @ [tid])) = segs @ [tid]"
        by (rule split_join) (use clean_shape_no_slash [OF dir(2)] in auto)
      ultimately have "split_byte slash (path_Join rootDir tid) = segs @ [tid]" by simp
      then show "path_Join rootDir tid \<noteq> ''.''" "path_Join rootDir tid \<noteq> []" using assms(2) by (auto simp: append_eq_Cons_conv)
    qed
    ultimately show ?thesis using assms(3) by (cases "path_Join rootDir tid") (auto simp: inside_or_same_def has_prefix_def)
  qed
qed

lemma path_Clean_Join: "rootDir \<noteq> [] \<Longrightarrow> proper tid \<Longrightarrow> path_Clean (path_Join rootDir tid) = path_Join rootDir tid"
  using target_directory path_Clean_render by simp

lemma safePath_confined: "rootDir \<noteq> [] \<Longrightarrow> proper tid \<Longrightarrow> safePath rootDir tid rel = Some full \<Longrightarrow> confined (path_Join rootDir tid) full"
  using confined_below [of rootDir tid rel] by (simp add: safePath_def Let_def path_Clean_Join split: if_splits)

lemma tftpServerRoot_nonempty: "tftpServerRoot env \<noteq> []"
  by (simp add: tftpServerRoot_def Let_def)

text \<open>
  C3. Whatever path a TFTP client or a user of the file handlers asks for, the path that is opened is
  the directory of the target below the root directory, or lies below it by proper names only: no
  empty name, no single or double dot.
\<close>

theorem tftp_paths_confined:
  assumes "validateTargetID tid = None"
  shows "(rootDir \<noteq> [] \<longrightarrow> safePath rootDir tid rel = Some full \<longrightarrow> confined (path_Join rootDir tid) full)
    \<and> (tftpServerFullPath env tid rel = Some full \<longrightarrow> confined (tftpServerTargetRoot env tid) full)"
proof (intro conjI impI)
  note tid = valid_id_proper [OF assms]
  show "confined (path_Join rootDir tid) full" if "rootDir \<noteq> []" "safePath rootDir tid rel = Some full"
    using safePath_confined tid that by blast
  assume "tftpServerFullPath env tid rel = Some full"
  moreover have "confined base base" for base unfolding confined_def by (intro exI [of _ "[]"]) simp
  ultimately show "confined (tftpServerTargetRoot env tid) full"
    using path_Clean_Join [OF tftpServerRoot_nonempty tid] confined_below [OF tftpServerRoot_nonempty tid]
    by (auto simp: tftpServerFullPath_def tftpServerTargetRoot_def Let_def split: if_splits)
qed

lemmas path_eval = safePath_def path_Join_def path_Clean_def is_rooted_def clean_segments_def clean_step_def render_path_def
  inside_or_same_def has_prefix_def Let_def

theorem tftp_paths_confined_witness:
  "safePath ''/r'' ''sw'' ''a/../b'' = Some ''/r/sw/b'' \<and> confined (path_Join ''/r'' ''sw'') ''/r/sw/b''
     \<and> safePath ''/r'' ''sw'' ''../x'' = None"
proof (intro conjI)
  have "validateTargetID ''sw'' = None" by (simp add: validateTargetID_def maxIDLen_def idPattern_def id_char_def is_alnum_def is_digit_def)
  note * = tftp_paths_confined [OF this, of "''/r''" "''a/../b''" "''/r/sw/b''"]
  show path: "safePath ''/r'' ''sw'' ''a/../b'' = Some ''/r/sw/b''" by (simp add: path_eval)
  show "confined (path_Join ''/r'' ''sw'') ''/r/sw/b''" using * path by simp
  show "safePath ''/r'' ''sw'' ''../x'' = None" by (simp add: path_eval)
qed

subsection \<open>Authorised transfers\<close>

lemma hasOpenWindow_True:
  "hasOpenWindow tid ip now s = (True, s') \<Longrightarrow>
     s' = s \<and> ip \<noteq> [] \<and> (\<exists>w. lookup (ts_windows s) tid = Some w \<and> now \<le> w_expires w \<and> IP_Equal (w_allowIP w) ip)"
  by (auto simp: hasOpenWindow_def split: option.splits if_splits)

lemma enforceWindow_None:
  "enforceWindow tid ip isWrite now s = (None, s') \<Longrightarrow>
     s' = s \<and> (isWrite \<or> \<not> ts_readWithoutWindow s \<longrightarrow>
       (\<exists>w. lookup (ts_windows s) tid = Some w \<and> now \<le> w_expires w \<and> IP_Equal (w_allowIP w) ip))"
  by (auto simp: enforceWindow_def dest!: hasOpenWindow_True split: if_splits prod.splits bool.splits)

lemma listed_target: "t \<in> set (ListByProtocol p db) \<Longrightarrow>
   \<exists>r \<in> set (db_targets db). tr_id r = t_ID t \<and> tr_protocol r = p \<and> tr_host r = t_Host t"
  by (force simp: ListByProtocol_def split: if_splits)

lemma got_target: "tgt_Get te tid db = Inr t \<Longrightarrow>
   \<exists>r \<in> set (db_targets db). tr_id r = t_ID t \<and> tr_protocol r = t_Protocol t \<and> tr_host r = t_Host t"
  by (auto simp: tgt_Get_def row_target_def dest!: find_in_set split: option.splits if_splits)

definition tftp_row_for :: "AccessDB \<Rightarrow> nat list \<Rightarrow> string \<Rightarrow> bool" where
  "tftp_row_for db ip tid = (\<exists>r \<in> set (db_targets db). tr_id r = tid \<and> tr_protocol r = ProtocolTFTP
     \<and> (\<exists>tip. ParseIP (tr_host r) = Some tip \<and> IP_Equal ip tip))"

definition window_for :: "TServer \<Rightarrow> string \<Rightarrow> nat list \<Rightarrow> instant \<Rightarrow> bool" where
  "window_for s tid ip now = (\<exists>w. lookup (ts_windows s) tid = Some w \<and> now \<le> w_expires w \<and> IP_Equal (w_allowIP w) ip)"

lemma authorize_sound:
  assumes "tftp_authorize te db ip filename isWrite now s = (Inr (target, rel), s')"
  shows "s' = s \<and> ip \<noteq> [] \<and> tftp_row_for db ip (t_ID target)
    \<and> (isWrite \<or> \<not> ts_readWithoutWindow s \<longrightarrow> window_for s (t_ID target) ip now)"
proof (cases "split_name (trim_slashes_left filename)")
  case None
  then obtain match where m: "filter (host_is ip) (ListByProtocol ProtocolTFTP db) = [match]" "match = target"
    "enforceWindow (t_ID target) ip isWrite now s = (None, s')"
    using assms by (auto simp: tftp_authorize_def Let_def split: list.splits if_splits prod.splits option.splits)
  have "target \<in> set (filter (host_is ip) (ListByProtocol ProtocolTFTP db))" using m by simp
  then have "target \<in> set (ListByProtocol ProtocolTFTP db)" "host_is ip target" unfolding set_filter by blast+
  moreover from this obtain tip where "ParseIP (t_Host target) = Some tip" "ip \<noteq> []" "IP_Equal ip tip"
    by (auto simp: host_is_def split: option.splits)
  ultimately show ?thesis using listed_target [of target ProtocolTFTP db] enforceWindow_None [OF m(3)]
    unfolding tftp_row_for_def window_for_def by metis
next
  case (Some x)
  obtain tid r where x: "x = (tid, r)" by force
  then obtain tip where "tgt_Get te tid db = Inr target" "t_Protocol target = ProtocolTFTP" "ParseIP (t_Host target) = Some tip"
    "ip \<noteq> []" "IP_Equal ip tip" and e: "enforceWindow (t_ID target) ip isWrite now s = (None, s')"
    using assms Some by (auto simp: tftp_authorize_def Let_def split: sum.splits if_splits prod.splits option.splits)
  then show ?thesis using got_target [of te tid db target] enforceWindow_None [OF e]
    unfolding tftp_row_for_def window_for_def by metis
qed

text \<open>
  C2. A TFTP transfer opens a file only in the directory of a TFTP target whose host is the address of
  the client, and a write, or a read unless the operator lifted the rule, only while a window for
  that target and that address is open.
\<close>

theorem tftp_transfer_authorised:
  assumes "transfer_path te db ip filename isWrite now s = (Inr (target, full), s')"
    and "\<And>r. r \<in> set (db_targets db) \<Longrightarrow> validateTargetID (tr_id r) = None" "ts_rootDir s \<noteq> []"
  shows "tftp_row_for db ip (t_ID target) \<and> confined (path_Join (ts_rootDir s) (t_ID target)) full
    \<and> (isWrite \<or> \<not> ts_readWithoutWindow s \<longrightarrow> window_for s (t_ID target) ip now)"
proof -
  obtain rel where a: "tftp_authorize te db ip filename isWrite now s = (Inr (target, rel), s')"
    and p: "safePath (ts_rootDir s') (t_ID target) rel = Some full"
  proof (cases "tftp_authorize te db ip filename isWrite now s")
    case (Pair x s1)
    show ?thesis
    proof (cases x)
      case (Inr y)
      obtain t rel where y: "y = (t, rel)" by force
      have "(Inr (target, full), s') = (case safePath (ts_rootDir s1) (t_ID t) rel of
          None \<Rightarrow> (Inl InvalidPath, s1) | Some full \<Rightarrow> (Inr (t, full), s1))"
        using assms(1) by (simp add: transfer_path_def Pair Inr y)
      then have "t = target" "s1 = s'" "safePath (ts_rootDir s') (t_ID target) rel = Some full" by (auto split: option.splits)
      then show ?thesis using that Pair Inr y by simp
    qed (use assms(1) Pair in \<open>simp add: transfer_path_def\<close>)
  qed
  note sound = authorize_sound [OF a]
  then have row: "tftp_row_for db ip (t_ID target)" by (elim conjE)
  then obtain r where "r \<in> set (db_targets db)" "tr_id r = t_ID target" by (auto simp: tftp_row_for_def)
  then have "proper (t_ID target)" using assms(2) [of r] valid_id_proper by simp
  then have "confined (path_Join (ts_rootDir s) (t_ID target)) full" using safePath_confined [OF assms(3)] p sound by simp
  then show ?thesis using row sound by simp
qed

definition demo_tftp_row :: target_row where
  "demo_tftp_row = (demo_target ''sw7'' ''lab'')\<lparr>tr_protocol := ProtocolTFTP, tr_host := ''10.0.0.7'', tr_port := 69\<rparr>"

definition demo_tftp :: AccessDB where
  "demo_tftp = \<lparr>db_users = [], db_groups = [(''lab'', ''Lab'')], db_targets = [demo_tftp_row],
     db_user_groups = [], db_group_targets = [], db_group_tags = [], db_target_tags = [], db_user_tags = []\<rparr>"

definition demo_server :: TServer where
  "demo_server = OpenWriteWindow ''sw7'' (v4_mapped [10, 0, 0, 7]) minute (time_unix 9) (NewServer [] ''/r'')"

lemmas ip_eval = ParseIP_def parse_ipv4_def ipv4_field_def digits_val_def digit_val_def is_digit_def v4_mapped_def IP_Equal_def
  replicate_num

theorem tftp_transfer_authorised_witness:
  "transfer_path Access_Targets.demo_env demo_tftp [10, 0, 0, 7] ''/sw7/conf/boot'' True (time_unix 10) demo_server
     = (Inr (row_target Access_Targets.demo_env demo_tftp_row, ''/r/sw7/conf/boot''), demo_server)
   \<and> tftp_row_for demo_tftp [10, 0, 0, 7] ''sw7'' \<and> window_for demo_server ''sw7'' [10, 0, 0, 7] (time_unix 10)"
proof -
  let ?row = demo_tftp_row
  have row: "tr_id ?row = ''sw7''" "t_ID (row_target Access_Targets.demo_env ?row) = ''sw7''" "t_Protocol (row_target Access_Targets.demo_env ?row) = ProtocolTFTP"
    "t_Host (row_target Access_Targets.demo_env ?row) = ''10.0.0.7''" "tr_port ?row = 69" "db_targets demo_tftp = [?row]"
    by (simp_all add: demo_tftp_def demo_tftp_row_def demo_target_def row_target_def)
  have window: "enforceWindow ''sw7'' [10, 0, 0, 7] True (time_unix 10) demo_server = (None, demo_server)"
    by (simp add: enforceWindow_def hasOpenWindow_def demo_server_def OpenWriteWindow_def NewServer_def go_simps time_unix_def
        ip_eval)
  have "tgt_Get Access_Targets.demo_env ''sw7'' demo_tftp = Inr (row_target Access_Targets.demo_env ?row)"
    by (simp add: tgt_Get_def row(6) port_ok_def) (simp add: row)
  moreover have "ParseIP ''10.0.0.7'' = Some (v4_mapped [10, 0, 0, 7])" by (simp add: ip_eval)
  ultimately have auth: "tftp_authorize Access_Targets.demo_env demo_tftp [10, 0, 0, 7] ''/sw7/conf/boot'' True (time_unix 10) demo_server
      = (Inr (row_target Access_Targets.demo_env ?row, ''conf/boot''), demo_server)"
    by (simp add: tftp_authorize_def trim_slashes_left_def split_name_def Let_def row window) (simp add: ip_eval)
  have "safePath ''/r'' ''sw7'' ''conf/boot'' = Some ''/r/sw7/conf/boot''" by (simp add: path_eval)
  moreover have root: "ts_rootDir demo_server = ''/r''" by (simp add: demo_server_def OpenWriteWindow_def NewServer_def go_simps)
  ultimately have *: "transfer_path Access_Targets.demo_env demo_tftp [10, 0, 0, 7] ''/sw7/conf/boot'' True (time_unix 10) demo_server
      = (Inr (row_target Access_Targets.demo_env ?row, ''/r/sw7/conf/boot''), demo_server)" by (simp add: transfer_path_def auth row)
  have "validateTargetID (tr_id r) = None" if "r \<in> set (db_targets demo_tftp)" for r
    using that unfolding row(6) by (simp add: row validateTargetID_def maxIDLen_def idPattern_def id_char_def is_alnum_def is_digit_def)
  from tftp_transfer_authorised [OF * this] show ?thesis using * by (simp add: row root)
qed

subsection \<open>Windows refine the history of openings\<close>

text \<open>What may happen to the windows; closing is an opening for no time.\<close>

datatype window_op = WOpen string "nat list" duration | WCheck string "nat list" | WStatus string

fun window_step :: "instant \<times> window_op \<Rightarrow> TServer \<Rightarrow> TServer" where
  "window_step (t, WOpen tid ip ttl) s = OpenWriteWindow tid ip ttl t s"
| "window_step (t, WCheck tid ip) s = snd (hasOpenWindow tid ip t s)"
| "window_step (t, WStatus tid) s = snd (WriteWindowStatus tid t s)"

fun opens :: "string \<Rightarrow> instant \<times> window_op \<Rightarrow> bool" where
  "opens tid (t, WOpen tid' ip ttl) = (tid' = tid)"
| "opens tid _ = False"

text \<open>The specification: the window of a target is what its last opening in the history says.\<close>

definition window_spec :: "(instant \<times> window_op) list \<Rightarrow> string \<Rightarrow> instant \<Rightarrow> tftpWindow option" where
  "window_spec ops tid now = (case find (opens tid) (rev ops) of
     Some (t, WOpen _ ip ttl) \<Rightarrow> if 0 < ttl \<and> now \<le> t + ttl then Some \<lparr>w_expires = t + ttl, w_allowIP = ip\<rparr> else None
   | _ \<Rightarrow> None)"

definition live_window :: "TServer \<Rightarrow> string \<Rightarrow> instant \<Rightarrow> tftpWindow option" where
  "live_window s tid now = (case lookup (ts_windows s) tid of None \<Rightarrow> None
     | Some w \<Rightarrow> if now \<le> w_expires w then Some w else None)"

lemma live_window_step:
  "t \<le> now \<Longrightarrow> live_window (window_step (t, a) s) tid now =
     (case a of WOpen tid' ip ttl \<Rightarrow> if tid' = tid
          then (if 0 < ttl \<and> now \<le> t + ttl then Some \<lparr>w_expires = t + ttl, w_allowIP = ip\<rparr> else None)
          else live_window s tid now
      | _ \<Rightarrow> live_window s tid now)"
  by (cases a) (auto simp: live_window_def OpenWriteWindow_def hasOpenWindow_def WriteWindowStatus_def split: option.split)

lemma live_window_history:
  "sorted (map fst ops) \<Longrightarrow> \<forall>t \<in> set (map fst ops). t \<le> now \<Longrightarrow>
     live_window (fold window_step ops (NewServer allowRead root)) tid now = window_spec ops tid now"
proof (induction ops rule: rev_induct)
  case Nil
  show ?case by (simp add: live_window_def NewServer_def window_spec_def)
next
  case (snoc x ops)
  obtain t a where x: "x = (t, a)" by force
  have "live_window (fold window_step ops (NewServer allowRead root)) tid now = window_spec ops tid now"
    using snoc by (simp add: sorted_append)
  then show ?case using live_window_step [of t now a] snoc.prems(2) x by (cases a) (simp_all add: window_spec_def)
qed

lemma hasOpenWindow_live: "fst (hasOpenWindow tid ip now s) = (case live_window s tid now of None \<Rightarrow> False
   | Some w \<Rightarrow> w_allowIP w \<noteq> [] \<and> ip \<noteq> [] \<and> IP_Equal (w_allowIP w) ip)"
  by (auto simp: hasOpenWindow_def live_window_def split: option.split)

lemma WriteWindowStatus_live: "fst (WriteWindowStatus tid now s) = map_option (\<lambda>w. (w_allowIP w, w_expires w)) (live_window s tid now)"
  by (auto simp: WriteWindowStatus_def live_window_def split: option.split)

text \<open>
  C23. The table of write windows refines the history: at every moment, after any sequence of openings,
  closings and queries in the order of time, a window answers a query exactly as the last opening of
  its target says, and expired entries that queries drop on the way are never missed.
\<close>

theorem windows_refine_history:
  assumes "sorted (map fst ops)" "\<forall>t \<in> set (map fst ops). t \<le> now"
  shows "fst (hasOpenWindow tid ip now (fold window_step ops (NewServer allowRead root))) =
      (case window_spec ops tid now of None \<Rightarrow> False | Some w \<Rightarrow> w_allowIP w \<noteq> [] \<and> ip \<noteq> [] \<and> IP_Equal (w_allowIP w) ip)
    \<and> fst (WriteWindowStatus tid now (fold window_step ops (NewServer allowRead root))) =
      map_option (\<lambda>w. (w_allowIP w, w_expires w)) (window_spec ops tid now)"
  by (simp only: hasOpenWindow_live WriteWindowStatus_live live_window_history [OF assms])

theorem windows_refine_history_witness:
  "fst (hasOpenWindow ''a'' [10, 0, 0, 7] 9 (fold window_step
       [(1, WOpen ''a'' [10, 0, 0, 7] 4), (6, WCheck ''a'' [10, 0, 0, 7]), (7, WOpen ''a'' [10, 0, 0, 7] 2), (8, WOpen ''b'' [] 0)]
       (NewServer [] ''/r'')))"
  using windows_refine_history [of "[(1, WOpen ''a'' [10, 0, 0, 7] 4), (6, WCheck ''a'' [10, 0, 0, 7]),
      (7, WOpen ''a'' [10, 0, 0, 7] 2), (8, WOpen ''b'' [] 0)]" 9 "''a''" "[10, 0, 0, 7]" "[]" "''/r''"]
  by (simp add: window_spec_def IP_Equal_def)

subsection \<open>How long a window stays open\<close>

lemma window_ttl_max: "window_ttl n \<le> tftpWriteWindowMaxTTL"
  by (simp add: window_ttl_def tftpWriteWindowMaxTTL_def tftpWriteWindowDefaultTTL_def go_simps Let_def)

lemma window_ttl_exact: "0 < n \<Longrightarrow> n \<le> 1800 \<Longrightarrow> window_ttl n = n * second"
  by (simp add: window_ttl_def tftpWriteWindowMaxTTL_def go_simps Let_def wrap64_id)

text \<open>
  A successful call opens the window for the host of the target, never for longer than thirty
  minutes, and for exactly the seconds asked for up to that limit; asked for nothing, five minutes.
\<close>

theorem window_opened_as_asked:
  assumes "handleTFTPOpenWriteWindow env te r tid (Some n) now (db, c) = (Inr status, db', c')"
    and "getTFTPServerTarget env te r tid now db = (Inr target, db')"
  shows "(wr_Open status \<longrightarrow> ParseIP (t_Host target) = Some (wr_ClientIP status) \<and> wr_ExpiresAt status \<le> now + tftpWriteWindowMaxTTL)
    \<and> (n \<le> 1800 \<longrightarrow> wr_Open status \<and> wr_ExpiresAt status = now + (if n \<le> 0 then tftpWriteWindowDefaultTTL else n * second))"
proof -
  obtain ip srv where ip: "ParseIP (t_Host target) = Some ip" "tftp_Current c = Some srv"
    and st: "status = fst (tftpWriteWindowStatusFor target now
        (c\<lparr>tc_server := Some (OpenWriteWindow (t_ID target) ip (window_ttl n) now srv)\<rparr>))"
    using assms by (auto simp: handleTFTPOpenWriteWindow_def split: if_splits option.splits prod.splits)
  then have cur: "tftp_Current (c\<lparr>tc_server := Some srv'\<rparr>) = Some srv'" for srv' by (auto simp: tftp_Current_def split: if_splits)
  have status: "status = (if window_ttl n \<le> 0
      then \<lparr>wr_Open = False, wr_TargetID = t_ID target, wr_ClientIP = [], wr_ExpiresAt = 0\<rparr>
      else \<lparr>wr_Open = True, wr_TargetID = t_ID target, wr_ClientIP = ip, wr_ExpiresAt = now + window_ttl n\<rparr>)"
    unfolding st by (simp add: tftpWriteWindowStatusFor_def cur WriteWindowStatus_def OpenWriteWindow_def)
  have "window_ttl n = (if n \<le> 0 then tftpWriteWindowDefaultTTL else n * second)" "0 < window_ttl n" if "n \<le> 1800"
    using window_ttl_exact [of n] that by (auto simp: window_ttl_def tftpWriteWindowDefaultTTL_def go_simps)
  then show ?thesis using ip window_ttl_max [of n] by (auto simp: status)
qed

text \<open>A user who may reach a TFTP target, and a running server.\<close>

definition demo_tftp_accounts :: AuthDB where
  "demo_tftp_accounts = demo_accounts\<lparr>a_access := demo_db\<lparr>db_targets := [demo_tftp_row\<lparr>tr_id := ''sw2''\<rparr>]\<rparr>\<rparr>"

definition demo_post :: http_req where
  "demo_post = (demo_get ''/api/tftp/targets/sw2/write-window'' ''s-bob'')\<lparr>rq_Method := ''POST''\<rparr>"

definition demo_controller :: tftp_controller where
  "demo_controller = NotifyTargetCreated \<lparr>tv_root = ''/r'', tv_allow_read = [], tv_mkdir_ok = True\<rparr> ProtocolTFTP
     \<lparr>tc_refCount = 0, tc_server = None, tc_running = False\<rparr>"

definition demo_tftp_target :: Target where
  "demo_tftp_target = row_target Access_Targets.demo_env (demo_tftp_row\<lparr>tr_id := ''sw2''\<rparr>)"

lemma demo_window_target:
  "getTFTPServerTarget demo_genv Access_Targets.demo_env demo_post ''sw2'' (time_unix 9) demo_tftp_accounts = (Inr demo_tftp_target, demo_tftp_accounts)"
  "t_Host demo_tftp_target = ''10.0.0.7''"
  "tftp_Current demo_controller = Some (NewServer [] ''/r'')"
proof -
  have "via_membership u now (demo_db\<lparr>db_targets := x\<rparr>) = via_membership u now demo_db"
    "via_target_tag u (demo_db\<lparr>db_targets := x\<rparr>) = via_target_tag u demo_db"
    "via_group_tag u (demo_db\<lparr>db_targets := x\<rparr>) = via_group_tag u demo_db" for u now x
    by (simp_all add: via_membership_def via_target_tag_def via_group_tag_def if_distrib cong: if_cong)
  then have "TargetIDsForUser ''bob'' None 100 (time_unix 9) (demo_db\<lparr>db_targets := x\<rparr>) = [''sw2'']" for x
    using TargetIDsForUser_spec [OF demo_within(2), of None 100]
    by (simp add: TargetIDsForUser_def demo_access_sets page_none)
  moreover have "currentUserID demo_genv demo_post (time_unix 9) demo_tftp_accounts = (''bob'', demo_tftp_accounts)"
    by (simp add: demo_post_def demo_tftp_accounts_def chain_simps demo_guard_simps)
  moreover have "tgt_Get Access_Targets.demo_env ''sw2'' (a_access demo_tftp_accounts) = Inr demo_tftp_target"
    by (simp add: demo_tftp_accounts_def tgt_Get_def port_ok_def demo_tftp_row_def demo_tftp_target_def)
  moreover have "t_Protocol demo_tftp_target = ProtocolTFTP" by (simp add: demo_tftp_target_def row_target_def demo_tftp_row_def)
  moreover have "a_access demo_tftp_accounts = demo_db\<lparr>db_targets := [demo_tftp_row\<lparr>tr_id := ''sw2''\<rparr>]\<rparr>" by (simp add: demo_tftp_accounts_def)
  moreover have "ge_list_limit demo_genv = 100" by (simp add: demo_genv_def)
  ultimately show "getTFTPServerTarget demo_genv Access_Targets.demo_env demo_post ''sw2'' (time_unix 9) demo_tftp_accounts = (Inr demo_tftp_target, demo_tftp_accounts)"
    by (simp add: getTFTPServerTarget_def getSessionAndTargetWithAccess_def trim_space_visible visible_def Supports_def Let_def)
  show "t_Host demo_tftp_target = ''10.0.0.7''" by (simp add: demo_tftp_target_def row_target_def demo_tftp_row_def)
  show "tftp_Current demo_controller = Some (NewServer [] ''/r'')"
    by (simp add: demo_controller_def NotifyTargetCreated_def start_server_def tftp_Current_def tftpServerRoot_def
        trim_space_visible visible_def Let_def)
qed

theorem window_opened_as_asked_witness:
  "\<exists>status c'. handleTFTPOpenWriteWindow demo_genv Access_Targets.demo_env demo_post ''sw2'' (Some 60) (time_unix 9) (demo_tftp_accounts, demo_controller)
      = (Inr status, demo_tftp_accounts, c') \<and> wr_Open status \<and> wr_ExpiresAt status = time_unix 9 + 60 * second"
proof -
  have "ParseIP ''10.0.0.7'' = Some (v4_mapped [10, 0, 0, 7])" "rq_Method demo_post = ''POST''" by (simp_all add: ip_eval demo_post_def)
  then have "\<exists>status c'. handleTFTPOpenWriteWindow demo_genv Access_Targets.demo_env demo_post ''sw2'' (Some 60) (time_unix 9) (demo_tftp_accounts, demo_controller)
      = (Inr status, demo_tftp_accounts, c')"
    by (simp add: handleTFTPOpenWriteWindow_def demo_window_target case_prod_unfold)
  then obtain status c' where *: "handleTFTPOpenWriteWindow demo_genv Access_Targets.demo_env demo_post ''sw2'' (Some 60) (time_unix 9) (demo_tftp_accounts, demo_controller)
      = (Inr status, demo_tftp_accounts, c')" by (elim exE)
  show ?thesis using window_opened_as_asked [OF * demo_window_target(1)] * by (intro exI [of _ status] exI [of _ c']) simp
qed

text \<open>
  A request for so many seconds that their number of nanoseconds overflows 64 bits to a value that
  is not positive closes the window instead of opening it for the longest time, and reports success.
\<close>

theorem huge_ttl_closes_window:
  assumes "getTFTPServerTarget env te r tid now db = (Inr target, db')" "rq_Method r = ''POST''"
    and "ParseIP (t_Host target) = Some ip" "tftp_Current c = Some srv" "0 < n" "wrap64 (n * second) \<le> 0"
  shows "\<exists>status c' srv'. handleTFTPOpenWriteWindow env te r tid (Some n) now (db, c) = (Inr status, db', c')
    \<and> \<not> wr_Open status \<and> tftp_Current c' = Some srv' \<and> lookup (ts_windows srv') (t_ID target) = None"
proof -
  let ?srv = "srv\<lparr>ts_windows := AList.delete (t_ID target) (ts_windows srv)\<rparr>"
  have ttl: "window_ttl n = wrap64 (n * second)"
    using assms(5,6) by (simp add: window_ttl_def tftpWriteWindowMaxTTL_def go_simps Let_def)
  have cur: "tftp_Current (c\<lparr>tc_server := Some srv'\<rparr>) = Some srv'" for srv'
    using assms(4) by (auto simp: tftp_Current_def split: if_splits)
  have "handleTFTPOpenWriteWindow env te r tid (Some n) now (db, c)
      = (Inr \<lparr>wr_Open = False, wr_TargetID = t_ID target, wr_ClientIP = [], wr_ExpiresAt = 0\<rparr>, db', c\<lparr>tc_server := Some ?srv\<rparr>)"
    using assms by (simp add: handleTFTPOpenWriteWindow_def tftpWriteWindowStatusFor_def cur OpenWriteWindow_def ttl WriteWindowStatus_def)
  then show ?thesis using cur by (intro exI conjI) (assumption | simp)+
qed

theorem huge_ttl_closes_window_witness:
  "\<exists>status c' srv'. handleTFTPOpenWriteWindow demo_genv Access_Targets.demo_env demo_post ''sw2'' (Some 9223372037) (time_unix 9) (demo_tftp_accounts, demo_controller)
      = (Inr status, demo_tftp_accounts, c')
    \<and> \<not> wr_Open status \<and> tftp_Current c' = Some srv' \<and> lookup (ts_windows srv') (t_ID demo_tftp_target) = None"
proof (rule huge_ttl_closes_window [OF demo_window_target(1) _ _ demo_window_target(3)])
  show "ParseIP (t_Host demo_tftp_target) = Some (v4_mapped [10, 0, 0, 7])" by (simp add: demo_window_target(2) ip_eval)
  show "wrap64 (9223372037 * second) \<le> 0" 
    by (simp add: wrap64_def signed_take_bit_eq_take_bit_shift take_bit_eq_mod second_def)
qed (simp_all add: demo_post_def)

end
