(* ===== verification/Credential_Library.thy ===== *)
theory Credential_Library
  imports Account_Admin TFTP_Server
begin

text \<open>
  The library of SSH keys and login identities (\<open>src/internal/access/ssh_key_sqlite_store.go\<close>,
  \<open>credential_identity_sqlite_store.go\<close>) and its handlers (\<open>src/internal/httpapi/ssh_keys_handler.go\<close>,
  \<open>credential_identities_handler.go\<close>).  Secrets are encrypted with associated data naming the row and
  the column.  The parser of private keys is a parameter: it gives the type of the public key of a PEM
  text and a passphrase, empty for none.  A column that is NULL is the empty string, as the queries
  read it.
\<close>

subsection \<open>Tables\<close>

record ssh_key_row =
  kr_id :: string
  kr_label :: string
  kr_key_type :: string
  kr_private_key :: string
  kr_passphrase :: string

record identity_row =
  ir_id :: string
  ir_label :: string
  ir_username :: string
  ir_password :: string
  ir_ssh_key_id :: string

record CredentialDB =
  cd_keys :: "ssh_key_row list"
  cd_identities :: "identity_row list"

record SSHKey =
  sk_ID :: string
  sk_Label :: string
  sk_SSHPrivateKey :: string
  sk_SSHPrivateKeyPassphrase :: string

record SSHKeySummary =
  ss_ID :: string
  ss_Label :: string
  ss_KeyType :: string
  ss_HasPassphrase :: bool

record CredentialIdentity =
  ci_ID :: string
  ci_Label :: string
  ci_SSHUsername :: string
  ci_SSHPassword :: string
  ci_SSHKeyID :: string
  ci_Key :: "SSHKey option"

record CredentialIdentitySummary =
  cs_ID :: string
  cs_Label :: string
  cs_SSHUsername :: string
  cs_HasPassword :: bool
  cs_SSHKeyID :: string
  cs_SSHKeyLabel :: string
  cs_HasSSHKey :: bool
  cs_HasPassphrase :: bool

type_synonym key_parser = "string \<Rightarrow> string \<Rightarrow> string option"

definition to_upper :: "string \<Rightarrow> string" where
  "to_upper s = map (\<lambda>c. if CHR ''a'' \<le> c \<and> c \<le> CHR ''z'' then char_of (of_char c - 32 :: nat) else c) s"

definition sshPublicKeyTypeLabel :: "string \<Rightarrow> string" where
  "sshPublicKeyTypeLabel t =
     (if t \<in> {''ssh-rsa'', ''rsa-sha2-256'', ''rsa-sha2-512''} then ''RSA''
      else if t = ''ssh-ed25519'' then ''ED25519''
      else if t \<in> {''ecdsa-sha2-nistp256'', ''ecdsa-sha2-nistp384'', ''ecdsa-sha2-nistp521''} then ''ECDSA''
      else let t = trim_space t in if t = [] then ''UNKNOWN'' else to_upper t)"

definition DetectSSHKeyType :: "key_parser \<Rightarrow> string \<Rightarrow> string \<Rightarrow> string" where
  "DetectSSHKeyType parse privateKeyPEM passphrase =
     (let pem = trim_space privateKeyPEM in
      if pem = [] then []
      else case parse pem (if trim_space passphrase \<noteq> [] then passphrase else []) of
        None \<Rightarrow> ''UNKNOWN'' | Some t \<Rightarrow> sshPublicKeyTypeLabel t)"

subsection \<open>Keys\<close>

definition key_usable :: "tenv \<Rightarrow> bool" where
  "key_usable te = (length (key_bytes te) = KeySize)"

definition seal_secret :: "tenv \<Rightarrow> string \<Rightarrow> string \<Rightarrow> string \<Rightarrow> access_error + string" where
  "seal_secret te nonce v aad = (case EncryptWithAAD (te_crypto te) nonce (key_bytes te) v aad of
     Inl _ \<Rightarrow> Inl ErrEncrypt | Inr c \<Rightarrow> Inr c)"

text \<open>Reading a secret back gives the empty string when it cannot be decrypted.\<close>

definition open_secret :: "tenv \<Rightarrow> string \<Rightarrow> string \<Rightarrow> string" where
  "open_secret te stored aad =
     (if stored = [] then [] else if \<not> key_usable te then []
      else case DecryptWithAAD (te_crypto te) (key_bytes te) stored aad of Inl _ \<Rightarrow> [] | Inr v \<Rightarrow> v)"

definition sshKeyAAD :: "string \<Rightarrow> string \<Rightarrow> string" where
  "sshKeyAAD kid field = ''vantyx/ssh_key/'' @ kid @ ''/'' @ field"

definition encryptSecrets ::
  "tenv \<Rightarrow> string \<times> string \<Rightarrow> string \<Rightarrow> string \<Rightarrow> string \<Rightarrow> access_error + string \<times> string" where
  "encryptSecrets te nonces kid sshPrivateKey passphrase = (case nonces of (n1, n2) \<Rightarrow>
     if (sshPrivateKey \<noteq> [] \<or> passphrase \<noteq> []) \<and> \<not> key_usable te then Inl ErrEncryptionKeyRequired
     else case (if sshPrivateKey \<noteq> [] then seal_secret te n1 sshPrivateKey (sshKeyAAD kid ''ssh_private_key'') else Inr []) of
       Inl e \<Rightarrow> Inl e
     | Inr storedKey \<Rightarrow>
         (case (if passphrase \<noteq> [] then seal_secret te n2 passphrase (sshKeyAAD kid ''ssh_private_key_passphrase'') else Inr []) of
            Inl e \<Rightarrow> Inl e
          | Inr storedPass \<Rightarrow> Inr (storedKey, storedPass)))"

definition key_summary :: "ssh_key_row \<Rightarrow> SSHKeySummary" where
  "key_summary r = \<lparr>ss_ID = kr_id r, ss_Label = kr_label r, ss_KeyType = kr_key_type r,
     ss_HasPassphrase = (trim_space (kr_passphrase r) \<noteq> [])\<rparr>"

definition key_List :: "CredentialDB \<Rightarrow> SSHKeySummary list" where
  "key_List cd = map key_summary (sort_key kr_label (sort_key kr_id (cd_keys cd)))"

definition key_Create ::
  "tenv \<Rightarrow> key_parser \<Rightarrow> string \<times> string \<Rightarrow> string \<Rightarrow> string \<Rightarrow> string \<Rightarrow> string \<Rightarrow> CredentialDB
     \<Rightarrow> access_error + SSHKeySummary \<times> CredentialDB" where
  "key_Create te parse nonces kid label sshPrivateKey passphrase cd =
     (case validateSSHKeyID kid of Some e \<Rightarrow> Inl e
      | None \<Rightarrow> (case validateSSHKeyLabel label of Some e \<Rightarrow> Inl e
        | None \<Rightarrow>
          let sshPrivateKey = trim_space sshPrivateKey in
          if sshPrivateKey = [] then Inl ErrSSHKeyPrivateReq
          else let keyType = DetectSSHKeyType parse sshPrivateKey passphrase in
            (case encryptSecrets te nonces kid sshPrivateKey passphrase of Inl e \<Rightarrow> Inl e
             | Inr (storedKey, storedPass) \<Rightarrow>
               if kid \<in> set (map kr_id (cd_keys cd)) then Inl ErrSSHKeyExists
               else Inr (\<lparr>ss_ID = kid, ss_Label = trim_space label, ss_KeyType = keyType, ss_HasPassphrase = (passphrase \<noteq> [])\<rparr>,
                 cd\<lparr>cd_keys := cd_keys cd @ [\<lparr>kr_id = kid, kr_label = trim_space label, kr_key_type = keyType,
                   kr_private_key = storedKey, kr_passphrase = storedPass\<rparr>]\<rparr>))))"

text \<open>The three decisions of an update: the new private key and its type, and the new passphrase.\<close>

definition update_private ::
  "tenv \<Rightarrow> key_parser \<Rightarrow> string \<Rightarrow> string option \<Rightarrow> string option \<Rightarrow> ssh_key_row \<Rightarrow> access_error + string \<times> string" where
  "update_private te parse nonce sshPrivateKey passphrase cur = (case sshPrivateKey of
     Some k \<Rightarrow>
       let raw = trim_space k in
       if raw = [] then Inl ErrSSHKeyPrivateReq
       else let passForDetect = (case passphrase of Some p \<Rightarrow> p
              | None \<Rightarrow> if trim_space (kr_passphrase cur) \<noteq> [] \<and> key_usable te
                  then open_secret te (kr_passphrase cur) (sshKeyAAD (kr_id cur) ''ssh_private_key_passphrase'') else []);
            keyType = DetectSSHKeyType parse raw passForDetect
         in if \<not> key_usable te then Inl ErrEncryptionKeyRequired
            else (case seal_secret te nonce raw (sshKeyAAD (kr_id cur) ''ssh_private_key'') of
                    Inl e \<Rightarrow> Inl e | Inr enc \<Rightarrow> Inr (enc, keyType))
   | None \<Rightarrow> (case passphrase of
       Some p \<Rightarrow>
         if trim_space (kr_private_key cur) \<noteq> [] \<and> key_usable te
         then (case DecryptWithAAD (te_crypto te) (key_bytes te) (kr_private_key cur) (sshKeyAAD (kr_id cur) ''ssh_private_key'') of
             Inl _ \<Rightarrow> Inr (kr_private_key cur, kr_key_type cur)
           | Inr rawKey \<Rightarrow> Inr (kr_private_key cur, DetectSSHKeyType parse rawKey p))
         else Inr (kr_private_key cur, kr_key_type cur)
     | None \<Rightarrow> Inr (kr_private_key cur, kr_key_type cur)))"

definition update_passphrase ::
  "tenv \<Rightarrow> string \<Rightarrow> string option \<Rightarrow> ssh_key_row \<Rightarrow> access_error + string" where
  "update_passphrase te nonce passphrase cur = (case passphrase of None \<Rightarrow> Inr (kr_passphrase cur)
     | Some raw \<Rightarrow>
       if raw = [] then Inr []
       else if \<not> key_usable te then Inl ErrEncryptionKeyRequired
       else seal_secret te nonce raw (sshKeyAAD (kr_id cur) ''ssh_private_key_passphrase''))"

definition key_Update ::
  "tenv \<Rightarrow> key_parser \<Rightarrow> string \<times> string \<Rightarrow> string \<Rightarrow> string \<Rightarrow> string option \<Rightarrow> string option \<Rightarrow> CredentialDB
     \<Rightarrow> access_error + SSHKeySummary \<times> CredentialDB" where
  "key_Update te parse nonces kid label sshPrivateKey passphrase cd = (case nonces of (n1, n2) \<Rightarrow>
     (case validateSSHKeyID kid of Some e \<Rightarrow> Inl e
      | None \<Rightarrow> (case (if label \<noteq> [] then validateSSHKeyLabel label else None) of Some e \<Rightarrow> Inl e
        | None \<Rightarrow> (case find (\<lambda>r. kr_id r = kid) (cd_keys cd) of None \<Rightarrow> Inl ErrSSHKeyNotFound
          | Some cur \<Rightarrow>
            let nextLabel = (if trim_space label \<noteq> [] then trim_space label else kr_label cur) in
            (case update_private te parse n1 sshPrivateKey passphrase cur of Inl e \<Rightarrow> Inl e
             | Inr (nextKey, nextType) \<Rightarrow> (case update_passphrase te n2 passphrase cur of Inl e \<Rightarrow> Inl e
               | Inr nextPass \<Rightarrow>
                 let f = (\<lambda>r. r\<lparr>kr_label := nextLabel, kr_key_type := nextType, kr_private_key := nextKey, kr_passphrase := nextPass\<rparr>)
                 in Inr (key_summary (f cur), cd\<lparr>cd_keys := snd (sql_update (\<lambda>r. kr_id r = kid) f (cd_keys cd))\<rparr>)))))))"

definition key_Delete :: "string \<Rightarrow> AccessDB \<Rightarrow> CredentialDB \<Rightarrow> access_error + CredentialDB" where
  "key_Delete kid db cd =
     (case validateSSHKeyID kid of Some e \<Rightarrow> Inl e
      | None \<Rightarrow>
        if list_ex (\<lambda>i. ir_ssh_key_id i = kid) (cd_identities cd) then Inl ErrSSHKeyInUse
        else if list_ex (\<lambda>t. tr_ssh_key_id t = kid) (db_targets db) then Inl ErrSSHKeyInUse
        else (case sql_delete (\<lambda>r. kr_id r = kid) (cd_keys cd) of
          (n, rows) \<Rightarrow> if n = 0 then Inl ErrSSHKeyNotFound else Inr (cd\<lparr>cd_keys := rows\<rparr>)))"

definition key_GetDecrypted :: "tenv \<Rightarrow> string \<Rightarrow> CredentialDB \<Rightarrow> access_error + SSHKey" where
  "key_GetDecrypted te kid cd =
     (case validateSSHKeyID kid of Some e \<Rightarrow> Inl e
      | None \<Rightarrow> (case find (\<lambda>r. kr_id r = kid) (cd_keys cd) of None \<Rightarrow> Inl ErrSSHKeyNotFound
        | Some r \<Rightarrow> Inr \<lparr>sk_ID = kid, sk_Label = kr_label r,
            sk_SSHPrivateKey = open_secret te (kr_private_key r) (sshKeyAAD kid ''ssh_private_key''),
            sk_SSHPrivateKeyPassphrase = open_secret te (kr_passphrase r) (sshKeyAAD kid ''ssh_private_key_passphrase'')\<rparr>))"

subsection \<open>Identities\<close>

definition credentialIdentityAAD :: "string \<Rightarrow> string \<Rightarrow> string" where
  "credentialIdentityAAD cid field = ''vantyx/credential_identity/'' @ cid @ ''/'' @ field"

text \<open>A row of the list, joined with the key it refers to.\<close>

definition summaryFromRow :: "CredentialDB \<Rightarrow> identity_row \<Rightarrow> CredentialIdentitySummary" where
  "summaryFromRow cd i =
     (let key = find (\<lambda>k. kr_id k = ir_ssh_key_id i) (cd_keys cd);
          keyLabel = (case key of None \<Rightarrow> [] | Some k \<Rightarrow> kr_label k);
          keyPass = (case key of None \<Rightarrow> [] | Some k \<Rightarrow> kr_passphrase k)
      in \<lparr>cs_ID = ir_id i, cs_Label = ir_label i, cs_SSHUsername = ir_username i,
          cs_HasPassword = (trim_space (ir_password i) \<noteq> []), cs_SSHKeyID = ir_ssh_key_id i, cs_SSHKeyLabel = keyLabel,
          cs_HasSSHKey = (trim_space (ir_ssh_key_id i) \<noteq> []), cs_HasPassphrase = (trim_space keyPass \<noteq> [])\<rparr>)"

definition ident_List :: "CredentialDB \<Rightarrow> CredentialIdentitySummary list" where
  "ident_List cd = map (summaryFromRow cd) (sort_key ir_label (sort_key ir_id (cd_identities cd)))"

definition key_exists :: "string \<Rightarrow> CredentialDB \<Rightarrow> bool" where
  "key_exists kid cd = (kid \<in> set (map kr_id (cd_keys cd)))"

definition check_key :: "tenv \<Rightarrow> string \<Rightarrow> CredentialDB \<Rightarrow> access_error option" where
  "check_key te kid cd = (if kid = [] then None else case key_GetDecrypted te kid cd of Inl e \<Rightarrow> Some e | Inr _ \<Rightarrow> None)"

definition ident_Create ::
  "tenv \<Rightarrow> string \<Rightarrow> string \<Rightarrow> string \<Rightarrow> string \<Rightarrow> string \<Rightarrow> string \<Rightarrow> CredentialDB
     \<Rightarrow> access_error + CredentialIdentitySummary \<times> CredentialDB" where
  "ident_Create te nonce cid label sshUsername sshPassword sshKeyID cd =
     (case validateCredentialIdentityID cid of Some e \<Rightarrow> Inl e
      | None \<Rightarrow> (case validateCredentialIdentityLabel label of Some e \<Rightarrow> Inl e
        | None \<Rightarrow>
          let sshUsername = trim_space sshUsername; sshKeyID = trim_space sshKeyID in
          if sshUsername = [] then Inl ErrCredentialIdentityUserReq
          else (case validateCredentialIdentityAuth sshPassword sshKeyID of Some e \<Rightarrow> Inl e
            | None \<Rightarrow> (case check_key te sshKeyID cd of Some e \<Rightarrow> Inl e
              | None \<Rightarrow>
                (case (if trim_space sshPassword \<noteq> [] then
                    (if \<not> key_usable te then Inl ErrEncryptionKeyRequired
                     else seal_secret te nonce (trim_space sshPassword) (credentialIdentityAAD cid ''ssh_password''))
                    else Inr []) of Inl e \<Rightarrow> Inl e
                 | Inr storedPw \<Rightarrow>
                   if cid \<in> set (map ir_id (cd_identities cd)) then Inl ErrCredentialIdentityExists
                   else if sshKeyID \<noteq> [] \<and> \<not> key_exists sshKeyID cd then Inl ErrForeignKey
                   else let row = \<lparr>ir_id = cid, ir_label = trim_space label, ir_username = sshUsername,
                              ir_password = storedPw, ir_ssh_key_id = sshKeyID\<rparr>
                     in Inr (summaryFromRow cd row, cd\<lparr>cd_identities := cd_identities cd @ [row]\<rparr>))))))"

definition decryptIdentityPassword :: "tenv \<Rightarrow> string \<Rightarrow> string \<Rightarrow> string" where
  "decryptIdentityPassword te cid stored = open_secret te stored (credentialIdentityAAD cid ''ssh_password'')"

definition next_password :: "tenv \<Rightarrow> string \<Rightarrow> string option \<Rightarrow> identity_row \<Rightarrow> access_error + string" where
  "next_password te nonce sshPassword cur = (case sshPassword of None \<Rightarrow> Inr (ir_password cur)
     | Some p \<Rightarrow>
       let raw = trim_space p in
       if raw = [] then Inr []
       else if \<not> key_usable te then Inl ErrEncryptionKeyRequired
       else seal_secret te nonce raw (credentialIdentityAAD (ir_id cur) ''ssh_password''))"

definition next_key :: "tenv \<Rightarrow> string option \<Rightarrow> identity_row \<Rightarrow> CredentialDB \<Rightarrow> access_error + string" where
  "next_key te sshKeyID cur cd = (case sshKeyID of None \<Rightarrow> Inr (ir_ssh_key_id cur)
     | Some k \<Rightarrow> let k = trim_space k in (case check_key te k cd of Some e \<Rightarrow> Inl e | None \<Rightarrow> Inr k))"

definition ident_Update ::
  "tenv \<Rightarrow> string \<Rightarrow> string \<Rightarrow> string \<Rightarrow> string \<Rightarrow> string option \<Rightarrow> string option \<Rightarrow> CredentialDB
     \<Rightarrow> access_error + CredentialIdentitySummary \<times> CredentialDB" where
  "ident_Update te nonce cid label sshUsername sshPassword sshKeyID cd =
     (case validateCredentialIdentityID cid of Some e \<Rightarrow> Inl e
      | None \<Rightarrow> (case (if label \<noteq> [] then validateCredentialIdentityLabel label else None) of Some e \<Rightarrow> Inl e
        | None \<Rightarrow> (case find (\<lambda>r. ir_id r = cid) (cd_identities cd) of None \<Rightarrow> Inl ErrCredentialIdentityNotFound
          | Some cur \<Rightarrow>
            let nextLabel = (if trim_space label \<noteq> [] then trim_space label else ir_label cur);
                nextUser = (if trim_space sshUsername = [] then ir_username cur else trim_space sshUsername) in
            if nextUser = [] then Inl ErrCredentialIdentityUserReq
            else (case next_password te nonce sshPassword cur of Inl e \<Rightarrow> Inl e
              | Inr nextPw \<Rightarrow> (case next_key te sshKeyID cur cd of Inl e \<Rightarrow> Inl e
                | Inr nextKey \<Rightarrow>
                  (case validateCredentialIdentityAuth (decryptIdentityPassword te cid nextPw) nextKey of Some e \<Rightarrow> Inl e
                   | None \<Rightarrow>
                     if nextKey \<noteq> [] \<and> \<not> key_exists nextKey cd then Inl ErrForeignKey
                     else let f = (\<lambda>r. r\<lparr>ir_label := nextLabel, ir_username := nextUser, ir_password := nextPw, ir_ssh_key_id := nextKey\<rparr>)
                       in Inr (summaryFromRow cd (f cur),
                            cd\<lparr>cd_identities := snd (sql_update (\<lambda>r. ir_id r = cid) f (cd_identities cd))\<rparr>)))))))"

definition ident_Delete :: "string \<Rightarrow> AccessDB \<Rightarrow> CredentialDB \<Rightarrow> access_error + CredentialDB" where
  "ident_Delete cid db cd =
     (case validateCredentialIdentityID cid of Some e \<Rightarrow> Inl e
      | None \<Rightarrow>
        if list_ex (\<lambda>t. tr_credential_identity_id t = cid) (db_targets db) then Inl ErrCredentialIdentityInUse
        else (case sql_delete (\<lambda>r. ir_id r = cid) (cd_identities cd) of
          (n, rows) \<Rightarrow> if n = 0 then Inl ErrCredentialIdentityNotFound else Inr (cd\<lparr>cd_identities := rows\<rparr>)))"

definition ident_GetDecrypted :: "tenv \<Rightarrow> string \<Rightarrow> CredentialDB \<Rightarrow> access_error + CredentialIdentity" where
  "ident_GetDecrypted te cid cd =
     (case validateCredentialIdentityID cid of Some e \<Rightarrow> Inl e
      | None \<Rightarrow> (case find (\<lambda>r. ir_id r = cid) (cd_identities cd) of None \<Rightarrow> Inl ErrCredentialIdentityNotFound
        | Some r \<Rightarrow>
          let out = \<lparr>ci_ID = cid, ci_Label = ir_label r, ci_SSHUsername = ir_username r,
                ci_SSHPassword = decryptIdentityPassword te cid (ir_password r), ci_SSHKeyID = ir_ssh_key_id r, ci_Key = None\<rparr> in
          if ir_ssh_key_id r = [] then Inr out
          else (case key_GetDecrypted te (ir_ssh_key_id r) cd of Inl e \<Rightarrow> Inl e | Inr k \<Rightarrow> Inr (out\<lparr>ci_Key := Some k\<rparr>))))"

subsection \<open>Handlers\<close>

text \<open>
  The state behind the handlers of server management: accounts and access tables, the credential
  library, and the controller of the TFTP server.
\<close>

record ServerApp =
  sv_db :: AuthDB
  sv_cred :: CredentialDB
  sv_tftp :: tftp_controller

text \<open>What the process is configured with.\<close>

record server_env =
  se_guard :: guard_env
  se_target :: tenv
  se_parse :: key_parser
  se_tftp :: tftp_env

definition sv_access :: "ServerApp \<Rightarrow> AccessDB" where
  "sv_access s = a_access (sv_db s)"

definition set_access :: "AccessDB \<Rightarrow> ServerApp \<Rightarrow> ServerApp" where
  "set_access acc s = s\<lparr>sv_db := (sv_db s)\<lparr>a_access := acc\<rparr>\<rparr>"

fun writeAccessValidationError :: "access_error \<Rightarrow> http_error option" where
  "writeAccessValidationError ErrGroupIDEmpty = Some (400, ''validation.groupIDEmpty'')"
| "writeAccessValidationError ErrGroupIDTooLong = Some (400, ''validation.groupIDTooLong'')"
| "writeAccessValidationError ErrGroupIDInvalid = Some (400, ''validation.groupIDInvalid'')"
| "writeAccessValidationError ErrTargetIDEmpty = Some (400, ''validation.targetIDEmpty'')"
| "writeAccessValidationError ErrTargetIDTooLong = Some (400, ''validation.targetIDTooLong'')"
| "writeAccessValidationError ErrTargetIDInvalid = Some (400, ''validation.targetIDInvalid'')"
| "writeAccessValidationError ErrNameEmpty = Some (400, ''validation.nameEmpty'')"
| "writeAccessValidationError ErrNameTooLong = Some (400, ''validation.nameTooLong'')"
| "writeAccessValidationError ErrNameInvalid = Some (400, ''validation.nameInvalid'')"
| "writeAccessValidationError ErrHostEmpty = Some (400, ''validation.hostEmpty'')"
| "writeAccessValidationError ErrHostTooLong = Some (400, ''validation.hostTooLong'')"
| "writeAccessValidationError ErrHostInvalid = Some (400, ''validation.hostInvalid'')"
| "writeAccessValidationError ErrHostRestricted = Some (400, ''validation.hostRestricted'')"
| "writeAccessValidationError ErrProtocolInvalid = Some (400, ''targets.protocolInvalid'')"
| "writeAccessValidationError ErrTagLength = Some (400, ''tags.lengthInvalid'')"
| "writeAccessValidationError ErrTagChars = Some (400, ''tags.charsInvalid'')"
| "writeAccessValidationError ErrHostKeyFingerprintInvalid = Some (400, ''targets.hostKeyFingerprintInvalid'')"
| "writeAccessValidationError ErrSSHKeyLabelReq = Some (400, ''validation.nameEmpty'')"
| "writeAccessValidationError ErrCredentialIdentityLabelReq = Some (400, ''validation.nameEmpty'')"
| "writeAccessValidationError ErrSSHKeyIDEmpty = Some (400, ''sshKeys.idRequired'')"
| "writeAccessValidationError ErrSSHKeyIDTooLong = Some (400, ''validation.sshKeyIDTooLong'')"
| "writeAccessValidationError ErrSSHKeyIDInvalid = Some (400, ''validation.sshKeyIDInvalid'')"
| "writeAccessValidationError ErrCredentialIdentityIDEmpty = Some (400, ''credentialIdentities.idRequired'')"
| "writeAccessValidationError ErrCredentialIdentityIDTooLong = Some (400, ''validation.credentialIdentityIDTooLong'')"
| "writeAccessValidationError ErrCredentialIdentityIDInvalid = Some (400, ''validation.credentialIdentityIDInvalid'')"
| "writeAccessValidationError ErrSSHKeyPrivateReq = Some (400, ''sshKeys.privateKeyRequired'')"
| "writeAccessValidationError ErrCredentialIdentityUserReq = Some (400, ''credentialIdentities.usernameRequired'')"
| "writeAccessValidationError ErrCredentialIdentityAuthReq = Some (400, ''credentialIdentities.authRequired'')"
| "writeAccessValidationError ErrGroupNotEmpty = Some (409, ''groups.notEmpty'')"
| "writeAccessValidationError _ = None"

definition validation_or :: "access_error \<Rightarrow> http_error \<Rightarrow> http_error" where
  "validation_or e other = (case writeAccessValidationError e of Some h \<Rightarrow> h | None \<Rightarrow> other)"

definition admin_only ::
  "server_env \<Rightarrow> http_req \<Rightarrow> instant \<Rightarrow> ServerApp \<Rightarrow> (ServerApp \<Rightarrow> (http_error + 'a) \<times> ServerApp) \<Rightarrow> (http_error + 'a) \<times> ServerApp" where
  "admin_only env r now s k = (case requireAdmin (se_guard env) r now (sv_db s) of
     (Inl e, db) \<Rightarrow> (Inl e, s\<lparr>sv_db := db\<rparr>)
   | (Inr _, db) \<Rightarrow> k (s\<lparr>sv_db := db\<rparr>))"

text \<open>The reply of a handler that changes the library: the error it maps to, or the value and the new tables.\<close>

definition cred_reply :: "(access_error \<Rightarrow> http_error) \<Rightarrow> ServerApp \<Rightarrow> access_error + 'a \<times> CredentialDB \<Rightarrow> (http_error + 'a) \<times> ServerApp" where
  "cred_reply err s x = (case x of Inl e \<Rightarrow> (Inl (err e), s) | Inr (v, cd) \<Rightarrow> (Inr v, s\<lparr>sv_cred := cd\<rparr>))"

definition cred_deleted :: "(access_error \<Rightarrow> http_error) \<Rightarrow> ServerApp \<Rightarrow> access_error + CredentialDB \<Rightarrow> (http_error + unit) \<times> ServerApp" where
  "cred_deleted err s x = cred_reply err s (case x of Inl e \<Rightarrow> Inl e | Inr cd \<Rightarrow> Inr ((), cd))"

fun key_error :: "access_error \<Rightarrow> http_error" where
  "key_error ErrSSHKeyExists = (409, ''sshKeys.exists'')"
| "key_error ErrSSHKeyNotFound = (404, ''sshKeys.notFound'')"
| "key_error ErrSSHKeyInUse = (409, ''sshKeys.inUse'')"
| "key_error ErrCredentialIdentityExists = (409, ''credentialIdentities.exists'')"
| "key_error ErrCredentialIdentityNotFound = (404, ''credentialIdentities.notFound'')"
| "key_error ErrCredentialIdentityInUse = (409, ''credentialIdentities.inUse'')"
| "key_error ErrEncryptionKeyRequired = (503, ''credentials.encryptionKeyRequired'')"
| "key_error _ = internal_error"

definition handleSSHKeysList :: "server_env \<Rightarrow> http_req \<Rightarrow> instant \<Rightarrow> ServerApp \<Rightarrow> (http_error + SSHKeySummary list) \<times> ServerApp" where
  "handleSSHKeysList env r now s = admin_only env r now s (\<lambda>s. (Inr (key_List (sv_cred s)), s))"

record createSSHKeyRequest =
  ck_ID :: string
  ck_Label :: string
  ck_SSHPrivateKey :: string
  ck_SSHPrivateKeyPassphrase :: string

definition handleSSHKeysCreate ::
  "server_env \<Rightarrow> string \<times> string \<Rightarrow> http_req \<Rightarrow> createSSHKeyRequest option \<Rightarrow> instant \<Rightarrow> ServerApp \<Rightarrow> (http_error + SSHKeySummary) \<times> ServerApp" where
  "handleSSHKeysCreate env nonces r body now s = admin_only env r now s (\<lambda>s.
     case body of None \<Rightarrow> (Inl (400, ''common.invalidRequestBody''), s)
     | Some req \<Rightarrow> cred_reply (\<lambda>e. validation_or e (key_error e)) s
         (key_Create (se_target env) (se_parse env) nonces (trim_space (ck_ID req)) (trim_space (ck_Label req))
            (ck_SSHPrivateKey req) (ck_SSHPrivateKeyPassphrase req) (sv_cred s)))"

record updateSSHKeyRequest =
  uk_Label :: string
  uk_SSHPrivateKey :: "string option"
  uk_SSHPrivateKeyPassphrase :: "string option"

definition handleSSHKeysUpdate ::
  "server_env \<Rightarrow> string \<times> string \<Rightarrow> http_req \<Rightarrow> string \<Rightarrow> updateSSHKeyRequest option \<Rightarrow> instant \<Rightarrow> ServerApp \<Rightarrow> (http_error + SSHKeySummary) \<times> ServerApp" where
  "handleSSHKeysUpdate env nonces r key_id body now s = admin_only env r now s (\<lambda>s.
     let i = trim_space key_id in
     if i = [] then (Inl (400, ''sshKeys.idRequired''), s)
     else case body of None \<Rightarrow> (Inl (400, ''common.invalidRequestBody''), s)
     | Some req \<Rightarrow> cred_reply (\<lambda>e. validation_or e (key_error e)) s
         (key_Update (se_target env) (se_parse env) nonces i (trim_space (uk_Label req))
            (uk_SSHPrivateKey req) (uk_SSHPrivateKeyPassphrase req) (sv_cred s)))"

definition handleSSHKeysDelete ::
  "server_env \<Rightarrow> http_req \<Rightarrow> string \<Rightarrow> instant \<Rightarrow> ServerApp \<Rightarrow> (http_error + unit) \<times> ServerApp" where
  "handleSSHKeysDelete env r key_id now s = admin_only env r now s (\<lambda>s.
     let i = trim_space key_id in
     if i = [] then (Inl (400, ''sshKeys.idRequired''), s)
     else cred_deleted key_error s (key_Delete i (sv_access s) (sv_cred s)))"

text \<open>
  Generating a key: the key pair comes from a library (\<open>gen\<close>, from the type, the passphrase and the
  comment to the PEM text and the public line); only two types are offered.
\<close>

record generateSSHKeyRequest =
  gk_ID :: string
  gk_Label :: string
  gk_KeyType :: string
  gk_Passphrase :: string

definition generateSSHKeyMaterial ::
  "(string \<Rightarrow> string \<Rightarrow> string \<Rightarrow> string \<times> string) \<Rightarrow> string \<Rightarrow> string \<Rightarrow> string \<Rightarrow> (string \<times> string) option" where
  "generateSSHKeyMaterial gen keyType passphrase label =
     (if keyType = [] \<or> keyType = ''ed25519'' then Some (gen ''ed25519'' passphrase label)
      else if keyType = ''rsa'' then Some (gen ''rsa'' passphrase label) else None)"

definition handleSSHKeysGenerate ::
  "server_env \<Rightarrow> (string \<Rightarrow> string \<Rightarrow> string \<Rightarrow> string \<times> string) \<Rightarrow> string \<times> string \<Rightarrow> http_req \<Rightarrow> generateSSHKeyRequest option
     \<Rightarrow> instant \<Rightarrow> ServerApp \<Rightarrow> (http_error + SSHKeySummary \<times> string \<times> string) \<times> ServerApp" where
  "handleSSHKeysGenerate env gen nonces r body now s = admin_only env r now s (\<lambda>s.
     case body of None \<Rightarrow> (Inl (400, ''common.invalidRequestBody''), s)
     | Some req \<Rightarrow>
       (case generateSSHKeyMaterial gen (to_lower (trim_space (gk_KeyType req))) (gk_Passphrase req) (trim_space (gk_Label req)) of
          None \<Rightarrow> (Inl (400, ''sshKeys.unsupportedKeyType''), s)
        | Some (pem, pub) \<Rightarrow> cred_reply (\<lambda>e. validation_or e (key_error e)) s
            (case key_Create (se_target env) (se_parse env) nonces (trim_space (gk_ID req)) (trim_space (gk_Label req))
                pem (gk_Passphrase req) (sv_cred s) of Inl e \<Rightarrow> Inl e | Inr (smry, cd) \<Rightarrow> Inr ((smry, pem, pub), cd))))"

definition identityAuthMethod :: "CredentialIdentitySummary \<Rightarrow> string" where
  "identityAuthMethod s = (if cs_HasPassword s \<and> cs_HasSSHKey s then ''password_and_key''
     else if cs_HasSSHKey s then ''key'' else if cs_HasPassword s then ''password'' else [])"

definition handleCredentialIdentitiesList ::
  "server_env \<Rightarrow> http_req \<Rightarrow> instant \<Rightarrow> ServerApp \<Rightarrow> (http_error + (CredentialIdentitySummary \<times> string) list) \<times> ServerApp" where
  "handleCredentialIdentitiesList env r now s = admin_only env r now s (\<lambda>s.
     (Inr (map (\<lambda>i. (i, identityAuthMethod i)) (ident_List (sv_cred s))), s))"

record createCredentialIdentityRequest =
  ic_ID :: string
  ic_Label :: string
  ic_SSHUsername :: string
  ic_SSHPassword :: string
  ic_SSHKeyID :: string

definition handleCredentialIdentitiesCreate ::
  "server_env \<Rightarrow> string \<Rightarrow> http_req \<Rightarrow> createCredentialIdentityRequest option \<Rightarrow> instant \<Rightarrow> ServerApp
     \<Rightarrow> (http_error + CredentialIdentitySummary) \<times> ServerApp" where
  "handleCredentialIdentitiesCreate env nonce r body now s = admin_only env r now s (\<lambda>s.
     case body of None \<Rightarrow> (Inl (400, ''common.invalidRequestBody''), s)
     | Some req \<Rightarrow> cred_reply (\<lambda>e. validation_or e (key_error e)) s
         (ident_Create (se_target env) nonce (trim_space (ic_ID req)) (trim_space (ic_Label req))
            (trim_space (ic_SSHUsername req)) (ic_SSHPassword req) (trim_space (ic_SSHKeyID req)) (sv_cred s)))"

record updateCredentialIdentityRequest =
  iu_Label :: string
  iu_SSHUsername :: string
  iu_SSHPassword :: "string option"
  iu_SSHKeyID :: "string option"

definition handleCredentialIdentitiesUpdate ::
  "server_env \<Rightarrow> string \<Rightarrow> http_req \<Rightarrow> string \<Rightarrow> updateCredentialIdentityRequest option \<Rightarrow> instant \<Rightarrow> ServerApp
     \<Rightarrow> (http_error + CredentialIdentitySummary) \<times> ServerApp" where
  "handleCredentialIdentitiesUpdate env nonce r identity_id body now s = admin_only env r now s (\<lambda>s.
     let i = trim_space identity_id in
     if i = [] then (Inl (400, ''credentialIdentities.idRequired''), s)
     else case body of None \<Rightarrow> (Inl (400, ''common.invalidRequestBody''), s)
     | Some req \<Rightarrow> cred_reply (\<lambda>e. validation_or e (key_error e)) s
         (ident_Update (se_target env) nonce i (trim_space (iu_Label req)) (trim_space (iu_SSHUsername req))
            (iu_SSHPassword req) (map_option trim_space (iu_SSHKeyID req)) (sv_cred s)))"

definition handleCredentialIdentitiesDelete ::
  "server_env \<Rightarrow> http_req \<Rightarrow> string \<Rightarrow> instant \<Rightarrow> ServerApp \<Rightarrow> (http_error + unit) \<times> ServerApp" where
  "handleCredentialIdentitiesDelete env r identity_id now s = admin_only env r now s (\<lambda>s.
     let i = trim_space identity_id in
     if i = [] then (Inl (400, ''credentialIdentities.idRequired''), s)
     else cred_deleted key_error s (ident_Delete i (sv_access s) (sv_cred s)))"

subsection \<open>The library stays consistent\<close>

text \<open>
  Identifiers are unique and valid, every key has its material and every identity a user name and a
  way to log in, the key of an identity exists, and no secret is stored in the clear.
\<close>

definition sealed :: "string \<Rightarrow> bool" where
  "sealed stored = (stored = [] \<or> IsEncrypted stored)"

definition key_row_ok :: "ssh_key_row \<Rightarrow> bool" where
  "key_row_ok k = (validateSSHKeyID (kr_id k) = None \<and> kr_private_key k \<noteq> [] \<and> sealed (kr_private_key k) \<and> sealed (kr_passphrase k))"

definition identity_row_ok :: "CredentialDB \<Rightarrow> identity_row \<Rightarrow> bool" where
  "identity_row_ok cd i = (validateCredentialIdentityID (ir_id i) = None \<and> ir_username i \<noteq> [] \<and> sealed (ir_password i)
     \<and> (ir_password i \<noteq> [] \<or> ir_ssh_key_id i \<noteq> []) \<and> (ir_ssh_key_id i \<noteq> [] \<longrightarrow> key_exists (ir_ssh_key_id i) cd))"

definition cred_inv :: "CredentialDB \<Rightarrow> bool" where
  "cred_inv cd = (distinct (map kr_id (cd_keys cd)) \<and> distinct (map ir_id (cd_identities cd))
     \<and> list_all key_row_ok (cd_keys cd) \<and> list_all (identity_row_ok cd) (cd_identities cd))"

lemma sealed_Nil [simp]: "sealed []"
  by (simp add: sealed_def)

lemma seal_secret_sealed: "seal_secret te nonce v aad = Inr c \<Longrightarrow> sealed c \<and> (v \<noteq> [] \<longrightarrow> c \<noteq> [])"
  by (auto simp: seal_secret_def EncryptWithAAD_def sealed_def IsEncrypted_def has_prefix_def CiphertextVersionPrefixV2_def split: if_splits)

lemma open_secret_Nil [simp]: "open_secret te [] aad = []"
  by (simp add: open_secret_def)

lemma seal_secret_opens:
  assumes "seal_secret te nonce v aad = Inr c" "aead_law (te_crypto te)" "length nonce = NonceSize" "v \<noteq> []"
  shows "open_secret te c aad = v"
proof -
  have enc: "EncryptWithAAD (te_crypto te) nonce (key_bytes te) v aad = Inr c"
    using assms(1) by (auto simp: seal_secret_def split: sum.splits)
  then have key: "length (key_bytes te) = KeySize" by (auto simp: EncryptWithAAD_def split: if_splits)
  show ?thesis using decrypt_encrypted [OF key assms(3,4) enc, of aad] assms(2) key
    by (auto simp: open_secret_def key_usable_def aead_law_def)
qed

lemma encryptSecrets_sealed:
  "encryptSecrets te ns kid k p = Inr (k', p') \<Longrightarrow> sealed k' \<and> sealed p' \<and> (k \<noteq> [] \<longrightarrow> k' \<noteq> [])"
  by (cases ns) (auto simp: encryptSecrets_def dest!: seal_secret_sealed split: if_splits sum.splits)

text \<open>What a successful operation did to the tables.\<close>

lemma key_Create_row:
  assumes "key_Create te parse ns kid label k p cd = Inr (smry, cd')"
  obtains row where "cd' = cd\<lparr>cd_keys := cd_keys cd @ [row]\<rparr>" "kr_id row = kid" "kid \<notin> set (map kr_id (cd_keys cd))" "key_row_ok row"
    "encryptSecrets te ns kid (trim_space k) p = Inr (kr_private_key row, kr_passphrase row)" "trim_space k \<noteq> []"
proof -
  obtain k' p' where enc: "encryptSecrets te ns kid (trim_space k) p = Inr (k', p')" "trim_space k \<noteq> []"
    and ok: "validateSSHKeyID kid = None" "kid \<notin> set (map kr_id (cd_keys cd))"
    and cd': "cd' = cd\<lparr>cd_keys := cd_keys cd @ [\<lparr>kr_id = kid, kr_label = trim_space label,
        kr_key_type = DetectSSHKeyType parse (trim_space k) p, kr_private_key = k', kr_passphrase = p'\<rparr>]\<rparr>"
    using assms unfolding key_Create_def Let_def by (auto split: option.splits if_splits sum.splits prod.splits)
  show ?thesis using encryptSecrets_sealed [OF enc(1)] enc ok by (intro that [OF cd']) (simp_all add: key_row_ok_def)
qed

lemma update_private_sealed:
  "update_private te parse n k p cur = Inr (k', t) \<Longrightarrow> key_row_ok cur \<Longrightarrow> sealed k' \<and> k' \<noteq> []"
  by (auto simp: update_private_def key_row_ok_def Let_def dest!: seal_secret_sealed split: option.splits if_splits sum.splits)

lemma update_passphrase_sealed: "update_passphrase te n p cur = Inr p' \<Longrightarrow> key_row_ok cur \<Longrightarrow> sealed p'"
  by (auto simp: update_passphrase_def key_row_ok_def dest!: seal_secret_sealed split: option.splits if_splits)

lemma key_Update_rows:
  assumes "key_Update te parse ns kid label k p cd = Inr (smry, cd')" "cred_inv cd"
  obtains f where "cd' = cd\<lparr>cd_keys := snd (sql_update (\<lambda>r. kr_id r = kid) f (cd_keys cd))\<rparr>" "\<And>r. kr_id (f r) = kr_id r"
    "\<And>r. validateSSHKeyID (kr_id r) = None \<Longrightarrow> key_row_ok (f r)"
proof -
  obtain n1 n2 where ns: "ns = (n1, n2)" by force
  obtain cur k' t p' where cur: "find (\<lambda>r. kr_id r = kid) (cd_keys cd) = Some cur"
    and up: "update_private te parse n1 k p cur = Inr (k', t)" "update_passphrase te n2 p cur = Inr p'"
    and cd': "cd' = cd\<lparr>cd_keys := snd (sql_update (\<lambda>r. kr_id r = kid) (\<lambda>r. r\<lparr>kr_label := if trim_space label \<noteq> [] then trim_space label
        else kr_label cur, kr_key_type := t, kr_private_key := k', kr_passphrase := p'\<rparr>) (cd_keys cd))\<rparr>"
    using assms(1) unfolding key_Update_def ns Let_def
    by (auto split: option.splits sum.splits prod.splits)
  have "key_row_ok cur" using assms(2) find_in_set [OF cur] by (auto simp: cred_inv_def list_all_iff)
  then have "sealed k'" "k' \<noteq> []" "sealed p'" using update_private_sealed [OF up(1)] update_passphrase_sealed [OF up(2)] by auto
  then show ?thesis by (intro that [OF cd']) (auto simp: key_row_ok_def)
qed

lemma ident_Create_row:
  assumes "ident_Create te n cid label u p k cd = Inr (smry, cd')"
  obtains row where "cd' = cd\<lparr>cd_identities := cd_identities cd @ [row]\<rparr>" "ir_id row = cid" "cid \<notin> set (map ir_id (cd_identities cd))"
    "identity_row_ok cd row" "ir_username row = trim_space u" "ir_ssh_key_id row = trim_space k"
    "if trim_space p = [] then ir_password row = []
     else seal_secret te n (trim_space p) (credentialIdentityAAD cid ''ssh_password'') = Inr (ir_password row)"
proof -
  obtain pw where pw: "(if trim_space p \<noteq> [] then
        (if \<not> key_usable te then Inl ErrEncryptionKeyRequired
         else seal_secret te n (trim_space p) (credentialIdentityAAD cid ''ssh_password''))
        else Inr []) = Inr pw"
    and ok: "validateCredentialIdentityID cid = None" "trim_space u \<noteq> []" "validateCredentialIdentityAuth p (trim_space k) = None"
      "cid \<notin> set (map ir_id (cd_identities cd))" "trim_space k = [] \<or> key_exists (trim_space k) cd"
    and cd': "cd' = cd\<lparr>cd_identities := cd_identities cd @ [\<lparr>ir_id = cid, ir_label = trim_space label, ir_username = trim_space u,
        ir_password = pw, ir_ssh_key_id = trim_space k\<rparr>]\<rparr>"
    using assms unfolding ident_Create_def Let_def by (auto split: option.splits if_splits sum.splits)
  have "sealed pw \<and> (trim_space p \<noteq> [] \<longrightarrow> pw \<noteq> [])" using pw by (auto dest: seal_secret_sealed split: if_splits)
  then show ?thesis using ok pw
    by (intro that [OF cd']) (auto simp: identity_row_ok_def validateCredentialIdentityAuth_def split: if_splits)
qed

lemma ident_Update_rows:
  assumes "ident_Update te n cid label u p k cd = Inr (smry, cd')" "cred_inv cd"
  obtains f where "cd' = cd\<lparr>cd_identities := snd (sql_update (\<lambda>r. ir_id r = cid) f (cd_identities cd))\<rparr>" "\<And>r. ir_id (f r) = ir_id r"
    "\<And>r. validateCredentialIdentityID (ir_id r) = None \<Longrightarrow> identity_row_ok cd (f r)"
proof -
  obtain cur pw ky user lbl where cur: "find (\<lambda>r. ir_id r = cid) (cd_identities cd) = Some cur" and user: "user \<noteq> []"
    and up: "next_password te n p cur = Inr pw" "validateCredentialIdentityAuth (decryptIdentityPassword te cid pw) ky = None"
    and ky: "ky = [] \<or> key_exists ky cd"
    and cd': "cd' = cd\<lparr>cd_identities := snd (sql_update (\<lambda>r. ir_id r = cid) (\<lambda>r. r\<lparr>ir_label := lbl, ir_username := user,
        ir_password := pw, ir_ssh_key_id := ky\<rparr>) (cd_identities cd))\<rparr>"
    using assms(1) unfolding ident_Update_def Let_def
    by (auto split: option.splits sum.splits if_splits)
  have "identity_row_ok cd cur" using assms(2) find_in_set [OF cur] by (auto simp: cred_inv_def list_all_iff)
  then have "sealed pw" using up(1)
    by (auto simp: next_password_def identity_row_ok_def Let_def dest!: seal_secret_sealed split: option.splits if_splits)
  moreover have "pw \<noteq> [] \<or> ky \<noteq> []"
    using up(2) by (auto simp: validateCredentialIdentityAuth_def decryptIdentityPassword_def open_secret_def split: if_splits)
  ultimately show ?thesis using user ky by (intro that [OF cd']) (auto simp: identity_row_ok_def)
qed

lemma key_exists_frame [simp]:
  "key_exists k (cd\<lparr>cd_identities := x\<rparr>) = key_exists k cd"
  "identity_row_ok (cd\<lparr>cd_identities := x\<rparr>) i = identity_row_ok cd i"
  by (simp_all add: key_exists_def identity_row_ok_def)

lemma identity_row_mono: "(\<And>k. key_exists k cd \<Longrightarrow> key_exists k cd') \<Longrightarrow> identity_row_ok cd i \<Longrightarrow> identity_row_ok cd' i"
  by (auto simp: identity_row_ok_def)

lemma update_rows_ok: "list_all P t \<Longrightarrow> (\<And>r. P r \<Longrightarrow> P (f r)) \<Longrightarrow> list_all P (snd (sql_update Q f t))"
  by (auto simp: sql_update_def list_all_iff)

lemma cred_inv_key_Create:
  assumes "cred_inv cd" "key_Create te parse ns kid label k p cd = Inr (smry, cd')"
  shows "cred_inv cd' \<and> (\<forall>x. key_exists x cd \<longrightarrow> key_exists x cd') \<and> cd_identities cd' = cd_identities cd"
proof -
  obtain row where row: "cd' = cd\<lparr>cd_keys := cd_keys cd @ [row]\<rparr>" "kr_id row = kid" "kid \<notin> set (map kr_id (cd_keys cd))" "key_row_ok row"
    using assms(2) by (rule key_Create_row)
  have mono: "key_exists x cd \<Longrightarrow> key_exists x cd'" for x by (auto simp: row(1) key_exists_def)
  have "list_all (identity_row_ok cd') (cd_identities cd)"
    using assms(1) identity_row_mono [OF mono] by (auto simp: cred_inv_def list_all_iff)
  then show ?thesis using assms(1) row mono by (auto simp: cred_inv_def)
qed

lemma cred_inv_key_Update:
  assumes "cred_inv cd" "key_Update te parse ns kid label k p cd = Inr (smry, cd')"
  shows "cred_inv cd' \<and> (\<forall>x. key_exists x cd' = key_exists x cd) \<and> cd_identities cd' = cd_identities cd"
proof -
  obtain f where f: "cd' = cd\<lparr>cd_keys := snd (sql_update (\<lambda>r. kr_id r = kid) f (cd_keys cd))\<rparr>" "\<And>r. kr_id (f r) = kr_id r"
      "\<And>r. validateSSHKeyID (kr_id r) = None \<Longrightarrow> key_row_ok (f r)"
    using assms(2,1) by (rule key_Update_rows) blast
  have ids: "map kr_id (cd_keys cd') = map kr_id (cd_keys cd)" using keys_update [of kr_id f] f(1,2) by simp
  then have same: "key_exists x cd' = key_exists x cd" for x by (simp add: key_exists_def)
  have "list_all key_row_ok (cd_keys cd')" unfolding f(1)
    using assms(1) f(3) by (auto simp: cred_inv_def key_row_ok_def intro!: update_rows_ok)
  moreover have "list_all (identity_row_ok cd') (cd_identities cd)"
    using assms(1) identity_row_mono [of cd cd'] same by (auto simp: cred_inv_def list_all_iff)
  ultimately show ?thesis using assms(1) ids same by (simp add: cred_inv_def) (simp add: f(1))
qed

lemma cred_inv_key_Delete:
  assumes "cred_inv cd" "key_Delete kid db cd = Inr cd'"
  shows "cred_inv cd' \<and> (\<forall>x. x \<noteq> kid \<longrightarrow> key_exists x cd' = key_exists x cd) \<and> cd_identities cd' = cd_identities cd
    \<and> (\<forall>t \<in> set (db_targets db). tr_ssh_key_id t \<noteq> kid)"
proof -
  have cd': "cd' = cd\<lparr>cd_keys := filter (\<lambda>r. kr_id r \<noteq> kid) (cd_keys cd)\<rparr>"
    and unused: "\<forall>i \<in> set (cd_identities cd). ir_ssh_key_id i \<noteq> kid" "\<forall>t \<in> set (db_targets db). tr_ssh_key_id t \<noteq> kid"
    using assms(2) by (auto simp: key_Delete_def sql_delete_def list_ex_iff split: option.splits if_splits)
  have same: "x \<noteq> kid \<Longrightarrow> key_exists x cd' = key_exists x cd" for x by (auto simp: cd' key_exists_def)
  have "list_all (identity_row_ok cd') (cd_identities cd)"
    using assms(1) unused(1) same by (auto simp: cred_inv_def list_all_iff identity_row_ok_def)
  then show ?thesis using assms(1) unused same by (auto simp: cred_inv_def cd' distinct_map_filter list_all_iff)
qed

lemma cred_inv_ident_Create:
  assumes "cred_inv cd" "ident_Create te n cid label u p k cd = Inr (smry, cd')"
  shows "cred_inv cd' \<and> cd_keys cd' = cd_keys cd \<and> set (map ir_id (cd_identities cd)) \<subseteq> set (map ir_id (cd_identities cd'))"
proof -
  obtain row where row: "cd' = cd\<lparr>cd_identities := cd_identities cd @ [row]\<rparr>" "ir_id row = cid"
      "cid \<notin> set (map ir_id (cd_identities cd))" "identity_row_ok cd row"
    using assms(2) by (rule ident_Create_row)
  then show ?thesis using assms(1) by (auto simp: cred_inv_def list_all_iff)
qed

lemma cred_inv_ident_Update:
  assumes "cred_inv cd" "ident_Update te n cid label u p k cd = Inr (smry, cd')"
  shows "cred_inv cd' \<and> cd_keys cd' = cd_keys cd \<and> map ir_id (cd_identities cd') = map ir_id (cd_identities cd)"
proof -
  obtain f where f: "cd' = cd\<lparr>cd_identities := snd (sql_update (\<lambda>r. ir_id r = cid) f (cd_identities cd))\<rparr>" "\<And>r. ir_id (f r) = ir_id r"
      "\<And>r. validateCredentialIdentityID (ir_id r) = None \<Longrightarrow> identity_row_ok cd (f r)"
    using assms(2,1) by (rule ident_Update_rows) blast
  have ids: "map ir_id (cd_identities cd') = map ir_id (cd_identities cd)" using keys_update [of ir_id f] f(1,2) by simp
  have "list_all (identity_row_ok cd) (cd_identities cd')" unfolding f(1)
    using assms(1) f(3) by (auto simp: cred_inv_def identity_row_ok_def intro!: update_rows_ok)
  then show ?thesis using assms(1) ids by (simp add: cred_inv_def) (simp add: f(1) list_all_iff)
qed

lemma cred_inv_ident_Delete:
  assumes "cred_inv cd" "ident_Delete cid db cd = Inr cd'"
  shows "cred_inv cd' \<and> cd_keys cd' = cd_keys cd \<and> (\<forall>t \<in> set (db_targets db). tr_credential_identity_id t \<noteq> cid)
    \<and> set (map ir_id (cd_identities cd')) = set (map ir_id (cd_identities cd)) - {cid}"
proof -
  have cd': "cd' = cd\<lparr>cd_identities := filter (\<lambda>r. ir_id r \<noteq> cid) (cd_identities cd)\<rparr>"
    and unused: "\<forall>t \<in> set (db_targets db). tr_credential_identity_id t \<noteq> cid"
    using assms(2) by (auto simp: ident_Delete_def sql_delete_def list_ex_iff split: option.splits if_splits)
  show ?thesis using assms(1) unused by (auto simp: cred_inv_def cd' distinct_map_filter list_all_iff)
qed

subsection \<open>Secrets come back\<close>

lemma find_snoc: "k y \<notin> set (map k xs) \<Longrightarrow> find (\<lambda>x. k x = k y) (xs @ [y]) = Some y"
  by (induction xs) auto

lemma key_Create_get:
  assumes "key_Create te parse (n1, n2) kid label k p cd = Inr (smry, cd')" "aead_law (te_crypto te)"
    and "length n1 = NonceSize" "length n2 = NonceSize"
  shows "\<exists>lbl. key_GetDecrypted te kid cd' = Inr \<lparr>sk_ID = kid, sk_Label = lbl, sk_SSHPrivateKey = trim_space k, sk_SSHPrivateKeyPassphrase = p\<rparr>"
proof -
  obtain row where row: "cd' = cd\<lparr>cd_keys := cd_keys cd @ [row]\<rparr>" "kr_id row = kid" "kid \<notin> set (map kr_id (cd_keys cd))" "key_row_ok row"
      "encryptSecrets te (n1, n2) kid (trim_space k) p = Inr (kr_private_key row, kr_passphrase row)" "trim_space k \<noteq> []"
    using assms(1) by (rule key_Create_row)
  have "find (\<lambda>r. kr_id r = kid) (cd_keys cd') = Some row"
    using find_snoc [of kr_id row "cd_keys cd"] row(1-3) by simp
  moreover have "open_secret te (kr_private_key row) (sshKeyAAD kid ''ssh_private_key'') = trim_space k"
    using row(5,6) seal_secret_opens [OF _ assms(2,3)] by (auto simp: encryptSecrets_def split: if_splits sum.splits)
  moreover have "open_secret te (kr_passphrase row) (sshKeyAAD kid ''ssh_private_key_passphrase'') = p"
    using row(5) seal_secret_opens [OF _ assms(2,4)]
    by (cases "p = []") (auto simp: encryptSecrets_def split: if_splits sum.splits)
  ultimately show ?thesis using row(2,4) by (auto simp: key_GetDecrypted_def key_row_ok_def)
qed


lemma valid_library_id:
  "validateSSHKeyID ''k1'' = None" "validateSSHKeyLabel ''k1'' = None" "validateCredentialIdentityID ''i1'' = None"
  "validateCredentialIdentityLabel ''i1'' = None"
  by (simp_all add: validateSSHKeyID_def validateSSHKeyLabel_def validateCredentialIdentityID_def validateCredentialIdentityLabel_def
      validateCredentialLibraryID_def validateCredentialLibraryLabel_def trim_space_visible visible_def Let_def valid_id_simps
      maxNameLen_def runes_ascii_Cons byte_def isControlLike_def)


end
