(* ===== verification/Server_Admin.thy ===== *)
theory Server_Admin
  imports Credential_Library
begin

text \<open>
  Server management over HTTP: groups with their members and tags
  (\<open>src/internal/httpapi/groups_handler.go\<close>) and targets (\<open>targets_handler.go\<close>).  A handler returns its
  error or its reply, and the new state.  The two that look for a free identifier loop until they have
  one; they return \<open>None\<close> when they do not return.  Decoded bodies and parsed times are arguments;
  audit records are left out.
\<close>

subsection \<open>Names and numbers\<close>

text \<open>\<open>strconv.Itoa\<close> on a number that is not negative.\<close>

fun Itoa :: "nat \<Rightarrow> string" where
  "Itoa n = (if n < 10 then [char_of (48 + n)] else Itoa (n div 10) @ [char_of (48 + n mod 10)])"

declare Itoa.simps [simp del]

text \<open>\<open>url.PathUnescape\<close>: a percent sign takes two hexadecimal digits.\<close>

fun PathUnescape :: "string \<Rightarrow> string option" where
  "PathUnescape [] = Some []"
| "PathUnescape (c # s) =
     (if c = CHR ''%'' then
        (case s of a # b # t \<Rightarrow> (case (hex_val a, hex_val b) of
            (Some x, Some y) \<Rightarrow> map_option (\<lambda>r. char_of (x * 16 + y) # r) (PathUnescape t)
          | _ \<Rightarrow> None)
         | _ \<Rightarrow> None)
      else map_option (\<lambda>r. c # r) (PathUnescape s))"

definition groupIDParam :: "string \<Rightarrow> string" where
  "groupIDParam raw = trim_space (case PathUnescape raw of Some d \<Rightarrow> d | None \<Rightarrow> raw)"

definition trim_byte :: "char \<Rightarrow> string \<Rightarrow> string" where
  "trim_byte c s = rev (dropWhile (\<lambda>x. x = c) (rev (dropWhile (\<lambda>x. x = c) s)))"

text \<open>UTF-8 encoding; a number that is no scalar value becomes the replacement character.\<close>

definition encode_rune :: "nat \<Rightarrow> string" where
  "encode_rune r =
     (let r = (if r > 1114111 \<or> between 55296 57343 r then rune_error else r) in
      map char_of
       (if r < 128 then [r]
        else if r < 2048 then [192 + r div 64, 128 + r mod 64]
        else if r < 65536 then [224 + r div 4096, 128 + r div 64 mod 64, 128 + r mod 64]
        else [240 + r div 262144, 128 + r div 4096 mod 64, 128 + r div 64 mod 64, 128 + r mod 64]))"

fun tag_runes :: "(nat \<Rightarrow> bool) \<Rightarrow> string \<Rightarrow> nat list \<Rightarrow> string" where
  "tag_runes uni b [] = b"
| "tag_runes uni b (r # rs) =
     (let b = b @ (if r < 128 then (if id_char (char_of r) then [char_of r] else ''_'')
                   else if uni r then encode_rune r else ''_'')
      in if length b \<ge> 64 then b else tag_runes uni b rs)"

definition defaultGroupTag :: "(nat \<Rightarrow> bool) \<Rightarrow> string \<Rightarrow> string" where
  "defaultGroupTag uni groupID =
     (let s = trim_space groupID in
      if s = [] then []
      else let out = trim_byte (CHR ''_'') (tag_runes uni [] (runes s)) in
        if out = [] then [] else if length out > 64 then take 64 out else out)"

definition normalizeTargetPath :: "string \<Rightarrow> string" where
  "normalizeTargetPath p =
     (let p = trim_byte slash (trim_space p) in
      if p = [] then []
      else join_byte slash (filter (\<lambda>w. w \<noteq> [] \<and> w \<noteq> ''.'' \<and> w \<noteq> ''..'') (map trim_space (split_byte slash p))))"

definition parseProtocolField :: "string \<Rightarrow> Protocol option" where
  "parseProtocolField raw =
     (let s = to_lower (trim_space raw) in
      if s = [] \<or> s = ''ssh'' then Some ProtocolSSH
      else if s = ''telnet'' then Some ProtocolTelnet
      else if s = ''vnc'' then Some ProtocolVNC
      else if s = ''tftp'' then Some ProtocolTFTP
      else if s = ''rdp'' then Some ProtocolRDP
      else if s = ''ftp'' then Some ProtocolFTP else None)"

subsection \<open>Looking for a free identifier\<close>

definition candidate :: "string \<Rightarrow> nat \<Rightarrow> string" where
  "candidate base i = (if i = 0 then base else base @ ''-'' @ Itoa i)"

text \<open>The loop of both handlers: try the base name, then the base name with a number, as long as the store says it exists.\<close>

partial_function (option) retry_ids ::
  "(nat \<Rightarrow> string \<Rightarrow> access_error + 'a) \<Rightarrow> access_error \<Rightarrow> string \<Rightarrow> nat \<Rightarrow> (access_error + string \<times> 'a) option" where
  "retry_ids attempt exists_err base i = (case attempt i (candidate base i) of
     Inr x \<Rightarrow> Some (Inr (candidate base i, x))
   | Inl e \<Rightarrow> if e = exists_err then retry_ids attempt exists_err base (i + 1) else Some (Inl e))"

subsection \<open>Listing\<close>

text \<open>The query parameters \<open>after_id\<close> and \<open>limit\<close>, empty when absent.\<close>

definition listOptsFromRequest :: "string \<Rightarrow> string \<Rightarrow> ListOpts option" where
  "listOptsFromRequest after limit =
     (let afterID = trim_space after; limitStr = trim_space limit in
      if afterID = [] \<and> limitStr = [] then None
      else Some \<lparr>lo_Limit = (if limitStr = [] then 100 else case atoi limitStr of None \<Rightarrow> 0
            | Some n \<Rightarrow> if n \<le> 0 then 0 else if n > 1000 then 1000 else n),
          lo_Offset = 0, lo_AfterID = afterID\<rparr>)"

text \<open>One more than the page is fetched, to know whether another page follows.\<close>

definition fetch_opts :: "ListOpts option \<Rightarrow> ListOpts option" where
  "fetch_opts opts = map_option (\<lambda>o'. \<lparr>lo_Limit = lo_Limit o' + 1, lo_Offset = 0, lo_AfterID = lo_AfterID o'\<rparr>) opts"

definition cut_page :: "ListOpts option \<Rightarrow> string list \<Rightarrow> string list \<times> string" where
  "cut_page opts ids = (case opts of None \<Rightarrow> (ids, [])
     | Some o' \<Rightarrow> let n = nat (lo_Limit o') in
         if lo_Limit o' > 0 \<and> length ids > n then (take n ids, ids ! (n - 1)) else (ids, []))"

record targetResponse =
  rp_ID :: string
  rp_Name :: string
  rp_Host :: string
  rp_Port :: nat
  rp_Protocol :: string
  rp_Path :: string
  rp_SSHUsername :: string
  rp_HasStoredCredentials :: bool
  rp_HasSSHKey :: bool
  rp_HasPassphrase :: bool
  rp_NeedsPassword :: bool
  rp_NeedsPassphrase :: bool
  rp_CredentialIdentityID :: string
  rp_SSHKeyID :: string
  rp_Tags :: "string list"
  rp_SFTPEnabled :: bool
  rp_FTPEnabled :: bool
  rp_TFTPEnabled :: bool
  rp_SSHHostKeyFingerprint :: string

definition isEncryptedPEMBlock :: "string \<Rightarrow> bool" where
  "isEncryptedPEMBlock s = (s \<noteq> [] \<and> (contains s ''ENCRYPTED'' \<or> contains s ''bcrypt''))"

definition targetToResponse :: "Target \<Rightarrow> string list \<Rightarrow> targetResponse" where
  "targetToResponse t tags =
     \<lparr>rp_ID = t_ID t, rp_Name = t_Name t, rp_Host = t_Host t, rp_Port = t_Port t, rp_Protocol = t_Protocol t, rp_Path = t_Path t,
      rp_SSHUsername = t_SSHUsername t, rp_HasStoredCredentials = (t_SSHUsername t \<noteq> []), rp_HasSSHKey = (t_SSHPrivateKey t \<noteq> []),
      rp_HasPassphrase = (t_SSHPrivateKeyPassphrase t \<noteq> []),
      rp_NeedsPassword = (t_SSHUsername t \<noteq> [] \<and> t_SSHPassword t = [] \<and> t_SSHPrivateKey t = []),
      rp_NeedsPassphrase = (t_SSHPrivateKey t \<noteq> [] \<and> t_SSHPrivateKeyPassphrase t = [] \<and> isEncryptedPEMBlock (t_SSHPrivateKey t)),
      rp_CredentialIdentityID = t_CredentialIdentityID t, rp_SSHKeyID = t_SSHKeyID t, rp_Tags = tags,
      rp_SFTPEnabled = t_SFTPEnabled t, rp_FTPEnabled = t_FTPEnabled t, rp_TFTPEnabled = t_TFTPEnabled t,
      rp_SSHHostKeyFingerprint = t_SSHHostKeyFingerprint t\<rparr>"

definition respond :: "AccessDB \<Rightarrow> Target list \<Rightarrow> targetResponse list" where
  "respond db ts = map (\<lambda>t. targetToResponse t (TagsForTarget (t_ID t) db)) ts"

definition sv_caller :: "server_env \<Rightarrow> http_req \<Rightarrow> instant \<Rightarrow> ServerApp \<Rightarrow> (string \<Rightarrow> ServerApp \<Rightarrow> 'x) \<Rightarrow> 'x" where
  "sv_caller env r now s k = (case currentUserID (se_guard env) r now (sv_db s) of (uid, db) \<Rightarrow> k uid (s\<lparr>sv_db := db\<rparr>))"

definition sv_is_admin :: "server_env \<Rightarrow> http_req \<Rightarrow> instant \<Rightarrow> ServerApp \<Rightarrow> (bool \<Rightarrow> ServerApp \<Rightarrow> 'x) \<Rightarrow> 'x" where
  "sv_is_admin env r now s k = (case currentUserIsAdmin (se_guard env) r now (sv_db s) of (b, db) \<Rightarrow> k b (s\<lparr>sv_db := db\<rparr>))"

abbreviation sv_limit :: "server_env \<Rightarrow> int" where "sv_limit env \<equiv> ge_list_limit (se_guard env)"

definition group_entry ::
  "server_env \<Rightarrow> AccessDB \<Rightarrow> bool \<Rightarrow> string list \<Rightarrow> string \<Rightarrow> (string \<times> string \<times> targetResponse list) list" where
  "group_entry env db isAdmin allowed gid = (case grp_Get gid db of Inl _ \<Rightarrow> []
     | Inr (i, name) \<Rightarrow>
       let filtered = filter (\<lambda>t. isAdmin \<or> t \<in> set allowed) (TargetIDsForGroup gid None (sv_limit env) db)
       in [(i, name, respond db (ListByIDs (se_target env) filtered None (sv_limit env) db))])"

definition handleGroups ::
  "server_env \<Rightarrow> http_req \<Rightarrow> string \<Rightarrow> string \<Rightarrow> instant \<Rightarrow> ServerApp
     \<Rightarrow> (http_error + (string \<times> string \<times> targetResponse list) list \<times> string) \<times> ServerApp" where
  "handleGroups env r after limit now s = sv_caller env r now s (\<lambda>uid s.
     let userID = trim_space uid in
     if userID = [] then (Inl (401, ''common.unauthorized''), s)
     else let opts = listOptsFromRequest after limit in
       sv_is_admin env r now s (\<lambda>isAdmin s.
         let db = sv_access s;
             ids = (if isAdmin then AllGroupIDs (fetch_opts opts) (sv_limit env) db
                    else GroupIDsForUser userID (fetch_opts opts) (sv_limit env) now db);
             (ids, next) = cut_page opts ids;
             allowed = (if isAdmin then [] else TargetIDsForUser userID None (sv_limit env) now db)
         in (Inr (concat (map (group_entry env db isAdmin allowed) ids), next), s)))"

definition handleTargets ::
  "server_env \<Rightarrow> http_req \<Rightarrow> string \<Rightarrow> string \<Rightarrow> instant \<Rightarrow> ServerApp
     \<Rightarrow> (http_error + targetResponse list \<times> string) \<times> ServerApp" where
  "handleTargets env r after limit now s = sv_caller env r now s (\<lambda>uid s.
     let userID = trim_space uid in
     if userID = [] then (Inl (401, ''common.unauthorized''), s)
     else let opts = listOptsFromRequest after limit in
       sv_is_admin env r now s (\<lambda>isAdmin s.
         let db = sv_access s;
             ids = (if isAdmin then AllIDs (fetch_opts opts) (sv_limit env) db
                    else TargetIDsForUser userID (fetch_opts opts) (sv_limit env) now db);
             (ids, next) = cut_page opts ids
         in (Inr (respond db (ListByIDs (se_target env) ids None (sv_limit env) db), next), s)))"

subsection \<open>Groups\<close>

abbreviation sv_uni :: "server_env \<Rightarrow> nat \<Rightarrow> bool" where "sv_uni env \<equiv> ae_letter_number (ge_auth (se_guard env))"

record createGroupRequest =
  cg_Name :: string
  cg_Path :: string

text \<open>Once the group exists, its creator joins it and it gets its default tag.\<close>

definition finish_group ::
  "server_env \<Rightarrow> string \<Rightarrow> string \<Rightarrow> string \<Rightarrow> AccessDB \<Rightarrow> ServerApp \<Rightarrow> (http_error + string \<times> string) \<times> ServerApp" where
  "finish_group env userID name gid acc s = (case AddUserToGroup userID gid acc of
     Inl _ \<Rightarrow> (Inl internal_error, set_access acc s)
   | Inr acc \<Rightarrow>
     let tag = defaultGroupTag (sv_uni env) gid;
         acc = (if tag = [] then acc else case SetGroupTags (sv_uni env) gid [tag] acc of Inl _ \<Rightarrow> acc | Inr acc \<Rightarrow> acc)
     in (Inr (gid, name), set_access acc s))"

definition handleCreateGroup ::
  "server_env \<Rightarrow> http_req \<Rightarrow> createGroupRequest option \<Rightarrow> instant \<Rightarrow> ServerApp \<Rightarrow> ((http_error + string \<times> string) \<times> ServerApp) option" where
  "handleCreateGroup env r body now s = (case requireAdmin (se_guard env) r now (sv_db s) of
     (Inl e, db) \<Rightarrow> Some (Inl e, s\<lparr>sv_db := db\<rparr>)
   | (Inr _, db) \<Rightarrow> sv_caller env r now (s\<lparr>sv_db := db\<rparr>) (\<lambda>uid s.
       let userID = trim_space uid in
       if userID = [] then Some (Inl (401, ''common.unauthorized''), s)
       else case body of None \<Rightarrow> Some (Inl (400, ''common.invalidRequestBody''), s)
       | Some req \<Rightarrow>
         let name = trim_space (cg_Name req); path = normalizeTargetPath (cg_Path req) in
         if name = [] then Some (Inl (400, ''groups.nameRequired''), s)
         else let base = (if path \<noteq> [] then path @ ''/'' @ slugID name else slugID name) in
           map_option (\<lambda>x. case x of
               Inl e \<Rightarrow> (Inl (validation_or e internal_error), s)
             | Inr (gid, acc) \<Rightarrow> finish_group env userID name gid acc s)
             (retry_ids (\<lambda>_ gid. grp_Create gid name (sv_access s)) ErrGroupExists base 0)))"

definition handleUpdateGroup ::
  "server_env \<Rightarrow> http_req \<Rightarrow> string \<Rightarrow> string option \<Rightarrow> instant \<Rightarrow> ServerApp \<Rightarrow> (http_error + string \<times> string) \<times> ServerApp" where
  "handleUpdateGroup env r group_id body now s = admin_only env r now s (\<lambda>s.
     let groupID = groupIDParam group_id in
     if groupID = [] then (Inl (400, ''groups.idRequired''), s)
     else case body of None \<Rightarrow> (Inl (400, ''common.invalidRequestBody''), s)
     | Some rawName \<Rightarrow>
       let name = trim_space rawName in
       if name = [] then (Inl (400, ''groups.nameRequired''), s)
       else case grp_Update groupID name (sv_access s) of
         Inl e \<Rightarrow> (Inl (validation_or e (if e = ErrGroupNotFound then (404, ''common.notFound'') else internal_error)), s)
       | Inr acc \<Rightarrow> (Inr (groupID, name), set_access acc s))"

definition handleDeleteGroup ::
  "server_env \<Rightarrow> http_req \<Rightarrow> string \<Rightarrow> instant \<Rightarrow> ServerApp \<Rightarrow> (http_error + unit) \<times> ServerApp" where
  "handleDeleteGroup env r group_id now s = admin_only env r now s (\<lambda>s.
     let groupID = groupIDParam group_id in
     if groupID = [] then (Inl (400, ''groups.idRequired''), s)
     else case grp_Delete groupID (sv_access s) of
       Inl e \<Rightarrow> (Inl (if e = ErrGroupNotFound then (404, ''common.notFound'') else validation_or e internal_error), s)
     | Inr acc \<Rightarrow> (Inr (), set_access acc s))"

record memberResponse =
  mr_ID :: string
  mr_Username :: string
  mr_Role :: string
  mr_ExpiresAt :: "instant option"
  mr_Expired :: bool

definition handleGroupMembers ::
  "server_env \<Rightarrow> http_req \<Rightarrow> string \<Rightarrow> instant \<Rightarrow> ServerApp \<Rightarrow> (http_error + memberResponse list) \<times> ServerApp" where
  "handleGroupMembers env r group_id now s = admin_only env r now s (\<lambda>s.
     let groupID = groupIDParam group_id in
     if groupID = [] then (Inl (400, ''groups.idRequired''), s)
     else (Inr (concat (map (\<lambda>m. case GetByID (ms_UserID m) (sv_db s) of Inl _ \<Rightarrow> []
           | Inr u \<Rightarrow> [\<lparr>mr_ID = u_ID u, mr_Username = u_Username u, mr_Role = (if u_Role u = [] then RoleUser else u_Role u),
               mr_ExpiresAt = ms_ExpiresAt m, mr_Expired = ms_Expired m\<rparr>])
         (MembershipsForGroup groupID now (sv_access s)))), s))"

text \<open>
  The expiry in the body: \<open>None\<close> when the field is blank, \<open>Some None\<close> when it is no RFC 3339 time.
\<close>

record addGroupMemberRequest =
  am_UserID :: string
  am_ExpiresAt :: "instant option option"

definition handleAddGroupMember ::
  "server_env \<Rightarrow> http_req \<Rightarrow> string \<Rightarrow> addGroupMemberRequest option \<Rightarrow> instant \<Rightarrow> ServerApp \<Rightarrow> (http_error + unit) \<times> ServerApp" where
  "handleAddGroupMember env r group_id body now s = admin_only env r now s (\<lambda>s.
     let groupID = groupIDParam group_id in
     if groupID = [] then (Inl (400, ''groups.idRequired''), s)
     else case body of None \<Rightarrow> (Inl (400, ''common.invalidRequestBody''), s)
     | Some req \<Rightarrow>
       let userID = trim_space (am_UserID req) in
       if userID = [] then (Inl (400, ''groups.userIDRequired''), s)
       else case GetByID userID (sv_db s) of
         Inl _ \<Rightarrow> (Inl (404, ''users.userNotFound''), s)
       | Inr _ \<Rightarrow> (case grp_Get groupID (sv_access s) of
           Inl e \<Rightarrow> (Inl (if e = ErrGroupNotFound then (404, ''groups.notFound'') else internal_error), s)
         | Inr _ \<Rightarrow>
           (case am_ExpiresAt req of
              Some None \<Rightarrow> (Inl (400, ''groups.expiresInvalid''), s)
            | ex \<Rightarrow>
              let expiresAt = (case ex of Some (Some t) \<Rightarrow> Some t | _ \<Rightarrow> None) in
              if (case expiresAt of Some t \<Rightarrow> \<not> t > now | None \<Rightarrow> False) then (Inl (400, ''groups.expiresInPast''), s)
              else case AddUserToGroupUntil userID groupID expiresAt (sv_access s) of
                Inl _ \<Rightarrow> (Inl internal_error, s)
              | Inr acc \<Rightarrow> (Inr (), set_access acc s))))"

definition handleRemoveGroupMember ::
  "server_env \<Rightarrow> http_req \<Rightarrow> string \<Rightarrow> string \<Rightarrow> instant \<Rightarrow> ServerApp \<Rightarrow> (http_error + unit) \<times> ServerApp" where
  "handleRemoveGroupMember env r group_id user_id now s = admin_only env r now s (\<lambda>s.
     let groupID = groupIDParam group_id; userID = trim_space user_id in
     if groupID = [] \<or> userID = [] then (Inl (400, ''groups.groupAndUserIDRequired''), s)
     else case RemoveUserFromGroup userID groupID (sv_access s) of
       Inl e \<Rightarrow> (Inl (if e = ErrGroupNotFound then (404, ''groups.notFound'') else internal_error), s)
     | Inr acc \<Rightarrow> (Inr (), set_access acc s))"

definition handleGroupTags ::
  "server_env \<Rightarrow> http_req \<Rightarrow> string \<Rightarrow> instant \<Rightarrow> ServerApp \<Rightarrow> (http_error + string list) \<times> ServerApp" where
  "handleGroupTags env r group_id now s =
     (let groupID = groupIDParam group_id in
      if groupID = [] then (Inl (400, ''groups.idRequired''), s)
      else case requireGroupMemberOrAdmin (se_guard env) r groupID now (sv_db s) of
        (Inl e, db) \<Rightarrow> (Inl e, s\<lparr>sv_db := db\<rparr>)
      | (Inr _, db) \<Rightarrow> (Inr (TagsForGroup groupID (a_access db)), s\<lparr>sv_db := db\<rparr>))"

fun tags_error :: "http_error \<Rightarrow> access_error \<Rightarrow> http_error" where
  "tags_error notFound ErrTagLength = (400, ''tags.lengthInvalid'')"
| "tags_error notFound ErrTagChars = (400, ''tags.charsInvalid'')"
| "tags_error notFound ErrGroupNotFound = notFound"
| "tags_error notFound ErrTargetNotFound = notFound"
| "tags_error notFound _ = internal_error"

definition handleSetGroupTags ::
  "server_env \<Rightarrow> http_req \<Rightarrow> string \<Rightarrow> string list option \<Rightarrow> instant \<Rightarrow> ServerApp \<Rightarrow> (http_error + string list) \<times> ServerApp" where
  "handleSetGroupTags env r group_id body now s = admin_only env r now s (\<lambda>s.
     let groupID = groupIDParam group_id in
     if groupID = [] then (Inl (400, ''groups.idRequired''), s)
     else case body of None \<Rightarrow> (Inl (400, ''common.invalidRequestBody''), s)
     | Some tags \<Rightarrow> (case SetGroupTags (sv_uni env) groupID tags (sv_access s) of
         Inl e \<Rightarrow> (Inl (tags_error (404, ''groups.notFound'') e), s)
       | Inr acc \<Rightarrow> (Inr tags, set_access acc s)))"

subsection \<open>Targets\<close>

record creds =
  cr_Username :: string
  cr_Password :: string
  cr_PrivateKey :: string
  cr_Passphrase :: string

definition set_cred :: "bool \<Rightarrow> string \<Rightarrow> string \<Rightarrow> string" where
  "set_cred onlyIfEmpty val cur = (if val = [] then cur else if onlyIfEmpty \<and> trim_space cur \<noteq> [] then cur else val)"

definition applyStoredCredentials ::
  "tenv \<Rightarrow> CredentialDB \<Rightarrow> string \<Rightarrow> string \<Rightarrow> bool \<Rightarrow> creds \<Rightarrow> access_error + creds" where
  "applyStoredCredentials te cd credentialIdentityID sshKeyID onlyIfEmpty c =
     (let cid = trim_space credentialIdentityID; kid = trim_space sshKeyID; put = set_cred onlyIfEmpty;
          put_key = (\<lambda>k c. c\<lparr>cr_PrivateKey := put (sk_SSHPrivateKey k) (cr_PrivateKey c),
                        cr_Passphrase := put (sk_SSHPrivateKeyPassphrase k) (cr_Passphrase c)\<rparr>) in
      if cid \<noteq> [] \<and> kid \<noteq> [] then Inl ErrCredentialSourceExclusive
      else if cid \<noteq> [] then
        (case ident_GetDecrypted te cid cd of Inl e \<Rightarrow> Inl e
         | Inr ident \<Rightarrow>
           let c = c\<lparr>cr_Username := put (ci_SSHUsername ident) (cr_Username c), cr_Password := put (ci_SSHPassword ident) (cr_Password c)\<rparr>
           in Inr (case ci_Key ident of None \<Rightarrow> c | Some k \<Rightarrow> put_key k c))
      else if kid \<noteq> [] then (case key_GetDecrypted te kid cd of Inl e \<Rightarrow> Inl e | Inr k \<Rightarrow> Inr (put_key k c))
      else Inr c)"

fun stored_cred_error :: "access_error \<Rightarrow> http_error" where
  "stored_cred_error ErrCredentialIdentityNotFound = (404, ''credentialIdentities.notFound'')"
| "stored_cred_error ErrSSHKeyNotFound = (404, ''sshKeys.notFound'')"
| "stored_cred_error ErrCredentialSourceExclusive = (400, ''targets.credentialSourceExclusive'')"
| "stored_cred_error _ = internal_error"

definition service_unavailable :: http_error where "service_unavailable = (503, ''service unavailable'')"

text \<open>A handler that panics: the server aborts the response.\<close>

definition aborted :: http_error where "aborted = (0, ''panic'')"

text \<open>The session cookie that creating and deleting a target ask for, besides the guard.\<close>

definition with_cookie ::
  "server_env \<Rightarrow> http_req \<Rightarrow> instant \<Rightarrow> ServerApp \<Rightarrow> (ServerApp \<Rightarrow> (http_error + 'a) \<times> ServerApp) \<Rightarrow> (http_error + 'a) \<times> ServerApp" where
  "with_cookie env r now s k = (case rq_Cookie r of
     None \<Rightarrow> (Inl (401, ''common.unauthorized''), s)
   | Some c \<Rightarrow> if c = [] then (Inl (401, ''common.unauthorized''), s)
       else case ses_Get (ge_auth (se_guard env)) c now (sv_db s) of
         (Inl _, db) \<Rightarrow> (Inl (401, ''common.unauthorized''), s\<lparr>sv_db := db\<rparr>)
       | (Inr _, db) \<Rightarrow> k (s\<lparr>sv_db := db\<rparr>))"

record createTargetRequest =
  ct_Name :: string
  ct_Host :: string
  ct_Port :: nat
  ct_Protocol :: string
  ct_Path :: string
  ct_GroupID :: string
  ct_CredentialIdentityID :: string
  ct_SSHKeyID :: string
  ct_creds :: creds
  ct_SFTPEnabled :: "bool option"
  ct_FTPEnabled :: "bool option"
  ct_TFTPEnabled :: "bool option"
  ct_SSHHostKeyFingerprint :: string

definition flag_or :: "bool option \<Rightarrow> bool \<Rightarrow> bool" where
  "flag_or o' d = (case o' of Some b \<Rightarrow> b | None \<Rightarrow> d)"

definition create_input :: "createTargetRequest \<Rightarrow> Protocol \<Rightarrow> creds \<Rightarrow> target_input" where
  "create_input req protocol c =
     \<lparr>in_Name = trim_space (ct_Name req), in_Host = trim_space (ct_Host req),
      in_Port = (if ct_Port req = 0 then 22 else ct_Port req), in_Protocol = protocol,
      in_Path = (let p = normalizeTargetPath (ct_Path req) in if p = [] then trim_space (ct_GroupID req) else p),
      in_SSHUsername = trim_space (cr_Username c), in_SSHPassword = cr_Password c, in_SSHPrivateKey = cr_PrivateKey c,
      in_SSHPrivateKeyPassphrase = cr_Passphrase c, in_SFTP = flag_or (ct_SFTPEnabled req) (protocol = ProtocolSSH),
      in_FTP = flag_or (ct_FTPEnabled req) False, in_TFTP = flag_or (ct_TFTPEnabled req) False\<rparr>"

text \<open>The loop over identifiers; every attempt draws fresh nonces.\<close>

definition create_target_loop ::
  "tenv \<Rightarrow> (nat \<Rightarrow> string \<times> string \<times> string) \<Rightarrow> string \<Rightarrow> target_input \<Rightarrow> AccessDB \<Rightarrow> (access_error + string \<times> Target \<times> AccessDB) option" where
  "create_target_loop te nonces groupID i db =
     retry_ids (\<lambda>n tid. tgt_CreateWithPath te (nonces n) tid groupID i db) ErrTargetExists (slugID (in_Name i)) 0"

text \<open>What follows once the row exists.\<close>

definition finish_target ::
  "server_env \<Rightarrow> createTargetRequest \<Rightarrow> Protocol \<Rightarrow> string \<Rightarrow> AccessDB \<Rightarrow> ServerApp \<Rightarrow> (http_error + targetResponse) \<times> ServerApp" where
  "finish_target env req protocol tid acc s =
     (let groupID = trim_space (ct_GroupID req); cid = trim_space (ct_CredentialIdentityID req); kid = trim_space (ct_SSHKeyID req) in
      case AddTargetToGroup groupID tid acc of
        Inl _ \<Rightarrow> (Inl (500, ''targets.assignFailed''), set_access acc s)
      | Inr acc \<Rightarrow>
        let acc = (if cid \<noteq> [] \<or> kid \<noteq> [] then (case SetCredentialSource tid cid kid acc of Inl _ \<Rightarrow> acc | Inr acc \<Rightarrow> acc) else acc);
            tags = TagsForGroup groupID acc;
            acc = (if tags \<noteq> [] then (case SetTargetTags (sv_uni env) tid tags acc of Inl _ \<Rightarrow> acc | Inr acc \<Rightarrow> acc) else acc);
            fp = trim_space (ct_SSHHostKeyFingerprint req)
        in case (if fp = [] then Inr acc else SetSSHHostKeyFingerprint tid fp acc) of
             Inl e \<Rightarrow> (Inl (validation_or e internal_error), set_access acc s)
           | Inr acc \<Rightarrow>
             let s = (set_access acc s)\<lparr>sv_tftp := NotifyTargetCreated (se_tftp env) protocol (sv_tftp s)\<rparr>
             in (case tgt_Get (se_target env) tid acc of
                   Inl _ \<Rightarrow> (Inl aborted, s)
                 | Inr t \<Rightarrow> (Inr (targetToResponse t (TagsForTarget tid acc)), s)))"

definition create_target_body ::
  "server_env \<Rightarrow> (nat \<Rightarrow> string \<times> string \<times> string) \<Rightarrow> createTargetRequest \<Rightarrow> ServerApp \<Rightarrow> ((http_error + targetResponse) \<times> ServerApp) option" where
  "create_target_body env nonces req s =
     (let groupID = trim_space (ct_GroupID req) in
      if trim_space (ct_Name req) = [] \<or> trim_space (ct_Host req) = [] then Some (Inl (400, ''targets.nameHostRequired''), s)
      else if groupID = [] then Some (Inl (400, ''targets.groupIDRequired''), s)
      else case grp_Get groupID (sv_access s) of Inl _ \<Rightarrow> Some (Inl (404, ''targets.groupNotFound''), s)
      | Inr _ \<Rightarrow> (case applyStoredCredentials (se_target env) (sv_cred s) (ct_CredentialIdentityID req) (ct_SSHKeyID req) True (ct_creds req) of
          Inl e \<Rightarrow> Some (Inl (stored_cred_error e), s)
        | Inr c \<Rightarrow> (case parseProtocolField (ct_Protocol req) of
            None \<Rightarrow> Some (Inl (400, ''targets.protocolInvalid''), s)
          | Some protocol \<Rightarrow>
            map_option (\<lambda>x. case x of
                Inl e \<Rightarrow> (Inl (if e = ErrEncryptionKeyRequired then service_unavailable else validation_or e internal_error), s)
              | Inr (tid, _, acc) \<Rightarrow> finish_target env req protocol tid acc s)
              (create_target_loop (se_target env) nonces groupID (create_input req protocol c) (sv_access s)))))"

definition handleCreateTarget ::
  "server_env \<Rightarrow> (nat \<Rightarrow> string \<times> string \<times> string) \<Rightarrow> http_req \<Rightarrow> createTargetRequest option \<Rightarrow> instant \<Rightarrow> ServerApp
     \<Rightarrow> ((http_error + targetResponse) \<times> ServerApp) option" where
  "handleCreateTarget env nonces r body now s =
     (if rq_Method r \<noteq> ''POST'' then Some (Inl (405, ''common.methodNotAllowed''), s)
      else case and_then (admin_only env r now s (\<lambda>s. (Inr (), s))) (\<lambda>_ s. with_cookie env r now s (\<lambda>s. (Inr (), s))) of
        (Inl e, s) \<Rightarrow> Some (Inl e, s)
      | (Inr _, s) \<Rightarrow> (case body of
          None \<Rightarrow> Some (Inl (400, ''common.invalidRequestBody''), s)
        | Some req \<Rightarrow> create_target_body env nonces req s))"

record updateTargetRequest =
  ut_Name :: string
  ut_Host :: string
  ut_Port :: nat
  ut_Protocol :: string
  ut_Path :: string
  ut_GroupID :: "string option"
  ut_CredentialIdentityID :: "string option"
  ut_SSHKeyID :: "string option"
  ut_SSHUsername :: string
  ut_SSHPassword :: "string option"
  ut_SSHPrivateKey :: "string option"
  ut_SSHPrivateKeyPassphrase :: "string option"
  ut_SFTPEnabled :: "bool option"
  ut_FTPEnabled :: "bool option"
  ut_TFTPEnabled :: "bool option"

definition str_or :: "string option \<Rightarrow> string \<Rightarrow> string" where
  "str_or o' d = (case o' of Some v \<Rightarrow> v | None \<Rightarrow> d)"

definition update_group_check :: "updateTargetRequest \<Rightarrow> AccessDB \<Rightarrow> http_error + string option" where
  "update_group_check req db = (case ut_GroupID req of None \<Rightarrow> Inr None
     | Some raw \<Rightarrow> let gid = trim_space raw in
         if gid = [] then Inl (400, ''targets.groupIDRequired'')
         else case grp_Get gid db of Inl _ \<Rightarrow> Inl (404, ''targets.groupNotFound'') | Inr _ \<Rightarrow> Inr (Some gid))"

definition update_input :: "updateTargetRequest \<Rightarrow> Target \<Rightarrow> Protocol \<Rightarrow> creds \<Rightarrow> target_input" where
  "update_input req cur protocol c =
     \<lparr>in_Name = trim_space (ut_Name req), in_Host = trim_space (ut_Host req),
      in_Port = (if ut_Port req = 0 then 22 else ut_Port req), in_Protocol = protocol, in_Path = normalizeTargetPath (ut_Path req),
      in_SSHUsername = trim_space (cr_Username c), in_SSHPassword = cr_Password c, in_SSHPrivateKey = cr_PrivateKey c,
      in_SSHPrivateKeyPassphrase = cr_Passphrase c, in_SFTP = flag_or (ut_SFTPEnabled req) (t_SFTPEnabled cur),
      in_FTP = flag_or (ut_FTPEnabled req) (t_FTPEnabled cur), in_TFTP = flag_or (ut_TFTPEnabled req) (t_TFTPEnabled cur)\<rparr>"

definition update_creds :: "tenv \<Rightarrow> CredentialDB \<Rightarrow> updateTargetRequest \<Rightarrow> Target \<Rightarrow> access_error + creds" where
  "update_creds te cd req cur =
     (let cid = trim_space (str_or (ut_CredentialIdentityID req) []); kid = trim_space (str_or (ut_SSHKeyID req) []);
          onlyIfEmpty = (if cid \<noteq> [] \<or> kid \<noteq> []
            then ut_SSHPassword req = None \<and> ut_SSHPrivateKey req = None \<and> ut_SSHPrivateKeyPassphrase req = None else True)
      in applyStoredCredentials te cd cid kid onlyIfEmpty
           \<lparr>cr_Username = ut_SSHUsername req, cr_Password = str_or (ut_SSHPassword req) (t_SSHPassword cur),
            cr_PrivateKey = str_or (ut_SSHPrivateKey req) (t_SSHPrivateKey cur),
            cr_Passphrase = str_or (ut_SSHPrivateKeyPassphrase req) (t_SSHPrivateKeyPassphrase cur)\<rparr>)"

fun leave_groups :: "string \<Rightarrow> string \<Rightarrow> string list \<Rightarrow> AccessDB \<Rightarrow> access_error option \<times> AccessDB" where
  "leave_groups tid new [] acc = (None, acc)"
| "leave_groups tid new (g # gs) acc =
     (if g = new then leave_groups tid new gs acc
      else case RemoveTargetFromGroup g tid acc of Inl e \<Rightarrow> (Some e, acc) | Inr acc \<Rightarrow> leave_groups tid new gs acc)"

definition move_target :: "string \<Rightarrow> string \<Rightarrow> AccessDB \<Rightarrow> http_error option \<times> AccessDB" where
  "move_target tid new acc =
     (let current = GroupIDsForTarget tid acc in
      case leave_groups tid new current acc of
        (Some _, acc) \<Rightarrow> (Some internal_error, acc)
      | (None, acc) \<Rightarrow>
          if new \<in> set current then (None, acc)
          else (case AddTargetToGroup new tid acc of
              Inl _ \<Rightarrow> (Some (500, ''targets.assignFailed''), acc) | Inr acc \<Rightarrow> (None, acc)))"

text \<open>What follows once the row is written: the link, the controller of the TFTP server, the group.\<close>

definition finish_update ::
  "server_env \<Rightarrow> updateTargetRequest \<Rightarrow> Target \<Rightarrow> Protocol \<Rightarrow> string option \<Rightarrow> Target \<Rightarrow> AccessDB \<Rightarrow> ServerApp \<Rightarrow> (http_error + targetResponse) \<times> ServerApp" where
  "finish_update env req cur protocol newGroup t acc s =
     (let cid = trim_space (str_or (ut_CredentialIdentityID req) []); kid = trim_space (str_or (ut_SSHKeyID req) []);
          changing = (ut_CredentialIdentityID req \<noteq> None \<or> ut_SSHKeyID req \<noteq> None);
          acc = (if changing then (case SetCredentialSource (t_ID t) cid kid acc of Inl _ \<Rightarrow> acc | Inr acc \<Rightarrow> acc) else acc);
          t = (if changing then t\<lparr>t_CredentialIdentityID := cid, t_SSHKeyID := kid\<rparr> else t);
          tf = (if t_Protocol cur \<noteq> protocol
            then NotifyTargetCreated (se_tftp env) protocol (NotifyTargetDeleted (t_Protocol cur) (sv_tftp s)) else sv_tftp s);
          (moved, acc) = (case newGroup of None \<Rightarrow> (None, acc) | Some g \<Rightarrow> move_target (t_ID t) g acc);
          s = (set_access acc s)\<lparr>sv_tftp := tf\<rparr>
      in (case moved of Some e \<Rightarrow> (Inl e, s) | None \<Rightarrow> (Inr (targetToResponse t (TagsForTarget (t_ID t) acc)), s)))"

definition update_target_body ::
  "server_env \<Rightarrow> string \<times> string \<times> string \<Rightarrow> string \<Rightarrow> Target \<Rightarrow> updateTargetRequest \<Rightarrow> ServerApp \<Rightarrow> (http_error + targetResponse) \<times> ServerApp" where
  "update_target_body env nonces targetID cur req s =
     (if trim_space (ut_Name req) = [] \<or> trim_space (ut_Host req) = [] then (Inl (400, ''targets.nameHostRequired''), s)
      else case update_group_check req (sv_access s) of Inl e \<Rightarrow> (Inl e, s)
      | Inr newGroup \<Rightarrow> (case parseProtocolField (ut_Protocol req) of None \<Rightarrow> (Inl (400, ''targets.protocolInvalid''), s)
        | Some protocol \<Rightarrow> (case update_creds (se_target env) (sv_cred s) req cur of Inl e \<Rightarrow> (Inl (stored_cred_error e), s)
          | Inr c \<Rightarrow> (case tgt_Update (se_target env) nonces targetID (update_input req cur protocol c) (sv_access s) of
              Inl e \<Rightarrow> (Inl (if e = ErrTargetNotFound then (404, ''common.targetNotFound'')
                     else if e = ErrEncryptionKeyRequired then service_unavailable else validation_or e internal_error), s)
            | Inr (t, acc) \<Rightarrow> finish_update env req cur protocol newGroup t acc s))))"

definition handleUpdateTarget ::
  "server_env \<Rightarrow> string \<times> string \<times> string \<Rightarrow> http_req \<Rightarrow> string \<Rightarrow> updateTargetRequest option \<Rightarrow> instant \<Rightarrow> ServerApp
     \<Rightarrow> (http_error + targetResponse) \<times> ServerApp" where
  "handleUpdateTarget env nonces r target_id body now s =
     (if rq_Method r \<noteq> ''PUT'' then (Inl (405, ''common.methodNotAllowed''), s)
      else admin_only env r now s (\<lambda>s.
        let targetID = trim_space target_id in
        if targetID = [] then (Inl (400, ''common.targetIDRequired''), s)
        else sv_caller env r now s (\<lambda>_ s. case tgt_Get (se_target env) targetID (sv_access s) of
            Inl _ \<Rightarrow> (Inl (404, ''common.targetNotFound''), s)
          | Inr cur \<Rightarrow> (case body of None \<Rightarrow> (Inl (400, ''common.invalidRequestBody''), s)
            | Some req \<Rightarrow> update_target_body env nonces targetID cur req s))))"

definition close_window :: "string \<Rightarrow> instant \<Rightarrow> tftp_controller \<Rightarrow> tftp_controller" where
  "close_window tid now c = (case tftp_Current c of None \<Rightarrow> c | Some srv \<Rightarrow> c\<lparr>tc_server := Some (CloseWriteWindow tid now srv)\<rparr>)"

definition handleDeleteTarget ::
  "server_env \<Rightarrow> http_req \<Rightarrow> string \<Rightarrow> instant \<Rightarrow> ServerApp \<Rightarrow> (http_error + unit) \<times> ServerApp" where
  "handleDeleteTarget env r targetID now s =
     (if rq_Method r \<noteq> ''DELETE'' then (Inl (405, ''common.methodNotAllowed''), s)
      else admin_only env r now s (\<lambda>s.
        if targetID = [] then (Inl (400, ''common.targetIDRequired''), s)
        else with_cookie env r now s (\<lambda>s.
          case tgt_Delete targetID (sv_access s) of
            Inl e \<Rightarrow> (Inl (if e = ErrTargetNotFound then (404, ''common.targetNotFound'') else internal_error), s)
          | Inr acc \<Rightarrow>
            (Inr (), (set_access acc s)\<lparr>sv_tftp := (case tgt_Get (se_target env) targetID (sv_access s) of
               Inl _ \<Rightarrow> sv_tftp s
             | Inr cur \<Rightarrow> NotifyTargetDeleted (t_Protocol cur) (close_window (t_ID cur) now (sv_tftp s)))\<rparr>))))"

definition handleTargetTags ::
  "server_env \<Rightarrow> http_req \<Rightarrow> string \<Rightarrow> instant \<Rightarrow> ServerApp \<Rightarrow> (http_error + string list) \<times> ServerApp" where
  "handleTargetTags env r target_id now s =
     (let targetID = trim_space target_id in
      if targetID = [] then (Inl (400, ''common.targetIDRequired''), s)
      else case requireTargetAccess (se_guard env) r targetID now (sv_db s) of
        (Inl e, db) \<Rightarrow> (Inl e, s\<lparr>sv_db := db\<rparr>)
      | (Inr _, db) \<Rightarrow> (Inr (TagsForTarget targetID (a_access db)), s\<lparr>sv_db := db\<rparr>))"

definition handleSetTargetTags ::
  "server_env \<Rightarrow> http_req \<Rightarrow> string \<Rightarrow> string list option \<Rightarrow> instant \<Rightarrow> ServerApp \<Rightarrow> (http_error + string list) \<times> ServerApp" where
  "handleSetTargetTags env r target_id body now s = admin_only env r now s (\<lambda>s.
     let targetID = trim_space target_id in
     if targetID = [] then (Inl (400, ''common.targetIDRequired''), s)
     else case requireTargetAccess (se_guard env) r targetID now (sv_db s) of
       (Inl e, db) \<Rightarrow> (Inl e, s\<lparr>sv_db := db\<rparr>)
     | (Inr _, db) \<Rightarrow>
       let s = s\<lparr>sv_db := db\<rparr> in
       (case body of None \<Rightarrow> (Inl (400, ''common.invalidRequestBody''), s)
        | Some tags \<Rightarrow> (case SetTargetTags (sv_uni env) targetID tags (sv_access s) of
            Inl e \<Rightarrow> (Inl (tags_error (404, ''common.targetNotFound'') e), s)
          | Inr acc \<Rightarrow> (Inr tags, set_access acc s))))"

subsection \<open>The loop over identifiers\<close>

lemma Itoa_value: "digits_val (Itoa n) = int n \<and> list_all is_digit (Itoa n) \<and> Itoa n \<noteq> []"
proof (induction n rule: Itoa.induct)
  case (1 n)
  have digit: "digit_val (char_of (48 + d)) = int d \<and> is_digit (char_of (48 + d))" if "d < 10" for d
    using that by (auto simp: digit_val_def is_digit_def less_eq_char_def)
  show ?case
  proof (cases "n < 10")
    case True
    then show ?thesis using digit [of n] by (simp add: Itoa.simps [of n] digits_val_def)
  next
    case False
    have "int (n div 10) * 10 + int (n mod 10) = int n" by presburger
    then show ?thesis using 1 False digit [of "n mod 10"] by (simp add: Itoa.simps [of n] digits_val_def)
  qed
qed

lemma Itoa_inj: "Itoa m = Itoa n \<Longrightarrow> m = n"
  using Itoa_value by (metis of_nat_eq_iff)

lemma Itoa_length: "n < 10 ^ k \<Longrightarrow> 0 < k \<Longrightarrow> length (Itoa n) \<le> k"
proof (induction n arbitrary: k rule: Itoa.induct)
  case (1 n)
  show ?case
  proof (cases "n < 10")
    case True
    then show ?thesis using 1(3) by (simp add: Itoa.simps [of n])
  next
    case False
    obtain j where j: "k = Suc j" using 1(3) by (cases k) auto
    with False 1(2) have k: "k = Suc j" "0 < j" by (cases j; simp)+
    then have "n div 10 < 10 ^ j" using 1(2) by (simp add: less_mult_imp_div_less mult.commute)
    then show ?thesis using 1(1) [OF False, of j] k False by (simp add: Itoa.simps [of n])
  qed
qed

lemma candidate_inj: "candidate base i = candidate base j \<Longrightarrow> i = j"
  by (auto simp: candidate_def dest: Itoa_inj split: if_splits)

lemma retry_skips:
  "(\<And>k. i \<le> k \<Longrightarrow> k < j \<Longrightarrow> attempt k (candidate base k) = Inl e) \<Longrightarrow> i \<le> j \<Longrightarrow>
     retry_ids attempt e base i = retry_ids attempt e base j"
proof (induction "j - i" arbitrary: i)
  case (Suc n)
  then have "attempt i (candidate base i) = Inl e" "retry_ids attempt e base (i + 1) = retry_ids attempt e base j" by auto
  then show ?case by (simp add: retry_ids.simps [of attempt e base i])
qed simp

text \<open>
  Names that exist are finitely many and candidates never repeat, so the loop ends, on the first
  candidate the store does not call existing.
\<close>

lemma retry_returns:
  assumes "finite {i. attempt i (candidate base i) = Inl e}"
  obtains j where "\<And>k. k < j \<Longrightarrow> attempt k (candidate base k) = Inl e" "attempt j (candidate base j) \<noteq> Inl e"
    "retry_ids attempt e base 0 = Some (case attempt j (candidate base j) of Inl e' \<Rightarrow> Inl e' | Inr x \<Rightarrow> Inr (candidate base j, x))"
proof -
  have "\<exists>j. attempt j (candidate base j) \<noteq> Inl e"
    using assms infinite_UNIV_nat by (metis (mono_tags, lifting) UNIV_eq_I mem_Collect_eq)
  then obtain j where j: "attempt j (candidate base j) \<noteq> Inl e" "\<And>k. k < j \<Longrightarrow> attempt k (candidate base k) = Inl e"
    using exists_least_iff [of "\<lambda>j. attempt j (candidate base j) \<noteq> Inl e"] by blast
  have "retry_ids attempt e base 0 = retry_ids attempt e base j" by (rule retry_skips) (use j in auto)
  also have "\<dots> = Some (case attempt j (candidate base j) of Inl e' \<Rightarrow> Inl e' | Inr x \<Rightarrow> Inr (candidate base j, x))"
    using j(1) by (auto simp: retry_ids.simps [of attempt e base j] split: sum.split)
  finally show ?thesis using that j by blast
qed

lemma finite_existing:
  assumes "\<And>i. attempt i (candidate base i) = Inl e \<Longrightarrow> candidate base i \<in> S" "finite S"
  shows "finite {i. attempt i (candidate base i) = Inl e}" "card {i. attempt i (candidate base i) = Inl e} \<le> card S"
proof -
  have inj: "inj_on (candidate base) {i. attempt i (candidate base i) = Inl e}" using candidate_inj by (auto simp: inj_on_def)
  have sub: "candidate base ` {i. attempt i (candidate base i) = Inl e} \<subseteq> S" using assms(1) by auto
  show "finite {i. attempt i (candidate base i) = Inl e}" using inj sub assms(2) by (metis finite_imageD finite_subset)
  show "card {i. attempt i (candidate base i) = Inl e} \<le> card S" using card_inj_on_le [OF inj sub assms(2)] .
qed

lemma create_group_loop:
  obtains j where "retry_ids (\<lambda>_ gid. grp_Create gid name db) ErrGroupExists base 0 =
      Some (case grp_Create (candidate base j) name db of Inl e' \<Rightarrow> Inl e' | Inr x \<Rightarrow> Inr (candidate base j, x))"
    "\<And>k. k < j \<Longrightarrow> group_exists (candidate base k) db" "grp_Create (candidate base j) name db \<noteq> Inl ErrGroupExists" "j \<le> length (db_groups db)"
proof -
  let ?a = "\<lambda>(_::nat) gid. grp_Create gid name db" and ?S = "set (map fst (db_groups db))"
  have ex: "?a k gid = Inl ErrGroupExists \<Longrightarrow> gid \<in> ?S" for k gid
    by (auto simp: grp_Create_def group_exists_def validateGroupID_def validateName_def split: option.splits if_splits)
  have fin: "finite {i. ?a i (candidate base i) = Inl ErrGroupExists}" "card {i. ?a i (candidate base i) = Inl ErrGroupExists} \<le> card ?S"
    using finite_existing [of ?a base ErrGroupExists ?S] ex by auto
  obtain j where j: "\<And>k. k < j \<Longrightarrow> ?a k (candidate base k) = Inl ErrGroupExists" "?a j (candidate base j) \<noteq> Inl ErrGroupExists"
    "retry_ids ?a ErrGroupExists base 0 = Some (case ?a j (candidate base j) of Inl e' \<Rightarrow> Inl e' | Inr x \<Rightarrow> Inr (candidate base j, x))"
    by (rule retry_returns [of ?a base ErrGroupExists, OF fin(1)]) auto
  have "card {..<j} \<le> card {i. ?a i (candidate base i) = Inl ErrGroupExists}" using fin(1) j(1) by (intro card_mono) auto
  also have "\<dots> \<le> card ?S" using fin(2) by simp
  also have "\<dots> \<le> length (db_groups db)" using card_length [of "map fst (db_groups db)"] by simp
  finally show ?thesis using j ex by (intro that [of j]) (auto simp: group_exists_def)
qed

subsection \<open>The default tag of a group\<close>

lemma set_tag_runes:
  "set b \<subseteq> Collect id_char \<Longrightarrow> \<forall>r \<in> set rs. r < 128 \<Longrightarrow> length b < 64 \<Longrightarrow>
     set (tag_runes uni b rs) \<subseteq> Collect id_char \<and> length (tag_runes uni b rs) \<le> 64"
proof (induction rs arbitrary: b)
  case (Cons r rs)
  let ?b = "b @ (if r < 128 then (if id_char (char_of r) then [char_of r] else ''_'') else if uni r then encode_rune r else ''_'')"
  have "set ?b \<subseteq> Collect id_char" "length ?b = Suc (length b)" using Cons.prems by (auto simp: id_char_def)
  then show ?case using Cons.prems Cons.IH [of ?b] by (auto simp: Let_def)
qed simp

lemma set_trim_byte: "set (trim_byte c s) \<subseteq> set s" "length (trim_byte c s) \<le> length s"
proof -
  show "set (trim_byte c s) \<subseteq> set s" by (auto simp: trim_byte_def dest!: set_dropWhileD)
  show "length (trim_byte c s) \<le> length s"
    unfolding trim_byte_def by (metis length_rev length_dropWhile_le order_trans)
qed

lemma id_char_ascii: "id_char c \<Longrightarrow> byte c < 128"
  by (auto simp: id_char_def is_alnum_def is_digit_def less_eq_char_def byte_def)

lemma trim_space_set: "set (trim_space s) \<subseteq> set s"
proof -
  obtain p q where "s = p @ trim_left s" "trim_left s = trim_space s @ q"
    using strip_front_suffix trim_right_prefix unfolding trim_space_def trim_left_def by metis
  then show ?thesis by (metis Un_upper2 le_supI1 set_append order_trans subset_refl)
qed

text \<open>The tag derived from a valid group identifier is always one the store accepts.\<close>

lemma default_tag_valid:
  assumes "validateGroupID gid = None" "defaultGroupTag uni gid \<noteq> []"
  shows "validateTag uni (defaultGroupTag uni gid) = None"
proof -
  let ?s = "trim_space gid" let ?t = "tag_runes uni [] (runes ?s)"
  have "byte c < 128" if "c \<in> set ?s" for c
  proof -
    have "c \<in> set gid" using that trim_space_set by blast
    then have "id_char c \<or> c = slash" using validateGroupID_chars [OF assms(1)] by blast
    then show ?thesis by (elim disjE) (simp_all add: id_char_ascii, simp add: byte_def)
  qed
  then have "runes ?s = map byte ?s" "\<forall>r \<in> set (runes ?s). r < 128" by (simp_all add: runes_ascii list_all_iff)
  then have t: "set ?t \<subseteq> Collect id_char" "length ?t \<le> 64" using set_tag_runes [of "[]" "runes ?s" uni] by auto
  then have "length (trim_byte (CHR ''_'') ?t) \<le> 64" using set_trim_byte(2) [of "CHR ''_''" ?t] by linarith
  then have tag: "defaultGroupTag uni gid = trim_byte (CHR ''_'') ?t"
    using assms(2) by (auto simp: defaultGroupTag_def Let_def split: if_splits)
  have chars: "\<forall>c \<in> set (defaultGroupTag uni gid). id_char c" using tag t(1) set_trim_byte(1) [of "CHR ''_''" ?t] by auto
  then have "runes (defaultGroupTag uni gid) = map byte (defaultGroupTag uni gid)"
    using id_char_ascii by (auto intro!: runes_ascii simp: list_all_iff)
  moreover have "length (defaultGroupTag uni gid) \<le> 64" using tag \<open>length (trim_byte _ ?t) \<le> 64\<close> by simp
  ultimately show ?thesis using assms(2) chars id_char_ascii
    by (auto simp: validateTag_def maxTagLen_def list_all_iff byte_def)
qed

lemma sv_access_set [simp]: "sv_access (set_access acc s) = acc" "sv_cred (set_access acc s) = sv_cred s" "sv_tftp (set_access acc s) = sv_tftp s"
  by (simp_all add: sv_access_def set_access_def)

lemma AddUserToGroup_member:
  assumes "AddUserToGroup u g acc = Inr acc'"
  shows "(u, g, None) \<in> set (db_user_groups acc') \<and> db_groups acc' = db_groups acc"
  using assms by (auto simp: AddUserToGroup_def AddUserToGroupUntil_def Let_def image_iff split: if_splits) force+

lemma finish_group_ok:
  assumes "finish_group env u name gid acc s = (Inr y, s')" "validateGroupID gid = None" "group_exists gid acc"
  shows "y = (gid, name) \<and> db_groups (sv_access s') = db_groups acc \<and> (u, gid, None) \<in> set (db_user_groups (sv_access s'))
    \<and> (let tag = defaultGroupTag (sv_uni env) gid in tag = [] \<or> (gid, tag) \<in> set (db_group_tags (sv_access s')))"
proof -
  let ?tag = "defaultGroupTag (sv_uni env) gid"
  obtain acc2 where a: "AddUserToGroup u gid acc = Inr acc2"
    using assms(1) by (auto simp: finish_group_def split: sum.splits)
  note m = AddUserToGroup_member [OF a]
  then have "group_exists gid acc2" using assms(3) by (simp add: group_exists_def)
  then have "?tag = [] \<or> SetGroupTags (sv_uni env) gid [?tag] acc2 =
      Inr (acc2\<lparr>db_group_tags := filter (\<lambda>(g, _). g \<noteq> gid) (db_group_tags acc2) @ [(gid, ?tag)]\<rparr>)"
    using default_tag_valid [OF assms(2), of "sv_uni env"] by (cases "?tag = []") (simp_all add: SetGroupTags_def first_tag_error_def)
  then show ?thesis using assms(1) m by (cases "?tag = []") (auto simp: finish_group_def a Let_def)
qed

text \<open>A call either ends early with an error, or creates the first candidate that is free.\<close>

lemma create_group_cases:
  obtains (1) x s' where "handleCreateGroup env r body now s = Some (Inl x, s')"
  | (2) u base name acc j where "handleCreateGroup env r body now s = Some (finish_group env u name (candidate base j) acc s)"
      "u = trim_space (fst (currentUserID (se_guard env) r now (sv_db s)))"
      "\<And>k. k < j \<Longrightarrow> group_exists (candidate base k) (sv_access s)" "j \<le> length (db_groups (sv_access s))"
      "grp_Create (candidate base j) name (sv_access s) = Inr acc"
proof (cases "requireAdmin (se_guard env) r now (sv_db s)")
  case (Pair a d)
  show ?thesis
  proof (cases a)
    case (Inl e)
    then show ?thesis using Pair by (intro that(1)) (simp add: handleCreateGroup_def)
  next
    case (Inr z)
    obtain uid where cu: "currentUserID (se_guard env) r now (sv_db s) = (uid, sv_db s)" "d = sv_db s"
      using requireAdmin_ok [of "se_guard env" r now "sv_db s" z d] Pair Inr by metis
    show ?thesis
    proof (cases "trim_space uid = [] \<or> body = None \<or> trim_space (cg_Name (the body)) = []")
      case True
      then have "\<exists>x s'. handleCreateGroup env r body now s = Some (Inl x, s')"
        using Pair Inr cu by (cases body) (auto simp: handleCreateGroup_def sv_caller_def Let_def)
      then show ?thesis using that(1) by blast
    next
      case False
      then obtain req where req: "body = Some req" "trim_space (cg_Name req) \<noteq> []" "trim_space uid \<noteq> []" by auto
      define name where "name = trim_space (cg_Name req)"
      define base where "base = (let path = normalizeTargetPath (cg_Path req) in if path \<noteq> [] then path @ ''/'' @ slugID name else slugID name)"
      obtain j where j: "retry_ids (\<lambda>_ gid. grp_Create gid name (sv_access s)) ErrGroupExists base 0 =
          Some (case grp_Create (candidate base j) name (sv_access s) of Inl e' \<Rightarrow> Inl e' | Inr x \<Rightarrow> Inr (candidate base j, x))"
        "\<And>k. k < j \<Longrightarrow> group_exists (candidate base k) (sv_access s)" "j \<le> length (db_groups (sv_access s))"
        by (rule create_group_loop [of name "sv_access s" base]) blast
      have eq: "handleCreateGroup env r body now s = map_option (\<lambda>x. case x of Inl e \<Rightarrow> (Inl (validation_or e internal_error), s)
          | Inr (gid, acc) \<Rightarrow> finish_group env (trim_space uid) name gid acc s)
          (retry_ids (\<lambda>_ gid. grp_Create gid name (sv_access s)) ErrGroupExists base 0)"
        using req Pair Inr cu unfolding handleCreateGroup_def sv_caller_def name_def base_def Let_def by simp
      show ?thesis
      proof (cases "grp_Create (candidate base j) name (sv_access s)")
        case (Inl e)
        then show ?thesis using eq j(1) by (intro that(1)) simp
      next
        case (Inr acc)
        then show ?thesis using eq j cu by (intro that(2)) simp_all
      qed
    qed
  qed
qed

text \<open>
  Creating a group always comes to an end, after at most one attempt for each group there is.  If it
  reports success, the group did not exist before and has a valid identifier: the slug of its name
  under the requested path, with the smallest number that makes it new; the caller is a permanent
  member, and the group carries its default tag whenever the identifier yields one.
\<close>

theorem create_group_returns:
  shows "\<exists>x s'. handleCreateGroup env r body now s = Some (x, s')
    \<and> (\<forall>gid name. x = Inr (gid, name) \<longrightarrow>
        \<not> group_exists gid (sv_access s) \<and> (gid, name) \<in> set (db_groups (sv_access s')) \<and> validateGroupID gid = None
      \<and> (\<exists>base j. gid = candidate base j \<and> j \<le> length (db_groups (sv_access s)) \<and> (\<forall>k < j. group_exists (candidate base k) (sv_access s)))
      \<and> (trim_space (fst (currentUserID (se_guard env) r now (sv_db s))), gid, None) \<in> set (db_user_groups (sv_access s'))
      \<and> (let tag = defaultGroupTag (sv_uni env) gid in tag = [] \<or> (gid, tag) \<in> set (db_group_tags (sv_access s'))))"
proof (cases rule: create_group_cases [of env r body now s])
  case (1 x s')
  then show ?thesis by (cases x) auto
next
  case (2 u base name acc j)
  let ?gid = "candidate base j"
  obtain x s' where fin: "finish_group env u name ?gid acc s = (x, s')" by force
  have acc: "acc = (sv_access s)\<lparr>db_groups := db_groups (sv_access s) @ [(?gid, name)]\<rparr>" "validateGroupID ?gid = None"
    "\<not> group_exists ?gid (sv_access s)"
    using 2(5) by (auto simp: grp_Create_def split: option.splits if_splits)
  then have "group_exists ?gid acc" by (simp add: group_exists_def)
  note fg = finish_group_ok [OF _ acc(2) this, of env u name s _ s', unfolded fin]
  show ?thesis
  proof (cases x)
    case (Inr y)
    show ?thesis using 2 fin fg [of y] acc Inr by (intro exI [of _ x] exI [of _ s']) auto
  qed (use 2 fin in simp)
qed

definition demo_senv :: server_env where
  "demo_senv = \<lparr>se_guard = demo_genv, se_target = Access_Targets.demo_env, se_parse = (\<lambda>_ _. None),
     se_tftp = \<lparr>tv_root = ''/r'', tv_allow_read = [], tv_mkdir_ok = True\<rparr>\<rparr>"

definition demo_sapp :: ServerApp where
  "demo_sapp = \<lparr>sv_db = demo_accounts, sv_cred = \<lparr>cd_keys = [], cd_identities = []\<rparr>,
     sv_tftp = \<lparr>tc_refCount = 0, tc_server = None, tc_running = False\<rparr>\<rparr>"

lemmas demo_slug = slugID_def slug_bytes.simps between_def byte_def lower_char_def char_of_eq_iff Let_def

theorem create_group_returns_witness:
  "\<exists>s'. handleCreateGroup demo_senv (demo_get ''/api/groups'' ''s-alice'') (Some \<lparr>cg_Name = ''Net'', cg_Path = []\<rparr>) (time_unix 9) demo_sapp
      = Some (Inr (''net-1'', ''Net''), s') \<and> (''alice'', ''net-1'', None) \<in> set (db_user_groups (sv_access s'))
      \<and> (''net-1'', ''net-1'') \<in> set (db_group_tags (sv_access s'))"
proof -
  let ?r = "demo_get ''/api/groups'' ''s-alice''" and ?b = "Some \<lparr>cg_Name = ''Net'', cg_Path = []\<rparr>"
  have parts: "se_guard demo_senv = demo_genv" "sv_db demo_sapp = demo_accounts" "sv_access demo_sapp = demo_db" "demo_sapp\<lparr>sv_db := demo_accounts\<rparr> = demo_sapp"
    by (simp_all add: demo_senv_def demo_sapp_def sv_access_def demo_accounts_def)
  have "trim_space ''alice'' = ''alice''" "trim_space ''Net'' = ''Net''" "normalizeTargetPath [] = []" "slugID ''Net'' = ''net''"
    by (simp_all add: trim_space_visible visible_def normalizeTargetPath_def trim_byte_def demo_slug)
  then have eq: "handleCreateGroup demo_senv ?r ?b (time_unix 9) demo_sapp = map_option (\<lambda>x. case x of Inl e \<Rightarrow> (Inl (validation_or e internal_error), demo_sapp)
      | Inr (gid, acc) \<Rightarrow> finish_group demo_senv ''alice'' ''Net'' gid acc demo_sapp)
      (retry_ids (\<lambda>_ gid. grp_Create gid ''Net'' demo_db) ErrGroupExists ''net'' 0)"
    by (simp add: handleCreateGroup_def sv_caller_def parts demo_alice Let_def)
  have valid: "validateGroupID ''net'' = None" "validateGroupID ''net-1'' = None" "validateName ''Net'' = None"
    by (simp_all add: valid_id_simps validateName_def maxNameLen_def runes_ascii_Cons byte_def IsControl_def between_def)
  have cand: "candidate ''net'' 0 = ''net''" "candidate ''net'' (Suc 0) = ''net-1''" by (simp_all add: candidate_def Itoa.simps char_of_eq_iff)
  have exists: "group_exists ''net'' demo_db" "\<not> group_exists ''net-1'' demo_db" by (simp_all add: group_exists_def demo_db_def)
  have loop: "retry_ids (\<lambda>_ gid. grp_Create gid ''Net'' demo_db) ErrGroupExists ''net'' 0
      = Some (Inr (''net-1'', demo_db\<lparr>db_groups := db_groups demo_db @ [(''net-1'', ''Net'')]\<rparr>))"
    by (simp add: retry_ids.simps [of _ _ "''net''" 0] retry_ids.simps [of _ _ "''net''" "Suc 0"] cand grp_Create_def valid exists)
  let ?db = "demo_db\<lparr>db_groups := db_groups demo_db @ [(''net-1'', ''Net'')]\<rparr>"
  obtain acc where "AddUserToGroup ''alice'' ''net-1'' ?db = Inr acc"
    by (simp add: AddUserToGroup_def AddUserToGroupUntil_def group_exists_def demo_db_def Let_def)
  then have "\<exists>s'. finish_group demo_senv ''alice'' ''Net'' ''net-1'' ?db demo_sapp = (Inr (''net-1'', ''Net''), s')"
    by (simp only: finish_group_def Let_def sum.case) blast
  then obtain s' where "finish_group demo_senv ''alice'' ''Net'' ''net-1'' ?db demo_sapp = (Inr (''net-1'', ''Net''), s')" by (elim exE)
  then have s': "handleCreateGroup demo_senv ?r ?b (time_unix 9) demo_sapp = Some (Inr (''net-1'', ''Net''), s')"
    unfolding eq loop by simp
  have tag: "defaultGroupTag u ''net-1'' = ''net-1''" for u
  proof -
    have "runes ''net-1'' = [110, 101, 116, 45, 49]" by (simp add: runes_ascii_Cons byte_def)
    moreover have "char_of (110 :: nat) = CHR ''n''" "char_of (101 :: nat) = CHR ''e''" "char_of (116 :: nat) = CHR ''t''"
      "char_of (45 :: nat) = CHR ''-''" "char_of (49 :: nat) = CHR ''1''" by (simp_all add: char_of_eq_iff)
    ultimately have "tag_runes u [] (runes ''net-1'') = ''net-1''" by (simp add: id_char_def is_alnum_def is_digit_def)
    moreover have "trim_space ''net-1'' = ''net-1''" by (simp add: trim_space_visible visible_def)
    ultimately show ?thesis by (simp add: defaultGroupTag_def trim_byte_def)
  qed
  have "(trim_space (fst (currentUserID (se_guard demo_senv) ?r (time_unix 9) (sv_db demo_sapp))), ''net-1'', None) \<in> set (db_user_groups (sv_access s'))
      \<and> (let tag = defaultGroupTag (sv_uni demo_senv) ''net-1'' in tag = [] \<or> (''net-1'', tag) \<in> set (db_group_tags (sv_access s')))"
    using create_group_returns [of demo_senv ?r ?b "time_unix 9" demo_sapp] unfolding s' by (elim exE conjE) simp
  then show ?thesis using s' by (simp add: tag parts demo_alice \<open>trim_space ''alice'' = ''alice''\<close> Let_def)
qed

subsection \<open>Creating a target\<close>

lemma validators_not_exists:
  "validateTargetID t \<noteq> Some ErrTargetExists" "validateName n \<noteq> Some ErrTargetExists" "validateHost e h \<noteq> Some ErrTargetExists"
  "validateProtocol p \<noteq> Some ErrTargetExists" "validateGroupID g \<noteq> Some ErrTargetExists"
  "encryptCredentials te ns t pw k kp \<noteq> Inl ErrTargetExists"
  by (simp_all add: validateTargetID_def validateName_def validateHost_def checkRestrictedHostIP_def validateProtocol_def validateGroupID_def
      Let_def split: option.split)
    (auto simp: encryptCredentials_def encrypt_field_def split: option.splits if_splits sum.splits prod.splits)

lemma CreateWithPath_exists:
  assumes "tgt_CreateWithPath te ns tid g i db = Inl ErrTargetExists"
  shows "validateTargetID tid = None \<and> (target_exists tid db \<or> \<not> group_exists g db)"
proof -
  have v: "validate_input te tid i \<noteq> Some ErrTargetExists"
    using validators_not_exists by (auto simp: validate_input_def split: option.split)
  then have "validate_input te tid i = None"
    using assms by (auto simp: tgt_CreateWithPath_def split: option.splits)
  moreover from this have "validateTargetID tid = None" by (auto simp: validate_input_def split: option.splits)
  ultimately show ?thesis using assms validators_not_exists(5,6)
    by (auto simp: tgt_CreateWithPath_def split: option.splits if_splits sum.splits prod.splits)
qed

lemma create_target_loop_returns:
  assumes "group_exists g db"
  obtains j where "create_target_loop te nonces g i db = Some (case tgt_CreateWithPath te (nonces j) (candidate (slugID (in_Name i)) j) g i db of
        Inl e \<Rightarrow> Inl e | Inr x \<Rightarrow> Inr (candidate (slugID (in_Name i)) j, x))"
    "j \<le> length (db_targets db)" "\<And>k. k < j \<Longrightarrow> target_exists (candidate (slugID (in_Name i)) k) db"
proof -
  let ?a = "\<lambda>n tid. tgt_CreateWithPath te (nonces n) tid g i db" and ?S = "set (map tr_id (db_targets db))" and ?base = "slugID (in_Name i)"
  have ex: "?a k (candidate ?base k) = Inl ErrTargetExists \<Longrightarrow> candidate ?base k \<in> ?S" for k
    using CreateWithPath_exists assms unfolding target_exists_def by blast
  have fin: "finite {k. ?a k (candidate ?base k) = Inl ErrTargetExists}" "card {k. ?a k (candidate ?base k) = Inl ErrTargetExists} \<le> card ?S"
    using finite_existing [of ?a ?base ErrTargetExists ?S] ex by auto
  obtain j where j: "\<And>k. k < j \<Longrightarrow> ?a k (candidate ?base k) = Inl ErrTargetExists"
    "retry_ids ?a ErrTargetExists ?base 0 = Some (case ?a j (candidate ?base j) of Inl e' \<Rightarrow> Inl e' | Inr x \<Rightarrow> Inr (candidate ?base j, x))"
    by (rule retry_returns [of ?a ?base ErrTargetExists, OF fin(1)]) auto
  have "card {..<j} \<le> card {k. ?a k (candidate ?base k) = Inl ErrTargetExists}" using fin(1) j(1) by (intro card_mono) auto
  also have "\<dots> \<le> length (db_targets db)" using fin(2) card_length [of "map tr_id (db_targets db)"] by simp
  finally show ?thesis using j ex by (intro that [of j]) (auto simp: target_exists_def create_target_loop_def)
qed

text \<open>
  C32. A request to create a target spins when its group disappears between the check and the
  insertion: the store reports the failed foreign key as an existing target, and the loop goes on with
  the next number, for at least as many attempts as there are numbers that fit into the identifier.
\<close>

theorem create_target_spins:
  assumes "\<not> group_exists g db" "validateGroupID g = None" "validateName (in_Name i) = None" "validateHost (te_restricted te) (in_Host i) = None"
    and "validateProtocol (in_Protocol i) = None" "in_SSHPassword i = []" "in_SSHPrivateKey i = []" "in_SSHPrivateKeyPassphrase i = []"
    and "idPattern (slugID (in_Name i))" "length (slugID (in_Name i)) + 1 + k \<le> 512" "0 < k"
  shows "create_target_loop te nonces g i db
      = retry_ids (\<lambda>n tid. tgt_CreateWithPath te (nonces n) tid g i db) ErrTargetExists (slugID (in_Name i)) (10 ^ k)"
proof -
  let ?base = "slugID (in_Name i)"
  have "tgt_CreateWithPath te (nonces n) (candidate ?base n) g i db = Inl ErrTargetExists" if "n < 10 ^ k" for n
  proof -
    have "length (Itoa n) \<le> k" using Itoa_length that assms(11) by blast
    then have "length (candidate ?base n) \<le> 512" using assms(10) by (auto simp: candidate_def)
    moreover have "idPattern (candidate ?base n)"
      using assms(9) Itoa_value [of n] by (auto simp: candidate_def idPattern_def id_char_def is_alnum_def list_all_iff)
    ultimately have "validateTargetID (candidate ?base n) = None" by (simp add: validateTargetID_def maxIDLen_def idPattern_def)
    moreover obtain a b c where "nonces n = (a, b, c)" by (cases "nonces n")
    ultimately show ?thesis using assms(1-8)
      by (cases "g = []") (simp_all add: tgt_CreateWithPath_def validate_input_def encryptCredentials_def encrypt_field_def)
  qed
  then show ?thesis unfolding create_target_loop_def by (intro retry_skips) auto
qed

theorem create_target_spins_witness:
  "create_target_loop Access_Targets.demo_env (\<lambda>_. ([], [], [])) ''gone'' (demo_input\<lparr>in_SSHPassword := []\<rparr>) demo_moved
     = retry_ids (\<lambda>n tid. tgt_CreateWithPath Access_Targets.demo_env ([], [], []) tid ''gone'' (demo_input\<lparr>in_SSHPassword := []\<rparr>) demo_moved)
         ErrTargetExists ''sw'' (10 ^ 509)"
proof -
  let ?i = "demo_input\<lparr>in_SSHPassword := []\<rparr>" and ?te = Access_Targets.demo_env
  have i: "in_Name ?i = ''sw''" "in_Host ?i = ''sw1''" "in_Protocol ?i = ProtocolSSH" "in_SSHPassword ?i = []" "in_SSHPrivateKey ?i = []"
    "in_SSHPrivateKeyPassphrase ?i = []" by (simp_all add: demo_input_def)
  have slug: "slugID ''sw'' = ''sw''" by (simp add: demo_slug)
  have "\<not> group_exists ''gone'' demo_moved" by (simp add: group_exists_def demo_moved_def)
  moreover have "validateGroupID ''gone'' = None" "idPattern ''sw''" by (simp_all add: valid_id_simps)
  moreover have "validateName ''sw'' = None" by (simp add: validateName_def runes_ascii_Cons byte_def IsControl_def between_def maxNameLen_def)
  moreover have "validateHost (te_restricted ?te) ''sw1'' = None"
    by (simp add: Access_Targets.demo_env_def hostnamePattern_def host_char_def valid_id_simps host_eval)
  moreover have "validateProtocol ProtocolSSH = None" by (simp add: validateProtocol_def)
  ultimately show ?thesis using create_target_spins [of "''gone''" demo_moved ?i ?te 509 "\<lambda>_. ([], [], [])"] by (simp add: i slug)
qed

end
