(* ===== verification/Server_Tables.thy ===== *)
theory Server_Tables
  imports Server_Admin
begin

text \<open>
  The access tables and the credential library under every sequence of requests to server management:
  no handler, whatever its outcome, leaves a dangling link, a duplicate or invalid identifier or a
  secret in the clear.
\<close>

subsection \<open>All tables stay consistent\<close>

text \<open>
  Beyond the consistency of the access tables and of the credential library: the identity and the key
  a target is linked to exist, and the identifiers of targets are valid.
\<close>

definition link_ok :: "CredentialDB \<Rightarrow> string \<Rightarrow> string \<Rightarrow> bool" where
  "link_ok cd cid kid = ((cid \<noteq> [] \<longrightarrow> cid \<in> set (map ir_id (cd_identities cd))) \<and> (kid \<noteq> [] \<longrightarrow> key_exists kid cd))"

definition acc_ok :: "CredentialDB \<Rightarrow> AccessDB \<Rightarrow> bool" where
  "acc_ok cd acc = (db_inv acc \<and> (\<forall>r \<in> set (db_targets acc).
     link_ok cd (tr_credential_identity_id r) (tr_ssh_key_id r) \<and> validateTargetID (tr_id r) = None))"

definition server_inv :: "ServerApp \<Rightarrow> bool" where
  "server_inv s = (cred_inv (sv_cred s) \<and> acc_ok (sv_cred s) (sv_access s))"

lemma update_target_links:
  "update_target tid f db = Inr db' \<Longrightarrow> (\<And>r. tr_id (f r) = tr_id r) \<Longrightarrow>
     (\<And>r. link_ok cd (tr_credential_identity_id r) (tr_ssh_key_id r) \<Longrightarrow> link_ok cd (tr_credential_identity_id (f r)) (tr_ssh_key_id (f r))) \<Longrightarrow>
     \<forall>r \<in> set (db_targets db). link_ok cd (tr_credential_identity_id r) (tr_ssh_key_id r) \<and> validateTargetID (tr_id r) = None \<Longrightarrow>
     \<forall>r \<in> set (db_targets db'). link_ok cd (tr_credential_identity_id r) (tr_ssh_key_id r) \<and> validateTargetID (tr_id r) = None"
  by (auto simp: update_target_def sql_update_def split: if_splits)

lemma same_targets:
  "grp_Create g n db = Inr db' \<Longrightarrow> db_targets db' = db_targets db" "grp_Update g n db = Inr db' \<Longrightarrow> db_targets db' = db_targets db"
  "AddUserToGroupUntil u g ex db = Inr db' \<Longrightarrow> db_targets db' = db_targets db"
  "RemoveUserFromGroup u g db = Inr db' \<Longrightarrow> db_targets db' = db_targets db"
  "AddTargetToGroup g t db = Inr db' \<Longrightarrow> db_targets db' = db_targets db"
  "RemoveTargetFromGroup g t db = Inr db' \<Longrightarrow> db_targets db' = db_targets db"
  "SetGroupTags uni g tags db = Inr db' \<Longrightarrow> db_targets db' = db_targets db"
  "SetTargetTags uni t tags db = Inr db' \<Longrightarrow> db_targets db' = db_targets db"
  by (auto simp: grp_Create_def grp_Update_def AddUserToGroupUntil_def RemoveUserFromGroup_def AddTargetToGroup_def
      RemoveTargetFromGroup_def SetGroupTags_def SetTargetTags_def Let_def split: option.splits if_splits prod.splits)

lemma set_delete_targets: "set (db_targets (delete_targets P db)) \<subseteq> set (db_targets db)" "set (db_targets (delete_group g db)) \<subseteq> set (db_targets db)"
  by (auto simp: delete_targets_def delete_group_def Let_def)

lemma acc_ok_same: "acc_ok cd acc \<Longrightarrow> access_step acc acc' \<Longrightarrow> set (db_targets acc') \<subseteq> set (db_targets acc) \<Longrightarrow> acc_ok cd acc'"
  using db_inv_step by (auto simp: acc_ok_def)

lemma acc_ok_updated:
  assumes "acc_ok cd acc" "access_step acc acc'" "update_target tid f acc = Inr acc'" "\<And>r. tr_id (f r) = tr_id r"
    and "\<And>r. link_ok cd (tr_credential_identity_id r) (tr_ssh_key_id r) \<Longrightarrow> link_ok cd (tr_credential_identity_id (f r)) (tr_ssh_key_id (f r))"
  shows "acc_ok cd acc'"
proof -
  have "db_inv acc'" using db_inv_step assms(1,2) by (simp add: acc_ok_def)
  moreover have "\<forall>r \<in> set (db_targets acc'). link_ok cd (tr_credential_identity_id r) (tr_ssh_key_id r) \<and> validateTargetID (tr_id r) = None"
    using update_target_links [OF assms(3) assms(4) assms(5)] assms(1) unfolding acc_ok_def by blast
  ultimately show ?thesis by (simp add: acc_ok_def)
qed

lemma acc_ok_steps:
  assumes "acc_ok cd acc"
  shows "grp_Create g n acc = Inr acc' \<Longrightarrow> acc_ok cd acc'" "grp_Update g n acc = Inr acc' \<Longrightarrow> acc_ok cd acc'"
    "grp_Delete g acc = Inr acc' \<Longrightarrow> acc_ok cd acc'" "AddUserToGroupUntil u g ex acc = Inr acc' \<Longrightarrow> acc_ok cd acc'"
    "AddUserToGroup u g acc = Inr acc' \<Longrightarrow> acc_ok cd acc'"
    "RemoveUserFromGroup u g acc = Inr acc' \<Longrightarrow> acc_ok cd acc'" "AddTargetToGroup g t acc = Inr acc' \<Longrightarrow> acc_ok cd acc'"
    "RemoveTargetFromGroup g t acc = Inr acc' \<Longrightarrow> acc_ok cd acc'" "SetGroupTags uni g tags acc = Inr acc' \<Longrightarrow> acc_ok cd acc'"
    "SetTargetTags uni t tags acc = Inr acc' \<Longrightarrow> acc_ok cd acc'" "tgt_Delete t acc = Inr acc' \<Longrightarrow> acc_ok cd acc'"
proof -
  note same = acc_ok_same [OF assms]
  show "grp_Create g n acc = Inr acc' \<Longrightarrow> acc_ok cd acc'" using same [OF access_step.group_create] same_targets(1) by simp
  show "grp_Update g n acc = Inr acc' \<Longrightarrow> acc_ok cd acc'" using same [OF access_step.group_update] same_targets(2) by simp
  show add: "AddUserToGroupUntil u g ex acc = Inr acc' \<Longrightarrow> acc_ok cd acc'" for ex
    using same [OF access_step.member_add] same_targets(3) by simp
  show "AddUserToGroup u g acc = Inr acc' \<Longrightarrow> acc_ok cd acc'" using add by (simp add: AddUserToGroup_def)
  show "RemoveUserFromGroup u g acc = Inr acc' \<Longrightarrow> acc_ok cd acc'" using same [OF access_step.member_remove] same_targets(4) by simp
  show "AddTargetToGroup g t acc = Inr acc' \<Longrightarrow> acc_ok cd acc'" using same [OF access_step.assign] same_targets(5) by simp
  show "RemoveTargetFromGroup g t acc = Inr acc' \<Longrightarrow> acc_ok cd acc'" using same [OF access_step.unassign] same_targets(6) by simp
  show "SetGroupTags uni g tags acc = Inr acc' \<Longrightarrow> acc_ok cd acc'" using same [OF access_step.group_tags] same_targets(7) by simp
  show "SetTargetTags uni t tags acc = Inr acc' \<Longrightarrow> acc_ok cd acc'" using same [OF access_step.target_tags] same_targets(8) by simp
  show "acc_ok cd acc'" if "grp_Delete g acc = Inr acc'"
    using same [OF access_step.group_delete [OF that]] grp_Delete_cases(1) [OF that] set_delete_targets by simp
  show "acc_ok cd acc'" if d: "tgt_Delete t acc = Inr acc'"
    using same [OF access_step.target_delete [OF d]] d set_delete_targets by (auto simp: tgt_Delete_def split: option.splits if_splits)
qed

lemma acc_ok_source:
  assumes "acc_ok cd acc" "SetCredentialSource t c k acc = Inr acc'" "link_ok cd c k"
  shows "acc_ok cd acc'"
  using assms(2) acc_ok_updated [OF assms(1) access_step.target_source [OF assms(2)]] assms(3)
  by (auto simp: SetCredentialSource_def split: option.splits)

lemma acc_ok_fingerprint:
  assumes "acc_ok cd acc" "SetSSHHostKeyFingerprint t fp acc = Inr acc'"
  shows "acc_ok cd acc'"
  using assms(2) acc_ok_updated [OF assms(1) access_step.target_fingerprint [OF assms(2)]]
  by (auto simp: SetSSHHostKeyFingerprint_def split: option.splits sum.splits)

lemma acc_ok_update:
  assumes "acc_ok cd acc" "tgt_Update te ns t i acc = Inr (x, acc')"
  shows "acc_ok cd acc'"
proof -
  obtain pw k kp where "update_target t (\<lambda>r. r\<lparr>tr_name := in_Name i, tr_host := in_Host i, tr_port := int (in_Port i),
      tr_protocol := in_Protocol i, tr_path := in_Path i, tr_ssh_username := trim_space (in_SSHUsername i),
      tr_ssh_password := pw, tr_ssh_private_key := k, tr_ssh_private_key_passphrase := kp,
      tr_sftp_enabled := flag (in_SFTP i), tr_ftp_enabled := flag (in_FTP i), tr_tftp_enabled := flag (in_TFTP i)\<rparr>) acc = Inr acc'"
    using assms(2) by (auto simp: tgt_Update_def split: option.splits sum.splits prod.splits)
  then show ?thesis by (rule acc_ok_updated [OF assms(1) access_step.target_update [OF assms(2)]]) simp_all
qed

lemma acc_ok_create:
  assumes "acc_ok cd acc" "tgt_CreateWithPath te ns t g i acc = Inr (x, acc')"
  shows "acc_ok cd acc'"
proof -
  have "db_inv acc'" using db_inv_step access_step.target_create [OF assms(2)] assms(1) by (simp add: acc_ok_def)
  moreover have "\<exists>r. db_targets acc' = db_targets acc @ [r] \<and> tr_credential_identity_id r = [] \<and> tr_ssh_key_id r = []
      \<and> validateTargetID (tr_id r) = None"
    using assms(2) by (auto simp: tgt_CreateWithPath_def validate_input_def split: option.splits sum.splits prod.splits if_splits)
  ultimately show ?thesis using assms(1) by (auto simp: acc_ok_def link_ok_def)
qed

lemma link_ok_mono:
  "link_ok cd c k \<Longrightarrow> (\<And>x. key_exists x cd \<Longrightarrow> key_exists x cd') \<Longrightarrow> set (map ir_id (cd_identities cd)) \<subseteq> set (map ir_id (cd_identities cd'))
     \<Longrightarrow> link_ok cd' c k"
  by (auto simp: link_ok_def)

lemma acc_ok_mono:
  "acc_ok cd acc \<Longrightarrow> (\<And>r. r \<in> set (db_targets acc) \<Longrightarrow> link_ok cd (tr_credential_identity_id r) (tr_ssh_key_id r)
     \<Longrightarrow> link_ok cd' (tr_credential_identity_id r) (tr_ssh_key_id r)) \<Longrightarrow> acc_ok cd' acc"
  by (auto simp: acc_ok_def)

text \<open>Credentials are only filled in from an identity or a key that exists.\<close>

lemma GetDecrypted_exists:
  "key_GetDecrypted te kid cd = Inr k \<Longrightarrow> key_exists kid cd" "ident_GetDecrypted te cid cd = Inr i \<Longrightarrow> cid \<in> set (map ir_id (cd_identities cd))"
  by (auto simp: key_GetDecrypted_def ident_GetDecrypted_def key_exists_def dest!: find_in_set split: option.splits)

lemma applied_link_ok: "applyStoredCredentials te cd c k only cr = Inr cr' \<Longrightarrow> link_ok cd (trim_space c) (trim_space k)"
  using GetDecrypted_exists
  by (fastforce simp: applyStoredCredentials_def link_ok_def Let_def split: if_splits sum.splits)

subsection \<open>Every handler keeps the tables consistent\<close>

lemma server_inv_frame [simp]:
  "a_access db = a_access (sv_db s) \<Longrightarrow> server_inv (s\<lparr>sv_db := db\<rparr>) = server_inv s"
  "server_inv (s\<lparr>sv_tftp := tf\<rparr>) = server_inv s"
  by (simp_all add: server_inv_def sv_access_def)

lemma server_inv_set: "server_inv s \<Longrightarrow> acc_ok (sv_cred s) acc \<Longrightarrow> server_inv (set_access acc s)"
  by (simp add: server_inv_def)

lemma server_inv_acc: "server_inv s \<Longrightarrow> acc_ok (sv_cred s) (sv_access s)"
  by (simp add: server_inv_def)

lemma guard_access:
  "requireAdmin genv r now db = (x, db') \<Longrightarrow> a_access db' = a_access db" "currentUserID genv r now db = (u, db') \<Longrightarrow> a_access db' = a_access db"
  "ses_Get aenv c now db = (y, db') \<Longrightarrow> a_access db' = a_access db"
  using requireAdmin_frame(2) [of genv r now db] currentUserID_frame(2) [of genv r now db] ses_Get_frame(2) [of aenv c now db] by auto

lemma admin_inv:
  assumes "server_inv s" "\<And>s. server_inv s \<Longrightarrow> server_inv (snd (k s))"
  shows "server_inv (snd (admin_only env r now s k))"
  using assms by (auto simp: admin_only_def dest: guard_access split: prod.split sum.split)

lemma cookie_inv:
  assumes "server_inv s" "\<And>s. server_inv s \<Longrightarrow> server_inv (snd (k s))"
  shows "server_inv (snd (with_cookie env r now s k))"
  using assms by (auto simp: with_cookie_def dest: guard_access split: prod.split sum.split option.split)

lemma caller_inv:
  assumes "server_inv s" "\<And>u s. server_inv s \<Longrightarrow> server_inv (snd (k u s))"
  shows "server_inv (snd (sv_caller env r now s k))"
  using assms by (auto simp: sv_caller_def dest: guard_access split: prod.split)

lemma cred_reply_inv:
  assumes "server_inv s" "\<And>v cd. x = Inr (v, cd) \<Longrightarrow> cred_inv cd \<and> acc_ok cd (sv_access s)"
  shows "server_inv (snd (cred_reply err s x))"
  using assms by (auto simp: cred_reply_def server_inv_def sv_access_def split: sum.split)

text \<open>Groups.\<close>

lemma finish_group_inv: "server_inv s \<Longrightarrow> acc_ok (sv_cred s) acc \<Longrightarrow> server_inv (snd (finish_group env u name g acc s))"
  by (auto simp: finish_group_def Let_def intro!: server_inv_set dest: acc_ok_steps split: sum.split)

text \<open>A loop that returns has created the identifier it returns.\<close>

lemma retry_created: "retry_ids att e base n = Some (Inr (i, v)) \<Longrightarrow> \<exists>m. att m i = Inr v"
proof -
  have "retry_ids att e base n = Some y \<Longrightarrow> (\<forall>i v. y = Inr (i, v) \<longrightarrow> (\<exists>m. att m i = Inr v))" for y
    by (erule retry_ids.raw_induct [rotated]) (auto split: sum.splits if_splits)
  then show "retry_ids att e base n = Some (Inr (i, v)) \<Longrightarrow> \<exists>m. att m i = Inr v" by blast
qed

lemma retry_pred:
  assumes "\<And>e. P (k (Inl e))" "\<And>m i v. att m i = Inr v \<Longrightarrow> P (k (Inr (i, v)))"
  shows "pred_option P (map_option k (retry_ids att e base n))"
  using assms retry_created [of att e base n] by (auto simp: pred_option_def split: sum.splits) (metis obj_sumE surj_pair)

abbreviation keeps :: "('a \<times> ServerApp) option \<Rightarrow> bool" where
  "keeps \<equiv> pred_option (\<lambda>x. server_inv (snd x))"

lemma create_group_inv:
  assumes "server_inv s"
  shows "keeps (handleCreateGroup env r body now s)"
proof -
  obtain a d where ra: "requireAdmin (se_guard env) r now (sv_db s) = (a, d)" by force
  obtain u e where cu: "currentUserID (se_guard env) r now d = (u, e)" by force
  have fr: "a_access d = a_access (sv_db s)" "a_access e = a_access (sv_db s)"
    using guard_access(1) [OF ra] guard_access(2) [OF cu] by simp_all
  then have inv: "server_inv (s\<lparr>sv_db := d\<rparr>)" "server_inv (s\<lparr>sv_db := e\<rparr>)" using assms by simp_all
  show ?thesis
    using inv(1) inv(2) finish_group_inv [OF inv(2) acc_ok_steps(1) [OF server_inv_acc [OF inv(2)]]]
    by (auto simp: handleCreateGroup_def ra sv_caller_def cu Let_def split: sum.split option.split intro!: retry_pred)
qed

lemma group_handlers_inv:
  assumes "server_inv s"
  shows "server_inv (snd (handleUpdateGroup env r g name now s))" "server_inv (snd (handleDeleteGroup env r g now s))"
    "server_inv (snd (handleAddGroupMember env r g member now s))" "server_inv (snd (handleRemoveGroupMember env r g u now s))"
    "server_inv (snd (handleSetGroupTags env r g tags now s))"
proof -
  note acc = acc_ok_steps [OF server_inv_acc]
  show "server_inv (snd (handleUpdateGroup env r g name now s))" unfolding handleUpdateGroup_def
    by (rule admin_inv [OF assms]) (auto simp: Let_def intro!: server_inv_set dest: acc(2) split: option.split sum.split)
  show "server_inv (snd (handleDeleteGroup env r g now s))" unfolding handleDeleteGroup_def
    by (rule admin_inv [OF assms]) (auto simp: Let_def intro!: server_inv_set dest: acc(3) split: option.split sum.split)
  show "server_inv (snd (handleAddGroupMember env r g member now s))" unfolding handleAddGroupMember_def
    by (rule admin_inv [OF assms]) (auto simp: Let_def intro!: server_inv_set dest: acc(4) split: option.split sum.split)
  show "server_inv (snd (handleRemoveGroupMember env r g u now s))" unfolding handleRemoveGroupMember_def
    by (rule admin_inv [OF assms]) (auto simp: Let_def intro!: server_inv_set dest: acc(6) split: option.split sum.split)
  show "server_inv (snd (handleSetGroupTags env r g tags now s))" unfolding handleSetGroupTags_def
    by (rule admin_inv [OF assms]) (auto simp: Let_def intro!: server_inv_set dest: acc(9) split: option.split sum.split)
qed

text \<open>Keys and identities.\<close>

lemma key_handlers_inv:
  assumes "server_inv s"
  shows "server_inv (snd (handleSSHKeysCreate env ns r ck now s))" "server_inv (snd (handleSSHKeysGenerate env gen ns r gk now s))"
    "server_inv (snd (handleSSHKeysUpdate env ns r k uk now s))" "server_inv (snd (handleSSHKeysDelete env r k now s))"
proof -
  have create: "cred_inv cd \<and> acc_ok cd (sv_access s)"
    if "key_Create te parse ns kid label pem p (sv_cred s) = Inr (smry, cd)" "server_inv s" for te parse ns kid label pem p smry cd s
    using cred_inv_key_Create [OF _ that(1)] that(2) by (auto simp: server_inv_def elim!: acc_ok_mono link_ok_mono)
  have update: "cred_inv cd \<and> acc_ok cd (sv_access s)"
    if "key_Update te parse ns kid label pem p (sv_cred s) = Inr (smry, cd)" "server_inv s" for te parse ns kid label pem p smry cd s
    using cred_inv_key_Update [OF _ that(1)] that(2) by (auto simp: server_inv_def elim!: acc_ok_mono link_ok_mono)
  have delete: "cred_inv cd \<and> acc_ok cd (sv_access s)"
    if "key_Delete kid (sv_access s) (sv_cred s) = Inr cd" "server_inv s" for kid cd s
    using cred_inv_key_Delete [OF _ that(1)] that(2) by (auto simp: server_inv_def link_ok_def elim!: acc_ok_mono)
  show "server_inv (snd (handleSSHKeysCreate env ns r ck now s))" unfolding handleSSHKeysCreate_def
    by (rule admin_inv [OF assms]) (auto intro!: cred_reply_inv dest: create split: option.split)
  show "server_inv (snd (handleSSHKeysGenerate env gen ns r gk now s))" unfolding handleSSHKeysGenerate_def
    by (rule admin_inv [OF assms]) (auto intro!: cred_reply_inv dest: create split: option.split sum.splits)
  show "server_inv (snd (handleSSHKeysUpdate env ns r k uk now s))" unfolding handleSSHKeysUpdate_def
    by (rule admin_inv [OF assms]) (auto simp: Let_def intro!: cred_reply_inv dest: update split: option.split)
  show "server_inv (snd (handleSSHKeysDelete env r k now s))" unfolding handleSSHKeysDelete_def cred_deleted_def
    by (rule admin_inv [OF assms]) (auto simp: Let_def intro!: cred_reply_inv dest: delete split: sum.splits)
qed

lemma identity_handlers_inv:
  assumes "server_inv s"
  shows "server_inv (snd (handleCredentialIdentitiesCreate env n r ic now s))" "server_inv (snd (handleCredentialIdentitiesUpdate env n r i iu now s))"
    "server_inv (snd (handleCredentialIdentitiesDelete env r i now s))"
proof -
  have create: "cred_inv cd \<and> acc_ok cd (sv_access s)"
    if "ident_Create te n cid label u p k (sv_cred s) = Inr (smry, cd)" "server_inv s" for te n cid label u p k smry cd s
    using cred_inv_ident_Create [OF _ that(1)] that(2)
    by (auto simp: server_inv_def key_exists_def image_subset_iff elim!: acc_ok_mono link_ok_mono)
  have update: "cred_inv cd \<and> acc_ok cd (sv_access s)"
    if "ident_Update te n cid label u p k (sv_cred s) = Inr (smry, cd)" "server_inv s" for te n cid label u p k smry cd s
    using cred_inv_ident_Update [OF _ that(1)] that(2) by (auto simp: server_inv_def link_ok_def key_exists_def elim!: acc_ok_mono)
  have delete: "cred_inv cd \<and> acc_ok cd (sv_access s)"
    if "ident_Delete cid (sv_access s) (sv_cred s) = Inr cd" "server_inv s" for cid cd s
    using cred_inv_ident_Delete [OF _ that(1)] that(2) by (auto simp: server_inv_def link_ok_def key_exists_def elim!: acc_ok_mono)
  show "server_inv (snd (handleCredentialIdentitiesCreate env n r ic now s))" unfolding handleCredentialIdentitiesCreate_def
    by (rule admin_inv [OF assms]) (auto intro!: cred_reply_inv dest: create split: option.split)
  show "server_inv (snd (handleCredentialIdentitiesUpdate env n r i iu now s))" unfolding handleCredentialIdentitiesUpdate_def
    by (rule admin_inv [OF assms]) (auto simp: Let_def intro!: cred_reply_inv dest: update split: option.split)
  show "server_inv (snd (handleCredentialIdentitiesDelete env r i now s))" unfolding handleCredentialIdentitiesDelete_def cred_deleted_def
    by (rule admin_inv [OF assms]) (auto simp: Let_def intro!: cred_reply_inv dest: delete split: sum.splits)
qed

text \<open>Targets.\<close>

lemma acc_ok_default: "acc_ok cd acc \<Longrightarrow> (\<And>acc'. x = Inr acc' \<Longrightarrow> acc_ok cd acc') \<Longrightarrow> acc_ok cd (case x of Inl (_ :: access_error) \<Rightarrow> acc | Inr acc' \<Rightarrow> acc')"
  by (auto split: sum.split)

lemma finish_target_inv:
  assumes "server_inv s" "acc_ok (sv_cred s) acc"
    and "link_ok (sv_cred s) (trim_space (ct_CredentialIdentityID req)) (trim_space (ct_SSHKeyID req))"
  shows "server_inv (snd (finish_target env req protocol tid acc s))"
proof (cases "AddTargetToGroup (trim_space (ct_GroupID req)) tid acc")
  case (Inl e)
  then show ?thesis using assms by (simp add: finish_target_def server_inv_set)
next
  case (Inr acc1)
  let ?cid = "trim_space (ct_CredentialIdentityID req)" and ?kid = "trim_space (ct_SSHKeyID req)"
  define acc2 where "acc2 = (if ?cid \<noteq> [] \<or> ?kid \<noteq> [] then (case SetCredentialSource tid ?cid ?kid acc1 of Inl _ \<Rightarrow> acc1 | Inr acc \<Rightarrow> acc) else acc1)"
  define tags where "tags = TagsForGroup (trim_space (ct_GroupID req)) acc2"
  define acc3 where "acc3 = (if tags \<noteq> [] then (case SetTargetTags (sv_uni env) tid tags acc2 of Inl _ \<Rightarrow> acc2 | Inr acc \<Rightarrow> acc) else acc2)"
  have ok1: "acc_ok (sv_cred s) acc1" using acc_ok_steps(7) [OF assms(2) Inr] .
  have ok2: "acc_ok (sv_cred s) acc2" unfolding acc2_def using ok1 acc_ok_source [OF ok1 _ assms(3)] by (auto intro!: acc_ok_default)
  have ok3: "acc_ok (sv_cred s) acc3" unfolding acc3_def using ok2 acc_ok_steps(10) [OF ok2] by (auto intro!: acc_ok_default)
  define fp where "fp = trim_space (ct_SSHHostKeyFingerprint req)"
  have "finish_target env req protocol tid acc s = (case (if fp = [] then Inr acc3 else SetSSHHostKeyFingerprint tid fp acc3) of
      Inl e \<Rightarrow> (Inl (validation_or e internal_error), set_access acc3 s)
    | Inr acc \<Rightarrow> (case tgt_Get (se_target env) tid acc of
        Inl _ \<Rightarrow> (Inl aborted, (set_access acc s)\<lparr>sv_tftp := NotifyTargetCreated (se_tftp env) protocol (sv_tftp s)\<rparr>)
      | Inr t \<Rightarrow> (Inr (targetToResponse t (TagsForTarget tid acc)), (set_access acc s)\<lparr>sv_tftp := NotifyTargetCreated (se_tftp env) protocol (sv_tftp s)\<rparr>)))"
    unfolding finish_target_def Inr Let_def acc2_def tags_def acc3_def fp_def by simp
  then show ?thesis
    using ok3 assms(1) acc_ok_fingerprint [OF ok3, of tid fp] by (auto intro!: server_inv_set split: sum.split if_splits)
qed

lemma create_target_inv:
  assumes "server_inv s"
  shows "keeps (handleCreateTarget env nonces r body now s)"
proof -
  have body: "keeps (create_target_body env nonces req s)" if inv: "server_inv s" for req s
  proof -
    have fin: "server_inv (snd (finish_target env req p tid acc s))"
      if "tgt_CreateWithPath te ns t g i (sv_access s) = Inr (x, acc)"
        "applyStoredCredentials te' (sv_cred s) (ct_CredentialIdentityID req) (ct_SSHKeyID req) only c = Inr c'"
      for te ns t g i x acc te' only c c' p tid
      using finish_target_inv [OF inv acc_ok_create [OF server_inv_acc [OF inv] that(1)] applied_link_ok [OF that(2)]] .
    show ?thesis unfolding create_target_body_def create_target_loop_def Let_def
      using inv by (auto split: sum.split option.split intro!: retry_pred intro: fin)
  qed
  define g where "g = and_then (admin_only env r now s (\<lambda>s. (Inr (), s))) (\<lambda>_ s. with_cookie env r now s (\<lambda>s. (Inr (), s)))"
  obtain x s' where ad: "admin_only env r now s (\<lambda>s. (Inr (), s)) = (x, s')" by force
  have "server_inv s'" using admin_inv [OF assms, of "\<lambda>s. (Inr (), s)" env r now] ad by simp
  then have "server_inv (snd g)" unfolding g_def ad using cookie_inv [of s' "\<lambda>s. (Inr (), s)" env r now]
    by (auto simp: and_then_def split: sum.split)
  then show ?thesis
    using assms body unfolding handleCreateTarget_def g_def [symmetric]
    by (auto split: option.split sum.split prod.split)
qed

lemma leave_groups_inv: "acc_ok cd acc \<Longrightarrow> acc_ok cd (snd (leave_groups tid new gs acc))"
  by (induction tid new gs acc rule: leave_groups.induct) (auto split: sum.split dest: acc_ok_steps(8))

lemma move_target_inv:
  assumes "acc_ok cd acc"
  shows "acc_ok cd (snd (move_target tid new acc))"
proof -
  obtain e acc1 where lv: "leave_groups tid new (GroupIDsForTarget tid acc) acc = (e, acc1)" by force
  then have "acc_ok cd acc1" using leave_groups_inv [OF assms, of tid new "GroupIDsForTarget tid acc"] by simp
  then show ?thesis by (auto simp: move_target_def lv split: option.split sum.split dest: acc_ok_steps(7))
qed

lemma finish_update_inv:
  assumes "server_inv s" "acc_ok (sv_cred s) acc"
    and "link_ok (sv_cred s) (trim_space (str_or (ut_CredentialIdentityID req) [])) (trim_space (str_or (ut_SSHKeyID req) []))"
  shows "server_inv (snd (finish_update env req cur protocol newGroup t acc s))"
proof -
  define cid kid where "cid = trim_space (str_or (ut_CredentialIdentityID req) [])" and "kid = trim_space (str_or (ut_SSHKeyID req) [])"
  define b where "b \<longleftrightarrow> ut_CredentialIdentityID req \<noteq> None \<or> ut_SSHKeyID req \<noteq> None"
  define acc2 where "acc2 = (if b then (case SetCredentialSource (t_ID t) cid kid acc of Inl _ \<Rightarrow> acc | Inr acc \<Rightarrow> acc) else acc)"
  define t2 where "t2 = (if b then t\<lparr>t_CredentialIdentityID := cid, t_SSHKeyID := kid\<rparr> else t)"
  obtain m acc3 where mv: "(case newGroup of None \<Rightarrow> (None, acc2) | Some g \<Rightarrow> move_target (t_ID t2) g acc2) = (m, acc3)" by force
  have "acc_ok (sv_cred s) acc2"
    unfolding acc2_def using assms(2) acc_ok_source [OF assms(2) _ assms(3), folded cid_def kid_def] by (auto intro!: acc_ok_default)
  then have "acc_ok (sv_cred s) acc3" using mv move_target_inv [of "sv_cred s" acc2 "t_ID t2"] by (cases newGroup) (simp, metis option.simps(5) snd_conv)
  then show ?thesis
    unfolding finish_update_def Let_def cid_def [symmetric] kid_def [symmetric] b_def [symmetric] acc2_def [symmetric] t2_def [symmetric] mv prod.case
    using assms(1) by (simp add: server_inv_set split: option.split)
qed

lemma update_target_inv:
  assumes "server_inv s"
  shows "server_inv (snd (update_target_body env ns tid cur req s))"
proof -
  have "link_ok (sv_cred s) (trim_space (str_or (ut_CredentialIdentityID req) [])) (trim_space (str_or (ut_SSHKeyID req) []))"
    if "update_creds (se_target env) (sv_cred s) req cur = Inr c" for c
    using applied_link_ok that by (fastforce simp: update_creds_def Let_def)
  then show ?thesis
    using assms unfolding update_target_body_def
    by (auto split: sum.split option.split intro!: finish_update_inv intro: acc_ok_update [OF server_inv_acc])
qed

lemma target_handlers_inv:
  assumes "server_inv s"
  shows "server_inv (snd (handleUpdateTarget env ns r t ut now s))" "server_inv (snd (handleDeleteTarget env r t now s))"
    "server_inv (snd (handleSetTargetTags env r t tags now s))"
proof -
  note acc = acc_ok_steps [OF server_inv_acc]
  show "server_inv (snd (handleUpdateTarget env ns r t ut now s))" unfolding handleUpdateTarget_def
    using assms by (auto simp: Let_def intro!: admin_inv caller_inv update_target_inv split: option.split sum.split)
  have deleted: "server_inv (set_access acc' s)" if "server_inv s" "tgt_Delete t (sv_access s) = Inr acc'" for s acc'
    using server_inv_set [OF that(1) acc(11) [OF that]] .
  show "server_inv (snd (handleDeleteTarget env r t now s))" unfolding handleDeleteTarget_def
    using assms by (auto simp: Let_def deleted intro!: admin_inv cookie_inv split: option.split sum.split)
  have guard: "a_access d = a_access db" if "requireTargetAccess genv r t now db = (x, d)" for genv r t now db x d
    using that by (auto simp: requireTargetAccess_def Let_def dest: guard_access(2) split: prod.splits if_splits)
  have tagged: "server_inv (set_access acc' s)" if "server_inv s" "SetTargetTags uni x y (sv_access s) = Inr acc'" for s acc' uni x y
    using server_inv_set [OF that(1) acc(10) [OF that]] .
  show "server_inv (snd (handleSetTargetTags env r t tags now s))" unfolding handleSetTargetTags_def
    by (rule admin_inv [OF assms]) (auto simp: Let_def dest: guard intro!: tagged split: option.split sum.split prod.split)
qed

subsection \<open>All sequences of requests\<close>

text \<open>
  Any request to server management, from anyone and with any body; the two that loop take a step only
  when they return.
\<close>

inductive server_step :: "server_env \<Rightarrow> ServerApp \<Rightarrow> ServerApp \<Rightarrow> bool" for env where
  create_group: "handleCreateGroup env r cg now s = Some (x, s') \<Longrightarrow> server_step env s s'"
| update_group: "server_step env s (snd (handleUpdateGroup env r g name now s))"
| delete_group: "server_step env s (snd (handleDeleteGroup env r g now s))"
| add_member: "server_step env s (snd (handleAddGroupMember env r g member now s))"
| remove_member: "server_step env s (snd (handleRemoveGroupMember env r g u now s))"
| group_tags: "server_step env s (snd (handleSetGroupTags env r g tags now s))"
| create_target: "handleCreateTarget env nonces r ct now s = Some (y, s') \<Longrightarrow> server_step env s s'"
| update_target: "server_step env s (snd (handleUpdateTarget env ns r t ut now s))"
| delete_target: "server_step env s (snd (handleDeleteTarget env r t now s))"
| target_tags: "server_step env s (snd (handleSetTargetTags env r t tags now s))"
| create_key: "server_step env s (snd (handleSSHKeysCreate env kns r ck now s))"
| generate_key: "server_step env s (snd (handleSSHKeysGenerate env gen kns r gk now s))"
| update_key: "server_step env s (snd (handleSSHKeysUpdate env kns r k uk now s))"
| delete_key: "server_step env s (snd (handleSSHKeysDelete env r k now s))"
| create_identity: "server_step env s (snd (handleCredentialIdentitiesCreate env n r ic now s))"
| update_identity: "server_step env s (snd (handleCredentialIdentitiesUpdate env n r i iu now s))"
| delete_identity: "server_step env s (snd (handleCredentialIdentitiesDelete env r i now s))"

lemmas handlers_inv = group_handlers_inv key_handlers_inv identity_handlers_inv target_handlers_inv

lemma server_step_inv: "server_step env s s' \<Longrightarrow> server_inv s \<Longrightarrow> server_inv s'"
proof (induction rule: server_step.induct)
  case (create_group r cg now s x s')
  then show ?case using create_group_inv [of s env r cg now] by simp
next
  case (create_target nonces r ct now s y s')
  then show ?case using create_target_inv [of s env nonces r ct now] by simp
qed (simp_all add: handlers_inv)

interpretation server: transition_system "server_step env" server_inv server_inv for env
  by unfold_locales (simp_all add: server_step_inv)


definition demo_key :: "string \<Rightarrow> ssh_key_row" where
  "demo_key kid = \<lparr>kr_id = kid, kr_label = kid, kr_key_type = [], kr_private_key = ''v2:!'', kr_passphrase = []\<rparr>"

definition demo_tables :: AccessDB where
  "demo_tables = demo_moved\<lparr>db_targets := [(demo_target ''sw1'' ''old'')\<lparr>tr_ssh_key_id := ''k1''\<rparr>, demo_target ''sw2'' ''new'']\<rparr>"

definition demo_library :: ServerApp where
  "demo_library = demo_sapp\<lparr>sv_db := demo_accounts\<lparr>a_access := demo_tables\<rparr>,
     sv_cred := \<lparr>cd_keys = [demo_key ''k1'', demo_key ''k2''],
       cd_identities = [\<lparr>ir_id = ''ops'', ir_label = ''Ops'', ir_username = ''root'', ir_password = [], ir_ssh_key_id = ''k1''\<rparr>]\<rparr>\<rparr>"

lemma demo_ids_valid:
  "validateSSHKeyID ''k1'' = None" "validateSSHKeyID ''k2'' = None" "validateCredentialIdentityID ''ops'' = None"
  by (simp_all add: validateSSHKeyID_def validateCredentialIdentityID_def validateCredentialLibraryID_def trim_space_visible visible_def
      valid_id_simps)

lemma demo_tables_inv: "db_inv demo_tables"
  by (simp add: db_inv_def demo_tables_def demo_moved_def demo_target_def group_exists_def target_exists_def valid_id_simps)

lemma demo_library_inv: "server_inv demo_library"
proof -
  have "sv_access demo_library = demo_tables" by (simp add: demo_library_def sv_access_def)
  moreover have "acc_ok (sv_cred demo_library) demo_tables" using demo_tables_inv
    by (simp add: acc_ok_def link_ok_def key_exists_def demo_library_def demo_key_def demo_tables_def demo_target_def validateTargetID_def valid_id_simps)
  moreover have "cred_inv (sv_cred demo_library)"
    by (simp add: cred_inv_def demo_library_def demo_key_def key_row_ok_def identity_row_ok_def sealed_def key_exists_def
        IsEncrypted_def has_prefix_def CiphertextVersionPrefixV2_def demo_ids_valid)
  ultimately show ?thesis by (simp add: server_inv_def)
qed


subsection \<open>Pages of a listing\<close>

lemma dropWhile_sorted: "sorted xs \<Longrightarrow> dropWhile (\<lambda>x. x \<le> a) xs = filter (\<lambda>x. a < x) xs" for a :: "'a :: linorder"
  by (induction xs) (auto simp: not_le intro!: filter_True [symmetric] intro: order.strict_trans2)

text \<open>The first page after a cursor, and whether more follows.\<close>

lemma page_after:
  assumes "sorted xs" "[] \<notin> set xs" "0 < n"
  shows "page (Some \<lparr>lo_Limit = n, lo_Offset = 0, lo_AfterID = a\<rparr>) d xs = take (nat n) (filter (\<lambda>x. a < x) xs)"
proof -
  have "filter (\<lambda>x. [] < x) xs = xs" using assms(2) by (intro filter_True) (metis Nil_less_Cons neq_Nil_conv)
  then show ?thesis using assms(1,3) by (auto simp: page_def listLimit_def Let_def skip_after_def dropWhile_sorted)
qed

lemma cut_after:
  assumes "0 < n"
  shows "cut_page (Some \<lparr>lo_Limit = n, lo_Offset = 0, lo_AfterID = a\<rparr>) (take (nat (n + 1)) xs)
    = (take (nat n) xs, if nat n < length xs then xs ! (nat n - 1) else [])"
  using assms by (auto simp: cut_page_def nat_add_distrib Let_def min_def)

lemma uniq_ids_distinct: "distinct xs \<Longrightarrow> [] \<notin> set xs \<Longrightarrow> set seen \<inter> set xs = {} \<Longrightarrow> uniq_ids seen xs = xs"
  by (induction xs arbitrary: seen) auto

lemma accessible_target_exists:
  assumes "db_inv acc" "may_access now acc u t"
  shows "target_exists t acc"
  using assms by (auto simp: db_inv_def may_access_def grants_def)

definition read_targets :: "tenv \<Rightarrow> AccessDB \<Rightarrow> string list \<Rightarrow> Target list" where
  "read_targets te acc ids = concat (map (\<lambda>i. case tgt_Get te i acc of Inl _ \<Rightarrow> [] | Inr t \<Rightarrow> [t]) ids)"

text \<open>
  A page of the target list of an ordinary user: the targets come in the order of their
  identifiers, are all accessible to the user, start right after the cursor, and the returned cursor
  is the last identifier of the page whenever another page follows.  A page is complete as long as its
  size does not exceed the default list limit: the details are fetched without options, so of a larger
  page only the first \<open>sv_limit\<close> targets are returned, while the cursor is already past the others.
\<close>

theorem target_page_content:
  fixes after limit :: string
  assumes "server_inv s" "atoi (trim_space limit) = Some n" "0 < n" "n \<le> 1000" "0 < sv_limit env"
    and "currentUserIsAdmin (se_guard env) r now (sv_db s) = (False, db)"
    and "u = trim_space (fst (currentUserID (se_guard env) r now (sv_db s)))" "u \<noteq> []" "within_fanout u now (sv_access s)"
  shows "let accessible = filter (\<lambda>t. trim_space after < t) (sorted_list_of_set {t. may_access now (sv_access s) u t}) in
    fst (handleTargets env r after limit now s) =
      Inr (respond (sv_access s) (read_targets (se_target env) (sv_access s) (take (nat (min n (sv_limit env))) accessible)),
           if nat n < length accessible then accessible ! (nat n - 1) else [])"
proof -
  define acc xs rest where "acc = sv_access s" and "xs = sorted_list_of_set {t. may_access now acc u t}"
    and "rest = filter (\<lambda>t. trim_space after < t) xs"
  obtain uid d where cu: "currentUserID (se_guard env) r now (sv_db s) = (uid, d)" by force
  have d: "a_access d = acc" using guard_access(2) [OF cu] by (simp add: acc_def sv_access_def)
  have admin: "currentUserIsAdmin (se_guard env) r now d = (False, db)"
    using assms(6) currentUserID_idem [of "se_guard env" r now "sv_db s"] by (simp add: currentUserIsAdmin_def cu)
  have db: "a_access db = acc"
    using assms(6) d by (auto simp: currentUserIsAdmin_def cu split: if_splits sum.splits)
  have inv: "db_inv acc" "\<forall>r \<in> set (db_targets acc). validateTargetID (tr_id r) = None"
    using server_inv_acc [OF assms(1)] by (auto simp: acc_ok_def acc_def)
  have xs: "sorted xs" "distinct xs" "set xs = {t. may_access now acc u t}" by (simp_all add: xs_def finite_may_access)
  have "\<not> may_access now acc u []"
    using accessible_target_exists [OF inv(1), of now u "[]"] inv(2) by (force simp: target_exists_def validateTargetID_def)
  then have nil: "[] \<notin> set xs" by (simp add: xs(3))
  have opts: "listOptsFromRequest after limit = Some \<lparr>lo_Limit = n, lo_Offset = 0, lo_AfterID = trim_space after\<rparr>"
    using assms(2,3,4) by (cases "trim_space limit = []") (auto simp: listOptsFromRequest_def atoi_def Let_def)
  have ids: "TargetIDsForUser u (Some \<lparr>lo_Limit = n + 1, lo_Offset = 0, lo_AfterID = trim_space after\<rparr>) (sv_limit env) now acc
      = take (nat (n + 1)) rest"
    using TargetIDsForUser_spec assms(9) page_after [OF xs(1) nil] assms(3) by (simp add: acc_def xs_def rest_def)
  have slice: "slice_ids None (sv_limit env) (take (nat n) rest) = take (nat (min n (sv_limit env))) rest"
    using assms(3,5) by (auto simp: slice_ids_def listLimit_def min_def nat_le_iff)
  have fetched: "ListByIDs (se_target env) (take (nat n) rest) None (sv_limit env) acc
      = read_targets (se_target env) acc (take (nat (min n (sv_limit env))) rest)"
  proof -
    have "uniq_ids [] (take k rest) = take k rest" for k
      using xs(2) nil by (intro uniq_ids_distinct) (auto simp: rest_def dest: in_set_takeD)
    then show ?thesis using list_by_ids_exact inv(1) by (simp add: read_targets_def db_inv_def slice)
  qed
  have u: "trim_space uid = u" "sv_access (s\<lparr>sv_db := db\<rparr>) = acc" using assms(7) cu db by (simp_all add: sv_access_def)
  let ?o = "\<lparr>lo_Limit = n, lo_Offset = 0, lo_AfterID = trim_space after\<rparr>"
  have "fst (handleTargets env r after limit now s) = (case cut_page (Some ?o) (take (nat (n + 1)) rest) of
      (ids, next) \<Rightarrow> Inr (respond acc (ListByIDs (se_target env) ids None (sv_limit env) acc), next))"
    using assms(8) by (simp add: handleTargets_def sv_caller_def sv_is_admin_def cu admin opts fetch_opts_def u ids split: prod.split)
  then show ?thesis
    by (simp only: cut_after [OF assms(3)] fetched prod.case Let_def acc_def [symmetric] xs_def [symmetric] rest_def [symmetric])
qed

definition demo_bob :: ServerApp where
  "demo_bob = demo_library\<lparr>sv_db := demo_accounts\<lparr>a_access :=
     demo_tables\<lparr>db_users := [''alice'', ''bob''], db_user_groups := [(''bob'', ''new'', None)]\<rparr>\<rparr>\<rparr>"

theorem target_page_content_witness:
  "\<exists>items. fst (handleTargets (demo_senv\<lparr>se_guard := demo_genv\<lparr>ge_list_limit := 1\<rparr>\<rparr>) (demo_get ''/api/targets'' ''s-bob'') [] ''2'' (time_unix 9) demo_bob)
     = Inr (items, []) \<and> map rp_ID items = [''sw1''] \<and> may_access (time_unix 9) (sv_access demo_bob) ''bob'' ''sw2''"
proof -
  let ?env = "demo_senv\<lparr>se_guard := demo_genv\<lparr>ge_list_limit := 1\<rparr>\<rparr>" and ?r = "demo_get ''/api/targets'' ''s-bob''"
  define acc where "acc = demo_tables\<lparr>db_users := [''alice'', ''bob''], db_user_groups := [(''bob'', ''new'', None)]\<rparr>"
  have acc: "sv_access demo_bob = acc" by (simp add: demo_bob_def acc_def sv_access_def)
  have bob: "currentUserID (se_guard ?env) ?r (time_unix 9) (sv_db demo_bob) = (''bob'', sv_db demo_bob)"
    "currentUserIsAdmin (se_guard ?env) ?r (time_unix 9) (sv_db demo_bob) = (False, sv_db demo_bob)"
    by (simp_all add: demo_bob_def demo_senv_def currentUserIsAdmin_def currentUserID_def ses_Get_def demo_guard_simps RoleUser_def RoleAdmin_def)
  have "db_inv acc"
    by (simp add: acc_def db_inv_def demo_tables_def demo_moved_def demo_target_def group_exists_def target_exists_def valid_id_simps)
  then have "server_inv demo_bob"
    using demo_library_inv by (simp add: server_inv_def acc) (simp add: acc_def acc_ok_def demo_bob_def demo_library_def sv_access_def)
  moreover have "atoi (trim_space ''2'') = Some 2"
    by (simp add: trim_space_visible visible_def atoi_def is_digit_def digits_val_def digit_val_def byte_def Let_def)
  moreover have "within_fanout ''bob'' (time_unix 9) acc"
    by (simp add: within_fanout_def via_membership_def via_target_tag_def via_group_tag_def acc_def demo_tables_def demo_moved_def
        descendantOrSelf_def activeMembership_def maxFanoutRowsPerQuery_def)
  ultimately have page: "let accessible = filter (\<lambda>t. trim_space [] < t) (sorted_list_of_set {t. may_access (time_unix 9) acc ''bob'' t}) in
    fst (handleTargets ?env ?r [] ''2'' (time_unix 9) demo_bob) =
      Inr (respond acc (read_targets (se_target ?env) acc (take (nat (min 2 (sv_limit ?env))) accessible)),
           if nat 2 < length accessible then accessible ! (nat 2 - 1) else [])"
    using target_page_content [of demo_bob "''2''" 2 ?env ?r "time_unix 9" "sv_db demo_bob" "''bob''" "[]"] bob
    by (simp add: acc trim_space_visible visible_def)
  have set: "{t. may_access (time_unix 9) acc ''bob'' t} = {''sw1'', ''sw2''}"
    by (auto simp: may_access_def grants_def acc_def demo_tables_def demo_moved_def descendantOrSelf_def activeMembership_def)
  then have "may_access (time_unix 9) acc ''bob'' ''sw2''" by blast
  moreover have "tgt_Get Access_Targets.demo_env ''sw1'' acc = Inr (row_target Access_Targets.demo_env ((demo_target ''sw1'' ''old'')\<lparr>tr_ssh_key_id := ''k1''\<rparr>))"
    by (simp add: tgt_Get_def acc_def demo_tables_def demo_target_def port_ok_def)
  ultimately show ?thesis using page unfolding set acc
    by (simp add: demo_senv_def demo_genv_def read_targets_def respond_def targetToResponse_def row_target_def demo_target_def Let_def)
qed

end
