(* ===== verification/Target_Updates.thy ===== *)
theory Target_Updates
  imports Server_Tables
begin

text \<open>
  What an update of a target does to its stored secrets (\<open>handleUpdateTarget\<close> in
  \<open>src/internal/httpapi/targets_handler.go\<close> over \<open>Update\<close> in \<open>src/internal/access/sqlite_store.go\<close>).
\<close>

subsection \<open>The row after an update\<close>

lemma update_target_find:
  assumes "update_target tid f db = Inr db'" "\<And>r. tr_id (f r) = tr_id r"
  shows "find (\<lambda>r. tr_id r = tid) (db_targets db') = map_option f (find (\<lambda>r. tr_id r = tid) (db_targets db))"
proof -
  have "find (\<lambda>r. tr_id r = tid) (map (\<lambda>r. if tr_id r = tid then f r else r) rows) = map_option f (find (\<lambda>r. tr_id r = tid) rows)" for rows
    using assms(2) by (induction rows) auto
  then show ?thesis using assms(1) by (auto simp: update_target_def sql_update_def split: if_splits)
qed

lemma leave_groups_targets: "db_targets (snd (leave_groups tid new gs acc)) = db_targets acc"
  by (induction tid new gs acc rule: leave_groups.induct) (auto split: sum.split dest: same_targets(6))

lemma move_target_targets: "db_targets (snd (move_target tid new acc)) = db_targets acc"
proof -
  obtain e acc1 where lv: "leave_groups tid new (GroupIDsForTarget tid acc) acc = (e, acc1)" by force
  then have "db_targets acc1 = db_targets acc" using leave_groups_targets [of tid new "GroupIDsForTarget tid acc" acc] by simp
  then show ?thesis by (auto simp: move_target_def lv split: option.split sum.split dest: same_targets(5))
qed

lemma tgt_Update_row:
  assumes "tgt_Update te ns tid i db = Inr (t, db')"
  obtains row pw k kp where "encryptCredentials te ns tid (in_SSHPassword i) (in_SSHPrivateKey i) (in_SSHPrivateKeyPassphrase i) = Inr (pw, k, kp)"
    "find (\<lambda>r. tr_id r = tid) (db_targets db') = Some row" "t = row_target te row" "tr_id row = tid" "port_ok row"
    "tr_ssh_password row = pw" "tr_ssh_private_key row = k" "tr_ssh_private_key_passphrase row = kp" "validateTargetID tid = None"
proof -
  let ?f = "\<lambda>pw k kp r. r\<lparr>tr_name := in_Name i, tr_host := in_Host i, tr_port := int (in_Port i), tr_protocol := in_Protocol i,
      tr_path := in_Path i, tr_ssh_username := trim_space (in_SSHUsername i), tr_ssh_password := pw, tr_ssh_private_key := k,
      tr_ssh_private_key_passphrase := kp, tr_sftp_enabled := flag (in_SFTP i), tr_ftp_enabled := flag (in_FTP i),
      tr_tftp_enabled := flag (in_TFTP i)\<rparr>"
  obtain pw k kp where enc: "encryptCredentials te ns tid (in_SSHPassword i) (in_SSHPrivateKey i) (in_SSHPrivateKeyPassphrase i) = Inr (pw, k, kp)"
    and up: "update_target tid (?f pw k kp) db = Inr db'" and get: "tgt_Get te tid db' = Inr t" and v: "validate_input te tid i = None"
    using assms unfolding tgt_Update_def by (auto split: option.splits sum.splits prod.splits)
  from get obtain row where row: "find (\<lambda>r. tr_id r = tid) (db_targets db') = Some row" "port_ok row" "t = row_target te row"
    by (auto simp: tgt_Get_def split: option.splits if_splits)
  moreover have "find (\<lambda>r. tr_id r = tid) (db_targets db') = map_option (?f pw k kp) (find (\<lambda>r. tr_id r = tid) (db_targets db))"
    by (rule update_target_find [OF up]) simp
  ultimately have "tr_ssh_password row = pw" "tr_ssh_private_key row = k" "tr_ssh_private_key_passphrase row = kp" by auto
  moreover have "validateTargetID tid = None" using v by (auto simp: validate_input_def split: option.splits)
  moreover have "tr_id row = tid" using row(1) by (auto simp: find_Some_iff)
  ultimately show ?thesis using that enc row by blast
qed

text \<open>The tail of an update changes at most the link of the row.\<close>

lemma finish_update_row:
  assumes "finish_update env req cur protocol newGroup t acc s = (x, s')" "find (\<lambda>r. tr_id r = tid) (db_targets acc) = Some row"
    and "t_ID t = tid" "validateTargetID tid = None"
  defines "cid \<equiv> trim_space (str_or (ut_CredentialIdentityID req) [])" and "kid \<equiv> trim_space (str_or (ut_SSHKeyID req) [])"
  shows "find (\<lambda>r. tr_id r = tid) (db_targets (sv_access s'))
    = Some (if ut_CredentialIdentityID req \<noteq> None \<or> ut_SSHKeyID req \<noteq> None
        then row\<lparr>tr_credential_identity_id := cid, tr_ssh_key_id := kid\<rparr> else row)"
proof -
  define b where "b \<longleftrightarrow> ut_CredentialIdentityID req \<noteq> None \<or> ut_SSHKeyID req \<noteq> None"
  define acc2 where "acc2 = (if b then (case SetCredentialSource (t_ID t) cid kid acc of Inl _ \<Rightarrow> acc | Inr acc \<Rightarrow> acc) else acc)"
  define t2 where "t2 = (if b then t\<lparr>t_CredentialIdentityID := cid, t_SSHKeyID := kid\<rparr> else t)"
  let ?g = "\<lambda>r. r\<lparr>tr_credential_identity_id := cid, tr_ssh_key_id := kid\<rparr>"
  obtain m acc3 where mv: "(case newGroup of None \<Rightarrow> (None, acc2) | Some g \<Rightarrow> move_target (t_ID t2) g acc2) = (m, acc3)" by force
  then have "db_targets acc3 = db_targets acc2"
    using move_target_targets [of "t_ID t2" _ acc2] by (cases newGroup) (simp, metis option.simps(5) snd_conv)
  moreover have "find (\<lambda>r. tr_id r = tid) (db_targets acc2) = Some (if b then ?g row else row)"
  proof (cases b)
    case True
    have "row \<in> set (db_targets acc)" "tr_id row = tid" using assms(2) by (auto simp: find_Some_iff)
    then have "\<exists>a. update_target tid ?g acc = Inr a" by (auto simp: update_target_def sql_update_def filter_empty_conv)
    then obtain a where up: "update_target tid ?g acc = Inr a" by blast
    then have "acc2 = a" using True assms(3,4) by (simp add: acc2_def SetCredentialSource_def)
    then show ?thesis using update_target_find [OF up] assms(2) True by simp
  qed (simp add: acc2_def assms(2))
  moreover have "sv_access s' = acc3"
    using assms(1)
    unfolding finish_update_def Let_def cid_def [symmetric] kid_def [symmetric] b_def [symmetric] acc2_def [symmetric] t2_def [symmetric] mv prod.case
    by (auto simp: sv_access_def set_access_def split: option.splits)
  ultimately show ?thesis by (simp add: b_def)
qed

lemma finish_update_t:
  assumes "update_target_body env ns tid cur req s = (Inr resp, s')"
  obtains newGroup protocol c t acc where "update_creds (se_target env) (sv_cred s) req cur = Inr c"
    "tgt_Update (se_target env) ns tid (update_input req cur protocol c) (sv_access s) = Inr (t, acc)"
    "finish_update env req cur protocol newGroup t acc s = (Inr resp, s')"
  using assms unfolding update_target_body_def by (auto split: if_splits sum.splits option.splits)

text \<open>
  After a successful update, the row holds the secrets that the request and the credential library
  were combined to, sealed; reading it back gives exactly these.
\<close>

lemma update_secrets:
  assumes "update_target_body env (n1, n2, n3) tid cur req s = (Inr resp, s')" "aead_law (te_crypto (se_target env))"
    and "length n1 = NonceSize" "length n2 = NonceSize" "length n3 = NonceSize"
  obtains c row where "update_creds (se_target env) (sv_cred s) req cur = Inr c"
    "tgt_Get (se_target env) tid (sv_access s') = Inr (row_target (se_target env) row)"
    "t_SSHPassword (row_target (se_target env) row) = cr_Password c" "t_SSHPrivateKey (row_target (se_target env) row) = cr_PrivateKey c"
    "t_SSHPrivateKeyPassphrase (row_target (se_target env) row) = cr_Passphrase c"
    "cr_Password c = [] \<longrightarrow> tr_ssh_password row = []" "cr_PrivateKey c = [] \<longrightarrow> tr_ssh_private_key row = []"
    "find (\<lambda>r. tr_id r = tid) (db_targets (sv_access s')) = Some row"
    "ut_CredentialIdentityID req \<noteq> None \<or> ut_SSHKeyID req \<noteq> None \<longrightarrow>
       tr_credential_identity_id row = trim_space (str_or (ut_CredentialIdentityID req) []) \<and> tr_ssh_key_id row = trim_space (str_or (ut_SSHKeyID req) [])"
proof -
  let ?te = "se_target env"
  obtain newGroup protocol c t acc where c: "update_creds ?te (sv_cred s) req cur = Inr c"
    and up: "tgt_Update ?te (n1, n2, n3) tid (update_input req cur protocol c) (sv_access s) = Inr (t, acc)"
    and fin: "finish_update env req cur protocol newGroup t acc s = (Inr resp, s')"
    using assms(1) by (rule finish_update_t)
  from up obtain row pw k kp where enc: "encryptCredentials ?te (n1, n2, n3) tid (cr_Password c) (cr_PrivateKey c) (cr_Passphrase c) = Inr (pw, k, kp)"
    and row: "find (\<lambda>r. tr_id r = tid) (db_targets acc) = Some row" "t = row_target ?te row" "tr_id row = tid" "port_ok row"
      "tr_ssh_password row = pw" "tr_ssh_private_key row = k" "tr_ssh_private_key_passphrase row = kp" "validateTargetID tid = None"
    by (rule tgt_Update_row) (simp add: update_input_def)
  define row' where "row' = (if ut_CredentialIdentityID req \<noteq> None \<or> ut_SSHKeyID req \<noteq> None
      then row\<lparr>tr_credential_identity_id := trim_space (str_or (ut_CredentialIdentityID req) []), tr_ssh_key_id := trim_space (str_or (ut_SSHKeyID req) [])\<rparr>
      else row)"
  have "t_ID t = tid" using row by (simp add: row_target_def)
  then have found: "find (\<lambda>r. tr_id r = tid) (db_targets (sv_access s')) = Some row'"
    using finish_update_row [OF fin row(1) _ row(8)] by (simp add: row'_def)
  have eq: "tr_id row' = tid" "port_ok row'" "tr_ssh_password row' = pw" "tr_ssh_private_key row' = k" "tr_ssh_private_key_passphrase row' = kp"
    using row by (auto simp: row'_def port_ok_def)
  have get: "tgt_Get ?te tid (sv_access s') = Inr (row_target ?te row')" using found eq by (simp add: tgt_Get_def)
  have nil: "cr_Password c = [] \<Longrightarrow> pw = []" "cr_PrivateKey c = [] \<Longrightarrow> k = []"
    using enc by (auto simp: encryptCredentials_def encrypt_field_def split: if_splits sum.splits)
  show ?thesis
    by (rule that [OF c get _ _ _ _ _ found])
      (use encryptCredentials_decrypt [OF enc assms(2-5)] eq nil in \<open>auto simp: row_target_def row'_def\<close>)
qed

subsection \<open>Linking a target to the credential library\<close>

lemma update_creds_fill:
  assumes "ut_SSHPassword req = None" "ut_SSHPrivateKey req = None" "ut_SSHPrivateKeyPassphrase req = None"
    and "update_creds te cd req cur = Inr c"
  shows "trim_space (t_SSHPassword cur) \<noteq> [] \<Longrightarrow> cr_Password c = t_SSHPassword cur"
    and "trim_space (t_SSHPrivateKey cur) \<noteq> [] \<Longrightarrow> cr_PrivateKey c = t_SSHPrivateKey cur"
proof -
  define cid kid where "cid = trim_space (str_or (ut_CredentialIdentityID req) [])" and "kid = trim_space (str_or (ut_SSHKeyID req) [])"
  have "applyStoredCredentials te cd cid kid True
      \<lparr>cr_Username = ut_SSHUsername req, cr_Password = t_SSHPassword cur, cr_PrivateKey = t_SSHPrivateKey cur,
       cr_Passphrase = t_SSHPrivateKeyPassphrase cur\<rparr> = Inr c"
    using assms(4) unfolding update_creds_def Let_def assms(1-3) cid_def kid_def by (simp add: str_or_def cong: if_cong)
  then show "trim_space (t_SSHPassword cur) \<noteq> [] \<Longrightarrow> cr_Password c = t_SSHPassword cur"
    "trim_space (t_SSHPrivateKey cur) \<noteq> [] \<Longrightarrow> cr_PrivateKey c = t_SSHPrivateKey cur"
    by (auto simp: applyStoredCredentials_def set_cred_def Let_def split: if_splits sum.splits option.splits)
qed

text \<open>
  Linking a target that already has a password and a private key to an identity or a key of the
  library, without sending secrets, records the link but keeps the old secrets: the target then shows
  the new identity or key and connects with the old password or private key.
\<close>

theorem relink_keeps_secrets:
  assumes "update_target_body env (n1, n2, n3) tid cur req s = (Inr resp, s')" "aead_law (te_crypto (se_target env))"
    and "length n1 = NonceSize" "length n2 = NonceSize" "length n3 = NonceSize"
    and "ut_SSHPassword req = None" "ut_SSHPrivateKey req = None" "ut_SSHPrivateKeyPassphrase req = None"
    and "ut_CredentialIdentityID req \<noteq> None \<or> ut_SSHKeyID req \<noteq> None"
  shows "\<exists>t. tgt_Get (se_target env) tid (sv_access s') = Inr t
    \<and> t_CredentialIdentityID t = trim_space (str_or (ut_CredentialIdentityID req) []) \<and> t_SSHKeyID t = trim_space (str_or (ut_SSHKeyID req) [])
    \<and> (trim_space (t_SSHPassword cur) \<noteq> [] \<longrightarrow> t_SSHPassword t = t_SSHPassword cur)
    \<and> (trim_space (t_SSHPrivateKey cur) \<noteq> [] \<longrightarrow> t_SSHPrivateKey t = t_SSHPrivateKey cur)"
proof -
  obtain c row where c: "update_creds (se_target env) (sv_cred s) req cur = Inr c"
    and row: "tgt_Get (se_target env) tid (sv_access s') = Inr (row_target (se_target env) row)"
    and pw: "t_SSHPassword (row_target (se_target env) row) = cr_Password c" and k: "t_SSHPrivateKey (row_target (se_target env) row) = cr_PrivateKey c"
    and link: "ut_CredentialIdentityID req \<noteq> None \<or> ut_SSHKeyID req \<noteq> None \<longrightarrow>
       tr_credential_identity_id row = trim_space (str_or (ut_CredentialIdentityID req) []) \<and> tr_ssh_key_id row = trim_space (str_or (ut_SSHKeyID req) [])"
    by (rule update_secrets [OF assms(1-5)]) (rule that; assumption)
  have "t_CredentialIdentityID (row_target (se_target env) row) = tr_credential_identity_id row" "t_SSHKeyID (row_target (se_target env) row) = tr_ssh_key_id row"
    by (simp_all add: row_target_def)
  then show ?thesis
    using row pw k mp [OF link assms(9)] update_creds_fill [OF assms(6-8) c] by (intro exI [of _ "row_target (se_target env) row"]) simp
qed

definition demo_sealed :: string where
  "demo_sealed = (case encrypt_field Access_Targets.demo_env demo_nonce ''sw1'' ''ssh_password'' ''hunter2'' of Inl _ \<Rightarrow> [] | Inr c \<Rightarrow> c)"

definition demo_row :: "string \<Rightarrow> target_row" where
  "demo_row pw = (demo_target ''sw1'' ''old'')\<lparr>tr_ssh_password := pw\<rparr>"

definition demo_stored :: "string \<Rightarrow> ServerApp" where
  "demo_stored pw = demo_library\<lparr>sv_db := demo_accounts\<lparr>a_access := demo_moved\<lparr>db_targets := [demo_row pw]\<rparr>\<rparr>\<rparr>"

definition demo_put :: "string option \<Rightarrow> updateTargetRequest" where
  "demo_put cid = \<lparr>ut_Name = ''sw'', ut_Host = ''sw1'', ut_Port = 22, ut_Protocol = ''ssh'', ut_Path = [], ut_GroupID = None,
     ut_CredentialIdentityID = cid, ut_SSHKeyID = None, ut_SSHUsername = ''admin'', ut_SSHPassword = None, ut_SSHPrivateKey = None,
     ut_SSHPrivateKeyPassphrase = None, ut_SFTPEnabled = None, ut_FTPEnabled = None, ut_TFTPEnabled = None\<rparr>"

lemma demo_sealed_opens: "decryptOrPlain Access_Targets.demo_env demo_sealed ''sw1'' ''ssh_password'' = ''hunter2''"
proof -
  have "length (key_bytes Access_Targets.demo_env) = KeySize" by (simp add: key_bytes_def Access_Targets.demo_env_def KeySize_def)
  then obtain c where c: "encrypt_field Access_Targets.demo_env demo_nonce ''sw1'' ''ssh_password'' ''hunter2'' = Inr c"
    by (simp add: encrypt_field_def EncryptWithAAD_def)
  have "aead_law (te_crypto Access_Targets.demo_env)" "length demo_nonce = NonceSize"
    by (simp_all add: Access_Targets.demo_env_def framed_crypto_laws demo_nonce_def NonceSize_def)
  then show ?thesis using encrypt_field_decrypts [OF c] c by (simp add: demo_sealed_def)
qed

lemma demo_unreadable: "\<exists>e. DecryptWithAAD framed_crypto (replicate 32 (CHR ''k'')) ''v2:!'' aad = Inl e"
proof -
  have "b64_decode_raw ''!'' = None" by (simp add: b64_decode_raw_def b64_values_def b64_value_def b64_alphabet_def)
  then show ?thesis
    by (simp add: DecryptWithAAD_def has_prefix_def CiphertextVersionPrefixV2_def decryptV2_def KeySize_def)
qed

lemma finish_update_ok: "\<exists>resp s'. finish_update env req cur protocol None t acc s = (Inr resp, s')"
  by (simp add: finish_update_def Let_def)

lemma demo_update:
  assumes "update_creds Access_Targets.demo_env (sv_cred (demo_stored pw)) (demo_put cid) cur = Inr c" "cr_PrivateKey c = []" "cr_Passphrase c = []"
  shows "\<exists>resp s'. update_target_body demo_senv (demo_nonce, demo_nonce, demo_nonce) ''sw1'' cur (demo_put cid) (demo_stored pw) = (Inr resp, s')"
proof -
  let ?te = Access_Targets.demo_env and ?acc = "sv_access (demo_stored pw)"
  define i where "i = update_input (demo_put cid) cur ProtocolSSH c"
  have i: "in_Name i = ''sw''" "in_Host i = ''sw1''" "in_Protocol i = ProtocolSSH" "in_SSHPassword i = cr_Password c" "in_SSHPrivateKey i = []"
    "in_SSHPrivateKeyPassphrase i = []" "in_Port i = 22"
    using assms(2,3) by (simp_all add: i_def update_input_def demo_put_def trim_space_visible visible_def)
  have "validate_input ?te ''sw1'' i = None"
    by (simp add: validate_input_def validateTargetID_def validateName_def runes_ascii_Cons byte_def IsControl_def
        between_def maxNameLen_def validateProtocol_def Access_Targets.demo_env_def i hostnamePattern_def host_char_def
        valid_id_simps host_eval)
  moreover have "\<exists>pw'. encryptCredentials ?te (demo_nonce, demo_nonce, demo_nonce) ''sw1'' (cr_Password c) [] [] = Inr (pw', [], [])"
  proof -
    have "length (key_bytes ?te) = KeySize" by (simp add: key_bytes_def Access_Targets.demo_env_def KeySize_def)
    then show ?thesis by (simp add: encryptCredentials_def encrypt_field_def EncryptWithAAD_def)
  qed
  moreover have "?acc = demo_moved\<lparr>db_targets := [demo_row pw]\<rparr>" by (simp add: demo_stored_def sv_access_def)
  ultimately have "\<exists>t acc. tgt_Update ?te (demo_nonce, demo_nonce, demo_nonce) ''sw1'' i ?acc = Inr (t, acc)"
    by (auto simp: tgt_Update_def i update_target_def sql_update_def tgt_Get_def demo_row_def demo_target_def port_ok_def)
  then obtain t acc where up: "tgt_Update ?te (demo_nonce, demo_nonce, demo_nonce) ''sw1'' i ?acc = Inr (t, acc)" by (elim exE)
  have "parseProtocolField ''ssh'' = Some ProtocolSSH"
    by (simp add: parseProtocolField_def trim_space_visible visible_def to_lower_def lower_char_def ProtocolSSH_def)
  then have "update_target_body demo_senv (demo_nonce, demo_nonce, demo_nonce) ''sw1'' cur (demo_put cid) (demo_stored pw)
      = finish_update demo_senv (demo_put cid) cur ProtocolSSH None t acc (demo_stored pw)"
    using up assms(1) by (simp add: update_target_body_def update_group_check_def demo_senv_def i_def)
      (simp add: demo_put_def trim_space_visible visible_def)
  then show ?thesis using finish_update_ok by simp
qed

theorem relink_keeps_secrets_witness:
  "\<exists>resp s' t. update_target_body demo_senv (demo_nonce, demo_nonce, demo_nonce) ''sw1''
        (row_target Access_Targets.demo_env (demo_row demo_sealed)) (demo_put (Some ''ops'')) (demo_stored demo_sealed) = (Inr resp, s')
     \<and> tgt_Get Access_Targets.demo_env ''sw1'' (sv_access s') = Inr t \<and> t_CredentialIdentityID t = ''ops'' \<and> t_SSHPassword t = ''hunter2''"
proof -
  let ?te = Access_Targets.demo_env and ?cur = "row_target Access_Targets.demo_env (demo_row demo_sealed)" and ?req = "demo_put (Some ''ops'')"
  have "decryptOrPlain ?te [] tid field = []" for tid field by (simp add: decryptOrPlain_def)
  then have cur: "t_SSHPassword ?cur = ''hunter2''" "t_SSHPrivateKey ?cur = []" "t_SSHPrivateKeyPassphrase ?cur = []"
    by (simp_all add: row_target_def demo_row_def demo_target_def demo_sealed_opens)
  have "open_secret ?te ''v2:!'' aad = []" for aad
    using demo_unreadable [of aad] by (auto simp: open_secret_def key_usable_def key_bytes_def Access_Targets.demo_env_def KeySize_def)
  then obtain c where c: "update_creds ?te (sv_cred (demo_stored demo_sealed)) ?req ?cur = Inr c" "cr_PrivateKey c = []" "cr_Passphrase c = []"
    by (simp add: update_creds_def applyStoredCredentials_def demo_put_def str_or_def trim_space_visible visible_def ident_GetDecrypted_def
        key_GetDecrypted_def demo_stored_def demo_library_def demo_key_def demo_ids_valid set_cred_def cur Let_def decryptIdentityPassword_def)
  obtain resp s' where up: "update_target_body demo_senv (demo_nonce, demo_nonce, demo_nonce) ''sw1'' ?cur ?req (demo_stored demo_sealed) = (Inr resp, s')"
    using demo_update [OF c] by (elim exE)
  have "aead_law (te_crypto (se_target demo_senv))" "length demo_nonce = NonceSize" "se_target demo_senv = ?te"
    by (simp_all add: demo_senv_def Access_Targets.demo_env_def framed_crypto_laws demo_nonce_def NonceSize_def)
  then show ?thesis
    using relink_keeps_secrets [OF up] up cur
    by (simp add: demo_put_def str_or_def trim_space_visible visible_def) blast
qed

subsection \<open>Secrets that cannot be read\<close>

text \<open>
  An update of a target whose stored password cannot be read (it was sealed under another key)
  erases it, although the request leaves the password alone: the unreadable value reads as empty and is
  written back as such.  The same holds for the private key.
\<close>

theorem update_erases_unreadable:
  assumes "update_target_body env (n1, n2, n3) tid cur req s = (Inr resp, s')" "aead_law (te_crypto (se_target env))"
    and "length n1 = NonceSize" "length n2 = NonceSize" "length n3 = NonceSize"
    and "ut_SSHPassword req = None" "ut_SSHPrivateKey req = None" "ut_CredentialIdentityID req = None" "ut_SSHKeyID req = None"
  shows "\<exists>row. find (\<lambda>r. tr_id r = tid) (db_targets (sv_access s')) = Some row
    \<and> (t_SSHPassword cur = [] \<longrightarrow> tr_ssh_password row = []) \<and> (t_SSHPrivateKey cur = [] \<longrightarrow> tr_ssh_private_key row = [])"
proof -
  obtain c row where c: "update_creds (se_target env) (sv_cred s) req cur = Inr c"
    and nil: "cr_Password c = [] \<longrightarrow> tr_ssh_password row = []" "cr_PrivateKey c = [] \<longrightarrow> tr_ssh_private_key row = []"
    and found: "find (\<lambda>r. tr_id r = tid) (db_targets (sv_access s')) = Some row"
    by (rule update_secrets [OF assms(1-5)]) (rule that; assumption)
  have "cr_Password c = t_SSHPassword cur" "cr_PrivateKey c = t_SSHPrivateKey cur"
    using c assms(6-9) by (auto simp: update_creds_def applyStoredCredentials_def str_or_def Let_def)
  then show ?thesis using found nil by simp
qed

theorem update_erases_unreadable_witness:
  "\<exists>resp s' row. update_target_body demo_senv (demo_nonce, demo_nonce, demo_nonce) ''sw1''
        (row_target Access_Targets.demo_env (demo_row ''v2:!'')) (demo_put None) (demo_stored ''v2:!'') = (Inr resp, s')
     \<and> find (\<lambda>r. tr_id r = ''sw1'') (db_targets (sv_access s')) = Some row \<and> tr_ssh_password row = []"
proof -
  let ?te = Access_Targets.demo_env and ?cur = "row_target Access_Targets.demo_env (demo_row ''v2:!'')" and ?req = "demo_put None"
  have "decryptOrPlain ?te [] tid field = []" "decryptOrPlain ?te ''v2:!'' tid field = []" for tid field
    using demo_unreadable [of "credentialAAD tid field"]
    by (auto simp: decryptOrPlain_def IsEncrypted_def has_prefix_def CiphertextVersionPrefixV2_def key_bytes_def Access_Targets.demo_env_def
        KeySize_def)
  then have cur: "t_SSHPassword ?cur = []" "t_SSHPrivateKey ?cur = []" "t_SSHPrivateKeyPassphrase ?cur = []"
    by (simp_all add: row_target_def demo_row_def demo_target_def)
  obtain c where c: "update_creds ?te (sv_cred (demo_stored ''v2:!'')) ?req ?cur = Inr c" "cr_PrivateKey c = []" "cr_Passphrase c = []"
    by (simp add: update_creds_def applyStoredCredentials_def demo_put_def str_or_def cur)
  obtain resp s' where up: "update_target_body demo_senv (demo_nonce, demo_nonce, demo_nonce) ''sw1'' ?cur ?req (demo_stored ''v2:!'') = (Inr resp, s')"
    using demo_update [OF c] by (elim exE)
  have "aead_law (te_crypto (se_target demo_senv))" "length demo_nonce = NonceSize"
    by (simp_all add: demo_senv_def Access_Targets.demo_env_def framed_crypto_laws demo_nonce_def NonceSize_def)
  then show ?thesis using update_erases_unreadable [OF up] up cur by (simp add: demo_put_def) blast
qed

end
