(* ===== verification/Target_Bulk.thy ===== *)
theory Target_Bulk
  imports Target_Updates
begin

text \<open>
  Bulk management of targets (\<open>src/internal/httpapi/targets_bulk.go\<close>): the export as rows and as CSV
  cells, the import from CSV or JSON with its dry run, and the reachability check.

  The codecs of \<open>encoding/csv\<close> and \<open>encoding/json\<close> and the TCP dial are parameters; \<open>sort.Slice\<close> leaves
  rows with equal keys in the order of the listing.  An import works on the access tables and the
  credential library of the server; \<open>None\<close> stands for a loop that does not return.
\<close>

subsection \<open>Export\<close>

record targetExportRow =
  er_ID :: string
  er_Name :: string
  er_Host :: string
  er_Port :: nat
  er_Protocol :: string
  er_GroupID :: string
  er_Path :: string
  er_Tags :: "string list"
  er_SSHUsername :: string
  er_SFTPEnabled :: bool
  er_FTPEnabled :: bool
  er_TFTPEnabled :: bool
  er_SSHHostKeyFingerprint :: string
  er_CredentialIdentityID :: string
  er_SSHKeyID :: string
  er_HasStoredCredentials :: bool

definition targetCSVHeader :: "string list" where
  "targetCSVHeader = [''name'', ''host'', ''port'', ''protocol'', ''group_id'', ''path'', ''tags'', ''ssh_username'', ''ssh_password'',
     ''sftp_enabled'', ''ftp_enabled'', ''tftp_enabled'', ''ssh_host_key_fingerprint'', ''credential_identity_id'', ''ssh_key_id'']"

definition export_row :: "AccessDB \<Rightarrow> Target \<Rightarrow> targetExportRow" where
  "export_row db t =
     \<lparr>er_ID = t_ID t, er_Name = t_Name t, er_Host = t_Host t, er_Port = t_Port t, er_Protocol = t_Protocol t,
      er_GroupID = (case GroupIDsForTarget (t_ID t) db of [] \<Rightarrow> [] | g # _ \<Rightarrow> g), er_Path = t_Path t, er_Tags = TagsForTarget (t_ID t) db,
      er_SSHUsername = t_SSHUsername t, er_SFTPEnabled = t_SFTPEnabled t, er_FTPEnabled = t_FTPEnabled t, er_TFTPEnabled = t_TFTPEnabled t,
      er_SSHHostKeyFingerprint = t_SSHHostKeyFingerprint t, er_CredentialIdentityID = t_CredentialIdentityID t, er_SSHKeyID = t_SSHKeyID t,
      er_HasStoredCredentials = (t_SSHUsername t \<noteq> [])\<rparr>"

definition exportTargets :: "tenv \<Rightarrow> int \<Rightarrow> AccessDB \<Rightarrow> targetExportRow list" where
  "exportTargets te dflt db =
     sort_key (\<lambda>r. (er_GroupID r, er_Name r)) (map (export_row db) (ListByIDs te (AllIDs (Some (limit_opts 10000)) dflt db) (Some (limit_opts 10000)) dflt db))"

definition formula_char :: "char \<Rightarrow> bool" where
  "formula_char c = (c \<in> {CHR ''='', CHR ''+'', CHR ''-'', CHR ''@'', CHR 0x09, CHR 0x0D})"

definition csvSafe :: "string \<Rightarrow> string" where
  "csvSafe s = (if s = [] then s else if formula_char (hd s) then CHR 0x27 # s else s)"

definition csvUnsafe :: "string \<Rightarrow> string" where
  "csvUnsafe s = (if length s \<ge> 2 \<and> s ! 0 = CHR 0x27 \<and> formula_char (s ! 1) then tl s else s)"

fun join_space :: "string list \<Rightarrow> string" where
  "join_space [] = []"
| "join_space [w] = w"
| "join_space (w # v # ws) = w @ CHR '' '' # join_space (v # ws)"

definition FormatBool :: "bool \<Rightarrow> string" where
  "FormatBool b = (if b then ''true'' else ''false'')"

definition export_cells :: "targetExportRow \<Rightarrow> string list" where
  "export_cells t = [csvSafe (er_Name t), csvSafe (er_Host t), Itoa (er_Port t), er_Protocol t, csvSafe (er_GroupID t), csvSafe (er_Path t),
     csvSafe (join_space (er_Tags t)), csvSafe (er_SSHUsername t), [], FormatBool (er_SFTPEnabled t), FormatBool (er_FTPEnabled t),
     FormatBool (er_TFTPEnabled t), csvSafe (er_SSHHostKeyFingerprint t), csvSafe (er_CredentialIdentityID t), csvSafe (er_SSHKeyID t)]"

subsection \<open>Import: parsing\<close>

record targetImportRow =
  im_Name :: string
  im_Host :: string
  im_Port :: nat
  im_Protocol :: string
  im_GroupID :: string
  im_Path :: string
  im_Tags :: "string list"
  im_SSHUsername :: string
  im_SSHPassword :: string
  im_SFTPEnabled :: "bool option"
  im_FTPEnabled :: "bool option"
  im_TFTPEnabled :: "bool option"
  im_SSHHostKeyFingerprint :: string
  im_CredentialIdentityID :: string
  im_SSHKeyID :: string

datatype file_error = BadCSV | BadJSON | EmptyFile | NoNameColumn | InvalidPort string string | InvalidBool string string

definition parseBoolField :: "string \<Rightarrow> bool option option" where
  "parseBoolField s =
     (let s = to_lower (trim_space s) in
      if s = [] then Some None
      else if s \<in> {''1'', ''true'', ''yes'', ''on''} then Some (Some True)
      else if s \<in> {''0'', ''false'', ''no'', ''off''} then Some (Some False)
      else None)"

definition bom :: string where "bom = [CHR 0xEF, CHR 0xBB, CHR 0xBF]"

definition column_name :: "string \<Rightarrow> string" where
  "column_name h = to_lower (trim_space (if has_prefix h bom then drop (length bom) h else h))"

text \<open>The map from column names to positions; a later column of the same name wins.\<close>

fun header_index :: "nat \<Rightarrow> string list \<Rightarrow> (string, nat) gomap \<Rightarrow> (string, nat) gomap" where
  "header_index i [] m = m"
| "header_index i (h # hs) m = header_index (i + 1) hs (AList.update (column_name h) i m)"

definition cell :: "(string, nat) gomap \<Rightarrow> string list \<Rightarrow> string \<Rightarrow> string" where
  "cell idx rec col = (case lookup idx col of None \<Rightarrow> []
     | Some i \<Rightarrow> if i \<ge> length rec then [] else csvUnsafe (trim_space (rec ! i)))"

definition tag_sep :: "char \<Rightarrow> bool" where
  "tag_sep c = (c = CHR '' '' \<or> c = CHR '';'' \<or> c = CHR ''|'')"

fun tag_fields :: "string \<Rightarrow> string \<Rightarrow> string list" where
  "tag_fields w [] = (if w = [] then [] else [w])"
| "tag_fields w (c # s) = (if tag_sep c then (if w = [] then tag_fields [] s else w # tag_fields [] s) else tag_fields (w @ [c]) s)"

definition parse_port :: "string \<Rightarrow> nat option" where
  "parse_port p = (if p = [] then Some 0 else case atoi p of None \<Rightarrow> None
     | Some n \<Rightarrow> if n < 0 \<or> n > 65535 then None else Some (nat n))"

definition parse_record :: "(string, nat) gomap \<Rightarrow> string list \<Rightarrow> file_error + targetImportRow" where
  "parse_record idx rec =
     (let get = cell idx rec; name = get ''name'' in
      case parse_port (get ''port'') of None \<Rightarrow> Inl (InvalidPort name (get ''port''))
      | Some port \<Rightarrow> (case parseBoolField (get ''sftp_enabled'') of None \<Rightarrow> Inl (InvalidBool name (get ''sftp_enabled''))
        | Some sftp \<Rightarrow> (case parseBoolField (get ''ftp_enabled'') of None \<Rightarrow> Inl (InvalidBool name (get ''ftp_enabled''))
          | Some ftp \<Rightarrow> (case parseBoolField (get ''tftp_enabled'') of None \<Rightarrow> Inl (InvalidBool name (get ''tftp_enabled''))
            | Some tftp \<Rightarrow>
              Inr \<lparr>im_Name = name, im_Host = get ''host'', im_Port = port, im_Protocol = get ''protocol'', im_GroupID = get ''group_id'',
                im_Path = get ''path'', im_Tags = tag_fields [] (get ''tags''), im_SSHUsername = get ''ssh_username'',
                im_SSHPassword = get ''ssh_password'', im_SFTPEnabled = sftp, im_FTPEnabled = ftp, im_TFTPEnabled = tftp,
                im_SSHHostKeyFingerprint = get ''ssh_host_key_fingerprint'', im_CredentialIdentityID = get ''credential_identity_id'',
                im_SSHKeyID = get ''ssh_key_id''\<rparr>))))"

fun parse_records :: "(string, nat) gomap \<Rightarrow> string list list \<Rightarrow> file_error + targetImportRow list" where
  "parse_records idx [] = Inr []"
| "parse_records idx (rec # rs) =
     (if rec = [] \<or> length rec = 1 \<and> trim_space (hd rec) = [] then parse_records idx rs
      else case parse_record idx rec of Inl e \<Rightarrow> Inl e
        | Inr row \<Rightarrow> map_sum (\<lambda>e. e) ((#) row) (parse_records idx rs))"

definition parseTargetCSV :: "(string \<Rightarrow> string list list option) \<Rightarrow> string \<Rightarrow> file_error + targetImportRow list" where
  "parseTargetCSV read data = (case read data of None \<Rightarrow> Inl BadCSV
     | Some [] \<Rightarrow> Inl EmptyFile
     | Some (h # rs) \<Rightarrow>
         let idx = header_index 0 h [] in
         if \<not> has_key idx ''name'' then Inl NoNameColumn else parse_records idx rs)"

subsection \<open>Import: one row\<close>

datatype import_error = NameHostRequired | GroupRequired | GroupNotFound string | BadProtocol string
  | errTargetImportExists string | Store access_error

definition defaultPortFor :: "Protocol \<Rightarrow> nat" where
  "defaultPortFor p = (if p = ProtocolTelnet then 23 else if p = ProtocolRDP then 3389 else if p = ProtocolVNC then 5900
     else if p = ProtocolFTP then 21 else if p = ProtocolTFTP then 69 else 22)"

fun dedupe_loop :: "string list \<Rightarrow> string list \<Rightarrow> string list" where
  "dedupe_loop seen [] = []"
| "dedupe_loop seen (s # ss) =
     (let s = trim_space s in if s = [] \<or> s \<in> set seen then dedupe_loop seen ss else s # dedupe_loop (s # seen) ss)"

definition dedupeStrings :: "string list \<Rightarrow> string list" where
  "dedupeStrings ss = dedupe_loop [] ss"

text \<open>The target of the group with this address, port and protocol.\<close>

definition duplicate_of :: "tenv \<Rightarrow> int \<Rightarrow> string \<Rightarrow> string \<Rightarrow> nat \<Rightarrow> Protocol \<Rightarrow> AccessDB \<Rightarrow> Target option" where
  "duplicate_of te dflt groupID host port protocol db =
     find (\<lambda>t. equal_fold (t_Host t) host \<and> t_Port t = port \<and> t_Protocol t = protocol)
       (ListByIDs te (TargetIDsForGroup groupID (Some (limit_opts 10000)) dflt db) (Some (limit_opts 10000)) dflt db)"

definition import_input :: "targetImportRow \<Rightarrow> Protocol \<Rightarrow> creds \<Rightarrow> target_input" where
  "import_input row protocol c =
     \<lparr>in_Name = trim_space (im_Name row), in_Host = trim_space (im_Host row),
      in_Port = (if im_Port row = 0 then defaultPortFor protocol else im_Port row), in_Protocol = protocol,
      in_Path = (let p = trim_space (im_Path row) in if p = [] then trim_space (im_GroupID row) else p),
      in_SSHUsername = cr_Username c, in_SSHPassword = cr_Password c, in_SSHPrivateKey = cr_PrivateKey c,
      in_SSHPrivateKeyPassphrase = cr_Passphrase c, in_SFTP = flag_or (im_SFTPEnabled row) (protocol = ProtocolSSH),
      in_FTP = flag_or (im_FTPEnabled row) False, in_TFTP = flag_or (im_TFTPEnabled row) False\<rparr>"

text \<open>The steps after the row exists; the first that fails is the result and ends the sequence.\<close>

definition and_next :: "(AccessDB \<Rightarrow> access_error + AccessDB) \<Rightarrow> access_error option \<times> AccessDB \<Rightarrow> access_error option \<times> AccessDB" where
  "and_next f x = (case x of (Some e, acc) \<Rightarrow> (Some e, acc)
     | (None, acc) \<Rightarrow> (case f acc of Inl e \<Rightarrow> (Some e, acc) | Inr acc \<Rightarrow> (None, acc)))"

definition import_finish :: "(nat \<Rightarrow> bool) \<Rightarrow> targetImportRow \<Rightarrow> string \<Rightarrow> AccessDB \<Rightarrow> access_error option \<times> AccessDB" where
  "import_finish uni row tid acc =
     (let groupID = trim_space (im_GroupID row) in
      and_next (\<lambda>acc. let fp = trim_space (im_SSHHostKeyFingerprint row) in if fp \<noteq> [] then SetSSHHostKeyFingerprint tid fp acc else Inr acc)
      (and_next (\<lambda>acc. let tags = im_Tags row @ TagsForGroup groupID acc in
          if tags \<noteq> [] then SetTargetTags uni tid (dedupeStrings tags) acc else Inr acc)
      (and_next (\<lambda>acc. if im_CredentialIdentityID row \<noteq> [] \<or> im_SSHKeyID row \<noteq> []
          then SetCredentialSource tid (trim_space (im_CredentialIdentityID row)) (trim_space (im_SSHKeyID row)) acc else Inr acc)
      (and_next (AddTargetToGroup groupID tid) (None, acc)))))"

text \<open>A row that passed the checks: the row of the table, then the rest, undone when a step fails.\<close>

definition import_create ::
  "server_env \<Rightarrow> (nat \<Rightarrow> string \<times> string \<times> string) \<Rightarrow> targetImportRow \<Rightarrow> target_input \<Rightarrow> AccessDB \<Rightarrow> ((import_error + string) \<times> AccessDB) option" where
  "import_create env nonces row i db = map_option (\<lambda>x. case x of Inl e \<Rightarrow> (Inl (Store e), db)
     | Inr (tid, _, acc) \<Rightarrow> (case import_finish (sv_uni env) row tid acc of
           (None, acc) \<Rightarrow> (Inr tid, acc)
         | (Some e, acc) \<Rightarrow> (Inl (Store e), (case tgt_Delete tid acc of Inl _ \<Rightarrow> acc | Inr acc \<Rightarrow> acc))))
   (create_target_loop (se_target env) nonces (trim_space (im_GroupID row)) i db)"

definition createTargetFromImport ::
  "server_env \<Rightarrow> (nat \<Rightarrow> string \<times> string \<times> string) \<Rightarrow> CredentialDB \<Rightarrow> targetImportRow \<Rightarrow> bool \<Rightarrow> AccessDB
     \<Rightarrow> ((import_error + string) \<times> AccessDB) option" where
  "createTargetFromImport env nonces cd row dryRun db =
     (let host = trim_space (im_Host row); groupID = trim_space (im_GroupID row); te = se_target env; dflt = ge_list_limit (se_guard env) in
      if trim_space (im_Name row) = [] \<or> host = [] then Some (Inl NameHostRequired, db)
      else if groupID = [] then Some (Inl GroupRequired, db)
      else case grp_Get groupID db of Inl _ \<Rightarrow> Some (Inl (GroupNotFound groupID), db)
      | Inr _ \<Rightarrow> (case parseProtocolField (im_Protocol row) of None \<Rightarrow> Some (Inl (BadProtocol (im_Protocol row)), db)
        | Some protocol \<Rightarrow>
          (case applyStoredCredentials te cd (trim_space (im_CredentialIdentityID row)) (trim_space (im_SSHKeyID row)) True
              \<lparr>cr_Username = trim_space (im_SSHUsername row), cr_Password = im_SSHPassword row, cr_PrivateKey = [], cr_Passphrase = []\<rparr> of
             Inl e \<Rightarrow> Some (Inl (Store e), db)
           | Inr c \<Rightarrow>
             let i = import_input row protocol c in
             (case duplicate_of te dflt groupID host (in_Port i) protocol db of
                Some t \<Rightarrow> Some (Inl (errTargetImportExists (t_ID t)), db)
              | None \<Rightarrow>
                if dryRun then Some (Inr [], db) else import_create env nonces row i db))))"

subsection \<open>Import: the request\<close>

datatype import_status = Created string | Skipped string | Failed import_error | Valid

record targetImportResult =
  rr_Row :: nat
  rr_Name :: string
  rr_Status :: import_status

fun import_status_of :: "bool \<Rightarrow> import_error + string \<Rightarrow> import_status" where
  "import_status_of dryRun (Inl (errTargetImportExists tid)) = Skipped tid"
| "import_status_of dryRun (Inl e) = Failed e"
| "import_status_of dryRun (Inr tid) = (if dryRun then Valid else Created tid)"

fun import_rows ::
  "server_env \<Rightarrow> (nat \<Rightarrow> nat \<Rightarrow> string \<times> string \<times> string) \<Rightarrow> CredentialDB \<Rightarrow> bool \<Rightarrow> nat \<Rightarrow> targetImportRow list \<Rightarrow> AccessDB
     \<Rightarrow> (targetImportResult list \<times> AccessDB) option" where
  "import_rows env nonces cd dryRun i [] db = Some ([], db)"
| "import_rows env nonces cd dryRun i (row # rows) db =
     (case createTargetFromImport env (nonces i) cd row dryRun db of None \<Rightarrow> None
      | Some (x, db) \<Rightarrow>
        map_option (\<lambda>(rs, db). (\<lparr>rr_Row = i + 1, rr_Name = im_Name row, rr_Status = import_status_of dryRun x\<rparr> # rs, db))
          (import_rows env nonces cd dryRun (i + 1) rows db))"

definition targetImportMaxRows :: nat where "targetImportMaxRows = 2000"
definition targetImportMaxBytes :: nat where "targetImportMaxBytes = 16 * 2 ^ 20"

record bulk_env =
  bk_server :: server_env
  bk_csv_read :: "string \<Rightarrow> string list list option"
  bk_csv_write :: "string list list \<Rightarrow> string"
  bk_json_array :: "string \<Rightarrow> targetImportRow list option"
  bk_json_wrapper :: "string \<Rightarrow> targetImportRow list option"
  bk_dial :: "string \<Rightarrow> nat \<Rightarrow> int \<times> string option"

definition parseTargetJSON :: "bulk_env \<Rightarrow> string \<Rightarrow> file_error + targetImportRow list" where
  "parseTargetJSON env data =
     (case (if has_prefix data ''['' then bk_json_array env data else bk_json_wrapper env data) of None \<Rightarrow> Inl BadJSON | Some rows \<Rightarrow> Inr rows)"

text \<open>The body of the request: a form with its dry-run field, file name and content, or a JSON object.\<close>

datatype import_body = BadForm | Form string string string | BadBody | Body "targetImportRow list" bool

definition parse_form :: "bulk_env \<Rightarrow> string \<Rightarrow> string \<Rightarrow> file_error + targetImportRow list" where
  "parse_form env filename content =
     (let data = take targetImportMaxBytes content; trimmed = trim_space data in
      if has_suffix (to_lower filename) ''.json'' \<or> has_prefix trimmed ''{'' \<or> has_prefix trimmed ''[''
      then parseTargetJSON env trimmed else parseTargetCSV (bk_csv_read env) data)"

fun import_request :: "bulk_env \<Rightarrow> import_body \<Rightarrow> http_error + targetImportRow list \<times> bool" where
  "import_request env BadForm = Inl (400, ''common.invalidRequestBody'')"
| "import_request env (Form dry filename content) = (case parse_form env filename content of
     Inl _ \<Rightarrow> Inl (400, ''targets.importFile'') | Inr rows \<Rightarrow> Inr (rows, dry = ''1'' \<or> equal_fold dry ''true''))"
| "import_request env BadBody = Inl (400, ''common.invalidRequestBody'')"
| "import_request env (Body rows dry) = Inr (rows, dry)"

record import_report =
  rp_DryRun :: bool
  rp_Rows :: nat
  rp_Created :: nat
  rp_Skipped :: nat
  rp_Failed :: nat
  rp_Results :: "targetImportResult list"

definition count_status :: "(import_status \<Rightarrow> bool) \<Rightarrow> targetImportResult list \<Rightarrow> nat" where
  "count_status P rs = length (filter (\<lambda>r. P (rr_Status r)) rs)"

definition handleImportTargets ::
  "bulk_env \<Rightarrow> (nat \<Rightarrow> nat \<Rightarrow> string \<times> string \<times> string) \<Rightarrow> http_req \<Rightarrow> import_body \<Rightarrow> instant \<Rightarrow> ServerApp
     \<Rightarrow> ((http_error + import_report) \<times> ServerApp) option" where
  "handleImportTargets env nonces r body now s =
     (case admin_only (bk_server env) r now s (\<lambda>s. (import_request env body, s)) of
        (Inl e, s) \<Rightarrow> Some (Inl e, s)
      | (Inr (rows, dryRun), s) \<Rightarrow>
        if rows = [] then Some (Inl (400, ''targets.importEmpty''), s)
        else if length rows > targetImportMaxRows then Some (Inl (400, ''targets.importTooMany''), s)
        else map_option (\<lambda>(rs, acc).
            (Inr \<lparr>rp_DryRun = dryRun, rp_Rows = length rows,
                rp_Created = count_status (\<lambda>x. case x of Created _ \<Rightarrow> True | _ \<Rightarrow> False) rs,
                rp_Skipped = count_status (\<lambda>x. case x of Skipped _ \<Rightarrow> True | _ \<Rightarrow> False) rs,
                rp_Failed = count_status (\<lambda>x. case x of Failed _ \<Rightarrow> True | _ \<Rightarrow> False) rs, rp_Results = rs\<rparr>, set_access acc s))
          (import_rows (bk_server env) nonces (sv_cred s) dryRun 0 rows (sv_access s)))"

definition handleExportTargets :: "bulk_env \<Rightarrow> http_req \<Rightarrow> string \<Rightarrow> instant \<Rightarrow> ServerApp \<Rightarrow> (http_error + targetExportRow list + string) \<times> ServerApp" where
  "handleExportTargets env r format now s = admin_only (bk_server env) r now s (\<lambda>s.
     let rows = exportTargets (se_target (bk_server env)) (ge_list_limit (se_guard (bk_server env))) (sv_access s) in
     if equal_fold format ''json'' then (Inr (Inl rows), s)
     else (Inr (Inr (bk_csv_write env (targetCSVHeader # map export_cells rows))), s))"

subsection \<open>Reachability\<close>

record targetCheckResult =
  kc_ID :: string
  kc_Host :: string
  kc_Port :: nat
  kc_Reachable :: bool
  kc_LatencyMS :: int
  kc_Error :: string

definition check_one :: "(string \<Rightarrow> nat \<Rightarrow> int \<times> string option) \<Rightarrow> Target \<Rightarrow> targetCheckResult" where
  "check_one dial t = (case dial (t_Host t) (t_Port t) of (ms, err) \<Rightarrow>
     \<lparr>kc_ID = t_ID t, kc_Host = t_Host t, kc_Port = t_Port t, kc_Reachable = (err = None), kc_LatencyMS = ms,
      kc_Error = (case err of Some e \<Rightarrow> e | None \<Rightarrow> [])\<rparr>)"

definition checkTargets :: "(string \<Rightarrow> nat \<Rightarrow> int \<times> string option) \<Rightarrow> Target list \<Rightarrow> targetCheckResult list" where
  "checkTargets dial ts = map (check_one dial) ts"

definition skipped_check :: "Target \<Rightarrow> targetCheckResult" where
  "skipped_check t = \<lparr>kc_ID = t_ID t, kc_Host = t_Host t, kc_Port = t_Port t, kc_Reachable = False, kc_LatencyMS = 0,
     kc_Error = ''udp protocol: not probed''\<rparr>"

text \<open>The body is absent, not decodable, or a list of identifiers.\<close>

definition handleCheckTargets ::
  "bulk_env \<Rightarrow> http_req \<Rightarrow> string list option option \<Rightarrow> instant \<Rightarrow> ServerApp \<Rightarrow> (http_error + targetCheckResult list) \<times> ServerApp" where
  "handleCheckTargets env r body now s = admin_only (bk_server env) r now s (\<lambda>s.
     case body of Some None \<Rightarrow> (Inl (400, ''common.invalidRequestBody''), s)
     | _ \<Rightarrow>
       let given = (case body of Some (Some ids) \<Rightarrow> ids | _ \<Rightarrow> []); dflt = ge_list_limit (se_guard (bk_server env));
           ids = (if given = [] then AllIDs (Some (limit_opts 500)) dflt (sv_access s) else map trim_space (take 500 given));
           targets = ListByIDs (se_target (bk_server env)) ids (Some (limit_opts 500)) dflt (sv_access s);
           probeable = filter (\<lambda>t. t_Protocol t \<noteq> ProtocolTFTP) targets;
           skipped = map skipped_check (filter (\<lambda>t. t_Protocol t = ProtocolTFTP) targets)
       in (Inr (checkTargets (bk_dial env) probeable @ skipped), s))"

subsection \<open>A row is imported whole or not at all\<close>

text \<open>The tables hold a target with this identifier, and without it they are the given ones.\<close>

definition adds_target :: "string \<Rightarrow> AccessDB \<Rightarrow> AccessDB \<Rightarrow> bool" where
  "adds_target tid db acc = (target_exists tid acc \<and> delete_targets (\<lambda>r. tr_id r = tid) acc = db)"

lemma gone_ids: "target_exists tid acc \<Longrightarrow> set (map tr_id (filter (\<lambda>r. tr_id r = tid) (db_targets acc))) = {tid}"
  by (auto simp: target_exists_def)

lemma adds_target_iff:
  assumes "target_exists tid acc"
  shows "delete_targets (\<lambda>r. tr_id r = tid) acc = acc\<lparr>db_targets := filter (\<lambda>r. tr_id r \<noteq> tid) (db_targets acc),
    db_group_targets := filter (\<lambda>(_, t). t \<noteq> tid) (db_group_targets acc), db_target_tags := filter (\<lambda>(t, _). t \<noteq> tid) (db_target_tags acc)\<rparr>"
  unfolding delete_targets_def Let_def gone_ids [OF assms] by simp

lemma adds_target_create:
  assumes "db_inv db" "tgt_CreateWithPath te ns tid g i db = Inr (t, acc)"
  shows "adds_target tid db acc \<and> validateTargetID tid = None"
proof -
  obtain r where r: "acc = db\<lparr>db_targets := db_targets db @ [r]\<rparr>" "tr_id r = tid" "\<not> target_exists tid db" "validateTargetID tid = None"
    using assms(2) by (rule CreateWithPath_row)
  have ex: "target_exists tid acc" using r by (simp add: target_exists_def)
  have "filter (\<lambda>r. tr_id r \<noteq> tid) (db_targets db) = db_targets db" "filter (\<lambda>(_, t). t \<noteq> tid) (db_group_targets db) = db_group_targets db"
    "filter (\<lambda>(t, _). t \<noteq> tid) (db_target_tags db) = db_target_tags db"
    using r(3) assms(1) by (auto simp: filter_id_conv target_exists_def db_inv_def)
  then show ?thesis using ex r by (simp add: adds_target_def adds_target_iff)
qed

lemma adds_target_group:
  assumes "adds_target tid db acc" "AddTargetToGroup g tid acc = Inr acc'"
  shows "adds_target tid db acc'"
proof -
  have ex: "target_exists tid acc" using assms(1) by (simp add: adds_target_def)
  then have ex': "target_exists tid acc'" using assms(2) by (auto simp: AddTargetToGroup_def target_exists_def split: if_splits)
  show ?thesis using assms ex ex' by (auto simp: adds_target_def adds_target_iff AddTargetToGroup_def split: if_splits)
qed

lemma adds_target_tags:
  assumes "adds_target tid db acc" "SetTargetTags uni tid tags acc = Inr acc'"
  shows "adds_target tid db acc'"
proof -
  have ex: "target_exists tid acc" using assms(1) by (simp add: adds_target_def)
  have acc': "acc' = acc\<lparr>db_target_tags := filter (\<lambda>(t, _). t \<noteq> tid) (db_target_tags acc) @ map (\<lambda>t. (tid, t)) tags\<rparr>"
    using assms(2) by (auto simp: SetTargetTags_def split: option.splits if_splits)
  then have ex': "target_exists tid acc'" using ex by (simp add: target_exists_def)
  have "filter (\<lambda>(t, _). t \<noteq> tid) (map (\<lambda>t. (tid, t)) tags) = []" by (induction tags) simp_all
  then show ?thesis using assms(1) ex ex' acc' by (simp add: adds_target_def adds_target_iff filter_filter)
qed

lemma adds_target_update:
  assumes "adds_target tid db acc" "update_target tid f acc = Inr acc'" "\<And>r. tr_id (f r) = tr_id r"
  shows "adds_target tid db acc'"
proof -
  have ex: "target_exists tid acc" using assms(1) by (simp add: adds_target_def)
  have acc': "acc' = acc\<lparr>db_targets := map (\<lambda>r. if tr_id r = tid then f r else r) (db_targets acc)\<rparr>"
    using assms(2) by (auto simp: update_target_def sql_update_def split: if_splits)
  have ex': "target_exists tid acc'" using ex assms(3) unfolding acc' target_exists_def by force
  have "filter (\<lambda>r. tr_id r \<noteq> tid) (map (\<lambda>r. if tr_id r = tid then f r else r) xs) = filter (\<lambda>r. tr_id r \<noteq> tid) xs" for xs
    using assms(3) by (induction xs) auto
  then show ?thesis using assms(1) ex ex' acc' by (simp add: adds_target_def adds_target_iff)
qed

lemma adds_target_source: "adds_target tid db acc \<Longrightarrow> SetCredentialSource tid cid kid acc = Inr acc' \<Longrightarrow> adds_target tid db acc'"
  by (auto simp: SetCredentialSource_def intro: adds_target_update split: option.splits)

lemma adds_target_fingerprint: "adds_target tid db acc \<Longrightarrow> SetSSHHostKeyFingerprint tid fp acc = Inr acc' \<Longrightarrow> adds_target tid db acc'"
  by (auto simp: SetSSHHostKeyFingerprint_def intro: adds_target_update split: option.splits sum.splits)

lemma and_next_keeps: "P (snd x) \<Longrightarrow> (\<And>acc acc'. P acc \<Longrightarrow> f acc = Inr acc' \<Longrightarrow> P acc') \<Longrightarrow> P (snd (and_next f x))"
  by (cases x) (auto simp: and_next_def split: option.split sum.split)

lemma import_finish_adds:
  assumes "adds_target tid db acc"
  shows "adds_target tid db (snd (import_finish uni row tid acc))"
  unfolding import_finish_def Let_def
proof (intro and_next_keeps [where P = "adds_target tid db"], goal_cases)
  case 1
  show ?case using assms by simp
next
  case (2 acc acc')
  then show ?case by (rule adds_target_group)
next
  case (3 acc acc')
  then show ?case using adds_target_source [OF 3(1)] by (auto split: if_split_asm)
next
  case (4 acc acc')
  then show ?case using adds_target_tags [OF 4(1)] by (auto split: if_split_asm)
next
  case (5 acc acc')
  then show ?case using adds_target_fingerprint [OF 5(1)] by (auto split: if_split_asm)
qed

lemma tgt_Delete_added: "adds_target tid db acc \<Longrightarrow> validateTargetID tid = None \<Longrightarrow> tgt_Delete tid acc = Inr db"
  by (simp add: tgt_Delete_def adds_target_def)

lemma create_target_loop_cases:
  assumes "group_exists g db"
  obtains e where "create_target_loop te nonces g i db = Some (Inl e)"
  | j tid t acc where "create_target_loop te nonces g i db = Some (Inr (tid, t, acc))" "tgt_CreateWithPath te (nonces j) tid g i db = Inr (t, acc)"
proof -
  obtain j where j: "create_target_loop te nonces g i db = Some (case tgt_CreateWithPath te (nonces j) (candidate (slugID (in_Name i)) j) g i db of
        Inl e \<Rightarrow> Inl e | Inr x \<Rightarrow> Inr (candidate (slugID (in_Name i)) j, x))"
    using create_target_loop_returns [OF assms] by metis
  show thesis
  proof (cases "tgt_CreateWithPath te (nonces j) (candidate (slugID (in_Name i)) j) g i db")
    case (Inl e)
    then show thesis using that(1) j by simp
  next
    case (Inr x)
    then show thesis using that(2) j by (cases x) auto
  qed
qed

lemma import_create_cases:
  assumes "db_inv db" "group_exists (trim_space (im_GroupID row)) db"
  obtains e where "import_create env nonces row i db = Some (Inl (Store e), db)"
  | j tid t acc acc' where "import_create env nonces row i db = Some (Inr tid, acc')"
      "tgt_CreateWithPath (se_target env) (nonces j) tid (trim_space (im_GroupID row)) i db = Inr (t, acc)"
      "import_finish (sv_uni env) row tid acc = (None, acc')"
proof (rule create_target_loop_cases [OF assms(2), of "se_target env" nonces i])
  fix e
  assume "create_target_loop (se_target env) nonces (trim_space (im_GroupID row)) i db = Some (Inl e)"
  then show thesis by (intro that(1)) (simp add: import_create_def)
next
  fix j tid t acc
  assume l: "create_target_loop (se_target env) nonces (trim_space (im_GroupID row)) i db = Some (Inr (tid, t, acc))"
    and c: "tgt_CreateWithPath (se_target env) (nonces j) tid (trim_space (im_GroupID row)) i db = Inr (t, acc)"
  obtain x acc' where f: "import_finish (sv_uni env) row tid acc = (x, acc')" by fastforce
  have add: "adds_target tid db acc'" "validateTargetID tid = None"
    using adds_target_create [OF assms(1) c] import_finish_adds [of tid db acc "sv_uni env" row] f by simp_all
  show thesis
  proof (cases x)
    case None
    then show thesis using that(2) [OF _ c] f l by (simp add: import_create_def)
  next
    case (Some e)
    then show thesis using that(1) f l tgt_Delete_added [OF add] by (simp add: import_create_def)
  qed
qed

lemma createTargetFromImport_cases:
  obtains e where "createTargetFromImport env nonces cd row dryRun db = Some (Inl e, db)"
  | "createTargetFromImport env nonces cd row dryRun db = Some (Inr [], db)" "dryRun"
  | protocol c where "createTargetFromImport env nonces cd row dryRun db = import_create env nonces row (import_input row protocol c) db" "\<not> dryRun"
      "group_exists (trim_space (im_GroupID row)) db" "parseProtocolField (im_Protocol row) = Some protocol"
      "applyStoredCredentials (se_target env) cd (trim_space (im_CredentialIdentityID row)) (trim_space (im_SSHKeyID row)) True
        \<lparr>cr_Username = trim_space (im_SSHUsername row), cr_Password = im_SSHPassword row, cr_PrivateKey = [], cr_Passphrase = []\<rparr> = Inr c"
      "duplicate_of (se_target env) (ge_list_limit (se_guard env)) (trim_space (im_GroupID row)) (trim_space (im_Host row))
        (in_Port (import_input row protocol c)) protocol db = None"
      "trim_space (im_Name row) \<noteq> []" "trim_space (im_Host row) \<noteq> []" "trim_space (im_GroupID row) \<noteq> []"
proof -
  let ?g = "trim_space (im_GroupID row)" and ?f = "createTargetFromImport env nonces cd row dryRun db"
  let ?c = "applyStoredCredentials (se_target env) cd (trim_space (im_CredentialIdentityID row)) (trim_space (im_SSHKeyID row)) True
        \<lparr>cr_Username = trim_space (im_SSHUsername row), cr_Password = im_SSHPassword row, cr_PrivateKey = [], cr_Passphrase = []\<rparr>"
  show thesis
  proof (cases "trim_space (im_Name row) = [] \<or> trim_space (im_Host row) = [] \<or> ?g = []")
    case True
    then have "\<exists>e. ?f = Some (Inl e, db)" by (auto simp: createTargetFromImport_def Let_def)
    then show thesis using that(1) by blast
  next
    case ne: False
    note u = createTargetFromImport_def [of env nonces cd row dryRun db, unfolded Let_def]
    consider (g) e where "grp_Get ?g db = Inl e" | (p) "parseProtocolField (im_Protocol row) = None" "\<exists>y. grp_Get ?g db = Inr y"
      | (c) y protocol e where "grp_Get ?g db = Inr y" "parseProtocolField (im_Protocol row) = Some protocol" "?c = Inl e"
      | (ok) y protocol c where "grp_Get ?g db = Inr y" "parseProtocolField (im_Protocol row) = Some protocol" "?c = Inr c"
      by (cases "grp_Get ?g db"; cases "parseProtocolField (im_Protocol row)"; cases ?c) auto
    then show thesis
    proof cases
      case ok
      let ?d = "duplicate_of (se_target env) (ge_list_limit (se_guard env)) ?g (trim_space (im_Host row)) (in_Port (import_input row protocol c)) protocol db"
      have gex: "group_exists ?g db" using ok(1) by (auto simp: grp_Get_def group_exists_def split: option.splits dest!: find_in_set intro: rev_image_eqI)
      show thesis
      proof (cases ?d)
        case (Some t)
        then show thesis using ok ne by (intro that(1)) (simp add: u)
      next
        case None
        show thesis
        proof (cases dryRun)
          case True
          then show thesis using ok ne None by (intro that(2)) (simp_all add: createTargetFromImport_def Let_def)
        next
          case False
          then show thesis using ok ne None gex by (intro that(3)) (simp_all add: createTargetFromImport_def Let_def)
        qed
      qed
    qed (use ne in \<open>auto intro!: that(1) simp: u\<close>)
  qed
qed


subsection \<open>A second import skips what the first created\<close>

text \<open>The tables hold this target in this group, with this address.\<close>

definition holds_target :: "string \<Rightarrow> string \<Rightarrow> string \<Rightarrow> nat \<Rightarrow> Protocol \<Rightarrow> AccessDB \<Rightarrow> bool" where
  "holds_target tid g host port protocol acc = (db_inv acc \<and> (g, tid) \<in> set (db_group_targets acc)
     \<and> (\<exists>r \<in> set (db_targets acc). tr_id r = tid \<and> tr_host r = host \<and> tr_port r = int port \<and> tr_protocol r = protocol))"

lemma and_next_None: "and_next f x = (None, acc') \<Longrightarrow> \<exists>acc. x = (None, acc) \<and> f acc = Inr acc'"
  by (cases x) (auto simp: and_next_def split: option.splits sum.splits)

lemma holds_update:
  assumes "holds_target tid g h p pr acc" "update_target t f acc = Inr acc'"
    and "\<And>r. tr_id (f r) = tr_id r \<and> tr_group_id (f r) = tr_group_id r \<and> tr_host (f r) = tr_host r \<and> tr_port (f r) = tr_port r \<and> tr_protocol (f r) = tr_protocol r"
  shows "holds_target tid g h p pr acc'"
proof -
  have acc': "acc' = acc\<lparr>db_targets := map (\<lambda>r. if tr_id r = t then f r else r) (db_targets acc)\<rparr>"
    using assms(2) by (auto simp: update_target_def sql_update_def split: if_splits)
  have "db_inv acc'" using db_inv_update_target [OF _ assms(2)] assms(1,3) by (auto simp: holds_target_def)
  moreover obtain r where r: "r \<in> set (db_targets acc)" "tr_id r = tid" "tr_host r = h" "tr_port r = int p" "tr_protocol r = pr"
    using assms(1) by (auto simp: holds_target_def)
  then have "(if tr_id r = t then f r else r) \<in> set (db_targets acc')" unfolding acc' by simp
  ultimately show ?thesis using assms(1,3) r unfolding holds_target_def acc' by (intro conjI bexI [of _ "if tr_id r = t then f r else r"]) auto
qed

lemma import_finish_holds:
  assumes "tgt_CreateWithPath te ns tid (trim_space (im_GroupID row)) i db = Inr (t, acc)" "db_inv db"
    and "import_finish uni row tid acc = (None, acc')"
  shows "holds_target tid (trim_space (im_GroupID row)) (in_Host i) (in_Port i) (in_Protocol i) acc'"
proof -
  let ?H = "holds_target tid (trim_space (im_GroupID row)) (in_Host i) (in_Port i) (in_Protocol i)"
  have row: "\<exists>r \<in> set (db_targets acc). tr_id r = tid \<and> tr_host r = in_Host i \<and> tr_port r = int (in_Port i) \<and> tr_protocol r = in_Protocol i"
    using assms(1) by (auto simp: tgt_CreateWithPath_def split: option.splits sum.splits if_splits)
  have inv: "db_inv acc" using db_inv_step [OF access_step.target_create [OF assms(1)] assms(2)] .
  obtain a1 a2 a3 where s: "AddTargetToGroup (trim_space (im_GroupID row)) tid acc = Inr a1"
      "(if im_CredentialIdentityID row \<noteq> [] \<or> im_SSHKeyID row \<noteq> []
          then SetCredentialSource tid (trim_space (im_CredentialIdentityID row)) (trim_space (im_SSHKeyID row)) a1 else Inr a1) = Inr a2"
      "(let tags = im_Tags row @ TagsForGroup (trim_space (im_GroupID row)) a2 in
          if tags \<noteq> [] then SetTargetTags uni tid (dedupeStrings tags) a2 else Inr a2) = Inr a3"
      "(let fp = trim_space (im_SSHHostKeyFingerprint row) in if fp \<noteq> [] then SetSSHHostKeyFingerprint tid fp a3 else Inr a3) = Inr acc'"
    using assms(3) unfolding import_finish_def Let_def by (auto dest!: and_next_None)
  have "?H a1" using s(1) row inv db_inv_step [OF access_step.assign [OF s(1)] inv]
    by (auto simp: holds_target_def AddTargetToGroup_def split: if_splits)
  then have "?H a2" using s(2) by (auto simp: SetCredentialSource_def split: if_split_asm option.splits intro: holds_update)
  moreover have "?H a" if "?H b" "SetTargetTags uni tid tags b = Inr a" for a b tags
    using that db_inv_step [OF access_step.target_tags [OF that(2)]] by (auto simp: holds_target_def SetTargetTags_def split: option.splits if_splits)
  ultimately have "?H a3" using s(3) by (auto simp: Let_def split: if_split_asm)
  then show ?thesis using s(4)
    by (auto simp: Let_def SetSSHHostKeyFingerprint_def split: if_split_asm option.splits sum.splits intro: holds_update)
qed

lemma page_keeps: "int (length xs) \<le> n \<Longrightarrow> 0 < n \<Longrightarrow> sql_page (Some (limit_opts n)) d xs = xs" "int (length xs) \<le> n \<Longrightarrow> 0 < n \<Longrightarrow> slice_ids (Some (limit_opts n)) d xs = xs"
  by (simp_all add: sql_page_def slice_ids_def listLimit_def limit_opts_def)

lemma holds_duplicate:
  assumes "holds_target tid g h p pr acc" "validateTargetID tid = None" "p \<le> 65535"
    and "length (filter (\<lambda>(g', _). g' = g) (db_group_targets acc)) \<le> 10000"
  shows "duplicate_of te d g h p pr acc \<noteq> None"
proof -
  obtain r where r: "r \<in> set (db_targets acc)" "tr_id r = tid" "tr_host r = h" "tr_port r = int p" "tr_protocol r = pr"
    and inv: "db_inv acc" and link: "(g, tid) \<in> set (db_group_targets acc)" using assms(1) by (auto simp: holds_target_def)
  have dist: "distinct (map tr_id (db_targets acc))" using inv by (simp add: db_inv_def)
  let ?ids = "sort [t. (g', t) \<leftarrow> db_group_targets acc, g' = g]"
  have "length [t. (g', t) \<leftarrow> xs, g' = g] = length (filter (\<lambda>(g', _). g' = g) xs)" for xs :: "(string \<times> string) list"
    by (induction xs) auto
  then have len: "int (length ?ids) \<le> 10000" using assms(4) by simp
  have ids: "TargetIDsForGroup g (Some (limit_opts 10000)) d acc = ?ids"
    unfolding TargetIDsForGroup_def using len by (intro page_keeps) simp_all
  have "tid \<in> set ?ids" using link by force
  moreover have "tid \<noteq> []" using assms(2) by (auto simp: validateTargetID_def)
  ultimately have "tid \<in> set (uniq_ids [] (slice_ids (Some (limit_opts 10000)) d ?ids))"
    using len by (simp add: set_uniq_ids page_keeps)
  moreover have "find (\<lambda>x. tr_id x = tid) (db_targets acc) = Some r" using find_unique [OF dist r(1)] r(2) by simp
  then have "tgt_Get te tid acc = Inr (row_target te r)" using r(4) assms(3) by (simp add: tgt_Get_def port_ok_def)
  ultimately have "row_target te r \<in> set (ListByIDs te ?ids (Some (limit_opts 10000)) d acc)"
    unfolding list_by_ids_exact [OF dist] by force
  moreover have "equal_fold (t_Host (row_target te r)) h \<and> t_Port (row_target te r) = p \<and> t_Protocol (row_target te r) = pr"
    using r by (simp add: row_target_def equal_fold_def)
  ultimately show ?thesis unfolding duplicate_of_def ids by (auto simp: find_None_iff)
qed

lemma grp_Get_exists: "(\<exists>y. grp_Get g db = Inr y) \<longleftrightarrow> group_exists g db"
  by (induction "db_groups db") (auto simp: grp_Get_def group_exists_def find_None_iff split: option.splits dest!: find_in_set intro: rev_image_eqI)

text \<open>
  Importing a row again after it was created, in earnest or as a dry run, is reported as skipped
  and changes nothing, as long as the group has at most 10000 targets.
\<close>

theorem reimport_skips:
  assumes "db_inv db" and "createTargetFromImport env nonces cd row False db = Some (Inr tid, db')" and "im_Port row \<le> 65535"
    and "length (filter (\<lambda>(g, _). g = trim_space (im_GroupID row)) (db_group_targets db')) \<le> 10000"
  shows "\<exists>t. createTargetFromImport env nonces' cd row dryRun db' = Some (Inl (errTargetImportExists t), db')"
proof (rule createTargetFromImport_cases [of env nonces cd row False db])
  fix protocol c
  let ?g = "trim_space (im_GroupID row)" and ?i = "import_input row protocol c"
  let ?d = "\<lambda>db. duplicate_of (se_target env) (ge_list_limit (se_guard env)) ?g (trim_space (im_Host row)) (in_Port ?i) protocol db"
  assume c: "createTargetFromImport env nonces cd row False db = import_create env nonces row ?i db" "group_exists ?g db"
    "parseProtocolField (im_Protocol row) = Some protocol"
    "applyStoredCredentials (se_target env) cd (trim_space (im_CredentialIdentityID row)) (trim_space (im_SSHKeyID row)) True
        \<lparr>cr_Username = trim_space (im_SSHUsername row), cr_Password = im_SSHPassword row, cr_PrivateKey = [], cr_Passphrase = []\<rparr> = Inr c"
    "trim_space (im_Name row) \<noteq> []" "trim_space (im_Host row) \<noteq> []" "?g \<noteq> []"
  obtain j t acc where cr: "tgt_CreateWithPath (se_target env) (nonces j) tid ?g ?i db = Inr (t, acc)"
    and fin: "import_finish (sv_uni env) row tid acc = (None, db')"
    using import_create_cases [OF assms(1) c(2), of env nonces ?i] assms(2) c(1) by (metis Pair_inject option.inject sum.distinct(1) sum.inject(2))
  have add: "adds_target tid db db'" "validateTargetID tid = None"
    using adds_target_create [OF assms(1) cr] import_finish_adds [of tid db acc "sv_uni env" row] fin by simp_all
  then have "db_groups db' = db_groups db" by (auto simp: adds_target_def adds_target_iff)
  then obtain y where y: "grp_Get ?g db' = Inr y" using c(2) grp_Get_exists by (metis group_exists_def)
  have port: "in_Port ?i \<le> 65535" using assms(3) by (simp add: import_input_def defaultPortFor_def)
  have "in_Host ?i = trim_space (im_Host row)" "in_Protocol ?i = protocol" by (simp_all add: import_input_def)
  then have "?d db' \<noteq> None" using holds_duplicate [OF import_finish_holds [OF cr assms(1) fin] add(2) port assms(4)] by simp
  then obtain t where "?d db' = Some t" by blast
  then show ?thesis using c y by (intro exI [of _ "t_ID t"]) (simp add: createTargetFromImport_def Let_def)
qed (use assms(2) in simp_all)

subsection \<open>An export can be imported\<close>

text \<open>
  A cell is changed on its way through an export exactly when it starts with a quote before a
  character that starts a formula: the quote was not put there by the export, and the import cuts it.
\<close>

theorem csv_cell_roundtrip: "csvUnsafe (csvSafe s) = s \<longleftrightarrow> \<not> (\<exists>c t. s = CHR 0x27 # c # t \<and> formula_char c)"
proof (cases s)
  case (Cons a r)
  have q: "\<not> formula_char (CHR 0x27)" by (simp add: formula_char_def)
  show ?thesis
  proof (cases "formula_char a")
    case True
    then show ?thesis using Cons q by (auto simp: csvSafe_def csvUnsafe_def)
  next
    case False
    then show ?thesis using Cons by (cases r) (auto simp: csvSafe_def csvUnsafe_def)
  qed
qed (simp add: csvSafe_def csvUnsafe_def)

definition clean_field :: "string \<Rightarrow> bool" where
  "clean_field s = (trim_space s = s \<and> \<not> (length s \<ge> 2 \<and> s ! 0 = CHR 0x27 \<and> formula_char (s ! 1)))"

lemma trim_right_id: "trim_space s = s \<Longrightarrow> trim_right s = s \<and> trim_left s = s"
proof -
  assume a: "trim_space s = s"
  obtain p where p: "s = p @ trim_left s" using strip_front_suffix [of s space_runes] by (auto simp: trim_left_def)
  obtain q where q: "trim_left s = trim_right (trim_left s) @ q" using trim_right_prefix by blast
  have "length (trim_left s) \<le> length s" using p by (metis le_add2 length_append)
  moreover have "length s \<le> length (trim_left s)" using q a by (metis length_append le_add1 trim_space_def)
  ultimately have "p = []" using p by (metis append_self_conv2 length_append length_greater_0_conv add_cancel_left_left le_antisym)
  then have "trim_left s = s" using p by simp
  then show ?thesis using a by (simp add: trim_space_def)
qed

lemma trim_quoted:
  assumes "trim_space s = s"
  shows "trim_space (CHR 0x27 # s) = CHR 0x27 # s"
proof -
  let ?q = "CHR 0x27" and ?R = "map rev space_runes"
  have sp: "\<forall>w \<in> set space_runes. w \<noteq> [] \<longrightarrow> \<not> visible (hd w)" "\<forall>w \<in> set ?R. ?q \<notin> set w" by (simp_all add: space_runes_def visible_def)
  have "trim_left (?q # s) = ?q # s" unfolding trim_left_def by (rule strip_front_visible [OF sp(1)]) (simp add: visible_def)
  moreover have "\<not> starts_in ?R (rev s @ [?q])"
  proof
    assume "starts_in ?R (rev s @ [?q])"
    then obtain w where w: "w \<in> set ?R" "w \<noteq> []" "has_prefix (rev s @ [?q]) w" by (auto simp: starts_in_def)
    then obtain t where t: "rev s @ [?q] = w @ t" by (auto elim: has_prefixE)
    have "t \<noteq> []" using t w(1,2) sp(2) by (metis append_Nil2 in_set_conv_decomp)
    then obtain t' where "t = t' @ [?q]" using t by (metis append_butlast_last_id last_appendR last_snoc)
    then have "rev s = w @ t'" using t by simp
    then have "starts_in ?R (rev s)" using w(1,2) unfolding starts_in_def by (intro bexI [of _ w]) (auto simp: has_prefix_def)
    moreover have "rev s = strip_front ?R (rev s)" using trim_right_id [OF assms] by (simp add: trim_right_def) (metis rev_rev_ident)
    ultimately show False using strip_front_clean [of ?R "rev s"] by simp
  qed
  then have "trim_right (?q # s) = ?q # s" by (simp add: trim_right_def strip_front_id)
  ultimately show ?thesis by (simp add: trim_space_def)
qed

lemma clean_cell: "clean_field s \<Longrightarrow> csvUnsafe (trim_space (csvSafe s)) = s"
proof -
  assume c: "clean_field s"
  have "trim_space (csvSafe s) = csvSafe s" using c trim_quoted by (auto simp: csvSafe_def clean_field_def)
  moreover have "csvUnsafe (csvSafe s) = s"
    unfolding csv_cell_roundtrip using c by (auto simp: clean_field_def)
  ultimately show ?thesis by simp
qed

lemma tag_fields_acc: "list_all (\<lambda>c. \<not> tag_sep c) w \<Longrightarrow> tag_fields v (w @ s) = tag_fields (v @ w) s"
  by (induction w arbitrary: v) simp_all

lemma tag_fields_join: "list_all (\<lambda>t. t \<noteq> [] \<and> list_all (\<lambda>c. \<not> tag_sep c) t) ts \<Longrightarrow> tag_fields [] (join_space ts) = ts"
proof (induction ts rule: join_space.induct)
  case (2 w)
  then show ?case using tag_fields_acc [of w "[]" "[]"] by simp
next
  case (3 w v ws)
  then show ?case using tag_fields_acc [of w "[]" "CHR '' '' # join_space (v # ws)"] by (simp add: tag_sep_def)
qed simp

definition clean_row :: "targetExportRow \<Rightarrow> bool" where
  "clean_row r = (clean_field (er_Name r) \<and> clean_field (er_Host r) \<and> er_Port r \<le> 65535
     \<and> er_Protocol r \<in> {ProtocolSSH, ProtocolTelnet, ProtocolVNC, ProtocolTFTP, ProtocolRDP, ProtocolFTP}
     \<and> clean_field (er_GroupID r) \<and> clean_field (er_Path r) \<and> clean_field (join_space (er_Tags r))
     \<and> list_all (\<lambda>t. t \<noteq> [] \<and> list_all (\<lambda>c. \<not> tag_sep c) t) (er_Tags r) \<and> clean_field (er_SSHUsername r)
     \<and> clean_field (er_SSHHostKeyFingerprint r) \<and> clean_field (er_CredentialIdentityID r) \<and> clean_field (er_SSHKeyID r))"

text \<open>The row of an import that stands for an exported target; passwords are not exported.\<close>

definition as_import :: "targetExportRow \<Rightarrow> targetImportRow" where
  "as_import r = \<lparr>im_Name = er_Name r, im_Host = er_Host r, im_Port = er_Port r, im_Protocol = er_Protocol r, im_GroupID = er_GroupID r,
     im_Path = er_Path r, im_Tags = er_Tags r, im_SSHUsername = er_SSHUsername r, im_SSHPassword = [], im_SFTPEnabled = Some (er_SFTPEnabled r),
     im_FTPEnabled = Some (er_FTPEnabled r), im_TFTPEnabled = Some (er_TFTPEnabled r), im_SSHHostKeyFingerprint = er_SSHHostKeyFingerprint r,
     im_CredentialIdentityID = er_CredentialIdentityID r, im_SSHKeyID = er_SSHKeyID r\<rparr>"

definition csv_index :: "(string, nat) gomap" where
  "csv_index = zip targetCSVHeader [0..<15]"

lemma header_columns: "list_all (\<lambda>h. column_name h = h) targetCSVHeader"
  by (simp add: targetCSVHeader_def column_name_def has_prefix_def bom_def trim_space_visible visible_def to_lower_def lower_char_def)

lemma update_new: "k \<notin> fst ` set m \<Longrightarrow> AList.update k v m = m @ [(k, v)]"
  by (induction m) auto

lemma header_index_csv: "header_index 0 targetCSVHeader [] = csv_index"
proof -
  have "header_index n hs m = m @ zip hs [n..<n + length hs]"
    if "list_all (\<lambda>h. column_name h = h) hs" "distinct hs" "set hs \<inter> fst ` set m = {}" for n hs m
    using that
  proof (induction hs arbitrary: n m)
    case (Cons h hs)
    have "AList.update h n m = m @ [(h, n)]" using Cons.prems(3) by (intro update_new) auto
    moreover have "[n..<n + length (h # hs)] = n # [Suc n..<Suc n + length hs]" by (simp add: upt_conv_Cons del: upt_Suc)
    ultimately show ?case using Cons.IH [of "m @ [(h, n)]" "Suc n"] Cons.prems by (simp add: Cons.prems)
  qed simp
  note run = this [of targetCSVHeader "[]" 0]
  have "length targetCSVHeader = 15" "distinct targetCSVHeader" by (simp_all add: targetCSVHeader_def)
  then show ?thesis using run header_columns by (simp add: csv_index_def)
qed

lemma csv_cells:
  "cell csv_index (export_cells r) ''name'' = csvUnsafe (trim_space (csvSafe (er_Name r)))"
  "cell csv_index (export_cells r) ''host'' = csvUnsafe (trim_space (csvSafe (er_Host r)))"
  "cell csv_index (export_cells r) ''port'' = csvUnsafe (trim_space (Itoa (er_Port r)))"
  "cell csv_index (export_cells r) ''protocol'' = csvUnsafe (trim_space (er_Protocol r))"
  "cell csv_index (export_cells r) ''group_id'' = csvUnsafe (trim_space (csvSafe (er_GroupID r)))"
  "cell csv_index (export_cells r) ''path'' = csvUnsafe (trim_space (csvSafe (er_Path r)))"
  "cell csv_index (export_cells r) ''tags'' = csvUnsafe (trim_space (csvSafe (join_space (er_Tags r))))"
  "cell csv_index (export_cells r) ''ssh_username'' = csvUnsafe (trim_space (csvSafe (er_SSHUsername r)))"
  "cell csv_index (export_cells r) ''ssh_password'' = csvUnsafe (trim_space [])"
  "cell csv_index (export_cells r) ''sftp_enabled'' = csvUnsafe (trim_space (FormatBool (er_SFTPEnabled r)))"
  "cell csv_index (export_cells r) ''ftp_enabled'' = csvUnsafe (trim_space (FormatBool (er_FTPEnabled r)))"
  "cell csv_index (export_cells r) ''tftp_enabled'' = csvUnsafe (trim_space (FormatBool (er_TFTPEnabled r)))"
  "cell csv_index (export_cells r) ''ssh_host_key_fingerprint'' = csvUnsafe (trim_space (csvSafe (er_SSHHostKeyFingerprint r)))"
  "cell csv_index (export_cells r) ''credential_identity_id'' = csvUnsafe (trim_space (csvSafe (er_CredentialIdentityID r)))"
  "cell csv_index (export_cells r) ''ssh_key_id'' = csvUnsafe (trim_space (csvSafe (er_SSHKeyID r)))"
  by (simp_all add: cell_def csv_index_def targetCSVHeader_def upt_rec export_cells_def)

lemma port_cell: "p \<le> 65535 \<Longrightarrow> parse_port (csvUnsafe (trim_space (Itoa p))) = Some p"
proof -
  assume p: "p \<le> 65535"
  have v: "digits_val (Itoa p) = int p" "list_all is_digit (Itoa p)" "Itoa p \<noteq> []" using Itoa_value [of p] by simp_all
  have dig: "visible d" "d \<noteq> CHR ''-''" "d \<noteq> CHR ''+''" "d \<noteq> CHR 0x27" if "is_digit d" for d
    using that by (auto simp: is_digit_def visible_def less_eq_char_def)
  have t: "trim_space (Itoa p) = Itoa p" by (rule trim_space_visible) (use v(2,3) dig in \<open>auto simp: list_all_iff\<close>)
  have "Itoa p ! 0 \<noteq> CHR 0x27" using v(2,3) dig(4) by (simp add: list_all_iff)
  then have "csvUnsafe (Itoa p) = Itoa p" by (simp add: csvUnsafe_def)
  moreover have "atoi (Itoa p) = Some (int p)" using v p dig by (cases "Itoa p") (auto simp: atoi_def Let_def)
  ultimately show ?thesis using t v(3) p by (simp add: parse_port_def)
qed

lemma bool_cell: "parseBoolField (csvUnsafe (trim_space (FormatBool b))) = Some (Some b)"
proof -
  have "trim_space ''true'' = ''true''" "trim_space ''false'' = ''false''" by (simp_all add: trim_space_visible visible_def)
  moreover have "to_lower ''true'' = ''true''" "to_lower ''false'' = ''false''" by (simp_all add: to_lower_def lower_char_def)
  ultimately show ?thesis by (simp add: FormatBool_def csvUnsafe_def parseBoolField_def)
qed

lemma protocol_cell:
  "p \<in> {ProtocolSSH, ProtocolTelnet, ProtocolVNC, ProtocolTFTP, ProtocolRDP, ProtocolFTP} \<Longrightarrow> csvUnsafe (trim_space p) = p"
  by (auto simp: ProtocolSSH_def ProtocolTelnet_def ProtocolVNC_def ProtocolTFTP_def ProtocolRDP_def ProtocolFTP_def
    trim_space_visible visible_def csvUnsafe_def)

lemma record_roundtrip:
  assumes "clean_row r"
  shows "parse_record csv_index (export_cells r) = Inr (as_import r)"
proof -
  have c: "clean_field (er_Name r)" "clean_field (er_Host r)" "er_Port r \<le> 65535" "clean_field (er_GroupID r)" "clean_field (er_Path r)"
    "clean_field (join_space (er_Tags r))" "clean_field (er_SSHUsername r)" "clean_field (er_SSHHostKeyFingerprint r)"
    "clean_field (er_CredentialIdentityID r)" "clean_field (er_SSHKeyID r)"
    and p: "er_Protocol r \<in> {ProtocolSSH, ProtocolTelnet, ProtocolVNC, ProtocolTFTP, ProtocolRDP, ProtocolFTP}"
    and t: "list_all (\<lambda>t. t \<noteq> [] \<and> list_all (\<lambda>c. \<not> tag_sep c) t) (er_Tags r)"
    using assms unfolding clean_row_def by blast+
  have "csvUnsafe (trim_space []) = []" by (simp add: csvUnsafe_def)
  then show ?thesis
    unfolding parse_record_def Let_def csv_cells clean_cell [OF c(1)] clean_cell [OF c(2)] clean_cell [OF c(4)] clean_cell [OF c(5)]
      clean_cell [OF c(6)] clean_cell [OF c(7)] clean_cell [OF c(8)] clean_cell [OF c(9)] clean_cell [OF c(10)] protocol_cell [OF p]
    by (simp add: port_cell [OF c(3)] bool_cell tag_fields_join [OF t] as_import_def)
qed

text \<open>
  C24. What is exported as CSV can be imported: for a CSV codec that reads back the records it wrote,
  parsing an export gives, row by row, the exported targets without their passwords, as long as no
  cell has white space around it or a leading quote of its own before a formula character.
\<close>

theorem csv_export_roundtrip:
  assumes "bk_csv_read env (bk_csv_write env (targetCSVHeader # map export_cells rows)) = Some (targetCSVHeader # map export_cells rows)"
    and "list_all clean_row rows"
  shows "parseTargetCSV (bk_csv_read env) (bk_csv_write env (targetCSVHeader # map export_cells rows)) = Inr (map as_import rows)"
proof -
  have "parse_records csv_index (map export_cells rs) = Inr (map as_import rs)" if "list_all clean_row rs" for rs
    using that
  proof (induction rs)
    case (Cons r rs)
    have "export_cells r \<noteq> [] \<and> length (export_cells r) \<noteq> 1" by (simp add: export_cells_def)
    then show ?case using Cons record_roundtrip [of r] by simp
  qed simp
  moreover have "has_key csv_index ''name''" by (simp add: csv_index_def targetCSVHeader_def upt_rec)
  ultimately show ?thesis using assms by (simp add: parseTargetCSV_def header_index_csv Let_def)
qed

subsection \<open>What a dry run does not check\<close>

text \<open>
  A dry run stops before the store validates the target: a row it calls valid is refused by the import
  when its address is not acceptable.
\<close>

theorem dry_run_not_validated:
  assumes "db_inv db" and "createTargetFromImport env nonces cd row True db = Some (Inr [], db)"
    and "validateHost (te_restricted (se_target env)) (trim_space (im_Host row)) \<noteq> None"
  shows "\<exists>e. createTargetFromImport env nonces cd row False db = Some (Inl e, db)"
proof (rule createTargetFromImport_cases [of env nonces cd row False db])
  fix protocol c
  let ?i = "import_input row protocol c"
  assume c: "createTargetFromImport env nonces cd row False db = import_create env nonces row ?i db" "group_exists (trim_space (im_GroupID row)) db"
  have "tgt_CreateWithPath (se_target env) ns tid g ?i db \<noteq> Inr x" for ns tid g x
    using assms(3) by (auto simp: tgt_CreateWithPath_def validate_input_def import_input_def split: option.splits)
  then show ?thesis using import_create_cases [OF assms(1) c(2), of env nonces ?i] c(1) by metis
qed auto

subsection \<open>Examples\<close>

definition demo_export :: targetExportRow where
  "demo_export = \<lparr>er_ID = ''sw1'', er_Name = ''=sw'', er_Host = ''10.0.0.1'', er_Port = 22, er_Protocol = ProtocolSSH, er_GroupID = ''net'', er_Path = ''net'',
     er_Tags = [''a'', ''b''], er_SSHUsername = [], er_SFTPEnabled = True, er_FTPEnabled = False, er_TFTPEnabled = False,
     er_SSHHostKeyFingerprint = [], er_CredentialIdentityID = [], er_SSHKeyID = [], er_HasStoredCredentials = False\<rparr>"

definition demo_bulk :: bulk_env where
  "demo_bulk = \<lparr>bk_server = demo_senv, bk_csv_read = (\<lambda>_. Some [targetCSVHeader, export_cells demo_export]), bk_csv_write = (\<lambda>_. ''csv''),
     bk_json_array = (\<lambda>_. None), bk_json_wrapper = (\<lambda>_. None), bk_dial = (\<lambda>_ _. (0, None))\<rparr>"

theorem csv_export_roundtrip_witness:
  "csvSafe (er_Name demo_export) = CHR 0x27 # ''=sw''
   \<and> parseTargetCSV (bk_csv_read demo_bulk) (bk_csv_write demo_bulk [targetCSVHeader, export_cells demo_export]) = Inr [as_import demo_export]"
proof -
  have "clean_field ''=sw''" "clean_field ''10.0.0.1''" "clean_field ''net''" "clean_field ''a b''" "clean_field []"
    by (simp_all add: clean_field_def trim_space_visible visible_def)
  then have "clean_row demo_export" by (simp add: clean_row_def demo_export_def tag_sep_def)
  then show ?thesis
    using csv_export_roundtrip [of demo_bulk "[demo_export]"] by (simp add: demo_bulk_def) (simp add: demo_export_def csvSafe_def formula_char_def)
qed


end
