(* ===== verification/Sharing_Handlers.thy ===== *)
theory Sharing_Handlers
  imports Server_Admin Sharing_Service Client_Pool
begin

text \<open>
  Sharing a terminal session over HTTP (\<open>src/internal/httpapi/sharing.go\<close>,
  \<open>sharing_join_common.go\<close>, \<open>sharing_bridges.go\<close>, \<open>sharing_allow_rejoin.go\<close>) and attaching to
  one (\<open>terminal.go\<close>): the handlers over the session manager, the registry of rooms, the
  invitation table and the live bridges.  A handler is one function from the application to its
  answer and the application afterwards; the attach channel of a session and the bridge that drains
  it are separate steps, because the code puts them into different goroutines.

  What a request takes from outside is the record \<open>request_ext\<close>: the clock, the random tokens
  in the order they are drawn and the sockets whose writes fail.  One request reads one time.
  Events pushed to browsers and audit lines change nothing here and are left out, as are storage
  faults and a failing random source.
\<close>

subsection \<open>State\<close>

record ShareApp =
  sh_db :: AuthDB
  sh_terminal :: "Manager option"
  sh_rooms :: Registry
  sh_store :: "SQLiteStore option"
  sh_bridges :: "(string, clientPool) gomap"
  sh_attach :: "(string, (AttachMode \<times> string) list) gomap"

record share_env =
  sx_guard :: guard_env
  sx_targets :: tenv
  sx_HashToken :: "string \<Rightarrow> string"
  sx_max_ttl :: string
  sx_require_recording :: string
  sx_recordings_dir :: string

record request_ext =
  x_now :: instant
  x_clock :: "string \<Rightarrow> instant"
  x_dead :: "nat list"
  x_token :: "nat \<Rightarrow> string"

type_synonym 'a answer = "(http_error + 'a) \<times> ShareApp"

subsection \<open>Live bridges\<close>

definition br_Register :: "string \<Rightarrow> clientPool \<Rightarrow> ShareApp \<Rightarrow> ShareApp" where
  "br_Register sid b s = s\<lparr>sh_bridges := AList.update sid b (sh_bridges s)\<rparr>"

definition br_Unregister :: "string \<Rightarrow> ShareApp \<Rightarrow> ShareApp" where
  "br_Unregister sid s = s\<lparr>sh_bridges := AList.delete sid (sh_bridges s)\<rparr>"

definition br_Get :: "string \<Rightarrow> ShareApp \<Rightarrow> clientPool option" where
  "br_Get sid s = lookup (sh_bridges s) sid"

text \<open>A call on the controller, if one is registered.\<close>

definition on_bridge :: "string \<Rightarrow> (clientPool \<Rightarrow> clientPool) \<Rightarrow> ShareApp \<Rightarrow> ShareApp" where
  "on_bridge sid f s = (case br_Get sid s of None \<Rightarrow> s | Some b \<Rightarrow> br_Register sid (f b) s)"

text \<open>A change of the room behind a pointer that the registry holds.\<close>

definition set_room :: "string \<Rightarrow> Room \<Rightarrow> ShareApp \<Rightarrow> ShareApp" where
  "set_room sid room s = s\<lparr>sh_rooms := AList.update sid room (sh_rooms s)\<rparr>"

subsection \<open>Settings\<close>

definition invitationDefaultTTL :: duration where "invitationDefaultTTL = 15 * minute"

definition invitationMaxTTLDefault :: duration where "invitationMaxTTLDefault = 4 * hour"

definition invitationMaxTTL :: "string \<Rightarrow> duration" where
  "invitationMaxTTL env = (let v = trim_space (trim_space env) in
     if v = [] then invitationMaxTTLDefault
     else case atoi v of None \<Rightarrow> invitationMaxTTLDefault
       | Some n \<Rightarrow> if n \<le> 0 then invitationMaxTTLDefault else wrap64 (n * second))"

definition requireRecordingWithViewers :: "string \<Rightarrow> bool" where
  "requireRecordingWithViewers env = (let v = trim_space env in
     v = ''1'' \<or> equal_fold v ''true'' \<or> equal_fold v ''yes'')"

definition terminalSessionRecordingEnabled :: "string \<Rightarrow> bool" where
  "terminalSessionRecordingEnabled env = (trim_space env \<noteq> [])"

definition sharingRecordingRequired :: "share_env \<Rightarrow> bool" where
  "sharingRecordingRequired env =
     (requireRecordingWithViewers (sx_require_recording env) \<and> \<not> terminalSessionRecordingEnabled (sx_recordings_dir env))"

text \<open>The validity window of a request: the product of seconds and nanoseconds has 64 bits.\<close>

definition requested_ttl :: "share_env \<Rightarrow> int \<Rightarrow> duration" where
  "requested_ttl env seconds =
     (let ttl = (if seconds > 0 then wrap64 (seconds * second) else invitationDefaultTTL);
          max = invitationMaxTTL (sx_max_ttl env)
      in if ttl > max then max else ttl)"

subsection \<open>Answers\<close>

record sharingResponseInvitation =
  ri_ID :: string
  ri_Mode :: string
  ri_OwnerUserID :: string
  ri_InviteeUserID :: string
  ri_InviteeUsername :: string
  ri_InviteGroupID :: string
  ri_InviteTag :: string
  ri_IsLink :: bool
  ri_LinkUnlimited :: bool
  ri_MaxUses :: "int option"
  ri_UseCount :: int
  ri_ExpiresAt :: int
  ri_CreatedAt :: int
  ri_UsedAt :: int
  ri_RevokedAt :: int
  ri_Token :: string
  ri_JoinURL :: string

record sharingResponseParticipant =
  rp_UserID :: string
  rp_Username :: string
  rp_Role :: string
  rp_JoinedAt :: int
  rp_IsWriter :: bool

record sharingResponseWriteRequest =
  rw_ID :: string
  rw_RequesterID :: string
  rw_RequesterName :: string
  rw_Status :: string
  rw_RequestedAt :: int
  rw_DecidedAt :: int
  rw_DecidedBy :: string

definition timestamp :: "instant \<Rightarrow> int" where
  "timestamp t = (if is_zero t then 0 else unix t)"

definition encodeInvitation :: "Invitation \<Rightarrow> string \<Rightarrow> sharingResponseInvitation" where
  "encodeInvitation i inviteeUsername =
     \<lparr>ri_ID = i_ID i, ri_Mode = i_Mode i, ri_OwnerUserID = i_OwnerUserID i,
      ri_InviteeUserID = (if IsLink i then [] else i_InviteeUserID i),
      ri_InviteeUsername = (if IsLink i then [] else inviteeUsername),
      ri_InviteGroupID = i_InviteGroupID i, ri_InviteTag = i_InviteTag i,
      ri_IsLink = IsLink i, ri_LinkUnlimited = (IsLink i \<and> LinkUnlimited i),
      ri_MaxUses = (if IsLink i \<and> \<not> LinkUnlimited i then i_MaxUses i else None),
      ri_UseCount = i_UseCount i, ri_ExpiresAt = timestamp (i_ExpiresAt i),
      ri_CreatedAt = timestamp (i_CreatedAt i), ri_UsedAt = timestamp (i_UsedAt i),
      ri_RevokedAt = timestamp (i_RevokedAt i), ri_Token = [], ri_JoinURL = []\<rparr>"

fun status_string :: "WriteRequestStatus \<Rightarrow> string" where
  "status_string WriteRequestPending = ''pending''"
| "status_string WriteRequestGranted = ''granted''"
| "status_string WriteRequestDenied = ''denied''"
| "status_string WriteRequestCanceled = ''canceled''"

fun role_string :: "Role \<Rightarrow> string" where
  "role_string RoleOwner = ''owner''"
| "role_string RoleViewer = ''viewer''"

definition encodeWriteRequest :: "WriteRequest \<Rightarrow> sharingResponseWriteRequest" where
  "encodeWriteRequest wr =
     \<lparr>rw_ID = wr_ID wr, rw_RequesterID = wr_RequesterID wr, rw_RequesterName = wr_RequesterName wr,
      rw_Status = status_string (wr_Status wr), rw_RequestedAt = timestamp (wr_RequestedAt wr),
      rw_DecidedAt = timestamp (wr_DecidedAt wr), rw_DecidedBy = wr_DecidedBy wr\<rparr>"

definition roomWriterID :: "Room option \<Rightarrow> string" where
  "roomWriterID room = (case room of None \<Rightarrow> [] | Some r \<Rightarrow> r_writerID r)"

definition kickedUserIDs :: "Room option \<Rightarrow> string list" where
  "kickedUserIDs room = (case room of None \<Rightarrow> [] | Some r \<Rightarrow> KickedUserIDs r)"

definition newSharingID :: "string \<Rightarrow> string" where
  "newSharingID plain = (if length plain > 22 then take 22 plain else plain)"

definition usernameFor :: "string \<Rightarrow> AuthDB \<Rightarrow> string" where
  "usernameFor userID db = (case GetByID userID db of Inl _ \<Rightarrow> userID
     | Inr u \<Rightarrow> if u_Username u = [] then userID else u_Username u)"

text \<open>\<open>url.QueryEscape\<close> and the encoded query, whose parameters \<open>url.Values\<close> sorts by name.\<close>

definition hex_digit :: "nat \<Rightarrow> char" where
  "hex_digit n = (if n < 10 then char_of (48 + n) else char_of (55 + n))"

definition query_escape_byte :: "char \<Rightarrow> string" where
  "query_escape_byte c =
     (if is_alnum c \<or> c \<in> {CHR ''-'', CHR ''_'', CHR ''.'', CHR ''~''} then [c]
      else if c = CHR '' '' then ''+''
      else [CHR ''%'', hex_digit (byte c div 16), hex_digit (byte c mod 16)])"

definition query_escape :: "string \<Rightarrow> string" where
  "query_escape s = concat (map query_escape_byte s)"

definition encode_query :: "(string \<times> string) list \<Rightarrow> string" where
  "encode_query q = join_byte (CHR ''&'') (map (\<lambda>(k, v). query_escape k @ ''='' @ query_escape v) (sort_key fst q))"

definition buildInvitationJoinURL :: "string \<Rightarrow> (string \<times> string) list \<Rightarrow> string" where
  "buildInvitationJoinURL path q = (if q = [] then path else path @ ''?'' @ encode_query q)"

definition invitationJoinURL :: "string \<Rightarrow> string \<Rightarrow> string" where
  "invitationJoinURL sessionID plainToken = buildInvitationJoinURL ''/terminal''
     [(''session_id'', sessionID), (''mode'', ''viewer''), (''invite'', plainToken)]"

subsection \<open>Who may do what with a session\<close>

definition caller :: "share_env \<Rightarrow> request_ext \<Rightarrow> http_req \<Rightarrow> ShareApp \<Rightarrow> string \<times> ShareApp" where
  "caller env x r s = (case currentUserID (sx_guard env) r (x_now x) (sh_db s) of (uid, db) \<Rightarrow>
     (trim_space uid, s\<lparr>sh_db := db\<rparr>))"

definition live_session :: "string \<Rightarrow> ShareApp \<Rightarrow> Session option" where
  "live_session sid s = (case sh_terminal s of None \<Rightarrow> None
     | Some m \<Rightarrow> (case mgr_Get sid m of None \<Rightarrow> None | Some ref \<Rightarrow> Some (m_heap m ! ref)))"

definition can_access :: "share_env \<Rightarrow> request_ext \<Rightarrow> string \<Rightarrow> string \<Rightarrow> ShareApp \<Rightarrow> bool" where
  "can_access env x userID targetID s = userCanAccessTarget (sx_guard env) userID targetID (x_now x) (sh_db s)"

definition loadOwnedTerminalSession ::
  "share_env \<Rightarrow> request_ext \<Rightarrow> http_req \<Rightarrow> string \<Rightarrow> ShareApp \<Rightarrow> (Session \<times> string) answer" where
  "loadOwnedTerminalSession env x r sessionID s = (case caller env x r s of (userID, s) \<Rightarrow>
     if userID = [] then (Inl (401, ''common.unauthorized''), s)
     else case live_session sessionID s of
       None \<Rightarrow> (Inl (404, ''sessions.notFoundOrAccessDenied''), s)
     | Some t \<Rightarrow>
       if Session.s_UserID t \<noteq> userID then (Inl (404, ''sessions.notFoundOrAccessDenied''), s)
       else if \<not> can_access env x userID (s_TargetID t) s then (Inl (403, ''common.forbidden''), s)
       else (Inr (t, userID), s))"

definition loadParticipatingTerminalSession ::
  "share_env \<Rightarrow> request_ext \<Rightarrow> http_req \<Rightarrow> string \<Rightarrow> ShareApp \<Rightarrow> (Session \<times> Room option \<times> string) answer" where
  "loadParticipatingTerminalSession env x r sessionID s = (case caller env x r s of (userID, s) \<Rightarrow>
     if userID = [] then (Inl (401, ''common.unauthorized''), s)
     else case live_session sessionID s of
       None \<Rightarrow> (Inl (404, ''sessions.notFoundOrAccessDenied''), s)
     | Some t \<Rightarrow>
       let room = reg_Get (s_id t) (sh_rooms s) in
       if Session.s_UserID t \<noteq> userID \<and> (case room of None \<Rightarrow> True | Some rm \<Rightarrow> \<not> IsParticipant userID rm)
       then (Inl (404, ''sessions.notFoundOrAccessDenied''), s)
       else (Inr (t, room, userID), s))"

definition ensureRoomFor :: "request_ext \<Rightarrow> Session \<Rightarrow> ShareApp \<Rightarrow> Room \<times> ShareApp" where
  "ensureRoomFor x t s =
     (let owner = Session.s_UserID t in
      case EnsureRoom (s_id t) (s_TargetID t) owner (usernameFor owner (sh_db s)) (x_now x) (sh_rooms s) of
        (room, reg) \<Rightarrow> (room, s\<lparr>sh_rooms := reg\<rparr>))"

text \<open>Removal from the room, then from the bridge, then the bridge learns the writer.\<close>

definition bridge_drop :: "request_ext \<Rightarrow> string \<Rightarrow> string \<Rightarrow> string \<Rightarrow> ShareApp \<Rightarrow> ShareApp" where
  "bridge_drop x sid userID writerID s =
     on_bridge sid (\<lambda>b. Client_Pool.SetWriter writerID (Client_Pool.DetachUser (x_dead x) userID b)) s"

definition disconnectSessionUser :: "request_ext \<Rightarrow> string \<Rightarrow> string \<Rightarrow> ShareApp \<Rightarrow> ShareApp" where
  "disconnectSessionUser x sid userID s = (case reg_Get sid (sh_rooms s) of None \<Rightarrow> s
     | Some room \<Rightarrow>
       if userID = [] then s
       else let room = or_unchanged room (\<lambda>rm. rm) (RemoveParticipant userID (x_clock x) room)
         in bridge_drop x sid userID (r_writerID room) (set_room sid room s))"

subsection \<open>Who can be invited\<close>

datatype invite_error =
    errInviteTagInvalid | errInviteTagNotForTarget | errInviteGroupInvalid | errInviteGroupNotForTarget

definition list_1000 :: "ListOpts option" where
  "list_1000 = Some \<lparr>lo_Limit = 1000, lo_Offset = 0, lo_AfterID = []\<rparr>"

definition invitableUserIDsForTarget :: "share_env \<Rightarrow> request_ext \<Rightarrow> string \<Rightarrow> ShareApp \<Rightarrow> string list" where
  "invitableUserIDsForTarget env x targetID s =
     (if targetID = [] then []
      else UserIDsForTarget targetID list_1000 (ge_list_limit (sx_guard env)) (x_now x) (a_access (sh_db s)))"

definition tagsGrantingTargetAccess :: "string \<Rightarrow> ShareApp \<Rightarrow> string list" where
  "tagsGrantingTargetAccess targetID s =
     (if targetID = [] then [] else TagsGrantingTargetAccess targetID (a_access (sh_db s)))"

definition invitableUserIDsForTag ::
  "share_env \<Rightarrow> request_ext \<Rightarrow> string \<Rightarrow> string \<Rightarrow> ShareApp \<Rightarrow> invite_error + string list" where
  "invitableUserIDsForTag env x targetID tag s =
     (let tag = trim_space tag in
      if tag = [] then Inl errInviteTagInvalid
      else if \<not> list_ex (\<lambda>t. t = tag) (tagsGrantingTargetAccess targetID s) then Inl errInviteTagNotForTarget
      else Inr (filter (\<lambda>uid. list_ex (\<lambda>ut. ut = tag) (TagsForUser uid (sh_db s)))
        (invitableUserIDsForTarget env x targetID s)))"

definition ownerBelongsToGroup :: "share_env \<Rightarrow> request_ext \<Rightarrow> string \<Rightarrow> string \<Rightarrow> ShareApp \<Rightarrow> bool" where
  "ownerBelongsToGroup env x ownerID groupID s =
     (if ownerID = [] \<or> groupID = [] then False
      else list_ex (\<lambda>g. g = groupID)
        (GroupIDsForUser ownerID None (ge_list_limit (sx_guard env)) (x_now x) (a_access (sh_db s))))"

fun ancestors_from :: "string \<Rightarrow> string list \<Rightarrow> string list" where
  "ancestors_from acc [] = []"
| "ancestors_from acc (p # ps) =
     (if p = [] then ancestors_from acc ps
      else let acc = (if acc = [] then p else acc @ ''/'' @ p) in acc # ancestors_from acc ps)"

definition ancestorGroupIDs :: "string \<Rightarrow> string list" where
  "ancestorGroupIDs groupID = ancestors_from [] (split_byte (CHR ''/'') (trim_byte (CHR ''/'') groupID))"

text \<open>The users of several groups, each once, in the order they are met.\<close>

fun collect_new :: "string list \<Rightarrow> string list \<Rightarrow> string list" where
  "collect_new acc [] = acc"
| "collect_new acc (u # us) = collect_new (if u \<in> set acc then acc else acc @ [u]) us"

definition group_members :: "share_env \<Rightarrow> request_ext \<Rightarrow> string \<Rightarrow> ShareApp \<Rightarrow> string list" where
  "group_members env x groupID s = sort (fold (\<lambda>g acc. collect_new acc
     (UserIDsForGroup g list_1000 (ge_list_limit (sx_guard env)) (x_now x) (a_access (sh_db s))))
     (ancestorGroupIDs groupID) [])"

definition invitableUserIDsForGroup ::
  "share_env \<Rightarrow> request_ext \<Rightarrow> string \<Rightarrow> string \<Rightarrow> string \<Rightarrow> ShareApp \<Rightarrow> invite_error + string list" where
  "invitableUserIDsForGroup env x ownerID targetID groupID s =
     (let groupID = trim_space groupID; acc = a_access (sh_db s) in
      if groupID = [] then Inl errInviteGroupInvalid
      else case grp_Get groupID acc of Inl _ \<Rightarrow> Inl errInviteGroupInvalid
      | Inr _ \<Rightarrow>
        if \<not> ownerBelongsToGroup env x ownerID groupID s then Inl errInviteGroupInvalid
        else if \<not> list_ex (\<lambda>tid. tid = targetID) (TargetIDsForGroup groupID None (ge_list_limit (sx_guard env)) acc)
          then Inl errInviteGroupNotForTarget
        else Inr (filter (\<lambda>uid. can_access env x uid targetID s) (group_members env x groupID s)))"

subsection \<open>Creating invitations\<close>

record createInvitationRequest =
  cr_Mode :: string
  cr_InviteeUserID :: string
  cr_InviteTag :: string
  cr_InviteGroupID :: string
  cr_TTLSeconds :: int
  cr_LinkMaxUses :: "int option"
  cr_LinkUnlimited :: bool

text \<open>
  The record of an invitation.  The \<open>k\<close>-th record of a request draws two tokens, one to hand out
  and one whose beginning is the identifier.  The handlers check that there is a store.
\<close>

definition new_invitation ::
  "request_ext \<Rightarrow> nat \<Rightarrow> Kind \<Rightarrow> string \<Rightarrow> string \<Rightarrow> string \<Rightarrow> string \<Rightarrow> string \<Rightarrow> string \<Rightarrow> Mode \<Rightarrow> duration \<Rightarrow> int option \<Rightarrow> Invitation" where
  "new_invitation x k kind sid tid ownerID invitee groupID inviteTag mode ttl linkMaxUses =
     \<lparr>i_ID = newSharingID (x_token x (2 * k + 1)), i_SessionID = sid, i_SessionKind = kind,
      i_TargetID = tid, i_OwnerUserID = ownerID, i_InviteeUserID = invitee,
      i_InviteGroupID = groupID, i_InviteTag = inviteTag, i_Mode = mode, i_MaxUses = linkMaxUses,
      i_UseCount = 0, i_ExpiresAt = x_now x + ttl, i_UsedAt = 0, i_RevokedAt = 0, i_CreatedAt = x_now x\<rparr>"

definition createInvitationRecord ::
  "share_env \<Rightarrow> request_ext \<Rightarrow> nat \<Rightarrow> Session \<Rightarrow> string \<Rightarrow> string \<Rightarrow> string \<Rightarrow> string \<Rightarrow> Mode \<Rightarrow> duration \<Rightarrow> int option
     \<Rightarrow> ShareApp \<Rightarrow> (Invitation \<times> string) answer" where
  "createInvitationRecord env x k t ownerID invitee groupID inviteTag mode ttl linkMaxUses s =
     (let i = new_invitation x k KindTerminal (s_id t) (s_TargetID t) ownerID invitee groupID inviteTag mode ttl linkMaxUses;
          plain = x_token x (2 * k)
      in case sh_store s of None \<Rightarrow> (Inl internal_error, s)
         | Some st \<Rightarrow> (case inv_Create i (sx_HashToken env plain) st of
             Inl _ \<Rightarrow> (Inl internal_error, s)
           | Inr st' \<Rightarrow> (Inr (i, plain), s\<lparr>sh_store := Some st'\<rparr>)))"

text \<open>One named invitation per member except the owner; a failure leaves the earlier ones in the table.\<close>

fun invite_members ::
  "share_env \<Rightarrow> request_ext \<Rightarrow> nat \<Rightarrow> Session \<Rightarrow> string \<Rightarrow> string \<Rightarrow> string \<Rightarrow> Mode \<Rightarrow> duration \<Rightarrow> string list
     \<Rightarrow> ShareApp \<Rightarrow> sharingResponseInvitation list answer" where
  "invite_members env x k t ownerID groupID tag mode ttl [] s = (Inr [], s)"
| "invite_members env x k t ownerID groupID tag mode ttl (uid # uids) s =
     (if uid = ownerID then invite_members env x k t ownerID groupID tag mode ttl uids s
      else and_then (createInvitationRecord env x k t ownerID uid groupID tag mode ttl None s) (\<lambda>(i, _) s.
        and_then (invite_members env x (Suc k) t ownerID groupID tag mode ttl uids s) (\<lambda>items s.
          (Inr (encodeInvitation i (usernameFor uid (sh_db s)) # items), s))))"

definition handleCreateTagInvitations ::
  "share_env \<Rightarrow> request_ext \<Rightarrow> Session \<Rightarrow> string \<Rightarrow> string \<Rightarrow> Mode \<Rightarrow> duration \<Rightarrow> ShareApp
     \<Rightarrow> sharingResponseInvitation list answer" where
  "handleCreateTagInvitations env x t ownerID tag mode ttl s =
     (case invitableUserIDsForTag env x (s_TargetID t) tag s of
        Inl e \<Rightarrow> (Inl (if e = errInviteTagInvalid then (400, ''sharing.inviteTagInvalid'')
            else if e = errInviteTagNotForTarget then (400, ''sharing.inviteTagNotForTarget'') else internal_error), s)
      | Inr memberIDs \<Rightarrow>
        if memberIDs = [] then (Inr [], s)
        else invite_members env x 0 t ownerID [] tag mode ttl memberIDs (snd (ensureRoomFor x t s)))"

definition handleCreateGroupInvitations ::
  "share_env \<Rightarrow> request_ext \<Rightarrow> Session \<Rightarrow> string \<Rightarrow> string \<Rightarrow> Mode \<Rightarrow> duration \<Rightarrow> ShareApp
     \<Rightarrow> sharingResponseInvitation list answer" where
  "handleCreateGroupInvitations env x t ownerID groupID mode ttl s =
     (case invitableUserIDsForGroup env x ownerID (s_TargetID t) groupID s of
        Inl e \<Rightarrow> (Inl (if e = errInviteGroupInvalid then (400, ''sharing.inviteGroupInvalid'')
            else if e = errInviteGroupNotForTarget then (400, ''sharing.inviteGroupNotForTarget'') else internal_error), s)
      | Inr memberIDs \<Rightarrow>
        if memberIDs = [] then (Inr [], s)
        else invite_members env x 0 t ownerID groupID [] mode ttl memberIDs (snd (ensureRoomFor x t s)))"

text \<open>What a named invitee must fulfil, in the order of the checks.\<close>

definition invitee_error :: "share_env \<Rightarrow> request_ext \<Rightarrow> string \<Rightarrow> string \<Rightarrow> string \<Rightarrow> ShareApp \<Rightarrow> http_error option" where
  "invitee_error env x ownerID invitee targetID s =
     (case GetByID invitee (sh_db s) of Inl _ \<Rightarrow> Some (400, ''sharing.inviteeNotFound'')
      | Inr _ \<Rightarrow>
        if invitee = ownerID then Some (400, ''sharing.cannotInviteSelf'')
        else if \<not> can_access env x invitee targetID s then Some (400, ''sharing.inviteeNoTargetAccess'')
        else None)"

text \<open>A single invitation: a named one also lifts an earlier removal from the room.\<close>

definition create_single ::
  "share_env \<Rightarrow> request_ext \<Rightarrow> string \<Rightarrow> Session \<Rightarrow> string \<Rightarrow> string \<Rightarrow> Mode \<Rightarrow> duration \<Rightarrow> int option \<Rightarrow> ShareApp
     \<Rightarrow> sharingResponseInvitation list answer" where
  "create_single env x sessionID t ownerID invitee mode ttl linkMaxUses s =
     and_then (createInvitationRecord env x 0 t ownerID invitee [] [] mode ttl linkMaxUses s) (\<lambda>(i, plain) s.
       case ensureRoomFor x t s of (room, s) \<Rightarrow>
       let s = (if invitee \<noteq> [] \<and> fst (Unkick invitee room) then set_room (s_id t) (snd (Unkick invitee room)) s else s)
       in (Inr [(encodeInvitation i (usernameFor (i_InviteeUserID i) (sh_db s)))
              \<lparr>ri_Token := plain, ri_JoinURL := invitationJoinURL sessionID plain\<rparr>], s))"

text \<open>The body is \<open>None\<close> when it is not JSON of the right shape; an empty body is the zero request.\<close>

definition handleCreateInvitation ::
  "share_env \<Rightarrow> request_ext \<Rightarrow> http_req \<Rightarrow> string \<Rightarrow> createInvitationRequest option \<Rightarrow> ShareApp
     \<Rightarrow> sharingResponseInvitation list answer" where
  "handleCreateInvitation env x r sessionID body s = (case sh_store s of
     None \<Rightarrow> (Inl (503, ''sharing.unavailable''), s)
   | Some _ \<Rightarrow> and_then (loadOwnedTerminalSession env x r sessionID s) (\<lambda>(t, ownerID) s.
       if sharingRecordingRequired env then (Inl (403, ''sharing.recordingRequiredWithViewers''), s)
       else case body of None \<Rightarrow> (Inl (400, ''common.invalidRequestBody''), s)
       | Some req \<Rightarrow> (case NormaliseMode (cr_Mode req) of
           Inl _ \<Rightarrow> (Inl (400, ''sharing.modeInvalid''), s)
         | Inr mode \<Rightarrow>
           let ttl = requested_ttl env (cr_TTLSeconds req);
               invitee = trim_space (cr_InviteeUserID req);
               inviteTag = trim_space (cr_InviteTag req);
               inviteGroup = trim_space (cr_InviteGroupID req)
           in if invitee \<noteq> [] \<and> inviteTag \<noteq> [] then (Inl (400, ''sharing.inviteeOrTagOnly''), s)
              else if invitee \<noteq> [] \<and> inviteGroup \<noteq> [] then (Inl (400, ''sharing.inviteeOrGroupOnly''), s)
              else if inviteTag \<noteq> [] \<and> inviteGroup \<noteq> [] then (Inl (400, ''sharing.tagOrGroupOnly''), s)
              else if inviteGroup \<noteq> [] then handleCreateGroupInvitations env x t ownerID inviteGroup mode ttl s
              else if inviteTag \<noteq> [] then handleCreateTagInvitations env x t ownerID inviteTag mode ttl s
              else if invitee = [] then
                (case parseLinkMaxUses (cr_LinkUnlimited req) (cr_LinkMaxUses req) of
                   None \<Rightarrow> (Inl (400, ''sharing.linkMaxUsesInvalid''), s)
                 | Some uses \<Rightarrow> create_single env x sessionID t ownerID invitee mode ttl uses s)
              else (case invitee_error env x ownerID invitee (s_TargetID t) s of
                   Some e \<Rightarrow> (Inl e, s)
                 | None \<Rightarrow> create_single env x sessionID t ownerID invitee mode ttl None s))))"

subsection \<open>What the owner is offered\<close>

record invitationOptionsTag =
  ot_Tag :: string
  ot_UserCount :: nat

record invitationOptionsGroup =
  og_ID :: string
  og_Name :: string
  og_UserCount :: nat

record invitationOptionsMember =
  om_ID :: string
  om_Username :: string
  om_Tags :: "string list"

text \<open>The two maps the loop over the users fills: the members met and the users per tag.\<close>

definition count_tag :: "string \<Rightarrow> (string, nat) gomap \<Rightarrow> (string, nat) gomap" where
  "count_tag t counts = AList.update t (case lookup counts t of None \<Rightarrow> 1 | Some n \<Rightarrow> n + 1) counts"

definition invitationMember ::
  "string \<Rightarrow> AuthDB \<Rightarrow> (string, invitationOptionsMember) gomap \<Rightarrow> invitationOptionsMember" where
  "invitationMember uid db seen = (case lookup seen uid of Some m \<Rightarrow> m
     | None \<Rightarrow> \<lparr>om_ID = uid, om_Username = usernameFor uid db, om_Tags = []\<rparr>)"

definition option_step ::
  "string \<Rightarrow> string list \<Rightarrow> AuthDB \<Rightarrow> string \<Rightarrow> (string, invitationOptionsMember) gomap \<times> (string, nat) gomap
     \<Rightarrow> (string, invitationOptionsMember) gomap \<times> (string, nat) gomap" where
  "option_step ownerID accessTags db uid acc = (case acc of (seen, counts) \<Rightarrow>
     if uid = ownerID then (seen, counts)
     else let m = invitationMember uid db seen;
              ts = filter (\<lambda>t. t \<in> set accessTags) (TagsForUser uid db)
       in (AList.update uid (m\<lparr>om_Tags := om_Tags m @ ts\<rparr>) seen, fold count_tag ts counts))"

definition collectInvitationOptions ::
  "share_env \<Rightarrow> request_ext \<Rightarrow> string \<Rightarrow> string \<Rightarrow> ShareApp \<Rightarrow> invitationOptionsTag list \<times> invitationOptionsMember list" where
  "collectInvitationOptions env x ownerID targetID s =
     (if targetID = [] then ([], [])
      else case fold (option_step ownerID (tagsGrantingTargetAccess targetID s) (sh_db s))
             (invitableUserIDsForTarget env x targetID s) ([], []) of (seen, counts) \<Rightarrow>
        (sort_key ot_Tag (map (\<lambda>(t, n). \<lparr>ot_Tag = t, ot_UserCount = n\<rparr>) counts),
         sort_key (\<lambda>m. (if om_Username m = [] then om_ID m else om_Username m, om_ID m))
           (map (\<lambda>(_, m). m\<lparr>om_Tags := sort (om_Tags m)\<rparr>) seen)))"

definition invitation_group ::
  "share_env \<Rightarrow> request_ext \<Rightarrow> string \<Rightarrow> string \<Rightarrow> ShareApp \<Rightarrow> string \<Rightarrow> invitationOptionsGroup list" where
  "invitation_group env x ownerID targetID s gid =
     (let acc = a_access (sh_db s) in
      if \<not> list_ex (\<lambda>tid. tid = targetID) (TargetIDsForGroup gid None (ge_list_limit (sx_guard env)) acc) then []
      else case invitableUserIDsForGroup env x ownerID targetID gid s of Inl _ \<Rightarrow> []
      | Inr members \<Rightarrow>
        [\<lparr>og_ID = gid,
          og_Name = (case grp_Get gid acc of Inr (_, nm) \<Rightarrow> if nm \<noteq> [] then nm else gid | Inl _ \<Rightarrow> gid),
          og_UserCount = length (filter (\<lambda>uid. uid \<noteq> ownerID) members)\<rparr>])"

definition collectInvitationGroups ::
  "share_env \<Rightarrow> request_ext \<Rightarrow> string \<Rightarrow> string \<Rightarrow> ShareApp \<Rightarrow> invitationOptionsGroup list" where
  "collectInvitationGroups env x ownerID targetID s =
     (if targetID = [] then []
      else sort_key (\<lambda>g. (og_Name g, og_ID g)) (concat (map (invitation_group env x ownerID targetID s)
        (GroupIDsForUser ownerID list_1000 (ge_list_limit (sx_guard env)) (x_now x) (a_access (sh_db s))))))"

definition handleInvitationOptions ::
  "share_env \<Rightarrow> request_ext \<Rightarrow> http_req \<Rightarrow> string \<Rightarrow> ShareApp
     \<Rightarrow> (invitationOptionsTag list \<times> invitationOptionsMember list \<times> invitationOptionsGroup list) answer" where
  "handleInvitationOptions env x r sessionID s =
     and_then (loadOwnedTerminalSession env x r sessionID s) (\<lambda>(t, ownerID) s.
       case collectInvitationOptions env x ownerID (s_TargetID t) s of (tags, users) \<Rightarrow>
       (Inr (tags, users, collectInvitationGroups env x ownerID (s_TargetID t) s), s))"

subsection \<open>Managing invitations\<close>

text \<open>The invitation of a request path, which must belong to the session.\<close>

definition session_invitation :: "string \<Rightarrow> Session \<Rightarrow> SQLiteStore \<Rightarrow> http_error + Invitation" where
  "session_invitation invID t st = (case inv_GetByID invID st of
     Inl e \<Rightarrow> Inl (if e = ErrInvitationNotFound then (404, ''sharing.invitationNotFound'') else internal_error)
   | Inr (i, _) \<Rightarrow> if i_SessionID i \<noteq> s_id t then Inl (404, ''sharing.invitationNotFound'') else Inr i)"

definition handleRegenerateInvitationJoinURL ::
  "share_env \<Rightarrow> request_ext \<Rightarrow> http_req \<Rightarrow> string \<Rightarrow> string \<Rightarrow> ShareApp \<Rightarrow> (string \<times> string) answer" where
  "handleRegenerateInvitationJoinURL env x r sessionID invID s =
     (if rq_Method r \<noteq> ''POST'' then (Inl (405, ''common.methodNotAllowed''), s)
      else case sh_store s of None \<Rightarrow> (Inl (503, ''sharing.unavailable''), s)
      | Some st \<Rightarrow> and_then (loadOwnedTerminalSession env x r sessionID s) (\<lambda>(t, ownerID) s.
          case session_invitation invID t st of Inl e \<Rightarrow> (Inl e, s)
          | Inr i \<Rightarrow>
            if \<not> Active (x_now x) i then (Inl (403, ''sharing.invitationInactive''), s)
            else let plain = x_token x 0 in
              (case UpdateTokenHash invID (sx_HashToken env plain) st of
                 Inl _ \<Rightarrow> (Inl internal_error, s)
               | Inr st' \<Rightarrow> (Inr (invitationJoinURL sessionID plain, plain), s\<lparr>sh_store := Some st'\<rparr>))))"

definition handleListInvitations ::
  "share_env \<Rightarrow> request_ext \<Rightarrow> http_req \<Rightarrow> string \<Rightarrow> ShareApp \<Rightarrow> sharingResponseInvitation list answer" where
  "handleListInvitations env x r sessionID s = (case sh_store s of None \<Rightarrow> (Inr [], s)
     | Some st \<Rightarrow> and_then (loadOwnedTerminalSession env x r sessionID s) (\<lambda>(t, _) s.
         (Inr (map (\<lambda>i. encodeInvitation i (if IsLink i then [] else usernameFor (i_InviteeUserID i) (sh_db s)))
            (ListBySession (s_id t) st)), s)))"

text \<open>Revoking removes everybody who joined with the invitation.\<close>

definition disconnect_consumers :: "request_ext \<Rightarrow> string \<Rightarrow> string \<Rightarrow> ShareApp \<Rightarrow> ShareApp" where
  "disconnect_consumers x sid invID s = (case reg_Get sid (sh_rooms s) of None \<Rightarrow> s
     | Some room \<Rightarrow> fold (disconnectSessionUser x sid) (ParticipantUserIDsForInvitation invID room) s)"

definition handleRevokeInvitation ::
  "share_env \<Rightarrow> request_ext \<Rightarrow> http_req \<Rightarrow> string \<Rightarrow> string \<Rightarrow> ShareApp \<Rightarrow> unit answer" where
  "handleRevokeInvitation env x r sessionID invID s = (case sh_store s of
     None \<Rightarrow> (Inl (503, ''sharing.unavailable''), s)
   | Some st \<Rightarrow> and_then (loadOwnedTerminalSession env x r sessionID s) (\<lambda>(t, ownerID) s.
       case session_invitation invID t st of Inl e \<Rightarrow> (Inl e, s)
       | Inr _ \<Rightarrow> (Inr (), disconnect_consumers x (s_id t) invID (s\<lparr>sh_store := Some (MarkRevoked invID (x_now x) st)\<rparr>))))"

record incomingInvitationItem =
  ii_ID :: string
  ii_SessionID :: string
  ii_TargetID :: string
  ii_TargetName :: string
  ii_OwnerUserID :: string
  ii_OwnerUsername :: string
  ii_Mode :: string
  ii_ExpiresAt :: int

definition incoming_item :: "share_env \<Rightarrow> ShareApp \<Rightarrow> Invitation \<Rightarrow> incomingInvitationItem" where
  "incoming_item env s i =
     \<lparr>ii_ID = i_ID i, ii_SessionID = i_SessionID i, ii_TargetID = i_TargetID i,
      ii_TargetName = (case tgt_Get (sx_targets env) (i_TargetID i) (a_access (sh_db s)) of
         Inr t \<Rightarrow> t_Name t | Inl _ \<Rightarrow> []),
      ii_OwnerUserID = i_OwnerUserID i, ii_OwnerUsername = usernameFor (i_OwnerUserID i) (sh_db s),
      ii_Mode = i_Mode i, ii_ExpiresAt = timestamp (i_ExpiresAt i)\<rparr>"

definition handleListIncomingInvitations ::
  "share_env \<Rightarrow> request_ext \<Rightarrow> http_req \<Rightarrow> ShareApp \<Rightarrow> incomingInvitationItem list answer" where
  "handleListIncomingInvitations env x r s = (case sh_store s of None \<Rightarrow> (Inr [], s)
     | Some st \<Rightarrow> (case caller env x r s of (userID, s) \<Rightarrow>
         if userID = [] then (Inl (401, ''common.unauthorized''), s)
         else (Inr (map (incoming_item env s) (filter (\<lambda>i. \<not> IsLink i \<and> Active (x_now x) i
             \<and> (sh_terminal s \<noteq> None \<longrightarrow> live_session (i_SessionID i) s \<noteq> None))
             (ListPendingForInvitee userID (x_now x) st))), s)))"

subsection \<open>Joining\<close>

record joinInvitationBody =
  jb_InvitationID :: string
  jb_InvitationToken :: string

definition decodeJoinInvitationBody :: "joinInvitationBody option \<Rightarrow> joinInvitationBody option" where
  "decodeJoinInvitationBody raw = map_option (\<lambda>b.
     \<lparr>jb_InvitationID = trim_space (jb_InvitationID b), jb_InvitationToken = trim_space (jb_InvitationToken b)\<rparr>) raw"

text \<open>A token wins over an identifier; a link is only found by its token.\<close>

definition lookupJoinInvitation :: "share_env \<Rightarrow> joinInvitationBody \<Rightarrow> SQLiteStore \<Rightarrow> http_error + Invitation" where
  "lookupJoinInvitation env b st =
     (let fail = (\<lambda>e. if e = ErrInvitationNotFound then (404, ''sharing.invitationNotFound'') else internal_error) in
      if jb_InvitationToken b \<noteq> [] then
        (case inv_GetByTokenHash (sx_HashToken env (jb_InvitationToken b)) st of Inl e \<Rightarrow> Inl (fail e) | Inr i \<Rightarrow> Inr i)
      else if jb_InvitationID b \<noteq> [] then
        (case inv_GetByID (jb_InvitationID b) st of Inl e \<Rightarrow> Inl (fail e)
         | Inr (i, _) \<Rightarrow> if IsLink i then Inl (400, ''sharing.linkTokenRequired'') else Inr i)
      else Inl internal_error)"

text \<open>\<open>None\<close> when the invitation may be used.\<close>

definition validateJoinInvitation ::
  "share_env \<Rightarrow> request_ext \<Rightarrow> Invitation \<Rightarrow> string \<Rightarrow> string \<Rightarrow> Kind \<Rightarrow> ShareApp \<Rightarrow> http_error option" where
  "validateJoinInvitation env x i userID expectedSessionID expectedKind s =
     (if i_SessionID i \<noteq> expectedSessionID then Some (404, ''sharing.invitationNotFound'')
      else if expectedKind \<noteq> [] \<and> i_SessionKind i \<noteq> expectedKind then Some (404, ''sharing.invitationNotFound'')
      else if \<not> Active (x_now x) i then Some (403, ''sharing.invitationInactive'')
      else if \<not> IsLink i \<and> \<not> equal_fold (i_InviteeUserID i) userID then Some (403, ''sharing.invitationOtherUser'')
      else if userID = i_OwnerUserID i then Some (400, ''sharing.cannotInviteSelf'')
      else if \<not> can_access env x (i_OwnerUserID i) (i_TargetID i) s then Some (403, ''sharing.invitationStaleAccess'')
      else if \<not> can_access env x userID (i_TargetID i) s then Some (403, ''sharing.inviteeNoTargetAccess'')
      else None)"

text \<open>After the use is recorded: the room, then the removed users, then the new member.\<close>

definition enter_room :: "request_ext \<Rightarrow> Session \<Rightarrow> string \<Rightarrow> string \<Rightarrow> ShareApp \<Rightarrow> string answer" where
  "enter_room x t userID invID s = (case ensureRoomFor x t s of (room, s) \<Rightarrow>
     if IsKicked userID room then (Inl (403, ''sharing.userKicked''), s)
     else case AddViewer userID (usernameFor userID (sh_db s)) invID (x_now x) room of
       Inl e \<Rightarrow> (Inl (if e = ErrUserKicked then (403, ''sharing.userKicked'') else internal_error), s)
     | Inr room' \<Rightarrow> (Inr (s_id t), set_room (s_id t) room' s))"

definition join_with ::
  "request_ext \<Rightarrow> Session \<Rightarrow> string \<Rightarrow> Invitation \<Rightarrow> SQLiteStore \<Rightarrow> ShareApp \<Rightarrow> string answer" where
  "join_with x t userID i st s = (case RecordUse (i_ID i) userID (x_now x) st of
     Inl e \<Rightarrow> (Inl (if e = ErrInvitationConsumed then (403, ''sharing.invitationInactive'') else internal_error), s)
   | Inr st' \<Rightarrow> enter_room x t userID (i_ID i) (s\<lparr>sh_store := Some st'\<rparr>))"

text \<open>The answer is the session that was joined, always as a viewer.\<close>

definition handleJoinSession ::
  "share_env \<Rightarrow> request_ext \<Rightarrow> http_req \<Rightarrow> string \<Rightarrow> joinInvitationBody option \<Rightarrow> ShareApp \<Rightarrow> string answer" where
  "handleJoinSession env x r sessionID raw s = (case sh_store s of
     None \<Rightarrow> (Inl (503, ''sharing.unavailable''), s)
   | Some st \<Rightarrow> (case caller env x r s of (userID, s) \<Rightarrow>
       if userID = [] then (Inl (401, ''common.unauthorized''), s)
       else if sessionID = [] then (Inl (400, ''sessions.idRequired''), s)
       else case live_session sessionID s of
         None \<Rightarrow> (Inl (404, ''sessions.notFoundOrAccessDenied''), s)
       | Some t \<Rightarrow>
         if sharingRecordingRequired env then (Inl (403, ''sharing.recordingRequiredWithViewers''), s)
         else case decodeJoinInvitationBody raw of
           None \<Rightarrow> (Inl (400, ''common.invalidRequestBody''), s)
         | Some b \<Rightarrow>
           if jb_InvitationID b = [] \<and> jb_InvitationToken b = [] then (Inl (400, ''sharing.tokenOrIDRequired''), s)
           else case lookupJoinInvitation env b st of
             Inl e \<Rightarrow> (Inl e, s)
           | Inr i \<Rightarrow> (case validateJoinInvitation env x i userID (s_id t) KindTerminal s of
               Some e \<Rightarrow> (Inl e, s)
             | None \<Rightarrow> join_with x t userID i st s)))"

subsection \<open>Participants and the write token\<close>

record participants_answer =
  pa_items :: "sharingResponseParticipant list"
  pa_writer_id :: string
  pa_writer_username :: string
  pa_owner_id :: string
  pa_pending :: "sharingResponseWriteRequest list"
  pa_kicked :: "string list"

definition participant_item :: "string \<Rightarrow> Participant \<Rightarrow> sharingResponseParticipant" where
  "participant_item writerID p =
     \<lparr>rp_UserID = p_UserID p, rp_Username = p_Username p, rp_Role = role_string (p_Role p),
      rp_JoinedAt = unix (p_JoinedAt p), rp_IsWriter = (p_UserID p = writerID)\<rparr>"

definition writer_name :: "Room \<Rightarrow> AuthDB \<Rightarrow> string" where
  "writer_name room db =
     (let nm = (case find (\<lambda>p. p_UserID p = r_writerID room) (Participants room) of
            Some p \<Rightarrow> p_Username p | None \<Rightarrow> [])
      in if nm = [] \<and> r_writerID room \<noteq> [] then usernameFor (r_writerID room) db else nm)"

definition handleListParticipants ::
  "share_env \<Rightarrow> request_ext \<Rightarrow> http_req \<Rightarrow> string \<Rightarrow> ShareApp \<Rightarrow> participants_answer answer" where
  "handleListParticipants env x r sessionID s =
     and_then (loadParticipatingTerminalSession env x r sessionID s) (\<lambda>(t, room, _) s.
       case (case room of Some rm \<Rightarrow> (rm, s) | None \<Rightarrow> ensureRoomFor x t s) of (room, s) \<Rightarrow>
       (Inr \<lparr>pa_items = map (participant_item (r_writerID room)) (Participants room),
             pa_writer_id = roomWriterID (Some room), pa_writer_username = writer_name room (sh_db s),
             pa_owner_id = Session.s_UserID t, pa_pending = map encodeWriteRequest (PendingRequests room),
             pa_kicked = kickedUserIDs (Some room)\<rparr>, s))"

definition handleKickParticipant ::
  "share_env \<Rightarrow> request_ext \<Rightarrow> http_req \<Rightarrow> string \<Rightarrow> string \<Rightarrow> ShareApp \<Rightarrow> unit answer" where
  "handleKickParticipant env x r sessionID target s =
     and_then (loadOwnedTerminalSession env x r sessionID s) (\<lambda>(t, ownerID) s.
       if trim_space target = [] then (Inl (400, ''sharing.userIDRequired''), s)
       else if target = ownerID then (Inl (400, ''sharing.cannotKickOwner''), s)
       else case reg_Get (s_id t) (sh_rooms s) of
         None \<Rightarrow> (Inl (404, ''sharing.participantNotFound''), s)
       | Some room \<Rightarrow> (case RemoveParticipant target (x_clock x) room of
           Inl e \<Rightarrow> (Inl (if e = ErrParticipantMissing then (404, ''sharing.participantNotFound'')
               else if e = ErrCannotKickOwner then (400, ''sharing.cannotKickOwner'') else internal_error), s)
         | Inr room' \<Rightarrow> (Inr (), bridge_drop x (s_id t) target (r_writerID room') (set_room (s_id t) room' s))))"

definition handleCreateWriteRequest ::
  "share_env \<Rightarrow> request_ext \<Rightarrow> http_req \<Rightarrow> string \<Rightarrow> ShareApp \<Rightarrow> sharingResponseWriteRequest answer" where
  "handleCreateWriteRequest env x r sessionID s =
     and_then (loadParticipatingTerminalSession env x r sessionID s) (\<lambda>(t, _, userID) s.
       case ensureRoomFor x t s of (room, s) \<Rightarrow>
       (case RequestWrite (newSharingID (x_token x 0)) userID (usernameFor userID (sh_db s)) (x_now x) room of
          Inl e \<Rightarrow> (Inl (if e = ErrAlreadyWriter then (400, ''sharing.alreadyWriter'')
              else if e = ErrParticipantMissing then (403, ''sharing.participantNotFound'') else internal_error), s)
        | Inr (wr, room') \<Rightarrow> (Inr (encodeWriteRequest wr), set_room (s_id t) room' s)))"

definition respondWriteRequestErr :: "sharing_error \<Rightarrow> http_error" where
  "respondWriteRequestErr e =
     (if e = sharing_error.ErrRequestNotFound then (404, ''sharing.writeRequestNotFound'')
      else if e = sharing_error.ErrRequestNotPending then (400, ''sharing.writeRequestNotPending'')
      else if e = ErrNotWriter then (403, ''sharing.notWriter'')
      else if e = ErrParticipantMissing then (410, ''sharing.participantNotFound'')
      else internal_error)"

definition decideWriteRequest ::
  "share_env \<Rightarrow> request_ext \<Rightarrow> bool \<Rightarrow> http_req \<Rightarrow> string \<Rightarrow> string \<Rightarrow> ShareApp \<Rightarrow> sharingResponseWriteRequest answer" where
  "decideWriteRequest env x grant r sessionID reqID s =
     and_then (loadParticipatingTerminalSession env x r sessionID s) (\<lambda>(t, room, userID) s.
       case room of None \<Rightarrow> (Inl (403, ''sharing.participantNotFound''), s)
       | Some room \<Rightarrow>
         if trim_space reqID = [] then (Inl (400, ''sharing.requestIDRequired''), s)
         else if grant then
           (case GrantWrite reqID userID (x_now x) room of
              (Inl e, room') \<Rightarrow> (Inl (respondWriteRequestErr e), set_room (s_id t) room' s)
            | (Inr (wr, previous), room') \<Rightarrow>
                (Inr (encodeWriteRequest wr),
                 on_bridge (s_id t) (Client_Pool.SetWriter (wr_RequesterID wr)) (set_room (s_id t) room' s)))
         else
           (case DenyWrite reqID userID (x_now x) room of
              Inl e \<Rightarrow> (Inl (respondWriteRequestErr e), s)
            | Inr (wr, room') \<Rightarrow> (Inr (encodeWriteRequest wr), set_room (s_id t) room' s)))"

definition handleGrantWriteRequest ::
  "share_env \<Rightarrow> request_ext \<Rightarrow> http_req \<Rightarrow> string \<Rightarrow> string \<Rightarrow> ShareApp \<Rightarrow> sharingResponseWriteRequest answer" where
  "handleGrantWriteRequest env x r sessionID reqID s = decideWriteRequest env x True r sessionID reqID s"

definition handleDenyWriteRequest ::
  "share_env \<Rightarrow> request_ext \<Rightarrow> http_req \<Rightarrow> string \<Rightarrow> string \<Rightarrow> ShareApp \<Rightarrow> sharingResponseWriteRequest answer" where
  "handleDenyWriteRequest env x r sessionID reqID s = decideWriteRequest env x False r sessionID reqID s"

definition handleReleaseWriteToken ::
  "share_env \<Rightarrow> request_ext \<Rightarrow> http_req \<Rightarrow> string \<Rightarrow> ShareApp \<Rightarrow> unit answer" where
  "handleReleaseWriteToken env x r sessionID s =
     and_then (loadParticipatingTerminalSession env x r sessionID s) (\<lambda>(t, room, userID) s.
       case room of None \<Rightarrow> (Inl (403, ''sharing.participantNotFound''), s)
       | Some room \<Rightarrow> (case ReleaseWrite userID room of
           Inl e \<Rightarrow> (Inl (if e = ErrNotWriter then (403, ''sharing.notWriter'') else internal_error), s)
         | Inr (previous, room') \<Rightarrow>
             (Inr (), on_bridge (s_id t) (Client_Pool.SetWriter (r_writerID room')) (set_room (s_id t) room' s))))"

subsection \<open>Attaching to a session\<close>

datatype attach_error = NotConfigured | AttachRefused sharing_error

definition terminalSessionByOwnerOrParticipant ::
  "share_env \<Rightarrow> request_ext \<Rightarrow> string \<Rightarrow> string \<Rightarrow> bool \<Rightarrow> ShareApp \<Rightarrow> attach_error + Session \<times> Room option" where
  "terminalSessionByOwnerOrParticipant env x sessionID userID viewer s =
     (if sh_terminal s = None then Inl NotConfigured
      else case live_session sessionID s of None \<Rightarrow> Inl (AttachRefused ErrRoomNotFound)
      | Some t \<Rightarrow>
        let room = reg_Get (s_id t) (sh_rooms s) in
        if \<not> viewer then
          (if Session.s_UserID t \<noteq> userID \<and> (case room of None \<Rightarrow> True | Some rm \<Rightarrow> r_writerID rm \<noteq> userID)
           then Inl (AttachRefused ErrNotWriter)
           else if \<not> can_access env x userID (s_TargetID t) s then Inl (AttachRefused ErrNotWriter)
           else Inr (t, room))
        else if (case room of None \<Rightarrow> True | Some rm \<Rightarrow> \<not> IsParticipant userID rm)
          then Inl (AttachRefused ErrParticipantMissing)
        else if \<not> can_access env x userID (s_TargetID t) s then Inl (AttachRefused ErrParticipantMissing)
        else Inr (t, room))"

definition attachChannelBuffer :: nat where "attachChannelBuffer = 16"

definition attach_queue :: "string \<Rightarrow> ShareApp \<Rightarrow> (AttachMode \<times> string) list" where
  "attach_queue sid s = (case lookup (sh_attach s) sid of None \<Rightarrow> [] | Some q \<Rightarrow> q)"

text \<open>
  \<open>upgraded\<close> and \<open>greeted\<close> tell whether the socket could be opened and written to.  The answer is
  whether the client was queued for the bridge; a full queue turns it away.
\<close>

definition handleTerminalAttach ::
  "share_env \<Rightarrow> request_ext \<Rightarrow> bool \<Rightarrow> bool \<Rightarrow> string \<Rightarrow> string \<Rightarrow> string \<Rightarrow> ShareApp \<Rightarrow> bool answer" where
  "handleTerminalAttach env x upgraded greeted mode userID sessionID s =
     (let viewer = (to_lower (trim_space mode) = ''viewer'') in
      case terminalSessionByOwnerOrParticipant env x sessionID userID viewer s of
        Inl (AttachRefused e) \<Rightarrow>
          (Inl (if e = ErrRoomNotFound \<or> e = ErrParticipantMissing then (404, ''sessions.notFoundOrAccessDenied'')
                else if e = ErrNotWriter then (403, ''common.forbidden'') else internal_error), s)
      | Inl NotConfigured \<Rightarrow> (Inl internal_error, s)
      | Inr (t, room) \<Rightarrow>
        if \<not> upgraded then (Inl (400, ''common.failedUpgradeConnection''), s)
        else if \<not> greeted then (Inr False, s)
        else let attachMode = (if viewer then AttachModeViewer else AttachModeWriter); q = attach_queue (s_id t) s in
          if length q \<ge> attachChannelBuffer then (Inr False, s)
          else let s = s\<lparr>sh_attach := AList.update (s_id t) (q @ [(attachMode, userID)]) (sh_attach s)\<rparr>
            in (Inr True, if \<not> viewer then on_bridge (s_id t) (Client_Pool.SetWriter (roomWriterID room)) s else s))"

text \<open>The bridge takes the next client from the channel and registers it.\<close>

definition attach_next :: "string \<Rightarrow> ShareApp \<Rightarrow> ShareApp" where
  "attach_next sid s = (case (attach_queue sid s, br_Get sid s) of
     ((mode, userID) # q, Some b) \<Rightarrow>
        br_Register sid (snd (attach_register mode userID b)) (s\<lparr>sh_attach := AList.update sid q (sh_attach s)\<rparr>)
   | _ \<Rightarrow> s)"

subsection \<open>The list of sessions\<close>

record TerminalSessionItem =
  ti_SessionID :: string
  ti_TargetID :: string
  ti_TargetName :: string
  ti_TargetPath :: string
  ti_Protocol :: Protocol
  ti_Name :: string
  ti_Description :: string
  ti_CreatedAt :: instant
  ti_LastSeen :: instant
  ti_Idle :: bool
  ti_IdleSeconds :: int
  ti_Keep :: bool
  ti_Role :: string
  ti_OwnerUserID :: string
  ti_OwnerUsername :: string

text \<open>The role and the owner are filled in by the caller, as in the code.\<close>

definition terminalSessionItemFrom :: "instant \<Rightarrow> Manager \<Rightarrow> nat \<Rightarrow> Protocol \<Rightarrow> string \<Rightarrow> TerminalSessionItem" where
  "terminalSessionItemFrom now m ref protocol targetPath = (let t = m_heap m ! ref; idle = IsIdle now (Some ref) m in
     \<lparr>ti_SessionID = s_id t, ti_TargetID = s_TargetID t, ti_TargetName = s_TargetName t, ti_TargetPath = targetPath,
      ti_Protocol = protocol, ti_Name = s_Name t, ti_Description = s_Description t, ti_CreatedAt = s_createdAt t,
      ti_LastSeen = s_lastSeen t, ti_Idle = idle,
      ti_IdleSeconds = (if idle then IdleDuration now (Some ref) m div second else 0),
      ti_Keep = s_keep t, ti_Role = [], ti_OwnerUserID = [], ti_OwnerUsername = []\<rparr>)"

definition session_item :: "share_env \<Rightarrow> request_ext \<Rightarrow> string \<Rightarrow> Manager \<Rightarrow> ShareApp \<Rightarrow> nat \<Rightarrow> TerminalSessionItem" where
  "session_item env x role m s ref =
     (let t = m_heap m ! ref;
          (protocol, path) = (case tgt_Get (sx_targets env) (s_TargetID t) (a_access (sh_db s)) of
             Inr tg \<Rightarrow> (t_Protocol tg, t_Path tg) | Inl _ \<Rightarrow> (ProtocolSSH, []))
      in (terminalSessionItemFrom (x_now x) m ref protocol path)
           \<lparr>ti_Role := role, ti_OwnerUserID := Session.s_UserID t,
            ti_OwnerUsername := usernameFor (Session.s_UserID t) (sh_db s)\<rparr>)"

text \<open>Own sessions first, then the sessions the user takes part in; targets out of reach are left out.\<close>

definition handleTerminalSessions ::
  "share_env \<Rightarrow> request_ext \<Rightarrow> http_req \<Rightarrow> ShareApp \<Rightarrow> TerminalSessionItem list answer" where
  "handleTerminalSessions env x r s = (case caller env x r s of (userID, s) \<Rightarrow>
     if userID = [] then (Inl (401, ''common.unauthorized''), s)
     else case sh_terminal s of None \<Rightarrow> (Inr [], s)
     | Some m \<Rightarrow>
       let ok = (\<lambda>ref. can_access env x userID (s_TargetID (m_heap m ! ref)) s);
           own = filter (\<lambda>sid. case mgr_Get sid m of None \<Rightarrow> False
             | Some ref \<Rightarrow> Session.s_UserID (m_heap m ! ref) = userID \<and> ok ref) (ActiveIDs m);
           others = filter (\<lambda>sid. sid \<notin> set own \<and> (case mgr_Get sid m of None \<Rightarrow> False | Some ref \<Rightarrow> ok ref))
             (RoomsForUser userID (sh_rooms s))
       in (Inr (map (\<lambda>sid. session_item env x ''owner'' m s (the (mgr_Get sid m))) own
             @ map (\<lambda>sid. session_item env x ''viewer'' m s (the (mgr_Get sid m))) others), s))"

subsection \<open>The life of a bridge\<close>

definition new_pool :: "Session \<Rightarrow> string \<Rightarrow> clientPool" where
  "new_pool t endMsg = \<lparr>p_endMsg = endMsg, p_output = s_Output t, p_stdin = [], p_recorded = [],
     p_entries = [], p_clients = [], p_attaching = []\<rparr>"

text \<open>\<open>runDetachableBridge\<close> up to the owner's first client, and its deferred calls when the bridge returns.\<close>

definition bridge_start :: "request_ext \<Rightarrow> Session \<Rightarrow> string \<Rightarrow> ShareApp \<Rightarrow> ShareApp" where
  "bridge_start x t endMsg s = (case ensureRoomFor x t s of (_, s) \<Rightarrow>
     br_Register (s_id t) (snd (attach_register AttachModeWriter (Session.s_UserID t) (new_pool t endMsg))) s)"

definition bridge_end :: "string \<Rightarrow> ShareApp \<Rightarrow> ShareApp" where
  "bridge_end sid s = (let s = br_Unregister sid s in s\<lparr>sh_rooms := reg_Remove sid (sh_rooms s)\<rparr>)"

text \<open>When \<open>ends\<close>, the bridge returns and runs its deferred calls while the handler waits in \<open>Stop\<close>.\<close>

definition handleTerminalSessionDelete ::
  "share_env \<Rightarrow> request_ext \<Rightarrow> bool \<Rightarrow> http_req \<Rightarrow> string \<Rightarrow> ShareApp \<Rightarrow> bool answer" where
  "handleTerminalSessionDelete env x ends r sessionID s = (case caller env x r s of (userID, s) \<Rightarrow>
     if userID = [] then (Inl (401, ''common.unauthorized''), s)
     else if sessionID = [] then (Inl (400, ''sessions.idRequired''), s)
     else case (sh_terminal s, live_session sessionID s) of
       (Some m, Some t) \<Rightarrow>
         if Session.s_UserID t \<noteq> userID then (Inl (404, ''sessions.notFoundOrAccessDenied''), s)
         else if \<not> can_access env x userID (s_TargetID t) s then (Inl (403, ''common.forbidden''), s)
         else (case mgr_Stop ends sessionID m of (clean, m) \<Rightarrow>
           let s = (if ends then bridge_end sessionID s else s);
               s = s\<lparr>sh_terminal := Some m, sh_rooms := reg_Remove sessionID (sh_rooms s)\<rparr>
           in (Inr clean, s))
     | _ \<Rightarrow> (Inl (404, ''sessions.notFoundOrAccessDenied''), s))"

end
