(* ===== verification/Sharing_Sessions.thy ===== *)
theory Sharing_Sessions
  imports Sharing_Handlers
begin

text \<open>
  What the sharing handlers guarantee together with the bridges.  The step relation
  \<open>share_step\<close> interleaves requests, the bridges that take clients from their attach channels,
  sessions that start and end and any change of the accounts; the invariant \<open>share_inv\<close> ties the
  clients that may type to the room's holder of the write token.
\<close>

subsection \<open>Frames\<close>

lemma and_then_simps [simp]:
  "and_then (Inl e, s) k = (Inl e, s)" "and_then (Inr a, s) k = k a s"
  by (simp_all add: and_then_def)

lemma caller_frame [simp]:
  "sh_terminal (snd (caller env x r s)) = sh_terminal s" "sh_rooms (snd (caller env x r s)) = sh_rooms s"
  "sh_store (snd (caller env x r s)) = sh_store s" "sh_bridges (snd (caller env x r s)) = sh_bridges s"
  "sh_attach (snd (caller env x r s)) = sh_attach s"
  "a_access (sh_db (snd (caller env x r s))) = a_access (sh_db s)"
  "a_users (sh_db (snd (caller env x r s))) = a_users (sh_db s)"
  by (simp_all add: caller_def split_beta)

lemma br_simps [simp]:
  "br_Get sid (s\<lparr>sh_db := db\<rparr>) = br_Get sid s" "br_Get sid (s\<lparr>sh_store := st\<rparr>) = br_Get sid s"
  "br_Get sid (s\<lparr>sh_rooms := rs\<rparr>) = br_Get sid s" "br_Get sid (s\<lparr>sh_terminal := m\<rparr>) = br_Get sid s"
  "br_Get sid (s\<lparr>sh_attach := q\<rparr>) = br_Get sid s"
  "br_Get sid (br_Register sid' b s) = (if sid = sid' then Some b else br_Get sid s)"
  "br_Get sid (br_Unregister sid' s) = (if sid = sid' then None else br_Get sid s)"
  "br_Get sid (set_room sid' room s) = br_Get sid s"
  "br_Get sid (on_bridge sid' f s) = (if sid = sid' then map_option f (br_Get sid s) else br_Get sid s)"
  by (auto simp: br_Get_def br_Register_def br_Unregister_def set_room_def on_bridge_def split: option.split)

lemma room_simps [simp]:
  "sh_rooms (br_Register sid b s) = sh_rooms s" "sh_rooms (br_Unregister sid s) = sh_rooms s"
  "sh_rooms (on_bridge sid f s) = sh_rooms s"
  "reg_Get sid (sh_rooms (set_room sid' room s)) = (if sid = sid' then Some room else reg_Get sid (sh_rooms s))"
  "reg_Get sid (reg_Remove sid' rs) = (if sid = sid' then None else reg_Get sid rs)"
  by (auto simp: br_Register_def br_Unregister_def set_room_def on_bridge_def reg_Get_def reg_Remove_def split: option.split)

lemma terminal_simps [simp]:
  "sh_terminal (br_Register sid b s) = sh_terminal s" "sh_terminal (br_Unregister sid s) = sh_terminal s"
  "sh_terminal (on_bridge sid f s) = sh_terminal s" "sh_terminal (set_room sid room s) = sh_terminal s"
  by (auto simp: br_Register_def br_Unregister_def set_room_def on_bridge_def split: option.split)

lemma live_session_terminal: "sh_terminal s' = sh_terminal s \<Longrightarrow> live_session sid s' = live_session sid s"
  by (simp add: live_session_def)

lemma live_simps [simp]:
  "live_session sid (s\<lparr>sh_db := db\<rparr>) = live_session sid s" "live_session sid (s\<lparr>sh_store := st\<rparr>) = live_session sid s"
  "live_session sid (s\<lparr>sh_rooms := rs\<rparr>) = live_session sid s" "live_session sid (s\<lparr>sh_attach := q\<rparr>) = live_session sid s"
  "live_session sid (br_Register sid' b s) = live_session sid s"
  "live_session sid (br_Unregister sid' s) = live_session sid s"
  "live_session sid (on_bridge sid' f s) = live_session sid s"
  "live_session sid (set_room sid' room s) = live_session sid s"
  by (simp_all add: live_session_def)

subsection \<open>Clients that may type\<close>

lemma writes_for_SetWriter: "pool_inv b \<Longrightarrow> writes_for (Client_Pool.SetWriter u b) u"
  by (auto simp: pool_inv_def writes_for_def SetWriter_def upd_clients_def)

lemma writes_for_fewer:
  assumes "writes_for b u" "pool_inv b" "set (p_clients b') \<subseteq> set (p_clients b)"
    and "\<And>i. i \<in> set (p_clients b') \<Longrightarrow> i < length (p_entries b) \<Longrightarrow> ce_userID (p_entries b' ! i) = ce_userID (p_entries b ! i)
      \<and> (ce_canWrite (p_entries b' ! i) \<longrightarrow> ce_canWrite (p_entries b ! i))"
  shows "writes_for b' u"
proof -
  have "i < length (p_entries b)" if "i \<in> set (p_clients b')" for i
    using assms(2,3) that by (auto simp: pool_inv_def)
  with assms show ?thesis by (fastforce simp: writes_for_def)
qed

lemma writes_for_detach: "writes_for b u \<Longrightarrow> pool_inv b \<Longrightarrow> writes_for (detachEntry i b) u"
  by (rule writes_for_fewer [of b]) (auto simp: detachEntry_def nth_list_update_if)

lemma writes_for_deliver: "writes_for b u \<Longrightarrow> pool_inv b \<Longrightarrow> writes_for (deliver mk dead p b) u"
  by (rule writes_for_fewer [of b]) (auto simp: deliver_def)

lemma writes_for_register:
  assumes "pool_inv b" "mode = AttachModeViewer \<Longrightarrow> writes_for b u" "mode \<noteq> AttachModeViewer \<Longrightarrow> v = u"
  shows "writes_for (snd (attach_register mode v b)) u"
proof -
  have lt: "i < length (p_entries b)" if "i \<in> set (p_clients b)" for i using assms(1) that by (auto simp: pool_inv_def)
  show ?thesis
  proof (cases "mode = AttachModeViewer")
    case True
    then show ?thesis using assms(2) lt by (auto simp: attach_register_def Let_def writes_for_def nth_append)
  next
    case False
    with assms(3) have "v = u" by simp
    then show ?thesis using False demoted(2) [OF assms(1)] lt
      by (auto simp: attach_register_def Let_def writes_for_def nth_append demoteOtherWritersLocked_def upd_clients_def)
  qed
qed

subsection \<open>The invariant\<close>

definition bridge_ok :: "ShareApp \<Rightarrow> string \<Rightarrow> clientPool \<Rightarrow> bool" where
  "bridge_ok s sid b = (pool_inv b \<and> (reg_Get sid (sh_rooms s) = None \<longrightarrow> live_session sid s = None)
     \<and> (\<forall>room. reg_Get sid (sh_rooms s) = Some room \<longrightarrow> writes_for b (r_writerID room)))"

definition manager_ok :: "Manager option \<Rightarrow> bool" where
  "manager_ok mo = (case mo of None \<Rightarrow> True
     | Some m \<Rightarrow> entries_ok m \<and> (\<forall>t \<in> set (m_heap m). ring_inv (s_Output t)))"

definition share_inv :: "ShareApp \<Rightarrow> bool" where
  "share_inv s = (manager_ok (sh_terminal s)
     \<and> (\<forall>sid room. reg_Get sid (sh_rooms s) = Some room \<longrightarrow> room_inv room)
     \<and> (\<forall>sid b. br_Get sid s = Some b \<longrightarrow> bridge_ok s sid b))"

lemma share_invD:
  assumes "share_inv s"
  shows "manager_ok (sh_terminal s)" "reg_Get sid (sh_rooms s) = Some room \<Longrightarrow> room_inv room"
    "br_Get sid s = Some b \<Longrightarrow> bridge_ok s sid b" "br_Get sid s = Some b \<Longrightarrow> pool_inv b"
  using assms unfolding share_inv_def bridge_ok_def by blast+

lemma live_session_ok:
  assumes "share_inv s" "live_session sid s = Some t"
  shows "s_id t = sid" "ring_inv (s_Output t)"
proof -
  obtain m ref where m: "sh_terminal s = Some m" "lookup (m_sessions m) sid = Some ref" "t = m_heap m ! ref"
    using assms(2) by (auto simp: live_session_def mgr_Get_def split: option.splits)
  then have "entry_ok m (sid, ref)" "\<forall>t \<in> set (m_heap m). ring_inv (s_Output t)"
    using share_invD(1) [OF assms(1)] map_of_SomeD [OF m(2)] by (auto simp: manager_ok_def entries_ok_def list_all_iff)
  then show "s_id t = sid" "ring_inv (s_Output t)" using m(3) by (auto simp: entry_ok_def)
qed

text \<open>Changes that leave sessions, rooms and bridges alone.\<close>

lemma share_inv_cong:
  assumes "share_inv s" "sh_terminal s' = sh_terminal s" "sh_rooms s' = sh_rooms s" "sh_bridges s' = sh_bridges s"
  shows "share_inv s'"
proof -
  have "bridge_ok s' sid b = bridge_ok s sid b" for sid b
    using assms(3) live_session_terminal [OF assms(2)] by (simp add: bridge_ok_def)
  then show ?thesis using assms by (simp add: share_inv_def br_Get_def)
qed

lemma share_inv_caller: "share_inv s \<Longrightarrow> share_inv (snd (caller env x r s))"
  by (rule share_inv_cong [of s]) simp_all

text \<open>A room that changes together with its bridge.\<close>

lemma share_inv_bridge_room:
  assumes "share_inv s" "reg_Get sid (sh_rooms s) = Some room" "room_inv room'"
    and "\<And>b. pool_inv b \<Longrightarrow> writes_for b (r_writerID room) \<Longrightarrow> pool_inv (f b) \<and> writes_for (f b) (r_writerID room')"
  shows "share_inv (on_bridge sid f (set_room sid room' s))"
proof -
  have "bridge_ok (on_bridge sid f (set_room sid room' s)) sid' b'"
    if "br_Get sid' (on_bridge sid f (set_room sid room' s)) = Some b'" for sid' b'
  proof (cases "sid' = sid")
    case True
    with that obtain b where b: "br_Get sid s = Some b" "b' = f b" by (auto split: if_splits)
    have "pool_inv b \<and> writes_for b (r_writerID room)"
      using share_invD(3) [OF assms(1) b(1)] assms(2) by (simp add: bridge_ok_def)
    then show ?thesis using assms(4) b(2) True by (simp add: bridge_ok_def)
  next
    case False
    with that have "br_Get sid' s = Some b'" by simp
    from share_invD(3) [OF assms(1) this] show ?thesis using False by (simp add: bridge_ok_def)
  qed
  then show ?thesis using assms(1,3) by (auto simp: share_inv_def split: if_splits)
qed

lemma on_bridge_id: "on_bridge sid (\<lambda>b. b) s = s"
proof -
  have "AList.update k v m = m" if "map_of m k = Some v" for k and v :: clientPool and m
    using that by (induction m) auto
  then show ?thesis by (cases s) (auto simp: on_bridge_def br_Get_def br_Register_def split: option.split)
qed

lemma share_inv_room:
  assumes "share_inv s" "reg_Get sid (sh_rooms s) = Some room" "room_inv room'" "r_writerID room' = r_writerID room"
  shows "share_inv (set_room sid room' s)"
  using share_inv_bridge_room [OF assms(1-3), of "\<lambda>b. b"] assms(4) by (simp add: on_bridge_id)

lemma share_inv_on_bridge:
  assumes "share_inv s"
    and "\<And>b u. pool_inv b \<Longrightarrow> pool_inv (f b) \<and> (writes_for b u \<longrightarrow> writes_for (f b) u)"
  shows "share_inv (on_bridge sid f s)"
proof -
  have "bridge_ok (on_bridge sid f s) sid' b'" if "br_Get sid' (on_bridge sid f s) = Some b'" for sid' b'
    using that share_invD(3) [OF assms(1)] assms(2)
    by (fastforce simp: bridge_ok_def split: if_splits)
  then show ?thesis using assms(1) by (auto simp: share_inv_def)
qed

lemma share_inv_ensure:
  assumes "share_inv s" "live_session sid s = Some t"
  shows "share_inv (snd (ensureRoomFor x t s))"
    "reg_Get sid (sh_rooms (snd (ensureRoomFor x t s))) = Some (fst (ensureRoomFor x t s))"
    "live_session sid' (snd (ensureRoomFor x t s)) = live_session sid' s"
    "br_Get sid' (snd (ensureRoomFor x t s)) = br_Get sid' s"
proof -
  note t = live_session_ok(1) [OF assms]
  show e: "live_session sid' (snd (ensureRoomFor x t s)) = live_session sid' s"
    and b: "br_Get sid' (snd (ensureRoomFor x t s)) = br_Get sid' s" for sid'
    by (simp_all add: ensureRoomFor_def Let_def split: prod.split)
  show "reg_Get sid (sh_rooms (snd (ensureRoomFor x t s))) = Some (fst (ensureRoomFor x t s))"
    using t by (auto simp: ensureRoomFor_def EnsureRoom_def reg_Get_def Let_def split: option.split)
  show "share_inv (snd (ensureRoomFor x t s))"
  proof (cases "reg_Get sid (sh_rooms s)")
    case (Some room)
    then have "snd (ensureRoomFor x t s) = s"
      using t by (simp add: ensureRoomFor_def EnsureRoom_def reg_Get_def Let_def)
    then show ?thesis using assms(1) by simp
  next
    case None
    define room where "room = fst (ensureRoomFor x t s)"
    have eq: "snd (ensureRoomFor x t s) = set_room sid room s" and ri: "room_inv room"
      using None t by (simp_all add: room_def ensureRoomFor_def EnsureRoom_def reg_Get_def Let_def set_room_def room_inv_new)
    have "br_Get sid s = None"
      using share_invD(3) [OF assms(1), of sid] None assms(2) by (cases "br_Get sid s") (auto simp: bridge_ok_def)
    then show ?thesis unfolding eq using assms(1) ri
      by (auto simp: share_inv_def bridge_ok_def split: if_splits)
  qed
qed

subsection \<open>The guards\<close>

lemma can_access_caller [simp]: "can_access env x u tid (snd (caller env x r s)) = can_access env x u tid s"
  by (simp add: can_access_def userCanAccessTarget_def allowedTargetIDSet_def)

lemma live_caller [simp]: "live_session sid (snd (caller env x r s)) = live_session sid s"
  by (simp add: live_session_def)

lemma br_caller [simp]: "br_Get sid (snd (caller env x r s)) = br_Get sid s"
  by (simp add: br_Get_def)

lemma loadOwned_cases:
  obtains (refused) e where "loadOwnedTerminalSession env x r sid s = (Inl e, snd (caller env x r s))"
  | (owner) t where "loadOwnedTerminalSession env x r sid s = (Inr (t, fst (caller env x r s)), snd (caller env x r s))"
      "live_session sid s = Some t" "Session.s_UserID t = fst (caller env x r s)" "fst (caller env x r s) \<noteq> []"
      "can_access env x (fst (caller env x r s)) (s_TargetID t) s"
proof (cases "caller env x r s")
  case (Pair u s1)
  show ?thesis
  proof (cases "live_session sid s")
    case None
    with Pair live_caller [of sid env x r s] that(1) show ?thesis by (fastforce simp: loadOwnedTerminalSession_def)
  next
    case (Some t)
    with Pair live_caller [of sid env x r s] can_access_caller [of env x u "s_TargetID t" r s]
    have eq: "loadOwnedTerminalSession env x r sid s = (if u = [] then (Inl (401, ''common.unauthorized''), s1)
        else if Session.s_UserID t \<noteq> u then (Inl (404, ''sessions.notFoundOrAccessDenied''), s1)
        else if \<not> can_access env x u (s_TargetID t) s then (Inl (403, ''common.forbidden''), s1) else (Inr (t, u), s1))"
      by (simp add: loadOwnedTerminalSession_def)
    show ?thesis
    proof (cases "u \<noteq> [] \<and> Session.s_UserID t = u \<and> can_access env x u (s_TargetID t) s")
      case True
      then show ?thesis using eq Pair Some that(2) [of t] by simp
    qed (use eq Pair that(1) in \<open>auto split: if_splits\<close>)
  qed
qed

lemma loadParticipating_cases:
  obtains (refused) e where "loadParticipatingTerminalSession env x r sid s = (Inl e, snd (caller env x r s))"
  | (member) t where "loadParticipatingTerminalSession env x r sid s
        = (Inr (t, reg_Get (s_id t) (sh_rooms s), fst (caller env x r s)), snd (caller env x r s))"
      "live_session sid s = Some t" "fst (caller env x r s) \<noteq> []"
proof (cases "caller env x r s")
  case (Pair u s1)
  show ?thesis
  proof (cases "live_session sid s")
    case None
    with Pair live_caller [of sid env x r s] that(1) show ?thesis by (fastforce simp: loadParticipatingTerminalSession_def)
  next
    case (Some t)
    with Pair live_caller [of sid env x r s] caller_frame(2) [of env x r s]
    have eq: "loadParticipatingTerminalSession env x r sid s = (if u = [] then (Inl (401, ''common.unauthorized''), s1)
        else let room = reg_Get (s_id t) (sh_rooms s) in
        if Session.s_UserID t \<noteq> u \<and> (case room of None \<Rightarrow> True | Some rm \<Rightarrow> \<not> IsParticipant u rm)
        then (Inl (404, ''sessions.notFoundOrAccessDenied''), s1) else (Inr (t, room, u), s1))"
      by (simp add: loadParticipatingTerminalSession_def)
    show ?thesis
    proof (cases "fst (loadParticipatingTerminalSession env x r sid s)")
      case (Inl e)
      then show ?thesis using eq Pair that(1) [of e] by (auto simp: Let_def split: if_splits)
    next
      case (Inr a)
      then show ?thesis using eq Pair Some that(2) [of t] by (auto simp: Let_def split: if_splits)
    qed
  qed
qed

lemma owned_keeps:
  assumes "share_inv s"
    and "\<And>t s'. share_inv s' \<Longrightarrow> live_session sid s' = Some t \<Longrightarrow> s_id t = sid \<Longrightarrow>
      share_inv (snd (k (t, fst (caller env x r s)) s'))"
  shows "share_inv (snd (and_then (loadOwnedTerminalSession env x r sid s) k))"
proof (cases rule: loadOwned_cases [of env x r sid s])
  case (owner t)
  then show ?thesis
    using assms(2) [OF share_inv_caller [OF assms(1), of env x r], of t] live_session_ok(1) [OF assms(1) owner(2)] by simp
qed (use share_inv_caller [OF assms(1)] in simp)

lemma member_keeps:
  assumes "share_inv s"
    and "\<And>t s'. share_inv s' \<Longrightarrow> live_session sid s' = Some t \<Longrightarrow> s_id t = sid \<Longrightarrow>
      share_inv (snd (k (t, reg_Get sid (sh_rooms s'), fst (caller env x r s)) s'))"
  shows "share_inv (snd (and_then (loadParticipatingTerminalSession env x r sid s) k))"
proof (cases rule: loadParticipating_cases [of env x r sid s])
  case (member t)
  then show ?thesis
    using assms(2) [OF share_inv_caller [OF assms(1), of env x r], of t] live_session_ok(1) [OF assms(1) member(2)] by simp
qed (use share_inv_caller [OF assms(1)] in simp)

subsection \<open>Every handler keeps the invariant\<close>

lemma share_inv_store: "share_inv s \<Longrightarrow> share_inv (s\<lparr>sh_store := st\<rparr>)"
  by (rule share_inv_cong [of s]) simp_all

lemma createInvitationRecord_db:
  "snd (createInvitationRecord env x k t o1 i g tg md ttl mu s) = s
     \<or> (\<exists>st. snd (createInvitationRecord env x k t o1 i g tg md ttl mu s) = s\<lparr>sh_store := st\<rparr>)"
  by (auto simp: createInvitationRecord_def Let_def split: option.split sum.split)

lemma share_inv_record:
  "share_inv s \<Longrightarrow> share_inv (snd (createInvitationRecord env x k t o1 i g tg md ttl mu s))"
  "live_session sid (snd (createInvitationRecord env x k t o1 i g tg md ttl mu s)) = live_session sid s"
  using createInvitationRecord_db [of env x k t o1 i g tg md ttl mu s] share_inv_store by (metis, metis live_simps(2))

lemma snd_and_then: "P (snd c) \<Longrightarrow> (\<And>a. P (snd (k a (snd c)))) \<Longrightarrow> P (snd (and_then c k))"
  by (cases c; cases "fst c") auto

lemma share_inv_members:
  "share_inv s \<Longrightarrow> share_inv (snd (invite_members env x k t o1 g tg md ttl uids s))"
proof (induction uids arbitrary: k s)
  case (Cons u uids)
  show ?case
  proof (cases "createInvitationRecord env x k t o1 u g tg md ttl None s")
    case (Pair res s1)
    then have s1: "share_inv s1" using share_inv_record(1) [OF Cons.prems] by (metis snd_conv)
    show ?thesis
    proof (cases res)
      case (Inr a)
      obtain i p where "a = (i, p)" by fastforce
      moreover have "share_inv (snd (and_then (invite_members env x (Suc k) t o1 g tg md ttl uids s1) (\<lambda>items s.
          (Inr (encodeInvitation i (usernameFor u (sh_db s)) # items), s))))"
        by (rule snd_and_then [where P = share_inv]) (simp_all add: Cons.IH [OF s1])
      ultimately show ?thesis using Pair Inr Cons by simp
    qed (use Pair s1 Cons in simp)
  qed
qed simp

lemma share_inv_unkick:
  assumes "share_inv s" "reg_Get sid (sh_rooms s) = Some room"
  shows "share_inv (set_room sid (snd (Unkick u room)) s)"
  using share_inv_room [OF assms room_inv_Unkick [OF share_invD(2) [OF assms]]] by (simp add: Unkick_def)

lemma keeps_create_single:
  assumes "share_inv s" "live_session sid s = Some t"
  shows "share_inv (snd (create_single env x sid' t o1 i md ttl mu s))"
proof (cases "createInvitationRecord env x 0 t o1 i [] [] md ttl mu s")
  case (Pair res s1)
  then have s1: "share_inv s1" "live_session sid s1 = Some t"
    using share_inv_record(1) [OF assms(1)] share_inv_record(2) [of _ _ _ _ _ _ _ _ _ _ _ _ s] assms(2) by (metis snd_conv)+
  show ?thesis
  proof (cases res)
    case (Inr a)
    obtain v p where a: "a = (v, p)" by fastforce
    obtain room s2 where e: "ensureRoomFor x t s1 = (room, s2)" by fastforce
    have "share_inv s2" "reg_Get (s_id t) (sh_rooms s2) = Some room"
      using share_inv_ensure(1,2) [OF s1, of x] e live_session_ok(1) [OF s1] by simp_all
    then show ?thesis using Pair Inr a e share_inv_unkick by (simp add: create_single_def Let_def)
  qed (use Pair s1 in \<open>simp add: create_single_def\<close>)
qed

lemma keeps_batch:
  assumes "share_inv s" "live_session sid s = Some t"
  shows "share_inv (snd (handleCreateTagInvitations env x t o1 tg md ttl s))"
    "share_inv (snd (handleCreateGroupInvitations env x t o1 g md ttl s))"
  using assms share_inv_members [OF share_inv_ensure(1) [OF assms]]
  by (simp_all add: handleCreateTagInvitations_def handleCreateGroupInvitations_def split: sum.split)

lemma keeps_create: "share_inv s \<Longrightarrow> share_inv (snd (handleCreateInvitation env x r sid body s))"
  unfolding handleCreateInvitation_def
  by (cases "sh_store s"; simp; rule owned_keeps)
    (simp_all add: Let_def keeps_create_single keeps_batch split: option.split sum.split)

lemma keeps_regenerate: "share_inv s \<Longrightarrow> share_inv (snd (handleRegenerateInvitationJoinURL env x r sid iid s))"
  unfolding handleRegenerateInvitationJoinURL_def
  by (cases "sh_store s"; cases "rq_Method r \<noteq> ''POST''"; simp; rule owned_keeps)
    (simp_all add: Let_def share_inv_store split: option.split sum.split)

lemma drop_keeps:
  assumes "share_inv s" "reg_Get sid (sh_rooms s) = Some room" "room_inv room'"
  shows "share_inv (bridge_drop x sid u (r_writerID room') (set_room sid room' s))"
  unfolding bridge_drop_def
  by (rule share_inv_bridge_room [OF assms]) (simp add: pool_inv_SetWriter pool_inv_DetachUser writes_for_SetWriter)

lemma room_inv_or_removed: "room_inv room \<Longrightarrow> room_inv (or_unchanged room (\<lambda>rm. rm) (RemoveParticipant u clock room))"
  using room_inv_Remove by (auto simp: or_unchanged_def split: sum.split)

lemma keeps_disconnect: "share_inv s \<Longrightarrow> share_inv (disconnectSessionUser x sid u s)"
  using drop_keeps share_invD(2) room_inv_or_removed
  by (auto simp: disconnectSessionUser_def Let_def split: option.split)

lemma keeps_disconnect_all: "share_inv s \<Longrightarrow> share_inv (fold (disconnectSessionUser x sid) us s)"
  by (induction us arbitrary: s) (simp_all add: keeps_disconnect)

lemma keeps_revoke: "share_inv s \<Longrightarrow> share_inv (snd (handleRevokeInvitation env x r sid iid s))"
  unfolding handleRevokeInvitation_def
  by (cases "sh_store s"; simp; rule owned_keeps)
    (simp_all add: disconnect_consumers_def keeps_disconnect_all share_inv_store split: option.split sum.split)

lemma keeps_enter:
  assumes "share_inv s" "live_session sid s = Some t"
  shows "share_inv (snd (enter_room x t u iid s))"
proof -
  obtain room s1 where e: "ensureRoomFor x t s = (room, s1)" by fastforce
  have s1: "share_inv s1" "reg_Get (s_id t) (sh_rooms s1) = Some room"
    using share_inv_ensure(1,2) [OF assms, of x] e live_session_ok(1) [OF assms] by simp_all
  have "share_inv (set_room (s_id t) room' s1)" if "AddViewer u n iid now room = Inr room'" for room' n now
    by (rule share_inv_room [OF s1 room_inv_AddViewer [OF share_invD(2) [OF s1] that]])
      (use that in \<open>auto simp: AddViewer_def Let_def split: if_splits option.splits\<close>)
  then show ?thesis using e s1 by (simp add: enter_room_def split: sum.split)
qed

lemma keeps_join: "share_inv s \<Longrightarrow> share_inv (snd (handleJoinSession env x r sid raw s))"
proof -
  assume s: "share_inv s"
  obtain u s1 where c: "caller env x r s = (u, s1)" by fastforce
  have s1: "share_inv s1" using share_inv_caller [OF s, of env x r] c by simp
  have "share_inv (snd (join_with x t u i st s1))" if "live_session sid s1 = Some t" for t i st
    using keeps_enter [of "s1\<lparr>sh_store := _\<rparr>" sid t] share_inv_store [OF s1] that s1
    by (auto simp: join_with_def split: sum.split)
  then show ?thesis using s s1 c
    by (auto simp: handleJoinSession_def split: option.split sum.split)
qed

lemma keeps_participants: "share_inv s \<Longrightarrow> share_inv (snd (handleListParticipants env x r sid s))"
  unfolding handleListParticipants_def
  by (rule member_keeps) (auto dest: share_inv_ensure(1) [where x = x] split: option.split prod.split)

lemma keeps_kick: "share_inv s \<Longrightarrow> share_inv (snd (handleKickParticipant env x r sid u s))"
  unfolding handleKickParticipant_def
proof (rule owned_keeps, assumption, goal_cases)
  case (1 t s')
  have "share_inv (bridge_drop x sid u (r_writerID rm') (set_room sid rm' s'))"
    if "reg_Get sid (sh_rooms s') = Some rm" "RemoveParticipant u (x_clock x) rm = Inr rm'" for rm rm'
    by (rule drop_keeps [OF 1(2) that(1) room_inv_Remove [OF share_invD(2) [OF 1(2) that(1)] that(2)]])
  then show ?case using 1 by (auto split: option.split sum.split)
qed

lemma keeps_write_request: "share_inv s \<Longrightarrow> share_inv (snd (handleCreateWriteRequest env x r sid s))"
  unfolding handleCreateWriteRequest_def
proof (rule member_keeps, assumption, goal_cases)
  case (1 t s')
  obtain room s1 where e: "ensureRoomFor x t s' = (room, s1)" by fastforce
  have s1: "share_inv s1" "reg_Get sid (sh_rooms s1) = Some room"
    using share_inv_ensure(1,2) [OF 1(2,3), of x] e by simp_all
  have "share_inv (set_room sid room' s1)" if "RequestWrite q u n now room = Inr (wr, room')" for q u n now wr room'
    by (rule share_inv_room [OF s1 room_inv_Request [OF share_invD(2) [OF s1] that]])
      (use that in \<open>auto simp: RequestWrite_def Let_def split: if_splits option.splits\<close>)
  then show ?case using 1 s1 e by (auto split: sum.split)
qed

lemma GrantWrite_writer: "GrantWrite q u now room = (Inl e, room') \<Longrightarrow> r_writerID room' = r_writerID room"
    "GrantWrite q u now room = (Inr (wr, p), room') \<Longrightarrow> r_writerID room' = wr_RequesterID wr"
  by (auto simp: GrantWrite_def Let_def split: option.splits if_splits)

lemma keeps_decide: "share_inv s \<Longrightarrow> share_inv (snd (decideWriteRequest env x g r sid q s))"
  unfolding decideWriteRequest_def
proof (rule member_keeps, assumption, goal_cases)
  case (1 t s')
  let ?u = "fst (caller env x r s)"
  have ref: "share_inv (set_room sid room' s')"
    if "reg_Get sid (sh_rooms s') = Some room" "GrantWrite q ?u (x_now x) room = (Inl e, room')" for room room' e
    using share_inv_room [OF 1(2) that(1), of room'] room_inv_Grant [OF share_invD(2) [OF 1(2) that(1)], of q ?u "x_now x"]
      that(2) GrantWrite_writer(1) [OF that(2)] by simp
  have gr: "share_inv (on_bridge sid (Client_Pool.SetWriter (wr_RequesterID wr)) (set_room sid room' s'))"
    if "reg_Get sid (sh_rooms s') = Some room" "GrantWrite q ?u (x_now x) room = (Inr (wr, p), room')" for room room' wr p
    using share_inv_bridge_room [OF 1(2) that(1), of room' "Client_Pool.SetWriter (wr_RequesterID wr)"]
      room_inv_Grant [OF share_invD(2) [OF 1(2) that(1)], of q ?u "x_now x"] that(2) GrantWrite_writer(2) [OF that(2)]
    by (simp add: pool_inv_SetWriter writes_for_SetWriter)
  have de: "share_inv (set_room sid room' s')"
    if "reg_Get sid (sh_rooms s') = Some room" "DenyWrite q ?u (x_now x) room = Inr (wr, room')" for room room' wr
    by (rule share_inv_room [OF 1(2) that(1) room_inv_Deny [OF share_invD(2) [OF 1(2) that(1)] that(2)]])
      (use that(2) in \<open>auto simp: DenyWrite_def Let_def split: if_splits option.splits\<close>)
  show ?case using 1 ref gr de by (auto split: option.split sum.split prod.split)
qed

lemma keeps_release: "share_inv s \<Longrightarrow> share_inv (snd (handleReleaseWriteToken env x r sid s))"
  unfolding handleReleaseWriteToken_def
proof (rule member_keeps, assumption, goal_cases)
  case (1 t s')
  have "share_inv (on_bridge sid (Client_Pool.SetWriter (r_writerID room')) (set_room sid room' s'))"
    if "reg_Get sid (sh_rooms s') = Some room" "ReleaseWrite (fst (caller env x r s)) room = Inr (p, room')" for room room' p
    by (rule share_inv_bridge_room [OF 1(2) that(1) room_inv_Release [OF share_invD(2) [OF 1(2) that(1)] that(2)]])
      (simp add: pool_inv_SetWriter writes_for_SetWriter)
  then show ?case using 1 by (auto split: option.split sum.split)
qed

text \<open>An attach request only tells the bridge the writer it already has.\<close>

lemma share_inv_SetWriter:
  assumes "share_inv s" "live_session sid s = Some t"
  shows "share_inv (on_bridge sid (Client_Pool.SetWriter (roomWriterID (reg_Get sid (sh_rooms s)))) s)"
proof (cases "br_Get sid s")
  case None
  then show ?thesis using assms by (simp add: on_bridge_def)
next
  case (Some b)
  then obtain room where room: "reg_Get sid (sh_rooms s) = Some room"
    using share_invD(3) [OF assms(1) Some] assms(2) by (auto simp: bridge_ok_def)
  have "bridge_ok (on_bridge sid (Client_Pool.SetWriter (r_writerID room)) s) sid' b'"
    if "br_Get sid' (on_bridge sid (Client_Pool.SetWriter (r_writerID room)) s) = Some b'" for sid' b'
    using that room share_invD(3) [OF assms(1)]
    by (auto simp: bridge_ok_def pool_inv_SetWriter writes_for_SetWriter split: if_splits)
  then show ?thesis using assms(1) room by (auto simp: share_inv_def roomWriterID_def)
qed

lemma byOwner_ok:
  assumes "terminalSessionByOwnerOrParticipant env x sid u viewer s = Inr (t, room)"
  shows "live_session sid s = Some t" "room = reg_Get (s_id t) (sh_rooms s)" "can_access env x u (s_TargetID t) s"
    "viewer \<or> Session.s_UserID t = u \<or> (\<exists>rm. room = Some rm \<and> r_writerID rm = u)"
    "viewer \<Longrightarrow> \<exists>rm. room = Some rm \<and> IsParticipant u rm"
  using assms by (auto simp: terminalSessionByOwnerOrParticipant_def Let_def split: if_splits option.splits)

lemma keeps_attach: "share_inv s \<Longrightarrow> share_inv (snd (handleTerminalAttach env x up gr md u sid s))"
proof -
  assume s: "share_inv s"
  have q: "share_inv (s\<lparr>sh_attach := qs\<rparr>)" for qs by (rule share_inv_cong [OF s]) simp_all
  have w: "share_inv (on_bridge (s_id t) (Client_Pool.SetWriter (roomWriterID room)) (s\<lparr>sh_attach := qs\<rparr>))"
    if "terminalSessionByOwnerOrParticipant env x sid u v s = Inr (t, room)" for t room v qs
    using share_inv_SetWriter [OF q, of sid _ t] byOwner_ok(1,2) [OF that] live_session_ok(1) [OF s] by simp
  show ?thesis using s q w
    by (auto simp: handleTerminalAttach_def Let_def split: sum.split attach_error.split)
qed

lemma outputs_upd: "(\<And>t. s_Output (f t) = s_Output t) \<Longrightarrow>
    map s_Output (m_heap (upd_session ref f m)) = map s_Output (m_heap m)"
  by (simp add: upd_session_def map_update list_update_same_conv)
    (metis length_map list_update_beyond list_update_id not_less nth_map)

lemma outputs_Stop: "map s_Output (m_heap (snd (mgr_Stop e sid m))) = map s_Output (m_heap m)"
  by (auto simp: mgr_Stop_def stop_begin_def stop_select_def goroutine_close_def goroutine_remove_def Let_def outputs_upd
      split: option.split)

lemma manager_ok_outputs:
  "manager_ok (Some m) \<Longrightarrow> entries_ok m' \<Longrightarrow> map s_Output (m_heap m') = map s_Output (m_heap m) \<Longrightarrow> manager_ok (Some m')"
  by (simp add: manager_ok_def) (metis (no_types, opaque_lifting) image_iff list.set_map)

lemma manager_ok_Stop: "manager_ok (Some m) \<Longrightarrow> manager_ok (Some (snd (mgr_Stop e sid m)))"
  using mgr_Stop_stopped [of m sid e] outputs_Stop [of e sid m] manager_ok_outputs
  by (auto simp: stopped_def manager_ok_def)

text \<open>Sessions may go, one session may come.\<close>

lemma share_inv_sessions:
  assumes "share_inv s" "manager_ok (Some m')"
    and "\<And>sid. br_Get sid s \<noteq> None \<Longrightarrow> live_session sid s = None \<Longrightarrow> live_session sid (s\<lparr>sh_terminal := Some m'\<rparr>) = None"
  shows "share_inv (s\<lparr>sh_terminal := Some m'\<rparr>)"
  using assms unfolding share_inv_def bridge_ok_def by (simp; blast)

lemma live_Stop:
  assumes "entries_ok m" "sh_terminal s = Some m"
  shows "live_session sid' (s\<lparr>sh_terminal := Some (snd (mgr_Stop e sid m))\<rparr>) \<noteq> None \<Longrightarrow> live_session sid' s \<noteq> None \<and> sid' \<noteq> sid"
proof -
  assume live: "live_session sid' (s\<lparr>sh_terminal := Some (snd (mgr_Stop e sid m))\<rparr>) \<noteq> None"
  have m': "m_sessions (snd (mgr_Stop e sid m)) = filter (\<lambda>(k, _). k \<noteq> sid) (m_sessions m)"
    using mgr_Stop_stopped [OF assms(1), of sid e] by (simp add: stopped_def)
  have "sid' \<noteq> sid" using live by (auto simp: live_session_def mgr_Get_def m' dest!: map_of_SomeD split: option.splits)
  then have "lookup (m_sessions (snd (mgr_Stop e sid m))) sid' = lookup (m_sessions m) sid'"
    unfolding m' by (rule map_of_filter_key)
  with \<open>sid' \<noteq> sid\<close> live assms(2) show ?thesis by (auto simp: live_session_def mgr_Get_def split: option.splits)
qed

lemma share_inv_end: "share_inv s \<Longrightarrow> share_inv (bridge_end sid s)"
  by (auto simp: share_inv_def bridge_end_def bridge_ok_def Let_def split: if_splits)

lemma share_inv_remove_dead:
  assumes "share_inv s" "live_session sid s = None"
  shows "share_inv (s\<lparr>sh_rooms := reg_Remove sid (sh_rooms s)\<rparr>)"
  using assms by (auto simp: share_inv_def bridge_ok_def split: if_splits)

lemma keeps_delete: "share_inv s \<Longrightarrow> share_inv (snd (handleTerminalSessionDelete env x ends r sid s))"
proof -
  assume s: "share_inv s"
  obtain u s1 where c: "caller env x r s = (u, s1)" by fastforce
  have s1: "share_inv s1" using share_inv_caller [OF s, of env x r] c by simp
  define s2 where "s2 = (if ends then bridge_end sid s1 else s1)"
  have s2: "share_inv s2" "sh_terminal s2 = sh_terminal s1"
    using s1 share_inv_end by (auto simp: s2_def bridge_end_def Let_def)
  have go: "share_inv (s2\<lparr>sh_terminal := Some (snd (mgr_Stop ends sid m)), sh_rooms := reg_Remove sid (sh_rooms s2)\<rparr>)"
    if m: "sh_terminal s1 = Some m" for m
  proof -
    have ok: "manager_ok (Some m)" "entries_ok m" using share_invD(1) [OF s1] m by (auto simp: manager_ok_def)
    let ?s3 = "s2\<lparr>sh_terminal := Some (snd (mgr_Stop ends sid m))\<rparr>"
    have "share_inv ?s3"
      using share_inv_sessions [OF s2(1) manager_ok_Stop [OF ok(1)]] live_Stop [OF ok(2)] s2(2) m by metis
    moreover have "live_session sid ?s3 = None" using live_Stop [OF ok(2)] s2(2) m by metis
    ultimately show ?thesis using share_inv_remove_dead [of ?s3 sid] by simp
  qed
  then show ?thesis using s1 c
    by (auto simp: handleTerminalSessionDelete_def s2_def Let_def split: option.split prod.split)
qed

lemma share_inv_next:
  assumes "share_inv s"
    and "\<And>u q room. attach_queue sid s = (AttachModeWriter, u) # q \<Longrightarrow> reg_Get sid (sh_rooms s) = Some room \<Longrightarrow> u = r_writerID room"
  shows "share_inv (attach_next sid s)"
proof (cases "attach_queue sid s = [] \<or> br_Get sid s = None")
  case True
  then show ?thesis using assms(1) by (auto simp: attach_next_def split: list.split option.split prod.split)
next
  case False
  then obtain mode u q b where q: "attach_queue sid s = (mode, u) # q" and b: "br_Get sid s = Some b"
    by (cases "attach_queue sid s") auto
  note ok = share_invD(3) [OF assms(1) b]
  have "writes_for (snd (attach_register mode u b)) (r_writerID room)" if "reg_Get sid (sh_rooms s) = Some room" for room
    using ok that assms(2) [of u q room] q by (intro writes_for_register) (cases mode; auto simp: bridge_ok_def)+
  then show ?thesis using assms(1) q b ok
    by (auto simp: share_inv_def attach_next_def bridge_ok_def pool_inv_register split: if_splits)
qed

lemma pool_inv_new: "ring_inv (s_Output t) \<Longrightarrow> pool_inv (new_pool t msg)"
  by (auto simp: pool_inv_def new_pool_def writes_for_def)

lemma share_inv_start:
  assumes "share_inv s" "live_session sid s = Some t"
    and "\<And>room. reg_Get sid (sh_rooms s) = Some room \<Longrightarrow> r_writerID room = Session.s_UserID t"
  shows "share_inv (bridge_start x t msg s)"
proof -
  obtain room s1 where e: "ensureRoomFor x t s = (room, s1)" by fastforce
  note t = live_session_ok [OF assms(1,2)]
  have s1: "share_inv s1" "reg_Get sid (sh_rooms s1) = Some room"
    using share_inv_ensure(1,2) [OF assms(1,2), of x] e by simp_all
  have "r_writerID room = Session.s_UserID t"
    using e assms(3) t by (auto simp: ensureRoomFor_def EnsureRoom_def reg_Get_def Let_def new_room_def split: option.splits)
  then have "writes_for (snd (attach_register AttachModeWriter (Session.s_UserID t) (new_pool t msg))) (r_writerID room)"
    by (intro writes_for_register) (simp_all add: pool_inv_new t)
  then show ?thesis using s1 e t
    by (auto simp: share_inv_def bridge_start_def bridge_ok_def pool_inv_register pool_inv_new split: if_splits)
qed

subsection \<open>Runs\<close>

datatype share_op =
    ReqCreateInvitation http_req string "createInvitationRequest option"
  | ReqRegenerate http_req string string
  | ReqRevoke http_req string string
  | ReqJoin http_req string "joinInvitationBody option"
  | ReqParticipants http_req string
  | ReqKick http_req string string
  | ReqWrite http_req string
  | ReqDecide bool http_req string string
  | ReqRelease http_req string
  | ReqAttach bool bool string string string
  | ReqDelete bool http_req string

fun share_apply :: "share_env \<Rightarrow> request_ext \<Rightarrow> share_op \<Rightarrow> ShareApp \<Rightarrow> ShareApp" where
  "share_apply env x (ReqCreateInvitation r sid body) s = snd (handleCreateInvitation env x r sid body s)"
| "share_apply env x (ReqRegenerate r sid iid) s = snd (handleRegenerateInvitationJoinURL env x r sid iid s)"
| "share_apply env x (ReqRevoke r sid iid) s = snd (handleRevokeInvitation env x r sid iid s)"
| "share_apply env x (ReqJoin r sid body) s = snd (handleJoinSession env x r sid body s)"
| "share_apply env x (ReqParticipants r sid) s = snd (handleListParticipants env x r sid s)"
| "share_apply env x (ReqKick r sid u) s = snd (handleKickParticipant env x r sid u s)"
| "share_apply env x (ReqWrite r sid) s = snd (handleCreateWriteRequest env x r sid s)"
| "share_apply env x (ReqDecide g r sid q) s = snd (decideWriteRequest env x g r sid q s)"
| "share_apply env x (ReqRelease r sid) s = snd (handleReleaseWriteToken env x r sid s)"
| "share_apply env x (ReqAttach up gr md u sid) s = snd (handleTerminalAttach env x up gr md u sid s)"
| "share_apply env x (ReqDelete ends r sid) s = snd (handleTerminalSessionDelete env x ends r sid s)"

lemma share_apply_keeps: "share_inv s \<Longrightarrow> share_inv (share_apply env x op s)"
  by (cases op) (simp_all add: keeps_create keeps_regenerate keeps_revoke keeps_join keeps_participants keeps_kick
      keeps_write_request keeps_decide keeps_release keeps_attach keeps_delete)

text \<open>
  The steps of the server around shared sessions.  A bridge takes a client off its channel; a
  client that attaches in writer mode is the holder of the write token when the bridge takes it.
  A session starts under an identifier no bridge is registered for; its own bridge starts while
  the owner still holds the token.
\<close>

inductive share_step :: "share_env \<Rightarrow> ShareApp \<Rightarrow> ShareApp \<Rightarrow> bool" for env where
  request: "share_step env s (share_apply env x op s)"
| accounts: "share_step env s (s\<lparr>sh_db := db\<rparr>)"
| taken: "(\<And>u q room. attach_queue sid s = (AttachModeWriter, u) # q \<Longrightarrow> reg_Get sid (sh_rooms s) = Some room \<Longrightarrow>
     u = r_writerID room) \<Longrightarrow> share_step env s (attach_next sid s)"
| left: "share_step env s (on_bridge sid (detachEntry i) s)"
| printed: "share_step env s (on_bridge sid (deliver mk dead p) s)"
| started: "sh_terminal s = Some m \<Longrightarrow> br_Get sid s = None \<Longrightarrow> mgr_Start sid opts n1 n2 m = Inr (ref, m') \<Longrightarrow>
     share_step env s (s\<lparr>sh_terminal := Some m'\<rparr>)"
| bridge: "live_session sid s = Some t \<Longrightarrow> (\<And>room. reg_Get sid (sh_rooms s) = Some room \<Longrightarrow> r_writerID room = Session.s_UserID t) \<Longrightarrow>
     share_step env s (bridge_start x t msg s)"
| returned: "share_step env s (bridge_end sid s)"
| gone: "sh_terminal s = Some m \<Longrightarrow> mgr_Get sid m = Some ref \<Longrightarrow>
     share_step env s (s\<lparr>sh_terminal := Some (goroutine_close ref (goroutine_remove ref m))\<rparr>)"

inductive share_run :: "share_env \<Rightarrow> ShareApp \<Rightarrow> ShareApp \<Rightarrow> bool" for env s0 where
  here: "share_run env s0 s0"
| next_step: "share_run env s0 s \<Longrightarrow> share_step env s s' \<Longrightarrow> share_run env s0 s'"

lemma updated_entries: "set (AList.update k v xs) \<subseteq> insert (k, v) (set xs)"
  by (induction xs) auto

lemma share_inv_started:
  assumes "share_inv s" "sh_terminal s = Some m" "br_Get sid s = None" "mgr_Start sid opts n1 n2 m = Inr (ref, m')"
  shows "share_inv (s\<lparr>sh_terminal := Some m'\<rparr>)"
proof -
  have m: "entries_ok m" "\<forall>t \<in> set (m_heap m). ring_inv (s_Output t)"
    using share_invD(1) [OF assms(1)] assms(2) by (auto simp: manager_ok_def)
  obtain t where m': "m' = m\<lparr>m_heap := m_heap m @ [t], m_sessions := AList.update sid (length (m_heap m)) (m_sessions m)\<rparr>"
    and t: "s_id t = sid" "s_goroutine t = InBridge" "ring_inv (s_Output t)"
    using assms(4) by (auto simp: mgr_Start_def Let_def ring.new_inv split: if_splits)
  have "entry_ok m' e" if "e \<in> set (m_sessions m')" for e
  proof -
    have "e = (sid, length (m_heap m)) \<or> e \<in> set (m_sessions m)"
      using that updated_entries [of sid "length (m_heap m)" "m_sessions m"] by (auto simp: m')
    then show ?thesis using m(1) t by (auto simp: m' entries_ok_def list_all_iff entry_ok_def nth_append)
  qed
  then have "manager_ok (Some m')" using m t by (auto simp: manager_ok_def entries_ok_def list_all_iff m')
  then show ?thesis
    by (rule share_inv_sessions [OF assms(1)]) (use assms(2,3) in \<open>auto simp: live_session_def mgr_Get_def m' split: option.splits\<close>)
qed

lemma share_inv_gone:
  assumes "share_inv s" "sh_terminal s = Some m" "mgr_Get sid m = Some ref"
  shows "share_inv (s\<lparr>sh_terminal := Some (goroutine_close ref (goroutine_remove ref m))\<rparr>)"
proof -
  let ?m = "goroutine_close ref (goroutine_remove ref m)"
  have m: "manager_ok (Some m)" "entries_ok m" using share_invD(1) [OF assms(1)] assms(2) by (auto simp: manager_ok_def)
  then have ref: "ref < length (m_heap m)" "s_id (m_heap m ! ref) = sid"
    using map_of_SomeD assms(3) by (fastforce simp: mgr_Get_def entries_ok_def list_all_iff entry_ok_def)+
  have ms: "m_sessions ?m = filter (\<lambda>(k, _). k \<noteq> sid) (m_sessions m)"
    using ref by (auto simp: goroutine_close_def goroutine_remove_def AList.delete_eq intro!: filter_cong)
  have "entries_ok ?m" using m(2) ref
    by (auto simp: entries_ok_def list_all_iff entry_ok_def ms) (auto simp: goroutine_close_def goroutine_remove_def upd_session_def nth_list_update)
  then have "manager_ok (Some ?m)"
    by (rule manager_ok_outputs [OF m(1)]) (simp add: goroutine_close_def goroutine_remove_def outputs_upd)
  then show ?thesis
  proof (rule share_inv_sessions [OF assms(1)])
    fix sid' assume "live_session sid' s = None"
    then have "lookup (m_sessions m) sid' = None" using assms(2) by (auto simp: live_session_def mgr_Get_def split: option.splits)
    then have "lookup (m_sessions ?m) sid' = None" by (auto simp: ms map_of_eq_None_iff)
    then show "live_session sid' (s\<lparr>sh_terminal := Some ?m\<rparr>) = None" by (simp add: live_session_def mgr_Get_def)
  qed
qed

lemma share_step_keeps: "share_step env s s' \<Longrightarrow> share_inv s \<Longrightarrow> share_inv s'"
proof (induction rule: share_step.induct)
  case (accounts s db)
  then show ?case by (rule share_inv_cong) simp_all
next
  case (left s sid i)
  then show ?case by (rule share_inv_on_bridge) (simp add: pool_inv_detachEntry writes_for_detach)
next
  case (printed s sid mk dead p)
  then show ?case by (rule share_inv_on_bridge) (simp add: pool_inv_deliver writes_for_deliver)
qed (blast intro: share_apply_keeps share_inv_next share_inv_started share_inv_start share_inv_end share_inv_gone)+

lemma share_run_keeps: "share_run env s0 s \<Longrightarrow> share_inv s0 \<Longrightarrow> share_inv s"
  by (induction rule: share_run.induct) (auto intro: share_step_keeps)

definition idle_app :: "ShareApp \<Rightarrow> bool" where
  "idle_app s = (sh_terminal s = Some NewManager \<and> sh_rooms s = NewRegistry \<and> sh_bridges s = [] \<and> sh_attach s = [])"

lemma share_inv_idle: "idle_app s \<Longrightarrow> share_inv s"
  by (auto simp: idle_app_def share_inv_def manager_ok_def NewManager_def entries_ok_def NewRegistry_def reg_Get_def br_Get_def)



subsection \<open>A sample session\<close>

definition demo_share_env :: share_env where
  "demo_share_env = \<lparr>sx_guard = demo_genv, sx_targets = Access_Targets.demo_env, sx_HashToken = (\<lambda>p. CHR ''#'' # p),
     sx_max_ttl = [], sx_require_recording = [], sx_recordings_dir = []\<rparr>"

definition demo_ext :: request_ext where
  "demo_ext = \<lparr>x_now = time_unix 9, x_clock = (\<lambda>_. time_unix 9), x_dead = [], x_token = (\<lambda>k. CHR ''t'' # replicate k (CHR ''x''))\<rparr>"

definition demo_share_db :: AuthDB where
  "demo_share_db = demo_accounts\<lparr>a_access := demo_db\<lparr>db_user_groups := [], db_group_targets := [],
     db_group_tags := [], db_target_tags := [(''t1'', ''lab'')], db_user_tags := [(''alice'', ''lab''), (''bob'', ''lab'')]\<rparr>\<rparr>"

definition demo_idle :: ShareApp where
  "demo_idle = \<lparr>sh_db = demo_share_db, sh_terminal = Some NewManager, sh_rooms = NewRegistry,
     sh_store = Some empty_store, sh_bridges = [], sh_attach = []\<rparr>"

definition demo_session_obj :: Session where
  "demo_session_obj = \<lparr>s_id = ''s1'', s_createdAt = 5, s_lastSeen = 6, s_keep = False, s_UserID = ''alice'',
     s_TargetID = ''t1'', s_TargetName = ''box'', s_Name = [], s_Description = [],
     s_Output = NewRingBuffer DefaultRingBufferSize, s_cancelled = False, s_goroutine = InBridge\<rparr>"

definition demo_manager :: Manager where
  "demo_manager = NewManager\<lparr>m_heap := [demo_session_obj], m_sessions := [(''s1'', 0)]\<rparr>"

definition demo_started :: ShareApp where
  "demo_started = demo_idle\<lparr>sh_terminal := Some demo_manager\<rparr>"

definition demo_shared :: ShareApp where
  "demo_shared = bridge_start demo_ext demo_session_obj ''bye'' demo_started"

lemma demo_live: "live_session ''s1'' (demo_idle\<lparr>sh_terminal := Some demo_manager\<rparr>) = Some demo_session_obj"
  by (simp add: live_session_def mgr_Get_def demo_manager_def)

lemma demo_shared_run: "share_run demo_share_env demo_idle demo_shared"
proof -
  have "share_step demo_share_env demo_idle demo_started"
    unfolding demo_started_def
  proof (rule share_step.started)
    show "mgr_Start ''s1'' Session_Manager.demo_opts 5 6 NewManager = Inr (0, demo_manager)"
      by (simp add: mgr_Start_def NewManager_def demo_manager_def demo_session_obj_def Session_Manager.demo_opts_def Let_def)
  qed (simp_all add: demo_idle_def br_Get_def)
  moreover have "share_step demo_share_env demo_started demo_shared"
    unfolding demo_shared_def by (rule share_step.bridge [of "''s1''"])
      (simp_all add: demo_started_def demo_live, simp add: demo_idle_def NewRegistry_def reg_Get_def)
  ultimately show ?thesis by (meson share_run.intros)
qed

lemma demo_idle_ok: "idle_app demo_idle"
  by (simp add: idle_app_def demo_idle_def)

lemmas demo_shared_simps = demo_shared_def bridge_start_def ensureRoomFor_def EnsureRoom_def new_room_def Let_def
  demo_started_def demo_idle_def NewRegistry_def demo_session_obj_def demo_ext_def br_Register_def br_Get_def reg_Get_def
  attach_register_def demoteOtherWritersLocked_def upd_clients_def upd_at_def new_pool_def



end
