(* ===== verification/Sharing_Joins.thy ===== *)
theory Sharing_Joins
  imports Sharing_Sessions
begin

text \<open>
  Who gets into a shared session: the invitations the handlers issue, how the join handler of the
  HTTP layer compares with the shared join service, and what happens to the write token when the
  owner reconnects.
\<close>

subsection \<open>Reconnecting while somebody else holds the token\<close>

lemma attach_register_writer:
  assumes "pool_inv b" "attach_register AttachModeWriter u b = (i, b')"
  shows "i \<in> set (p_clients b')" "ce_canWrite (p_entries b' ! i)" "ce_userID (p_entries b' ! i) = u"
    "j \<in> set (p_clients b') \<Longrightarrow> j \<noteq> i \<Longrightarrow> \<not> ce_canWrite (p_entries b' ! j)"
proof -
  have lt: "k < length (p_entries b)" if "k \<in> set (p_clients b)" for k using assms(1) that by (auto simp: pool_inv_def)
  show "i \<in> set (p_clients b')" "ce_canWrite (p_entries b' ! i)" "ce_userID (p_entries b' ! i) = u"
    using assms(2) by (auto simp: attach_register_def Let_def demoteOtherWritersLocked_def upd_clients_def nth_append)
  show "\<not> ce_canWrite (p_entries b' ! j)" if "j \<in> set (p_clients b')" "j \<noteq> i"
    using assms(2) demoted(2) [OF assms(1), of j] lt that
    by (auto simp: attach_register_def Let_def demoteOtherWritersLocked_def upd_clients_def nth_append)
qed

text \<open>
  C20. The owner takes the keyboard back without the token: when a guest holds the write token and
  the owner's browser reconnects (attach in writer mode, which the owner may always do), the
  handler first queues the new client and tells the bridge the room's writer, and only then does
  the bridge register the client, as a writer that demotes all others.  Afterwards the room still
  names the guest, but the owner's client types and none of the guest's clients does.
\<close>

theorem writer_attach_steals:
  assumes "share_inv s" "live_session sid s = Some t" "reg_Get sid (sh_rooms s) = Some room"
    and "r_writerID room = guest" "guest \<noteq> Session.s_UserID t" "can_access env x (Session.s_UserID t) (s_TargetID t) s"
    and "br_Get sid s = Some b" "attach_queue sid s = []"
    and "(res, s1) = handleTerminalAttach env x True True [] (Session.s_UserID t) sid s" "s2 = attach_next sid s1"
  shows "res = Inr True \<and> reg_Get sid (sh_rooms s2) = Some room \<and> r_writerID room = guest
    \<and> (\<exists>b'. br_Get sid s2 = Some b'
        \<and> (\<exists>i \<in> set (p_clients b'). ce_canWrite (p_entries b' ! i) \<and> ce_userID (p_entries b' ! i) = Session.s_UserID t)
        \<and> (\<forall>i \<in> set (p_clients b'). ce_userID (p_entries b' ! i) = guest \<longrightarrow> \<not> ce_canWrite (p_entries b' ! i)))"
proof -
  note sid = live_session_ok(1) [OF assms(1,2)]
  let ?b = "Client_Pool.SetWriter guest b"
  have tm: "sh_terminal s \<noteq> None" using assms(2) by (auto simp: live_session_def split: option.splits)
  have "terminalSessionByOwnerOrParticipant env x sid (Session.s_UserID t) False s = Inr (t, Some room)"
    using assms(2,3,6) sid tm by (simp add: terminalSessionByOwnerOrParticipant_def Let_def)
  then have att: "res = Inr True" "s1 = on_bridge sid (Client_Pool.SetWriter guest)
      (s\<lparr>sh_attach := AList.update sid [(AttachModeWriter, Session.s_UserID t)] (sh_attach s)\<rparr>)"
    using assms(4,8,9) sid
    by (simp_all add: handleTerminalAttach_def Let_def trim_space_Nil to_lower_def attachChannelBuffer_def roomWriterID_def)
  have q: "attach_queue sid s1 = [(AttachModeWriter, Session.s_UserID t)]"
    by (simp add: att attach_queue_def on_bridge_def br_Register_def split: option.split)
  obtain i b' where reg: "attach_register AttachModeWriter (Session.s_UserID t) ?b = (i, b')" by fastforce
  have inv: "pool_inv ?b" using share_invD(4) [OF assms(1,7)] by (rule pool_inv_SetWriter)
  have s1: "br_Get sid s1 = Some ?b" "sh_rooms s1 = sh_rooms s" using assms(7) by (simp_all add: att)
  then have s2: "br_Get sid s2 = Some b'" "sh_rooms s2 = sh_rooms s"
    using q reg assms(10) by (simp_all add: attach_next_def)
  have "\<not> ce_canWrite (p_entries b' ! j)" if "j \<in> set (p_clients b')" "ce_userID (p_entries b' ! j) = guest" for j
    using attach_register_writer(3,4) [OF inv reg] that assms(5) by blast
  then show ?thesis using att(1) s2 assms(3,4) attach_register_writer(1-3) [OF inv reg] by auto
qed

subsection \<open>The join handler and the join service\<close>

text \<open>The access check the HTTP layer would hand to the service.\<close>

definition service_access :: "share_env \<Rightarrow> request_ext \<Rightarrow> ShareApp \<Rightarrow> unit access_check" where
  "service_access env x s = (\<lambda>userID targetID. Inr (can_access env x userID targetID s))"

text \<open>What the handler has established when it comes to the invitation.\<close>

definition join_ready ::
  "share_env \<Rightarrow> request_ext \<Rightarrow> http_req \<Rightarrow> string \<Rightarrow> joinInvitationBody option \<Rightarrow> ShareApp \<Rightarrow> string \<Rightarrow> SQLiteStore \<Rightarrow> Invitation \<Rightarrow> Room \<Rightarrow> bool" where
  "join_ready env x r sid raw s u st i room =
     (share_inv s \<and> sh_store s = Some st \<and> fst (caller env x r s) = u \<and> u \<noteq> [] \<and> sid \<noteq> []
      \<and> live_session sid s \<noteq> None \<and> \<not> sharingRecordingRequired env
      \<and> (\<exists>b. decodeJoinInvitationBody raw = Some b \<and> lookupJoinInvitation env b st = Inr i)
      \<and> i_SessionID i = sid \<and> i_SessionKind i = KindTerminal \<and> reg_Get sid (sh_rooms s) = Some room)"

lemma handleJoinSession_ready:
  assumes "join_ready env x r sid raw s u st i room"
  shows "handleJoinSession env x r sid raw s = (case validateJoinInvitation env x i u sid KindTerminal s of
       Some e \<Rightarrow> (Inl e, snd (caller env x r s))
     | None \<Rightarrow> join_with x (the (live_session sid s)) u i st (snd (caller env x r s)))"
    "s_id (the (live_session sid s)) = sid" "live_session sid s = Some (the (live_session sid s))"
proof -
  obtain t where t: "live_session sid s = Some t" using assms by (auto simp: join_ready_def)
  have sid: "s_id t = sid" using live_session_ok(1) [OF _ t] assms by (simp add: join_ready_def)
  obtain s1 where c: "caller env x r s = (u, s1)" using assms by (cases "caller env x r s") (auto simp: join_ready_def)
  have s1: "live_session sid s1 = Some t" "can_access env x v tid s1 = can_access env x v tid s" for v tid
    using live_caller [of sid env x r s] can_access_caller [of env x v tid r s] c t by simp_all
  then have v: "validateJoinInvitation env x i u sid KindTerminal s1 = validateJoinInvitation env x i u sid KindTerminal s"
    by (simp add: validateJoinInvitation_def)
  obtain b where b: "decodeJoinInvitationBody raw = Some b" "lookupJoinInvitation env b st = Inr i"
    using assms by (auto simp: join_ready_def)
  then have "\<not> (jb_InvitationID b = [] \<and> jb_InvitationToken b = [])" by (auto simp: lookupJoinInvitation_def Let_def)
  then show "handleJoinSession env x r sid raw s = (case validateJoinInvitation env x i u sid KindTerminal s of
       Some e \<Rightarrow> (Inl e, snd (caller env x r s))
     | None \<Rightarrow> join_with x (the (live_session sid s)) u i st (snd (caller env x r s)))"
    using assms c s1(1) b sid t by (auto simp: handleJoinSession_def join_ready_def v split: option.split)
  show "s_id (the (live_session sid s)) = sid" "live_session sid s = Some (the (live_session sid s))" using sid t by simp_all
qed

lemma ensureRoomFor_existing:
  "reg_Get (s_id t) (sh_rooms s) = Some room \<Longrightarrow> ensureRoomFor x t s = (room, s)"
  by (simp add: ensureRoomFor_def EnsureRoom_def reg_Get_def Let_def)

lemma enter_existing:
  "reg_Get (s_id t) (sh_rooms s) = Some room \<Longrightarrow> enter_room x t u iid s =
     (if IsKicked u room then (Inl (403, ''sharing.userKicked''), s)
      else case AddViewer u (usernameFor u (sh_db s)) iid (x_now x) room of
        Inl e \<Rightarrow> (Inl (if e = ErrUserKicked then (403, ''sharing.userKicked'') else internal_error), s)
      | Inr room' \<Rightarrow> (Inr (s_id t), set_room (s_id t) room' s))"
  by (simp add: enter_room_def ensureRoomFor_existing)

lemma usernameFor_users: "a_users db = a_users db' \<Longrightarrow> usernameFor u db = usernameFor u db'"
  using GetByID_users [of db db' u] by (simp add: usernameFor_def)

text \<open>
  C22. The join handler of terminal sessions, which the code writes out, does what the shared join
  service does: for a user the owner has not removed from an existing room, both accept the same
  invitations and leave the same invitation table and the same registry of rooms.
\<close>

theorem join_agrees_with_service:
  assumes "join_ready env x r sid raw s u st i room" "\<not> IsKicked u room"
    and "(res, s') = handleJoinSession env x r sid raw s"
    and "(res', st', reg') = JoinRoom True RecordUse (Some (service_access env x s)) i u (usernameFor u (sh_db s))
       (x_now x) rnow (st, sh_rooms s)"
  shows "sh_store s' = Some st' \<and> sh_rooms s' = reg' \<and> isl res = isl res'"
proof -
  let ?s1 = "snd (caller env x r s)" and ?t = "the (live_session sid s)"
  note h = handleJoinSession_ready [OF assms(1)]
  have j: "sh_store s = Some st" "i_SessionID i = sid" "i_SessionKind i = KindTerminal" "reg_Get sid (sh_rooms s) = Some room"
    using assms(1) by (simp_all add: join_ready_def)
  have ens: "EnsureRoom sid tid o1 o2 rnow (sh_rooms s) = (room, sh_rooms s)" for tid o1 o2
    using j(4) by (simp add: EnsureRoom_def reg_Get_def)
  have un: "usernameFor u (sh_db ?s1) = usernameFor u (sh_db s)" by (rule usernameFor_users) simp
  have ent: "enter_room x ?t u (i_ID i) (?s1\<lparr>sh_store := v\<rparr>) = (case AddViewer u (usernameFor u (sh_db s)) (i_ID i) (x_now x) room of
        Inl e \<Rightarrow> (Inl (if e = ErrUserKicked then (403, ''sharing.userKicked'') else internal_error), ?s1\<lparr>sh_store := v\<rparr>)
      | Inr room' \<Rightarrow> (Inr sid, set_room sid room' (?s1\<lparr>sh_store := v\<rparr>)))" for v
    using enter_existing [of ?t "?s1\<lparr>sh_store := v\<rparr>" room x u "i_ID i"] j(4) assms(2) un h(2) by (simp split: sum.split)
  show ?thesis
  proof (cases "validateJoinInvitation env x i u sid KindTerminal s")
    case (Some e)
    then have "\<not> (Active (x_now x) i \<and> (IsLink i \<or> equal_fold (i_InviteeUserID i) u) \<and> u \<noteq> i_OwnerUserID i
        \<and> can_access env x (i_OwnerUserID i) (i_TargetID i) s \<and> can_access env x u (i_TargetID i) s)"
      using j by (auto simp: validateJoinInvitation_def split: if_splits)
    then have "isl res'" "st' = st" "reg' = sh_rooms s" using assms(2,4) j
      by (auto simp: JoinRoom_def check_access_def service_access_def split: if_splits bool.splits)
    then show ?thesis using Some h assms(3) j(1) by simp
  next
    case None
    then have "Active (x_now x) i" "IsLink i \<or> equal_fold (i_InviteeUserID i) u" "u \<noteq> i_OwnerUserID i"
        "can_access env x (i_OwnerUserID i) (i_TargetID i) s" "can_access env x u (i_TargetID i) s"
      using j by (auto simp: validateJoinInvitation_def split: if_splits)
    then show ?thesis using assms(2-4) j None
      by (auto simp: h(1) JoinRoom_def check_access_def service_access_def join_with_def ent ens set_room_def
          split: sum.splits if_splits)
  qed
qed

text \<open>
  A removed user still uses up an invitation: the handler records the use before it looks at
  the room, so a join that is refused because the owner removed the user consumes a use of the
  invitation (a tag or group invitation does not lift the removal and is then spent), while the
  join service refuses the same join without touching the table.
\<close>

theorem kicked_join_burns_use:
  assumes "join_ready env x r sid raw s u st i room" "IsKicked u room" "store_wf st"
    and "validateJoinInvitation env x i u sid KindTerminal s = None" "RecordUse (i_ID i) u (x_now x) st = Inr st'"
    and "(res, s') = handleJoinSession env x r sid raw s"
  shows "res = Inl (403, ''sharing.userKicked'') \<and> sh_store s' = Some st' \<and> sh_rooms s' = sh_rooms s
    \<and> map_option i_UseCount (load_invitation (i_ID i) st') = map_option (\<lambda>i. i_UseCount i + 1) (load_invitation (i_ID i) st)
    \<and> JoinRoom True RecordUse (Some (service_access env x s)) i u n (x_now x) rnow (st, sh_rooms s)
        = (Inl (JoinSharing ErrUserKicked), st, sh_rooms s)"
proof -
  let ?s1 = "snd (caller env x r s)" and ?t = "the (live_session sid s)"
  note h = handleJoinSession_ready [OF assms(1)]
  have j: "i_SessionID i = sid" "reg_Get sid (sh_rooms s) = Some room"
    using assms(1) by (simp_all add: join_ready_def)
  have "enter_room x ?t u (i_ID i) (?s1\<lparr>sh_store := Some st'\<rparr>) = (Inl (403, ''sharing.userKicked''), ?s1\<lparr>sh_store := Some st'\<rparr>)"
    using enter_existing [of ?t "?s1\<lparr>sh_store := Some st'\<rparr>" room x u "i_ID i"] j(2) assms(2) h(2) by simp
  then have "res = Inl (403, ''sharing.userKicked'')" "s' = ?s1\<lparr>sh_store := Some st'\<rparr>"
    using assms(4-6) h(1) by (simp_all add: join_with_def)
  moreover have "JoinRoom True RecordUse (Some (service_access env x s)) i u n (x_now x) rnow (st, sh_rooms s)
        = (Inl (JoinSharing ErrUserKicked), st, sh_rooms s)"
    using assms(2,4) j by (auto simp: JoinRoom_def validateJoinInvitation_def split: if_splits)
  ultimately show ?thesis using sqlite.use_counts [OF assms(3,5)] by simp
qed

subsection \<open>Removing a participant\<close>

lemma DetachUser_clients: "u \<noteq> [] \<Longrightarrow> i \<in> set (p_clients (Client_Pool.DetachUser dead u b)) \<Longrightarrow> pool_inv b \<Longrightarrow>
    ce_userID (p_entries (Client_Pool.DetachUser dead u b) ! i) \<noteq> u"
  by (auto simp: Client_Pool.DetachUser_def Let_def pool_inv_def)

lemma SetWriter_clients: "p_clients (Client_Pool.SetWriter w b) = p_clients b"
  "i < length (p_entries b) \<Longrightarrow> ce_userID (p_entries (Client_Pool.SetWriter w b) ! i) = ce_userID (p_entries b ! i)"
  by (simp_all add: Client_Pool.SetWriter_def upd_clients_def)

lemma RemoveParticipant_out:
  assumes "RemoveParticipant u clock room = Inr room'"
  shows "\<not> IsParticipant u room'" "IsKicked u room'" "r_writerID room' \<noteq> u" "u \<noteq> r_ownerID room"
  using assms by (auto simp: RemoveParticipant_def IsParticipant_def IsKicked_def split: if_splits)

lemma drop_clients:
  assumes "share_inv s" "u \<noteq> []" "br_Get sid (bridge_drop x sid u w (set_room sid room' s)) = Some b" "i \<in> set (p_clients b)"
  shows "ce_userID (p_entries b ! i) \<noteq> u"
proof -
  obtain b0 where b0: "br_Get sid s = Some b0" "b = Client_Pool.SetWriter w (Client_Pool.DetachUser (x_dead x) u b0)"
    using assms(3) by (auto simp: bridge_drop_def)
  have d: "pool_inv (Client_Pool.DetachUser (x_dead x) u b0)" using share_invD(4) [OF assms(1) b0(1)] by (rule pool_inv_DetachUser)
  then have "i < length (p_entries (Client_Pool.DetachUser (x_dead x) u b0))"
    using assms(4) b0(2) by (simp add: pool_inv_def SetWriter_clients)
  then show ?thesis
    using DetachUser_clients [OF assms(2) _ share_invD(4) [OF assms(1) b0(1)], of i "x_dead x"] assms(4) b0(2)
    by (simp add: SetWriter_clients)
qed

lemma kick_ok:
  assumes "share_inv s" "handleKickParticipant env x r sid u s = (Inr (), s')"
  obtains t room room' where "live_session sid s = Some t" "reg_Get sid (sh_rooms s) = Some room" "u \<noteq> []" "u \<noteq> Session.s_UserID t"
    "RemoveParticipant u (x_clock x) room = Inr room'"
    "s' = bridge_drop x sid u (r_writerID room') (set_room sid room' (snd (caller env x r s)))"
proof (cases rule: loadOwned_cases [of env x r sid s])
  case (owner t)
  then obtain room room' where k: "trim_space u \<noteq> []" "u \<noteq> Session.s_UserID t" "reg_Get sid (sh_rooms s) = Some room"
    "RemoveParticipant u (x_clock x) room = Inr room'"
    "s' = bridge_drop x sid u (r_writerID room') (set_room sid room' (snd (caller env x r s)))"
    using assms(2) live_session_ok(1) [OF assms(1) owner(2)]
    by (auto simp: handleKickParticipant_def split: if_splits option.splits sum.splits)
  have "u \<noteq> []" using k(1) by auto
  then show ?thesis by (rule that [OF owner(2) k(3) _ k(2,4,5)])
qed (use assms(2) in \<open>simp add: handleKickParticipant_def\<close>)


text \<open>
  C21. The one way around a removal: a viewer whose attach request is still queued when the owner
  removes the user is attached afterwards.  The handler detaches the clients the bridge has, but
  leaves the session's attach channel alone, and the bridge registers what it finds there without
  looking at the room, so the removed user goes on reading the session.
\<close>

theorem queued_viewer_survives_kick:
  assumes "share_inv s" "handleKickParticipant env x r sid u s = (Inr (), s')"
    and "attach_queue sid s = [(AttachModeViewer, u)]" "br_Get sid s = Some b"
  shows "\<exists>b' room. br_Get sid (attach_next sid s') = Some b' \<and> reg_Get sid (sh_rooms (attach_next sid s')) = Some room
    \<and> IsKicked u room \<and> (\<exists>i \<in> set (p_clients b'). ce_userID (p_entries b' ! i) = u)"
proof -
  obtain t room room' where k: "reg_Get sid (sh_rooms s) = Some room" "RemoveParticipant u (x_clock x) room = Inr room'"
    "s' = bridge_drop x sid u (r_writerID room') (set_room sid room' (snd (caller env x r s)))"
    by (rule kick_ok [OF assms(1,2)]) (rule that; assumption)
  obtain b1 where b1: "br_Get sid s' = Some b1" using assms(4) by (simp add: k(3) bridge_drop_def)
  have q: "attach_queue sid s' = [(AttachModeViewer, u)]"
    using assms(3) by (auto simp: k(3) bridge_drop_def attach_queue_def on_bridge_def br_Register_def set_room_def split: option.splits)
  have room: "reg_Get sid (sh_rooms s') = Some room'" by (simp add: k(3) bridge_drop_def)
  obtain i b2 where reg: "attach_register AttachModeViewer u b1 = (i, b2)" by fastforce
  have "br_Get sid (attach_next sid s') = Some b2" "sh_rooms (attach_next sid s') = sh_rooms s'"
    using q b1 reg by (simp_all add: attach_next_def)
  moreover have "i \<in> set (p_clients b2)" "ce_userID (p_entries b2 ! i) = u"
    using reg by (auto simp: attach_register_def Let_def nth_append)
  ultimately show ?thesis using room RemoveParticipant_out(2) [OF k(2)] by auto
qed

subsection \<open>The invitations the handlers issue\<close>

definition rows :: "ShareApp \<Rightarrow> inv_row set" where
  "rows s = (case sh_store s of None \<Rightarrow> {} | Some st \<Rightarrow> set (st_invitations st))"

definition issued :: "request_ext \<Rightarrow> Session \<Rightarrow> duration \<Rightarrow> string \<Rightarrow> inv_row \<Rightarrow> bool" where
  "issued x t ttl v c = (c_session_id c = s_id t \<and> c_session_kind c = KindTerminal \<and> c_target_id c = s_TargetID t
     \<and> c_owner_user_id c = Session.s_UserID t \<and> c_invitee_user_id c = nullableUser v
     \<and> c_use_count c = 0 \<and> c_used_at c = None \<and> c_revoked_at c = None \<and> c_expires_at c = unix (x_now x + ttl))"

lemma rows_simps [simp]:
  "rows (set_room sid room s) = rows s" "rows (s\<lparr>sh_db := db\<rparr>) = rows s" "rows (snd (caller env x r s)) = rows s"
  "rows (snd (ensureRoomFor x t s)) = rows s"
  by (simp_all add: rows_def set_room_def ensureRoomFor_def Let_def split: prod.split)

lemma record_rows:
  "rows (snd (createInvitationRecord env x k t (Session.s_UserID t) v g tg md ttl mu s)) \<subseteq> rows s \<union> {c. issued x t ttl v c}"
  by (auto simp: createInvitationRecord_def new_invitation_def inv_Create_def rows_def issued_def Let_def
      split: option.splits sum.splits if_splits)

lemma record_access: "sh_db (snd (createInvitationRecord env x k t o1 v g tg md ttl mu s)) = sh_db s"
  by (simp add: createInvitationRecord_def Let_def split: option.split sum.split)

lemma members_rows:
  "rows (snd (invite_members env x k t (Session.s_UserID t) g tg md ttl uids s))
     \<subseteq> rows s \<union> {c. \<exists>v \<in> set uids. v \<noteq> Session.s_UserID t \<and> issued x t ttl v c}"
proof (induction uids arbitrary: k s)
  case (Cons u uids)
  show ?case
  proof (cases "u = Session.s_UserID t")
    case False
    obtain res s1 where c: "createInvitationRecord env x k t (Session.s_UserID t) u g tg md ttl None s = (res, s1)" by fastforce
    have s1: "rows s1 \<subseteq> rows s \<union> {c. issued x t ttl u c}" using record_rows [of env x k t u g tg md ttl None s] c by simp
    show ?thesis
    proof (cases res)
      case (Inl e)
      then show ?thesis using False c s1 by auto
    next
      case (Inr a)
      obtain i p where a: "a = (i, p)" by fastforce
      have "snd (invite_members env x k t (Session.s_UserID t) g tg md ttl (u # uids) s)
          = snd (invite_members env x (Suc k) t (Session.s_UserID t) g tg md ttl uids s1)"
        using False c Inr a by (cases "invite_members env x (Suc k) t (Session.s_UserID t) g tg md ttl uids s1")
          (auto simp: and_then_def split: sum.split)
      then show ?thesis using Cons.IH [of "Suc k" s1] s1 False by auto
    qed
  qed (use Cons in auto)
qed simp

text \<open>Everybody on a list of invitable users has access by the access rule.\<close>

lemma can_access_rule: "can_access env x u tid s \<Longrightarrow> may_access (x_now x) (a_access (sh_db s)) u tid"
  unfolding can_access_def userCanAccessTarget_def allowedTargetIDSet_def by (rule TargetIDsForUser_sound)

lemma invitable_rule:
  "invitableUserIDsForTag env x tid tag s = Inr us \<Longrightarrow> v \<in> set us \<Longrightarrow> may_access (x_now x) (a_access (sh_db s)) v tid"
  "invitableUserIDsForGroup env x o1 tid g s = Inr us \<Longrightarrow> v \<in> set us \<Longrightarrow> may_access (x_now x) (a_access (sh_db s)) v tid"
proof -
  assume "invitableUserIDsForTag env x tid tag s = Inr us" "v \<in> set us"
  then have "v \<in> set (UserIDsForTarget tid list_1000 (ge_list_limit (sx_guard env)) (x_now x) (a_access (sh_db s)))"
    by (auto simp: invitableUserIDsForTag_def invitableUserIDsForTarget_def Let_def split: if_splits)
  then show "may_access (x_now x) (a_access (sh_db s)) v tid"
    using set_page_subset by (fastforce simp: UserIDsForTarget_spec finite_may_access)
next
  assume "invitableUserIDsForGroup env x o1 tid g s = Inr us" "v \<in> set us"
  then show "may_access (x_now x) (a_access (sh_db s)) v tid"
    by (auto simp: invitableUserIDsForGroup_def Let_def can_access_rule split: if_splits sum.splits)
qed

definition invited :: "share_env \<Rightarrow> request_ext \<Rightarrow> Session \<Rightarrow> ShareApp \<Rightarrow> inv_row set" where
  "invited env x t s = {c. \<exists>v n. issued x t (requested_ttl env n) v c
     \<and> (v = [] \<or> v \<noteq> Session.s_UserID t \<and> may_access (x_now x) (a_access (sh_db s)) v (s_TargetID t))}"

lemma issued_invited:
  "issued x t (requested_ttl env n) v c \<Longrightarrow> v = [] \<or> v \<noteq> Session.s_UserID t \<and> may_access (x_now x) (a_access (sh_db s)) v (s_TargetID t) \<Longrightarrow>
     c \<in> invited env x t s"
  by (auto simp: invited_def)

lemma batch_rows:
  "rows (snd (handleCreateTagInvitations env x t (Session.s_UserID t) tg md (requested_ttl env n) s)) \<subseteq> rows s \<union> invited env x t s"
  "rows (snd (handleCreateGroupInvitations env x t (Session.s_UserID t) g md (requested_ttl env n) s)) \<subseteq> rows s \<union> invited env x t s"
proof -
  have in_all: "rows (snd (invite_members env x 0 t (Session.s_UserID t) g' tg' md (requested_ttl env n) us (snd (ensureRoomFor x t s))))
      \<subseteq> rows s \<union> invited env x t s" if "\<And>v. v \<in> set us \<Longrightarrow> may_access (x_now x) (a_access (sh_db s)) v (s_TargetID t)" for us g' tg'
    using members_rows [of env x 0 t g' tg' md "requested_ttl env n" us "snd (ensureRoomFor x t s)"] that
    by (auto intro: issued_invited)
  show "rows (snd (handleCreateTagInvitations env x t (Session.s_UserID t) tg md (requested_ttl env n) s)) \<subseteq> rows s \<union> invited env x t s"
    "rows (snd (handleCreateGroupInvitations env x t (Session.s_UserID t) g md (requested_ttl env n) s)) \<subseteq> rows s \<union> invited env x t s"
    unfolding handleCreateTagInvitations_def handleCreateGroupInvitations_def
    using in_all invitable_rule by (simp_all split: sum.split)
qed

lemma single_rows:
  assumes "v = [] \<or> v \<noteq> Session.s_UserID t \<and> may_access (x_now x) (a_access (sh_db s)) v (s_TargetID t)"
  shows "rows (snd (create_single env x sid t (Session.s_UserID t) v md (requested_ttl env n) mu s)) \<subseteq> rows s \<union> invited env x t s"
proof -
  obtain res s1 where c: "createInvitationRecord env x 0 t (Session.s_UserID t) v [] [] md (requested_ttl env n) mu s = (res, s1)" by fastforce
  have "rows s1 \<subseteq> rows s \<union> {c. issued x t (requested_ttl env n) v c}"
    using record_rows [of env x 0 t v "[]" "[]" md "requested_ttl env n" mu s] c by simp
  then have s1: "rows s1 \<subseteq> rows s \<union> invited env x t s" using issued_invited [OF _ assms] by blast
  obtain room s2 where e0: "ensureRoomFor x t s1 = (room, s2)" by fastforce
  have e: "rows s2 = rows s1" using e0 by (auto simp: ensureRoomFor_def rows_def Let_def split: prod.splits)
  have "rows (snd (create_single env x sid t (Session.s_UserID t) v md (requested_ttl env n) mu s)) = rows s1"
  proof (cases res)
    case (Inr a)
    obtain i p where "a = (i, p)" by fastforce
    then show ?thesis by (simp add: create_single_def c Inr e0 Let_def e)
  qed (simp add: create_single_def c)
  then show ?thesis using s1 by simp
qed

lemma create_rows:
  "rows (snd (handleCreateInvitation env x r sid body s)) \<subseteq> rows s \<union>
     {c. \<exists>t. live_session sid s = Some t \<and> can_access env x (Session.s_UserID t) (s_TargetID t) s \<and> c \<in> invited env x t s}"
proof (cases "sh_store s")
  case (Some st)
  show ?thesis
  proof (cases rule: loadOwned_cases [of env x r sid s])
    case (refused e)
    then show ?thesis using Some by (simp add: handleCreateInvitation_def)
  next
    case (owner t)
    let ?s1 = "snd (caller env x r s)"
    have inv: "invited env x t ?s1 = invited env x t s" by (simp add: invited_def)
    have named: "v \<noteq> Session.s_UserID t \<and> may_access (x_now x) (a_access (sh_db ?s1)) v (s_TargetID t)"
      if "invitee_error env x (Session.s_UserID t) v (s_TargetID t) ?s1 = None" for v
      using that can_access_rule [of env x v "s_TargetID t" ?s1]
      by (auto simp: invitee_error_def split: sum.splits if_splits)
    have "rows (snd (handleCreateInvitation env x r sid body s)) \<subseteq> rows ?s1 \<union> invited env x t ?s1"
      using Some owner(1) batch_rows [of env x t _ _ _ ?s1] single_rows [of _ t x ?s1] named
      by (simp add: handleCreateInvitation_def owner(3) [symmetric] Let_def split: option.split sum.split)
    then show ?thesis using owner(2,3,5) inv by auto
  qed
qed (simp add: handleCreateInvitation_def)

lemma requested_ttl_le: "requested_ttl env n \<le> invitationMaxTTL (sx_max_ttl env)"
  by (simp add: requested_ttl_def Let_def)


lemma wrap64_over:
  assumes "2 ^ 63 \<le> n" "n < 2 ^ 63 + 2 ^ 64"
  shows "wrap64 n = n - 2 ^ 64"
proof -
  have "(n + 2 ^ 63) mod 2 ^ 64 = (n + 2 ^ 63 - 2 ^ 64) mod (2 ^ 64 :: int)" by (rule minus_mod_self2 [symmetric])
  also have "\<dots> = n + 2 ^ 63 - 2 ^ 64" using assms by (intro mod_pos_pos_trivial) simp_all
  finally show ?thesis by (simp add: wrap64_def signed_take_bit_eq_take_bit_shift take_bit_eq_mod)
qed

text \<open>
  An answered invitation that can never be used: seconds are turned into nanoseconds in 64 bits,
  so a validity of 9223372037 seconds or more (up to twice that) becomes negative, passes the cap,
  and the handler reports success for an invitation whose use is refused from the start.
\<close>

theorem ttl_overflow_unusable:
  assumes "9223372037 \<le> n" "n \<le> 18446744073" "0 \<le> invitationMaxTTL (sx_max_ttl env)"
    and "issued x t (requested_ttl env n) v c" "x_now x \<le> later"
  shows "requested_ttl env n < 0 \<and> \<not> use_where iid (unix later) c"
proof -
  have "wrap64 (n * second) = n * second - 2 ^ 64"
    using assms(1,2) by (intro wrap64_over) (simp_all add: second_def)
  then have neg: "requested_ttl env n < 0" using assms(1-3) by (auto simp: requested_ttl_def Let_def second_def)
  then have "unix (x_now x + requested_ttl env n) \<le> unix later" using assms(5) by (intro unix_mono) simp
  then show ?thesis using neg assms(4) by (simp add: issued_def use_where_def)
qed

subsection \<open>Sample requests\<close>

lemma demo_can_access: "sh_db s = demo_share_db \<Longrightarrow> u \<in> {''alice'', ''bob''} \<Longrightarrow> can_access demo_share_env demo_ext u ''t1'' s"
  by (auto simp: can_access_def userCanAccessTarget_def allowedTargetIDSet_def TargetIDsForUser_def via_membership_def
      via_target_tag_def via_group_tag_def fanout_def demo_share_db_def demo_share_env_def demo_genv_def demo_ext_def demo_db_def
      page_def listLimit_def maxFanoutRowsPerQuery_def)

lemma demo_caller:
  "sh_db s = demo_share_db \<Longrightarrow> caller demo_share_env demo_ext (demo_get p ''s-alice'') s = (''alice'', s)"
  "sh_db s = demo_share_db \<Longrightarrow> caller demo_share_env demo_ext (demo_get p ''s-bob'') s = (''bob'', s)"
  by (simp_all add: caller_def currentUserID_def ses_Get_def demo_share_env_def demo_ext_def demo_share_db_def demo_guard_simps
      trim_space_visible visible_def)

lemma demo_shared_ok: "share_inv demo_shared"
  by (rule share_run_keeps [OF demo_shared_run share_inv_idle [OF demo_idle_ok]])

lemma demo_shared_live: "live_session ''s1'' demo_shared = Some demo_session_obj"
  by (simp add: demo_shared_def bridge_start_def ensureRoomFor_def demo_started_def demo_live Let_def split: prod.split)

lemma demo_shared_db: "sh_db demo_shared = demo_share_db" "sh_store demo_shared = Some empty_store" "sh_attach demo_shared = []"
  by (simp_all add: demo_shared_simps)

definition demo_room0 :: Room where
  "demo_room0 = new_room ''s1'' ''t1'' ''alice'' (usernameFor ''alice'' demo_share_db) (time_unix 9)"

definition demo_guest_room :: Room where
  "demo_guest_room = (projr (AddViewer ''bob'' ''Bob'' ''i1'' (time_unix 9) demo_room0))\<lparr>r_writerID := ''bob''\<rparr>"

definition demo_guest :: ShareApp where
  "demo_guest = on_bridge ''s1'' (Client_Pool.SetWriter ''bob'') (set_room ''s1'' demo_guest_room demo_shared)"

lemma demo_shared_room: "reg_Get ''s1'' (sh_rooms demo_shared) = Some demo_room0"
  by (simp add: demo_shared_simps demo_room0_def)

lemma demo_not_kicked: "\<not> IsKicked ''bob'' demo_room0"
  by (simp add: IsKicked_def demo_room0_def new_room_def)

lemma demo_guest_ok: "share_inv demo_guest"
proof -
  obtain room where a: "AddViewer ''bob'' ''Bob'' ''i1'' (time_unix 9) demo_room0 = Inr room" "IsParticipant ''bob'' room"
    using AddViewer_ok [OF demo_not_kicked, of "''Bob''" "''i1''" "time_unix 9"] by blast
  have "room_inv room" by (rule room_inv_AddViewer [OF _ a(1)]) (simp add: demo_room0_def room_inv_new)
  then have "room_inv demo_guest_room"
    using a is_pending_cong [of demo_guest_room room]
    by (simp add: demo_guest_room_def room_inv_def members_ok_def requests_ok_def IsParticipant_def)
  then show ?thesis unfolding demo_guest_def
    by (rule share_inv_bridge_room [OF demo_shared_ok demo_shared_room])
      (simp add: pool_inv_SetWriter writes_for_SetWriter demo_guest_room_def)
qed

theorem writer_attach_steals_witness:
  "\<exists>b. br_Get ''s1'' (attach_next ''s1'' (snd (handleTerminalAttach demo_share_env demo_ext True True [] ''alice'' ''s1'' demo_guest))) = Some b
     \<and> (\<exists>i \<in> set (p_clients b). ce_canWrite (p_entries b ! i) \<and> ce_userID (p_entries b ! i) = ''alice'')
     \<and> r_writerID demo_guest_room = ''bob''"
proof -
  have live: "live_session ''s1'' demo_guest = Some demo_session_obj" by (simp add: demo_guest_def demo_shared_live)
  have room: "reg_Get ''s1'' (sh_rooms demo_guest) = Some demo_guest_room" by (simp add: demo_guest_def)
  have w: "r_writerID demo_guest_room = ''bob''" "''bob'' \<noteq> Session.s_UserID demo_session_obj"
    by (simp_all add: demo_guest_room_def demo_session_obj_def)
  have acc: "can_access demo_share_env demo_ext (Session.s_UserID demo_session_obj) (s_TargetID demo_session_obj) demo_guest"
    using demo_can_access [of demo_guest "''alice''"] demo_shared_db(1)
    by (simp add: demo_session_obj_def demo_guest_def on_bridge_def br_Register_def set_room_def split: option.split)
  obtain b0 where "br_Get ''s1'' demo_shared = Some b0" by (simp add: demo_shared_simps)
  then have b: "br_Get ''s1'' demo_guest = Some (Client_Pool.SetWriter ''bob'' b0)" by (simp add: demo_guest_def)
  have q: "attach_queue ''s1'' demo_guest = []"
    using demo_shared_db(3) by (simp add: attach_queue_def demo_guest_def on_bridge_def br_Register_def set_room_def split: option.split)
  show ?thesis
    using writer_attach_steals [OF demo_guest_ok live room w acc b q prod.collapse refl] w(1)
    by (auto simp: demo_session_obj_def)
qed

definition demo_invited_store :: SQLiteStore where
  "demo_invited_store = projr (inv_Create (demo_link\<lparr>i_InviteeUserID := ''bob'', i_MaxUses := None\<rparr>) ''h1'' empty_store)"

definition demo_invitation :: Invitation where
  "demo_invitation = fst (projr (inv_GetByID ''inv1'' demo_invited_store))"

definition demo_invited :: ShareApp where
  "demo_invited = demo_shared\<lparr>sh_store := Some demo_invited_store\<rparr>"

definition demo_body :: "joinInvitationBody option" where
  "demo_body = Some \<lparr>jb_InvitationID = ''inv1'', jb_InvitationToken = []\<rparr>"

lemmas demo_invitation_simps = demo_invitation_def demo_invited_store_def demo_inv_simps IsLink_def

lemma demo_invited_get: "inv_GetByID ''inv1'' demo_invited_store = Inr (demo_invitation, ''h1'')" "\<not> IsLink demo_invitation"
  "i_SessionID demo_invitation = ''s1''" "i_SessionKind demo_invitation = KindTerminal" "i_ID demo_invitation = ''inv1''"
  "i_InviteeUserID demo_invitation = ''bob''" "i_OwnerUserID demo_invitation = ''alice''" "i_TargetID demo_invitation = ''t1''"
  "Active (time_unix 9) demo_invitation"
  by (simp_all add: demo_invitation_simps Active_def Exhausted_def Used_def Revoked_def Expired_def is_zero_def)

lemma demo_ready:
  assumes "share_inv s" "sh_store s = Some demo_invited_store" "sh_db s = demo_share_db" "live_session ''s1'' s \<noteq> None"
    and "reg_Get ''s1'' (sh_rooms s) = Some room"
  shows "join_ready demo_share_env demo_ext (demo_get [] ''s-bob'') ''s1'' demo_body s ''bob'' demo_invited_store demo_invitation room"
  using assms demo_invited_get demo_caller(2) [OF assms(3), of "[]"]
  by (simp add: join_ready_def sharingRecordingRequired_def requireRecordingWithViewers_def demo_share_env_def equal_fold_def
      decodeJoinInvitationBody_def demo_body_def lookupJoinInvitation_def to_lower_def trim_space_visible visible_def)

lemma demo_invited_facts:
  "share_inv demo_invited" "sh_store demo_invited = Some demo_invited_store" "sh_db demo_invited = demo_share_db"
  "live_session ''s1'' demo_invited \<noteq> None" "reg_Get ''s1'' (sh_rooms demo_invited) = Some demo_room0"
  using demo_shared_ok demo_shared_db(1) demo_shared_live demo_shared_room by (simp_all add: demo_invited_def share_inv_store)

lemma demo_validate: "sh_db s = demo_share_db \<Longrightarrow>
    validateJoinInvitation demo_share_env demo_ext demo_invitation ''bob'' ''s1'' KindTerminal s = None"
  using demo_invited_get demo_can_access by (simp add: validateJoinInvitation_def equal_fold_def demo_ext_def)

lemma demo_use: "\<exists>st. RecordUse ''inv1'' ''bob'' (x_now demo_ext) demo_invited_store = Inr st"
  by (simp add: demo_invited_store_def demo_inv_simps demo_ext_def)

lemma demo_admits: "AddViewer ''bob'' n i now demo_room0 \<noteq> Inl e"
  using AddViewer_ok [OF demo_not_kicked, of n i now] by auto

theorem join_agrees_with_service_witness:
  "\<not> isl (fst (handleJoinSession demo_share_env demo_ext (demo_get [] ''s-bob'') ''s1'' demo_body demo_invited))
   \<and> sh_rooms (snd (handleJoinSession demo_share_env demo_ext (demo_get [] ''s-bob'') ''s1'' demo_body demo_invited))
     = snd (snd (JoinRoom True RecordUse (Some (service_access demo_share_env demo_ext demo_invited)) demo_invitation ''bob''
         (usernameFor ''bob'' (sh_db demo_invited)) (x_now demo_ext) 0 (demo_invited_store, sh_rooms demo_invited)))"
proof -
  obtain res' st' reg' where j: "(res', st', reg') = JoinRoom True RecordUse (Some (service_access demo_share_env demo_ext demo_invited))
      demo_invitation ''bob'' (usernameFor ''bob'' (sh_db demo_invited)) (x_now demo_ext) 0 (demo_invited_store, sh_rooms demo_invited)"
    by (metis prod.collapse)
  note agree = join_agrees_with_service [OF demo_ready [OF demo_invited_facts] demo_not_kicked prod.collapse j]
  have "\<not> isl (fst (handleJoinSession demo_share_env demo_ext (demo_get [] ''s-bob'') ''s1'' demo_body demo_invited))"
    using handleJoinSession_ready [OF demo_ready [OF demo_invited_facts]] demo_validate [OF demo_invited_facts(3)] demo_use
      demo_invited_get(5) demo_not_kicked demo_invited_facts(5)
    by (auto simp: join_with_def enter_existing demo_admits split: sum.split)
  with agree j show ?thesis by (metis snd_conv)
qed

definition demo_kicked :: ShareApp where
  "demo_kicked = set_room ''s1'' (demo_room0\<lparr>r_kicked := [''bob'']\<rparr>) demo_invited"

lemma demo_kicked_facts:
  "share_inv demo_kicked" "sh_store demo_kicked = Some demo_invited_store" "sh_db demo_kicked = demo_share_db"
  "live_session ''s1'' demo_kicked \<noteq> None" "reg_Get ''s1'' (sh_rooms demo_kicked) = Some (demo_room0\<lparr>r_kicked := [''bob'']\<rparr>)"
proof -
  have "room_inv (demo_room0\<lparr>r_kicked := [''bob'']\<rparr>)"
    by (simp add: room_inv_def members_ok_def requests_ok_def demo_room0_def new_room_def is_pending_def)
  then show "share_inv demo_kicked"
    unfolding demo_kicked_def by (rule share_inv_room [OF demo_invited_facts(1,5)]) simp
qed (use demo_invited_facts in \<open>simp_all add: demo_kicked_def\<close>, simp_all add: set_room_def)

theorem kicked_join_burns_use_witness:
  "\<exists>st'. fst (handleJoinSession demo_share_env demo_ext (demo_get [] ''s-bob'') ''s1'' demo_body demo_kicked)
       = Inl (403, ''sharing.userKicked'')
     \<and> sh_store (snd (handleJoinSession demo_share_env demo_ext (demo_get [] ''s-bob'') ''s1'' demo_body demo_kicked)) = Some st'
     \<and> map_option i_UseCount (load_invitation ''inv1'' st') = Some 1"
proof -
  obtain st' where u: "RecordUse (i_ID demo_invitation) ''bob'' (x_now demo_ext) demo_invited_store = Inr st'"
    using demo_use demo_invited_get(5) by auto
  have k: "IsKicked ''bob'' (demo_room0\<lparr>r_kicked := [''bob'']\<rparr>)" by (simp add: IsKicked_def)
  have w: "store_wf demo_invited_store" by (simp add: store_wf_def demo_invited_store_def demo_inv_simps)
  have "map_option i_UseCount (load_invitation ''inv1'' demo_invited_store) = Some 0"
    by (simp add: load_invitation_def demo_invited_store_def demo_inv_simps)
  then show ?thesis
    using kicked_join_burns_use [OF demo_ready [OF demo_kicked_facts] k w demo_validate [OF demo_kicked_facts(3)] u prod.collapse]
      demo_invited_get(5) by (auto simp: option.map_comp comp_def)
qed

definition demo_request :: "createInvitationRequest option" where
  "demo_request = Some \<lparr>cr_Mode = [], cr_InviteeUserID = ''bob'', cr_InviteTag = [], cr_InviteGroupID = [],
     cr_TTLSeconds = 60, cr_LinkMaxUses = None, cr_LinkUnlimited = False\<rparr>"

lemma demo_owned:
  assumes "sh_db s = demo_share_db" "live_session ''s1'' s = Some demo_session_obj"
  shows "loadOwnedTerminalSession demo_share_env demo_ext (demo_get p ''s-alice'') ''s1'' s = (Inr (demo_session_obj, ''alice''), s)"
  using demo_can_access [OF assms(1), of "''alice''"]
  by (simp add: loadOwnedTerminalSession_def demo_caller assms) (simp add: demo_session_obj_def)

lemma demo_created: "\<exists>c. rows (snd (handleCreateInvitation demo_share_env demo_ext (demo_get [] ''s-alice'') ''s1'' demo_request demo_shared))
    = {c} \<and> c_invitee_user_id c = Some ''bob''"
proof -
  have bob: "invitee_error demo_share_env demo_ext ''alice'' ''bob'' (s_TargetID demo_session_obj) demo_shared = None"
    using demo_can_access [OF demo_shared_db(1), of "''bob''"] demo_shared_db(1)
    by (simp add: invitee_error_def demo_session_obj_def demo_share_db_def demo_guard_simps)
  have "handleCreateInvitation demo_share_env demo_ext (demo_get [] ''s-alice'') ''s1'' demo_request demo_shared =
      create_single demo_share_env demo_ext ''s1'' demo_session_obj ''alice'' ''bob'' ModeViewer (requested_ttl demo_share_env 60) None demo_shared"
    using bob demo_owned [OF demo_shared_db(1) demo_shared_live] demo_shared_db(2)
    by (simp add: handleCreateInvitation_def demo_request_def sharingRecordingRequired_def requireRecordingWithViewers_def
        demo_share_env_def equal_fold_def to_lower_def NormaliseMode_def Let_def)
  then show ?thesis using demo_shared_db(2)
    by (auto simp: create_single_def createInvitationRecord_def inv_Create_def empty_store_def new_invitation_def Let_def
        rows_def set_room_def ensureRoomFor_def nullableUser_def split: prod.split)
qed


definition demo_queued :: ShareApp where
  "demo_queued = demo_guest\<lparr>sh_attach := [(''s1'', [(AttachModeViewer, ''bob'')])]\<rparr>"

lemma demo_queued_facts: "share_inv demo_queued" "sh_db demo_queued = demo_share_db"
  "live_session ''s1'' demo_queued = Some demo_session_obj" "reg_Get ''s1'' (sh_rooms demo_queued) = Some demo_guest_room"
  "attach_queue ''s1'' demo_queued = [(AttachModeViewer, ''bob'')]"
proof -
  show "share_inv demo_queued" by (rule share_inv_cong [OF demo_guest_ok]) (simp_all add: demo_queued_def)
qed (use demo_shared_live demo_shared_db(1) in \<open>auto simp: demo_queued_def demo_guest_def attach_queue_def on_bridge_def
  br_Register_def set_room_def reg_Get_def live_session_def split: option.splits\<close>)

lemma demo_kick: "\<exists>s'. handleKickParticipant demo_share_env demo_ext (demo_get [] ''s-alice'') ''s1'' ''bob'' demo_queued = (Inr (), s')"
proof -
  have "\<exists>room'. RemoveParticipant ''bob'' (x_clock demo_ext) demo_guest_room = Inr room'"
    by (simp add: RemoveParticipant_def demo_guest_room_def AddViewer_def demo_room0_def new_room_def)
  then show ?thesis using demo_owned [OF demo_queued_facts(2,3)] demo_queued_facts(4)
    by (auto simp: handleKickParticipant_def) (auto simp: demo_session_obj_def)
qed


theorem queued_viewer_survives_kick_witness:
  "\<exists>s' b'. handleKickParticipant demo_share_env demo_ext (demo_get [] ''s-alice'') ''s1'' ''bob'' demo_queued = (Inr (), s')
     \<and> br_Get ''s1'' (attach_next ''s1'' s') = Some b' \<and> (\<exists>i \<in> set (p_clients b'). ce_userID (p_entries b' ! i) = ''bob'')"
proof -
  obtain s' where k: "handleKickParticipant demo_share_env demo_ext (demo_get [] ''s-alice'') ''s1'' ''bob'' demo_queued = (Inr (), s')"
    using demo_kick by blast
  obtain b0 where "br_Get ''s1'' demo_shared = Some b0" by (simp add: demo_shared_simps)
  then have "br_Get ''s1'' demo_queued = Some (Client_Pool.SetWriter ''bob'' b0)" by (simp add: demo_queued_def demo_guest_def)
  from queued_viewer_survives_kick [OF demo_queued_facts(1) k demo_queued_facts(5) this] k show ?thesis by blast
qed

end
