(* ===== verification/Log_Search.thy ===== *)
theory Log_Search
  imports Server_Admin File_Transfer
begin

text \<open>
  Searching the audit log and the command log: the time range of a search
  (\<open>src/internal/httpapi/time_range.go\<close>), the ring of recent audit entries (\<open>audit_store.go\<close>), and
  the two paged listings (\<open>audit_handler.go\<close>, \<open>command_handler.go\<close>).

  The two layouts of \<open>time.Parse\<close> are fields of the environment.  A query string is the function
  \<open>Get\<close> of \<open>url.Values\<close>.  The time column of a table holds instants, the column of encoded fields
  the fields it encodes, and statements succeed; where there is no database the table is \<open>None\<close>.
\<close>

subsection \<open>Time ranges\<close>

record log_env =
  le_guard :: guard_env
  le_rfc3339 :: "string \<Rightarrow> instant option"
  le_date :: "string \<Rightarrow> instant option"

datatype time_error = errTimeExpectedFormat | errFromBeforeTo | errRangeTooLarge
  | invalidFromError time_error | invalidToError time_error

definition defaultSearchRangeDays :: int where "defaultSearchRangeDays = 30"
definition maxSearchRangeDays :: int where "maxSearchRangeDays = 90"

definition parseQueryTime :: "log_env \<Rightarrow> string \<Rightarrow> bool \<Rightarrow> time_error + instant" where
  "parseQueryTime env s isEnd = (case le_rfc3339 env s of Some t \<Rightarrow> Inr t
     | None \<Rightarrow> (case le_date env s of Some t \<Rightarrow> Inr (if isEnd then t + 24 * hour else t)
        | None \<Rightarrow> Inl errTimeExpectedFormat))"

text \<open>A bound that was not given is \<open>None\<close>.\<close>

definition parse_bound :: "log_env \<Rightarrow> string \<Rightarrow> bool \<Rightarrow> time_error + instant option" where
  "parse_bound env s isEnd =
     (let s = trim_space s in if s = [] then Inr None else map_sum (\<lambda>e. e) Some (parseQueryTime env s isEnd))"

definition parseTimeRange :: "log_env \<Rightarrow> string \<Rightarrow> string \<Rightarrow> instant \<Rightarrow> time_error + instant \<times> instant" where
  "parseTimeRange env fromStr toStr now =
     (case parse_bound env fromStr False of Inl e \<Rightarrow> Inl (invalidFromError e)
      | Inr f \<Rightarrow> (case parse_bound env toStr True of Inl e \<Rightarrow> Inl (invalidToError e)
        | Inr t \<Rightarrow>
          let until = (case t of Some u \<Rightarrow> u | None \<Rightarrow> now);
              since = (case f of Some u \<Rightarrow> u | None \<Rightarrow> until - defaultSearchRangeDays * 24 * hour)
          in if \<not> since < until then Inl errFromBeforeTo
             else if time_sub until since > maxSearchRangeDays * 24 * hour then Inl errRangeTooLarge
             else Inr (since, until)))"

fun writeTimeRangeError :: "time_error \<Rightarrow> http_error" where
  "writeTimeRangeError (invalidFromError _) = (400, ''time.invalidFrom'')"
| "writeTimeRangeError (invalidToError _) = (400, ''time.invalidTo'')"
| "writeTimeRangeError errFromBeforeTo = (400, ''time.fromBeforeTo'')"
| "writeTimeRangeError errRangeTooLarge = (400, ''time.rangeTooLarge'')"
| "writeTimeRangeError _ = (400, ''time.invalidRange'')"

subsection \<open>The ring of recent entries\<close>

text \<open>
  A field value by its dynamic type; a \<open>float64\<close> is kept as the integer its conversion gives, and
  a value of any other type as its printed form.
\<close>

datatype field_value = FString string | FInt int | FInt64 int | FFloat64 int | FOther string

type_synonym auditFields = "(string, field_value) gomap"

record AuditEntry =
  en_ID :: int
  en_Time :: instant
  en_Event :: string
  en_Fields :: auditFields

record auditStore =
  rs_max :: int
  rs_nextID :: int
  rs_items :: "AuditEntry list"

definition newAuditStore :: "int \<Rightarrow> auditStore" where
  "newAuditStore m = \<lparr>rs_max = (if m \<le> 0 then 1000 else m), rs_nextID = 0, rs_items = []\<rparr>"

definition audit_add :: "AuditEntry \<Rightarrow> auditStore \<Rightarrow> auditStore" where
  "audit_add e s =
     (if rs_max s \<le> 0 then s
      else let n = wrap64 (rs_nextID s + 1); items = rs_items s @ [e\<lparr>en_ID := n\<rparr>]
        in s\<lparr>rs_nextID := n,
             rs_items := (if int (length items) > rs_max s then drop (length items - nat (rs_max s)) items else items)\<rparr>)"

text \<open>The loop over the items, from the newest; it stops when \<open>fetch\<close> entries are collected.\<close>

fun newest_loop :: "nat \<Rightarrow> int \<Rightarrow> (AuditEntry \<Rightarrow> bool) \<Rightarrow> AuditEntry list \<Rightarrow> AuditEntry list \<Rightarrow> AuditEntry list" where
  "newest_loop fetch afterID flt [] out = out"
| "newest_loop fetch afterID flt (e # es) out =
     (if \<not> length out < fetch then out
      else if afterID > 0 \<and> en_ID e \<ge> afterID then newest_loop fetch afterID flt es out
      else if \<not> flt e then newest_loop fetch afterID flt es out
      else newest_loop fetch afterID flt es (out @ [e]))"

definition listNewestFirst :: "int \<Rightarrow> int \<Rightarrow> (AuditEntry \<Rightarrow> bool) \<Rightarrow> auditStore \<Rightarrow> AuditEntry list" where
  "listNewestFirst limit afterID flt s =
     (let limit = (if limit \<le> 0 \<or> limit > 1000 then 200 else limit)
      in newest_loop (nat (limit + 1)) afterID flt (rev (rs_items s)) [])"

definition FormatInt :: "int \<Rightarrow> string" where
  "FormatInt n = (if n < 0 then CHR ''-'' # Itoa (nat (- n)) else Itoa (nat n))"

definition auditNextCursor :: "AuditEntry list \<Rightarrow> int \<Rightarrow> string" where
  "auditNextCursor items pageLimit =
     (if int (length items) \<le> pageLimit \<or> pageLimit \<le> 0 then [] else FormatInt (en_ID (items ! nat (pageLimit - 1))))"

definition trimAuditPage :: "AuditEntry list \<Rightarrow> int \<Rightarrow> AuditEntry list" where
  "trimAuditPage items pageLimit =
     (if int (length items) > pageLimit \<and> pageLimit > 0 then take (nat pageLimit) items else items)"

subsection \<open>The audit log\<close>

record audit_row =
  al_id :: int
  al_time :: instant
  al_event :: string
  al_user_id :: string
  al_method :: string
  al_path :: string
  al_status :: int
  al_remote :: string
  al_duration_ms :: int
  al_fields :: auditFields

definition parseExcludeEvents :: "string \<Rightarrow> string list" where
  "parseExcludeEvents raw =
     (let raw = trim_space raw in
      if raw = [] then [] else filter (\<lambda>ev. ev \<noteq> []) (map trim_space (split_byte (CHR '','') raw)))"

fun auditEventExcluded :: "string \<Rightarrow> string list \<Rightarrow> bool" where
  "auditEventExcluded event [] = False"
| "auditEventExcluded event (ex # excluded) = (event = ex \<or> auditEventExcluded event excluded)"

definition audit_conds :: "string \<Rightarrow> string \<Rightarrow> string list \<Rightarrow> instant \<Rightarrow> instant \<Rightarrow> int \<Rightarrow> audit_row \<Rightarrow> bool" where
  "audit_conds eventQ userQ excludeEvents since until afterID r =
     (since \<le> al_time r \<and> al_time r < until
      \<and> (eventQ \<noteq> [] \<longrightarrow> like (''%'' @ escapeLikeOperand eventQ @ ''%'') (al_event r))
      \<and> (userQ \<noteq> [] \<longrightarrow> al_user_id r = userQ)
      \<and> list_all (\<lambda>ex. al_event r \<noteq> ex) excludeEvents
      \<and> (afterID > 0 \<longrightarrow> al_id r < afterID))"

text \<open>ORDER BY time DESC, id DESC LIMIT.\<close>

definition buildAuditLogQuery ::
  "string \<Rightarrow> string \<Rightarrow> string list \<Rightarrow> instant \<Rightarrow> instant \<Rightarrow> int \<Rightarrow> int \<Rightarrow> audit_row list \<Rightarrow> audit_row list" where
  "buildAuditLogQuery eventQ userQ excludeEvents since until afterID limit t =
     take (nat limit) (rev (sort_key (\<lambda>r. (al_time r, al_id r))
       (filter (audit_conds eventQ userQ excludeEvents since until afterID) t)))"

record command_row =
  cl_id :: int
  cl_time :: instant
  cl_session_id :: string
  cl_user_id :: string
  cl_target_id :: string
  cl_line_text :: string

record LogApp =
  lg_db :: AuthDB
  lg_audit :: "audit_row list option"
  lg_commands :: "command_row list option"
  lg_buffer :: auditStore

definition log_admin ::
  "log_env \<Rightarrow> http_req \<Rightarrow> instant \<Rightarrow> LogApp \<Rightarrow> (http_error + 'a) \<Rightarrow> (http_error + 'a) \<times> LogApp" where
  "log_admin env r now s reply = (case requireAdmin (le_guard env) r now (lg_db s) of
     (Inl e, db) \<Rightarrow> (Inl e, s\<lparr>lg_db := db\<rparr>) | (Inr _, db) \<Rightarrow> (reply, s\<lparr>lg_db := db\<rparr>))"

definition parse_after :: "string \<Rightarrow> http_error + int" where
  "parse_after raw =
     (let s = trim_space raw in
      if s = [] then Inr 0
      else case atoi s of None \<Rightarrow> Inl (400, ''common.invalidAfterID'')
        | Some n \<Rightarrow> if n \<le> 0 then Inl (400, ''common.invalidAfterID'') else Inr n)"

definition page_limit :: "int \<Rightarrow> string \<Rightarrow> int" where
  "page_limit cap raw =
     (let limit = (case atoi raw of None \<Rightarrow> 0 | Some n \<Rightarrow> n) in if limit \<le> 0 \<or> limit > cap then 200 else limit)"

definition audit_filter :: "string \<Rightarrow> string \<Rightarrow> string list \<Rightarrow> instant \<Rightarrow> instant \<Rightarrow> AuditEntry \<Rightarrow> bool" where
  "audit_filter eventQ userQ excludeEvents since until e =
     (if en_Time e < since \<or> \<not> en_Time e < until then False
      else if auditEventExcluded (en_Event e) excludeEvents then False
      else if eventQ \<noteq> [] \<and> \<not> contains (en_Event e) eventQ then False
      else if userQ \<noteq> [] then (case lookup (en_Fields e) ''user_id'' of Some (FString u) \<Rightarrow> u = userQ | _ \<Rightarrow> False)
      else True)"

definition audit_entry :: "audit_row \<Rightarrow> AuditEntry" where
  "audit_entry r = \<lparr>en_ID = al_id r, en_Time = al_time r, en_Event = al_event r, en_Fields = al_fields r\<rparr>"

record 'r logs_response =
  lr_Items :: "'r list"
  lr_NextCursor :: string

definition audit_fetch :: "(string \<Rightarrow> string) \<Rightarrow> instant \<Rightarrow> instant \<Rightarrow> int \<Rightarrow> int \<Rightarrow> LogApp \<Rightarrow> AuditEntry list" where
  "audit_fetch q since until afterID pageLimit s =
     (let eventQ = trim_space (q ''event''); userQ = trim_space (q ''user_id''); ex = parseExcludeEvents (q ''exclude_event'')
      in case lg_audit s of
           Some t \<Rightarrow> map audit_entry (buildAuditLogQuery eventQ userQ ex since until afterID (pageLimit + 1) t)
         | None \<Rightarrow> listNewestFirst pageLimit afterID (audit_filter eventQ userQ ex since until) (lg_buffer s))"

definition handleAuditLogs ::
  "log_env \<Rightarrow> http_req \<Rightarrow> (string \<Rightarrow> string) \<Rightarrow> instant \<Rightarrow> LogApp \<Rightarrow> (http_error + AuditEntry logs_response) \<times> LogApp" where
  "handleAuditLogs env r q now s = log_admin env r now s
     (case parseTimeRange env (q ''from'') (q ''to'') now of Inl e \<Rightarrow> Inl (writeTimeRangeError e)
      | Inr (since, until) \<Rightarrow>
        let pageLimit = page_limit 1000 (q ''limit'') in
        case parse_after (q ''after_id'') of Inl e \<Rightarrow> Inl e
        | Inr afterID \<Rightarrow>
          let items = audit_fetch q since until afterID pageLimit s
          in Inr \<lparr>lr_Items = trimAuditPage items pageLimit, lr_NextCursor = auditNextCursor items pageLimit\<rparr>)"

subsection \<open>The command log\<close>

definition command_conds :: "string \<Rightarrow> string \<Rightarrow> string \<Rightarrow> instant \<Rightarrow> instant \<Rightarrow> int \<Rightarrow> command_row \<Rightarrow> bool" where
  "command_conds query userID targetID since until afterID r =
     (since \<le> cl_time r \<and> cl_time r < until
      \<and> (query \<noteq> [] \<longrightarrow> like (''%'' @ escapeLikeOperand query @ ''%'') (cl_line_text r))
      \<and> (userID \<noteq> [] \<longrightarrow> cl_user_id r = userID)
      \<and> (targetID \<noteq> [] \<longrightarrow> cl_target_id r = targetID)
      \<and> (afterID > 0 \<longrightarrow> cl_id r < afterID))"

definition buildCommandLogQuery ::
  "string \<Rightarrow> string \<Rightarrow> string \<Rightarrow> instant \<Rightarrow> instant \<Rightarrow> int \<Rightarrow> int \<Rightarrow> command_row list \<Rightarrow> command_row list" where
  "buildCommandLogQuery query userID targetID since until afterID limit t =
     take (nat limit) (rev (sort_key (\<lambda>r. (cl_time r, cl_id r))
       (filter (command_conds query userID targetID since until afterID) t)))"

definition commandNextCursor :: "command_row list \<Rightarrow> int \<Rightarrow> string" where
  "commandNextCursor items pageLimit =
     (if int (length items) \<le> pageLimit \<or> pageLimit \<le> 0 then [] else FormatInt (cl_id (items ! nat (pageLimit - 1))))"

definition trimCommandPage :: "command_row list \<Rightarrow> int \<Rightarrow> command_row list" where
  "trimCommandPage items pageLimit =
     (if int (length items) > pageLimit \<and> pageLimit > 0 then take (nat pageLimit) items else items)"

definition handleCommandLogs ::
  "log_env \<Rightarrow> http_req \<Rightarrow> (string \<Rightarrow> string) \<Rightarrow> instant \<Rightarrow> LogApp \<Rightarrow> (http_error + command_row logs_response) \<times> LogApp" where
  "handleCommandLogs env r q now s = log_admin env r now s
     (case lg_commands s of None \<Rightarrow> Inr \<lparr>lr_Items = [], lr_NextCursor = []\<rparr>
      | Some t \<Rightarrow>
        let query = trim_space (q ''query''); userID = trim_space (q ''user_id''); targetID = trim_space (q ''target_id'');
            pageLimit = page_limit 500 (q ''limit'')
        in case parseTimeRange env (q ''from'') (q ''to'') now of Inl e \<Rightarrow> Inl (writeTimeRangeError e)
           | Inr (since, until) \<Rightarrow>
             (case parse_after (q ''after_id'') of Inl e \<Rightarrow> Inl e
              | Inr afterID \<Rightarrow>
                let items = buildCommandLogQuery query userID targetID since until afterID (pageLimit + 1) t
                in Inr \<lparr>lr_Items = trimCommandPage items pageLimit, lr_NextCursor = commandNextCursor items pageLimit\<rparr>))"

subsection \<open>Time ranges are bounded\<close>

lemma time_sub_le: "time_sub t u \<le> d \<Longrightarrow> - (2 ^ 63) \<le> d \<Longrightarrow> d < 2 ^ 63 - 1 \<Longrightarrow> t - u \<le> d"
  by (auto simp: time_sub_def max_def min_def split: if_splits)

lemma parseTimeRange_Inr:
  assumes "parseTimeRange env f t now = Inr (since, until)"
  shows "since < until" "until - since \<le> maxSearchRangeDays * 24 * hour"
proof -
  have "since < until \<and> time_sub until since \<le> maxSearchRangeDays * 24 * hour"
    using assms by (auto simp: parseTimeRange_def Let_def split: sum.splits if_splits)
  then show "since < until" "until - since \<le> maxSearchRangeDays * 24 * hour"
    by (auto intro!: time_sub_le simp: maxSearchRangeDays_def go_simps)
qed

subsection \<open>Reading a log page by page\<close>

text \<open>A reader that asks for the first page and follows the cursors, for at most \<open>n\<close> pages.\<close>

fun read_pages :: "(string \<Rightarrow> 'r list \<times> string) \<Rightarrow> nat \<Rightarrow> string \<Rightarrow> 'r list" where
  "read_pages pg 0 cur = []"
| "read_pages pg (Suc n) cur = (case pg cur of (items, nxt) \<Rightarrow>
     items @ (if nxt = [] then [] else read_pages pg n nxt))"

lemma parse_after_FormatInt [simp]:
  assumes "0 < c" "c < 2 ^ 63"
  shows "parse_after (FormatInt c) = Inr c" "FormatInt c \<noteq> []"
proof -
  have v: "digits_val (Itoa (nat c)) = c" "list_all is_digit (Itoa (nat c))" "Itoa (nat c) \<noteq> []"
    using Itoa_value [of "nat c"] assms by simp_all
  have dig: "visible d" "d \<noteq> CHR ''-''" "d \<noteq> CHR ''+''" if "is_digit d" for d
    using that by (auto simp: is_digit_def visible_def less_eq_char_def)
  have "visible (hd (Itoa (nat c)))" "visible (last (Itoa (nat c)))"
    using v(2,3) by (auto intro!: dig simp: list_all_iff)
  then have t: "trim_space (Itoa (nat c)) = Itoa (nat c)" by (rule trim_space_visible)
  have "atoi (Itoa (nat c)) = Some c"
    using v assms dig by (cases "Itoa (nat c)") (auto simp: atoi_def Let_def)
  with t v(3) assms show "parse_after (FormatInt c) = Inr c" "FormatInt c \<noteq> []"
    by (simp_all add: parse_after_def FormatInt_def)
qed

lemma parse_after_Nil [simp]: "parse_after [] = Inr 0"
  by (simp add: parse_after_def)

lemma filter_below:
  assumes "sorted_wrt (\<lambda>x y. ident y < (ident x :: int)) xs" "0 < k" "k \<le> length xs"
  shows "filter (\<lambda>r. ident r < ident (xs ! (k - 1))) xs = drop k xs"
proof -
  let ?c = "ident (xs ! (k - 1))" and ?P = "\<lambda>r. ident r < ident (xs ! (k - 1))"
  have less: "ident (xs ! j) < ident (xs ! i)" if "i < j" "j < length xs" for i j
    using assms(1) that by (simp add: sorted_wrt_iff_nth_less)
  have "filter ?P (take k xs) = []"
  proof -
    have "\<not> ident r < ?c" if "r \<in> set (take k xs)" for r
    proof -
      from that obtain i where i: "i < k" "r = xs ! i" using assms(3) by (auto simp: in_set_conv_nth)
      then have "i = k - 1 \<or> i < k - 1" "k - 1 < length xs" using assms(2,3) by auto
      then show ?thesis using less [of i "k - 1"] i(2) by auto
    qed
    then show ?thesis by (simp add: filter_empty_conv)
  qed
  moreover have "filter ?P (drop k xs) = drop k xs"
  proof -
    have "ident r < ?c" if "r \<in> set (drop k xs)" for r
    proof -
      from that obtain i where "i < length xs - k" "r = xs ! (k + i)" by (auto simp: in_set_conv_nth)
      then show ?thesis using less [of "k - 1" "k + i"] assms(2) by simp
    qed
    then show ?thesis by (simp add: filter_id_conv)
  qed
  ultimately show ?thesis by (metis append_Nil append_take_drop_id filter_append)
qed

text \<open>
  The contract of a paged listing: what is fetched after a cursor are the first entries of the
  listing with a smaller identifier, one more than a page holds; the cursor of a page is the
  identifier of its last entry when there are more.
\<close>

locale paged_log =
  fixes ident :: "'r \<Rightarrow> int"
    and listing :: "'r list"
    and fetch :: "int \<Rightarrow> 'r list"
    and trim :: "'r list \<Rightarrow> 'r list"
    and cursor :: "'r list \<Rightarrow> string"
    and size :: nat
  assumes fetch: "fetch a = take (Suc size) (filter (\<lambda>r. 0 < a \<longrightarrow> ident r < a) listing)"
    and trim: "trim xs = take size xs"
    and cursor: "cursor xs = (if length xs \<le> size then [] else FormatInt (ident (xs ! (size - 1))))"
    and size: "0 < size"
begin

lemma skips:
  assumes "\<And>cur a. parse_after cur = Inr a \<Longrightarrow> pg cur = (trim (fetch a), cursor (fetch a))"
    and "\<And>x. x \<in> set listing \<Longrightarrow> 0 < ident x \<and> ident x < 2 ^ 63"
    and "parse_after cur = Inr c" "0 < c" "c \<le> ident r"
  shows "r \<notin> set (read_pages pg n cur)"
  using assms(3-5)
proof (induction n arbitrary: cur c)
  case (Suc n)
  let ?xs = "fetch c"
  have below: "x \<in> set listing \<and> ident x < c" if "x \<in> set ?xs" for x
    using that Suc.prems(2) unfolding fetch by (auto dest: in_set_takeD)
  then have here: "r \<notin> set (trim ?xs)" unfolding trim using Suc.prems(3) by (meson in_set_takeD not_le)
  have later: "r \<notin> set (read_pages pg n (cursor ?xs))" if "cursor ?xs \<noteq> []"
  proof -
    let ?d = "ident (?xs ! (size - 1))"
    have len: "\<not> length ?xs \<le> size" using that by (auto simp: cursor)
    then have cur: "cursor ?xs = FormatInt ?d" by (simp add: cursor)
    have "?xs ! (size - 1) \<in> set ?xs" using len size by (intro nth_mem) simp
    with below have "?xs ! (size - 1) \<in> set listing" "?d < c" by blast+
    then have "parse_after (FormatInt ?d) = Inr ?d" "0 < ?d" "?d \<le> ident r"
      using assms(2) [of "?xs ! (size - 1)"] Suc.prems(3) by simp_all
    then show ?thesis unfolding cur by (rule Suc.IH)
  qed
  show ?case using here later by (simp add: assms(1) [OF Suc.prems(1)])
qed simp

lemma reads_rest:
  assumes "\<And>cur a. parse_after cur = Inr a \<Longrightarrow> pg cur = (trim (fetch a), cursor (fetch a))"
    and "\<And>x. x \<in> set listing \<Longrightarrow> 0 < ident x \<and> ident x < 2 ^ 63"
    and "sorted_wrt (\<lambda>x y. ident y < ident x) listing"
    and "parse_after cur = Inr a" "length (filter (\<lambda>r. 0 < a \<longrightarrow> ident r < a) listing) < n"
  shows "read_pages pg n cur = filter (\<lambda>r. 0 < a \<longrightarrow> ident r < a) listing"
  using assms(4-5)
proof (induction n arbitrary: cur a)
  case (Suc n)
  let ?rest = "filter (\<lambda>r. 0 < a \<longrightarrow> ident r < a) listing"
  show ?case
  proof (cases "length ?rest \<le> size")
    case True
    then show ?thesis by (simp add: assms(1) [OF Suc.prems(1)] fetch trim cursor)
  next
    case False
    let ?c = "ident (?rest ! (size - 1))"
    have "?rest ! (size - 1) \<in> set ?rest" using False size by (intro nth_mem) simp
    then have c: "0 < ?c" "?c < 2 ^ 63" "0 < a \<longrightarrow> ?c < a" using assms(2) [of "?rest ! (size - 1)"] by auto
    have "sorted_wrt (\<lambda>x y. ident y < ident x) ?rest" using assms(3) by (rule sorted_wrt_filter)
    then have "filter (\<lambda>r. ident r < ?c) ?rest = drop size ?rest"
      using size False by (intro filter_below) simp_all
    moreover have "filter (\<lambda>r. ident r < ?c) ?rest = filter (\<lambda>r. 0 < ?c \<longrightarrow> ident r < ?c) listing"
      using c unfolding filter_filter by (intro filter_cong) auto
    ultimately have rest: "filter (\<lambda>r. 0 < ?c \<longrightarrow> ident r < ?c) listing = drop size ?rest" by metis
    have nx: "fetch a ! (size - 1) = ?rest ! (size - 1)" using size by (simp add: fetch)
    have "pg cur = (take size ?rest, FormatInt ?c)"
      using False nx by (simp add: assms(1) [OF Suc.prems(1)] trim cursor) (simp add: fetch min_def)
    moreover have "read_pages pg n (FormatInt ?c) = drop size ?rest"
      using Suc.IH [of "FormatInt ?c" ?c] c rest Suc.prems(2) False size by simp
    ultimately show ?thesis using c by simp
  qed
qed simp

lemma reads_all:
  assumes "\<And>cur a. parse_after cur = Inr a \<Longrightarrow> pg cur = (trim (fetch a), cursor (fetch a))"
    and "\<And>x. x \<in> set listing \<Longrightarrow> 0 < ident x \<and> ident x < 2 ^ 63"
    and "sorted_wrt (\<lambda>x y. ident y < ident x) listing" and "length listing < n"
  shows "read_pages pg n [] = listing"
  using reads_rest [where cur = "[]" and a = 0 and n = n, OF assms(1-3)] assms(4) by simp

end

text \<open>The whole listing of the audit log, from the table or from the ring.\<close>

definition audit_listing :: "(string \<Rightarrow> string) \<Rightarrow> instant \<Rightarrow> instant \<Rightarrow> LogApp \<Rightarrow> AuditEntry list" where
  "audit_listing q since until s =
     (let eventQ = trim_space (q ''event''); userQ = trim_space (q ''user_id''); ex = parseExcludeEvents (q ''exclude_event'')
      in case lg_audit s of
           Some t \<Rightarrow> map audit_entry (rev (sort_key (\<lambda>r. (al_time r, al_id r)) (filter (audit_conds eventQ userQ ex since until 0) t)))
         | None \<Rightarrow> rev (filter (audit_filter eventQ userQ ex since until) (rs_items (lg_buffer s))))"

definition command_listing :: "(string \<Rightarrow> string) \<Rightarrow> instant \<Rightarrow> instant \<Rightarrow> command_row list \<Rightarrow> command_row list" where
  "command_listing q since until t = rev (sort_key (\<lambda>r. (cl_time r, cl_id r))
     (filter (command_conds (trim_space (q ''query'')) (trim_space (q ''user_id'')) (trim_space (q ''target_id'')) since until 0) t))"

lemma newest_loop_take:
  "length out \<le> n \<Longrightarrow> newest_loop n a flt es out =
     out @ take (n - length out) (filter (\<lambda>e. (0 < a \<longrightarrow> en_ID e < a) \<and> flt e) es)"
proof (induction es arbitrary: out)
  case (Cons e es)
  then show ?case by (cases "length out = n") (auto simp: Suc_diff_Suc not_le not_less take_Cons')
qed simp

lemma page_limit_range: "0 < cap \<Longrightarrow> 200 \<le> cap \<Longrightarrow> 0 < page_limit cap raw \<and> page_limit cap raw \<le> cap"
  by (auto simp: page_limit_def Let_def)

lemma filter_desc:
  "filter P (rev (sort_key f xs)) = rev (sort_key f (filter P xs))"
  by (simp add: rev_filter [symmetric] filter_sort)

lemma audit_fetch_listing:
  "audit_fetch q since until a (page_limit 1000 raw) s =
     take (Suc (nat (page_limit 1000 raw))) (filter (\<lambda>e. 0 < a \<longrightarrow> en_ID e < a) (audit_listing q since until s))"
proof -
  have L: "0 < page_limit 1000 raw" "page_limit 1000 raw \<le> 1000" using page_limit_range [of 1000] by auto
  show ?thesis
  proof (cases "lg_audit s")
    case None
    then show ?thesis using L
      by (simp add: audit_fetch_def audit_listing_def listNewestFirst_def Let_def newest_loop_take rev_filter nat_add_distrib
        conj_commute)
  next
    case (Some t)
    let ?e = "trim_space (q ''event'')" and ?u = "trim_space (q ''user_id'')" and ?x = "parseExcludeEvents (q ''exclude_event'')"
    have "audit_conds ?e ?u ?x since until a = (\<lambda>r. audit_conds ?e ?u ?x since until 0 r \<and> (0 < a \<longrightarrow> al_id r < a))"
      by (auto simp: audit_conds_def fun_eq_iff)
    then show ?thesis using L Some
      by (simp add: audit_fetch_def audit_listing_def buildAuditLogQuery_def Let_def filter_map filter_desc nat_add_distrib
        take_map o_def audit_entry_def conj_commute)
  qed
qed

lemma command_fetch_listing:
  "buildCommandLogQuery (trim_space (q ''query'')) (trim_space (q ''user_id'')) (trim_space (q ''target_id'')) since until a
     (page_limit 500 raw + 1) t =
   take (Suc (nat (page_limit 500 raw))) (filter (\<lambda>r. 0 < a \<longrightarrow> cl_id r < a) (command_listing q since until t))"
proof -
  let ?e = "trim_space (q ''query'')" and ?u = "trim_space (q ''user_id'')" and ?x = "trim_space (q ''target_id'')"
  have L: "0 < page_limit 500 raw" using page_limit_range [of 500] by auto
  have "command_conds ?e ?u ?x since until a = (\<lambda>r. command_conds ?e ?u ?x since until 0 r \<and> (0 < a \<longrightarrow> cl_id r < a))"
    by (auto simp: command_conds_def fun_eq_iff)
  then show ?thesis using L
    by (simp add: command_listing_def buildCommandLogQuery_def filter_desc nat_add_distrib conj_commute)
qed

lemma page_laws:
  assumes "0 < L"
  shows "(if int (length xs) > L \<and> L > 0 then take (nat L) xs else xs) = take (nat L) xs"
    "(if int (length xs) \<le> L \<or> L \<le> 0 then [] else FormatInt (f (xs ! nat (L - 1)))) =
       (if length xs \<le> nat L then [] else FormatInt (f (xs ! (nat L - 1))))"
  using assms by (auto simp: nat_diff_distrib)

lemma audit_page_laws:
  "trimAuditPage xs (page_limit 1000 raw) = take (nat (page_limit 1000 raw)) xs"
  "auditNextCursor xs (page_limit 1000 raw) =
     (if length xs \<le> nat (page_limit 1000 raw) then [] else FormatInt (en_ID (xs ! (nat (page_limit 1000 raw) - 1))))"
  "0 < nat (page_limit 1000 raw)"
  using page_limit_range [of 1000 raw] page_laws [of "page_limit 1000 raw" xs]
  unfolding trimAuditPage_def auditNextCursor_def by auto

lemma command_page_laws:
  "trimCommandPage xs (page_limit 500 raw) = take (nat (page_limit 500 raw)) xs"
  "commandNextCursor xs (page_limit 500 raw) =
     (if length xs \<le> nat (page_limit 500 raw) then [] else FormatInt (cl_id (xs ! (nat (page_limit 500 raw) - 1))))"
  "0 < nat (page_limit 500 raw)"
  using page_limit_range [of 500 raw] page_laws [of "page_limit 500 raw" xs]
  unfolding trimCommandPage_def commandNextCursor_def by auto

interpretation audit_pages: paged_log en_ID "audit_listing q since until s"
  "\<lambda>a. audit_fetch q since until a (page_limit 1000 raw) s"
  "\<lambda>xs. trimAuditPage xs (page_limit 1000 raw)" "\<lambda>xs. auditNextCursor xs (page_limit 1000 raw)"
  "nat (page_limit 1000 raw)" for q since until s raw
  by unfold_locales (rule audit_fetch_listing audit_page_laws)+

interpretation command_pages: paged_log cl_id "command_listing q since until t"
  "\<lambda>a. buildCommandLogQuery (trim_space (q ''query'')) (trim_space (q ''user_id'')) (trim_space (q ''target_id'')) since until a
     (page_limit 500 raw + 1) t"
  "\<lambda>xs. trimCommandPage xs (page_limit 500 raw)" "\<lambda>xs. commandNextCursor xs (page_limit 500 raw)"
  "nat (page_limit 500 raw)" for q since until t raw
  by unfold_locales (rule command_fetch_listing command_page_laws)+

subsection \<open>Every entry is read once\<close>

text \<open>The pages the handlers answer with, by the cursor in the request.\<close>

definition reply_page :: "(http_error + 'r logs_response) \<times> LogApp \<Rightarrow> 'r list \<times> string" where
  "reply_page x = (case fst x of Inr resp \<Rightarrow> (lr_Items resp, lr_NextCursor resp) | Inl _ \<Rightarrow> ([], []))"

definition audit_page :: "log_env \<Rightarrow> http_req \<Rightarrow> (string \<Rightarrow> string) \<Rightarrow> instant \<Rightarrow> LogApp \<Rightarrow> string \<Rightarrow> AuditEntry list \<times> string" where
  "audit_page env r q now s cur = reply_page (handleAuditLogs env r (q(''after_id'' := cur)) now s)"

definition command_page :: "log_env \<Rightarrow> http_req \<Rightarrow> (string \<Rightarrow> string) \<Rightarrow> instant \<Rightarrow> LogApp \<Rightarrow> string \<Rightarrow> command_row list \<times> string" where
  "command_page env r q now s cur = reply_page (handleCommandLogs env r (q(''after_id'' := cur)) now s)"

text \<open>The administrator searches a valid range.\<close>

definition search_ok :: "log_env \<Rightarrow> http_req \<Rightarrow> (string \<Rightarrow> string) \<Rightarrow> instant \<Rightarrow> LogApp \<Rightarrow> instant \<Rightarrow> instant \<Rightarrow> bool" where
  "search_ok env r q now s since until =
     (fst (requireAdmin (le_guard env) r now (lg_db s)) = Inr () \<and> parseTimeRange env (q ''from'') (q ''to'') now = Inr (since, until))"

lemma log_admin_ok: "fst (requireAdmin (le_guard env) r now (lg_db s)) = Inr () \<Longrightarrow> fst (log_admin env r now s x) = x"
  by (auto simp: log_admin_def split: prod.splits)

lemma audit_page_eq:
  assumes "search_ok env r q now s since until" "parse_after cur = Inr a"
  shows "audit_page env r q now s cur =
    (trimAuditPage (audit_fetch q since until a (page_limit 1000 (q ''limit'')) s) (page_limit 1000 (q ''limit'')),
     auditNextCursor (audit_fetch q since until a (page_limit 1000 (q ''limit'')) s) (page_limit 1000 (q ''limit'')))"
  using assms by (simp add: search_ok_def audit_page_def reply_page_def handleAuditLogs_def log_admin_ok Let_def audit_fetch_def)

lemma command_page_eq:
  assumes "search_ok env r q now s since until" "lg_commands s = Some t" "parse_after cur = Inr a"
  shows "command_page env r q now s cur =
    (trimCommandPage (buildCommandLogQuery (trim_space (q ''query'')) (trim_space (q ''user_id'')) (trim_space (q ''target_id''))
        since until a (page_limit 500 (q ''limit'') + 1) t) (page_limit 500 (q ''limit'')),
     commandNextCursor (buildCommandLogQuery (trim_space (q ''query'')) (trim_space (q ''user_id'')) (trim_space (q ''target_id''))
        since until a (page_limit 500 (q ''limit'') + 1) t) (page_limit 500 (q ''limit'')))"
  using assms by (simp add: search_ok_def command_page_def reply_page_def handleCommandLogs_def log_admin_ok Let_def)

text \<open>
  A table is in order when its identifiers are distinct and within range and a later row does not
  carry an earlier time.
\<close>

definition rows_in_order :: "('r \<Rightarrow> int) \<Rightarrow> ('r \<Rightarrow> instant) \<Rightarrow> 'r list \<Rightarrow> bool" where
  "rows_in_order ident tm t = (distinct (map ident t) \<and> list_all (\<lambda>r. 0 < ident r \<and> ident r < 2 ^ 63) t
     \<and> list_all (\<lambda>r. list_all (\<lambda>r'. ident r < ident r' \<longrightarrow> tm r \<le> tm r') t) t)"

definition ring_ok :: "auditStore \<Rightarrow> bool" where
  "ring_ok s = (0 < rs_max s \<and> int (length (rs_items s)) \<le> rs_max s \<and> 0 \<le> rs_nextID s \<and> rs_nextID s < 2 ^ 63
     \<and> int (length (rs_items s)) \<le> rs_nextID s
     \<and> map en_ID (rs_items s) = [rs_nextID s - int (length (rs_items s)) + 1 .. rs_nextID s])"

definition log_in_order :: "LogApp \<Rightarrow> bool" where
  "log_in_order s = (case lg_audit s of Some t \<Rightarrow> rows_in_order al_id al_time t | None \<Rightarrow> ring_ok (lg_buffer s))"

lemma sorted_upto: "sorted_wrt (<) [a..b::int]"
  by (simp add: sorted_wrt_iff_nth_less)

lemma newest_desc:
  assumes "rows_in_order ident tm t"
  shows "sorted_wrt (\<lambda>x y. ident y < ident x) (rev (sort_key (\<lambda>r. (tm r, ident r)) (filter P t)))"
proof -
  let ?xs = "sort_key (\<lambda>r. (tm r, ident r)) (filter P t)"
  have d: "distinct (map ident ?xs)"
    using assms by (auto simp: rows_in_order_def distinct_map intro: inj_on_subset)
  have "ident (?xs ! i) < ident (?xs ! j)" if "i < j" "j < length ?xs" for i j
  proof -
    let ?x = "?xs ! i" and ?y = "?xs ! j"
    have "sorted (map (\<lambda>r. (tm r, ident r)) ?xs)" by simp
    then have le: "(tm ?x, ident ?x) \<le> (tm ?y, ident ?y)"
      using sorted_nth_mono [of "map (\<lambda>r. (tm r, ident r)) ?xs" i j] that by simp
    have mem: "?x \<in> set t" "?y \<in> set t" using nth_mem [of i ?xs] nth_mem [of j ?xs] that by auto
    have "ident ?x \<noteq> ident ?y"
      using nth_eq_iff_index_eq [OF d, of i j] that by simp
    moreover have "\<not> ident ?y < ident ?x"
    proof
      assume lt: "ident ?y < ident ?x"
      then have "tm ?y \<le> tm ?x" using assms mem by (auto simp: rows_in_order_def list_all_iff)
      with le lt show False by auto
    qed
    ultimately show ?thesis by simp
  qed
  then have "sorted_wrt (\<lambda>x y. ident x < ident y) ?xs" by (simp add: sorted_wrt_iff_nth_less)
  then show ?thesis by (simp add: sorted_wrt_rev)
qed

lemma audit_listing_order:
  assumes "log_in_order s"
  shows "sorted_wrt (\<lambda>x y. en_ID y < en_ID x) (audit_listing q since until s)"
    and "x \<in> set (audit_listing q since until s) \<Longrightarrow> 0 < en_ID x \<and> en_ID x < 2 ^ 63"
proof -
  have *: "sorted_wrt (\<lambda>x y. en_ID y < en_ID x) (audit_listing q since until s)
    \<and> (\<forall>x \<in> set (audit_listing q since until s). 0 < en_ID x \<and> en_ID x < 2 ^ 63)"
  proof (cases "lg_audit s")
    case None
    let ?b = "lg_buffer s"
    have ids: "map en_ID (rs_items ?b) = [rs_nextID ?b - int (length (rs_items ?b)) + 1 .. rs_nextID ?b]" and
      rng: "0 \<le> rs_nextID ?b - int (length (rs_items ?b))" "rs_nextID ?b < 2 ^ 63"
      using assms None by (auto simp: log_in_order_def ring_ok_def)
    have "sorted_wrt (<) (map en_ID (rs_items ?b))" unfolding ids by (rule sorted_upto)
    then have "sorted_wrt (\<lambda>x y. en_ID x < en_ID y) (rs_items ?b)" by (simp add: sorted_wrt_map)
    moreover have "0 < en_ID x \<and> en_ID x < 2 ^ 63" if "x \<in> set (rs_items ?b)" for x
    proof -
      have "en_ID x \<in> set (map en_ID (rs_items ?b))" using that by simp
      then show ?thesis unfolding ids using rng by simp
    qed
    ultimately show ?thesis using None
      by (simp add: audit_listing_def Let_def sorted_wrt_rev sorted_wrt_filter)
  next
    case (Some t)
    then have o: "rows_in_order al_id al_time t" using assms by (simp add: log_in_order_def)
    then show ?thesis using newest_desc [OF o] Some
      by (auto simp: audit_listing_def Let_def sorted_wrt_map audit_entry_def rows_in_order_def list_all_iff)
  qed
  then show "sorted_wrt (\<lambda>x y. en_ID y < en_ID x) (audit_listing q since until s)"
    "x \<in> set (audit_listing q since until s) \<Longrightarrow> 0 < en_ID x \<and> en_ID x < 2 ^ 63" by blast+
qed

text \<open>
  C13. An administrator who follows the cursors of the audit log reads every matching entry exactly
  once, newest first, whatever the page size: from the ring of recent entries always, and from the
  table as long as no row carries an earlier time than a row with a smaller identifier.
\<close>

theorem audit_pages_complete:
  assumes "search_ok env r q now s since until" and "log_in_order s"
    and "length (audit_listing q since until s) < n"
  shows "read_pages (audit_page env r q now s) n [] = audit_listing q since until s"
  by (rule audit_pages.reads_all [where raw = "q ''limit''"])
    (use audit_page_eq [OF assms(1)] audit_listing_order [OF assms(2)] assms(3) in auto)

text \<open>
  A row that arrives late is lost to the reader: when a page of the command log ends with a row
  of a smaller identifier than some row that sorts after it, that row is on none of the pages the
  cursor leads to, however many are read, although it matches the search.
\<close>

theorem late_row_skipped:
  assumes "search_ok env r q now s since until" and "lg_commands s = Some t"
    and "\<forall>x \<in> set t. 0 < cl_id x \<and> cl_id x < 2 ^ 63"
    and "command_page env r q now s cur = (items @ [x], nxt)" and "parse_after cur = Inr a" and "nxt \<noteq> []"
    and "row \<in> set (command_listing q since until t)" and "row \<notin> set (items @ [x])" and "cl_id x < cl_id row"
  shows "row \<notin> set (items @ [x]) \<union> set (read_pages (command_page env r q now s) n nxt)"
proof -
  let ?L = "nat (page_limit 500 (q ''limit''))"
  let ?xs = "buildCommandLogQuery (trim_space (q ''query'')) (trim_space (q ''user_id'')) (trim_space (q ''target_id''))
        since until a (page_limit 500 (q ''limit'') + 1) t"
  have rng: "0 < cl_id y \<and> cl_id y < 2 ^ 63" if "y \<in> set (command_listing q since until t)" for y
    using assms(3) that by (auto simp: command_listing_def)
  have pg: "items @ [x] = take ?L ?xs"
      "nxt = (if length ?xs \<le> ?L then [] else FormatInt (cl_id (?xs ! (?L - 1))))"
    using assms(4) command_page_eq [OF assms(1,2,5)] unfolding command_page_laws by simp_all
  then have len: "\<not> length ?xs \<le> ?L" using assms(6) by auto
  then have "?xs ! (?L - 1) = last (take ?L ?xs)" using command_page_laws(3) [of "q ''limit''"]
    by (subst last_conv_nth) auto
  then have nxt: "nxt = FormatInt (cl_id x)" using pg len by (metis last_snoc)
  have "x \<in> set ?xs" using pg(1) by (metis in_set_conv_decomp in_set_takeD)
  then have xin: "x \<in> set (command_listing q since until t)"
    unfolding command_fetch_listing by (auto dest: in_set_takeD)
  have "row \<notin> set (read_pages (command_page env r q now s) n nxt)"
    unfolding nxt
    by (rule command_pages.skips [where cur = "FormatInt (cl_id x)" and c = "cl_id x" and q = q and since = since and until = until
          and t = t and raw = "q ''limit''"])
      (use command_page_eq [OF assms(1,2)] rng rng [OF xin] assms(9) in auto)
  with assms(8) show ?thesis by simp
qed

subsection \<open>The ring holds the latest entries\<close>

definition numbered :: "AuditEntry list \<Rightarrow> AuditEntry list" where
  "numbered es = map2 (\<lambda>e i. e\<lparr>en_ID := i\<rparr>) es [1..int (length es)]"

lemma length_numbered [simp]: "length (numbered es) = length es"
  by (simp add: numbered_def)

lemma upto_snoc: "[1..int (Suc n)] = [1..int n] @ [int (Suc n)]"
  using upto_rec2 [of 1 "int (Suc n)"] by simp

lemma numbered_snoc: "numbered (es @ [e]) = numbered es @ [e\<lparr>en_ID := int (Suc (length es))\<rparr>]"
proof -
  have "length [1..int (length es)] = length es" by simp
  then show ?thesis unfolding numbered_def length_append_singleton upto_snoc by simp
qed

lemma ids_numbered: "map en_ID (numbered es) = [1..int (length es)]"
  by (induction es rule: rev_induct) (simp_all only: numbered_snoc length_append_singleton upto_snoc map_append, simp_all add: numbered_def)

lemma audit_add_step:
  assumes "0 < rs_max s"
  shows "audit_add e s = s\<lparr>rs_nextID := wrap64 (rs_nextID s + 1),
    rs_items := lastn (nat (rs_max s)) (rs_items s @ [e\<lparr>en_ID := wrap64 (rs_nextID s + 1)\<rparr>])\<rparr>"
proof -
  have "(if int (length ys) > rs_max s then drop (length ys - nat (rs_max s)) ys else ys) = lastn (nat (rs_max s)) ys"
    for ys :: "AuditEntry list" using assms by (auto simp: lastn_def)
  note cut = this
  show ?thesis unfolding audit_add_def Let_def cut using assms by simp
qed

lemma ring_after:
  assumes "length es < 2 ^ 63" and "0 < rs_max s" and "rs_nextID s = 0" and "rs_items s = []"
  shows "fold audit_add es s = s\<lparr>rs_nextID := int (length es), rs_items := lastn (nat (rs_max s)) (numbered es)\<rparr>"
  using assms(1)
proof (induction es rule: rev_induct)
  case Nil
  then show ?case using assms(3,4) by (simp add: numbered_def)
next
  case (snoc e es)
  let ?m = "nat (rs_max s)"
  have w: "wrap64 (int (length es) + 1) = int (Suc (length es))"
    using snoc.prems by (subst wrap64_id) simp_all
  show ?case
    using snoc w by (simp add: audit_add_step assms(2) numbered_snoc del: of_nat_Suc)
qed

text \<open>
  After any number of events the ring holds exactly the last ones, as many as its capacity, in
  order and numbered consecutively from the first event on.
\<close>

theorem ring_holds_latest:
  assumes "length es < 2 ^ 63"
  shows "rs_items (fold audit_add es (newAuditStore m)) = lastn (nat (if m \<le> 0 then 1000 else m)) (numbered es)
    \<and> ring_ok (fold audit_add es (newAuditStore m))"
proof -
  let ?s = "newAuditStore m" and ?k = "nat (if m \<le> 0 then 1000 else m)"
  have f: "fold audit_add es ?s = ?s\<lparr>rs_nextID := int (length es), rs_items := lastn ?k (numbered es)\<rparr>"
    using ring_after [OF assms, of ?s] by (simp add: newAuditStore_def)
  have "map en_ID (lastn ?k (numbered es)) = lastn ?k [1..int (length es)]"
    by (simp add: lastn_def ids_numbered flip: drop_map)
  also have "\<dots> = [int (length es) - int (min ?k (length es)) + 1..int (length es)]"
    by (rule nth_equalityI) (auto simp: lastn_def)
  finally have "map en_ID (lastn ?k (numbered es)) = [int (length es) - int (min ?k (length es)) + 1..int (length es)]" .
  then show ?thesis unfolding f using assms by (auto simp: ring_ok_def newAuditStore_def)
qed

text \<open>
  Every search of the logs is over a range that is not empty and spans at most 90 days, however
  its ends are written.
\<close>

theorem search_range_bounded:
  assumes "parseTimeRange env f t now = Inr (since, until)"
  shows "since < until \<and> until - since \<le> 90 * 24 * hour"
  using parseTimeRange_Inr [OF assms] by (simp add: maxSearchRangeDays_def)

subsection \<open>Examples\<close>

definition demo_log_env :: log_env where
  "demo_log_env = \<lparr>le_guard = demo_genv, le_rfc3339 = (\<lambda>_. None), le_date = (\<lambda>s. if s = ''d1'' then Some (1 * 24 * hour) else None)\<rparr>"

definition demo_query :: "string \<Rightarrow> string" where
  "demo_query = (\<lambda>k. if k = ''limit'' then ''1'' else if k = ''from'' \<or> k = ''to'' then ''d1'' else [])"

definition demo_audit_row :: "int \<Rightarrow> instant \<Rightarrow> audit_row" where
  "demo_audit_row i at = \<lparr>al_id = i, al_time = at, al_event = ''login'', al_user_id = ''bob'', al_method = [], al_path = [], al_status = 0,
     al_remote = [], al_duration_ms = 0, al_fields = []\<rparr>"

definition demo_command :: "int \<Rightarrow> instant \<Rightarrow> command_row" where
  "demo_command i at = \<lparr>cl_id = i, cl_time = at, cl_session_id = ''s'', cl_user_id = ''bob'', cl_target_id = ''t'', cl_line_text = ''ls''\<rparr>"

definition demo_logs :: LogApp where
  "demo_logs = \<lparr>lg_db = demo_accounts, lg_audit = Some [demo_audit_row 1 (25 * hour), demo_audit_row 2 (26 * hour)],
     lg_commands = Some [demo_command 1 (26 * hour), demo_command 2 (25 * hour)], lg_buffer = newAuditStore 2000\<rparr>"

lemma demo_search: "search_ok demo_log_env (demo_get p ''s-alice'') demo_query (time_unix 9) demo_logs (24 * hour) (48 * hour)"
proof -
  have t: "trim_space ''d1'' = ''d1''" by (simp add: trim_space_visible visible_def)
  have "parseTimeRange demo_log_env (demo_query ''from'') (demo_query ''to'') (time_unix 9) = Inr (24 * hour, 48 * hour)"
    by (simp add: demo_query_def demo_log_env_def parseTimeRange_def parse_bound_def parseQueryTime_def t time_sub_def maxSearchRangeDays_def
      go_simps)
  then show ?thesis using demo_alice [of p] by (simp add: search_ok_def demo_log_env_def demo_logs_def)
qed

lemma demo_conds:
  "audit_conds [] [] (parseExcludeEvents []) (24 * hour) (48 * hour) 0 (demo_audit_row i at) = (24 * hour \<le> at \<and> at < 48 * hour)"
  "command_conds [] [] [] (24 * hour) (48 * hour) 0 (demo_command i at) = (24 * hour \<le> at \<and> at < 48 * hour)"
  by (simp_all add: audit_conds_def command_conds_def demo_audit_row_def demo_command_def parseExcludeEvents_def)

lemma demo_listings:
  "audit_listing demo_query (24 * hour) (48 * hour) demo_logs = map audit_entry [demo_audit_row 2 (26 * hour), demo_audit_row 1 (25 * hour)]"
  "command_listing demo_query (24 * hour) (48 * hour) [demo_command 1 (26 * hour), demo_command 2 (25 * hour)] =
     [demo_command 1 (26 * hour), demo_command 2 (25 * hour)]"
  by (simp_all add: audit_listing_def command_listing_def demo_logs_def demo_query_def demo_conds Let_def)
    (simp_all add: demo_audit_row_def demo_command_def go_simps)

theorem audit_pages_complete_witness:
  "read_pages (audit_page demo_log_env (demo_get ''/api/audit'' ''s-alice'') demo_query (time_unix 9) demo_logs) 3 [] =
     map audit_entry [demo_audit_row 2 (26 * hour), demo_audit_row 1 (25 * hour)]"
proof -
  have "log_in_order demo_logs"
    by (simp add: log_in_order_def demo_logs_def rows_in_order_def demo_audit_row_def go_simps)
  then show ?thesis
    using audit_pages_complete [OF demo_search, of 3] by (simp add: demo_listings)
qed

lemma demo_limit: "page_limit 500 (demo_query ''limit'') = 1"
  by (simp add: demo_query_def page_limit_def atoi_def is_digit_def digits_val_def digit_val_def)

theorem late_row_skipped_witness:
  "command_page demo_log_env (demo_get ''/api/commands'' ''s-alice'') demo_query (time_unix 9) demo_logs [] =
     ([demo_command 1 (26 * hour)], FormatInt 1)
   \<and> demo_command 2 (25 * hour) \<in> set (command_listing demo_query (24 * hour) (48 * hour) [demo_command 1 (26 * hour), demo_command 2 (25 * hour)])
   \<and> demo_command 2 (25 * hour) \<notin> set (read_pages (command_page demo_log_env (demo_get ''/api/commands'' ''s-alice'') demo_query
       (time_unix 9) demo_logs) 10 (FormatInt 1))"
proof -
  let ?t = "[demo_command 1 (26 * hour), demo_command 2 (25 * hour)]"
  have lg: "lg_commands demo_logs = Some ?t" by (simp add: demo_logs_def)
  note eq = command_page_eq [OF demo_search lg, unfolded command_fetch_listing demo_listings command_page_laws]
  have pg: "command_page demo_log_env (demo_get ''/api/commands'' ''s-alice'') demo_query (time_unix 9) demo_logs [] =
     ([] @ [demo_command 1 (26 * hour)], FormatInt 1)"
    using eq [of "[]" 0 "''/api/commands''"] by (simp add: demo_limit) (simp add: demo_command_def)
  have rng: "\<forall>x \<in> set ?t. 0 < cl_id x \<and> cl_id x < 2 ^ 63" by (simp add: demo_command_def)
  have "demo_command 2 (25 * hour) \<in> set (command_listing demo_query (24 * hour) (48 * hour) ?t)"
    "demo_command 2 (25 * hour) \<notin> set ([] @ [demo_command 1 (26 * hour)])" "cl_id (demo_command 1 (26 * hour)) < cl_id (demo_command 2 (25 * hour))"
    unfolding demo_listings by (simp_all add: demo_command_def)
  note sk = late_row_skipped [OF demo_search lg rng pg _ _ this, of 0 10]
  show ?thesis using pg sk unfolding demo_listings by simp
qed

definition demo_entry :: "string \<Rightarrow> AuditEntry" where
  "demo_entry ev = \<lparr>en_ID = 0, en_Time = 0, en_Event = ev, en_Fields = []\<rparr>"

theorem ring_holds_latest_witness:
  "rs_items (fold audit_add [demo_entry ''a'', demo_entry ''b'', demo_entry ''c''] (newAuditStore 2)) =
     [(demo_entry ''b'')\<lparr>en_ID := 2\<rparr>, (demo_entry ''c'')\<lparr>en_ID := 3\<rparr>]"
  using ring_holds_latest [of "[demo_entry ''a'', demo_entry ''b'', demo_entry ''c'']" 2]
  by (simp add: lastn_def numbered_def upto.simps)

theorem search_range_bounded_witness:
  "parseTimeRange demo_log_env ''d1'' [] (50 * hour) = Inr (24 * hour, 50 * hour) \<and> 24 * hour < 50 * hour \<and> 50 * hour - 24 * hour \<le> 90 * 24 * hour"
proof -
  have t: "trim_space ''d1'' = ''d1''" by (simp add: trim_space_visible visible_def)
  have "parseTimeRange demo_log_env ''d1'' [] (50 * hour) = Inr (24 * hour, 50 * hour)"
    by (simp add: demo_log_env_def parseTimeRange_def parse_bound_def parseQueryTime_def t time_sub_def maxSearchRangeDays_def go_simps)
  with search_range_bounded [OF this] show ?thesis by simp
qed

end
