(* ===== verification/Webhooks.thy ===== *)
theory Webhooks
  imports Log_Search "HOL-Library.Word" "HOL-Library.Multiset"
begin

text \<open>
  Webhook notifications (\<open>src/internal/httpapi/webhooks.go\<close>): matching of events against the
  patterns of an endpoint, the bounded queue with its workers and counters, one delivery with its
  retries and signature, the dial check, validation, and the handlers of the settings.

  Parameters of the model are what happens outside: the HTTP exchange of each attempt, the DNS, the
  TCP dial, HMAC, JSON encoding, time formats and the random source.  The \<open>int64\<close> counters are
  64-bit words.
\<close>

subsection \<open>Patterns: \<open>path.Match\<close>\<close>

text \<open>One rune of a character class, possibly escaped; \<open>None\<close> is \<open>ErrBadPattern\<close>.\<close>

definition getEsc :: "string \<Rightarrow> (nat \<times> string) option" where
  "getEsc chunk =
     (if chunk = [] \<or> hd chunk = CHR ''-'' \<or> hd chunk = CHR '']'' then None
      else let chunk = (if hd chunk = CHR 0x5C then tl chunk else chunk) in
        if chunk = [] then None
        else case decode_rune chunk of (r, n) \<Rightarrow>
          if r = rune_error \<and> n = 1 then None else if drop n chunk = [] then None else Some (r, drop n chunk))"

lemma getEsc_shorter: "getEsc chunk = Some (r, rest) \<Longrightarrow> length rest < length chunk"
proof -
  assume a: "getEsc chunk = Some (r, rest)"
  then have ne: "chunk \<noteq> []" by (auto simp: getEsc_def)
  obtain c where c: "c \<noteq> []" "length c \<le> length chunk" "rest = drop (snd (decode_rune c)) c"
    using a ne by (auto simp: getEsc_def Let_def split: if_splits prod.splits)
  then have "0 < snd (decode_rune c)" "0 < length c" using decode_rune_size [of c] by simp_all
  then have "length c - snd (decode_rune c) < length c" by (rule diff_less)
  then show ?thesis using c(2,3) by simp
qed

text \<open>The ranges of a class up to its closing bracket: whether one matched, and the rest of the chunk.\<close>

function class_ranges :: "nat \<Rightarrow> nat \<Rightarrow> bool \<Rightarrow> string \<Rightarrow> (bool \<times> string) option" where
  "class_ranges r nrange matched chunk =
     (if chunk \<noteq> [] \<and> hd chunk = CHR '']'' \<and> nrange > 0 then Some (matched, tl chunk)
      else case getEsc chunk of None \<Rightarrow> None
        | Some (lo, rest) \<Rightarrow>
          if hd rest = CHR ''-'' then
            (case getEsc (tl rest) of None \<Rightarrow> None
             | Some (hi, rest') \<Rightarrow> class_ranges r (nrange + 1) (matched \<or> lo \<le> r \<and> r \<le> hi) rest')
          else class_ranges r (nrange + 1) (matched \<or> lo \<le> r \<and> r \<le> lo) rest)"
  by pat_completeness auto
termination
proof (relation "measure (\<lambda>(_, _, _, chunk). length chunk)", goal_cases)
  case (2 r nrange matched chunk x2 lo rest x2a hi rest')
  then have "length rest < length chunk" "length rest' < length (tl rest)" using getEsc_shorter by metis+
  then show ?case by simp
next
  case (3 r nrange matched chunk x2 lo rest)
  then have "length rest < length chunk" using getEsc_shorter by metis
  then show ?case by simp
qed simp

declare class_ranges.simps [simp del]

lemma class_ranges_shorter: "class_ranges r n m chunk = Some (m', rest) \<Longrightarrow> length rest < length chunk"
proof (induction r n m chunk arbitrary: m' rest rule: class_ranges.induct)
  case (1 r nrange matched chunk)
  show ?case
  proof (cases "chunk \<noteq> [] \<and> hd chunk = CHR '']'' \<and> nrange > 0")
    case True
    with 1(3) show ?thesis by (auto simp: class_ranges.simps [of r nrange])
  next
    case False
    then obtain lo tail where e: "getEsc chunk = Some (lo, tail)"
      using 1(3) by (auto simp: class_ranges.simps [of r nrange] split: option.splits if_splits)
    note sh = getEsc_shorter [OF e]
    show ?thesis
    proof (cases "hd tail = CHR ''-''")
      case True
      then obtain hi tail' where e': "getEsc (tl tail) = Some (hi, tail')"
        using 1(3) False e by (auto simp: class_ranges.simps [of r nrange] split: option.splits if_splits)
      then have "length rest < length tail'"
        using 1(1) [OF False e refl True e' refl] 1(3) False e True by (subst (asm) (2) class_ranges.simps) auto
      with getEsc_shorter [OF e'] sh show ?thesis by simp
    next
      case ne: False
      have "length rest < length tail"
        using 1(2) [OF False e refl ne] 1(3) False e ne by (subst (asm) (2) class_ranges.simps) auto
      with sh show ?thesis by simp
    qed
  qed
qed

text \<open>
  One chunk against the start of the name.  The flag records that the match has failed; the chunk
  is then read on for its syntax only.  \<open>None\<close> is a malformed pattern, \<open>Some None\<close> no match,
  \<open>Some (Some rest)\<close> a match with the rest of the name.
\<close>

function matchChunk :: "bool \<Rightarrow> string \<Rightarrow> string \<Rightarrow> string option option" where
  "matchChunk failed chunk s =
     (if chunk = [] then Some (if failed then None else Some s)
      else let failed = (failed \<or> s = []); c = hd chunk in
        if c = CHR ''['' then
          let (r, n) = (if failed then (0, 0) else decode_rune s); chunk = tl chunk;
              negated = (chunk \<noteq> [] \<and> hd chunk = CHR ''^'')
          in case class_ranges r 0 False (if negated then tl chunk else chunk) of
               None \<Rightarrow> None
             | Some (matched, rest) \<Rightarrow> matchChunk (failed \<or> matched = negated) rest (drop n s)
        else if c = CHR ''?'' then
          (if failed then matchChunk failed (tl chunk) s
           else matchChunk (hd s = CHR ''/'') (tl chunk) (drop (snd (decode_rune s)) s))
        else if c = CHR 0x5C \<and> tl chunk = [] then None
        else let chunk = (if c = CHR 0x5C then tl chunk else chunk) in
          if failed then matchChunk failed (tl chunk) s
          else matchChunk (hd chunk \<noteq> hd s) (tl chunk) (tl s))"
  by pat_completeness auto
termination
proof (relation "measure (\<lambda>(_, chunk, _). length chunk)", goal_cases)
  case (2 failed chunk s x xa p r n xb y z matched rest)
  then have "length rest < length (if y then tl xb else xb)" using class_ranges_shorter by metis
  with 2 show ?case by (cases chunk) (auto split: if_splits)
qed auto

declare matchChunk.simps [simp del]

fun scan_end :: "bool \<Rightarrow> string \<Rightarrow> string \<times> string" where
  "scan_end inrange [] = ([], [])"
| "scan_end inrange (c # p) =
     (if c = CHR 0x5C then
        (case p of [] \<Rightarrow> ([c], []) | d # q \<Rightarrow> (case scan_end inrange q of (chunk, rest) \<Rightarrow> (c # d # chunk, rest)))
      else if c = CHR ''*'' \<and> \<not> inrange then ([], c # p)
      else case scan_end (c = CHR ''['' \<or> c \<noteq> CHR '']'' \<and> inrange) p of (chunk, rest) \<Rightarrow> (c # chunk, rest))"

definition scanChunk :: "string \<Rightarrow> bool \<times> string \<times> string" where
  "scanChunk pattern = (hd pattern = CHR ''*'', scan_end False (dropWhile (\<lambda>c. c = CHR ''*'') pattern))"

lemma scan_end_split: "scan_end r p = (chunk, rest) \<Longrightarrow> p = chunk @ rest"
  by (induction r p arbitrary: chunk rest rule: scan_end.induct)
    (auto split: if_splits list.splits prod.splits)

lemma scan_end_progress: "p \<noteq> [] \<Longrightarrow> hd p \<noteq> CHR ''*'' \<Longrightarrow> scan_end r p = (chunk, rest) \<Longrightarrow> chunk \<noteq> []"
  by (cases p) (auto split: if_splits list.splits prod.splits)

lemma scanChunk_shorter:
  assumes "pattern \<noteq> []" "scanChunk pattern = (star, chunk, rest)"
  shows "length rest < length pattern"
proof (cases "hd pattern = CHR ''*''")
  case True
  let ?d = "dropWhile (\<lambda>c. c = CHR ''*'') pattern"
  have "length ?d < length pattern" using assms(1) True by (cases pattern) (auto simp: length_dropWhile_le less_Suc_eq_le)
  moreover have "?d = chunk @ rest" using assms(2) by (auto simp: scanChunk_def dest: scan_end_split)
  ultimately show ?thesis by simp
next
  case False
  then have "dropWhile (\<lambda>c. c = CHR ''*'') pattern = pattern" using assms(1) by (cases pattern) auto
  then have e: "scan_end False pattern = (chunk, rest)" using assms(2) by (simp add: scanChunk_def)
  have "pattern = chunk @ rest" "chunk \<noteq> []" using scan_end_split [OF e] scan_end_progress [OF assms(1) False e] by simp_all
  then show ?thesis by (cases chunk) auto
qed

text \<open>Looking for the chunk behind a star: one more byte is skipped at a time, never a slash.\<close>

fun star_skip :: "string \<Rightarrow> bool \<Rightarrow> string \<Rightarrow> string option" where
  "star_skip chunk final [] = None"
| "star_skip chunk final (c # s) =
     (if c = CHR ''/'' then None
      else case matchChunk False chunk s of None \<Rightarrow> None
        | Some None \<Rightarrow> star_skip chunk final s
        | Some (Some t) \<Rightarrow> if final \<and> t \<noteq> [] then star_skip chunk final s else Some t)"

text \<open>The result without its error: a malformed pattern matches nothing.\<close>

function path_Match :: "string \<Rightarrow> string \<Rightarrow> bool" where
  "path_Match pattern name =
     (if pattern = [] then name = []
      else case scanChunk pattern of (star, chunk, rest) \<Rightarrow>
        if star \<and> chunk = [] then CHR ''/'' \<notin> set name
        else case matchChunk False chunk name of None \<Rightarrow> False
          | Some m \<Rightarrow>
            if (case m of Some t \<Rightarrow> t = [] \<or> rest \<noteq> [] | None \<Rightarrow> False) then path_Match rest (the m)
            else if star then (case star_skip chunk (rest = []) name of None \<Rightarrow> False | Some t \<Rightarrow> path_Match rest t)
            else False)"
  by pat_completeness auto
termination
  by (relation "measure (\<lambda>(pattern, _). length pattern)") (auto intro: scanChunk_shorter [OF _ sym])

declare path_Match.simps [simp del]

fun webhookEventMatches :: "string list \<Rightarrow> string \<Rightarrow> bool" where
  "webhookEventMatches [] event = False"
| "webhookEventMatches (p # patterns) event =
     (let p = trim_space p in
      if p = [] then webhookEventMatches patterns event
      else if p = ''*'' \<or> p = event then True
      else if path_Match p event then True
      else webhookEventMatches patterns event)"

subsection \<open>Endpoints, counters and the queue\<close>

definition webhookQueueSize :: nat where "webhookQueueSize = 1000"
definition webhookWorkers :: nat where "webhookWorkers = 4"
definition webhookMaxRetries :: nat where "webhookMaxRetries = 2"
definition webhookMaxEndpoints :: nat where "webhookMaxEndpoints = 20"

record webhookEndpoint =
  wh_ID :: string
  wh_Name :: string
  wh_URL :: string
  wh_Secret :: string
  wh_Format :: string
  wh_Events :: "string list"
  wh_Enabled :: bool

record webhookStats =
  ws_Sent :: "64 word"
  ws_Failed :: "64 word"
  ws_LastAt :: instant
  ws_LastStatus :: int
  ws_LastError :: string
  ws_LastEvent :: string
  ws_DroppedFull :: "64 word"

definition zero_stats :: webhookStats where
  "zero_stats = \<lparr>ws_Sent = 0, ws_Failed = 0, ws_LastAt = 0, ws_LastStatus = 0, ws_LastError = [], ws_LastEvent = [], ws_DroppedFull = 0\<rparr>"

type_synonym webhookDelivery = "webhookEndpoint \<times> AuditEntry"

text \<open>\<open>wd_busy\<close> are the deliveries the workers have taken from the channel and not yet recorded.\<close>

record webhookDispatcher =
  wd_cfg :: "webhookEndpoint list"
  wd_stats :: "(string, webhookStats) gomap"
  wd_ch :: "webhookDelivery list"
  wd_busy :: "webhookDelivery list"

definition new_dispatcher :: webhookDispatcher where
  "new_dispatcher = \<lparr>wd_cfg = [], wd_stats = [], wd_ch = [], wd_busy = []\<rparr>"

definition setConfig :: "webhookEndpoint list \<Rightarrow> webhookDispatcher \<Rightarrow> webhookDispatcher" where
  "setConfig cfg d = fold (\<lambda>ep d. if has_key (wd_stats d) (wh_ID ep) then d
     else d\<lparr>wd_stats := AList.update (wh_ID ep) zero_stats (wd_stats d)\<rparr>) cfg (d\<lparr>wd_cfg := cfg\<rparr>)"

definition statsFor :: "string \<Rightarrow> webhookDispatcher \<Rightarrow> webhookStats" where
  "statsFor i d = (case lookup (wd_stats d) i of Some s \<Rightarrow> s | None \<Rightarrow> zero_stats)"

definition offer :: "AuditEntry \<Rightarrow> webhookEndpoint \<Rightarrow> webhookDispatcher \<Rightarrow> webhookDispatcher" where
  "offer entry ep d =
     (if \<not> wh_Enabled ep \<or> \<not> webhookEventMatches (wh_Events ep) (en_Event entry) then d
      else if length (wd_ch d) < webhookQueueSize then d\<lparr>wd_ch := wd_ch d @ [(ep, entry)]\<rparr>
      else case lookup (wd_stats d) (wh_ID ep) of
          Some s \<Rightarrow> d\<lparr>wd_stats := AList.update (wh_ID ep) (s\<lparr>ws_DroppedFull := ws_DroppedFull s + 1\<rparr>) (wd_stats d)\<rparr>
        | None \<Rightarrow> d)"

definition dispatch :: "AuditEntry \<Rightarrow> webhookDispatcher \<Rightarrow> webhookDispatcher" where
  "dispatch entry d = fold (offer entry) (wd_cfg d) d"

definition record_delivery ::
  "string \<Rightarrow> string \<Rightarrow> int \<Rightarrow> string option \<Rightarrow> instant \<Rightarrow> webhookDispatcher \<Rightarrow> webhookDispatcher" where
  "record_delivery i event status err now d =
     (let s = (case lookup (wd_stats d) i of Some s \<Rightarrow> s | None \<Rightarrow> zero_stats);
          s = s\<lparr>ws_LastAt := now, ws_LastStatus := status, ws_LastEvent := event\<rparr>;
          s = (case err of Some e \<Rightarrow> s\<lparr>ws_Failed := ws_Failed s + 1, ws_LastError := e\<rparr>
               | None \<Rightarrow> s\<lparr>ws_Sent := ws_Sent s + 1, ws_LastError := []\<rparr>)
      in d\<lparr>wd_stats := AList.update i s (wd_stats d)\<rparr>)"

subsection \<open>One delivery\<close>

record webhook_request =
  wq_URL :: string
  wq_Event :: string
  wq_Delivery :: string
  wq_Signature :: "string option"
  wq_Body :: string

datatype http_outcome = Transport string | Reply int

record webhook_env =
  we_logs :: log_env
  we_allow_restricted :: string
  we_target_restricted :: string
  we_hostname :: string
  we_url_parse :: "string \<Rightarrow> (string \<times> string \<times> string) option"
  we_new_request :: "string \<Rightarrow> bool"
  we_hmac :: "string \<Rightarrow> string \<Rightarrow> string"
  we_sprint :: "field_value \<Rightarrow> string"
  we_rfc3339 :: "instant \<Rightarrow> string"
  we_rfc3339nano :: "instant \<Rightarrow> string"
  we_json_text :: "string \<Rightarrow> string option"
  we_json_payload :: "string \<Rightarrow> string \<Rightarrow> string \<Rightarrow> auditFields \<Rightarrow> string option"
  we_token :: "nat \<Rightarrow> string option"
  we_lookup :: "string \<Rightarrow> nat list list option"
  we_dial :: "nat list \<Rightarrow> string \<Rightarrow> bool"

fun slackEscape :: "string \<Rightarrow> string" where
  "slackEscape [] = []"
| "slackEscape (c # s) =
     (if c = CHR ''&'' then ''&amp;'' else if c = CHR ''<'' then ''&lt;'' else if c = CHR ''>'' then ''&gt;'' else [c]) @ slackEscape s"

text \<open>The inner loop of the insertion sort moves the element at \<open>j\<close> down by exchanges.\<close>

fun sift :: "nat \<Rightarrow> string list \<Rightarrow> string list" where
  "sift 0 s = s"
| "sift (Suc j) s = (if s ! Suc j < s ! j then sift j (s[Suc j := s ! j, j := s ! Suc j]) else s)"

definition sortStrings :: "string list \<Rightarrow> string list" where
  "sortStrings s = fold sift [1..<length s] s"

fun join_two :: "string \<Rightarrow> string list \<Rightarrow> string" where
  "join_two sep [] = []"
| "join_two sep [w] = w"
| "join_two sep (w # v # ws) = w @ sep @ join_two sep (v # ws)"

definition slack_parts :: "webhook_env \<Rightarrow> auditFields \<Rightarrow> string list" where
  "slack_parts env fs = map (\<lambda>(k, v). slackEscape k @ ''='' @ slackEscape (we_sprint env v)) (filter (\<lambda>(k, _). k \<noteq> ''event'') fs)"

definition webhookBody :: "webhook_env \<Rightarrow> webhookEndpoint \<Rightarrow> AuditEntry \<Rightarrow> string option" where
  "webhookBody env ep entry =
     (if wh_Format ep = ''slack'' then
        we_json_text env (''*Vantyx* `'' @ slackEscape (en_Event entry) @ ''` at '' @ we_rfc3339 env (en_Time entry)
          @ [CHR 0x0A] @ join_two ''  '' (sortStrings (slack_parts env (en_Fields entry))))
      else we_json_payload env (en_Event entry) (we_rfc3339nano env (en_Time entry)) (''vantyx@'' @ we_hostname env) (en_Fields entry))"

definition webhookSignature :: "webhook_env \<Rightarrow> string \<Rightarrow> string \<Rightarrow> string" where
  "webhookSignature env secret body = ''sha256='' @ we_hmac env secret body"

definition delivery_request :: "webhook_env \<Rightarrow> webhookEndpoint \<Rightarrow> AuditEntry \<Rightarrow> string \<Rightarrow> nat \<Rightarrow> webhook_request" where
  "delivery_request env ep entry body attempt = \<lparr>wq_URL = wh_URL ep, wq_Event = en_Event entry,
     wq_Delivery = FormatInt (en_Time entry - unix_epoch_s * second) @ ''-'' @ Itoa attempt,
     wq_Signature = (if wh_Secret ep \<noteq> [] then Some (webhookSignature env (wh_Secret ep) body) else None), wq_Body = body\<rparr>"

text \<open>
  The retry loop.  \<open>exch\<close> is the outcome of each attempt and \<open>cancelled\<close> tells whether the context
  ends during the pause before an attempt.  The result is the last status, the error and the
  requests that were sent.
\<close>

function deliver_loop ::
  "webhook_env \<Rightarrow> (nat \<Rightarrow> http_outcome) \<Rightarrow> (nat \<Rightarrow> bool) \<Rightarrow> webhookEndpoint \<Rightarrow> AuditEntry \<Rightarrow> string \<Rightarrow> nat
     \<Rightarrow> int \<Rightarrow> string option \<Rightarrow> webhook_request list \<Rightarrow> int \<times> string option \<times> webhook_request list" where
  "deliver_loop env exch cancelled ep entry body attempt status lastErr sent =
     (if attempt > webhookMaxRetries then (status, lastErr, sent)
      else if attempt > 0 \<and> cancelled attempt then (status, Some ''context canceled'', sent)
      else if \<not> we_new_request env (wh_URL ep) then (0, Some ''bad request url'', sent)
      else let sent = sent @ [delivery_request env ep entry body attempt] in
        case exch attempt of
          Transport e \<Rightarrow> deliver_loop env exch cancelled ep entry body (attempt + 1) status (Some e) sent
        | Reply st \<Rightarrow>
            if 200 \<le> st \<and> st < 300 then (st, None, sent)
            else if 400 \<le> st \<and> st < 500 \<and> st \<noteq> 429 then (st, Some (''HTTP '' @ FormatInt st), sent)
            else deliver_loop env exch cancelled ep entry body (attempt + 1) st (Some (''HTTP '' @ FormatInt st)) sent)"
  by pat_completeness auto
termination
  by (relation "measure (\<lambda>(_, _, _, _, _, _, attempt, _). Suc webhookMaxRetries - attempt)") auto

declare deliver_loop.simps [simp del]

definition deliver_webhook ::
  "webhook_env \<Rightarrow> (nat \<Rightarrow> http_outcome) \<Rightarrow> (nat \<Rightarrow> bool) \<Rightarrow> webhookEndpoint \<Rightarrow> AuditEntry \<Rightarrow> int \<times> string option \<times> webhook_request list" where
  "deliver_webhook env exch cancelled ep entry = (case webhookBody env ep entry of
     None \<Rightarrow> (0, Some ''json'', []) | Some body \<Rightarrow> deliver_loop env exch cancelled ep entry body 0 0 None [])"

text \<open>A worker receives from the channel, delivers with a context that never ends, and records.\<close>

definition loop_receive :: "webhookDispatcher \<Rightarrow> webhookDispatcher" where
  "loop_receive d = (case wd_ch d of [] \<Rightarrow> d
     | x # xs \<Rightarrow> if length (wd_busy d) < webhookWorkers then d\<lparr>wd_ch := xs, wd_busy := wd_busy d @ [x]\<rparr> else d)"

definition loop_finish :: "webhook_env \<Rightarrow> (nat \<Rightarrow> http_outcome) \<Rightarrow> nat \<Rightarrow> instant \<Rightarrow> webhookDispatcher \<Rightarrow> webhookDispatcher" where
  "loop_finish env exch i now d =
     (if i < length (wd_busy d) then
        (case wd_busy d ! i of (ep, entry) \<Rightarrow>
           case deliver_webhook env exch (\<lambda>_. False) ep entry of (status, err, _) \<Rightarrow>
             record_delivery (wh_ID ep) (en_Event entry) status err now
               (d\<lparr>wd_busy := take i (wd_busy d) @ drop (Suc i) (wd_busy d)\<rparr>))
      else d)"

subsection \<open>The dial check\<close>

datatype webhook_error = errWebhookURL string | ErrName | ErrEventPattern string | ErrNoEvents | ErrDial string

definition webhookRestrictedHostsAllowed :: "webhook_env \<Rightarrow> bool" where
  "webhookRestrictedHostsAllowed env = (trim_space (we_allow_restricted env) = ''1'')"

text \<open>The loop over the resolved addresses: the first that may be dialled and answers.\<close>

fun dial_addresses :: "webhook_env \<Rightarrow> string \<Rightarrow> string \<Rightarrow> nat list list \<Rightarrow> webhook_error option \<Rightarrow> webhook_error + nat list" where
  "dial_addresses env host port [] lastErr = Inl (case lastErr of Some e \<Rightarrow> e | None \<Rightarrow> errWebhookURL (host @ '' has no addresses''))"
| "dial_addresses env host port (ip # ips) lastErr =
     (if \<not> webhookRestrictedHostsAllowed env \<and> checkRestrictedHostIP (we_target_restricted env) (Some ip) \<noteq> None
      then dial_addresses env host port ips (Some (errWebhookURL (host @ '' resolves to a restricted address'')))
      else if we_dial env ip port then Inr ip
      else dial_addresses env host port ips (Some (ErrDial host)))"

definition webhookDialContext :: "webhook_env \<Rightarrow> string \<Rightarrow> webhook_error + nat list" where
  "webhookDialContext env addr = (case SplitHostPort addr of None \<Rightarrow> Inl (ErrDial addr)
     | Some (host, port) \<Rightarrow> (case ParseIP host of
          Some ip \<Rightarrow> dial_addresses env host port [ip] None
        | None \<Rightarrow>
            if equal_fold host ''localhost'' \<and> \<not> webhookRestrictedHostsAllowed env then Inl (errWebhookURL ''loopback'')
            else case we_lookup env host of None \<Rightarrow> Inl (ErrDial host)
              | Some ips \<Rightarrow> dial_addresses env host port ips None))"

subsection \<open>Validation\<close>

definition bad_pattern :: "string \<Rightarrow> bool" where
  "bad_pattern e = (length e > 64 \<or> list_ex (\<lambda>c. c \<in> {CHR '' '', CHR 0x09, CHR 0x0A, CHR 0x22}) e)"

text \<open>The patterns that are not empty, trimmed; the first bad one is an error.\<close>

fun clean_events :: "string list \<Rightarrow> webhook_error + string list" where
  "clean_events [] = Inr []"
| "clean_events (e # es) =
     (let e = trim_space e in
      if e = [] then clean_events es
      else if bad_pattern e then Inl (ErrEventPattern e)
      else map_sum (\<lambda>x. x) ((#) e) (clean_events es))"

definition check_url :: "webhook_env \<Rightarrow> string \<Rightarrow> webhook_error option" where
  "check_url env u = (case we_url_parse env u of None \<Rightarrow> Some (errWebhookURL [])
     | Some (scheme, host, hostname) \<Rightarrow>
       if scheme \<noteq> ''http'' \<and> scheme \<noteq> ''https'' \<or> host = [] then Some (errWebhookURL [])
       else if webhookRestrictedHostsAllowed env then None
       else case ParseIP hostname of
           Some ip \<Rightarrow> (if checkRestrictedHostIP (we_target_restricted env) (Some ip) \<noteq> None
                        then Some (errWebhookURL ''restricted'') else None)
         | None \<Rightarrow> if equal_fold hostname ''localhost'' then Some (errWebhookURL ''loopback'') else None)"

definition trimmed_endpoint :: "webhookEndpoint \<Rightarrow> webhookEndpoint" where
  "trimmed_endpoint ep =
     (let fmt = to_lower (trim_space (wh_Format ep))
      in ep\<lparr>wh_Name := trim_space (wh_Name ep), wh_URL := trim_space (wh_URL ep), wh_Secret := trim_space (wh_Secret ep),
            wh_Format := (if fmt = [] then ''generic'' else fmt)\<rparr>)"

definition validateWebhookEndpoint :: "webhook_env \<Rightarrow> webhookEndpoint \<Rightarrow> webhook_error + webhookEndpoint" where
  "validateWebhookEndpoint env ep =
     (let ep = trimmed_endpoint ep
      in if wh_Format ep \<noteq> ''generic'' \<and> wh_Format ep \<noteq> ''slack'' then Inl (errWebhookURL ''format'')
         else if wh_Name ep = [] \<or> length (wh_Name ep) > 100 then Inl ErrName
         else case check_url env (wh_URL ep) of Some e \<Rightarrow> Inl e
           | None \<Rightarrow> (case clean_events (wh_Events ep) of Inl e \<Rightarrow> Inl e
               | Inr evs \<Rightarrow> if evs = [] then Inl ErrNoEvents else Inr (ep\<lparr>wh_Events := evs\<rparr>)))"

subsection \<open>Settings\<close>

text \<open>
  \<open>hk_has_db\<close> tells whether there is a database and \<open>hk_setting\<close> is the decoded row \<open>webhooks\<close> of
  \<open>app_settings\<close>, absent also when it cannot be decoded.
\<close>

record HookApp =
  hk_db :: AuthDB
  hk_has_db :: bool
  hk_setting :: "webhookEndpoint list option"
  hk_disp :: webhookDispatcher

definition loadWebhookConfigFromDB :: "HookApp \<Rightarrow> webhookEndpoint list option" where
  "loadWebhookConfigFromDB s = (if \<not> hk_has_db s then None else hk_setting s)"

definition saveWebhookConfigToDB :: "webhookEndpoint list \<Rightarrow> HookApp \<Rightarrow> HookApp option" where
  "saveWebhookConfigToDB cfg s = (if \<not> hk_has_db s then None else Some (s\<lparr>hk_setting := Some cfg\<rparr>))"

record webhook_vars =
  wv_URL :: string
  wv_EVENTS :: string
  wv_SECRET :: string
  wv_FORMAT :: string

definition default_events :: "string list" where
  "default_events = [''login_failed'', ''login_rate_limited'', ''oidc_login_failed'', ''totp_reset_by_admin'', ''user_role_update'',
     ''access_request_*'', ''session_terminated_by_admin'', ''retention_purge'']"

text \<open>\<open>strings.Fields\<close> after the commas have become spaces, on ASCII white space.\<close>

definition is_blank :: "char \<Rightarrow> bool" where
  "is_blank c = (c = CHR '','' \<or> c = CHR '' '' \<or> 9 \<le> byte c \<and> byte c \<le> 13)"

fun event_fields :: "string \<Rightarrow> string \<Rightarrow> string list" where
  "event_fields w [] = (if w = [] then [] else [w])"
| "event_fields w (c # s) =
     (if is_blank c then (if w = [] then event_fields [] s else w # event_fields [] s) else event_fields (w @ [c]) s)"

definition webhookConfigFromEnv :: "webhook_vars \<Rightarrow> webhookEndpoint list option" where
  "webhookConfigFromEnv v =
     (let u = trim_space (wv_URL v) in
      if u = [] then None
      else let events = event_fields [] (wv_EVENTS v);
               events = (if events = [] then default_events else events);
               fmt = to_lower (trim_space (wv_FORMAT v))
        in Some [\<lparr>wh_ID = ''env'', wh_Name = ''VANTYX_WEBHOOK_URL'', wh_URL = u, wh_Secret = trim_space (wv_SECRET v),
             wh_Format = (if fmt \<noteq> ''slack'' then ''generic'' else fmt), wh_Events = events, wh_Enabled = True\<rparr>])"

definition initWebhooks :: "webhook_vars \<Rightarrow> HookApp \<Rightarrow> HookApp" where
  "initWebhooks v s =
     (let cfg = (case loadWebhookConfigFromDB s of Some c \<Rightarrow> c
         | None \<Rightarrow> (case webhookConfigFromEnv v of Some c \<Rightarrow> c | None \<Rightarrow> []))
      in s\<lparr>hk_disp := setConfig cfg (hk_disp s)\<rparr>)"

record webhookEndpointResponse =
  wr_endpoint :: webhookEndpoint
  wr_HasSecret :: bool
  wr_Stats :: webhookStats

definition webhookResponses :: "HookApp \<Rightarrow> webhookEndpointResponse list" where
  "webhookResponses s = map (\<lambda>ep. \<lparr>wr_endpoint = ep\<lparr>wh_Secret := []\<rparr>, wr_HasSecret = (wh_Secret ep \<noteq> []),
     wr_Stats = statsFor (wh_ID ep) (hk_disp s)\<rparr>) (wd_cfg (hk_disp s))"

definition hook_admin ::
  "webhook_env \<Rightarrow> http_req \<Rightarrow> instant \<Rightarrow> HookApp \<Rightarrow> (HookApp \<Rightarrow> (http_error + 'a) \<times> HookApp) \<Rightarrow> (http_error + 'a) \<times> HookApp" where
  "hook_admin env r now s k = (case requireAdmin (le_guard (we_logs env)) r now (hk_db s) of
     (Inl e, db) \<Rightarrow> (Inl e, s\<lparr>hk_db := db\<rparr>) | (Inr _, db) \<Rightarrow> k (s\<lparr>hk_db := db\<rparr>))"

definition handleGetWebhooks :: "webhook_env \<Rightarrow> http_req \<Rightarrow> instant \<Rightarrow> HookApp \<Rightarrow> (http_error + webhookEndpointResponse list) \<times> HookApp" where
  "handleGetWebhooks env r now s = hook_admin env r now s (\<lambda>s. (Inr (webhookResponses s), s))"

text \<open>
  The loop over the endpoints of a request: \<open>i\<close> counts the positions (it selects the random token
  of the position), \<open>seen\<close> are the identifiers so far.
\<close>

fun accept_endpoints ::
  "webhook_env \<Rightarrow> (string \<Rightarrow> string) \<Rightarrow> nat \<Rightarrow> string list \<Rightarrow> webhookEndpoint list \<Rightarrow> http_error + webhookEndpoint list" where
  "accept_endpoints env existing i seen [] = Inr []"
| "accept_endpoints env existing i seen (ep # eps) =
     (let given = trim_space (wh_ID ep) in
      case (if given = [] then map_option (take 12) (we_token env i) else Some given) of
        None \<Rightarrow> Inl (500, ''common.internalError'')
      | Some eid \<Rightarrow>
          if eid \<in> set seen then Inl (400, ''settings.webhookDuplicateID'')
          else let ep = ep\<lparr>wh_ID := eid, wh_Secret := (if wh_Secret ep = [] then existing eid else wh_Secret ep)\<rparr>
            in case validateWebhookEndpoint env ep of Inl _ \<Rightarrow> Inl (400, ''settings.webhookInvalid'')
               | Inr ep \<Rightarrow> map_sum (\<lambda>e. e) ((#) ep) (accept_endpoints env existing (i + 1) (eid # seen) eps))"

definition existing_secret :: "webhookEndpoint list \<Rightarrow> string \<Rightarrow> string" where
  "existing_secret cfg i = (case find (\<lambda>ep. wh_ID ep = i) (rev cfg) of Some ep \<Rightarrow> wh_Secret ep | None \<Rightarrow> [])"

definition handlePutWebhooks ::
  "webhook_env \<Rightarrow> http_req \<Rightarrow> webhookEndpoint list option \<Rightarrow> instant \<Rightarrow> HookApp
     \<Rightarrow> (http_error + webhookEndpointResponse list) \<times> HookApp" where
  "handlePutWebhooks env r body now s = hook_admin env r now s (\<lambda>s.
     case body of None \<Rightarrow> (Inl (400, ''common.invalidRequestBody''), s)
     | Some eps \<Rightarrow>
       if length eps > webhookMaxEndpoints then (Inl (400, ''settings.webhookTooMany''), s)
       else case accept_endpoints env (existing_secret (wd_cfg (hk_disp s))) 0 [] eps of
           Inl e \<Rightarrow> (Inl e, s)
         | Inr cfg \<Rightarrow> (case saveWebhookConfigToDB cfg s of
               None \<Rightarrow> (Inl (500, ''settings.saveFailed''), s)
             | Some s \<Rightarrow> let s = s\<lparr>hk_disp := setConfig cfg (hk_disp s)\<rparr> in (Inr (webhookResponses s), s)))"

record test_result =
  tr_ok :: bool
  tr_status :: int
  tr_error :: "string option"

definition handleTestWebhook ::
  "webhook_env \<Rightarrow> http_req \<Rightarrow> string \<Rightarrow> (nat \<Rightarrow> http_outcome) \<Rightarrow> (nat \<Rightarrow> bool) \<Rightarrow> instant \<Rightarrow> HookApp
     \<Rightarrow> (http_error + test_result) \<times> HookApp" where
  "handleTestWebhook env r raw exch cancelled now s = hook_admin env r now s (\<lambda>s.
     case find (\<lambda>ep. wh_ID ep = trim_space raw) (wd_cfg (hk_disp s)) of
       None \<Rightarrow> (Inl (404, ''settings.webhookNotFound''), s)
     | Some target \<Rightarrow>
       let entry = \<lparr>en_ID = 0, en_Time = now, en_Event = ''webhook_test'',
             en_Fields = [(''user_id'', FString (fst (currentUserID (le_guard (we_logs env)) r now (hk_db s)))), (''endpoint'', FString (wh_Name target))]\<rparr>
       in case deliver_webhook env exch cancelled target entry of (status, err, _) \<Rightarrow>
            (Inr \<lparr>tr_ok = (err = None), tr_status = status, tr_error = err\<rparr>,
             s\<lparr>hk_disp := record_delivery (wh_ID target) (en_Event entry) status err now (hk_disp s)\<rparr>))"

subsection \<open>No event is lost unaccounted\<close>

text \<open>What happens to the dispatcher, in any order: the test handler only records.\<close>

datatype hook_op = OpAudit AuditEntry | OpReceive | OpFinish "nat \<Rightarrow> http_outcome" nat instant
  | OpConfig "webhookEndpoint list" | OpTest string string int "string option" instant

fun hook_apply :: "webhook_env \<Rightarrow> hook_op \<Rightarrow> webhookDispatcher \<Rightarrow> webhookDispatcher" where
  "hook_apply env (OpAudit e) d = dispatch e d"
| "hook_apply env OpReceive d = loop_receive d"
| "hook_apply env (OpFinish exch i now) d = loop_finish env exch i now d"
| "hook_apply env (OpConfig cfg) d = setConfig cfg d"
| "hook_apply env (OpTest i ev status err now) d = record_delivery i ev status err now d"

definition wants :: "AuditEntry \<Rightarrow> string \<Rightarrow> webhookEndpoint \<Rightarrow> bool" where
  "wants e i ep = (wh_ID ep = i \<and> wh_Enabled ep \<and> webhookEventMatches (wh_Events ep) (en_Event e))"

text \<open>How often an operation offers something to the endpoint \<open>i\<close>.\<close>

fun offered :: "string \<Rightarrow> hook_op \<Rightarrow> webhookDispatcher \<Rightarrow> nat" where
  "offered i (OpAudit e) d = length (filter (wants e i) (wd_cfg d))"
| "offered i (OpTest j _ _ _ _) d = (if j = i then 1 else 0)"
| "offered i _ d = 0"

fun offered_in :: "webhook_env \<Rightarrow> string \<Rightarrow> hook_op list \<Rightarrow> webhookDispatcher \<Rightarrow> nat" where
  "offered_in env i [] d = 0"
| "offered_in env i (x # ops) d = offered i x d + offered_in env i ops (hook_apply env x d)"

definition for_endpoint :: "string \<Rightarrow> webhookDelivery list \<Rightarrow> nat" where
  "for_endpoint i xs = length (filter (\<lambda>(ep, _). wh_ID ep = i) xs)"

definition counted :: "webhookStats \<Rightarrow> 64 word" where
  "counted s = ws_Sent s + ws_Failed s + ws_DroppedFull s"

definition settled :: "string \<Rightarrow> webhookDispatcher \<Rightarrow> 64 word" where
  "settled i d = counted (statsFor i d) + of_nat (for_endpoint i (wd_ch d) + for_endpoint i (wd_busy d))"

definition hook_ok :: "webhookDispatcher \<Rightarrow> bool" where
  "hook_ok d = (length (wd_ch d) \<le> webhookQueueSize \<and> length (wd_busy d) \<le> webhookWorkers
     \<and> list_all (\<lambda>ep. has_key (wd_stats d) (wh_ID ep)) (wd_cfg d))"

lemma counted_zero [simp]: "counted zero_stats = 0"
  by (simp add: counted_def zero_stats_def)

lemma for_endpoint_simps [simp]:
  "for_endpoint i [] = 0" "for_endpoint i (xs @ ys) = for_endpoint i xs + for_endpoint i ys"
  "for_endpoint i ((ep, e) # xs) = (if wh_ID ep = i then 1 else 0) + for_endpoint i xs"
  by (simp_all add: for_endpoint_def)

lemma offer_effect:
  assumes "has_key (wd_stats d) (wh_ID ep)" "length (wd_ch d) \<le> webhookQueueSize"
  shows "settled i (offer e ep d) = settled i d + (if wants e i ep then 1 else 0)"
    and "length (wd_ch (offer e ep d)) \<le> webhookQueueSize" "wd_busy (offer e ep d) = wd_busy d" "wd_cfg (offer e ep d) = wd_cfg d"
    and "has_key (wd_stats (offer e ep d)) j = has_key (wd_stats d) j"
  using assms
  by (auto simp: offer_def settled_def statsFor_def counted_def wants_def split: option.split)

lemma dispatch_effect:
  assumes "list_all (\<lambda>ep. has_key (wd_stats d) (wh_ID ep)) eps" "length (wd_ch d) \<le> webhookQueueSize"
  shows "settled i (fold (offer e) eps d) = settled i d + of_nat (length (filter (wants e i) eps))
    \<and> length (wd_ch (fold (offer e) eps d)) \<le> webhookQueueSize \<and> wd_busy (fold (offer e) eps d) = wd_busy d
    \<and> wd_cfg (fold (offer e) eps d) = wd_cfg d \<and> (\<forall>j. has_key (wd_stats (fold (offer e) eps d)) j = has_key (wd_stats d) j)"
  using assms
proof (induction eps arbitrary: d)
  case (Cons ep eps)
  have h: "has_key (wd_stats d) (wh_ID ep)" using Cons.prems by simp
  note o = offer_effect [OF h Cons.prems(2), where e = e]
  have "list_all (\<lambda>x. has_key (wd_stats (offer e ep d)) (wh_ID x)) eps" using Cons.prems(1) o(5) by simp
  from Cons.IH [OF this o(2)] show ?case using o(1) [of i] o(3,4,5) by (simp add: algebra_simps)
qed simp

lemma record_effect:
  "settled i (record_delivery j ev status err now d) = settled i d + (if j = i then 1 else 0)"
  "wd_ch (record_delivery j ev status err now d) = wd_ch d" "wd_busy (record_delivery j ev status err now d) = wd_busy d"
  "wd_cfg (record_delivery j ev status err now d) = wd_cfg d"
  "has_key (wd_stats (record_delivery j ev status err now d)) k = (k = j \<or> has_key (wd_stats d) k)"
  by (auto simp: record_delivery_def settled_def statsFor_def counted_def Let_def zero_stats_def split: option.split)

lemma setConfig_effect:
  "settled i (setConfig cfg d) = settled i d" "wd_ch (setConfig cfg d) = wd_ch d" "wd_busy (setConfig cfg d) = wd_busy d"
  "wd_cfg (setConfig cfg d) = cfg" "has_key (wd_stats (setConfig cfg d)) k = (k \<in> wh_ID ` set cfg \<or> has_key (wd_stats d) k)"
proof -
  let ?f = "\<lambda>ep d. if has_key (wd_stats d) (wh_ID ep) then d else d\<lparr>wd_stats := AList.update (wh_ID ep) zero_stats (wd_stats d)\<rparr>"
  have "settled i (fold ?f eps d) = settled i d \<and> wd_ch (fold ?f eps d) = wd_ch d \<and> wd_busy (fold ?f eps d) = wd_busy d
    \<and> wd_cfg (fold ?f eps d) = wd_cfg d \<and> has_key (wd_stats (fold ?f eps d)) k = (k \<in> wh_ID ` set eps \<or> has_key (wd_stats d) k)" for eps d
  proof (induction eps arbitrary: d)
    case (Cons ep eps)
    have "settled i (?f ep d) = settled i d" by (auto simp: settled_def statsFor_def)
    with Cons [of "?f ep d"] show ?case by auto
  qed simp
  note run = this [of cfg "d\<lparr>wd_cfg := cfg\<rparr>"]
  have "settled i (d\<lparr>wd_cfg := cfg\<rparr>) = settled i d" by (simp add: settled_def statsFor_def)
  with run show "settled i (setConfig cfg d) = settled i d" "wd_ch (setConfig cfg d) = wd_ch d" "wd_busy (setConfig cfg d) = wd_busy d"
    "wd_cfg (setConfig cfg d) = cfg" "has_key (wd_stats (setConfig cfg d)) k = (k \<in> wh_ID ` set cfg \<or> has_key (wd_stats d) k)"
    unfolding setConfig_def by simp_all
qed

lemma for_endpoint_remove:
  "k < length xs \<Longrightarrow> for_endpoint i xs = for_endpoint i (take k xs @ drop (Suc k) xs) + (if wh_ID (fst (xs ! k)) = i then 1 else 0)"
proof -
  assume "k < length xs"
  then have "xs = take k xs @ xs ! k # drop (Suc k) xs" by (rule id_take_nth_drop)
  then have "for_endpoint i xs = for_endpoint i (take k xs @ xs ! k # drop (Suc k) xs)" by simp
  then show ?thesis by (cases "xs ! k") simp
qed

lemma finish_effect:
  assumes "hook_ok d"
  shows "settled i (loop_finish env exch k now d) = settled i d" "hook_ok (loop_finish env exch k now d)"
proof (atomize(full), cases "k < length (wd_busy d)")
  case True
  obtain ep e where x: "wd_busy d ! k = (ep, e)" by fastforce
  obtain st err snt where dl: "deliver_webhook env exch (\<lambda>_. False) ep e = (st, err, snt)" by (metis prod_cases3)
  let ?d = "d\<lparr>wd_busy := take k (wd_busy d) @ drop (Suc k) (wd_busy d)\<rparr>"
  have "settled i ?d + (if wh_ID ep = i then 1 else 0) = settled i d"
    using for_endpoint_remove [OF True, of i] x by (simp add: settled_def statsFor_def)
  then show "settled i (loop_finish env exch k now d) = settled i d \<and> hook_ok (loop_finish env exch k now d)"
    using True x dl assms
    by (auto simp: loop_finish_def record_effect hook_ok_def list_all_iff record_effect(5) simp del: not_None_eq)
qed (use assms in \<open>simp add: loop_finish_def\<close>)

lemma hook_apply_effect:
  assumes "hook_ok d"
  shows "settled i (hook_apply env x d) = settled i d + of_nat (offered i x d)" "hook_ok (hook_apply env x d)"
proof (atomize(full), cases x)
  case (OpAudit e)
  then show "settled i (hook_apply env x d) = settled i d + of_nat (offered i x d) \<and> hook_ok (hook_apply env x d)"
    using dispatch_effect [of d "wd_cfg d" i e] assms by (simp add: dispatch_def hook_ok_def list_all_iff)
next
  case OpReceive
  then show "settled i (hook_apply env x d) = settled i d + of_nat (offered i x d) \<and> hook_ok (hook_apply env x d)"
    using assms by (cases "wd_ch d") (auto simp: loop_receive_def hook_ok_def settled_def statsFor_def)
next
  case (OpFinish exch k now)
  then show "settled i (hook_apply env x d) = settled i d + of_nat (offered i x d) \<and> hook_ok (hook_apply env x d)"
    using finish_effect [OF assms] by simp
next
  case (OpConfig cfg)
  then show "settled i (hook_apply env x d) = settled i d + of_nat (offered i x d) \<and> hook_ok (hook_apply env x d)"
    using assms by (auto simp: setConfig_effect hook_ok_def list_all_iff simp del: not_None_eq)
next
  case (OpTest j ev st err now)
  then show "settled i (hook_apply env x d) = settled i d + of_nat (offered i x d) \<and> hook_ok (hook_apply env x d)"
    using assms by (auto simp: record_effect hook_ok_def list_all_iff simp del: not_None_eq)
qed

lemma hook_run_effect:
  "hook_ok d \<Longrightarrow> settled i (fold (hook_apply env) ops d) = settled i d + of_nat (offered_in env i ops d) \<and> hook_ok (fold (hook_apply env) ops d)"
  by (induction ops arbitrary: d) (simp_all add: hook_apply_effect algebra_simps)

text \<open>
  C11. Whatever sequence of audit events, deliveries, test calls and changes of the settings occurs,
  every event that an enabled endpoint subscribes to is accounted for: it was sent, has failed, was
  dropped because the queue was full, or is still in the queue or with a worker.  The counters
  survive a removal of the endpoint, and queue and workers stay within their bounds.
\<close>

theorem webhook_events_accounted:
  "let d = fold (hook_apply env) ops new_dispatcher in
     counted (statsFor i d) + of_nat (for_endpoint i (wd_ch d) + for_endpoint i (wd_busy d)) = of_nat (offered_in env i ops new_dispatcher)
     \<and> length (wd_ch d) \<le> 1000 \<and> length (wd_busy d) \<le> 4"
proof -
  have "hook_ok new_dispatcher" "settled i new_dispatcher = 0"
    by (simp_all add: new_dispatcher_def hook_ok_def settled_def statsFor_def)
  with hook_run_effect [of new_dispatcher i env ops] show ?thesis
    by (simp add: Let_def settled_def hook_ok_def webhookQueueSize_def webhookWorkers_def)
qed

subsection \<open>Retries\<close>

fun success :: "http_outcome \<Rightarrow> bool" where
  "success (Transport _) = False"
| "success (Reply st) = (200 \<le> st \<and> st < 300)"

fun retryable :: "http_outcome \<Rightarrow> bool" where
  "retryable (Transport _) = True"
| "retryable (Reply st) = (\<not> (200 \<le> st \<and> st < 300) \<and> \<not> (400 \<le> st \<and> st < 500 \<and> st \<noteq> 429))"

text \<open>What the loop adds to the requests sent before it.\<close>

definition tries_ok ::
  "webhook_env \<Rightarrow> (nat \<Rightarrow> http_outcome) \<Rightarrow> webhookEndpoint \<Rightarrow> AuditEntry \<Rightarrow> string \<Rightarrow> nat \<Rightarrow> nat \<Rightarrow> string option \<Rightarrow> bool" where
  "tries_ok env exch ep entry body a n err = (a \<le> n \<and> n \<le> max a (Suc webhookMaxRetries)
     \<and> (err = None \<longleftrightarrow> a < n \<and> success (exch (n - 1))) \<and> (\<forall>k. a \<le> k \<and> Suc k < n \<longrightarrow> retryable (exch k)))"

lemma tries_step:
  assumes "tries_ok env exch ep entry body (Suc a) n err" "a \<le> webhookMaxRetries" "retryable (exch a)"
  shows "tries_ok env exch ep entry body a n err"
proof -
  have "err = None \<longleftrightarrow> a < n \<and> success (exch (n - 1))"
  proof (cases "n = Suc a")
    case True
    have "\<not> success (exch a)" using assms(3) by (cases "exch a") auto
    then show ?thesis using assms(1) True by (simp add: tries_ok_def)
  qed (use assms(1) in \<open>auto simp: tries_ok_def\<close>)
  moreover have "retryable (exch k)" if "a \<le> k" "Suc k < n" for k
    using assms(1,3) that by (cases "k = a") (auto simp: tries_ok_def)
  ultimately show ?thesis using assms(1,2) by (auto simp: tries_ok_def)
qed

lemma deliver_loop_tries:
  assumes "deliver_loop env exch cancelled ep entry body a status lastErr sent = (st, err, sent')" and "a = 0 \<or> lastErr \<noteq> None"
  shows "\<exists>n. sent' = sent @ map (delivery_request env ep entry body) [a..<n] \<and> tries_ok env exch ep entry body a n err"
  using assms
proof (induction env exch cancelled ep entry body a status lastErr sent arbitrary: st err sent' rule: deliver_loop.induct)
  case (1 env exch cancelled ep entry body a status lastErr sent)
  let ?q = "delivery_request env ep entry body"
  have stop: "\<exists>n. sent' = sent @ map ?q [a..<n] \<and> tries_ok env exch ep entry body a n err" if "sent' = sent" "err \<noteq> None"
    using that by (intro exI [of _ a]) (auto simp: tries_ok_def)
  have go: "\<exists>n. sent' = sent @ map ?q [a..<n] \<and> tries_ok env exch ep entry body a n err"
    if "\<exists>n. sent' = (sent @ [?q a]) @ map ?q [Suc a..<n] \<and> tries_ok env exch ep entry body (Suc a) n err" "a \<le> webhookMaxRetries"
      "retryable (exch a)"
  proof -
    from that(1) obtain n where n: "sent' = (sent @ [?q a]) @ map ?q [Suc a..<n]" "tries_ok env exch ep entry body (Suc a) n err" by blast
    have "[a..<n] = a # [Suc a..<n]" using n(2) by (intro upt_conv_Cons) (auto simp: tries_ok_def)
    then show ?thesis using n tries_step [OF n(2) that(2,3)] by (intro exI [of _ n]) simp
  qed
  have here: "\<exists>n. sent' = sent @ map ?q [a..<n] \<and> tries_ok env exch ep entry body a n err"
    if "sent' = sent @ [?q a]" "err = None \<longleftrightarrow> success (exch a)" "a \<le> webhookMaxRetries"
    using that by (intro exI [of _ "Suc a"]) (auto simp: tries_ok_def webhookMaxRetries_def)
  consider "a > webhookMaxRetries" | "a \<le> webhookMaxRetries" "a > 0 \<and> cancelled a"
    | "a \<le> webhookMaxRetries" "\<not> (a > 0 \<and> cancelled a)" "\<not> we_new_request env (wh_URL ep)"
    | "a \<le> webhookMaxRetries" "\<not> (a > 0 \<and> cancelled a)" "we_new_request env (wh_URL ep)" by linarith
  then show ?case
  proof cases
    case 1
    then show ?thesis using "1.prems" by (intro stop) (auto simp: deliver_loop.simps [of _ _ _ _ _ _ a])
  next
    case 2
    then show ?thesis using "1.prems" by (intro stop) (auto simp: deliver_loop.simps [of _ _ _ _ _ _ a])
  next
    case 3
    then show ?thesis using "1.prems" by (intro stop) (auto simp: deliver_loop.simps [of _ _ _ _ _ _ a])
  next
    case 4
    then have na: "\<not> webhookMaxRetries < a" by simp
    note u = deliver_loop.simps [of env exch cancelled ep entry body a status lastErr sent]
    show ?thesis
    proof (cases "exch a")
      case (Transport e)
      then have "deliver_loop env exch cancelled ep entry body (a + 1) status (Some e) (sent @ [?q a]) = (st, err, sent')"
        using "1.prems"(1) 4 unfolding u by auto
      then show ?thesis using "1.IH"(1) [OF _ _ _ refl Transport, of st err sent'] 4 Transport by (intro go) auto
    next
      case (Reply c)
      consider "200 \<le> c \<and> c < 300" | "\<not> (200 \<le> c \<and> c < 300)" "400 \<le> c \<and> c < 500 \<and> c \<noteq> 429"
        | "\<not> (200 \<le> c \<and> c < 300)" "\<not> (400 \<le> c \<and> c < 500 \<and> c \<noteq> 429)" by blast
      then show ?thesis
      proof cases
        case 1
        then show ?thesis using "1.prems"(1) 4 Reply unfolding u by (intro here) auto
      next
        case 2
        then show ?thesis using "1.prems"(1) 4 Reply unfolding u by (intro here) auto
      next
        case 3
        then have "deliver_loop env exch cancelled ep entry body (a + 1) c (Some (''HTTP '' @ FormatInt c)) (sent @ [?q a]) = (st, err, sent')"
          using "1.prems"(1) na 4 Reply unfolding u by (simp only: Let_def http_outcome.case if_False if_True not_True_eq_False)
        then show ?thesis using "1.IH"(2) [OF _ _ _ refl Reply 3, of st err sent'] 4 Reply 3 by (intro go) auto
      qed
    qed
  qed
qed


subsection \<open>The dial check holds\<close>

lemma dial_addresses_safe:
  "dial_addresses env host port ips e = Inr ip \<Longrightarrow> \<not> webhookRestrictedHostsAllowed env
     \<Longrightarrow> ip \<in> set ips \<and> we_dial env ip port \<and> checkRestrictedHostIP (we_target_restricted env) (Some ip) = None"
  by (induction env host port ips e rule: dial_addresses.induct) (auto split: if_splits)

text \<open>
  C12. A webhook connection goes only to an address the dialled host stands for or resolves to, and
  never to a loopback, link-local or metadata address, whatever the resolver answers, unless one of
  the two overrides is set.
\<close>

theorem webhook_dial_safe:
  assumes "webhookDialContext env addr = Inr ip" and "SplitHostPort addr = Some (host, port)"
    and "\<not> webhookRestrictedHostsAllowed env" and "\<not> restrictedHostsAllowed (we_target_restricted env)"
  shows "\<not> IsLoopback ip \<and> \<not> IsLinkLocalUnicast ip \<and> \<not> IsLinkLocalMulticast ip \<and> ip \<noteq> v4_mapped [169, 254, 169, 254]
    \<and> we_dial env ip port
    \<and> (case ParseIP host of Some a \<Rightarrow> ip = a | None \<Rightarrow> (\<exists>ips. we_lookup env host = Some ips \<and> ip \<in> set ips))"
proof -
  have *: "we_dial env ip port \<and> checkRestrictedHostIP (we_target_restricted env) (Some ip) = None
    \<and> (case ParseIP host of Some a \<Rightarrow> ip = a | None \<Rightarrow> (\<exists>ips. we_lookup env host = Some ips \<and> ip \<in> set ips))"
    using assms(1-3) dial_addresses_safe
    by (fastforce simp: webhookDialContext_def simp del: dial_addresses.simps split: option.splits if_splits)
  then show ?thesis using assms(4) by (auto simp: checkRestrictedHostIP_def split: if_splits)
qed

text \<open>
  The override meant for targets opens webhooks as well: the metadata address is dialled although
  the override for webhooks is not set.
\<close>

theorem target_override_opens_webhooks:
  assumes "restrictedHostsAllowed (we_target_restricted env)" "\<not> webhookRestrictedHostsAllowed env"
    and "SplitHostPort addr = Some (host, port)" "ParseIP host = Some (v4_mapped [169, 254, 169, 254])"
    and "we_dial env (v4_mapped [169, 254, 169, 254]) port"
  shows "webhookDialContext env addr = Inr (v4_mapped [169, 254, 169, 254])"
  using assms by (simp add: webhookDialContext_def checkRestrictedHostIP_def)

subsection \<open>Settings are checked before they are stored\<close>

definition endpoint_ok :: "webhook_env \<Rightarrow> webhookEndpoint \<Rightarrow> bool" where
  "endpoint_ok env ep = (wh_Format ep \<in> {''generic'', ''slack''} \<and> wh_Name ep \<noteq> [] \<and> length (wh_Name ep) \<le> 100
     \<and> check_url env (wh_URL ep) = None \<and> wh_Events ep \<noteq> []
     \<and> list_all (\<lambda>e. e \<noteq> [] \<and> \<not> bad_pattern e) (wh_Events ep))"

lemma clean_events_ok: "clean_events es = Inr evs \<Longrightarrow> list_all (\<lambda>e. e \<noteq> [] \<and> \<not> bad_pattern e) evs"
proof (induction es arbitrary: evs)
  case (Cons e es)
  then show ?case
    by (cases "clean_events es") (auto simp: Let_def split: if_split_asm)
qed simp

lemma trimmed_endpoint_fields: "wh_ID (trimmed_endpoint ep) = wh_ID ep" "wh_Secret (trimmed_endpoint ep) = trim_space (wh_Secret ep)"
  by (simp_all add: trimmed_endpoint_def Let_def)

lemma validate_ok:
  assumes "validateWebhookEndpoint env ep = Inr ep'"
  shows "endpoint_ok env ep'" "wh_ID ep' = wh_ID ep" "wh_Secret ep' = trim_space (wh_Secret ep)"
proof -
  let ?t = "trimmed_endpoint ep"
  have f: "wh_Format ?t = ''generic'' \<or> wh_Format ?t = ''slack''" and n: "wh_Name ?t \<noteq> []" "\<not> length (wh_Name ?t) > 100"
    and u: "check_url env (wh_URL ?t) = None"
    using assms unfolding validateWebhookEndpoint_def Let_def by (auto split: if_split_asm option.splits)
  obtain evs where evs: "clean_events (wh_Events ?t) = Inr evs" "evs \<noteq> []" "ep' = ?t\<lparr>wh_Events := evs\<rparr>"
    using assms f n u unfolding validateWebhookEndpoint_def Let_def by (auto split: if_split_asm sum.splits)
  show "endpoint_ok env ep'" "wh_ID ep' = wh_ID ep" "wh_Secret ep' = trim_space (wh_Secret ep)"
    using f n u evs clean_events_ok [OF evs(1)] by (auto simp: endpoint_ok_def trimmed_endpoint_fields)
qed

lemma accept_endpoints_ok:
  assumes "accept_endpoints env existing i seen eps = Inr cfg"
  shows "length cfg = length eps \<and> list_all (endpoint_ok env) cfg \<and> distinct (map wh_ID cfg) \<and> set (map wh_ID cfg) \<inter> set seen = {}
    \<and> (\<forall>k < length eps. let given = trim_space (wh_ID (eps ! k)) in
         (given \<noteq> [] \<longrightarrow> wh_ID (cfg ! k) = given) \<and>
         wh_Secret (cfg ! k) = trim_space (if wh_Secret (eps ! k) = [] then existing (wh_ID (cfg ! k)) else wh_Secret (eps ! k)))"
  using assms
proof (induction env existing i seen eps arbitrary: cfg rule: accept_endpoints.induct)
  case (2 env existing i seen ep eps)
  let ?given = "trim_space (wh_ID ep)"
  obtain eid where eid: "(if ?given = [] then map_option (take 12) (we_token env i) else Some ?given) = Some eid" "eid \<notin> set seen"
    using 2(2) by (auto simp: Let_def split: option.splits if_splits)
  let ?ep = "ep\<lparr>wh_ID := eid, wh_Secret := (if wh_Secret ep = [] then existing eid else wh_Secret ep)\<rparr>"
  obtain ep' where v: "validateWebhookEndpoint env ?ep = Inr ep'"
    using 2(2) eid by (auto simp: Let_def split: sum.splits option.splits if_splits)
  obtain rest where rest: "accept_endpoints env existing (i + 1) (eid # seen) eps = Inr rest" "cfg = ep' # rest"
    using 2(2) eid v by (cases "accept_endpoints env existing (i + 1) (eid # seen) eps") (auto simp: Let_def)
  note hyp = 2(1) [OF refl eid(1) eid(2) refl v rest(1)]
  note ok = validate_ok [OF v]
  have "(let given = trim_space (wh_ID ((ep # eps) ! k)) in (given \<noteq> [] \<longrightarrow> wh_ID (cfg ! k) = given) \<and>
      wh_Secret (cfg ! k) = trim_space (if wh_Secret ((ep # eps) ! k) = [] then existing (wh_ID (cfg ! k)) else wh_Secret ((ep # eps) ! k)))"
    if "k < length (ep # eps)" for k
  proof (cases k)
    case 0
    then show ?thesis using ok(2,3) eid rest(2) by (auto simp: Let_def split: if_splits)
  next
    case (Suc j)
    then show ?thesis using hyp that rest(2) by (simp add: Let_def)
  qed
  then show ?case using hyp ok rest(2) eid(2) by auto
qed simp

text \<open>
  Replacing the webhook settings stores what it activates: at most twenty endpoints with distinct
  identifiers, each with a known format, a name, a permitted address and at least one usable pattern.
  An endpoint named by its identifier keeps its stored secret when the request has none, and no
  answer carries a secret.
\<close>

theorem put_webhooks_sound:
  assumes "handlePutWebhooks env r (Some eps) now s = (Inr resp, s')"
  shows "hk_setting s' = Some (wd_cfg (hk_disp s')) \<and> length (wd_cfg (hk_disp s')) = length eps \<and> length eps \<le> 20
    \<and> list_all (endpoint_ok env) (wd_cfg (hk_disp s')) \<and> distinct (map wh_ID (wd_cfg (hk_disp s')))
    \<and> list_all (\<lambda>w. wh_Secret (wr_endpoint w) = []) resp
    \<and> (\<forall>k < length eps. wh_Secret (eps ! k) = [] \<longrightarrow>
         wh_Secret (wd_cfg (hk_disp s') ! k) = trim_space (existing_secret (wd_cfg (hk_disp s)) (wh_ID (wd_cfg (hk_disp s') ! k))))"
proof -
  obtain db where db: "requireAdmin (le_guard (we_logs env)) r now (hk_db s) = (Inr (), db)"
    using assms by (auto simp: handlePutWebhooks_def hook_admin_def split: prod.splits sum.splits)
  obtain cfg where cfg: "accept_endpoints env (existing_secret (wd_cfg (hk_disp s))) 0 [] eps = Inr cfg" "\<not> length eps > webhookMaxEndpoints"
    using assms db by (auto simp: handlePutWebhooks_def hook_admin_def split: if_splits sum.splits)
  have hb: "hk_has_db s" using assms db cfg
    by (auto simp: handlePutWebhooks_def hook_admin_def saveWebhookConfigToDB_def split: if_splits)
  have s': "s' = s\<lparr>hk_db := db, hk_setting := Some cfg, hk_disp := setConfig cfg (hk_disp s)\<rparr>" "resp = webhookResponses s'"
    using assms db cfg hb by (auto simp: handlePutWebhooks_def hook_admin_def saveWebhookConfigToDB_def Let_def)
  show ?thesis using accept_endpoints_ok [OF cfg(1)] cfg(2)
    by (auto simp: s' setConfig_effect webhookResponses_def webhookMaxEndpoints_def list_all_iff Let_def)
qed

subsection \<open>Slack messages\<close>

lemma slack_no_angle: "CHR ''<'' \<notin> set (slackEscape s) \<and> CHR ''>'' \<notin> set (slackEscape s)"
  by (induction s) simp_all

lemma slackEscape_inj: "slackEscape s = slackEscape t \<Longrightarrow> s = t"
proof (induction s arbitrary: t)
  case Nil
  then show ?case by (cases t) (auto split: if_splits)
next
  case (Cons c s)
  then show ?case by (cases t) (auto split: if_splits)
qed

text \<open>The marks of Slack's formatting are not escaped: a value keeps its asterisks and backquotes.\<close>

lemma slack_formatting_kept: "c \<notin> {CHR ''&'', CHR ''<'', CHR ''>''} \<Longrightarrow> slackEscape (c # s) = c # slackEscape s"
  by simp

lemma sift_sorts:
  assumes "sorted (take j s)" "j < length s"
  shows "sift j s = insort (s ! j) (take j s) @ drop (Suc j) s"
  using assms
proof (induction j arbitrary: s)
  case 0
  then show ?case by (cases s) simp_all
next
  case (Suc j)
  let ?x = "s ! Suc j" and ?y = "s ! j"
  have tk: "take (Suc j) s = take j s @ [?y]" using Suc.prems(2) by (simp add: take_Suc_conv_app_nth)
  have srt: "sorted (take j s)" "\<And>z. z \<in> set (take j s) \<Longrightarrow> z \<le> ?y" using Suc.prems(1) unfolding tk by (simp_all add: sorted_append)
  show ?case
  proof (cases "?x < ?y")
    case True
    let ?s = "s[Suc j := ?y, j := ?x]"
    have "sift (Suc j) s = sift j ?s" using True by simp
    also have "\<dots> = insort (?s ! j) (take j ?s) @ drop (Suc j) ?s"
      by (rule Suc.IH) (use srt(1) Suc.prems(2) in simp_all)
    also have "\<dots> = insort ?x (take j s) @ ?y # drop (Suc (Suc j)) s"
      using Suc.prems(2) by (simp add: drop_update_swap Cons_nth_drop_Suc [symmetric] flip: Cons_nth_drop_Suc)
    also have "insort ?x (take j s) @ ?y # drop (Suc (Suc j)) s = insort ?x (take j s @ [?y]) @ drop (Suc (Suc j)) s"
    proof -
      have "insort ?x (xs @ [?y]) = insort ?x xs @ [?y]" for xs using True by (induction xs) auto
      then show ?thesis by simp
    qed
    finally show ?thesis unfolding tk .
  next
    case False
    have "insort ?x (take j s @ [?y]) = (take j s @ [?y]) @ [?x]"
    proof -
      let ?xs = "take j s @ [?y]"
      have "z \<le> ?x" if "z \<in> set ?xs" for z using that srt(2) [of z] False by (auto simp: not_less)
      then have "sorted (?xs @ [?x])" using Suc.prems(1) unfolding tk by (simp add: sorted_append)
      moreover have "mset (?xs @ [?x]) = mset (insort ?x ?xs)" by simp
      ultimately have "sort (insort ?x ?xs) = ?xs @ [?x]" by (metis properties_for_sort)
      moreover have "sort (insort ?x ?xs) = insort ?x ?xs" using Suc.prems(1) unfolding tk by (intro sorted_sort_id sorted_insort [THEN iffD2])
      ultimately show ?thesis by simp
    qed
    then show ?thesis unfolding tk using False Suc.prems(2)
      by (simp add: id_take_nth_drop [of "Suc j" s, unfolded tk, simplified, symmetric])
  qed
qed

text \<open>The insertion sort sorts.\<close>

lemma sortStrings_sorts: "sortStrings s = sort s"
proof -
  have "length (fold sift [1..<k] s) = length s \<and> sorted (take k (fold sift [1..<k] s)) \<and> mset (fold sift [1..<k] s) = mset s"
    if "k \<le> length s" "1 \<le> k" for k
    using that
  proof (induction k)
    case (Suc k)
    show ?case
    proof (cases "k = 0")
      case True
      then show ?thesis using Suc.prems by (cases s) simp_all
    next
      case False
      let ?t = "fold sift [1..<k] s"
      have t: "length ?t = length s" "sorted (take k ?t)" "mset ?t = mset s" using Suc False by simp_all
      have u: "fold sift [1..<Suc k] s = sift k ?t" using False by simp
      have v: "sift k ?t = insort (?t ! k) (take k ?t) @ drop (Suc k) ?t" by (rule sift_sorts) (use t Suc.prems in simp_all)
      have "mset (sift k ?t) = mset ?t" unfolding v using Suc.prems t(1)
        by (subst (4) id_take_nth_drop [of k ?t]) simp_all
      moreover have "take (Suc k) (sift k ?t) = insort (?t ! k) (take k ?t)" unfolding v using Suc.prems t(1) by simp
      moreover have "length (sift k ?t) = length s" unfolding v using Suc.prems t(1) by simp
      ultimately show ?thesis unfolding u using t by (simp add: sorted_insort)
    qed
  qed simp
  note run = this
  show ?thesis
  proof (cases "s = []")
    case False
    then have "sorted (sortStrings s)" "mset (sortStrings s) = mset s"
      using run [of "length s"] by (auto simp: sortStrings_def Suc_le_eq)
    then show ?thesis by (metis properties_for_sort)
  qed (simp add: sortStrings_def)
qed

text \<open>
  The Slack message of an event does not depend on the order in which the fields of the event are
  visited: two entries with the same fields give the same body, although the fields are a Go map.
\<close>

theorem slack_message_canonical:
  assumes "wh_Format ep = ''slack''" and "mset fs = mset gs"
  shows "webhookBody env ep \<lparr>en_ID = n, en_Time = t, en_Event = ev, en_Fields = fs\<rparr> =
    webhookBody env ep \<lparr>en_ID = m, en_Time = t, en_Event = ev, en_Fields = gs\<rparr>"
proof -
  have "mset (slack_parts env fs) = mset (slack_parts env gs)" using assms(2) by (simp add: slack_parts_def mset_filter)
  then have "sortStrings (slack_parts env fs) = sortStrings (slack_parts env gs)"
    unfolding sortStrings_sorts by (metis mset_sort properties_for_sort sorted_sort)
  then show ?thesis using assms(1) by (simp add: webhookBody_def)
qed

subsection \<open>Patterns\<close>

definition plain :: "char \<Rightarrow> bool" where
  "plain c = (c \<notin> {CHR ''*'', CHR ''?'', CHR ''['', CHR 0x5C})"

lemma scan_plain: "list_all plain p \<Longrightarrow> scan_end False (p @ ''*'') = (p, ''*'')" "list_all plain p \<Longrightarrow> scan_end False p = (p, [])"
  by (induction p) (simp_all add: plain_def)

lemma match_failed_plain: "list_all plain p \<Longrightarrow> matchChunk True p s = Some None"
proof (induction p)
  case (Cons c p)
  then have "c \<noteq> CHR ''['' \<and> c \<noteq> CHR ''?'' \<and> c \<noteq> CHR 0x5C" by (simp add: plain_def)
  then show ?case using Cons by (simp add: matchChunk.simps [of True "c # p"] Let_def)
qed (simp add: matchChunk.simps)

lemma match_plain: "list_all plain p \<Longrightarrow> matchChunk False p s = Some (if has_prefix s p then Some (drop (length p) s) else None)"
proof (induction p arbitrary: s)
  case Nil
  then show ?case by (simp add: matchChunk.simps has_prefix_def)
next
  case (Cons c p)
  then have "plain c" and pl: "list_all plain p" by simp_all
  then have c: "c \<noteq> CHR ''['' \<and> c \<noteq> CHR ''?'' \<and> c \<noteq> CHR 0x5C" "list_all plain p" by (auto simp: plain_def [of c])
  show ?case
  proof (cases s)
    case Nil
    then show ?thesis using c match_failed_plain [OF c(2)] by (simp add: matchChunk.simps [of False "c # p"] Let_def has_prefix_def)
  next
    case (Cons a t)
    then show ?thesis using c Cons.IH [of t] match_failed_plain [OF c(2)]
      by (cases "a = c") (auto simp: matchChunk.simps [of False "c # p"] Let_def has_prefix_def)
  qed
qed

lemma drop_star_plain: "list_all plain p \<Longrightarrow> p \<noteq> [] \<Longrightarrow> dropWhile (\<lambda>c. c = CHR ''*'') (p @ q) = p @ q \<and> hd (p @ q) \<noteq> CHR ''*''"
  by (cases p) (auto simp: plain_def)

text \<open>
  The pattern of an endpoint that ends in a star, with no other wildcard, matches exactly the
  events that begin with the rest of the pattern and go on without a slash.
\<close>

theorem prefix_pattern_matches:
  assumes "list_all plain p" and "p \<noteq> []" and "trim_space (p @ ''*'') = p @ ''*''"
  shows "webhookEventMatches [p @ ''*''] event \<longleftrightarrow> (\<exists>rest. event = p @ rest \<and> CHR ''/'' \<notin> set rest)"
proof -
  have star: "path_Match ''*'' s \<longleftrightarrow> CHR ''/'' \<notin> set s" for s
    by (simp add: path_Match.simps [of "''*''"] scanChunk_def)
  have "scanChunk (p @ ''*'') = (False, p, ''*'')"
    using drop_star_plain [OF assms(1,2), of "''*''"] scan_plain(1) [OF assms(1)] by (simp add: scanChunk_def)
  then have "path_Match (p @ ''*'') event \<longleftrightarrow> has_prefix event p \<and> CHR ''/'' \<notin> set (drop (length p) event)"
    by (subst path_Match.simps) (simp add: match_plain [OF assms(1)] star)
  moreover have "p @ ''*'' \<noteq> ''*''" using assms(2) by simp
  ultimately show ?thesis using assms(3)
    by (auto simp: has_prefix_def Let_def) (metis append_take_drop_id)
qed

subsection \<open>Examples\<close>

definition demo_hook_env :: webhook_env where
  "demo_hook_env = \<lparr>we_logs = demo_log_env, we_allow_restricted = [], we_target_restricted = [], we_hostname = ''h'',
     we_url_parse = (\<lambda>u. if u = ''https://x.test/'' then Some (''https'', ''x.test'', ''x.test'') else None), we_new_request = (\<lambda>_. True),
     we_hmac = (\<lambda>k b. k @ b), we_sprint = (\<lambda>v. case v of FString x \<Rightarrow> x | _ \<Rightarrow> ''?''), we_rfc3339 = (\<lambda>_. ''t''), we_rfc3339nano = (\<lambda>_. ''t''),
     we_json_text = Some, we_json_payload = (\<lambda>ev _ _ _. Some ev), we_token = (\<lambda>i. Some (''tok-12345678-'' @ Itoa i)),
     we_lookup = (\<lambda>_. Some [v4_mapped [127, 0, 0, 1], v4_mapped [10, 0, 0, 7]]), we_dial = (\<lambda>_ _. True)\<rparr>"

definition demo_endpoint :: "string \<Rightarrow> string \<Rightarrow> webhookEndpoint" where
  "demo_endpoint eid secret = \<lparr>wh_ID = eid, wh_Name = ''ops'', wh_URL = ''https://x.test/'', wh_Secret = secret, wh_Format = ''slack'',
     wh_Events = [''login*''], wh_Enabled = True\<rparr>"

definition demo_hooks :: HookApp where
  "demo_hooks = \<lparr>hk_db = demo_accounts, hk_has_db = True, hk_setting = None,
     hk_disp = setConfig [demo_endpoint ''a'' ''key''] new_dispatcher\<rparr>"

lemmas demo_hook_simps = demo_hook_env_def demo_endpoint_def trim_space_visible visible_def


theorem webhook_dial_safe_witness:
  "webhookDialContext demo_hook_env ''x.test:443'' = Inr (v4_mapped [10, 0, 0, 7]) \<and> \<not> IsLoopback (v4_mapped [10, 0, 0, 7])"
proof -
  have sp: "SplitHostPort ''x.test:443'' = Some (''x.test'', ''443'')"
    by (simp add: SplitHostPort_def last_index_byte_def Let_def)
  have ov: "\<not> webhookRestrictedHostsAllowed demo_hook_env" "\<not> restrictedHostsAllowed (we_target_restricted demo_hook_env)"
    by (simp_all add: webhookRestrictedHostsAllowed_def restrictedHostsAllowed_def demo_hook_env_def)
  have pip: "ParseIP ''x.test'' = None" by (simp add: ParseIP_def parse_ipv4_def ipv4_field_def is_digit_def)
  have "webhookDialContext demo_hook_env ''x.test:443'' = Inr (v4_mapped [10, 0, 0, 7])"
    using ov by (simp add: webhookDialContext_def sp pip equal_fold_def to_lower_def lower_char_def)
      (simp add: demo_hook_env_def checkRestrictedHostIP_def IsLoopback_def IsLinkLocalUnicast_def IsLinkLocalMulticast_def To4_def v4_mapped_def replicate_num)
  with webhook_dial_safe [OF this sp ov] show ?thesis by simp
qed

theorem slack_message_canonical_witness:
  "webhookBody demo_hook_env (demo_endpoint ''a'' [])
      \<lparr>en_ID = 1, en_Time = 0, en_Event = ''login'', en_Fields = [(''user_id'', FString ''bob''), (''remote'', FString ''r'')]\<rparr> =
   webhookBody demo_hook_env (demo_endpoint ''a'' [])
      \<lparr>en_ID = 2, en_Time = 0, en_Event = ''login'', en_Fields = [(''remote'', FString ''r''), (''user_id'', FString ''bob'')]\<rparr>"
  by (rule slack_message_canonical) (simp_all add: demo_endpoint_def add_mset_commute)

theorem prefix_pattern_matches_witness:
  "webhookEventMatches [''access_request_*''] ''access_request_denied'' \<and> \<not> webhookEventMatches [''access_request_*''] ''login_failed''"
proof -
  have p: "list_all plain ''access_request_''" by (simp add: plain_def)
  have t: "trim_space (''access_request_'' @ ''*'') = ''access_request_'' @ ''*''" by (simp add: trim_space_visible visible_def)
  have "''access_request_denied'' = ''access_request_'' @ ''denied''" by simp
  moreover have "CHR ''/'' \<notin> set ''denied''" by simp
  ultimately have "webhookEventMatches [''access_request_'' @ ''*''] ''access_request_denied''"
    using prefix_pattern_matches [OF p _ t, of "''access_request_denied''"] by blast
  moreover have "\<not> webhookEventMatches [''access_request_'' @ ''*''] ''login_failed''"
    using prefix_pattern_matches [OF p _ t, of "''login_failed''"] by simp
  ultimately show ?thesis by simp
qed

lemma demo_accept:
  "existing ''a'' = ''key'' \<Longrightarrow> accept_endpoints demo_hook_env existing 0 [] [demo_endpoint ''a'' []] = Inr [demo_endpoint ''a'' ''key'']"
proof -
  assume ex: "existing ''a'' = ''key''"
  have u: "check_url demo_hook_env ''https://x.test/'' = None"
    by (simp add: check_url_def demo_hook_env_def webhookRestrictedHostsAllowed_def ParseIP_def parse_ipv4_def ipv4_field_def is_digit_def
      equal_fold_def to_lower_def lower_char_def)
  have t: "trimmed_endpoint (demo_endpoint ''a'' ''key'') = demo_endpoint ''a'' ''key''"
    by (simp add: trimmed_endpoint_def demo_endpoint_def Let_def trim_space_visible visible_def to_lower_def lower_char_def)
  have e: "trim_space ''login*'' = ''login*''" "\<not> bad_pattern ''login*''" "trim_space ''a'' = ''a''"
    by (simp_all add: trim_space_visible visible_def bad_pattern_def)
  have c: "clean_events [''login*''] = Inr [''login*'']" by (simp add: Let_def e)
  have f: "wh_Format (demo_endpoint ''a'' ''key'') = ''slack''" "wh_Name (demo_endpoint ''a'' ''key'') = ''ops''"
    "wh_URL (demo_endpoint ''a'' ''key'') = ''https://x.test/''" "wh_Events (demo_endpoint ''a'' ''key'') = [''login*'']"
    "demo_endpoint ''a'' ''key''\<lparr>wh_Events := [''login*'']\<rparr> = demo_endpoint ''a'' ''key''" by (simp_all add: demo_endpoint_def)
  have v: "validateWebhookEndpoint demo_hook_env (demo_endpoint ''a'' ''key'') = Inr (demo_endpoint ''a'' ''key'')"
    unfolding validateWebhookEndpoint_def Let_def t f u c by simp (simp add: demo_endpoint_def)
  have "(demo_endpoint ''a'' [])\<lparr>wh_ID := ''a'', wh_Secret := ''key''\<rparr> = demo_endpoint ''a'' ''key''"
    "wh_ID (demo_endpoint ''a'' []) = ''a''" "wh_Secret (demo_endpoint ''a'' []) = []" by (simp_all add: demo_endpoint_def)
  then show ?thesis using v ex by (simp add: Let_def e)
qed

theorem put_webhooks_sound_witness:
  "\<exists>resp s'. handlePutWebhooks demo_hook_env (demo_get ''/api/settings/webhooks'' ''s-alice'') (Some [demo_endpoint ''a'' []]) (time_unix 9) demo_hooks
      = (Inr resp, s') \<and> wh_Secret (wd_cfg (hk_disp s') ! 0) = trim_space ''key''"
proof -
  let ?h = "handlePutWebhooks demo_hook_env (demo_get ''/api/settings/webhooks'' ''s-alice'') (Some [demo_endpoint ''a'' []]) (time_unix 9) demo_hooks"
  have ad: "requireAdmin (le_guard (we_logs demo_hook_env)) (demo_get ''/api/settings/webhooks'' ''s-alice'') (time_unix 9) (hk_db demo_hooks) = (Inr (), demo_accounts)"
    using demo_alice by (simp add: demo_hook_env_def demo_log_env_def demo_hooks_def)
  have cfg: "wd_cfg (hk_disp demo_hooks) = [demo_endpoint ''a'' ''key'']" "hk_has_db demo_hooks" by (simp_all add: demo_hooks_def setConfig_effect)
  have ex: "existing_secret [demo_endpoint ''a'' ''key''] ''a'' = ''key''" by (simp add: existing_secret_def demo_endpoint_def)
  obtain resp s' where h: "?h = (Inr resp, s')" and i: "wh_ID (wd_cfg (hk_disp s') ! 0) = ''a''"
    using ad cfg demo_accept [of "existing_secret [demo_endpoint ''a'' ''key'']", OF ex]
    by (simp add: handlePutWebhooks_def hook_admin_def saveWebhookConfigToDB_def webhookMaxEndpoints_def Let_def setConfig_effect
      del: accept_endpoints.simps) (simp add: demo_endpoint_def)
  have "wh_Secret ([demo_endpoint ''a'' []] ! 0) = []" by (simp add: demo_endpoint_def)
  then have "wh_Secret (wd_cfg (hk_disp s') ! 0) = trim_space (existing_secret (wd_cfg (hk_disp demo_hooks)) ''a'')"
    using put_webhooks_sound [OF h] i by auto
  then show ?thesis using h cfg ex by auto
qed

end
