(* ===== verification/Audit_Sink.thy ===== *)
theory Audit_Sink
  imports Webhooks
begin

text \<open>
  The way of an audit event (\<open>src/internal/httpapi/logging.go\<close>, \<open>audit_sink.go\<close>): into the ring of
  recent entries, the table, the log file, the webhooks and the forwarder to an outside collector
  (\<open>audit_forwarder.go\<close>), whose settings are kept in the database (\<open>settings_store.go\<close>,
  \<open>settings_handler.go\<close>).

  The clock, dialling and writing on sockets, time formats and the JSON line of an entry are
  parameters.  A forwarder is its configuration, its channel, and what it has written.
\<close>

subsection \<open>The forwarder\<close>

record auditForwarderConfig =
  fc_Enabled :: bool
  fc_Proto :: string
  fc_Addr :: string
  fc_App :: string
  fc_Buffer :: int

record auditForwarder =
  fw_network :: string
  fw_addr :: string
  fw_appName :: string
  fw_host :: string
  fw_cap :: nat
  fw_ch :: "string list"
  fw_done :: bool
  fw_exited :: bool
  fw_conn :: bool
  fw_written :: "string list"

definition newAuditForwarder :: "string \<Rightarrow> auditForwarderConfig \<Rightarrow> auditForwarder option" where
  "newAuditForwarder hostname cfg =
     (if \<not> fc_Enabled cfg then None
      else let network = trim_space (fc_Proto cfg); network = (if network = [] then ''udp'' else network);
               addr = trim_space (fc_Addr cfg);
               addr = (if addr = [] \<and> (network = ''unix'' \<or> network = ''unixgram'') then ''/dev/log'' else addr)
        in if addr = [] then None
           else let app = trim_space (fc_App cfg);
                    buf = (if fc_Buffer cfg \<le> 0 then 2000 else fc_Buffer cfg);
                    buf = (if buf > 200000 then 200000 else buf)
             in Some \<lparr>fw_network = network, fw_addr = addr, fw_appName = (if app = [] then ''vantyx'' else app),
                  fw_host = (if hostname = [] then ''unknown'' else hostname), fw_cap = nat buf, fw_ch = [], fw_done = False,
                  fw_exited = False, fw_conn = False, fw_written = []\<rparr>)"

text \<open>Digits only, at most a thousand million.\<close>

fun atoi_safe_loop :: "nat list \<Rightarrow> int \<Rightarrow> int option" where
  "atoi_safe_loop [] n = Some n"
| "atoi_safe_loop (r # rs) n =
     (if r < 48 \<or> r > 57 then None
      else let n = n * 10 + (int r - 48) in if n > 1000000000 then None else atoi_safe_loop rs n)"

definition strconvAtoiSafe :: "string \<Rightarrow> int option" where
  "strconvAtoiSafe s = (let s = trim_space s in if s = [] then None else atoi_safe_loop (runes s) 0)"

record forward_vars =
  fv_ADDR :: string
  fv_PROTO :: string
  fv_APP :: string
  fv_BUFFER :: string

definition newAuditForwarderFromEnv :: "string \<Rightarrow> forward_vars \<Rightarrow> auditForwarder option" where
  "newAuditForwarderFromEnv hostname v =
     (let addr = trim_space (fv_ADDR v); network = trim_space (fv_PROTO v); network = (if network = [] then ''udp'' else network);
          addr = (if addr = [] \<and> (network = ''unix'' \<or> network = ''unixgram'') then ''/dev/log'' else addr)
      in if addr = [] then None
         else let app = trim_space (fv_APP v); app = (if app = [] then ''vantyx'' else app); s = trim_space (fv_BUFFER v);
                  buf = (if s \<noteq> [] then (case strconvAtoiSafe s of Some n \<Rightarrow> if n > 0 \<and> n \<le> 200000 then n else 2000 | None \<Rightarrow> 2000) else 2000)
           in newAuditForwarder hostname \<lparr>fc_Enabled = True, fc_Proto = network, fc_Addr = addr, fc_App = app, fc_Buffer = buf\<rparr>)"

definition fwd_close :: "auditForwarder \<Rightarrow> auditForwarder" where
  "fwd_close f = f\<lparr>fw_done := True, fw_conn := False\<rparr>"

definition sendJSONL :: "string \<Rightarrow> auditForwarder \<Rightarrow> auditForwarder" where
  "sendJSONL line f = (if line = [] then f else if length (fw_ch f) < fw_cap f then f\<lparr>fw_ch := fw_ch f @ [line]\<rparr> else f)"

text \<open>\<open>dials\<close> and \<open>writes\<close> tell whether the dial and the write succeed.\<close>

definition ensureConn :: "bool \<Rightarrow> auditForwarder \<Rightarrow> auditForwarder" where
  "ensureConn dials f = (if fw_conn f then f else f\<lparr>fw_conn := dials\<rparr>)"

definition syslog_message :: "auditForwarder \<Rightarrow> string \<Rightarrow> string \<Rightarrow> string" where
  "syslog_message f ts line = ''<134>1 '' @ ts @ '' '' @ fw_host f @ '' '' @ fw_appName f @ '' - - - '' @ trim_space line @ [CHR 0x0A]"

definition writeOne :: "string \<Rightarrow> bool \<Rightarrow> bool \<Rightarrow> string \<Rightarrow> auditForwarder \<Rightarrow> auditForwarder" where
  "writeOne ts dials writes line f =
     (let msg = syslog_message f ts line in
      if has_prefix (fw_network f) ''udp'' then (if dials \<and> writes then f\<lparr>fw_written := fw_written f @ [msg]\<rparr> else f)
      else if fw_network f = ''unixgram'' then (if dials \<and> writes then f\<lparr>fw_written := fw_written f @ [msg]\<rparr> else f)
      else let f = ensureConn dials f in
        if \<not> fw_conn f then f
        else if writes then f\<lparr>fw_written := fw_written f @ [msg]\<rparr> else f\<lparr>fw_conn := False\<rparr>)"

text \<open>
  The cases of the select in the loop.  Once \<open>done\<close> is closed the loop may still choose another
  ready case before it returns.
\<close>

datatype fwd_op = FSend string | FReceive string bool bool | FTick bool | FDone | FClose

fun fwd_apply :: "fwd_op \<Rightarrow> auditForwarder \<Rightarrow> auditForwarder" where
  "fwd_apply (FSend line) f = sendJSONL line f"
| "fwd_apply (FReceive ts dials writes) f =
     (if fw_exited f then f else case fw_ch f of [] \<Rightarrow> f | b # rest \<Rightarrow> writeOne ts dials writes b (f\<lparr>fw_ch := rest\<rparr>))"
| "fwd_apply (FTick dials) f =
     (if fw_exited f then f else if has_prefix (fw_network f) ''tcp'' \<or> fw_network f = ''unix'' then ensureConn dials f else f)"
| "fwd_apply FDone f = (if fw_done f then f\<lparr>fw_exited := True\<rparr> else f)"
| "fwd_apply FClose f = fwd_close f"

subsection \<open>The sink\<close>

record AuditApp =
  ap_ring :: auditStore
  ap_rows :: "audit_row list option"
  ap_next :: int
  ap_file :: "string list option"
  ap_hooks :: webhookDispatcher
  ap_forwarder :: "auditForwarder option"
  ap_has_sink :: bool

definition string_field :: "auditFields \<Rightarrow> string \<Rightarrow> string" where
  "string_field fs k = (case lookup fs k of Some (FString v) \<Rightarrow> v | _ \<Rightarrow> [])"

definition int_field :: "auditFields \<Rightarrow> string \<Rightarrow> int" where
  "int_field fs k = (case lookup fs k of Some (FInt n) \<Rightarrow> n | Some (FInt64 n) \<Rightarrow> n | Some (FFloat64 n) \<Rightarrow> n | _ \<Rightarrow> 0)"

definition sink_row :: "int \<Rightarrow> AuditEntry \<Rightarrow> audit_row" where
  "sink_row i e = \<lparr>al_id = i, al_time = en_Time e, al_event = en_Event e, al_user_id = trim_space (string_field (en_Fields e) ''user_id''),
     al_method = string_field (en_Fields e) ''method'', al_path = string_field (en_Fields e) ''path'',
     al_status = int_field (en_Fields e) ''status'', al_remote = string_field (en_Fields e) ''remote'',
     al_duration_ms = int_field (en_Fields e) ''duration_ms'', al_fields = en_Fields e\<rparr>"

text \<open>\<open>marshal\<close> is the JSON line of an entry, absent when it cannot be encoded.\<close>

definition sink_write :: "(AuditEntry \<Rightarrow> string option) \<Rightarrow> AuditEntry \<Rightarrow> AuditApp \<Rightarrow> AuditApp" where
  "sink_write marshal e s =
     (let s = (case ap_rows s of Some t \<Rightarrow> s\<lparr>ap_rows := Some (t @ [sink_row (ap_next s) e]), ap_next := ap_next s + 1\<rparr> | None \<Rightarrow> s);
          s = (case (ap_file s, marshal e) of (Some ls, Some line) \<Rightarrow> s\<lparr>ap_file := Some (ls @ [line @ [CHR 0x0A]])\<rparr> | _ \<Rightarrow> s);
          s = s\<lparr>ap_hooks := dispatch e (ap_hooks s)\<rparr>
      in case (ap_forwarder s, marshal e) of (Some f, Some line) \<Rightarrow> s\<lparr>ap_forwarder := Some (sendJSONL line f)\<rparr> | _ \<Rightarrow> s)"

text \<open>The ring and the sink each read the clock; only the entry in the ring has the event among its fields.\<close>

definition audit :: "(AuditEntry \<Rightarrow> string option) \<Rightarrow> instant \<Rightarrow> instant \<Rightarrow> string \<Rightarrow> auditFields \<Rightarrow> AuditApp \<Rightarrow> AuditApp" where
  "audit marshal t1 t2 event fs s =
     (let s = s\<lparr>ap_ring := audit_add \<lparr>en_ID = 0, en_Time = t1, en_Event = event, en_Fields = AList.update ''event'' (FString event) fs\<rparr> (ap_ring s)\<rparr>
      in if ap_has_sink s then sink_write marshal \<lparr>en_ID = 0, en_Time = t2, en_Event = event, en_Fields = fs\<rparr> s else s)"

definition setAuditForwarder :: "string \<Rightarrow> auditForwarderConfig \<Rightarrow> AuditApp \<Rightarrow> AuditApp \<times> auditForwarder option" where
  "setAuditForwarder hostname cfg s =
     (if \<not> ap_has_sink s then (s, None)
      else (s\<lparr>ap_forwarder := newAuditForwarder hostname cfg\<rparr>, map_option fwd_close (ap_forwarder s)))"

subsection \<open>Settings\<close>

text \<open>
  The row \<open>audit_forwarder\<close> of \<open>app_settings\<close>: absent, empty, not decodable or a configuration.
\<close>

datatype forward_setting = NoSetting | EmptySetting | BadSetting | Setting auditForwarderConfig

definition zero_config :: auditForwarderConfig where
  "zero_config = \<lparr>fc_Enabled = False, fc_Proto = [], fc_Addr = [], fc_App = [], fc_Buffer = 0\<rparr>"

fun loadAuditForwarderConfigFromDB :: "bool \<Rightarrow> forward_setting \<Rightarrow> auditForwarderConfig option" where
  "loadAuditForwarderConfigFromDB has_db EmptySetting = (if has_db then Some zero_config else None)"
| "loadAuditForwarderConfigFromDB has_db (Setting cfg) = (if has_db then Some cfg else None)"
| "loadAuditForwarderConfigFromDB has_db _ = None"

record SettingsApp =
  sa_db :: AuthDB
  sa_has_db :: bool
  sa_setting :: forward_setting
  sa_audit :: AuditApp

definition initAuditSink :: "string \<Rightarrow> forward_vars \<Rightarrow> bool \<Rightarrow> SettingsApp \<Rightarrow> SettingsApp" where
  "initAuditSink hostname v file_opens s =
     (let fwd = (case loadAuditForwarderConfigFromDB (sa_has_db s) (sa_setting s) of
            Some cfg \<Rightarrow> newAuditForwarder hostname cfg | None \<Rightarrow> newAuditForwarderFromEnv hostname v)
      in s\<lparr>sa_audit := (sa_audit s)\<lparr>ap_has_sink := True, ap_file := (if file_opens then ap_file (sa_audit s) else None),
           ap_forwarder := (if file_opens then fwd else None)\<rparr>\<rparr>)"

definition settings_admin ::
  "log_env \<Rightarrow> http_req \<Rightarrow> instant \<Rightarrow> SettingsApp \<Rightarrow> (SettingsApp \<Rightarrow> (http_error + 'a) \<times> SettingsApp) \<Rightarrow> (http_error + 'a) \<times> SettingsApp" where
  "settings_admin env r now s k = (case requireAdmin (le_guard env) r now (sa_db s) of
     (Inl e, db) \<Rightarrow> (Inl e, s\<lparr>sa_db := db\<rparr>) | (Inr _, db) \<Rightarrow> k (s\<lparr>sa_db := db\<rparr>))"

definition env_config :: "forward_vars \<Rightarrow> auditForwarderConfig" where
  "env_config v = \<lparr>fc_Enabled = (trim_space (fv_ADDR v) \<noteq> [] \<or> trim_space (fv_PROTO v) = ''unixgram'' \<or> trim_space (fv_PROTO v) = ''unix''),
     fc_Proto = trim_space (fv_PROTO v), fc_Addr = trim_space (fv_ADDR v), fc_App = trim_space (fv_APP v), fc_Buffer = 0\<rparr>"

definition handleGetAuditForwarderSettings ::
  "log_env \<Rightarrow> forward_vars \<Rightarrow> http_req \<Rightarrow> instant \<Rightarrow> SettingsApp \<Rightarrow> (http_error + auditForwarderConfig \<times> string) \<times> SettingsApp" where
  "handleGetAuditForwarderSettings env v r now s = settings_admin env r now s (\<lambda>s.
     case loadAuditForwarderConfigFromDB (sa_has_db s) (sa_setting s) of
       Some cfg \<Rightarrow> (Inr (cfg, ''db''), s) | None \<Rightarrow> (Inr (env_config v, ''env''), s))"

definition clean_config :: "auditForwarderConfig \<Rightarrow> auditForwarderConfig" where
  "clean_config cfg = (let proto = trim_space (fc_Proto cfg) in
     cfg\<lparr>fc_Proto := (if proto = [] then ''udp'' else proto), fc_Addr := trim_space (fc_Addr cfg), fc_App := trim_space (fc_App cfg)\<rparr>)"

definition handlePutAuditForwarderSettings ::
  "log_env \<Rightarrow> string \<Rightarrow> http_req \<Rightarrow> auditForwarderConfig option \<Rightarrow> instant \<Rightarrow> SettingsApp
     \<Rightarrow> (http_error + auditForwarderConfig \<times> string) \<times> SettingsApp" where
  "handlePutAuditForwarderSettings env hostname r body now s = settings_admin env r now s (\<lambda>s.
     case body of None \<Rightarrow> (Inl (400, ''common.invalidRequestBody''), s)
     | Some given \<Rightarrow>
       let cfg = clean_config given in
       if fc_Proto cfg \<notin> {''udp'', ''tcp'', ''unix'', ''unixgram''} then (Inl (400, ''settings.invalidProto''), s)
       else if fc_Buffer cfg < 0 \<or> fc_Buffer cfg > 200000 then (Inl (400, ''settings.invalidBuffer''), s)
       else if fc_Enabled cfg \<and> fc_Addr cfg = [] \<and> \<not> (fc_Proto cfg = ''unix'' \<or> fc_Proto cfg = ''unixgram'')
         then (Inl (400, ''settings.addrRequired''), s)
       else if \<not> sa_has_db s then (Inl (500, ''settings.saveFailed''), s)
       else (Inr (cfg, ''db''), s\<lparr>sa_setting := Setting cfg, sa_audit := fst (setAuditForwarder hostname cfg (sa_audit s))\<rparr>))"

subsection \<open>Lines are forwarded in order\<close>

definition fwd_config :: "auditForwarder \<Rightarrow> string \<times> string \<times> string \<times> string \<times> nat" where
  "fwd_config f = (fw_network f, fw_addr f, fw_appName f, fw_host f, fw_cap f)"

definition sent_lines :: "fwd_op list \<Rightarrow> string list" where
  "sent_lines ops = concat (map (\<lambda>x. case x of FSend l \<Rightarrow> [l] | _ \<Rightarrow> []) ops)"

text \<open>What was written are lines of the list, one message each, and what waits comes after them.\<close>

definition fwd_ok :: "string list \<Rightarrow> auditForwarder \<Rightarrow> bool" where
  "fwd_ok lines f = (length (fw_ch f) \<le> fw_cap f \<and> (\<exists>tls. fw_written f = map (\<lambda>(ts, l). syslog_message f ts l) tls
     \<and> subseq (map snd tls @ fw_ch f) lines))"

lemma syslog_cong: "fw_host f = fw_host g \<Longrightarrow> fw_appName f = fw_appName g \<Longrightarrow> syslog_message f = syslog_message g"
  by (simp add: syslog_message_def fun_eq_iff)

lemma writeOne_effect:
  "fwd_config (writeOne ts dials writes l f) = fwd_config f \<and> fw_ch (writeOne ts dials writes l f) = fw_ch f
   \<and> (fw_written (writeOne ts dials writes l f) = fw_written f
      \<or> fw_written (writeOne ts dials writes l f) = fw_written f @ [syslog_message f ts l])"
  by (auto simp: writeOne_def ensureConn_def fwd_config_def Let_def syslog_message_def)

lemma subseq_drop_mid: "subseq (xs @ y # ys) zs \<Longrightarrow> subseq (xs @ ys) zs"
  by (metis subseq_order.order_trans list_emb_append_mono list_emb_Cons subseq_order.refl)

lemma fwd_apply_ok:
  assumes "fwd_ok lines f"
  shows "fwd_ok (lines @ sent_lines [x]) (fwd_apply x f) \<and> fwd_config (fwd_apply x f) = fwd_config f"
proof -
  obtain tls where len: "length (fw_ch f) \<le> fw_cap f" and w: "fw_written f = map (\<lambda>(ts, l). syslog_message f ts l) tls"
    and sub: "subseq (map snd tls @ fw_ch f) lines" using assms by (auto simp: fwd_ok_def)
  have same: "fwd_ok (lines @ ls) g" if "fw_ch g = fw_ch f" "fw_written g = fw_written f" "fwd_config g = fwd_config f" for g ls
    using that len w sub syslog_cong [of f g] by (auto simp: fwd_ok_def fwd_config_def intro!: exI [of _ tls] list_emb_prefix)
  show ?thesis
  proof (cases x)
    case (FSend l)
    have "subseq (map snd tls @ fw_ch f @ [l]) (lines @ [l])" using list_emb_append_mono [OF sub, of "[l]" "[l]"] by simp
    then have "fwd_ok (lines @ [l]) (f\<lparr>fw_ch := fw_ch f @ [l]\<rparr>)" if "length (fw_ch f) < fw_cap f"
      using that w syslog_cong [of f "f\<lparr>fw_ch := fw_ch f @ [l]\<rparr>"] by (auto simp: fwd_ok_def intro!: exI [of _ tls])
    then show ?thesis using FSend same [of f "[l]"] by (auto simp: sendJSONL_def fwd_config_def sent_lines_def)
  next
    case (FReceive ts dials writes)
    show ?thesis
    proof (cases "fw_exited f \<or> fw_ch f = []")
      case True
      then show ?thesis using FReceive same [of f "[]"] by (auto simp: sent_lines_def split: list.split)
    next
      case False
      then obtain b rest where ch: "fw_ch f = b # rest" by (cases "fw_ch f") auto
      let ?g = "f\<lparr>fw_ch := rest\<rparr>" and ?h = "writeOne ts dials writes b (f\<lparr>fw_ch := rest\<rparr>)"
      note eff = writeOne_effect [of ts dials writes b ?g]
      have cfg: "fwd_config ?h = fwd_config f" and hch: "fw_ch ?h = rest" using eff by (auto simp: fwd_config_def)
      have m: "syslog_message ?h = syslog_message f" "syslog_message ?g = syslog_message f"
        using cfg by (auto intro!: syslog_cong simp: fwd_config_def)
      have "\<exists>tls'. fw_written ?h = map (\<lambda>(ts, l). syslog_message f ts l) tls' \<and> subseq (map snd tls' @ rest) lines"
      proof (cases "fw_written ?h = fw_written ?g")
        case True
        then show ?thesis using w sub ch subseq_drop_mid by (intro exI [of _ tls]) auto
      next
        case False
        then have "fw_written ?h = fw_written f @ [syslog_message f ts b]" using eff m(2) by auto
        then show ?thesis using w sub ch by (intro exI [of _ "tls @ [(ts, b)]"]) auto
      qed
      then have "fwd_ok lines ?h" using len ch hch cfg m(1) by (auto simp: fwd_ok_def fwd_config_def)
      then show ?thesis using FReceive False ch cfg by (auto simp: sent_lines_def)
    qed
  next
    case (FTick dials)
    have "fw_ch (fwd_apply x f) = fw_ch f \<and> fw_written (fwd_apply x f) = fw_written f \<and> fwd_config (fwd_apply x f) = fwd_config f"
      using FTick by (auto simp: ensureConn_def fwd_config_def)
    then show ?thesis using FTick same [of "fwd_apply x f" "[]"] by (simp add: sent_lines_def)
  next
    case FDone
    then show ?thesis using same [of "fwd_apply x f" "[]"] by (auto simp: fwd_config_def sent_lines_def)
  next
    case FClose
    then show ?thesis using same [of "fwd_apply x f" "[]"] by (auto simp: fwd_close_def fwd_config_def sent_lines_def)
  qed
qed

lemma fwd_run_ok: "fwd_ok lines f \<Longrightarrow> fwd_ok (lines @ sent_lines ops) (fold fwd_apply ops f) \<and> fwd_config (fold fwd_apply ops f) = fwd_config f"
proof (induction ops arbitrary: lines f)
  case (Cons x ops)
  have "sent_lines (x # ops) = sent_lines [x] @ sent_lines ops" by (simp add: sent_lines_def)
  then show ?case using fwd_apply_ok [OF Cons.prems, of x] Cons.IH [of "lines @ sent_lines [x]" "fwd_apply x f"] by simp
qed (simp add: sent_lines_def)

text \<open>
  What the forwarder writes to the collector are audit lines in the order in which they were
  handed over, each at most once, whatever connections fail and whenever it is closed; lines that
  wait come later, and never more of them than the buffer holds.
\<close>

theorem forwarded_in_order:
  assumes "newAuditForwarder hostname cfg = Some f"
  shows "\<exists>tls. fw_written (fold fwd_apply ops f) = map (\<lambda>(ts, l). syslog_message f ts l) tls
      \<and> subseq (map snd tls @ fw_ch (fold fwd_apply ops f)) (sent_lines ops)
      \<and> length (fw_ch (fold fwd_apply ops f)) \<le> fw_cap f \<and> fw_cap f \<le> 200000"
proof -
  have f: "fw_ch f = [] \<and> fw_written f = [] \<and> fw_cap f \<le> 200000"
    using assms by (auto simp: newAuditForwarder_def Let_def split: if_split_asm)
  then have "fwd_ok [] f" by (simp add: fwd_ok_def)
  from fwd_run_ok [OF this, of ops]
  have ok: "fwd_ok (sent_lines ops) (fold fwd_apply ops f)" and c: "fwd_config (fold fwd_apply ops f) = fwd_config f" by simp_all
  have "syslog_message (fold fwd_apply ops f) = syslog_message f" "fw_cap (fold fwd_apply ops f) = fw_cap f"
    using c by (auto intro!: syslog_cong simp: fwd_config_def)
  then show ?thesis using ok f by (auto simp: fwd_ok_def)
qed

subsection \<open>An audited event is found\<close>

text \<open>The tables the search handlers read, for an application with these accounts.\<close>

definition logs_of :: "AuthDB \<Rightarrow> AuditApp \<Rightarrow> LogApp" where
  "logs_of db s = \<lparr>lg_db = db, lg_audit = ap_rows s, lg_commands = None, lg_buffer = ap_ring s\<rparr>"

text \<open>The table is in order, its next identifier is above all others, and no row is in the future.\<close>

definition trail_ok :: "instant \<Rightarrow> AuditApp \<Rightarrow> bool" where
  "trail_ok now s = (0 < ap_next s \<and> ring_ok (ap_ring s) \<and> (case ap_rows s of None \<Rightarrow> True
     | Some t \<Rightarrow> rows_in_order al_id al_time t \<and> list_all (\<lambda>r. al_id r < ap_next s \<and> al_time r \<le> now) t))"

lemma sink_write_rows:
  "ap_rows (sink_write marshal e s) = map_option (\<lambda>t. t @ [sink_row (ap_next s) e]) (ap_rows s)"
  "ap_next (sink_write marshal e s) = ap_next s + (case ap_rows s of Some _ \<Rightarrow> 1 | None \<Rightarrow> 0)"
  "ap_ring (sink_write marshal e s) = ap_ring s"
  by (simp_all add: sink_write_def Let_def split: option.split)

lemma audit_rows:
  assumes "ap_has_sink s"
  shows "ap_rows (audit marshal t1 t2 event fs s) = map_option (\<lambda>t. t @ [sink_row (ap_next s) \<lparr>en_ID = 0, en_Time = t2, en_Event = event, en_Fields = fs\<rparr>]) (ap_rows s)"
    "ap_next (audit marshal t1 t2 event fs s) = ap_next s + (case ap_rows s of Some _ \<Rightarrow> 1 | None \<Rightarrow> 0)"
    "ap_ring (audit marshal t1 t2 event fs s) =
       audit_add \<lparr>en_ID = 0, en_Time = t1, en_Event = event, en_Fields = AList.update ''event'' (FString event) fs\<rparr> (ap_ring s)"
  using assms by (simp_all add: audit_def Let_def sink_write_rows)

lemma ring_ok_add: "ring_ok s \<Longrightarrow> rs_nextID s + 1 < 2 ^ 63 \<Longrightarrow> ring_ok (audit_add e s)"
proof -
  assume a: "ring_ok s" "rs_nextID s + 1 < 2 ^ 63"
  let ?n = "rs_nextID s + 1" and ?m = "nat (rs_max s)" and ?l = "length (rs_items s)"
  have m: "0 < rs_max s" and w: "wrap64 ?n = ?n" using a wrap64_id [of ?n] by (auto simp: ring_ok_def)
  have ids: "map en_ID (rs_items s @ [e\<lparr>en_ID := ?n\<rparr>]) = [?n - int ?l .. ?n]"
    using a(1) upto_rec2 [of "?n - int ?l" ?n] by (simp add: ring_ok_def algebra_simps)
  have "map en_ID (lastn ?m (rs_items s @ [e\<lparr>en_ID := ?n\<rparr>])) = lastn ?m [?n - int ?l .. ?n]"
    by (simp only: ids [symmetric] lastn_def drop_map [symmetric] length_map)
  also have "\<dots> = [?n - int (min ?m (Suc ?l)) + 1 .. ?n]"
    by (rule nth_equalityI) (auto simp: lastn_def min_def nat_add_distrib)
  finally show ?thesis using a m by (auto simp: audit_add_step w ring_ok_def)
qed

text \<open>Auditing keeps the trail in order as long as the clock does not go back.\<close>

lemma trail_ok_audit:
  assumes "trail_ok now s" "ap_has_sink s" "now \<le> t2" "ap_next s + 1 < 2 ^ 63" "rs_nextID (ap_ring s) + 1 < 2 ^ 63"
  shows "trail_ok t2 (audit marshal t1 t2 event fs s)"
proof (cases "ap_rows s")
  case None
  then show ?thesis using assms ring_ok_add by (simp add: trail_ok_def audit_rows)
next
  case (Some t)
  let ?r = "sink_row (ap_next s) \<lparr>en_ID = 0, en_Time = t2, en_Event = event, en_Fields = fs\<rparr>"
  have r: "al_id ?r = ap_next s" "al_time ?r = t2" by (simp_all add: sink_row_def)
  have o: "rows_in_order al_id al_time t" and below: "\<And>x. x \<in> set t \<Longrightarrow> al_id x < ap_next s \<and> al_time x \<le> now"
    using assms(1) Some by (auto simp: trail_ok_def list_all_iff)
  have "rows_in_order al_id al_time (t @ [?r])"
    using o below assms(1,3,4) r unfolding rows_in_order_def by (fastforce simp: list_all_iff trail_ok_def)
  then show ?thesis using assms Some ring_ok_add below r by (fastforce simp: trail_ok_def audit_rows list_all_iff)
qed


text \<open>
  When the log file cannot be opened the sink is built without the forwarder that was just started:
  no event reaches the collector, although forwarding is configured.
\<close>

theorem file_failure_drops_forwarder:
  assumes "s' = initAuditSink hostname v False s"
  shows "ap_has_sink (sa_audit s') \<and> ap_forwarder (sa_audit s') = None
    \<and> ap_forwarder (audit marshal t1 t2 event fs (sa_audit s')) = None"
  using assms by (simp add: initAuditSink_def Let_def audit_def sink_write_def split: option.split)

text \<open>
  Changing the forwarder abandons the lines that wait in the old one, which is closed.
\<close>

lemma replaced_forwarder_closed:
  "ap_has_sink s \<Longrightarrow> ap_forwarder s = Some f \<Longrightarrow>
     setAuditForwarder hostname cfg s = (s\<lparr>ap_forwarder := newAuditForwarder hostname cfg\<rparr>, Some (fwd_close f))"
  by (simp add: setAuditForwarder_def)

text \<open>
  Storing forwarder settings activates exactly them: the settings have a known transport and a
  buffer within range, and afterwards there is a forwarder if and only if they are enabled, with an
  address and a buffer that is not empty.
\<close>

theorem put_forwarder_sound:
  assumes "handlePutAuditForwarderSettings env hostname r (Some given) now s = (Inr resp, s')" and "ap_has_sink (sa_audit s)"
  shows "resp = (clean_config given, ''db'') \<and> sa_setting s' = Setting (clean_config given)
    \<and> fc_Proto (clean_config given) \<in> {''udp'', ''tcp'', ''unix'', ''unixgram''}
    \<and> (ap_forwarder (sa_audit s') \<noteq> None \<longleftrightarrow> fc_Enabled given)
    \<and> (\<forall>f. ap_forwarder (sa_audit s') = Some f \<longrightarrow> fw_addr f \<noteq> [] \<and> 0 < fw_cap f \<and> fw_cap f \<le> 200000 \<and> fw_network f = fc_Proto (clean_config given))"
proof -
  let ?c = "clean_config given"
  have ok: "fc_Proto ?c \<in> {''udp'', ''tcp'', ''unix'', ''unixgram''}" "\<not> (fc_Buffer ?c < 0 \<or> fc_Buffer ?c > 200000)"
      "\<not> (fc_Enabled ?c \<and> fc_Addr ?c = [] \<and> \<not> (fc_Proto ?c = ''unix'' \<or> fc_Proto ?c = ''unixgram''))"
      "resp = (?c, ''db'')" "sa_setting s' = Setting ?c" "sa_audit s' = fst (setAuditForwarder hostname ?c (sa_audit s))"
    using assms(1) unfolding handlePutAuditForwarderSettings_def settings_admin_def Let_def
    by (auto split: prod.split_asm sum.split_asm if_split_asm)
  have t: "trim_space (fc_Proto ?c) = fc_Proto ?c" "trim_space (fc_Addr ?c) = fc_Addr ?c" "fc_Proto ?c \<noteq> []" "fc_Enabled ?c = fc_Enabled given"
    by (auto simp: clean_config_def Let_def trim_space_visible visible_def)
  have f: "ap_forwarder (sa_audit s') = newAuditForwarder hostname ?c" using ok(6) assms(2) by (simp add: setAuditForwarder_def)
  have g: "newAuditForwarder hostname ?c \<noteq> None \<longleftrightarrow> fc_Enabled given"
    using ok(3) t by (auto simp: newAuditForwarder_def Let_def)
  have "fw_addr h \<noteq> [] \<and> 0 < fw_cap h \<and> fw_cap h \<le> 200000 \<and> fw_network h = fc_Proto ?c" if "newAuditForwarder hostname ?c = Some h" for h
    using that ok(2) t by (auto simp: newAuditForwarder_def Let_def split: if_split_asm)
  then show ?thesis using ok(1,4,5) f g by simp
qed

subsection \<open>Examples\<close>

definition demo_forward :: auditForwarderConfig where
  "demo_forward = \<lparr>fc_Enabled = True, fc_Proto = ''tcp'', fc_Addr = ''siem:514'', fc_App = ''v'', fc_Buffer = 1\<rparr>"

definition demo_forwarder :: auditForwarder where
  "demo_forwarder = \<lparr>fw_network = ''tcp'', fw_addr = ''siem:514'', fw_appName = ''v'', fw_host = ''h'', fw_cap = 1, fw_ch = [], fw_done = False,
     fw_exited = False, fw_conn = False, fw_written = []\<rparr>"

definition demo_trail :: AuditApp where
  "demo_trail = \<lparr>ap_ring = newAuditStore 2, ap_rows = Some [demo_audit_row 1 (25 * hour)], ap_next = 2, ap_file = None,
     ap_hooks = new_dispatcher, ap_forwarder = None, ap_has_sink = True\<rparr>"

lemma demo_forwarder_new: "newAuditForwarder ''h'' demo_forward = Some demo_forwarder"
  by (simp add: newAuditForwarder_def demo_forward_def demo_forwarder_def Let_def trim_space_visible visible_def)

theorem forwarded_in_order_witness:
  "fw_written (fold fwd_apply [FSend ''a'', FSend ''b'', FReceive ''t'' True True, FSend ''c'', FReceive ''u'' False True] demo_forwarder) =
     [syslog_message demo_forwarder ''t'' ''a'', syslog_message demo_forwarder ''u'' ''c'']
   \<and> (\<exists>tls. fw_written (fold fwd_apply [FSend ''a'', FSend ''b'', FReceive ''t'' True True, FSend ''c'', FReceive ''u'' False True] demo_forwarder) =
        map (\<lambda>(ts, l). syslog_message demo_forwarder ts l) tls)"
proof
  show "fw_written (fold fwd_apply [FSend ''a'', FSend ''b'', FReceive ''t'' True True, FSend ''c'', FReceive ''u'' False True] demo_forwarder) =
     [syslog_message demo_forwarder ''t'' ''a'', syslog_message demo_forwarder ''u'' ''c'']"
    by (simp add: demo_forwarder_def sendJSONL_def writeOne_def ensureConn_def syslog_message_def Let_def has_prefix_def)
qed (use forwarded_in_order [OF demo_forwarder_new, of "[FSend ''a'', FSend ''b'', FReceive ''t'' True True, FSend ''c'', FReceive ''u'' False True]"]
     in blast)

lemma demo_trail_ok: "trail_ok (25 * hour) demo_trail"
  by (simp add: trail_ok_def demo_trail_def ring_ok_def newAuditStore_def rows_in_order_def demo_audit_row_def)


definition demo_settings :: SettingsApp where
  "demo_settings = \<lparr>sa_db = demo_accounts, sa_has_db = True, sa_setting = NoSetting, sa_audit = demo_trail\<rparr>"

theorem put_forwarder_sound_witness:
  "\<exists>s'. handlePutAuditForwarderSettings demo_log_env ''h'' (demo_get ''/api/settings'' ''s-alice'') (Some demo_forward) (time_unix 9) demo_settings =
       (Inr (demo_forward, ''db''), s') \<and> ap_forwarder (sa_audit s') \<noteq> None"
proof -
  let ?h = "handlePutAuditForwarderSettings demo_log_env ''h'' (demo_get ''/api/settings'' ''s-alice'') (Some demo_forward) (time_unix 9) demo_settings"
  have c: "clean_config demo_forward = demo_forward"
    by (simp add: clean_config_def demo_forward_def Let_def trim_space_visible visible_def)
  have ad: "requireAdmin (le_guard demo_log_env) (demo_get ''/api/settings'' ''s-alice'') (time_unix 9) demo_accounts = (Inr (), demo_accounts)"
    using demo_alice by (simp add: demo_log_env_def)
  obtain s' where h: "?h = (Inr (demo_forward, ''db''), s')"
    by (simp add: handlePutAuditForwarderSettings_def settings_admin_def demo_settings_def ad c Let_def) (simp add: demo_forward_def)
  have "fc_Enabled demo_forward" "ap_has_sink (sa_audit demo_settings)"
    by (simp_all add: demo_forward_def demo_settings_def demo_trail_def)
  with put_forwarder_sound [OF h] h show ?thesis by auto
qed

end
