(* ===== verification/Spec2Isabelle.thy ===== *)
theory Spec2Isabelle
  imports Ring_Buffer Session_Manager Sharing_Service Auth_Login SSH_Bridge Telnet_Bridge
    File_Transfer Command_Log Account_Admin CLI_Filter Target_Updates Target_Bulk Sharing_Joins
    Audit_Sink
begin

text \<open>
  \<^bold>\<open>Vantyx.\<close>  A bastion server in Go: users log in to a web application (and to a command-line gateway
  over SSH), are granted targets through groups and tags, and open recorded terminal sessions to them,
  which they may share.  This development models the server's core logic under \<open>src/internal\<close> and
  proves what makes it correct, and, where the code does not do what its comments say, what it does
  instead.

  \<^bold>\<open>Parts and how they interact.\<close>  Every HTTP request passes the middlewares (origin check, locale,
  API token, forced password change) before a handler; the handlers authorise through the session
  store, the account store and the access store, all tables of one SQLite database, and act on the
  session managers, the bridges of the live sessions, the rooms that describe who shares them, and the
  file transfer manager.  The theories follow these parts; a theory imports the parts it calls.

  \<^item> \<open>Vantyx_Prelude\<close>: instants and durations (integers of nanoseconds since the zero time; \<open>Sub\<close>
    saturates at 64 bits), Go strings as byte lists with the standard library's trimming, prefixes and
    number parsing, Go maps as association lists, SQL UPDATE and DELETE, and the locale
    \<open>transition_system\<close> for invariants over all interleavings.
  \<^item> \<open>Go_Text\<close>: UTF-8 decoding, \<open>net.ParseIP\<close> and the address classes.
  \<^item> \<open>Ring_Buffer\<close> (\<open>session/ringbuf.go\<close>): the replay buffer refines "the last
    cap bytes written".
  \<^item> \<open>Session_Manager\<close> (\<open>session/manager.go\<close>): session objects in a heap, one operation per
    critical section, all interleavings of \<open>Start\<close>, \<open>Stop\<close> and the session goroutine.
  \<^item> \<open>Login_Limiter\<close> (\<open>ratelimit/login.go\<close>): refines the full history of failures.
  \<^item> \<open>Sharing_Registry\<close>, \<open>Sharing_Invitations\<close>, \<open>Sharing_Service\<close> (\<open>sharing/\<close>): rooms with their
    write token, invitations in their table, joining and kicking.
  \<^item> \<open>Access_Validation\<close>, \<open>Access_Schema\<close>, \<open>Access_Groups\<close>, \<open>Access_Targets\<close>, \<open>Secret_Box\<close>
    (\<open>access/\<close>, \<open>secret/\<close>): input validation, the tables with their cascades, who may reach which
    target, targets with encrypted credentials.
  \<^item> \<open>Auth_Store\<close>, \<open>Auth_Factors\<close>, \<open>Access_Requests\<close> (\<open>auth/\<close>, \<open>access/requests.go\<close>): accounts,
    login sessions, public keys, TOTP and recovery codes, API tokens, access requests; one invariant
    over all their operations.
  \<^item> \<open>Request_Guards\<close>, \<open>Auth_Login\<close>, \<open>Account_Admin\<close> (\<open>httpapi/\<close>): the middleware chain and the
    authorisation helpers, login with a second factor, and the administration of accounts and access
    requests, which composes the stores with session managers, rooms and invitations.
  \<^item> \<open>Client_Pool\<close>, \<open>Telnet_Codec\<close>, \<open>Telnet_Bridge\<close>, \<open>SSH_Bridge\<close> (\<open>telnetproxy/\<close>, \<open>sshproxy/\<close>): the
    Telnet protocol filter, host key verification, and the detachable bridges that replay and
    broadcast output to several attached clients with one writer.  Both bridges interpret the locales
    \<open>client_host\<close> and \<open>terminal_bridge\<close>.
  \<^item> \<open>File_Transfer\<close> (\<open>filetransfer/\<close>): jobs, their table and the manager under interleaving.
  \<^item> \<open>Command_Log\<close> (\<open>httpapi/command_line_tracker.go\<close>, \<open>command_store.go\<close>): the terminal line tracker
    with its 64-bit arithmetic and its panics.
  \<^item> \<open>CLI_Filter\<close> (\<open>sshd/cli_output_filter.go\<close>, \<open>cli_attach.go\<close>): the filter that keeps a target's
    output out of the header of an attached command-line session, and the loop reading its keys.
  \<^item> \<open>TFTP_Server\<close> (\<open>tftp/\<close>, \<open>httpapi/tftp_write_window.go\<close>, \<open>tftp_server_files.go\<close>): who may transfer
    which file while which write window is open, the paths, and the controller that runs the server.
  \<^item> \<open>Credential_Library\<close> (\<open>access/ssh_key_sqlite_store.go\<close>, \<open>credential_identity_sqlite_store.go\<close>, their
    handlers): private keys and login identities, sealed per row and field.
  \<^item> \<open>Server_Admin\<close>, \<open>Server_Tables\<close>, \<open>Target_Updates\<close>, \<open>Target_Bulk\<close>
    (\<open>httpapi/groups_handler.go\<close>, \<open>targets_handler.go\<close>, \<open>targets_bulk.go\<close>): groups and targets over HTTP, with the loop that looks for a free identifier;
    the tables under every sequence of requests, the pages of a listing, what an update does to
    stored secrets, and the CSV export and row-by-row import of targets.
  \<^item> \<open>Sharing_Handlers\<close>, \<open>Sharing_Sessions\<close>, \<open>Sharing_Joins\<close> (\<open>httpapi/sharing.go\<close>,
    \<open>sharing_join_common.go\<close>, \<open>terminal.go\<close>): sharing a terminal session over HTTP, composing the guards,
    the session manager, the rooms, the invitation table and the clients of the live bridges; the
    step relation \<open>share_step\<close> interleaves requests with bridges that take clients from their channel.
  \<^item> \<open>Log_Search\<close>, \<open>Webhooks\<close>, \<open>Audit_Sink\<close> (\<open>httpapi/audit_handler.go\<close>, \<open>command_handler.go\<close>,
    \<open>webhooks.go\<close>, \<open>audit_sink.go\<close>, \<open>audit_forwarder.go\<close>): the way of an audit event to the ring, the
    table, the webhooks and the outside collector, and the paged searches of both logs, which
    interpret the locale \<open>paged_log\<close>.

  \<^bold>\<open>Conventions.\<close>  A struct is a record, an error a constructor of a datatype or an HTTP status with
  its message key, a pointer shared by several holders an index into a heap, a handler a function from
  a state to its reply and the new state.  Readings of the clock, random bytes, and the outcomes the
  scheduler decides (a write that fails, a wait that times out) are arguments.  Third-party code is a
  parameter: bcrypt, SHA-256, AES-GCM, the public key parser, JSON decoding, Unicode tables beyond
  ASCII; the laws used of it (\<open>bcrypt_law\<close>, \<open>aead_law\<close> and the like) are named hypotheses with an
  instance.  Storage faults do not occur, so a branch that only they reach is absent.  Loops are
  structural recursions or have a termination proof, except the loop that looks for a free
  identifier, a partial function that is \<open>None\<close> when it does not return, with theorems on when it
  does; no fuel is used.  Integers are kept at their
  width where it matters: 64-bit wrap-around in the command tracker and in the lifetimes of write
  windows and invitations, the 64-bit counters of webhooks, bytes and 16-bit sizes in the Telnet codec;
  elsewhere they are \<open>int\<close>.

  \<^bold>\<open>What the lemmas show.\<close>  Exactness of access (a target is listed for a user exactly when the
  documented rule grants it) and soundness of the guards in front of every handler; no login session
  without the verified password and second factor; disabled and deleted accounts locked out; tables
  consistent under every sequence of operations; one writing user per session and replay without loss
  under every interleaving; chunk-independence of the stream parsers; pinned host keys; bounds on
  history and terminal sizes; confined paths and authorised transfers of the TFTP server; consistent
  links between targets and the credential library; who may type into a shared session, what a
  removal cuts off and which invitations a request can issue; audit events that are accounted for and
  found again, and webhooks that stay away from internal addresses; and the theorems behind the
  recorded findings: races between handlers, a panic in the command tracker, secrets that reach the
  log, log rows no page shows.

  \<^bold>\<open>Not modelled.\<close>  The web front end, \<open>patched_deps\<close> (vendored \<open>golang.org/x/crypto\<close>), the
  process entry points, the plain log, metrics and message catalogues; drawing and navigation of the
  command-line menu; the RDP, VNC and video recording processes, which drive external programs; the
  wire transports of SFTP, FTP and TFTP; OIDC and WebAuthn, whose protocol is in third-party
  packages; backups and retention; and the parts of the components marked partly
  modelled in the manifest.
\<close>

end
